(* ===== verification/Prelude.thy ===== *)
theory Prelude
  imports Main "HOL-Library.Word" "HOL-Library.Sublist"
begin

text \<open>
  Shared vocabulary of the development: C strings as HOL strings read through a cursor,
  the outcome of a piece of C that may run into undefined behaviour, the few functions of
  the C library the sources call, and generic lemmas on lists.

  A C string is the list of its bytes before the terminating NUL. A pointer into it is the
  suffix that starts at the pointer; the empty suffix is the terminator itself, so reading
  it gives NUL, and stepping past it is outside the array. Code that does so has the
  outcome \<open>UB\<close>; everything else is \<open>Ret\<close> of the value returned.
\<close>

section \<open>Fact collections\<close>

named_theorems cursor_simps \<open>evaluation of cursor reads and steps\<close>
named_theorems list_facts \<open>generic facts on lists used by several components\<close>

section \<open>Outcomes\<close>

datatype 'a outcome = UB | Ret 'a

fun is_ret :: "'a outcome \<Rightarrow> bool" where
  "is_ret UB = False"
| "is_ret (Ret _) = True"

fun bind_out :: "'a outcome \<Rightarrow> ('a \<Rightarrow> 'b outcome) \<Rightarrow> 'b outcome" where
  "bind_out UB f = UB"
| "bind_out (Ret a) f = f a"

lemma bind_out_Ret_iff:
  "bind_out m f = Ret b \<longleftrightarrow> (\<exists>a. m = Ret a \<and> f a = Ret b)"
  by (cases m) auto

lemma bind_out_cong [fundef_cong]:
  "m = m' \<Longrightarrow> (\<And>a. m' = Ret a \<Longrightarrow> f a = f' a) \<Longrightarrow> bind_out m f = bind_out m' f'"
  by (cases m') auto

section \<open>Cursors into C strings\<close>

abbreviation NUL :: char where "NUL \<equiv> CHR 0x00"
abbreviation NL :: char where "NL \<equiv> CHR 0x0A"
abbreviation TAB :: char where "TAB \<equiv> CHR 0x09"
abbreviation BSL :: char where "BSL \<equiv> CHR 0x5C"
abbreviation SQ :: char where "SQ \<equiv> CHR 0x27"
abbreviation DQ :: char where "DQ \<equiv> CHR 0x22"

text \<open>The character under the cursor.\<close>

fun peek :: "string \<Rightarrow> char" where
  "peek [] = NUL"
| "peek (c # cs) = c"

text \<open>A string that holds no NUL byte: what a C string can be.\<close>

definition cstr :: "string \<Rightarrow> bool" where
  "cstr s \<longleftrightarrow> NUL \<notin> set s"

lemma cstr_simps [simp]:
  "cstr []"
  "cstr (c # cs) \<longleftrightarrow> c \<noteq> NUL \<and> cstr cs"
  "cstr (xs @ ys) \<longleftrightarrow> cstr xs \<and> cstr ys"
  by (auto simp: cstr_def)

lemma cstr_take: "cstr s \<Longrightarrow> cstr (take n s)"
  by (auto simp: cstr_def dest: in_set_takeD)

lemma cstr_drop: "cstr s \<Longrightarrow> cstr (drop n s)"
  by (auto simp: cstr_def dest: in_set_dropD)

section \<open>Functions of the C library\<close>

text \<open>\<open>isspace\<close> of the C locale: space, and the control characters 9 to 13.\<close>

definition isspace :: "char \<Rightarrow> bool" where
  "isspace c \<longleftrightarrow> c \<in> {CHR 0x20, CHR 0x09, CHR 0x0A, CHR 0x0B, CHR 0x0C, CHR 0x0D}"

text \<open>\<open>strcmp\<close>: the sign of the first difference, bytes compared as unsigned.\<close>

fun strcmp :: "string \<Rightarrow> string \<Rightarrow> int" where
  "strcmp [] [] = 0"
| "strcmp [] (b # bs) = -1"
| "strcmp (a # as) [] = 1"
| "strcmp (a # as) (b # bs) =
     (if a = b then strcmp as bs
      else if (of_char a :: nat) < of_char b then -1 else 1)"

lemma strcmp_eq_0 [simp]: "strcmp a b = 0 \<longleftrightarrow> a = b"
  by (induction a b rule: strcmp.induct) auto

lemma strcmp_sym: "strcmp b a = - strcmp a b"
  by (induction a b rule: strcmp.induct)
    (auto simp: not_less le_less)

text \<open>\<open>strstr\<close>: the suffix that starts at the first occurrence of the needle.\<close>

fun strstr :: "string \<Rightarrow> string \<Rightarrow> string option" where
  "strstr [] needle = (if needle = [] then Some [] else None)"
| "strstr (c # cs) needle =
     (if prefix needle (c # cs) then Some (c # cs) else strstr cs needle)"

lemma strstr_Some:
  "strstr s n = Some t \<Longrightarrow> suffix t s \<and> prefix n t"
  by (induction s) (auto split: if_splits intro: suffix_ConsI)

lemma strstr_length: "strstr s n = Some t \<Longrightarrow> length t \<le> length s"
  using strstr_Some suffix_length_le by blast

lemma strstr_Nil [simp]: "strstr s [] = Some s"
  by (cases s) auto

text \<open>\<open>strchr\<close> for a character other than NUL.\<close>

fun strchr :: "string \<Rightarrow> char \<Rightarrow> string option" where
  "strchr [] c = None"
| "strchr (a # as) c = (if a = c then Some (a # as) else strchr as c)"

lemma strchr_eq:
  "strchr s c = (if c \<in> set s then Some (dropWhile (\<lambda>x. x \<noteq> c) s) else None)"
  by (induction s) auto

section \<open>Lists\<close>

text \<open>\<open>foldl_inv\<close>: a property kept by every step holds after a fold.\<close>

lemma foldl_inv:
  assumes "P s" and "\<And>s x. x \<in> set xs \<Longrightarrow> P s \<Longrightarrow> P (f s x)"
  shows "P (foldl f s xs)"
  using assms by (induction xs arbitrary: s) auto

lemma find_append:
  "find P (xs @ ys) = (case find P xs of None \<Rightarrow> find P ys | Some x \<Rightarrow> Some x)"
  by (induction xs) auto

lemma find_SomeD: "find P xs = Some x \<Longrightarrow> P x \<and> x \<in> set xs"
  by (auto simp: find_Some_iff)

lemma find_None_filter: "find P xs = None \<longleftrightarrow> filter P xs = []"
  by (auto simp: find_None_iff filter_empty_conv)

text \<open>Unlink the first element that satisfies a predicate from a linked list.\<close>

fun remove_first :: "('a \<Rightarrow> bool) \<Rightarrow> 'a list \<Rightarrow> 'a list" where
  "remove_first P [] = []"
| "remove_first P (x # xs) = (if P x then xs else x # remove_first P xs)"

lemma remove_first_none: "\<forall>x \<in> set xs. \<not> P x \<Longrightarrow> remove_first P xs = xs"
  by (induction xs) auto

lemma set_remove_first_subset: "set (remove_first P xs) \<subseteq> set xs"
  by (induction xs) auto

lemma remove_first_in: "x \<in> set xs \<Longrightarrow> \<not> P x \<Longrightarrow> x \<in> set (remove_first P xs)"
  by (induction xs) auto

lemma map_remove_first_distinct:
  "distinct (map f xs) \<Longrightarrow> distinct (map f (remove_first P xs))"
  using set_remove_first_subset by (induction xs) (auto, fastforce)

lemma remove_first_distinct:
  assumes "distinct (map f xs)"
  shows "remove_first (\<lambda>x. f x = k) xs = filter (\<lambda>x. f x \<noteq> k) xs"
  using assms
proof (induction xs)
  case Nil
  then show ?case by simp
next
  case (Cons x xs)
  show ?case
  proof (cases "f x = k")
    case True
    with Cons.prems have "filter (\<lambda>y. f y \<noteq> k) xs = xs"
      by (auto simp: filter_id_conv) (metis image_eqI)
    with True show ?thesis by simp
  next
    case False
    with Cons show ?thesis by simp
  qed
qed

lemma length_remove_first:
  "length (remove_first P xs) = (if \<exists>x \<in> set xs. P x then length xs - 1 else length xs)"
  by (induction xs) (auto simp: Suc_diff_le split: if_splits dest: length_pos_if_in_set)

text \<open>Apply a function to the first element that satisfies a predicate.\<close>

definition update_where :: "('a \<Rightarrow> bool) \<Rightarrow> ('a \<Rightarrow> 'a) \<Rightarrow> 'a list \<Rightarrow> 'a list" where
  "update_where P g xs = map (\<lambda>x. if P x then g x else x) xs"

lemma update_where_simps [simp]:
  "update_where P g [] = []"
  "update_where P g (x # xs) = (if P x then g x else x) # update_where P g xs"
  "length (update_where P g xs) = length xs"
  by (auto simp: update_where_def)

lemma map_update_where:
  "(\<And>x. P x \<Longrightarrow> f (g x) = f x) \<Longrightarrow> map f (update_where P g xs) = map f xs"
  by (auto simp: update_where_def)

lemma set_update_where:
  "x \<in> set (update_where P g xs) \<longleftrightarrow>
     (\<exists>y \<in> set xs. x = (if P y then g y else y))"
  by (auto simp: update_where_def)

section \<open>Optional values\<close>

fun whenSome :: "('a \<Rightarrow> bool) \<Rightarrow> 'a option \<Rightarrow> bool" where
  "whenSome P None = True"
| "whenSome P (Some x) = P x"

end
