(* ===== verification/CStrings.thy ===== *)
theory CStrings
  imports Prelude
begin

text \<open>
  String routines of \<^verbatim>\<open>kdm/backend/util.c\<close>: comparison, duplication and
  concatenation with the NULL pointer as \<open>None\<close>, \<open>replaceInString\<close> and
  \<open>expandMacros\<close> with their two passes (one measures the buffer, one fills it),
  \<open>hexToBinary\<close>, \<open>randomStr\<close> and the character counter used on utmp fields.
  Where a routine allocates, a flag says whether \<^verbatim>\<open>Malloc\<close> succeeded. The counters of the measuring passes
  (\<open>repCount\<close>, \<open>emCount\<close>) are \<^verbatim>\<open>int\<close>s in the code and numbers without a bound here, which is the same for strings
  below 2 GB; the size \<open>replaceInString\<close> computes from the count wraps around as in the code.
\<close>

section \<open>Comparison and duplication\<close>

fun strCmp :: "string option \<Rightarrow> string option \<Rightarrow> int" where
  "strCmp None None = 0"
| "strCmp None (Some _) = -1"
| "strCmp (Some _) None = 1"
| "strCmp (Some a) (Some b) = strcmp a b"

text \<open>
  \<open>reStrN mem dst src len\<close>: the new value of \<open>*dst\<close> and the return code (1 unchanged,
  2 replaced, 0 out of memory, in which case the destination is wiped).
\<close>

definition reStrN :: "bool \<Rightarrow> string option \<Rightarrow> string option \<Rightarrow> int \<Rightarrow> nat \<times> string option" where
  "reStrN mem dst src len =
     (case src of
        None \<Rightarrow> (2, None)
      | Some s \<Rightarrow>
          let n = (if len < 0 then length s else nat len) in
          if dst = Some (take n s) then (1, dst)
          else if \<not> mem then (0, None)
          else (2, Some (take n s)))"

definition reStr :: "bool \<Rightarrow> string option \<Rightarrow> string option \<Rightarrow> nat \<times> string option" where
  "reStr mem dst src = reStrN mem dst src (-1)"

text \<open>\<open>strNDup\<close> returns whether it succeeded and the copy.\<close>

definition strNDup :: "bool \<Rightarrow> string option \<Rightarrow> int \<Rightarrow> bool \<times> string option" where
  "strNDup mem src len =
     (case src of
        None \<Rightarrow> (True, None)
      | Some s \<Rightarrow>
          let n = (if len < 0 then length s else nat len) in
          if mem then (True, Some (take n s)) else (False, None))"

definition strDup :: "bool \<Rightarrow> string option \<Rightarrow> bool \<times> string option" where
  "strDup mem src = strNDup mem src (-1)"

text \<open>\<open>strApp\<close> appends its variadic arguments, the list, to \<open>*dst\<close>.\<close>

definition strAppLen :: "string option \<Rightarrow> string list \<Rightarrow> nat" where
  "strAppLen dst strs =
     1 + (case dst of None \<Rightarrow> 0 | Some d \<Rightarrow> length d) + sum_list (map length strs)"

definition strApp :: "bool \<Rightarrow> string option \<Rightarrow> string list \<Rightarrow> bool \<times> string option" where
  "strApp mem dst strs =
     (if \<not> mem then (False, None)
      else (True, Some ((case dst of None \<Rightarrow> [] | Some d \<Rightarrow> d) @ concat strs)))"

lemma strApp_fits:
  "strApp True dst strs = (True, Some r) \<Longrightarrow> length r + 1 = strAppLen dst strs"
  by (auto simp: strApp_def strAppLen_def length_concat split: option.splits)

lemma reStrN_code:
  assumes "reStrN mem dst src len = (c, d)"
  shows "c = 1 \<Longrightarrow> d = dst" and "c = 0 \<Longrightarrow> d = None \<and> \<not> mem" and "c \<le> 2"
    and "c \<noteq> 0 \<Longrightarrow> len < 0 \<Longrightarrow> d = src"
  using assms by (auto simp: reStrN_def Let_def split: option.splits if_splits)

lemma reStr_Some:
  "reStr mem dst src = (c, d) \<Longrightarrow> c \<noteq> 0 \<Longrightarrow> d = src"
  unfolding reStr_def by (rule reStrN_code(4)) auto

section \<open>replaceInString\<close>

text \<open>
  The first loop counts the occurrences; with an empty \<open>before\<close> it never advances, and
  the value is \<open>None\<close>: the function does not return.
\<close>

partial_function (option) repCount :: "string \<Rightarrow> string \<Rightarrow> nat \<Rightarrow> nat option" where
  "repCount str before n =
     (case strstr str before of
        None \<Rightarrow> Some n
      | Some p \<Rightarrow> repCount (drop (length before) p) before (Suc n))"

text \<open>
  The second loop copies the text up to each occurrence (\<open>ptr\<close> to \<open>str\<close>) and the
  replacement; after it \<open>strcpy\<close> copies the rest. \<open>buf\<close> is what has been written.
\<close>

partial_function (option) repFill :: "string \<Rightarrow> string \<Rightarrow> string \<Rightarrow> string \<Rightarrow> string option" where
  "repFill str before after buf =
     (case strstr str before of
        None \<Rightarrow> Some (buf @ str)
      | Some p \<Rightarrow>
          repFill (drop (length before) p) before after
            (buf @ take (length str - length p) str @ after))"

text \<open>
  The size computation: \<^verbatim>\<open>strlen(str) + (afterLen - beforeLen) * len\<close> in
  \<^verbatim>\<open>size_t\<close> (64 bit, wrapping where \<open>after\<close> is the shorter one), stored prior into a
  32-bit \<^verbatim>\<open>int\<close>.
\<close>

definition repLen :: "string \<Rightarrow> string \<Rightarrow> string \<Rightarrow> nat \<Rightarrow> int" where
  "repLen str before after cnt =
     (let sz = (of_nat (length str) :: 64 word)
            + (of_nat (length after) - of_nat (length before)) * of_nat cnt
      in sint (ucast sz :: 32 word))"

definition replaceInString :: "string \<Rightarrow> string \<Rightarrow> string \<Rightarrow> (int \<times> string) option" where
  "replaceInString str before after =
     (case repCount str before 0 of
        None \<Rightarrow> None
      | Some cnt \<Rightarrow>
          (case repFill str before after [] of
             None \<Rightarrow> None
           | Some r \<Rightarrow> Some (repLen str before after cnt + 1, r)))"

text \<open>What it is meant to compute: replace every occurrence, left to right.\<close>

function replaceAll :: "string \<Rightarrow> string \<Rightarrow> string \<Rightarrow> string" where
  "replaceAll before after [] = []"
| "replaceAll before after (c # cs) =
     (if before \<noteq> [] \<and> prefix before (c # cs)
      then after @ replaceAll before after (drop (length before) (c # cs))
      else c # replaceAll before after cs)"
  by pat_completeness auto
termination
  by (relation "measure (\<lambda>(b, a, s). length s)") auto

lemma replaceAll_strstr:
  assumes "before \<noteq> []"
  shows "replaceAll before after str =
    (case strstr str before of
       None \<Rightarrow> str
     | Some p \<Rightarrow> take (length str - length p) str @ after
         @ replaceAll before after (drop (length before) p))"
  using assms
proof (induction str)
  case Nil
  then show ?case by simp
next
  case (Cons c cs)
  then show ?case
    by (auto simp: Suc_diff_le strstr_length split: option.splits)
qed

text \<open>How often it replaces.\<close>

function occurrences :: "string \<Rightarrow> string \<Rightarrow> nat" where
  "occurrences before [] = 0"
| "occurrences before (c # cs) =
     (if before \<noteq> [] \<and> prefix before (c # cs)
      then Suc (occurrences before (drop (length before) (c # cs)))
      else occurrences before cs)"
  by pat_completeness auto
termination
  by (relation "measure (\<lambda>(b, s). length s)") auto

lemma occurrences_strstr:
  assumes "before \<noteq> []"
  shows "occurrences before str =
    (case strstr str before of
       None \<Rightarrow> 0
     | Some p \<Rightarrow> Suc (occurrences before (drop (length before) p)))"
  using assms by (induction str) (auto split: option.splits)

lemma drop_shorter:
  "strstr s b = Some p \<Longrightarrow> b \<noteq> [] \<Longrightarrow> length (drop (length b) p) < length s"
  using strstr_length [of s b p] strstr_Some [of s b p]
  by (cases b) (auto dest!: prefix_length_le)

lemma repCount_eq:
  assumes "before \<noteq> []"
  shows "repCount str before n = Some (n + occurrences before str)"
proof (induction str arbitrary: n rule: length_induct)
  case (1 str)
  show ?case
  proof (cases "strstr str before")
    case None
    then show ?thesis
      using assms by (simp add: repCount.simps [of str] occurrences_strstr)
  next
    case (Some p)
    then have "length (drop (length before) p) < length str"
      using assms by (rule drop_shorter)
    with "1.IH" Some show ?thesis
      using assms by (simp add: repCount.simps [of str] occurrences_strstr [of before str])
  qed
qed

lemma repFill_eq:
  assumes "before \<noteq> []"
  shows "repFill str before after buf = Some (buf @ replaceAll before after str)"
proof (induction str arbitrary: buf rule: length_induct)
  case (1 str)
  show ?case
  proof (cases "strstr str before")
    case None
    then show ?thesis
      using assms by (simp add: repFill.simps [of str] replaceAll_strstr)
  next
    case (Some p)
    then have "length (drop (length before) p) < length str"
      using assms by (rule drop_shorter)
    with "1.IH" Some show ?thesis
      using assms by (simp add: repFill.simps [of str] replaceAll_strstr [of before _ str])
  qed
qed

lemma repCount_empty: "repCount str [] n = None"
proof -
  have "False" if ret: "repCount str [] n = Some m" for m
  proof -
    have "before = [] \<longrightarrow> False" if "repCount str before n = Some m" for str before n m
      by (rule repCount.raw_induct [where P = "\<lambda>s b n m. b = [] \<longrightarrow> False", OF _ that])
        (auto split: option.splits)
    with ret show False by blast
  qed
  then show ?thesis by (cases "repCount str [] n") auto
qed

lemma length_replaceAll:
  "int (length (replaceAll before after str)) =
     int (length str) + (int (length after) - int (length before)) * int (occurrences before str)"
proof (induction before after str rule: replaceAll.induct)
  case (1 before after)
  then show ?case by simp
next
  case (2 before after c cs)
  show ?case
  proof (cases "before \<noteq> [] \<and> prefix before (c # cs)")
    case True
    then have "length before \<le> length (c # cs)" by (blast dest: prefix_length_le)
    with True "2.IH"(1) [OF True] show ?thesis
      by (simp add: of_nat_diff algebra_simps)
  next
    case False
    then have "int (length (replaceAll before after cs)) =
        int (length cs) + (int (length after) - int (length before)) * int (occurrences before cs)"
      by (rule "2.IH"(2))
    with False show ?thesis by auto
  qed
qed

lemma repLen_exact:
  assumes "before \<noteq> []"
    and small: "length (replaceAll before after str) < 2 ^ 31"
  shows "repLen str before after (occurrences before str) = int (length (replaceAll before after str))"
proof -
  let ?n = "length (replaceAll before after str)"
  have "(of_nat (length str) :: 64 word)
      + (of_nat (length after) - of_nat (length before)) * of_nat (occurrences before str)
    = of_int (int (length str) + (int (length after) - int (length before)) * int (occurrences before str))"
    by simp
  also have "\<dots> = of_nat ?n"
    by (simp only: length_replaceAll [symmetric] of_int_of_nat_eq)
  finally have sz: "(of_nat (length str) :: 64 word)
      + (of_nat (length after) - of_nat (length before)) * of_nat (occurrences before str) = of_nat ?n" .
  have "sint (ucast (of_nat ?n :: 64 word) :: 32 word) = int ?n"
    using small
    by (simp add: unsigned_of_nat signed_of_nat take_bit_nat_eq_self signed_take_bit_int_eq_self)
  then show ?thesis
    by (simp only: repLen_def Let_def sz)
qed

section \<open>expandMacros\<close>

text \<open>An entry of the table: the key, how often it was used, and the value (\<open>None\<close> is 0).\<close>

record expando =
  key :: char
  uses :: nat
  val :: "string option"

fun findExpando :: "char \<Rightarrow> expando list \<Rightarrow> expando option" where
  "findExpando c [] = None"
| "findExpando c (e # es) = (if c = key e then Some e else findExpando c es)"

fun bumpUse :: "char \<Rightarrow> expando list \<Rightarrow> expando list" where
  "bumpUse c [] = []"
| "bumpUse c (e # es) =
     (if c = key e then e\<lparr>uses := uses e + 1\<rparr> # es else e # bumpUse c es)"

text \<open>
  The first pass counts. \<open>emCount\<close> is the loop at \<^verbatim>\<open>oke1\<close>, \<open>emCountIn\<close> the inner loop
  after a percent sign, with \<open>rcnt\<close> characters passed since.
\<close>

fun emCount :: "expando list \<Rightarrow> string \<Rightarrow> nat"
  and emCountIn :: "expando list \<Rightarrow> nat \<Rightarrow> string \<Rightarrow> nat" where
  "emCount ex [] = 0"
| "emCount ex (c # cs) =
     (if c = CHR ''%'' then emCountIn ex 0 cs else Suc (emCount ex cs))"
| "emCountIn ex rcnt [] = 0"
| "emCountIn ex rcnt (c # cs) =
     (if c = CHR ''%'' then Suc (emCount ex cs)
      else case findExpando c ex of
        Some e \<Rightarrow> (case val e of Some v \<Rightarrow> length v + rcnt | None \<Rightarrow> 0) + emCount ex cs
      | None \<Rightarrow> emCountIn ex (Suc rcnt) cs)"

text \<open>
  The second pass writes. \<open>prior\<close> is the memory before the cursor, nearest byte first, so
  that \<^verbatim>\<open>memcpy(cp, str - 1 - rcnt, rcnt)\<close> copies the \<open>rcnt\<close> bytes in front of the key
  just read. The result is the text written and the table with its counters.
\<close>

fun emFill :: "expando list \<Rightarrow> string \<Rightarrow> string \<Rightarrow> string \<times> expando list"
  and emFillIn :: "expando list \<Rightarrow> nat \<Rightarrow> string \<Rightarrow> string \<Rightarrow> string \<times> expando list" where
  "emFill ex prior [] = ([], ex)"
| "emFill ex prior (c # cs) =
     (if c = CHR ''%'' then emFillIn ex 0 (c # prior) cs
      else (case emFill ex (c # prior) cs of (out, ex') \<Rightarrow> (c # out, ex')))"
| "emFillIn ex rcnt prior [] = ([], ex)"
| "emFillIn ex rcnt prior (c # cs) =
     (if c = CHR ''%'' then
        (case emFill ex (c # prior) cs of (out, ex') \<Rightarrow> (c # out, ex'))
      else case findExpando c ex of
        Some e \<Rightarrow>
          (case emFill (bumpUse c ex) (c # prior) cs of (out, ex') \<Rightarrow>
             ((case val e of
                 Some v \<Rightarrow> rev (take rcnt (drop 1 (c # prior))) @ v @ out
               | None \<Rightarrow> out), ex'))
      | None \<Rightarrow> emFillIn ex (Suc rcnt) (c # prior) cs)"

definition expandMacros :: "bool \<Rightarrow> string \<Rightarrow> expando list \<Rightarrow> string option \<times> expando list" where
  "expandMacros mem str ex =
     (if \<not> mem then (None, ex)
      else case emFill ex [] str of (out, ex') \<Rightarrow> (Some out, ex'))"

lemma findExpando_bump_None:
  "findExpando c (bumpUse d ex) = None \<longleftrightarrow> findExpando c ex = None"
  by (induction ex) auto

lemma findExpando_bump_Some:
  "findExpando c (bumpUse d ex) = Some e' \<Longrightarrow> \<exists>e. findExpando c ex = Some e \<and> val e' = val e"
  by (induction ex) (auto split: if_splits)

lemma emCount_bumpUse [simp]:
  "emCount (bumpUse d ex) s = emCount ex s"
  "emCountIn (bumpUse d ex) r s = emCountIn ex r s"
proof (induction ex s and ex r s rule: emCount_emCountIn.induct)
  case (4 ex rcnt c cs)
  show ?case
  proof (cases "findExpando c (bumpUse d ex)")
    case None
    with "4" findExpando_bump_None [of c d ex] show ?thesis by auto
  next
    case (Some e')
    with "4" findExpando_bump_Some [OF Some] show ?thesis by auto
  qed
qed auto

text \<open>The second pass writes exactly as many bytes as the first one counted.\<close>

lemma emFill_length:
  "length (fst (emFill ex prior s)) = emCount ex s"
  "r \<le> length prior \<Longrightarrow> length (fst (emFillIn ex r prior s)) = emCountIn ex r s"
  by (induction ex prior s and ex r prior s rule: emFill_emFillIn.induct)
    (auto split: prod.splits option.splits)

text \<open>
  What the expansion means, by the pieces of the format: literal characters, \<open>%%\<close> with
  anything between the two signs, and a percent sign, a prefix without keys and a key.
\<close>

datatype piece = Lit char | Pct string | Mac string char

fun renderPiece :: "piece \<Rightarrow> string" where
  "renderPiece (Lit c) = [c]"
| "renderPiece (Pct p) = CHR ''%'' # p @ ''%''"
| "renderPiece (Mac p k) = CHR ''%'' # p @ [k]"

fun wfPiece :: "expando list \<Rightarrow> piece \<Rightarrow> bool" where
  "wfPiece ex (Lit c) \<longleftrightarrow> c \<noteq> CHR ''%''"
| "wfPiece ex (Pct p) \<longleftrightarrow> (\<forall>c \<in> set p. c \<noteq> CHR ''%'' \<and> findExpando c ex = None)"
| "wfPiece ex (Mac p k) \<longleftrightarrow> k \<noteq> CHR ''%'' \<and> findExpando k ex \<noteq> None
     \<and> (\<forall>c \<in> set p. c \<noteq> CHR ''%'' \<and> findExpando c ex = None)"

fun pieceText :: "expando list \<Rightarrow> piece \<Rightarrow> string" where
  "pieceText ex (Lit c) = [c]"
| "pieceText ex (Pct p) = ''%''"
| "pieceText ex (Mac p k) =
     (case findExpando k ex of
        Some e \<Rightarrow> (case val e of Some v \<Rightarrow> p @ v | None \<Rightarrow> [])
      | None \<Rightarrow> [])"

lemma wfPiece_bump [simp]: "wfPiece (bumpUse d ex) p = wfPiece ex p"
  by (cases p) (simp_all add: findExpando_bump_None)

lemma pieceText_bump [simp]: "pieceText (bumpUse d ex) p = pieceText ex p"
proof (cases p)
  case (Mac q k)
  show ?thesis
  proof (cases "findExpando k (bumpUse d ex)")
    case None
    with Mac findExpando_bump_None [of k d ex] show ?thesis by auto
  next
    case (Some e')
    with Mac findExpando_bump_Some [OF Some] show ?thesis by auto
  qed
qed simp_all

lemma emFillIn_skip:
  "\<forall>c \<in> set p. c \<noteq> CHR ''%'' \<and> findExpando c ex = None \<Longrightarrow>
   emFillIn ex r prior (p @ s) = emFillIn ex (r + length p) (rev p @ prior) s"
  by (induction p arbitrary: r prior) auto

lemma emFill_piece:
  assumes "wfPiece ex p"
  shows "\<exists>ex'. fst (emFill ex prior (renderPiece p @ s)) =
      pieceText ex p @ fst (emFill ex' (rev (renderPiece p) @ prior) s)
    \<and> (ex' = ex \<or> (\<exists>k. ex' = bumpUse k ex))"
proof (cases p)
  case (Lit c)
  with assms show ?thesis
    by (intro exI [where x = ex]) (auto split: prod.splits)
next
  case (Pct q)
  with assms have q: "\<forall>c \<in> set q. c \<noteq> CHR ''%'' \<and> findExpando c ex = None" by simp
  have "fst (emFill ex prior (renderPiece p @ s))
      = fst (emFillIn ex (length q) (rev q @ CHR ''%'' # prior) (CHR ''%'' # s))"
    by (simp add: Pct emFillIn_skip [OF q])
  then show ?thesis
    by (intro exI [where x = ex]) (auto simp: Pct split: prod.splits)
next
  case (Mac q k)
  with assms obtain e where e: "findExpando k ex = Some e" and k: "k \<noteq> CHR ''%''"
    and q: "\<forall>c \<in> set q. c \<noteq> CHR ''%'' \<and> findExpando c ex = None" by auto
  have "fst (emFill ex prior (renderPiece p @ s))
      = fst (emFillIn ex (length q) (rev q @ CHR ''%'' # prior) (k # s))"
    by (simp add: Mac emFillIn_skip [OF q])
  with e k show ?thesis
    by (intro exI [where x = "bumpUse k ex"])
      (auto simp: Mac split: prod.splits option.splits)
qed

lemma emFill_pieces:
  assumes "\<forall>p \<in> set ps. wfPiece ex p"
  shows "fst (emFill ex prior (concat (map renderPiece ps))) = concat (map (pieceText ex) ps)"
  using assms
proof (induction ps arbitrary: ex prior)
  case Nil
  then show ?case by simp
next
  case (Cons p ps)
  from Cons.prems have "wfPiece ex p" by simp
  then obtain ex' where
    step: "fst (emFill ex prior (renderPiece p @ concat (map renderPiece ps))) =
      pieceText ex p @ fst (emFill ex' (rev (renderPiece p) @ prior) (concat (map renderPiece ps)))"
    and ex': "ex' = ex \<or> (\<exists>k. ex' = bumpUse k ex)"
    by (blast dest: emFill_piece [where prior = prior and s = "concat (map renderPiece ps)"])
  have "\<forall>q \<in> set ps. wfPiece ex' q" using Cons.prems ex' by auto
  then have "fst (emFill ex' (rev (renderPiece p) @ prior) (concat (map renderPiece ps)))
      = concat (map (pieceText ex') ps)"
    by (rule Cons.IH)
  also have "map (pieceText ex') ps = map (pieceText ex) ps" using ex' by auto
  finally show ?case using step by simp
qed

section \<open>hexToBinary, randomStr, strNChrCnt\<close>

text \<open>The \<open>atox\<close> macro: the value of a hexadecimal digit, or -1.\<close>

definition atox :: "char \<Rightarrow> int" where
  "atox c =
     (let n = of_char c :: nat in
      if 48 \<le> n \<and> n \<le> 57 then int n - 48
      else if 97 \<le> n \<and> n \<le> 102 then int n - 97 + 10
      else if 65 \<le> n \<and> n \<le> 70 then int n - 65 + 10
      else -1)"

text \<open>
  The loop of \<open>hexToBinary\<close>: the return value (the number of bytes, 0 for an error) and
  the bytes stored. A byte is the low eight bits of \<^verbatim>\<open>(top << 4) | bottom\<close>.
\<close>

fun hexLoop :: "8 word list \<Rightarrow> string \<Rightarrow> int \<times> 8 word list" where
  "hexLoop out [] = (int (length out), out)"
| "hexLoop out [c] = (0, out)"
| "hexLoop out (c # d # cs) =
     (if atox c < 0 then (0, out)
      else if atox d < 0 then (0, out)
      else hexLoop (out @ [word_of_int (or (push_bit 4 (atox c)) (atox d))]) cs)"

definition hexToBinary :: "string \<Rightarrow> int \<times> 8 word list" where
  "hexToBinary s = hexLoop [] s"

definition hexDigit :: "nat \<Rightarrow> char" where
  "hexDigit n = (if n < 10 then char_of (48 + n) else char_of (87 + n))"

definition hexOf :: "8 word list \<Rightarrow> string" where
  "hexOf bs = concat (map (\<lambda>b. [hexDigit (unat b div 16), hexDigit (unat b mod 16)]) bs)"

lemma atox_hexDigit: "n < 16 \<Longrightarrow> atox (hexDigit n) = int n"
  by (auto simp: atox_def hexDigit_def of_char_of Let_def)

lemma nibbles: "or (push_bit 4 (int (n div 16))) (int (n mod 16)) = int n"
proof -
  have lo: "take_bit 4 (int (n mod 16)) = int (n mod 16)"
    by (simp add: take_bit_int_eq_self)
  have "or (push_bit 4 (int (n div 16))) (int (n mod 16))
      = concat_bit 4 (int (n mod 16)) (int (n div 16))"
    unfolding concat_bit_def lo by (rule or.commute)
  also have "\<dots> = int (n mod 16) + int (n div 16) * 16"
    unfolding concat_bit_eq lo by (simp add: push_bit_eq_mult)
  also have "\<dots> = int (n mod 16 + n div 16 * 16)"
    by (simp only: of_nat_add of_nat_mult of_nat_numeral)
  also have "\<dots> = int n"
    by (simp only: mod_div_mult_eq)
  finally show ?thesis .
qed

lemma unat8_less: "unat (b :: 8 word) < 256"
  using unsigned_less [of b] by simp

lemma hexLoop_hexOf: "hexLoop out (hexOf bs) = (int (length out + length bs), out @ bs)"
proof (induction bs arbitrary: out)
  case Nil
  then show ?case by (simp add: hexOf_def)
next
  case (Cons b bs)
  have hi: "atox (hexDigit (unat b div 16)) = int (unat b div 16)"
    using unat8_less [of b] by (intro atox_hexDigit) simp
  have lo: "atox (hexDigit (unat b mod 16)) = int (unat b mod 16)"
    by (intro atox_hexDigit) simp
  have "hexLoop out (hexOf (b # bs)) = hexLoop (out @ [b]) (hexOf bs)"
    by (simp add: hexOf_def hi lo nibbles)
  with Cons.IH show ?case by simp
qed

text \<open>\<open>randomStr\<close>: six letters drawn from one 32-bit random number.\<close>

definition letters :: string where
  "letters = ''abcdefghijklmnopqrstuvwxyzABCDEFGHIJKLMNOPQRSTUVWXYZ0123456789''"

fun randLoop :: "nat \<Rightarrow> 32 word \<Rightarrow> string" where
  "randLoop 0 rn = []"
| "randLoop (Suc i) rn = letters ! unat (rn mod 62) # randLoop i (rn div 62)"

definition randomStr :: "32 word \<Rightarrow> string" where
  "randomStr rn = randLoop 6 rn"

lemma letters_props: "length letters = 62" "distinct letters" "set letters \<subseteq> {c. c \<noteq> CHR ''/''}"
  by (simp_all add: letters_def)

lemma unat_mod62: "unat (rn mod 62 :: 32 word) < 62"
proof -
  have "unat (rn mod 62) = unat rn mod 62" by (simp add: unat_mod)
  then show ?thesis by simp
qed

lemma randLoop_set: "set (randLoop n rn) \<subseteq> set letters"
proof (induction n arbitrary: rn)
  case (Suc n)
  have "letters ! unat (rn mod 62) \<in> set letters"
    using unat_mod62 by (intro nth_mem) (simp add: letters_props)
  with Suc show ?case by simp
qed simp

lemma randLoop_inj:
  "unat a < 62 ^ n \<Longrightarrow> unat b < 62 ^ n \<Longrightarrow> randLoop n a = randLoop n b \<Longrightarrow> a = b"
proof (induction n arbitrary: a b)
  case 0
  then show ?case by (simp add: unat_eq_0)
next
  case (Suc n)
  have m: "unat (a mod 62) = unat (b mod 62)"
    using Suc.prems(3) unat_mod62 letters_props by (simp add: nth_eq_iff_index_eq)
  have "unat (a div 62) < 62 ^ n" "unat (b div 62) < 62 ^ n"
    using Suc.prems(1,2) by (simp_all add: unat_div less_mult_imp_div_less mult.commute)
  with Suc.IH Suc.prems(3) have d: "a div 62 = b div 62" by simp
  from m have "unat a mod 62 = unat b mod 62" by (simp add: unat_mod)
  moreover from d have "unat (a div 62) = unat (b div 62)" by simp
  then have "unat a div 62 = unat b div 62" by (simp add: unat_div)
  ultimately have "unat a = unat b" by (metis mult_div_mod_eq)
  then show ?case by (simp add: word_unat_eq_iff)
qed

text \<open>\<open>strNChrCnt\<close> looks at \<open>slen\<close> bytes at most and stops at the terminator.\<close>

definition strNChrCnt :: "string \<Rightarrow> nat \<Rightarrow> char \<Rightarrow> nat" where
  "strNChrCnt s slen c = count_list (take slen s) c"

section \<open>Properties\<close>

text \<open>C35. \<open>replaceInString\<close> replaces every occurrence, scanning left to right; the size it
  computes with wrapping 64-bit arithmetic and a 32-bit result is the size of the text and its
  terminator whenever that fits an \<^verbatim>\<open>int\<close>; with an empty pattern it never returns.\<close>

theorem replaceInString_correct:
  "(if before = [] then replaceInString str before after = None
    else length (replaceAll before after str) < 2 ^ 31 \<longrightarrow>
      replaceInString str before after =
        Some (int (length (replaceAll before after str)) + 1, replaceAll before after str))"
  by (simp add: replaceInString_def repCount_eq repFill_eq repLen_exact repCount_empty)

theorem replaceInString_correct_witness:
  "replaceInString ''a%b%%c'' ''%'' ''xy'' = Some (10, ''axybxyxyc'')"
proof -
  have r: "replaceAll ''%'' ''xy'' ''a%b%%c'' = ''axybxyxyc''" by simp
  show ?thesis
    using replaceInString_correct [of "''%''" "''a%b%%c''" "''xy''"] by (simp add: r)
qed

text \<open>C34. \<open>expandMacros\<close>: a format that is a sequence of literal characters, \<open>%...%\<close> signs and
  macros with a prefix expands piece by piece (a macro whose value is unset vanishes with its
  prefix), and the text has exactly the length the measuring pass allocated.\<close>

theorem expandMacros_correct:
  assumes "\<forall>p \<in> set ps. wfPiece ex p"
  shows "\<exists>out ex'. expandMacros True (concat (map renderPiece ps)) ex = (Some out, ex')
    \<and> out = concat (map (pieceText ex) ps)
    \<and> length out = emCount ex (concat (map renderPiece ps))"
proof -
  let ?s = "concat (map renderPiece ps)"
  have "length (fst (emFill ex [] ?s)) = emCount ex ?s" by (rule emFill_length)
  with emFill_pieces [OF assms, of "[]"] show ?thesis
    by (cases "emFill ex [] ?s") (simp add: expandMacros_def)
qed

theorem expandMacros_correct_witness:
  "\<exists>ex'. expandMacros True ''a%%%-fhb''
      [\<lparr>key = CHR ''h'', uses = 0, val = Some ''host''\<rparr>] = (Some ''a%-fhostb'', ex')"
  using expandMacros_correct [of
      "[Lit CHR ''a'', Pct [], Mac ''-f'' CHR ''h'', Lit CHR ''b'']"
      "[\<lparr>key = CHR ''h'', uses = 0, val = Some ''host''\<rparr>]"]
  by simp

text \<open>\<open>hexToBinary\<close> reads back what a hexadecimal dump of any bytes says, and reports
  their number.\<close>

theorem hexToBinary_hexOf: "hexToBinary (hexOf bs) = (int (length bs), bs)"
  using hexLoop_hexOf [of "[]" bs] by (simp add: hexToBinary_def)

text \<open>\<open>randomStr\<close> yields six characters that can stand in a file name, and different
  random numbers give different names: no entropy of the 32-bit number is lost.\<close>

theorem randomStr_injective:
  "inj randomStr \<and> length (randomStr rn) = 6
    \<and> set (randomStr rn) \<subseteq> set letters - {CHR ''/'', NUL}"
proof (intro conjI)
  have small: "unat (w :: 32 word) < 62 ^ 6" for w
    using unsigned_less [of w, where 'a = nat] by simp
  show "inj randomStr"
    by (rule injI) (auto simp: randomStr_def intro: randLoop_inj [OF small small])
  have l: "length (randLoop n rn) = n" for n rn by (induction n arbitrary: rn) auto
  show "length (randomStr rn) = 6" by (simp add: randomStr_def l)
  have "CHR ''/'' \<notin> set letters" "NUL \<notin> set letters" by (simp_all add: letters_def)
  then show "set (randomStr rn) \<subseteq> set letters - {CHR ''/'', NUL}"
    using randLoop_set [of 6 rn] by (auto simp: randomStr_def)
qed

end
