(* ===== verification/ArgVec.thy ===== *)
theory ArgVec
  imports CStrings
begin

text \<open>
  The string arrays of \<^verbatim>\<open>kdm/backend/util.c\<close>: NULL-terminated arrays as lists (a NULL
  array is \<open>None\<close>), \<open>parseArgs\<close> with its measuring and its copying pass over each word,
  and the environment functions \<open>getEnv\<close>, \<open>setEnv\<close>, \<open>putEnv\<close>, whose contract is the
  locale \<open>env_store\<close>. An argument \<open>mok\<close> says which of the allocations of a call succeed,
  in the order the code makes them. The counter of the measuring pass (\<open>wordCnt\<close>) is an \<^verbatim>\<open>int\<close> in the code and has
  no bound here, which is the same for strings below 2 GB. \<open>getEnv\<close> and \<open>setEnv\<close> call \<^verbatim>\<open>memcmp\<close> with the length of
  the name also for an entry that is shorter; the model lets the comparison end at the first byte that differs, at the
  latest the terminator of the entry, which no name contains.
\<close>

section \<open>Arrays\<close>

type_synonym strarr = "string list option"

definition initStrArr :: "bool \<Rightarrow> strarr \<Rightarrow> strarr" where
  "initStrArr mem arr = (case arr of Some a \<Rightarrow> Some a | None \<Rightarrow> if mem then Some [] else None)"

definition arrLen :: "strarr \<Rightarrow> nat" where
  "arrLen arr = (case arr of None \<Rightarrow> 0 | Some a \<Rightarrow> length a)"

text \<open>\<open>addStrArr\<close>: grow by one slot (\<open>extStrArr\<close>) and copy \<open>len\<close> bytes (all if negative).\<close>

definition addStrArr :: "bool \<Rightarrow> bool \<Rightarrow> strarr \<Rightarrow> string \<Rightarrow> int \<Rightarrow> strarr" where
  "addStrArr memExt memDup arr str len =
     (if \<not> memExt then None
      else case strNDup memDup (Some str) len of
        (True, Some s) \<Rightarrow> Some ((case arr of None \<Rightarrow> [] | Some a \<Rightarrow> a) @ [s])
      | _ \<Rightarrow> None)"

text \<open>\<open>xCopyStrArr\<close>: a copy with \<open>rn\<close> empty slots in front.\<close>

definition xCopyStrArr :: "bool \<Rightarrow> nat \<Rightarrow> strarr \<Rightarrow> string option list option" where
  "xCopyStrArr mem rn arr =
     (if mem then Some (replicate rn None @ map Some (case arr of None \<Rightarrow> [] | Some a \<Rightarrow> a))
      else None)"

section \<open>parseArgs\<close>

text \<open>
  The quoted parts of a word. Both loops start after the opening quote and leave the
  cursor at the closing quote, or at the terminator of the string if there is none. In
  double quotes a backslash takes the next character literally; before the terminator it
  stands for itself.
\<close>

fun sqCnt :: "string \<Rightarrow> nat \<times> string" where
  "sqCnt [] = (0, [])"
| "sqCnt (c # cs) =
     (if c = SQ then (0, c # cs) else case sqCnt cs of (n, r) \<Rightarrow> (Suc n, r))"

fun dqCnt :: "string \<Rightarrow> nat \<times> string" where
  "dqCnt [] = (0, [])"
| "dqCnt (c # cs) =
     (if c = DQ then (0, c # cs)
      else if c = BSL then
        (case cs of [] \<Rightarrow> (1, []) | d # ds \<Rightarrow> (case dqCnt ds of (n, r) \<Rightarrow> (Suc n, r)))
      else case dqCnt cs of (n, r) \<Rightarrow> (Suc n, r))"

fun sqFill :: "string \<Rightarrow> string \<times> string" where
  "sqFill [] = ([], [])"
| "sqFill (c # cs) =
     (if c = SQ then ([], c # cs) else case sqFill cs of (w, r) \<Rightarrow> (c # w, r))"

fun dqFill :: "string \<Rightarrow> string \<times> string" where
  "dqFill [] = ([], [])"
| "dqFill (c # cs) =
     (if c = DQ then ([], c # cs)
      else if c = BSL then
        (case cs of [] \<Rightarrow> ([BSL], []) | d # ds \<Rightarrow> (case dqFill ds of (w, r) \<Rightarrow> (d # w, r)))
      else case dqFill cs of (w, r) \<Rightarrow> (c # w, r))"

lemma sq_agree: "sqCnt s = (length (fst (sqFill s)), snd (sqFill s))"
  by (induction s) (auto split: prod.splits)

lemma dq_agree: "dqCnt s = (length (fst (dqFill s)), snd (dqFill s))"
proof (induction s rule: length_induct)
  case (1 s)
  then have IH: "\<And>t. length t < length s \<Longrightarrow> dqCnt t = (length (fst (dqFill t)), snd (dqFill t))"
    by blast
  show ?case
  proof (cases s)
    case Nil
    then show ?thesis by simp
  next
    case (Cons c cs)
    with IH [of cs] show ?thesis
      using IH [of "tl cs"] by (cases cs) (simp_all split: prod.split)
  qed
qed

lemma sqFill_length: "length (snd (sqFill s)) \<le> length s"
  by (induction s) (auto split: prod.splits)

lemma dqFill_length: "length (snd (dqFill s)) \<le> length s"
proof (induction s rule: length_induct)
  case (1 s)
  then have IH: "\<And>t. length t < length s \<Longrightarrow> length (snd (dqFill t)) \<le> length t" by blast
  show ?case
  proof (cases s)
    case Nil
    then show ?thesis by simp
  next
    case (Cons c cs)
    with IH [of cs] show ?thesis
      using IH [of "tl cs"] by (cases cs) (auto split: prod.split)
  qed
qed

text \<open>
  One round of the body of the word loops, at a character that is not the terminator: the
  characters it stands for and the cursor it leaves, which is stepped once more by the
  loop condition. \<open>*++string\<close> at the terminator is outside the array.
\<close>

definition bodyCnt :: "char \<Rightarrow> string \<Rightarrow> nat \<times> string" where
  "bodyCnt c cs =
     (if c = BSL then (case cs of [] \<Rightarrow> (1, c # cs) | d # ds \<Rightarrow> (1, d # ds))
      else if c = SQ then sqCnt cs
      else if c = DQ then dqCnt cs
      else (1, c # cs))"

definition bodyFill :: "char \<Rightarrow> string \<Rightarrow> string \<times> string" where
  "bodyFill c cs =
     (if c = BSL then (case cs of [] \<Rightarrow> ([BSL], c # cs) | d # ds \<Rightarrow> ([d], d # ds))
      else if c = SQ then sqFill cs
      else if c = DQ then dqFill cs
      else ([c], c # cs))"

lemma body_agree: "bodyCnt c cs = (length (fst (bodyFill c cs)), snd (bodyFill c cs))"
  by (auto simp: bodyCnt_def bodyFill_def sq_agree dq_agree split: list.splits)

lemma bodyFill_length: "length (snd (bodyFill c cs)) \<le> Suc (length cs)"
  using sqFill_length [of cs] dqFill_length [of cs]
  by (auto simp: bodyFill_def split: list.splits)

lemma body_tail:
  "bodyFill c cs = (w, x # t) \<Longrightarrow> length t \<le> length cs"
  "bodyCnt c cs = (n, x # t) \<Longrightarrow> length t \<le> length cs"
  using bodyFill_length [of c cs] by (auto simp: body_agree)

function wordCnt :: "char \<Rightarrow> string \<Rightarrow> (nat \<times> string) outcome" where
  "wordCnt c cs =
     (case bodyCnt c cs of
        (n, []) \<Rightarrow> UB
      | (n, x # []) \<Rightarrow> Ret (n, [])
      | (n, x # d # ds) \<Rightarrow>
          if isspace d then Ret (n, d # ds)
          else bind_out (wordCnt d ds) (\<lambda>(m, t). Ret (n + m, t)))"
  by pat_completeness auto
termination
  by (relation "measure (\<lambda>(c, cs). length cs)") (auto dest!: sym [where s = "(_, _)"] body_tail)

function wordFill :: "char \<Rightarrow> string \<Rightarrow> (string \<times> string) outcome" where
  "wordFill c cs =
     (case bodyFill c cs of
        (w, []) \<Rightarrow> UB
      | (w, x # []) \<Rightarrow> Ret (w, [])
      | (w, x # d # ds) \<Rightarrow>
          if isspace d then Ret (w, d # ds)
          else bind_out (wordFill d ds) (\<lambda>(v, t). Ret (w @ v, t)))"
  by pat_completeness auto
termination
  by (relation "measure (\<lambda>(c, cs). length cs)") (auto dest!: sym [where s = "(_, _)"] body_tail)

declare wordCnt.simps [simp del] wordFill.simps [simp del]

text \<open>The measuring pass counts what the copying pass writes and ends at the same place.\<close>

definition cntOf :: "(string \<times> string) outcome \<Rightarrow> (nat \<times> string) outcome" where
  "cntOf r = bind_out r (\<lambda>(w, t). Ret (length w, t))"

lemma word_agree: "wordCnt c cs = cntOf (wordFill c cs)"
proof (induction c cs rule: wordFill.induct)
  case (1 c cs)
  obtain w r where b: "bodyFill c cs = (w, r)" by fastforce
  then have b': "bodyCnt c cs = (length w, r)" by (simp add: body_agree)
  consider "r = []" | x where "r = [x]" | x d ds where "r = x # d # ds"
    by (metis list.exhaust)
  then show ?case
  proof cases
    case 3
    show ?thesis
    proof (cases "isspace d")
      case True
      with b b' 3 show ?thesis
        by (simp add: wordCnt.simps [of c cs] wordFill.simps [of c cs] cntOf_def)
    next
      case False
      then have "wordCnt d ds = cntOf (wordFill d ds)"
        using 1 [OF b [symmetric] 3 refl] by simp
      with b b' 3 False show ?thesis
        by (cases "wordFill d ds")
          (auto simp: wordCnt.simps [of c cs] wordFill.simps [of c cs] cntOf_def)
    qed
  qed (simp_all add: b b' wordCnt.simps [of c cs] wordFill.simps [of c cs] cntOf_def)
qed

lemma word_tail: "wordFill c cs = Ret (w, t) \<Longrightarrow> length t \<le> length cs"
proof (induction c cs arbitrary: w t rule: wordFill.induct)
  case (1 c cs)
  obtain v r where b: "bodyFill c cs = (v, r)" by fastforce
  consider "r = []" | x where "r = [x]" | x d ds where "r = x # d # ds"
    by (metis list.exhaust)
  then show ?case
  proof cases
    case 3
    then have le: "length (d # ds) \<le> length cs" using b body_tail by blast
    show ?thesis
    proof (cases "isspace d")
      case True
      with "1.prems" b 3 le show ?thesis by (simp add: wordFill.simps [of c cs])
    next
      case False
      with "1.prems" b 3 obtain w' where "wordFill d ds = Ret (w', t)"
        by (auto simp: wordFill.simps [of c cs] bind_out_Ret_iff)
      then have "length t \<le> length ds" using 1(1) [OF b [symmetric] 3 refl False] by blast
      with le show ?thesis by simp
    qed
  qed (use "1.prems" b in \<open>auto simp: wordFill.simps [of c cs]\<close>)
qed

text \<open>
  \<open>parseArgs\<close>. Each word costs two allocations, the array slot and the word itself; the word
  gets \<open>wlen + 1\<close> bytes, and writing more than that would be undefined behaviour.
\<close>

function parseLoop :: "(nat \<Rightarrow> bool) \<Rightarrow> nat \<Rightarrow> string list \<Rightarrow> string \<Rightarrow> strarr outcome" where
  "parseLoop mok k argv [] = Ret (Some argv)"
| "parseLoop mok k argv (c # cs) =
     (if isspace c then parseLoop mok k argv cs
      else case wordCnt c cs of
        UB \<Rightarrow> UB
      | Ret (wlen, t) \<Rightarrow>
          if \<not> mok k \<or> \<not> mok (Suc k) then Ret None
          else (case wordFill c cs of
              UB \<Rightarrow> UB
            | Ret (w, _) \<Rightarrow>
                if wlen < length w then UB
                else parseLoop mok (Suc (Suc k)) (argv @ [w]) t))"
  by pat_completeness auto
termination
proof (relation "measure (\<lambda>(mok, k, argv, s). length s)")
  fix mok k argv c cs p wlen t w
  assume "wordCnt c cs = Ret p" and "(wlen, t) = p"
  then obtain v where "wordFill c cs = Ret (v, t)"
    by (cases "wordFill c cs") (auto simp: word_agree cntOf_def)
  then have "length t \<le> length cs" by (rule word_tail)
  then show "((mok, Suc (Suc k), argv @ [w], t), (mok, k, argv, c # cs))
      \<in> measure (\<lambda>(mok, k, argv, s). length s)" by simp
qed simp_all

definition parseArgs :: "(nat \<Rightarrow> bool) \<Rightarrow> strarr \<Rightarrow> string \<Rightarrow> strarr outcome" where
  "parseArgs mok argv s =
     (case initStrArr (mok 0) argv of
        None \<Rightarrow> Ret None
      | Some a \<Rightarrow> parseLoop mok 1 a s)"

declare parseLoop.simps(2) [simp del]

lemma parseLoop_space:
  "isspace c \<Longrightarrow> parseLoop mok k argv (c # cs) = parseLoop mok k argv cs"
  by (simp add: parseLoop.simps(2))

lemma parseLoop_word:
  "\<not> isspace c \<Longrightarrow> mok k \<Longrightarrow> mok (Suc k) \<Longrightarrow> wordFill c cs = Ret (w, t) \<Longrightarrow>
   parseLoop mok k argv (c # cs) = parseLoop mok (Suc (Suc k)) (argv @ [w]) t"
  by (simp add: parseLoop.simps(2) [of mok k argv c cs] word_agree cntOf_def)

lemma parseLoop_UB:
  "\<not> isspace c \<Longrightarrow> wordFill c cs = UB \<Longrightarrow> parseLoop mok k argv (c # cs) = UB"
  by (simp add: parseLoop.simps(2) word_agree cntOf_def)

text \<open>
  A command line that yields given words: each between double quotes, with a backslash
  before quotes and backslashes.
\<close>

definition escDq :: "char \<Rightarrow> string" where
  "escDq c = (if c = DQ \<or> c = BSL then [BSL, c] else [c])"

definition dquote :: "string \<Rightarrow> string" where
  "dquote w = DQ # concat (map escDq w) @ [DQ]"

definition argLine :: "string list \<Rightarrow> string" where
  "argLine ws = concat (map (\<lambda>w. dquote w @ '' '') ws)"

lemma dqFill_esc: "dqFill (concat (map escDq w) @ DQ # t) = (w, DQ # t)"
  by (induction w) (auto simp: escDq_def)

lemma wordFill_dquote:
  "isspace d \<Longrightarrow> wordFill DQ (concat (map escDq w) @ DQ # d # t) = Ret (w, d # t)"
  by (simp add: wordFill.simps [of DQ] bodyFill_def dqFill_esc)

lemma isspace_simps [simp]: "isspace CHR '' ''" "\<not> isspace DQ" "\<not> isspace SQ" "\<not> isspace BSL"
  by (simp_all add: isspace_def)

lemma parseLoop_argLine:
  "\<forall>i. mok i \<Longrightarrow> parseLoop mok k argv (argLine ws) = Ret (Some (argv @ ws))"
proof (induction ws arbitrary: k argv)
  case Nil
  then show ?case by (simp add: argLine_def)
next
  case (Cons w ws)
  have line: "argLine (w # ws) = DQ # (concat (map escDq w) @ DQ # CHR '' '' # argLine ws)"
    by (simp add: argLine_def dquote_def)
  have "parseLoop mok k argv (argLine (w # ws))
      = parseLoop mok (Suc (Suc k)) (argv @ [w]) (CHR '' '' # argLine ws)"
    unfolding line using Cons.prems by (intro parseLoop_word) (simp_all add: wordFill_dquote)
  also have "\<dots> = Ret (Some ((argv @ [w]) @ ws))"
    using Cons.IH [OF Cons.prems] by (simp only: parseLoop_space isspace_simps)
  finally show ?case by simp
qed

text \<open>A quote that is never closed runs the cursor past the end of the string.\<close>

lemma sqFill_open: "SQ \<notin> set q \<Longrightarrow> sqFill q = (q, [])"
  by (induction q) auto

lemma wordFill_sq_open: "SQ \<notin> set q \<Longrightarrow> wordFill SQ q = UB"
  by (simp add: wordFill.simps [of SQ] bodyFill_def sqFill_open)

lemma wordFill_open:
  assumes "SQ \<notin> set q" and "\<forall>x \<in> set (c # p). \<not> isspace x \<and> x \<notin> {SQ, DQ, BSL}"
  shows "wordFill c (p @ SQ # q) = UB"
proof -
  note sq = wordFill_sq_open [OF assms(1)]
  show "wordFill c (p @ SQ # q) = UB"
    using assms(2)
  proof (induction p arbitrary: c)
    case Nil
    with sq show ?case by (simp add: wordFill.simps [of c] bodyFill_def)
  next
    case (Cons d p)
    then show ?case by (simp add: wordFill.simps [of c] bodyFill_def)
  qed
qed

section \<open>The environment\<close>

type_synonym env = strarr

text \<open>\<open>getEnv\<close> returns the text after \<open>name=\<close> of the first entry that starts so.\<close>

definition getEnv :: "env \<Rightarrow> string \<Rightarrow> string option" where
  "getEnv e name =
     (case e of
        None \<Rightarrow> None
      | Some es \<Rightarrow>
          map_option (drop (length name + 1)) (find (\<lambda>x. prefix (name @ ''='') x) es))"

text \<open>
  \<open>setEnv\<close> overwrites the first entry that starts with \<open>name=\<close> or is \<open>name\<close> alone, and appends
  one otherwise. The two allocations are the new entry and the grown array; without them
  the environment stays as it was.
\<close>

fun setEnvIn :: "string \<Rightarrow> string \<Rightarrow> string list \<Rightarrow> string list option" where
  "setEnvIn name newe [] = None"
| "setEnvIn name newe (x # xs) =
     (if prefix (name @ ''='') x \<or> x = name then Some (newe # xs)
      else map_option ((#) x) (setEnvIn name newe xs))"

definition setEnv :: "bool \<Rightarrow> bool \<Rightarrow> env \<Rightarrow> string \<Rightarrow> string \<Rightarrow> env" where
  "setEnv memApp memArr e name value =
     (case strApp memApp None [name, ''='', value] of
        (True, Some newe) \<Rightarrow>
          (case e of
             None \<Rightarrow> if memArr then Some [newe] else None
           | Some es \<Rightarrow>
               (case setEnvIn name newe es of
                  Some es' \<Rightarrow> Some es'
                | None \<Rightarrow> if memArr then Some (es @ [newe]) else Some es))
      | _ \<Rightarrow> e)"

definition putEnv :: "bool \<Rightarrow> bool \<Rightarrow> bool \<Rightarrow> string \<Rightarrow> env \<Rightarrow> env" where
  "putEnv memDup memApp memArr str e =
     (case strchr str CHR ''='' of
        None \<Rightarrow> None
      | Some b \<Rightarrow>
          (case strNDup memDup (Some str) (int (length str - length b)) of
             (True, Some n) \<Rightarrow> setEnv memApp memArr e n (drop 1 b)
           | _ \<Rightarrow> None))"

text \<open>The contract callers rely on: what is read back after a variable was set.\<close>

locale env_store =
  fixes get :: "'e \<Rightarrow> string \<Rightarrow> string option"
    and put :: "'e \<Rightarrow> string \<Rightarrow> string \<Rightarrow> 'e"
    and valid :: "string \<Rightarrow> bool"
  assumes get_put_same: "valid n \<Longrightarrow> get (put e n v) n = Some v"
    and get_put_other: "valid n \<Longrightarrow> valid m \<Longrightarrow> n \<noteq> m \<Longrightarrow> get (put e n v) m = get e m"
begin

definition put_all :: "'e \<Rightarrow> (string \<times> string) list \<Rightarrow> 'e" where
  "put_all e ps = foldl (\<lambda>e (n, v). put e n v) e ps"

lemma get_put: "valid n \<Longrightarrow> valid m \<Longrightarrow> get (put e n v) m = (if m = n then Some v else get e m)"
  by (simp add: get_put_same get_put_other)

lemma get_put_all:
  assumes "\<forall>(n, v) \<in> set ps. valid n" and "valid m"
  shows "get (put_all e ps) m =
    (case map_of (rev ps) m of Some v \<Rightarrow> Some v | None \<Rightarrow> get e m)"
  using assms(1)
proof (induction ps arbitrary: e)
  case Nil
  then show ?case by (simp add: put_all_def)
next
  case (Cons p ps)
  obtain n v where p: "p = (n, v)" by fastforce
  have "get (put_all e (p # ps)) m = get (put_all (put e n v) ps) m"
    by (simp add: put_all_def p)
  also have "\<dots> = (case map_of (rev ps) m of Some v \<Rightarrow> Some v | None \<Rightarrow> get (put e n v) m)"
    using Cons by simp
  finally show ?case
    using Cons.prems assms(2) p by (auto simp: get_put map_add_def split: option.split)
qed

end

lemma prefix_eq_other:
  "CHR ''='' \<notin> set n \<Longrightarrow> CHR ''='' \<notin> set m \<Longrightarrow> prefix (m @ ''='') (n @ ''='' @ v) \<Longrightarrow> m = n"
proof (induction m arbitrary: n)
  case Nil
  then show ?case by (cases n) auto
next
  case (Cons c m)
  then show ?case by (cases n) auto
qed

lemma setEnvIn_find_other:
  assumes "CHR ''='' \<notin> set n" and "CHR ''='' \<notin> set m" and "n \<noteq> m"
    and "setEnvIn n (n @ ''='' @ v) es = Some es'"
  shows "find (\<lambda>x. prefix (m @ ''='') x) es' = find (\<lambda>x. prefix (m @ ''='') x) es"
  using assms(4)
proof (induction es arbitrary: es')
  case Nil
  then show ?case by simp
next
  case (Cons x xs)
  have new: "\<not> prefix (m @ ''='') (n @ ''='' @ v)"
    using prefix_eq_other assms(1-3) by metis
  show ?case
  proof (cases "prefix (n @ ''='') x \<or> x = n")
    case True
    then have "\<not> prefix (m @ ''='') x"
    proof
      assume "prefix (n @ ''='') x"
      then obtain z where "x = n @ ''='' @ z" by (auto simp: prefix_def)
      then show ?thesis using prefix_eq_other assms(1-3) by metis
    next
      assume "x = n"
      then show ?thesis using assms(1) by (auto dest!: set_mono_prefix)
    qed
    with True new Cons.prems show ?thesis by auto
  next
    case False
    with Cons show ?thesis by auto
  qed
qed

lemma setEnvIn_find_same:
  assumes "setEnvIn n (n @ ''='' @ v) es = Some es'"
  shows "find (\<lambda>x. prefix (n @ ''='') x) es' = Some (n @ ''='' @ v)"
  using assms
proof (induction es arbitrary: es')
  case (Cons x xs)
  then show ?case by (auto split: if_splits)
qed simp

lemma setEnvIn_None:
  "setEnvIn n e es = None \<longleftrightarrow> (\<forall>x \<in> set es. \<not> prefix (n @ ''='') x \<and> x \<noteq> n)"
  by (induction es) auto

interpretation sysenv: env_store getEnv "setEnv True True" "\<lambda>n. CHR ''='' \<notin> set n"
proof
  fix n :: string and e :: env and v
  have none: "find (prefix (n @ ''='')) es = None" if "setEnvIn n x es = None" for es x
    using that by (auto simp: setEnvIn_None find_None_iff)
  show "getEnv (setEnv True True e n v) n = Some v" if "CHR ''='' \<notin> set n"
    using none setEnvIn_find_same
    by (auto simp: getEnv_def setEnv_def strApp_def find_append split: option.splits)
next
  fix n m :: string and e :: env and v
  assume nm: "CHR ''='' \<notin> set n" "CHR ''='' \<notin> set m" "n \<noteq> m"
  then have new: "\<not> prefix (m @ ''='') (n @ CHR ''='' # v)"
    using prefix_eq_other [of n m v] by auto
  show "getEnv (setEnv True True e n v) m = getEnv e m"
    using setEnvIn_find_other [OF nm, of v] new
    by (auto simp: getEnv_def setEnv_def strApp_def find_append split: option.splits)
qed

lemma parseArgs_words:
  "\<forall>i. mok i \<Longrightarrow> parseArgs mok argv (argLine ws) =
    Ret (Some ((case argv of None \<Rightarrow> [] | Some a \<Rightarrow> a) @ ws))"
  by (simp add: parseArgs_def initStrArr_def parseLoop_argLine split: option.split)

section \<open>Properties\<close>

text \<open>C31. \<open>parseArgs\<close> recovers any list of words from a command line in which each is
  written between double quotes, appending them to the arguments already there; no word is
  copied past the end of the buffer the first pass measured for it.\<close>

theorem parseArgs_argLine:
  assumes "\<forall>i. mok i"
  shows "parseArgs mok argv (argLine ws) =
    Ret (Some ((case argv of None \<Rightarrow> [] | Some a \<Rightarrow> a) @ ws))"
  using assms by (rule parseArgs_words)

theorem parseArgs_argLine_witness:
  "parseArgs (\<lambda>_. True) (Some [''X'']) [DQ, CHR ''a'', CHR '' '', DQ, CHR '' '', DQ, BSL, DQ, DQ, CHR '' '']
   = Ret (Some [''X'', ''a '', [DQ]])"
  using parseArgs_argLine [of "\<lambda>_. True" "Some [''X'']" "[''a '', [DQ]]"]
  by (simp add: argLine_def dquote_def escDq_def)

text \<open>C32. A single quote that is never closed makes \<open>parseArgs\<close> read beyond the terminating
  NUL of its argument, after any words before it.\<close>

theorem parseArgs_unclosed_quote:
  assumes "\<forall>i. mok i" and "SQ \<notin> set q"
    and "\<forall>x \<in> set p. \<not> isspace x \<and> x \<notin> {SQ, DQ, BSL}"
  shows "parseArgs mok argv (argLine ws @ p @ [SQ] @ q) = UB"
proof -
  have tail: "parseLoop mok k a (p @ [SQ] @ q) = UB" for k a
  proof (cases p)
    case Nil
    have "parseLoop mok k a (SQ # q) = UB"
      using assms(2) by (intro parseLoop_UB wordFill_sq_open) simp_all
    with Nil show ?thesis by simp
  next
    case (Cons c p')
    have "parseLoop mok k a (c # p' @ SQ # q) = UB"
      using assms(2,3) Cons by (intro parseLoop_UB wordFill_open) simp_all
    with Cons show ?thesis by simp
  qed
  have "parseLoop mok k a (argLine ws @ p @ [SQ] @ q) = UB" for k a
  proof (induction ws arbitrary: k a)
    case Nil
    with tail show ?case by (simp add: argLine_def)
  next
    case (Cons w ws)
    have line: "argLine (w # ws) @ r
        = DQ # (concat (map escDq w) @ DQ # CHR '' '' # argLine ws @ r)" for r
      by (simp add: argLine_def dquote_def)
    have "parseLoop mok k a (argLine (w # ws) @ p @ [SQ] @ q)
        = parseLoop mok (Suc (Suc k)) (a @ [w]) (CHR '' '' # argLine ws @ p @ [SQ] @ q)"
      unfolding line using assms(1) by (intro parseLoop_word) (simp_all add: wordFill_dquote)
    with Cons show ?case by (simp add: parseLoop_space)
  qed
  then show ?thesis
    using assms(1) by (simp add: parseArgs_def initStrArr_def split: option.split)
qed

theorem parseArgs_unclosed_quote_witness:
  "parseArgs (\<lambda>_. True) None [CHR ''l'', CHR ''s'', SQ, CHR ''x''] = UB"
  using parseArgs_unclosed_quote [of "\<lambda>_. True" "''x''" "''ls''" None "[]"]
  by (simp add: argLine_def isspace_def)

text \<open>C33. Setting variables one after the other: afterwards \<open>getEnv\<close> gives the last value set
  for each name, and what was there before for every other name; names hold no equals sign.\<close>

theorem setEnv_sequence:
  assumes "\<forall>(n, v) \<in> set ps. CHR ''='' \<notin> set n" and "CHR ''='' \<notin> set m"
  shows "getEnv (foldl (\<lambda>e (n, v). setEnv True True e n v) e ps) m =
    (case map_of (rev ps) m of Some v \<Rightarrow> Some v | None \<Rightarrow> getEnv e m)"
  using sysenv.get_put_all [OF assms] by (simp add: sysenv.put_all_def)

theorem setEnv_sequence_witness:
  "getEnv (foldl (\<lambda>e (n, v). setEnv True True e n v) (Some [''A=0'', ''B=1''])
     [(''A'', ''2''), (''C'', ''3''), (''A'', ''4'')]) ''A'' = Some ''4''"
  using setEnv_sequence [of "[(''A'', ''2''), (''C'', ''3''), (''A'', ''4'')]" "''A''" "Some [''A=0'', ''B=1'']"]
  by simp

end
