(* ===== verification/NetAddr.thy ===== *)
theory NetAddr
  imports Prelude
begin

text \<open>
  Socket addresses, \<^verbatim>\<open>kdm/backend/netaddr.c\<close>, in the configuration with TCP, IPv6 and
  local sockets (\<^verbatim>\<open>TCPCONN\<close>, \<^verbatim>\<open>IPv6\<close>, \<^verbatim>\<open>UNIXCONN\<close>). A socket address is the family with
  the fields the code reads; the address family and connection type codes are those of
  Linux and of the X headers.
\<close>

type_synonym bytes = "8 word list"

datatype sockaddr =
    SaInet (saPort: bytes) (saAddr: bytes)
  | SaInet6 (saPort: bytes) (saAddr: bytes)
  | SaUnix bytes
  | SaOther int

abbreviation AF_UNSPEC :: int where "AF_UNSPEC \<equiv> 0"
abbreviation AF_UNIX :: int where "AF_UNIX \<equiv> 1"
abbreviation AF_INET :: int where "AF_INET \<equiv> 2"
abbreviation AF_INET6 :: int where "AF_INET6 \<equiv> 10"

abbreviation FamilyInternet :: int where "FamilyInternet \<equiv> 0"
abbreviation FamilyDECnet :: int where "FamilyDECnet \<equiv> 1"
abbreviation FamilyInternet6 :: int where "FamilyInternet6 \<equiv> 6"
abbreviation FamilyLocal :: int where "FamilyLocal \<equiv> 256"
abbreviation FamilyBroadcast :: int where "FamilyBroadcast \<equiv> 65535"

text \<open>The sizes the kernel gives the fields; \<open>SaOther\<close> is a family of its own.\<close>

fun wfSockaddr :: "sockaddr \<Rightarrow> bool" where
  "wfSockaddr (SaInet p a) \<longleftrightarrow> length p = 2 \<and> length a = 4"
| "wfSockaddr (SaInet6 p a) \<longleftrightarrow> length p = 2 \<and> length a = 16"
| "wfSockaddr (SaUnix path) \<longleftrightarrow> True"
| "wfSockaddr (SaOther f) \<longleftrightarrow> f \<notin> {AF_UNIX, AF_INET, AF_INET6}"

fun netaddrFamily :: "sockaddr \<Rightarrow> int" where
  "netaddrFamily (SaInet p a) = AF_INET"
| "netaddrFamily (SaInet6 p a) = AF_INET6"
| "netaddrFamily (SaUnix path) = AF_UNIX"
| "netaddrFamily (SaOther f) = f"

text \<open>The bytes a returned pointer and length designate; a null pointer comes with length 0.\<close>

fun netaddrPort :: "sockaddr \<Rightarrow> bytes" where
  "netaddrPort (SaInet p a) = p"
| "netaddrPort (SaInet6 p a) = p"
| "netaddrPort (SaUnix path) = []"
| "netaddrPort (SaOther f) = []"

text \<open>An IPv4 address inside IPv6: ten zero bytes, two 255, the address.\<close>

definition v4mapped :: "bytes \<Rightarrow> bool" where
  "v4mapped a \<longleftrightarrow> take 12 a = replicate 10 0 @ [255, 255]"

fun netaddrAddress :: "sockaddr \<Rightarrow> bytes" where
  "netaddrAddress (SaInet p a) = a"
| "netaddrAddress (SaInet6 p a) = (if v4mapped a then drop 12 a else a)"
| "netaddrAddress (SaUnix path) = takeWhile (\<lambda>b. b \<noteq> 0) path"
| "netaddrAddress (SaOther f) = []"

text \<open>\<open>convertAddr\<close> returns the connection type of the X protocol and the address bytes.\<close>

definition convertAddr :: "sockaddr \<Rightarrow> int \<times> bytes" where
  "convertAddr sa =
     (let addr = netaddrAddress sa; f = netaddrFamily sa in
      ((if f = AF_UNSPEC then FamilyLocal
        else if f = AF_UNIX then FamilyLocal
        else if f = AF_INET then FamilyInternet
        else if f = AF_INET6 then
          (if length addr = 4 then FamilyInternet else FamilyInternet6)
        else -1), addr))"

definition addressEqual :: "sockaddr \<Rightarrow> nat \<Rightarrow> sockaddr \<Rightarrow> nat \<Rightarrow> bool" where
  "addressEqual a1 len1 a2 len2 =
     (if len1 \<noteq> len2 then False
      else if netaddrFamily a1 \<noteq> netaddrFamily a2 then False
      else if netaddrPort a1 \<noteq> netaddrPort a2 then False
      else if netaddrAddress a1 \<noteq> netaddrAddress a2 then False
      else True)"

lemma v4mapped_drop_inj:
  assumes "length a = 16" "length b = 16"
    and "(if v4mapped a then drop 12 a else a) = (if v4mapped b then drop 12 b else b)"
  shows "a = b"
proof (cases "v4mapped a")
  case True
  with assms have b: "v4mapped b" by (auto split: if_splits)
  from True b have "take 12 a = take 12 b" by (simp add: v4mapped_def)
  moreover from True b assms(3) have "drop 12 a = drop 12 b" by simp
  ultimately show ?thesis by (metis append_take_drop_id)
next
  case False
  with assms show ?thesis by (auto split: if_splits)
qed

text \<open>On addresses as the kernel reports them, \<open>addressEqual\<close> is equality of length and address.\<close>

lemma addressEqual_iff:
  assumes "wfSockaddr a" "wfSockaddr b" "\<forall>p. a \<noteq> SaUnix p"
  shows "addressEqual a l b m \<longleftrightarrow> l = m \<and> a = b"
  using assms
  by (cases a; cases b) (auto simp: addressEqual_def dest: v4mapped_drop_inj)

lemma addressEqual_equiv:
  shows addressEqual_refl: "addressEqual a l a l"
    and addressEqual_sym: "addressEqual a l b m \<Longrightarrow> addressEqual b m a l"
    and addressEqual_trans: "addressEqual a l b m \<Longrightarrow> addressEqual b m c n \<Longrightarrow> addressEqual a l c n"
  by (auto simp: addressEqual_def split: if_splits)

lemma convertAddr_length:
  "wfSockaddr sa \<Longrightarrow> fst (convertAddr sa) = FamilyInternet \<Longrightarrow> length (snd (convertAddr sa)) = 4"
  "wfSockaddr sa \<Longrightarrow> fst (convertAddr sa) = FamilyInternet6 \<Longrightarrow> length (snd (convertAddr sa)) = 16"
  by (cases sa; auto simp: convertAddr_def Let_def split: if_splits)+

end
