(* ===== verification/Registry.thy ===== *)
theory Registry
  imports Prelude
begin

text \<open>
  The contract of the linked-list registries of the daemon (indirect choices, protocol
  displays): look up by a key, where keys are compared by an equivalence of the code, and
  insert, on lists that satisfy the registry's invariant. \<open>keyed_store_del\<close> adds unlinking.
  Clients get the effect of any series of insertions and deletions.
\<close>

locale keyed_store =
  fixes find_in :: "'s \<Rightarrow> 'k \<Rightarrow> 'v option"
    and add :: "'s \<Rightarrow> 'k \<Rightarrow> 'v \<Rightarrow> 's"
    and same :: "'k \<Rightarrow> 'k \<Rightarrow> bool"
    and inv :: "'s \<Rightarrow> bool"
  assumes same_refl: "same k k"
    and same_sym: "same k k' \<Longrightarrow> same k' k"
    and find_add_same: "inv s \<Longrightarrow> same k k' \<Longrightarrow> find_in (add s k v) k' = Some v"
    and find_add_other: "inv s \<Longrightarrow> \<not> same k k' \<Longrightarrow> find_in (add s k v) k' = find_in s k'"
    and inv_add: "inv s \<Longrightarrow> inv (add s k v)"
begin

definition add_all :: "'s \<Rightarrow> ('k \<times> 'v) list \<Rightarrow> 's" where
  "add_all s kvs = foldl (\<lambda>s (k, v). add s k v) s kvs"

lemma find_add: "inv s \<Longrightarrow> find_in (add s k v) k' = (if same k k' then Some v else find_in s k')"
  by (simp add: find_add_same find_add_other)

lemma inv_add_all: "inv s \<Longrightarrow> inv (add_all s kvs)"
  unfolding add_all_def by (rule foldl_inv) (auto intro: inv_add)

lemma find_add_all:
  "inv s \<Longrightarrow> find_in (add_all s kvs) k' =
     (case find (\<lambda>(k, v). same k k') (rev kvs) of
        Some (k, v) \<Rightarrow> Some v
      | None \<Rightarrow> find_in s k')"
proof (induction kvs arbitrary: s)
  case Nil
  then show ?case by (simp add: add_all_def)
next
  case (Cons p kvs)
  obtain k v where p: "p = (k, v)" by fastforce
  have "find_in (add_all s (p # kvs)) k' = find_in (add_all (add s k v) kvs) k'"
    by (simp add: add_all_def p)
  with Cons.IH [OF inv_add [OF Cons.prems]] Cons.prems show ?case
    by (auto simp: p find_append find_add split: option.split prod.split)
qed

lemma find_add_found: "inv s \<Longrightarrow> find_in (add s k v) k = Some v"
  by (simp add: find_add same_refl)

end

locale keyed_store_del = keyed_store find_in add same inv
  for find_in :: "'s \<Rightarrow> 'k \<Rightarrow> 'v option"
    and add :: "'s \<Rightarrow> 'k \<Rightarrow> 'v \<Rightarrow> 's"
    and same :: "'k \<Rightarrow> 'k \<Rightarrow> bool"
    and inv :: "'s \<Rightarrow> bool" +
  fixes del :: "'s \<Rightarrow> 'k \<Rightarrow> 's"
  assumes find_del_same: "inv s \<Longrightarrow> same k k' \<Longrightarrow> find_in (del s k) k' = None"
    and find_del_other: "inv s \<Longrightarrow> \<not> same k k' \<Longrightarrow> find_in (del s k) k' = find_in s k'"
    and inv_del: "inv s \<Longrightarrow> inv (del s k)"
begin

lemma find_del_add: "inv s \<Longrightarrow> find_in (del (add s k v) k) k' = find_in (del s k) k'"
  by (cases "same k k'") (simp_all add: find_del_same find_del_other inv_add find_add_other)

lemma find_add_all_del:
  assumes "inv s" and "\<forall>(k, v) \<in> set kvs. \<not> same k k'" "same k0 k'"
  shows "find_in (add_all (del s k0) kvs) k' = None"
proof -
  have "find (\<lambda>(k, v). same k k') (rev kvs) = None"
    using assms(2) by (auto simp: find_None_iff)
  then show ?thesis using assms by (simp add: find_add_all inv_del find_del_same)
qed

end

end
