(* ===== verification/IpcPipe.thy ===== *)
theory IpcPipe
  imports NetAddr "HOL-Library.Monad_Syntax"
begin

unbundle bit_operations_syntax

text \<open>
  The pipes between the daemon, its session processes, the greeter and the configuration
  reader: the second half of \<^verbatim>\<open>kdm/backend/process.c\<close> over \<open>reader\<close> of \<^verbatim>\<open>util.c\<close>. A sender is the
  bytes it writes. A receiver takes the bytes that come in, up to the end of the data, and
  returns its value with the rest; \<open>None\<close> is the \<^verbatim>\<open>longjmp\<close> of \<open>gErr\<close>, after which the
  conversation is over. \<open>mok\<close> says whether an allocation of a size succeeds. Both ends
  run on one machine; its byte order is taken to be the little-endian one.
\<close>

section \<open>Reading in pieces\<close>

text \<open>What successive calls of \<^verbatim>\<open>read\<close> find: data, of which no more is taken than asked for, or an error.\<close>

datatype chunk = Bytes bytes | EIntr | EAgain | EFail

text \<open>\<open>atomicIO\<close> with \<^verbatim>\<open>read\<close>; \<open>got\<close> is the filled part of the buffer. The first result is the return value.\<close>

function (sequential) reader :: "nat \<Rightarrow> bytes \<Rightarrow> chunk list \<Rightarrow> int \<times> bytes \<times> chunk list" where
  "reader count got cs =
     (if count \<le> length got then (int (length got), got, cs)
      else case cs of
        [] \<Rightarrow> (int (length got), got, [])
      | EIntr # cs \<Rightarrow> reader count got cs
      | EAgain # cs \<Rightarrow> (int (length got), got, cs)
      | EFail # cs \<Rightarrow> (-1, got, cs)
      | Bytes bs # cs \<Rightarrow>
          if bs = [] then (int (length got), got, cs)
          else let n = count - length got in
            reader count (got @ take n bs) (if length bs \<le> n then cs else Bytes (drop n bs) # cs))"
  by pat_completeness auto
termination
  by (relation "measures [\<lambda>(n, g, cs). n - length g, \<lambda>(n, g, cs). length cs]") (auto split: if_splits)

declare reader.simps [simp del]

text \<open>The data of a run of successful and interrupted reads.\<close>

fun flat :: "chunk list \<Rightarrow> bytes" where
  "flat [] = []"
| "flat (Bytes bs # cs) = bs @ flat cs"
| "flat (_ # cs) = flat cs"

fun plain :: "chunk \<Rightarrow> bool" where
  "plain (Bytes bs) \<longleftrightarrow> bs \<noteq> []"
| "plain EIntr \<longleftrightarrow> True"
| "plain _ \<longleftrightarrow> False"

lemma reader_flat:
  assumes "list_all plain cs" "length got \<le> count"
  shows "\<exists>cs'. reader count got cs = (int (length got + min (count - length got) (length (flat cs))),
           got @ take (count - length got) (flat cs), cs')
         \<and> flat cs' = drop (count - length got) (flat cs) \<and> list_all plain cs'"
  using assms
proof (induction count got cs rule: reader.induct)
  case (1 count got cs)
  show ?case
  proof (cases "count \<le> length got \<or> cs = []")
    case True
    with 1 show ?thesis by (subst reader.simps) auto
  next
    case False
    then obtain c r where c: "cs = c # r" "\<not> count \<le> length got" by (cases cs) auto
    show ?thesis
    proof (cases c)
      case (Bytes bs)
      with c 1(3) have bs: "bs \<noteq> []" by simp
      let ?n = "count - length got"
      let ?cs = "if length bs \<le> ?n then r else Bytes (drop ?n bs) # r"
      have fl: "flat ?cs = drop ?n bs @ flat r" by simp
      have "list_all plain ?cs" using 1(3) c Bytes
        by auto
      moreover have le: "length (got @ take ?n bs) \<le> count" using 1(4) by auto
      ultimately obtain cs' where
          "reader count (got @ take ?n bs) ?cs = (int (length (got @ take ?n bs) + min (count - length (got @ take ?n bs)) (length (flat ?cs))),
           (got @ take ?n bs) @ take (count - length (got @ take ?n bs)) (flat ?cs), cs')"
          "flat cs' = drop (count - length (got @ take ?n bs)) (flat ?cs)" "list_all plain cs'"
        using 1(1) [OF c(2,1) Bytes bs refl] by fastforce
      moreover have "reader count got cs = reader count (got @ take ?n bs) ?cs"
        using c Bytes bs by (subst reader.simps) (simp add: Let_def)
      ultimately show ?thesis using c Bytes le
        by (cases "length bs \<le> ?n") (auto simp: min_def)
    next
      case EIntr
      with c 1(3) have "list_all plain r" by simp
      from 1(2) [OF c(2,1) EIntr this 1(4)] c EIntr show ?thesis
        by (subst reader.simps) auto
    qed (use 1(3) c in auto)
  qed
qed


section \<open>Values on the wire\<close>

type_synonym 'a rx = "bytes \<Rightarrow> ('a \<times> bytes) option"

definition wordBytes :: "32 word \<Rightarrow> bytes" where
  "wordBytes w = [ucast w, ucast (drop_bit 8 w), ucast (drop_bit 16 w), ucast (drop_bit 24 w)]"

definition encInt :: "int \<Rightarrow> bytes" where
  "encInt v = wordBytes (word_of_int v)"

definition decWord :: "bytes \<Rightarrow> 32 word" where
  "decWord b = foldr (\<lambda>x w. ucast x OR push_bit 8 w) b 0"

text \<open>\<open>gRead\<close> over a stream of which \<open>reader\<close> sees the end: all bytes or an error.\<close>

definition gRead :: "nat \<Rightarrow> bytes rx" where
  "gRead n s = (if n \<le> length s then Some (take n s, drop n s) else None)"

definition gSendInt :: "int \<Rightarrow> bytes" where
  "gSendInt v = encInt v"

definition gRecvInt :: "int rx" where
  "gRecvInt s = do { (b, s) \<leftarrow> gRead 4 s; Some (sint (decWord b), s) }"

text \<open>A command may be missing: then the partner has ended the conversation.\<close>

definition gRecvCmd :: "bytes \<Rightarrow> int option \<times> bytes" where
  "gRecvCmd s = (if 4 \<le> length s then (Some (sint (decWord (take 4 s))), drop 4 s) else (None, []))"

definition gSendArr :: "int \<Rightarrow> bytes \<Rightarrow> bytes" where
  "gSendArr len data = encInt len @ take (nat len) data"

text \<open>\<open>_gRecvArr\<close> of the sources: the length, and the buffer unless it is empty or too large.\<close>

definition recvArr :: "(nat \<Rightarrow> bool) \<Rightarrow> (int \<times> bytes option) rx" where
  "recvArr mok s = do {
     (b, s) \<leftarrow> gRead 4 s;
     let len = decWord b;
     if len = 0 \<or> len > 0x10000 then Some ((sint len, None), s)
     else if \<not> mok (unat len) then None
     else do { (d, s) \<leftarrow> gRead (unat len) s; Some ((sint len, Some d), s) } }"

definition gRecvArr :: "(nat \<Rightarrow> bool) \<Rightarrow> (int \<times> bytes option) rx" where
  "gRecvArr mok s = recvArr mok s"

text \<open>\<open>_gRecvArrBuf\<close>: the bytes written to the caller's buffer.\<close>

definition recvArrBuf :: "(int \<times> bytes) rx" where
  "recvArrBuf s = do {
     (b, s) \<leftarrow> gRead 4 s;
     let len = decWord b;
     if len \<noteq> 0 \<and> len < 0x10000 then do { (d, s) \<leftarrow> gRead (unat len) s; Some ((sint len, d), s) }
     else Some ((sint len, []), s) }"

definition gRecvArrBuf :: "(int \<times> bytes) rx" where
  "gRecvArrBuf s = recvArrBuf s"

definition gRecvStrBuf :: "(int \<times> bytes) rx" where
  "gRecvStrBuf s = recvArrBuf s"

text \<open>A C string is its bytes before the NUL; a null pointer is sent as four zero bytes.\<close>

fun gSendStr :: "bytes option \<Rightarrow> bytes" where
  "gSendStr (Some b) = encInt (int (length b) + 1) @ b @ [0]"
| "gSendStr None = [0, 0, 0, 0]"

definition gSendNStr :: "bytes \<Rightarrow> nat \<Rightarrow> bytes" where
  "gSendNStr b len = encInt (int len + 1) @ take len b @ [0]"

definition gSendStrN :: "bytes option \<Rightarrow> nat \<Rightarrow> bytes" where
  "gSendStrN b len = (case b of Some b \<Rightarrow> gSendNStr b (min (length b) len) | None \<Rightarrow> gSendStr None)"

definition gRecvStr :: "(nat \<Rightarrow> bool) \<Rightarrow> bytes option rx" where
  "gRecvStr mok s = do { ((l, b), s) \<leftarrow> recvArr mok s; Some (b, s) }"

fun recvStrs :: "(nat \<Rightarrow> bool) \<Rightarrow> nat \<Rightarrow> bytes option list rx" where
  "recvStrs mok 0 s = Some ([], s)"
| "recvStrs mok (Suc n) s = do {
     (b, s) \<leftarrow> gRecvStr mok s;
     (bs, s) \<leftarrow> recvStrs mok n s;
     Some (b # bs, s) }"

text \<open>A negative count is a size no allocation can have.\<close>

definition gRecvStrArr :: "(nat \<Rightarrow> bool) \<Rightarrow> (int \<times> bytes option list option) rx" where
  "gRecvStrArr mok s = do {
     (num, s) \<leftarrow> gRecvInt s;
     if num = 0 then Some ((0, None), s)
     else if num < 0 \<or> \<not> mok (8 * nat num) then None
     else do { (l, s) \<leftarrow> recvStrs mok (nat num) s; Some ((num, Some l), s) } }"

text \<open>An argument vector goes with its terminating null pointer.\<close>

definition gSendArgv :: "bytes list option \<Rightarrow> bytes" where
  "gSendArgv av =
     (case av of
        Some l \<Rightarrow> encInt (int (length l) + 1) @ concat (map (gSendStr \<circ> Some) l) @ gSendStr None
      | None \<Rightarrow> [0, 0, 0, 0])"

definition gRecvArgv :: "(nat \<Rightarrow> bool) \<Rightarrow> bytes option list option rx" where
  "gRecvArgv mok s = do { ((n, l), s) \<leftarrow> gRecvStrArr mok s; Some (l, s) }"

section \<open>Round trips\<close>

lemma length_encInt [simp]: "length (encInt v) = 4"
  by (simp add: encInt_def wordBytes_def)

lemma decWord_wordBytes: "decWord (wordBytes w) = w"
proof (rule bit_word_eqI)
  fix n assume n: "n < LENGTH(32)"
  then consider "n < 8" | "8 \<le> n" "n < 16" | "16 \<le> n" "n < 24" | "24 \<le> n" "n < 32" by fastforce
  then show "bit (decWord (wordBytes w)) n = bit w n"
    by cases (auto simp: decWord_def wordBytes_def bit_simps)
qed

lemma decWord_encInt [simp]: "decWord (encInt v) = word_of_int v"
  by (simp add: encInt_def decWord_wordBytes)

lemma zeros_encInt: "[0, 0, 0, 0] = encInt 0"
  by (simp add: encInt_def wordBytes_def)

text \<open>An \<^verbatim>\<open>int\<close> of the sources.\<close>

definition int32 :: "int \<Rightarrow> bool" where
  "int32 v \<longleftrightarrow> - (2 ^ 31) \<le> v \<and> v < 2 ^ 31"

lemma sint_int32: "int32 v \<Longrightarrow> sint (word_of_int v :: 32 word) = v"
  by (simp add: int32_def sint_sbintrunc' signed_take_bit_int_eq_self)

lemma gRead_append [simp]: "length b = n \<Longrightarrow> gRead n (b @ s) = Some (b, s)"
  by (auto simp: gRead_def)

lemma gRecvInt_encInt: "int32 v \<Longrightarrow> gRecvInt (encInt v @ s) = Some (v, s)"
  by (simp add: gRecvInt_def sint_int32)

lemma gRecvInt_gSendInt [simp]: "int32 v \<Longrightarrow> gRecvInt (gSendInt v @ s) = Some (v, s)"
  by (simp add: gSendInt_def gRecvInt_encInt)

lemma word_of_len [simp]:
  assumes "n \<le> 0x10000"
  shows "unat (word_of_nat n :: 32 word) = n" "sint (word_of_nat n :: 32 word) = int n"
    "(word_of_nat n :: 32 word) = 0 \<longleftrightarrow> n = 0"
    "(word_of_nat n :: 32 word) \<le> 0x10000" "(word_of_nat n :: 32 word) < 0x10000 \<longleftrightarrow> n < 0x10000"
proof -
  show u: "unat (word_of_nat n :: 32 word) = n"
    using assms by (simp add: unat_of_nat take_bit_nat_eq_self)
  show "sint (word_of_nat n :: 32 word) = int n"
    using assms sint_int32 [of "int n"] by (simp add: int32_def)
  show "(word_of_nat n :: 32 word) = 0 \<longleftrightarrow> n = 0" using u by (metis unat_eq_zero)
  show "(word_of_nat n :: 32 word) \<le> 0x10000" using u assms by (simp add: word_le_nat_alt)
  show "(word_of_nat n :: 32 word) < 0x10000 \<longleftrightarrow> n < 0x10000" using u by (simp add: word_less_nat_alt)
qed

text \<open>The C string a buffer holds.\<close>

definition cstrOf :: "bytes \<Rightarrow> bytes" where
  "cstrOf b = takeWhile (\<lambda>x. x \<noteq> 0) b"

lemma cstrOf_term [simp]: "0 \<notin> set b \<Longrightarrow> cstrOf (b @ 0 # r) = b"
  by (auto simp: cstrOf_def takeWhile_append2 takeWhile_eq_all_conv intro: takeWhile_append2 [THEN trans])

text \<open>What a conversation consists of, and what each side does for it.\<close>

datatype item = IInt int | IStr "bytes option" | IArr bytes | IArgv "bytes list option"
datatype kind = KInt | KStr | KArr | KArgv

fun kindOf :: "item \<Rightarrow> kind" where
  "kindOf (IInt _) = KInt" | "kindOf (IStr _) = KStr" | "kindOf (IArr _) = KArr" | "kindOf (IArgv _) = KArgv"

fun sendItem :: "item \<Rightarrow> bytes" where
  "sendItem (IInt v) = gSendInt v"
| "sendItem (IStr b) = gSendStr b"
| "sendItem (IArr b) = gSendArr (int (length b)) b"
| "sendItem (IArgv l) = gSendArgv l"

fun recvItem :: "(nat \<Rightarrow> bool) \<Rightarrow> kind \<Rightarrow> item rx" where
  "recvItem mok KInt s = do { (v, s) \<leftarrow> gRecvInt s; Some (IInt v, s) }"
| "recvItem mok KStr s = do { (b, s) \<leftarrow> gRecvStr mok s; Some (IStr (map_option cstrOf b), s) }"
| "recvItem mok KArr s = do { ((n, b), s) \<leftarrow> gRecvArr mok s; Some (IArr (case b of Some b \<Rightarrow> b | None \<Rightarrow> []), s) }"
| "recvItem mok KArgv s = do {
     (l, s) \<leftarrow> gRecvArgv mok s;
     Some (IArgv (map_option (\<lambda>l. map cstrOf (map the (takeWhile (\<lambda>x. x \<noteq> None) l))) l), s) }"

definition sendItems :: "item list \<Rightarrow> bytes" where
  "sendItems l = concat (map sendItem l)"

fun recvItems :: "(nat \<Rightarrow> bool) \<Rightarrow> kind list \<Rightarrow> item list rx" where
  "recvItems mok [] s = Some ([], s)"
| "recvItems mok (k # ks) s = do {
     (i, s) \<leftarrow> recvItem mok k s; (is, s) \<leftarrow> recvItems mok ks s; Some (i # is, s) }"

definition okStr :: "bytes \<Rightarrow> bool" where
  "okStr b \<longleftrightarrow> 0 \<notin> set b \<and> length b < 0x10000"

fun okItem :: "item \<Rightarrow> bool" where
  "okItem (IInt v) = int32 v"
| "okItem (IStr b) = pred_option okStr b"
| "okItem (IArr b) = (length b \<le> 0x10000)"
| "okItem (IArgv l) = pred_option (\<lambda>l. list_all okStr l \<and> length l < 0x7fffffff) l"

lemma recvArr_enc:
  "length b \<le> 0x10000 \<Longrightarrow>
   recvArr (\<lambda>_. True) (encInt (int (length b)) @ b @ s) = Some ((int (length b), if b = [] then None else Some b), s)"
  by (simp add: recvArr_def Let_def not_less)

lemma gRecvStr_gSendStr:
  assumes "pred_option okStr b"
  shows "gRecvStr (\<lambda>_. True) (gSendStr b @ s) = Some (map_option (\<lambda>b. b @ [0]) b, s)"
proof (cases b)
  case None
  then show ?thesis using recvArr_enc [of "[]" s] assms
    by (simp add: gRecvStr_def zeros_encInt)
next
  case (Some c)
  then show ?thesis using recvArr_enc [of "c @ [0]" s] assms
    by (simp add: gRecvStr_def okStr_def add.commute)
qed

lemma recvStrs_enc:
  assumes "list_all okStr l"
  shows "recvStrs (\<lambda>_. True) (Suc (length l)) (concat (map (gSendStr \<circ> Some) l) @ gSendStr None @ s) =
     Some (map (\<lambda>b. Some (b @ [0])) l @ [None], s)"
  using assms
proof (induction l)
  case Nil
  then show ?case using gRecvStr_gSendStr [of None s] by simp
next
  case (Cons b l)
  from gRecvStr_gSendStr [of "Some b"] Cons.prems
  have "gRecvStr (\<lambda>_. True) (gSendStr (Some b) @ t) = Some (Some (b @ [0]), t)" for t by simp
  with Cons show ?case by (subst recvStrs.simps) (simp add: o_def del: gSendStr.simps recvStrs.simps)
qed

lemma takeWhile_Somes: "takeWhile (\<lambda>x. x \<noteq> None) (map (\<lambda>b. Some (f b)) l @ [None]) = map (\<lambda>b. Some (f b)) l"
  by (induction l) auto

lemma recvItem_sendItem:
  assumes "okItem i"
  shows "recvItem (\<lambda>_. True) (kindOf i) (sendItem i @ s) = Some (i, s)"
proof (cases i)
  case (IInt v)
  with assms show ?thesis by simp
next
  case (IStr b)
  with assms gRecvStr_gSendStr [of b s] show ?thesis
    by (cases b) (auto simp: okStr_def simp del: gSendStr.simps)
next
  case (IArr b)
  with assms recvArr_enc [of b s] show ?thesis
    by (simp add: gSendArr_def gRecvArr_def)
next
  case (IArgv l)
  show ?thesis
  proof (cases l)
    case None
    with IArgv show ?thesis using gRecvInt_encInt [of 0 s]
      by (simp add: gSendArgv_def gRecvArgv_def gRecvStrArr_def zeros_encInt int32_def)
  next
    case (Some bs)
    have "gRecvStrArr (\<lambda>_. True) (gSendArgv l @ s) = Some ((int (length bs) + 1, Some (map (\<lambda>b. Some (b @ [0])) bs @ [None])), s)"
      using recvStrs_enc [of bs s] gRecvInt_encInt [of "int (length bs) + 1"] Some IArgv assms
      by (simp add: gSendArgv_def gRecvStrArr_def int32_def nat_add_distrib del: gSendStr.simps recvStrs.simps)
    with IArgv Some assms show ?thesis
      by (auto simp: gRecvArgv_def takeWhile_Somes [simplified] okStr_def list_all_iff o_def intro: map_idI)
  qed
qed

text \<open>C11. A whole conversation arrives: whatever integers, strings (null or of up to 65534 bytes), arrays and argument vectors one side sends, the other, receiving the same kinds in the same order, gets these values and is left at the start of what follows.\<close>

theorem recvItems_sendItems:
  assumes "list_all okItem l"
  shows "recvItems (\<lambda>_. True) (map kindOf l) (sendItems l @ s) = Some (l, s)"
  using assms
proof (induction l)
  case (Cons i l)
  with recvItem_sendItem [of i "sendItems l @ s"] show ?case
    by (simp add: sendItems_def)
qed (simp add: sendItems_def)

theorem recvItems_sendItems_witness:
  "recvItems (\<lambda>_. True) [KInt, KStr, KArgv, KArr]
     (sendItems [IInt (- 5), IStr (Some [97, 98]), IArgv (Some [[99], []]), IArr [0, 7]] @ [1])
   = Some ([IInt (- 5), IStr (Some [97, 98]), IArgv (Some [[99], []]), IArr [0, 7]], [1])"
  using recvItems_sendItems [of "[IInt (- 5), IStr (Some [97, 98]), IArgv (Some [[99], []]), IArr [0, 7]]" "[1]"]
  by (simp add: int32_def okStr_def)

text \<open>However the data comes in, in pieces of any size and with interruptions, a read of \<open>n\<close> bytes gets exactly the first \<open>n\<close> bytes of the stream and leaves the rest, or reports fewer when the stream ends before.\<close>

theorem reader_gRead:
  assumes "list_all plain cs"
  shows "\<exists>r got cs'. reader n [] cs = (r, got, cs') \<and>
     (case gRead n (flat cs) of
        Some (b, rest) \<Rightarrow> r = int n \<and> got = b \<and> flat cs' = rest
      | None \<Rightarrow> r < int n)"
  using reader_flat [OF assms, of "[]" n] by (auto simp: gRead_def)

theorem reader_gRead_witness:
  "\<exists>r got cs'. reader 3 [] [Bytes [1, 2], EIntr, Bytes [3, 4]] = (r, got, cs') \<and>
     r = 3 \<and> got = [1, 2, 3] \<and> flat cs' = [4]"
  using reader_gRead [of "[Bytes [1, 2], EIntr, Bytes [3, 4]]" 3] by (simp add: gRead_def)

text \<open>A string of 65536 bytes or more is not received: the receiver gets a null pointer, and the string's own bytes are then read as whatever is to be received next.\<close>

theorem gRecvStr_too_long:
  assumes "0x10000 \<le> length b" "length b < 2 ^ 31 - 1"
  shows "gRecvStr mok (gSendStr (Some b) @ s) = Some (None, b @ 0 # s)"
proof -
  let ?w = "word_of_nat (length b) + 1 :: 32 word"
  have "unat (word_of_nat (Suc (length b)) :: 32 word) = Suc (length b)"
    using assms(2) by (simp add: unat_of_nat take_bit_nat_eq_self del: of_nat_Suc)
  moreover have "word_of_nat (Suc (length b)) = ?w" by simp
  ultimately have "unat ?w = Suc (length b)" by (simp only:)
  then have "0x10000 < ?w" using assms(1) by (simp add: word_less_nat_alt)
  then show ?thesis
    by (simp add: gRecvStr_def recvArr_def Let_def)
qed

theorem gRecvStr_too_long_witness:
  "gRecvStr (\<lambda>_. True) (gSendStr (Some (replicate 0x10000 65)) @ []) = Some (None, replicate 0x10000 65 @ [0])"
  using gRecvStr_too_long [of "replicate 0x10000 65" "\<lambda>_. True" "[]"] by (simp only: length_replicate) simp

end
