(* ===== verification/Choose.thy ===== *)
theory Choose
  imports NetAddr Registry
begin

text \<open>
  The indirect choices of \<^verbatim>\<open>kdm/backend/choose.c\<close>: which host an X terminal that asked
  indirectly has been given, or that it is to be shown the chooser. The list is in the
  order of registration, so by expiry time as long as \<open>choiceTimeout\<close> stays the same.
\<close>

abbreviation TO_INF :: int where "TO_INF \<equiv> 0x7fffffff"

record choiceRec =
  chClient :: bytes
  chPort :: bytes
  chConnType :: "16 word"
  chChoice :: "bytes option"
  chTimeout :: int

type_synonym choiceKey = "bytes \<times> bytes \<times> 16 word"

definition choiceKey :: "choiceRec \<Rightarrow> choiceKey" where
  "choiceKey c = (chClient c, chPort c, chConnType c)"

fun disposeIndirectHosts :: "int \<Rightarrow> choiceRec list \<Rightarrow> int \<times> choiceRec list" where
  "disposeIndirectHosts now [] = (TO_INF, [])"
| "disposeIndirectHosts now (c # cs) =
     (if chTimeout c > now then (chTimeout c, c # cs) else disposeIndirectHosts now cs)"

fun indirectChoice :: "choiceKey \<Rightarrow> choiceRec list \<Rightarrow> bytes option" where
  "indirectChoice k [] = None"
| "indirectChoice k (c # cs) = (if choiceKey c = k then chChoice c else indirectChoice k cs)"

fun checkIndirectChoice :: "choiceKey \<Rightarrow> choiceRec list \<Rightarrow> bool \<times> choiceRec list" where
  "checkIndirectChoice k [] = (False, [])"
| "checkIndirectChoice k (c # cs) =
     (if choiceKey c = k then (chChoice c = None, cs)
      else case checkIndirectChoice k cs of (uc, cs) \<Rightarrow> (uc, c # cs))"

text \<open>
  \<open>mok\<close>: the record and its two copies (0 to 2), the copy of the choice (3). An existing record
  is moved to the end; when the choice cannot be copied the record is gone.
\<close>

definition registerIndirectChoice ::
  "(nat \<Rightarrow> bool) \<Rightarrow> int \<Rightarrow> int \<Rightarrow> choiceKey \<Rightarrow> bytes option \<Rightarrow> choiceRec list \<Rightarrow> choiceRec list"
where
  "registerIndirectChoice mok now choiceTimeout k choice cs =
     (case find (\<lambda>c. choiceKey c = k) cs of
        Some c \<Rightarrow>
          let cs = remove_first (\<lambda>c. choiceKey c = k) cs;
              c = (if choice \<noteq> None then c\<lparr>chChoice := None\<rparr> else c)
          in if choice \<noteq> None \<and> \<not> mok 3 then cs
             else cs @ [c\<lparr>chChoice := (if choice \<noteq> None then choice else chChoice c),
                          chTimeout := now + choiceTimeout\<rparr>]
      | None \<Rightarrow>
          if \<not> mok 0 \<or> \<not> mok 1 \<or> \<not> mok 2 then cs
          else if choice \<noteq> None \<and> \<not> mok 3 then cs
          else cs @ [\<lparr>chClient = fst k, chPort = fst (snd k), chConnType = snd (snd k),
                      chChoice = choice, chTimeout = now + choiceTimeout\<rparr>])"

section \<open>The registry contract\<close>

definition wfChoices :: "choiceRec list \<Rightarrow> bool" where
  "wfChoices cs \<longleftrightarrow> distinct (map choiceKey cs)"

lemma indirectChoice_append:
  "indirectChoice k (xs @ ys) =
     (if k \<in> choiceKey ` set xs then indirectChoice k xs else indirectChoice k ys)"
  by (induction xs) auto

lemma indirectChoice_none: "k \<notin> choiceKey ` set cs \<Longrightarrow> indirectChoice k cs = None"
  by (induction cs) auto

lemma indirectChoice_remove_other:
  "k \<noteq> k' \<Longrightarrow> indirectChoice k' (remove_first (\<lambda>c. choiceKey c = k) cs) = indirectChoice k' cs"
  by (induction cs) auto

lemma remove_first_key:
  "distinct (map choiceKey cs) \<Longrightarrow> k \<notin> choiceKey ` set (remove_first (\<lambda>c. choiceKey c = k) cs)"
  by (induction cs) auto

lemma choiceKey_upd [simp]:
  "choiceKey (c\<lparr>chChoice := x\<rparr>) = choiceKey c" "choiceKey (c\<lparr>chTimeout := n\<rparr>) = choiceKey c"
  "choiceKey \<lparr>chClient = a, chPort = b, chConnType = t, chChoice = x, chTimeout = n\<rparr> = (a, b, t)"
  by (simp_all add: choiceKey_def)

lemma keys_remove_first:
  "choiceKey ` set (remove_first (\<lambda>c. choiceKey c = k) cs) \<subseteq> choiceKey ` set cs"
  using set_remove_first_subset by fastforce

text \<open>The outcome of a registration in one form: at most one record, at the end.\<close>

lemma registerIndirectChoice_cases:
  "\<exists>r. registerIndirectChoice mok now ct k x cs = r \<and>
     (r = cs \<or> r = remove_first (\<lambda>c. choiceKey c = k) cs
      \<or> (\<exists>c. choiceKey c = k \<and> chTimeout c = now + ct
            \<and> (x \<noteq> None \<longrightarrow> chChoice c = x)
            \<and> r = remove_first (\<lambda>c. choiceKey c = k) cs @ [c]))"
proof (cases "find (\<lambda>c. choiceKey c = k) cs")
  case None
  then have "remove_first (\<lambda>c. choiceKey c = k) cs = cs"
    by (intro remove_first_none) (auto simp: find_None_iff)
  with None show ?thesis by (auto simp: registerIndirectChoice_def)
next
  case (Some c)
  then have "choiceKey c = k" by (auto dest: find_SomeD)
  with Some show ?thesis by (cases x) (auto simp: registerIndirectChoice_def Let_def)
qed

lemma wfChoices_append_new:
  assumes "wfChoices cs" "choiceKey c = k"
  shows "wfChoices (remove_first (\<lambda>c. choiceKey c = k) cs @ [c])"
  using assms remove_first_key [of cs k] map_remove_first_distinct [of choiceKey cs]
  by (auto simp: wfChoices_def)

lemma wfChoices_remove: "wfChoices cs \<Longrightarrow> wfChoices (remove_first P cs)"
  by (simp add: wfChoices_def map_remove_first_distinct)

lemma wfChoices_register:
  assumes "wfChoices cs"
  shows "wfChoices (registerIndirectChoice mok now ct k x cs)"
  using registerIndirectChoice_cases [of mok now ct k x cs]
    wfChoices_append_new [OF assms] wfChoices_remove [OF assms] assms by metis

definition putChoice :: "int \<Rightarrow> int \<Rightarrow> choiceRec list \<Rightarrow> choiceKey \<Rightarrow> bytes \<Rightarrow> choiceRec list" where
  "putChoice now ct cs k v = registerIndirectChoice (\<lambda>_. True) now ct k (Some v) cs"

definition takeChoice :: "choiceRec list \<Rightarrow> choiceKey \<Rightarrow> choiceRec list" where
  "takeChoice cs k = snd (checkIndirectChoice k cs)"

lemma takeChoice_remove: "takeChoice cs k = remove_first (\<lambda>c. choiceKey c = k) cs"
  by (induction cs) (auto simp: takeChoice_def split: prod.split)

lemma putChoice_eq:
  "\<exists>c. choiceKey c = k \<and> chChoice c = Some v \<and> chTimeout c = now + ct
     \<and> putChoice now ct cs k v = remove_first (\<lambda>c. choiceKey c = k) cs @ [c]"
proof (cases "find (\<lambda>c. choiceKey c = k) cs")
  case None
  then have "remove_first (\<lambda>c. choiceKey c = k) cs = cs"
    by (intro remove_first_none) (auto simp: find_None_iff)
  with None show ?thesis by (auto simp: putChoice_def registerIndirectChoice_def)
next
  case (Some c)
  then have "choiceKey c = k" by (auto dest: find_SomeD)
  with Some show ?thesis by (auto simp: putChoice_def registerIndirectChoice_def Let_def)
qed

interpretation ch: keyed_store_del "\<lambda>cs k. indirectChoice k cs" "putChoice now ct" "(=)" wfChoices takeChoice
  for now ct
proof unfold_locales
  fix cs k k' v
  assume wf: "wfChoices cs"
  obtain c where c: "choiceKey c = k" "chChoice c = Some v"
      "putChoice now ct cs k v = remove_first (\<lambda>c. choiceKey c = k) cs @ [c]"
    using putChoice_eq by blast
  have gone: "k \<notin> choiceKey ` set (remove_first (\<lambda>c. choiceKey c = k) cs)"
    using wf remove_first_key by (simp add: wfChoices_def)
  show "k = k' \<Longrightarrow> indirectChoice k' (putChoice now ct cs k v) = Some v"
    using c gone by (simp add: indirectChoice_append)
  show "k \<noteq> k' \<Longrightarrow> indirectChoice k' (putChoice now ct cs k v) = indirectChoice k' cs"
    using c by (auto simp: indirectChoice_append indirectChoice_remove_other
        indirectChoice_none [symmetric] split: if_splits)
  show "wfChoices (putChoice now ct cs k v)"
    unfolding putChoice_def by (rule wfChoices_register [OF wf])
  show "k = k' \<Longrightarrow> indirectChoice k' (takeChoice cs k) = None"
    using gone by (simp add: takeChoice_remove indirectChoice_none)
  show "k \<noteq> k' \<Longrightarrow> indirectChoice k' (takeChoice cs k) = indirectChoice k' cs"
    by (simp add: takeChoice_remove indirectChoice_remove_other)
  show "wfChoices (takeChoice cs k)"
    using wf map_remove_first_distinct by (auto simp: wfChoices_def takeChoice_remove)
qed simp_all

section \<open>Expiry\<close>

text \<open>Sorted by expiry, nothing expires later than a registration made now would.\<close>

definition okExpiry :: "int \<Rightarrow> int \<Rightarrow> choiceRec list \<Rightarrow> bool" where
  "okExpiry now ct cs \<longleftrightarrow> sorted (map chTimeout cs) \<and> (\<forall>c \<in> set cs. chTimeout c \<le> now + ct)"

lemma sorted_remove_first: "sorted (map f cs) \<Longrightarrow> sorted (map f (remove_first P cs))"
proof (induction cs)
  case (Cons c cs)
  then show ?case using set_remove_first_subset [of P cs] by auto
qed simp

lemma okExpiry_register:
  assumes "okExpiry now ct cs"
  shows "okExpiry now ct (registerIndirectChoice mok now ct k x cs)"
proof -
  let ?r = "remove_first (\<lambda>c. choiceKey c = k) cs"
  have "sorted (map chTimeout ?r)" "\<forall>c \<in> set ?r. chTimeout c \<le> now + ct"
    using assms sorted_remove_first set_remove_first_subset by (fastforce simp: okExpiry_def)+
  then show ?thesis
    using registerIndirectChoice_cases [of mok now ct k x cs] assms
    by (auto simp: okExpiry_def sorted_append)
qed

lemma disposeIndirectHosts_filter:
  assumes "sorted (map chTimeout cs)"
  shows "snd (disposeIndirectHosts now cs) = filter (\<lambda>c. chTimeout c > now) cs"
  using assms
proof (induction cs)
  case (Cons c cs)
  show ?case
  proof (cases "chTimeout c > now")
    case True
    then have "filter (\<lambda>c. chTimeout c > now) cs = cs"
      using Cons.prems by (auto simp: filter_id_conv)
    with True show ?thesis by simp
  next
    case False
    with Cons show ?thesis by simp
  qed
qed simp

lemma disposeIndirectHosts_wake:
  assumes "sorted (map chTimeout cs)"
  shows "fst (disposeIndirectHosts now cs) =
    (case filter (\<lambda>c. chTimeout c > now) cs of [] \<Rightarrow> TO_INF | c # _ \<Rightarrow> chTimeout c)"
  using assms by (induction cs) auto


section \<open>Properties\<close>

text \<open>Whatever series of choices is registered, a terminal gets the last one made for its address, port and connection type, and the others are unaffected.\<close>

theorem indirectChoice_series:
  assumes "wfChoices cs"
  shows "indirectChoice k' (foldl (\<lambda>cs (k, v). putChoice now ct cs k v) cs kvs) =
     (case find (\<lambda>(k, v). k = k') (rev kvs) of
        Some (k, v) \<Rightarrow> Some v
      | None \<Rightarrow> indirectChoice k' cs)"
  using ch.find_add_all [OF assms, where kvs = kvs and k' = k' and now = now and ct = ct]
  by (simp add: ch.add_all_def)

theorem indirectChoice_series_witness:
  "indirectChoice ([10], [6], 0)
     (foldl (\<lambda>cs (k, v). putChoice 100 15 cs k v) [] [(([10], [6], 0), [7]), (([10], [6], 0), [8])]) = Some [8]"
  using indirectChoice_series [of "[]" "([10], [6], 0)" 100 15 "[(([10], [6], 0), [7]), (([10], [6], 0), [8])]"]
  by (simp add: wfChoices_def)

text \<open>C10. The list stays sorted by expiry over registrations; so disposing at a later time drops exactly the expired records and reports the time the next one expires.\<close>

theorem choices_expire:
  assumes "okExpiry now ct cs"
  shows "\<exists>r. registerIndirectChoice mok now ct k x cs = r \<and> okExpiry now ct r \<and>
     disposeIndirectHosts t r =
       (case filter (\<lambda>c. chTimeout c > t) r of [] \<Rightarrow> TO_INF | c # _ \<Rightarrow> chTimeout c,
        filter (\<lambda>c. chTimeout c > t) r)"
proof -
  let ?r = "registerIndirectChoice mok now ct k x cs"
  have ok: "okExpiry now ct ?r" by (rule okExpiry_register [OF assms])
  then have "sorted (map chTimeout ?r)" by (simp add: okExpiry_def)
  then have "disposeIndirectHosts t ?r =
       (case filter (\<lambda>c. chTimeout c > t) ?r of [] \<Rightarrow> TO_INF | c # _ \<Rightarrow> chTimeout c,
        filter (\<lambda>c. chTimeout c > t) ?r)"
    using disposeIndirectHosts_filter disposeIndirectHosts_wake prod.collapse by metis
  with ok show ?thesis by blast
qed

theorem choices_expire_witness:
  "\<exists>r. registerIndirectChoice (\<lambda>_. True) 100 15 ([10], [6], 0) None [] = r \<and> okExpiry 100 15 r \<and>
     disposeIndirectHosts 115 r = (case filter (\<lambda>c. chTimeout c > 115) r of [] \<Rightarrow> TO_INF | c # _ \<Rightarrow> chTimeout c,
        filter (\<lambda>c. chTimeout c > 115) r)"
  by (rule choices_expire) (simp add: okExpiry_def)

end
