(* ===== verification/Access.thy ===== *)
theory Access
  imports IpcPipe Choose
begin

text \<open>
  Who may use the XDMCP service, \<^verbatim>\<open>kdm/backend/access.c\<close>: the lists of hosts, listen addresses,
  aliases and access control entries as the configuration reader sends them, and the
  questions the daemon asks of them. Strings are the bytes before their NUL. An alias may
  refer to aliases, so the two scans recurse; nothing in this file bounds the
  recursion, so they take the depth left as their first argument, and the result \<open>None\<close> is
  either that depth exceeded or a read outside the received data.
\<close>

section \<open>Data\<close>

abbreviation a_notAllowed :: int where "a_notAllowed \<equiv> 1"
abbreviation a_notBroadcast :: int where "a_notBroadcast \<equiv> 2"
abbreviation a_useChooser :: int where "a_useChooser \<equiv> 2"

datatype hostEntry =
    HAlias bytes
  | HPattern bytes
  | HAddress int bytes
  | HBroadcast

record listenEntry =
  liIface :: int
  liMcasts :: int
  liNmcasts :: int

record aliasEntry =
  alName :: bytes
  alHosts :: int
  alNhosts :: int

record aclEntry =
  acEntries :: int
  acNentries :: int
  acHosts :: int
  acNhosts :: int
  acFlags :: int

record accArr =
  hostList :: "hostEntry list"
  listenList :: "listenEntry list"
  aliasList :: "aliasEntry list"
  acList :: "aclEntry list"

text \<open>Pointer and count into the host list, as far as it goes.\<close>

definition hostRange :: "hostEntry list \<Rightarrow> int \<Rightarrow> int \<Rightarrow> hostEntry list option" where
  "hostRange hs f n =
     (if 0 \<le> f \<and> 0 \<le> n \<and> f + n \<le> int (length hs) then Some (take (nat n) (drop (nat f) hs)) else None)"

section \<open>Patterns\<close>

definition tolower :: "8 word \<Rightarrow> 8 word" where
  "tolower c = (if 65 \<le> c \<and> c \<le> 90 then c + 32 else c)"

abbreviation STAR :: "8 word" where "STAR \<equiv> 42"
abbreviation QUEST :: "8 word" where "QUEST \<equiv> 63"
abbreviation BSLASH :: "8 word" where "BSLASH \<equiv> 92"

text \<open>
  \<open>starMatch\<close> is the loop of the case \<open>*\<close>. A backslash at the end of the pattern is followed by
  the NUL, which equals the end of the string; both pointers then leave their arrays.
\<close>

function (sequential) patternMatch :: "bytes \<Rightarrow> bytes \<Rightarrow> bool outcome"
  and starMatch :: "bytes \<Rightarrow> bytes \<Rightarrow> bool outcome"
where
  "patternMatch s [] = Ret (s = [])"
| "patternMatch s (p # ps) =
     (if p = STAR then (if ps = [] then Ret True else starMatch s ps)
      else if p = QUEST then (if s = [] then Ret False else patternMatch (tl s) ps)
      else if p = BSLASH then
        (case ps of
           [] \<Rightarrow> if s = [] then UB else Ret False
         | q # qs \<Rightarrow> if s = [] \<or> tolower q \<noteq> tolower (hd s) then Ret False else patternMatch (tl s) qs)
      else if s = [] \<or> tolower p \<noteq> tolower (hd s) then Ret False
      else patternMatch (tl s) ps)"
| "starMatch [] ps = Ret False"
| "starMatch (c # cs) ps =
     (case patternMatch (c # cs) ps of
        UB \<Rightarrow> UB
      | Ret True \<Rightarrow> Ret True
      | Ret False \<Rightarrow> starMatch cs ps)"
  by pat_completeness auto
termination
  by (relation "measures [\<lambda>x. case x of Inl (s, p) \<Rightarrow> 2 * length p | Inr (s, p) \<Rightarrow> 2 * length p + 1,
        \<lambda>x. case x of Inl (s, p) \<Rightarrow> length s | Inr (s, p) \<Rightarrow> length s]") auto

declare patternMatch.simps(2) [simp del]

text \<open>A null string is taken for the empty one.\<close>

definition patMatch :: "bytes option \<Rightarrow> bytes \<Rightarrow> bool option" where
  "patMatch s p = (case patternMatch (case s of None \<Rightarrow> [] | Some b \<Rightarrow> b) p of UB \<Rightarrow> None | Ret b \<Rightarrow> Some b)"

section \<open>Scanning the lists\<close>

text \<open>Loops that stop at the first hit, and loops that add up what their steps yield.\<close>

fun anyM :: "('a \<Rightarrow> bool option) \<Rightarrow> 'a list \<Rightarrow> bool option" where
  "anyM f [] = Some False"
| "anyM f (x # xs) = do { b \<leftarrow> f x; if b then Some True else anyM f xs }"

fun catM :: "('a \<Rightarrow> ('b list \<times> bool) option) \<Rightarrow> 'a list \<Rightarrow> ('b list \<times> bool) option" where
  "catM f [] = Some ([], False)"
| "catM f (x # xs) = do { (c, l) \<leftarrow> f x; (cs, ls) \<leftarrow> catM f xs; Some (c @ cs, l \<or> ls) }"

text \<open>What the scan calls the given function with; \<open>FamilyBroadcast\<close> comes without an address.\<close>

datatype hostCall = CallHost int bytes | CallBroadcast

text \<open>
  \<open>useLocal\<close>: the caller wants to know of the local host; \<open>loc\<close> is its address. The second part
  of the result says that it was on the list.
\<close>

fun scanHostlist ::
  "nat \<Rightarrow> accArr \<Rightarrow> bytes \<Rightarrow> int \<Rightarrow> bool \<Rightarrow> bool \<Rightarrow> int \<Rightarrow> int \<Rightarrow> (hostCall list \<times> bool) option"
where
  "scanHostlist 0 A loc ct broadcast useLocal fh nh = None"
| "scanHostlist (Suc k) A loc ct broadcast useLocal fh nh = do {
     hs \<leftarrow> hostRange (hostList A) fh nh;
     catM (\<lambda>h. case h of
         HAlias p \<Rightarrow>
           catM (\<lambda>a. do {
               m \<leftarrow> patMatch (Some (alName a)) p;
               if m then scanHostlist k A loc ct broadcast useLocal (alHosts a) (alNhosts a)
               else Some ([], False) }) (aliasList A)
       | HAddress t b \<Rightarrow>
           Some (if useLocal \<and> loc = b then ([], True) else ([CallHost ct b], False))
       | HBroadcast \<Rightarrow> Some (if broadcast then [CallBroadcast] else [], False)
       | HPattern p \<Rightarrow> Some ([], False)) hs }"

text \<open>\<open>name\<close> is what \<open>networkAddressToHostname\<close> finds for the client.\<close>

fun scanEntrylist :: "nat \<Rightarrow> accArr \<Rightarrow> bytes option \<Rightarrow> bytes \<Rightarrow> int \<Rightarrow> int \<Rightarrow> int \<Rightarrow> bool option" where
  "scanEntrylist 0 A name addr ct fh nh = None"
| "scanEntrylist (Suc k) A name addr ct fh nh = do {
     hs \<leftarrow> hostRange (hostList A) fh nh;
     anyM (\<lambda>h. case h of
         HAlias p \<Rightarrow>
           anyM (\<lambda>a. do {
               m \<leftarrow> patMatch (Some (alName a)) p;
               if m then scanEntrylist k A name addr ct (alHosts a) (alNhosts a) else Some False })
             (aliasList A)
       | HPattern p \<Rightarrow> patMatch name p
       | HAddress t b \<Rightarrow> Some (t = ct \<and> b = addr)
       | HBroadcast \<Rightarrow> Some False) hs }"

text \<open>The first entry of the wanted sort, direct or with hosts, whose client list matches.\<close>

fun firstAcl :: "(aclEntry \<Rightarrow> bool option) \<Rightarrow> aclEntry list \<Rightarrow> aclEntry option option" where
  "firstAcl f [] = Some None"
| "firstAcl f (e # es) = do { b \<leftarrow> f e; if b then Some (Some e) else firstAcl f es }"

definition matchAclEntry ::
  "nat \<Rightarrow> accArr \<Rightarrow> bytes option \<Rightarrow> bytes \<Rightarrow> int \<Rightarrow> bool \<Rightarrow> aclEntry option option"
where
  "matchAclEntry k A name addr ct direct =
     firstAcl (\<lambda>e. if (acNhosts e = 0) = direct
         then scanEntrylist k A name addr ct (acEntries e) (acNentries e) else Some False) (acList A)"

definition hasFlag :: "aclEntry \<Rightarrow> int \<Rightarrow> bool" where
  "hasFlag e f \<longleftrightarrow> and (acFlags e) f \<noteq> 0"

text \<open>Queries are forwarded to the hosts called for; the flag asks for the local login screen or chooser.\<close>

definition forEachMatchingIndirectHost ::
  "nat \<Rightarrow> accArr \<Rightarrow> bytes option \<Rightarrow> bytes \<Rightarrow> choiceRec list \<Rightarrow> bytes \<Rightarrow> bytes \<Rightarrow> int
    \<Rightarrow> (hostCall list \<times> bool) option"
where
  "forEachMatchingIndirectHost k A name loc chs addr port ct = do {
     e \<leftarrow> matchAclEntry k A name addr ct False;
     (case e of
        None \<Rightarrow> Some ([], False)
      | Some e \<Rightarrow>
          if hasFlag e a_notAllowed then Some ([], False)
          else if hasFlag e a_useChooser then
            (case indirectChoice (addr, port, word_of_int ct) chs of
               None \<Rightarrow> Some ([], True)
             | Some c \<Rightarrow> if loc = c then Some ([], True) else Some ([CallHost ct c], False))
          else scanHostlist k A loc ct False True (acHosts e) (acNhosts e)) }"

definition useChooser :: "nat \<Rightarrow> accArr \<Rightarrow> bytes option \<Rightarrow> bytes \<Rightarrow> int \<Rightarrow> bool option" where
  "useChooser k A name addr ct = do {
     e \<leftarrow> matchAclEntry k A name addr ct False;
     Some (case e of None \<Rightarrow> False | Some e \<Rightarrow> \<not> hasFlag e a_notAllowed \<and> hasFlag e a_useChooser) }"

definition forEachChooserHost ::
  "nat \<Rightarrow> accArr \<Rightarrow> bytes option \<Rightarrow> bytes \<Rightarrow> bytes \<Rightarrow> int \<Rightarrow> hostCall list option"
where
  "forEachChooserHost k A name loc addr ct = do {
     e \<leftarrow> matchAclEntry k A name addr ct False;
     (case e of
        None \<Rightarrow> Some []
      | Some e \<Rightarrow>
          if \<not> hasFlag e a_notAllowed \<and> hasFlag e a_useChooser
          then map_option fst (scanHostlist k A loc ct True False (acHosts e) (acNhosts e))
          else Some []) }"

datatype xdmOpCode =
    BROADCAST_QUERY | QUERY | INDIRECT_QUERY | FORWARD_QUERY | WILLING | UNWILLING | REQUEST
  | ACCEPT | DECLINE | MANAGE | REFUSE | FAILED | KEEPALIVE | ALIVE

definition acceptableDisplayAddress ::
  "nat \<Rightarrow> accArr \<Rightarrow> bytes option \<Rightarrow> bytes \<Rightarrow> int \<Rightarrow> xdmOpCode \<Rightarrow> bool option"
where
  "acceptableDisplayAddress k A name addr ct type =
     (if type = INDIRECT_QUERY then Some True
      else do {
        e \<leftarrow> matchAclEntry k A name addr ct True;
        Some (case e of
          None \<Rightarrow> False
        | Some e \<Rightarrow> \<not> hasFlag e a_notAllowed \<and> (type \<noteq> BROADCAST_QUERY \<or> \<not> hasFlag e a_notBroadcast)) })"

text \<open>The address under which the host knows itself; \<open>ai\<close> is the resolver's first answer.\<close>

definition getLocalAddress :: "sockaddr option \<Rightarrow> bytes" where
  "getLocalAddress ai = (case ai of None \<Rightarrow> [127, 0, 0, 1] | Some sa \<Rightarrow> saAddr sa)"

text \<open>The calls of the listen function, with no address for the wildcard, and of the multicast function.\<close>

datatype listenCall = CallListen "bytes option" | CallMcast bytes

fun addressAt :: "hostEntry list \<Rightarrow> int \<Rightarrow> bytes option" where
  "addressAt hs i =
     (if 0 \<le> i \<and> i < int (length hs)
      then (case hs ! nat i of HAddress t b \<Rightarrow> Some b | _ \<Rightarrow> None) else None)"

fun listenCalls :: "hostEntry list \<Rightarrow> listenEntry list \<Rightarrow> listenCall list option" where
  "listenCalls hs [] = Some []"
| "listenCalls hs (l # ls) = do {
     i \<leftarrow> (if liIface l < 0 then Some None else map_option Some (addressAt hs (liIface l)));
     ms \<leftarrow> those (map (\<lambda>j. addressAt hs (liMcasts l + int j)) [0 ..< nat (liNmcasts l)]);
     cs \<leftarrow> listenCalls hs ls;
     Some (CallListen i # map CallMcast ms @ cs) }"

definition forEachListenAddr :: "accArr \<Rightarrow> listenCall list option" where
  "forEachListenAddr A = listenCalls (hostList A) (listenList A)"

section \<open>Receiving the lists\<close>

abbreviation HOST_ALIAS :: int where "HOST_ALIAS \<equiv> 0"
abbreviation HOST_ADDRESS :: int where "HOST_ADDRESS \<equiv> 1"
abbreviation HOST_PATTERN :: int where "HOST_PATTERN \<equiv> 2"
abbreviation HOST_BROADCAST :: int where "HOST_BROADCAST \<equiv> 3"

text \<open>Counts and indices are kept in a \<^verbatim>\<open>short int\<close>.\<close>

definition short :: "int \<Rightarrow> int" where
  "short v = sint (word_of_int v :: 16 word)"

definition recvShort :: "int rx" where
  "recvShort s = do { (v, s) \<leftarrow> gRecvInt s; Some (short v, s) }"

text \<open>
  Strings and addresses go to the end of the one buffer, of which \<open>room\<close> bytes are left; to
  write past it, or to leave a string without its NUL, is \<open>None\<close>.
\<close>

definition recvStrAt :: "nat \<Rightarrow> (bytes \<times> nat) rx" where
  "recvStrAt room s = do {
     ((l, b), s) \<leftarrow> gRecvStrBuf s;
     if 0 \<in> set b \<and> length b \<le> room then Some ((cstrOf b, room - length b), s) else None }"

definition recvArrAt :: "nat \<Rightarrow> (bytes \<times> nat) rx" where
  "recvArrAt room s = do {
     ((l, b), s) \<leftarrow> gRecvArrBuf s;
     if l = int (length b) \<and> length b \<le> room then Some ((b, room - length b), s) else None }"

definition connOf :: "int \<Rightarrow> int" where
  "connOf af = (if af = AF_INET then FamilyInternet else if af = AF_INET6 then FamilyInternet6
     else FamilyLocal)"

definition recvHost :: "nat \<Rightarrow> (hostEntry \<times> nat) rx" where
  "recvHost room s = do {
     (t, s) \<leftarrow> recvShort s;
     if t = HOST_ALIAS then do { ((b, room), s) \<leftarrow> recvStrAt room s; Some ((HAlias b, room), s) }
     else if t = HOST_PATTERN then do { ((b, room), s) \<leftarrow> recvStrAt room s; Some ((HPattern b, room), s) }
     else if t = HOST_ADDRESS then do {
       ((b, room), s) \<leftarrow> recvArrAt room s;
       (af, s) \<leftarrow> gRecvInt s;
       Some ((HAddress (connOf af) b, room), s) }
     else if t = HOST_BROADCAST then Some ((HBroadcast, room), s)
     else None }"

fun recvHosts :: "nat \<Rightarrow> nat \<Rightarrow> (hostEntry list \<times> nat) rx" where
  "recvHosts 0 room s = Some (([], room), s)"
| "recvHosts (Suc n) room s = do {
     ((h, room), s) \<leftarrow> recvHost room s;
     ((hs, room), s) \<leftarrow> recvHosts n room s;
     Some ((h # hs, room), s) }"

definition recvListen :: "listenEntry rx" where
  "recvListen s = do {
     (i, s) \<leftarrow> recvShort s; (m, s) \<leftarrow> recvShort s; (n, s) \<leftarrow> recvShort s;
     Some (\<lparr>liIface = i, liMcasts = m, liNmcasts = n\<rparr>, s) }"

definition recvAcl :: "aclEntry rx" where
  "recvAcl s = do {
     (e, s) \<leftarrow> recvShort s; (ne, s) \<leftarrow> recvShort s; (h, s) \<leftarrow> recvShort s; (nh, s) \<leftarrow> recvShort s;
     (f, s) \<leftarrow> recvShort s;
     Some (\<lparr>acEntries = e, acNentries = ne, acHosts = h, acNhosts = nh, acFlags = f\<rparr>, s) }"

fun recvMany :: "'a rx \<Rightarrow> nat \<Rightarrow> 'a list rx" where
  "recvMany f 0 s = Some ([], s)"
| "recvMany f (Suc n) s = do { (x, s) \<leftarrow> f s; (xs, s) \<leftarrow> recvMany f n s; Some (x # xs, s) }"

fun recvAliases :: "nat \<Rightarrow> nat \<Rightarrow> (aliasEntry list \<times> nat) rx" where
  "recvAliases 0 room s = Some (([], room), s)"
| "recvAliases (Suc n) room s = do {
     ((b, room), s) \<leftarrow> recvStrAt room s;
     (h, s) \<leftarrow> recvShort s;
     (nh, s) \<leftarrow> recvShort s;
     ((as, room), s) \<leftarrow> recvAliases n room s;
     Some ((\<lparr>alName = b, alHosts = h, alNhosts = nh\<rparr> # as, room), s) }"

text \<open>\<open>scanAccessDatabase\<close> once \<open>startConfig\<close> has asked for the lists; \<open>mok\<close>: the buffer can be allocated.\<close>

definition scanAccessDatabase :: "bool \<Rightarrow> accArr rx" where
  "scanAccessDatabase mok s = do {
     (nH, s) \<leftarrow> recvShort s; (nL, s) \<leftarrow> recvShort s; (nAl, s) \<leftarrow> recvShort s; (nAc, s) \<leftarrow> recvShort s;
     (nC, s) \<leftarrow> gRecvInt s;
     if \<not> mok then None
     else do {
       ((hs, room), s) \<leftarrow> recvHosts (nat nH) (nat nC) s;
       (ls, s) \<leftarrow> recvMany recvListen (nat nL) s;
       ((als, room), s) \<leftarrow> recvAliases (nat nAl) room s;
       (acs, s) \<leftarrow> recvMany recvAcl (nat nAc) s;
       Some (\<lparr>hostList = hs, listenList = ls, aliasList = als, acList = acs\<rparr>, s) } }"

section \<open>What a pattern matches\<close>

text \<open>The reading of a pattern as documented, on its tokens.\<close>

datatype token = TLit "8 word" | TAny | TStar

fun toks :: "bytes \<Rightarrow> token list" where
  "toks [] = []"
| "toks (p # ps) =
     (if p = STAR then TStar # toks ps
      else if p = QUEST then TAny # toks ps
      else if p = BSLASH then (case ps of [] \<Rightarrow> [TLit 0] | q # qs \<Rightarrow> TLit (tolower q) # toks qs)
      else TLit (tolower p) # toks ps)"

fun globs :: "token list \<Rightarrow> bytes \<Rightarrow> bool" where
  "globs [] s = (s = [])"
| "globs (TLit c # ts) s = (s \<noteq> [] \<and> tolower (hd s) = c \<and> globs ts (tl s))"
| "globs (TAny # ts) s = (s \<noteq> [] \<and> globs ts (tl s))"
| "globs (TStar # ts) s = (\<exists>n \<le> length s. globs ts (drop n s))"

text \<open>No backslash at the end, no star directly after a star.\<close>

fun okPat :: "bytes \<Rightarrow> bool" where
  "okPat [] = True"
| "okPat (p # ps) =
     (if p = STAR then (ps = [] \<or> hd ps \<noteq> STAR) \<and> okPat ps
      else if p = BSLASH then ps \<noteq> [] \<and> okPat (tl ps)
      else okPat ps)"

lemma globs_star_Nil: "globs [TStar] s"
  by (auto intro: exI [of _ "length s"])

lemma globs_star_Cons:
  "globs (TStar # ts) (c # cs) \<longleftrightarrow> globs ts (c # cs) \<or> globs (TStar # ts) cs"
proof
  assume "globs (TStar # ts) (c # cs)"
  then obtain n where n: "n \<le> Suc (length cs)" "globs ts (drop n (c # cs))" by auto
  then show "globs ts (c # cs) \<or> globs (TStar # ts) cs" by (cases n) auto
next
  assume "globs ts (c # cs) \<or> globs (TStar # ts) cs"
  then show "globs (TStar # ts) (c # cs)"
    by (auto intro: exI [of _ 0] exI [of _ "Suc _"])
qed

text \<open>Tokens that start with something other than a star do not match the empty string.\<close>

lemma globs_empty: "ps \<noteq> [] \<Longrightarrow> hd ps \<noteq> STAR \<Longrightarrow> \<not> globs (toks ps) []"
  by (cases ps) (auto split: list.splits)

lemma match_globs:
  "okPat p \<Longrightarrow> patternMatch s p = Ret (globs (toks p) s)"
  "okPat p \<Longrightarrow> p \<noteq> [] \<Longrightarrow> hd p \<noteq> STAR \<Longrightarrow> starMatch s p = Ret (globs (TStar # toks p) s)"
proof (induction s p and s p rule: patternMatch_starMatch.induct)
  case (2 s p ps)
  show ?case
  proof (cases "p = STAR")
    case True
    with 2 show ?thesis
      by (cases "ps = []") (auto simp: patternMatch.simps(2) globs_star_Nil simp del: globs.simps(4))
  next
    case ns: False
    show ?thesis
    proof (cases "p = BSLASH")
      case True
      with 2 show ?thesis
        by (cases ps) (auto simp: patternMatch.simps(2))
    next
      case False
      with 2 ns show ?thesis
        by (auto simp: patternMatch.simps(2))
    qed
  qed
next
  case (4 c cs ps)
  then show ?case
    by (cases "globs (toks ps) (c # cs)") (simp_all add: globs_star_Cons del: globs.simps(4))
next
  case (3 ps)
  then show ?case using globs_empty by simp
qed simp

text \<open>C12. A pattern without a trailing backslash and without two stars in a row matches exactly the strings its reading as a shell pattern describes: \<open>?\<close> stands for one character, \<open>*\<close> for any number, a backslash quotes, case does not count.\<close>

theorem patternMatch_globs:
  assumes "okPat p"
  shows "patternMatch s p = Ret (globs (toks p) s)"
  using assms by (rule match_globs)

theorem patternMatch_globs_witness:
  "patternMatch [65, 98, 46, 120] [97, 42, 92, 46, 63] = Ret True \<and> globs (toks [97, 42, 92, 46, 63]) [65, 98, 46, 120]"
proof -
  have "patternMatch [65, 98, 46, 120] [97, 42, 92, 46, 63] = Ret True" by code_simp
  with patternMatch_globs [of "[97, 42, 92, 46, 63]" "[65, 98, 46, 120]"] show ?thesis by simp
qed

text \<open>Two stars at the end demand a character; a backslash at the end is read past.\<close>

theorem patternMatch_double_star:
  "patternMatch [] [STAR, STAR] = Ret False \<and> globs (toks [STAR, STAR]) []"
  by code_simp

theorem patternMatch_overread: "patternMatch [97] [97, BSLASH] = UB"
  by code_simp

end
