(* ===== verification/AccFile.thy ===== *)
theory AccFile
  imports Access
begin

text \<open>
  The other end of \<open>Access\<close>: the configuration reader's \<open>readAccessFile\<close>
  (\<^verbatim>\<open>kdm/kfrontend/kdm_config.c\<close>), which parses the Xaccess file, resolves host names, refuses
  alias recursion and sends the lists. The file is its bytes. \<open>readWord\<close> puts a NUL behind
  each word into the buffer; where that overwrites the line end still to be read,
  the NUL is taken for a line end, so the model leaves the buffer alone. Allocations
  succeed; the reader gives up otherwise.
\<close>

section \<open>Words\<close>

text \<open>\<open>eol\<close>: stop at the end of the line. \<open>acc\<close> is the word so far.\<close>

abbreviation BNL :: "8 word" where "BNL \<equiv> 10"

text \<open>A comment ends before the line end.\<close>

definition skipComment :: "bool \<Rightarrow> bytes \<Rightarrow> bytes" where
  "skipComment quoted s = (if s \<noteq> [] \<and> hd s = 35 \<and> \<not> quoted then dropWhile (\<lambda>x. x \<noteq> BNL) s else s)"

lemma length_skipComment: "length (skipComment q s) \<le> length s"
  by (simp add: skipComment_def length_dropWhile_le)

lemma skipComment_Cons: "skipComment q s = c # r \<Longrightarrow> length r < length s"
  using length_skipComment [of q s] by simp

definition eow :: "bytes \<Rightarrow> bytes \<Rightarrow> bytes option \<times> bytes" where
  "eow acc s = (if acc = [] then None else Some acc, s)"

function readWordFrom :: "bool \<Rightarrow> bool \<Rightarrow> bytes \<Rightarrow> bytes \<Rightarrow> bytes option \<times> bytes" where
  "readWordFrom eol quoted acc s =
     (case skipComment quoted s of
        [] \<Rightarrow> eow acc []
      | c # r \<Rightarrow>
          if c = 0 \<or> c = BNL then
            (if eol \<and> \<not> quoted then eow acc (c # r)
             else if acc \<noteq> [] then (Some acc, c # r)
             else readWordFrom eol False [] r)
          else if c = 32 \<or> c = 9 then
            (if acc \<noteq> [] then (Some acc, r) else readWordFrom eol False [] r)
          else if c = BSLASH \<and> \<not> quoted then readWordFrom eol True acc r
          else readWordFrom eol False (acc @ [c]) r)"
  by pat_completeness auto
termination
  by (relation "measure (\<lambda>(eol, q, acc, s). length s)") (auto dest: skipComment_Cons)

declare readWordFrom.simps [simp del]

definition readWord :: "bool \<Rightarrow> bytes \<Rightarrow> bytes option \<times> bytes" where
  "readWord eol s = readWordFrom eol False [] s"

lemma readWordFrom_length:
  "readWordFrom eol q acc s = (w, r) \<Longrightarrow>
     (case w of None \<Rightarrow> 0 | Some w \<Rightarrow> length w) + length r \<le> length acc + length s \<and> w \<noteq> Some []"
proof (induction eol q acc s rule: readWordFrom.induct)
  case (1 eol quoted acc s)
  show ?case
  proof (cases "skipComment quoted s")
    case Nil
    with 1(5) show ?thesis by (subst (asm) readWordFrom.simps) (auto simp: eow_def split: if_splits)
  next
    case (Cons c t)
    have l: "length t < length s" by (rule skipComment_Cons [OF Cons])
    have eq: "readWordFrom eol quoted acc s = (if c = 0 \<or> c = BNL then
            (if eol \<and> \<not> quoted then eow acc (c # t)
             else if acc \<noteq> [] then (Some acc, c # t)
             else readWordFrom eol False [] t)
          else if c = 32 \<or> c = 9 then
            (if acc \<noteq> [] then (Some acc, t) else readWordFrom eol False [] t)
          else if c = BSLASH \<and> \<not> quoted then readWordFrom eol True acc t
          else readWordFrom eol False (acc @ [c]) t)"
      by (subst readWordFrom.simps) (simp add: Cons)
    consider "(w, r) = eow acc (c # t)" | "acc \<noteq> []" "w = Some acc" "length r \<le> Suc (length t)"
      | "readWordFrom eol False [] t = (w, r)" "c = 0 \<or> c = BNL" "\<not> (eol \<and> \<not> quoted)" "acc = []"
      | "readWordFrom eol False [] t = (w, r)" "\<not> (c = 0 \<or> c = BNL)" "c = 32 \<or> c = 9" "acc = []"
      | "readWordFrom eol True acc t = (w, r)" "\<not> (c = 0 \<or> c = BNL)" "\<not> (c = 32 \<or> c = 9)" "c = BSLASH \<and> \<not> quoted"
      | "readWordFrom eol False (acc @ [c]) t = (w, r)" "\<not> (c = 0 \<or> c = BNL)" "\<not> (c = 32 \<or> c = 9)" "\<not> (c = BSLASH \<and> \<not> quoted)"
      using 1(5) unfolding eq by (auto split: if_splits)
    then show ?thesis
    proof cases
      case 3
      from 1(1) [OF Cons 3(2,3) _ 3(1)] 3(4) l show ?thesis by simp
    next
      case 4
      from 1(2) [OF Cons 4(2,3) _ 4(1)] 4(4) l show ?thesis by simp
    next
      case 5
      from 1(3) [OF Cons 5(2,3,4,1)] l show ?thesis by simp
    next
      case 6
      from 1(4) [OF Cons 6(2,3,4,1)] l show ?thesis by simp
    qed (use l in \<open>auto simp: eow_def split: if_splits\<close>)
  qed
qed

lemma readWord_length:
  "readWord eol s = (w, r) \<Longrightarrow> (case w of None \<Rightarrow> 0 | Some w \<Rightarrow> length w) + length r \<le> length s \<and> w \<noteq> Some []"
  using readWordFrom_length [of eol False "[]" s w r] by (simp add: readWord_def)

lemma readWord_shorter: "(Some w, r) = readWord eol s \<Longrightarrow> length r < length s"
  using readWord_length [of eol s "Some w" r] by (cases w) auto

text \<open>The rest of the words of a line, and the lines: the first word of each and its further words.\<close>

function lineWords :: "bytes \<Rightarrow> bytes list \<times> bytes" where
  "lineWords s =
     (case readWord True s of
        (None, r) \<Rightarrow> ([], r)
      | (Some w, r) \<Rightarrow> (case lineWords r of (ws, r) \<Rightarrow> (w # ws, r)))"
  by auto
termination
  by (relation "measure length") (auto dest: readWord_shorter)

declare lineWords.simps [simp del]

lemma lineWords_length:
  "lineWords s = (ws, r) \<Longrightarrow> length (concat ws) + length r \<le> length s \<and> [] \<notin> set ws"
proof (induction s arbitrary: ws r rule: lineWords.induct)
  case (1 s)
  obtain w t where w: "readWord True s = (w, t)" by (cases "readWord True s")
  from readWord_length [OF this] 1(2) 1(1) [OF w [symmetric]] show ?case
    by (subst (asm) lineWords.simps) (fastforce simp: w split: option.splits prod.splits)
qed

function fileLines :: "bytes \<Rightarrow> (bytes \<times> bytes list) list" where
  "fileLines s =
     (case readWord False s of
        (None, r) \<Rightarrow> []
      | (Some w, r) \<Rightarrow> (case lineWords r of (ws, r) \<Rightarrow> (w, ws) # fileLines r))"
  by auto
termination
proof (relation "measure length")
  fix s a r x w ws t assume "(a, r) = readWord False s" "a = Some w" "(ws, t) = lineWords r"
  then show "(t, s) \<in> measure length"
    using readWord_shorter [of w r False s] lineWords_length [of r ws t] by simp
qed auto

declare fileLines.simps [simp del]

section \<open>Hosts\<close>

datatype rHost =
    RAlias bytes
  | RPattern bytes
  | RAddress int bytes
  | RBroadcast

record rAliasEntry =
  raName :: bytes
  raHosts :: nat
  raNhosts :: nat
  raBad :: bool

text \<open>What the parser has built; the sizes count characters and addresses.\<close>

record accFile =
  afHosts :: "rHost list"
  afListens :: "listenEntry list"
  afAliases :: "rAliasEntry list"
  afAcls :: "aclEntry list"
  afChars :: nat
  afError :: bool

definition hasGlobCharacters :: "bytes \<Rightarrow> bool" where
  "hasGlobCharacters s \<longleftrightarrow> list_ex (\<lambda>c. c = QUEST \<or> c = STAR) (cstrOf s)"

abbreviation PARSE_ALL :: int where "PARSE_ALL \<equiv> 0"
abbreviation PARSE_NO_BCAST :: int where "PARSE_NO_BCAST \<equiv> 1"
abbreviation PARSE_NO_PAT :: int where "PARSE_NO_PAT \<equiv> 2"
abbreviation PARSE_NO_ALIAS :: int where "PARSE_NO_ALIAS \<equiv> 4"

definition BROADCAST_STRING :: bytes where "BROADCAST_STRING = map of_char ''BROADCAST''"
definition LISTEN_STRING :: bytes where "LISTEN_STRING = map of_char ''LISTEN''"
definition CHOOSER_STRING :: bytes where "CHOOSER_STRING = map of_char ''CHOOSER''"
definition NOBROADCAST_STRING :: bytes where "NOBROADCAST_STRING = map of_char ''NOBROADCAST''"

text \<open>
  The resolver is a parameter: the family and address of a name. \<open>len\<close> is the length of the
  word, of which \<open>w\<close> may be the part after a leading \<open>!\<close> or \<open>=\<close>. The result is the host and what
  is added to the character count, or \<open>None\<close> if the name is unknown.
\<close>

type_synonym resolver = "bytes \<Rightarrow> (int \<times> bytes) option"

definition parseHost :: "resolver \<Rightarrow> int \<Rightarrow> nat \<Rightarrow> bytes \<Rightarrow> (rHost \<times> nat) option" where
  "parseHost resolve parse len w =
     (let w = cstrOf w in
      if and parse PARSE_NO_BCAST = 0 \<and> w = BROADCAST_STRING then Some (RBroadcast, 0)
      else if and parse PARSE_NO_ALIAS = 0 \<and> w \<noteq> [] \<and> hd w = 37 then Some (RAlias (tl w), len)
      else if and parse PARSE_NO_PAT = 0 \<and> hasGlobCharacters w then Some (RPattern w, len + 1)
      else (case resolve w of
              None \<Rightarrow> None
            | Some (af, b) \<Rightarrow> Some (RAddress af b, length b)))"

text \<open>One more host on the list if the word is one; the flag says whether it was.\<close>

definition addHost :: "resolver \<Rightarrow> int \<Rightarrow> nat \<Rightarrow> bytes \<Rightarrow> accFile \<Rightarrow> bool \<times> accFile" where
  "addHost resolve parse len w st =
     (case parseHost resolve parse len w of
        None \<Rightarrow> (False, st)
      | Some (h, n) \<Rightarrow> (True, st\<lparr>afHosts := afHosts st @ [h], afChars := afChars st + n\<rparr>))"

text \<open>The words of a list; the number of hosts among them and whether a word was none.\<close>

fun addHosts :: "resolver \<Rightarrow> int \<Rightarrow> bytes list \<Rightarrow> accFile \<Rightarrow> nat \<times> bool \<times> accFile" where
  "addHosts resolve parse [] st = (0, False, st)"
| "addHosts resolve parse (w # ws) st =
     (case addHost resolve parse (length w) w st of
        (ok, st) \<Rightarrow> case addHosts resolve parse ws st of
        (n, bad, st) \<Rightarrow> (if ok then n + 1 else n, \<not> ok \<or> bad, st))"

section \<open>Lines\<close>

definition aliasLine :: "resolver \<Rightarrow> bytes \<Rightarrow> bytes list \<Rightarrow> accFile \<Rightarrow> accFile" where
  "aliasLine resolve w ws st =
     (let h = length (afHosts st); st = st\<lparr>afChars := afChars st + length w\<rparr> in
      case addHosts resolve PARSE_NO_BCAST ws st of
        (n, bad, st) \<Rightarrow> st\<lparr>afAliases := afAliases st @
          [\<lparr>raName = tl (cstrOf w), raHosts = h, raNhosts = n, raBad = bad\<rparr>]\<rparr>)"

text \<open>\<open>parse\<close> flags of addresses to listen on.\<close>

abbreviation PARSE_ADDR :: int where "PARSE_ADDR \<equiv> 7"

definition listenLine :: "resolver \<Rightarrow> bytes list \<Rightarrow> accFile \<Rightarrow> accFile" where
  "listenLine resolve ws st =
     (let h = length (afHosts st);
          (ok, st) = (case ws of
              [] \<Rightarrow> (False, st)
            | w # _ \<Rightarrow> if cstrOf w = [STAR] then (False, st)
                else addHost resolve PARSE_ADDR (length w) w st);
          m = length (afHosts st)
      in case addHosts resolve PARSE_ADDR (tl ws) st of
           (n, bad, st) \<Rightarrow> st\<lparr>afListens := afListens st @
             [\<lparr>liIface = (if ok then int h else -1), liMcasts = int m, liNmcasts = int n\<rparr>]\<rparr>)"

text \<open>The hosts of an access control entry and the words that are flags.\<close>

fun aclWords :: "resolver \<Rightarrow> bytes list \<Rightarrow> int \<Rightarrow> accFile \<Rightarrow> nat \<times> int \<times> accFile" where
  "aclWords resolve [] f st = (0, f, st)"
| "aclWords resolve (w # ws) f st =
     (if cstrOf w = CHOOSER_STRING then aclWords resolve ws (or f a_useChooser) st
      else if cstrOf w = NOBROADCAST_STRING then aclWords resolve ws (or f a_notBroadcast) st
      else case addHost resolve PARSE_NO_PAT (length w) w st of
        (ok, st) \<Rightarrow> case aclWords resolve ws f st of
        (n, f, st) \<Rightarrow> (if ok then n + 1 else n, f, st))"

definition aclLine :: "resolver \<Rightarrow> bytes \<Rightarrow> bytes list \<Rightarrow> accFile \<Rightarrow> accFile" where
  "aclLine resolve w ws st =
     (let neg = (hd w = 33);
          w' = (if neg \<or> hd w = 61 then tl w else w);
          e = length (afHosts st);
          (ok, st) = addHost resolve PARSE_NO_BCAST (length w) w' st;
          st = (if \<not> ok \<and> neg then st\<lparr>afError := True\<rparr> else st);
          h = length (afHosts st)
      in case aclWords resolve ws (if neg then a_notAllowed else 0) st of
           (n, f, st) \<Rightarrow>
             if ok then st\<lparr>afAcls := afAcls st @
               [\<lparr>acEntries = int e, acNentries = 1, acHosts = int h, acNhosts = int n, acFlags = f\<rparr>]\<rparr>
             else st)"

definition parseLine :: "resolver \<Rightarrow> accFile \<Rightarrow> bytes \<times> bytes list \<Rightarrow> accFile" where
  "parseLine resolve st l =
     (case l of (w, ws) \<Rightarrow>
        if hd w = 37 then aliasLine resolve w ws st
        else if cstrOf w = LISTEN_STRING then listenLine resolve ws st
        else aclLine resolve w ws st)"

definition noAccFile :: accFile where
  "noAccFile = \<lparr>afHosts = [], afListens = [], afAliases = [], afAcls = [], afChars = 0, afError = False\<rparr>"

text \<open>Without a line for it, the wildcard is listened on and the default multicast address, if there is one.\<close>

definition defaultListen :: "resolver \<Rightarrow> bytes option \<Rightarrow> accFile \<Rightarrow> accFile" where
  "defaultListen resolve mcast st =
     (if afListens st \<noteq> [] then st
      else
        let m = length (afHosts st);
            (ok, st) = (case mcast of None \<Rightarrow> (False, st)
              | Some w \<Rightarrow> addHost resolve PARSE_ALL (length w) w st)
        in st\<lparr>afListens := [\<lparr>liIface = -1, liMcasts = int m, liNmcasts = (if ok then 1 else 0)\<rparr>]\<rparr>)"

section \<open>Alias recursion\<close>

abbreviation MAX_DEPTH :: nat where "MAX_DEPTH \<equiv> 32"

text \<open>
  \<open>r\<close> is what is left of \<open>MAX_DEPTH\<close>; \<open>neg\<close> stands for \<open>CHECK_NOT\<close>; the other flag only selects a
  warning. \<open>True\<close> is an error.
\<close>

fun checkHostlist :: "nat \<Rightarrow> bool \<Rightarrow> accFile \<Rightarrow> nat \<Rightarrow> nat \<Rightarrow> bool option" where
  "checkHostlist r neg st fh nh =
     anyM (\<lambda>h. case h of
         RAlias p \<Rightarrow>
           (case r of
              0 \<Rightarrow> Some True
            | Suc r' \<Rightarrow> do {
                b \<leftarrow> anyM (\<lambda>a. do {
                    m \<leftarrow> patMatch (Some (raName a)) p;
                    if \<not> m then Some False
                    else if neg \<and> raBad a then Some True
                    else checkHostlist r' neg st (raHosts a) (raNhosts a) }) (afAliases st);
                if b then Some True
                else do {
                  am \<leftarrow> anyM (\<lambda>a. patMatch (Some (raName a)) p) (afAliases st);
                  Some (\<not> am \<and> neg) } })
       | _ \<Rightarrow> Some False) (take nh (drop fh (afHosts st)))"

declare checkHostlist.simps [simp del]

text \<open>Every entry is checked, its client and its host list.\<close>

definition checkAcl :: "accFile \<Rightarrow> aclEntry \<Rightarrow> bool option" where
  "checkAcl st e = do {
     b \<leftarrow> checkHostlist MAX_DEPTH (hasFlag e a_notAllowed) st (nat (acEntries e)) (nat (acNentries e));
     if b then Some True else checkHostlist MAX_DEPTH False st (nat (acHosts e)) (nat (acNhosts e)) }"

fun checkAcls :: "accFile \<Rightarrow> aclEntry list \<Rightarrow> bool option" where
  "checkAcls st [] = Some False"
| "checkAcls st (e # es) = do { b \<leftarrow> checkAcl st e; c \<leftarrow> checkAcls st es; Some (b \<or> c) }"

text \<open>The lists to be sent: none at all after an error or without a file.\<close>

definition parseAccess :: "resolver \<Rightarrow> bytes option \<Rightarrow> bytes \<Rightarrow> accFile" where
  "parseAccess resolve mcast file =
     defaultListen resolve mcast (foldl (parseLine resolve) noAccFile (fileLines file))"

definition readAccess :: "resolver \<Rightarrow> bytes option \<Rightarrow> bytes option \<Rightarrow> accFile option" where
  "readAccess resolve mcast file =
     (case file of
        None \<Rightarrow> Some noAccFile
      | Some file \<Rightarrow>
          let st = parseAccess resolve mcast file in do {
            b \<leftarrow> checkAcls st (afAcls st);
            Some (if b \<or> afError st then noAccFile else st) })"

section \<open>Sending\<close>

fun sendHost :: "rHost \<Rightarrow> bytes" where
  "sendHost (RAlias p) = gSendInt HOST_ALIAS @ gSendStr (Some p)"
| "sendHost (RPattern p) = gSendInt HOST_PATTERN @ gSendStr (Some p)"
| "sendHost (RAddress af b) = gSendInt HOST_ADDRESS @ gSendArr (int (length b)) b @ gSendInt af"
| "sendHost RBroadcast = gSendInt HOST_BROADCAST"

definition sendListen :: "listenEntry \<Rightarrow> bytes" where
  "sendListen l = gSendInt (liIface l) @ gSendInt (liMcasts l) @ gSendInt (liNmcasts l)"

definition sendAlias :: "rAliasEntry \<Rightarrow> bytes" where
  "sendAlias a = gSendStr (Some (raName a)) @ gSendInt (int (raHosts a)) @ gSendInt (int (raNhosts a))"

definition sendAclEntry :: "aclEntry \<Rightarrow> bytes" where
  "sendAclEntry e = gSendInt (acEntries e) @ gSendInt (acNentries e) @ gSendInt (acHosts e)
     @ gSendInt (acNhosts e) @ gSendInt (acFlags e)"

definition sendAccess :: "accFile \<Rightarrow> bytes" where
  "sendAccess st =
     gSendInt (int (length (afHosts st))) @ gSendInt (int (length (afListens st)))
     @ gSendInt (int (length (afAliases st))) @ gSendInt (int (length (afAcls st)))
     @ gSendInt (int (afChars st))
     @ concat (map sendHost (afHosts st)) @ concat (map sendListen (afListens st))
     @ concat (map sendAlias (afAliases st)) @ concat (map sendAclEntry (afAcls st))"

definition readAccessFile :: "resolver \<Rightarrow> bytes option \<Rightarrow> bytes option \<Rightarrow> bytes option" where
  "readAccessFile resolve mcast file = map_option sendAccess (readAccess resolve mcast file)"

end
