(* ===== verification/AccScan.thy ===== *)
theory AccScan
  imports Access
begin

text \<open>
  When the scans of \<^verbatim>\<open>kdm/backend/access.c\<close> come to an end: \<open>okLists\<close> is a condition on the
  received lists, decided by one pass through them, under which every question the daemon
  asks is answered within \<open>ACL_DEPTH\<close> levels of recursion. \<open>AccFits\<close> shows that the lists the
  configuration reader sends meet it.
\<close>

abbreviation ACL_DEPTH :: nat where "ACL_DEPTH \<equiv> 33"

section \<open>Patterns that stay inside their strings\<close>

fun safePat :: "bytes \<Rightarrow> bool" where
  "safePat [] = True"
| "safePat (p # ps) = (if p = BSLASH then ps \<noteq> [] \<and> safePat (tl ps) else safePat ps)"

lemma safePat_match:
  "safePat p \<Longrightarrow> patternMatch s p \<noteq> UB"
  "safePat p \<Longrightarrow> starMatch s p \<noteq> UB"
proof (induction s p and s p rule: patternMatch_starMatch.induct)
  case (2 s p ps)
  consider "p = STAR" | "p = QUEST" | "p = BSLASH" | "p \<noteq> STAR" "p \<noteq> QUEST" "p \<noteq> BSLASH" by blast
  then show ?case
  proof cases
    case 3
    with 2 show ?thesis by (cases ps) (simp_all add: patternMatch.simps(2))
  qed (use 2 in \<open>simp_all add: patternMatch.simps(2)\<close>)
next
  case (4 c cs ps)
  then show ?case by (auto split: outcome.splits bool.splits)
qed simp_all

lemma safePat_patMatch: "safePat p \<Longrightarrow> patMatch s p \<noteq> None"
  using safePat_match(1) by (cases "patternMatch (case s of None \<Rightarrow> [] | Some b \<Rightarrow> b) p") (auto simp: patMatch_def)

section \<open>Loops over the lists\<close>

lemma anyM_defined: "(\<And>x. x \<in> set xs \<Longrightarrow> f x \<noteq> None) \<Longrightarrow> anyM f xs \<noteq> None"
  by (induction xs) fastforce+

lemma catM_defined: "(\<And>x. x \<in> set xs \<Longrightarrow> f x \<noteq> None) \<Longrightarrow> catM f xs \<noteq> None"
  by (induction xs) fastforce+

lemma firstAcl_defined:
  "(\<And>e. e \<in> set es \<Longrightarrow> f e \<noteq> None) \<Longrightarrow> \<exists>x. firstAcl f es = Some x \<and> set_option x \<subseteq> set es"
proof (induction es)
  case (Cons e es)
  then obtain b where "f e = Some b" by fastforce
  with Cons show ?case by (cases b) fastforce+
qed simp

section \<open>Lists that are answered\<close>

fun okList :: "nat \<Rightarrow> accArr \<Rightarrow> int \<Rightarrow> int \<Rightarrow> bool" where
  "okList 0 A f n = False"
| "okList (Suc k) A f n =
     (case hostRange (hostList A) f n of
        None \<Rightarrow> False
      | Some hs \<Rightarrow>
          list_all (\<lambda>h. case h of
              HAlias p \<Rightarrow>
                list_all (\<lambda>a. case patMatch (Some (alName a)) p of
                    None \<Rightarrow> False
                  | Some m \<Rightarrow> m \<longrightarrow> okList k A (alHosts a) (alNhosts a)) (aliasList A)
            | HPattern p \<Rightarrow> safePat p
            | _ \<Rightarrow> True) hs)"

lemma okList_alias:
  assumes "okList (Suc k) A f n" "hostRange (hostList A) f n = Some hs" "HAlias p \<in> set hs" "a \<in> set (aliasList A)"
  obtains m where "patMatch (Some (alName a)) p = Some m" "m \<Longrightarrow> okList k A (alHosts a) (alNhosts a)"
  using assms by (fastforce simp: list_all_iff split: option.splits)

lemma okList_pattern:
  "okList (Suc k) A f n \<Longrightarrow> hostRange (hostList A) f n = Some hs \<Longrightarrow> HPattern p \<in> set hs \<Longrightarrow> safePat p"
  by (fastforce simp: list_all_iff)

lemma okList_range: "okList (Suc k) A f n \<Longrightarrow> \<exists>hs. hostRange (hostList A) f n = Some hs"
  by (auto split: option.splits)

lemma okList_entries: "okList k A f n \<Longrightarrow> scanEntrylist k A name addr ct f n \<noteq> None"
proof (induction k arbitrary: f n)
  case (Suc k)
  obtain hs where hs: "hostRange (hostList A) f n = Some hs" using okList_range [OF Suc.prems] by blast
  show ?case
    unfolding scanEntrylist.simps hs bind.bind_lunit
  proof (rule anyM_defined)
    fix h assume h: "h \<in> set hs"
    show "(case h of HAlias p \<Rightarrow> anyM (\<lambda>a. do {
               m \<leftarrow> patMatch (Some (alName a)) p;
               if m then scanEntrylist k A name addr ct (alHosts a) (alNhosts a) else Some False }) (aliasList A)
       | HAddress t b \<Rightarrow> Some (t = ct \<and> b = addr)
       | HPattern p \<Rightarrow> patMatch name p
       | HBroadcast \<Rightarrow> Some False) \<noteq> None"
    proof (cases h)
      case (HAlias p)
      have "(do { m \<leftarrow> patMatch (Some (alName a)) p;
               if m then scanEntrylist k A name addr ct (alHosts a) (alNhosts a) else Some False }) \<noteq> None"
        if "a \<in> set (aliasList A)" for a
        by (rule okList_alias [OF Suc.prems hs _ that, of p]) (use h HAlias Suc.IH in auto)
      then show ?thesis unfolding HAlias hostEntry.case by (rule anyM_defined)
    next
      case (HPattern p)
      then show ?thesis using okList_pattern [OF Suc.prems hs, of p] h safePat_patMatch by simp
    qed simp_all
  qed
qed simp

lemma okList_hosts: "okList k A f n \<Longrightarrow> scanHostlist k A loc ct bc ul f n \<noteq> None"
proof (induction k arbitrary: f n)
  case (Suc k)
  obtain hs where hs: "hostRange (hostList A) f n = Some hs" using okList_range [OF Suc.prems] by blast
  show ?case
    unfolding scanHostlist.simps hs bind.bind_lunit
  proof (rule catM_defined)
    fix h assume h: "h \<in> set hs"
    show "(case h of HAlias p \<Rightarrow> catM (\<lambda>a. do {
               m \<leftarrow> patMatch (Some (alName a)) p;
               if m then scanHostlist k A loc ct bc ul (alHosts a) (alNhosts a) else Some ([], False) }) (aliasList A)
       | HPattern p \<Rightarrow> Some ([], False)
       | HAddress t b \<Rightarrow> Some (if ul \<and> loc = b then ([], True) else ([CallHost ct b], False))
       | HBroadcast \<Rightarrow> Some (if bc then [CallBroadcast] else [], False)) \<noteq> None"
    proof (cases h)
      case (HAlias p)
      have "(do { m \<leftarrow> patMatch (Some (alName a)) p;
               if m then scanHostlist k A loc ct bc ul (alHosts a) (alNhosts a) else Some ([], False) }) \<noteq> None"
        if "a \<in> set (aliasList A)" for a
        by (rule okList_alias [OF Suc.prems hs _ that, of p]) (use h HAlias Suc.IH in auto)
      then show ?thesis unfolding HAlias hostEntry.case by (rule catM_defined)
    qed simp_all
  qed
qed simp

definition okLists :: "accArr \<Rightarrow> bool" where
  "okLists A \<longleftrightarrow> list_all (\<lambda>e. okList ACL_DEPTH A (acEntries e) (acNentries e)
     \<and> okList ACL_DEPTH A (acHosts e) (acNhosts e)) (acList A)"

lemma matchAcl_defined:
  assumes "okLists A"
  obtains x where "matchAclEntry ACL_DEPTH A name addr ct direct = Some x"
    "\<And>e. x = Some e \<Longrightarrow> okList ACL_DEPTH A (acHosts e) (acNhosts e)"
proof -
  have e: "okList ACL_DEPTH A (acEntries e) (acNentries e)" "okList ACL_DEPTH A (acHosts e) (acNhosts e)"
    if "e \<in> set (acList A)" for e
    using assms that by (simp_all only: okLists_def list_all_iff)
  have "\<exists>x. matchAclEntry ACL_DEPTH A name addr ct direct = Some x \<and> set_option x \<subseteq> set (acList A)"
    unfolding matchAclEntry_def by (rule firstAcl_defined) (use okList_entries [OF e(1)] in auto)
  then obtain x where "matchAclEntry ACL_DEPTH A name addr ct direct = Some x" "set_option x \<subseteq> set (acList A)" by blast
  with e(2) show thesis by (intro that) auto
qed

text \<open>Every question is answered.\<close>

lemma okLists_acceptable: "okLists A \<Longrightarrow> acceptableDisplayAddress ACL_DEPTH A name addr ct op \<noteq> None"
  by (erule matchAcl_defined [of _ name addr ct True]) (auto simp: acceptableDisplayAddress_def)

lemma okLists_useChooser: "okLists A \<Longrightarrow> useChooser ACL_DEPTH A name addr ct \<noteq> None"
  by (erule matchAcl_defined [of _ name addr ct False]) (simp add: useChooser_def)

lemma okList_hostsE: "okList k A f n \<Longrightarrow> \<exists>c l. scanHostlist k A loc ct bc ul f n = Some (c, l)"
  using okList_hosts [of k A f n loc ct bc ul] by auto

lemma okLists_indirect:
  "okLists A \<Longrightarrow> forEachMatchingIndirectHost ACL_DEPTH A name loc chs addr port ct \<noteq> None"
  by (erule matchAcl_defined [of _ name addr ct False])
    (auto simp: forEachMatchingIndirectHost_def simp del: scanHostlist.simps split: option.split
      intro: okList_hostsE)

lemma okLists_chooserHosts: "okLists A \<Longrightarrow> forEachChooserHost ACL_DEPTH A name loc addr ct \<noteq> None"
  by (erule matchAcl_defined [of _ name addr ct False])
    (auto simp: forEachChooserHost_def simp del: scanHostlist.simps split: option.split
      intro: okList_hostsE)

end
