(* ===== verification/AccFits.thy ===== *)
theory AccFits
  imports AccFile AccScan
begin

text \<open>
  The two ends of the access lists together: what \<open>AccFile\<close> parses and sends is what
  \<open>Access\<close> receives (sizes within a \<^verbatim>\<open>short\<close>, the announced buffer large enough, every
  range inside the list), and the reader's depth check bounds the daemon's recursion.
\<close>

section \<open>What the daemon gets\<close>

fun toHost :: "rHost \<Rightarrow> hostEntry" where
  "toHost (RAlias p) = HAlias p"
| "toHost (RPattern p) = HPattern p"
| "toHost (RAddress af b) = HAddress (connOf af) b"
| "toHost RBroadcast = HBroadcast"

definition toAlias :: "rAliasEntry \<Rightarrow> aliasEntry" where
  "toAlias a = \<lparr>alName = raName a, alHosts = int (raHosts a), alNhosts = int (raNhosts a)\<rparr>"

definition toAcc :: "accFile \<Rightarrow> accArr" where
  "toAcc st = \<lparr>hostList = map toHost (afHosts st), listenList = afListens st,
     aliasList = map toAlias (afAliases st), acList = afAcls st\<rparr>"

text \<open>The room a host and a name take in the daemon's buffer.\<close>

fun hostRoom :: "rHost \<Rightarrow> nat" where
  "hostRoom (RAlias p) = length p + 1"
| "hostRoom (RPattern p) = length p + 1"
| "hostRoom (RAddress af b) = length b"
| "hostRoom RBroadcast = 0"

text \<open>A string with its NUL fits into 16 bits of length.\<close>

definition okName :: "bytes \<Rightarrow> bool" where
  "okName b \<longleftrightarrow> 0 \<notin> set b \<and> length b < 0xffff"

fun okHost :: "rHost \<Rightarrow> bool" where
  "okHost (RAlias p) = okName p"
| "okHost (RPattern p) = okName p"
| "okHost (RAddress af b) = (length b < 0x10000 \<and> int32 af)"
| "okHost RBroadcast = True"

definition short16 :: "int \<Rightarrow> bool" where
  "short16 v \<longleftrightarrow> - (2 ^ 15) \<le> v \<and> v < 2 ^ 15"

lemma recvShort_gSendInt [simp]: "short16 v \<Longrightarrow> recvShort (gSendInt v @ s) = Some (v, s)"
  by (simp add: recvShort_def short_def short16_def int32_def sint_sbintrunc' signed_take_bit_int_eq_self)

lemma recvArrBuf_enc:
  "length b < 0x10000 \<Longrightarrow> recvArrBuf (encInt (int (length b)) @ b @ s) = Some ((int (length b), b), s)"
  by (simp add: recvArrBuf_def Let_def)

lemma recvStrAt_gSendStr:
  "okName b \<Longrightarrow> length b + 1 \<le> room \<Longrightarrow>
   recvStrAt room (gSendStr (Some b) @ s) = Some ((b, room - (length b + 1)), s)"
  using recvArrBuf_enc [of "b @ [0]" s]
  by (simp add: recvStrAt_def gRecvStrBuf_def okName_def add.commute)

lemma recvHost_sendHost:
  assumes "okHost h" "hostRoom h \<le> room"
  shows "recvHost room (sendHost h @ s) = Some ((toHost h, room - hostRoom h), s)"
proof (cases h)
  case (RAddress af b)
  with assms recvArrBuf_enc [of b "gSendInt af @ s"] show ?thesis
    by (simp add: recvHost_def recvArrAt_def gRecvArrBuf_def gSendArr_def short16_def)
qed (use assms in \<open>simp_all add: recvHost_def recvStrAt_gSendStr short16_def del: gSendStr.simps\<close>)

lemma recvHosts_sendHosts:
  "list_all okHost hs \<Longrightarrow> sum_list (map hostRoom hs) \<le> room \<Longrightarrow>
   recvHosts (length hs) room (concat (map sendHost hs) @ s) =
     Some ((map toHost hs, room - sum_list (map hostRoom hs)), s)"
  by (induction hs arbitrary: room) (simp_all add: recvHost_sendHost)

lemma recvMany_sends:
  assumes "\<And>x s. x \<in> set xs \<Longrightarrow> f (g x @ s) = Some (x, s)"
  shows "recvMany f (length xs) (concat (map g xs) @ s) = Some (xs, s)"
  using assms by (induction xs) auto

definition okListen :: "listenEntry \<Rightarrow> bool" where
  "okListen l \<longleftrightarrow> short16 (liIface l) \<and> short16 (liMcasts l) \<and> short16 (liNmcasts l)"

definition okAcl :: "aclEntry \<Rightarrow> bool" where
  "okAcl e \<longleftrightarrow> short16 (acEntries e) \<and> short16 (acNentries e) \<and> short16 (acHosts e) \<and> short16 (acNhosts e)
     \<and> short16 (acFlags e)"

definition okAlias :: "rAliasEntry \<Rightarrow> bool" where
  "okAlias a \<longleftrightarrow> okName (raName a) \<and> short16 (int (raHosts a)) \<and> short16 (int (raNhosts a))"

lemma recvListen_sendListen: "okListen l \<Longrightarrow> recvListen (sendListen l @ s) = Some (l, s)"
  by (simp add: recvListen_def sendListen_def okListen_def)

lemma recvAcl_sendAclEntry: "okAcl e \<Longrightarrow> recvAcl (sendAclEntry e @ s) = Some (e, s)"
  by (simp add: recvAcl_def sendAclEntry_def okAcl_def)

lemma recvAliases_sendAliases:
  "list_all okAlias as \<Longrightarrow> sum_list (map (\<lambda>a. length (raName a) + 1) as) \<le> room \<Longrightarrow>
   recvAliases (length as) room (concat (map sendAlias as) @ s) =
     Some ((map toAlias as, room - sum_list (map (\<lambda>a. length (raName a) + 1) as)), s)"
  by (induction as arbitrary: room)
    (simp_all add: recvStrAt_gSendStr sendAlias_def okAlias_def toAlias_def del: gSendStr.simps)

text \<open>What makes the lists fit: sizes within a \<^verbatim>\<open>short\<close>, and room for all characters.\<close>

definition okAcc :: "accFile \<Rightarrow> bool" where
  "okAcc st \<longleftrightarrow> list_all okHost (afHosts st) \<and> list_all okListen (afListens st)
     \<and> list_all okAlias (afAliases st) \<and> list_all okAcl (afAcls st)
     \<and> short16 (int (length (afHosts st))) \<and> short16 (int (length (afListens st)))
     \<and> short16 (int (length (afAliases st))) \<and> short16 (int (length (afAcls st)))
     \<and> int32 (int (afChars st))
     \<and> sum_list (map hostRoom (afHosts st)) + sum_list (map (\<lambda>a. length (raName a) + 1) (afAliases st))
         \<le> afChars st"

lemma scan_sendAccess:
  assumes "okAcc st"
  shows "scanAccessDatabase True (sendAccess st @ s) = Some (toAcc st, s)"
proof -
  have room: "sum_list (map hostRoom (afHosts st)) \<le> afChars st"
    "sum_list (map (\<lambda>a. length (raName a) + 1) (afAliases st)) \<le> afChars st - sum_list (map hostRoom (afHosts st))"
    using assms unfolding okAcc_def by linarith+
  have ok: "list_all okHost (afHosts st)" "list_all okAlias (afAliases st)"
    using assms by (simp_all add: okAcc_def)
  note al = recvAliases_sendAliases [OF ok(2) room(2)] and h = recvHosts_sendHosts [OF ok(1) room(1)]
  show ?thesis
    using assms
    by (simp add: scanAccessDatabase_def sendAccess_def okAcc_def toAcc_def h al [simplified]
        recvMany_sends recvListen_sendListen recvAcl_sendAclEntry list_all_iff)
qed

section \<open>The lists fit\<close>

definition okResolver :: "resolver \<Rightarrow> bool" where
  "okResolver r \<longleftrightarrow> (\<forall>w af b. r w = Some (af, b) \<longrightarrow> int32 af \<and> length b \<le> 16)"

definition upTo :: "nat \<Rightarrow> int \<Rightarrow> bool" where
  "upTo n v \<longleftrightarrow> -1 \<le> v \<and> v \<le> int n"

definition aclUpTo :: "nat \<Rightarrow> aclEntry \<Rightarrow> bool" where
  "aclUpTo n e \<longleftrightarrow> upTo n (acEntries e) \<and> acNentries e = 1 \<and> upTo n (acHosts e) \<and> upTo n (acNhosts e)
     \<and> acFlags e \<in> {0, 1, 2, 3}"

definition aliasUpTo :: "nat \<Rightarrow> rAliasEntry \<Rightarrow> bool" where
  "aliasUpTo n a \<longleftrightarrow> okName (raName a) \<and> raHosts a \<le> n \<and> raNhosts a \<le> n"

definition listenUpTo :: "nat \<Rightarrow> listenEntry \<Rightarrow> bool" where
  "listenUpTo n l \<longleftrightarrow> upTo n (liIface l) \<and> upTo n (liMcasts l) \<and> upTo n (liNmcasts l)"

definition rooms :: "accFile \<Rightarrow> nat" where
  "rooms st = sum_list (map hostRoom (afHosts st)) + sum_list (map (\<lambda>a. length (raName a) + 1) (afAliases st))"

text \<open>The sizes after \<open>n\<close> characters of words.\<close>

definition fits :: "nat \<Rightarrow> accFile \<Rightarrow> bool" where
  "fits n st \<longleftrightarrow> list_all okHost (afHosts st) \<and> list_all (listenUpTo n) (afListens st)
     \<and> list_all (aliasUpTo n) (afAliases st) \<and> list_all (aclUpTo n) (afAcls st)
     \<and> length (afHosts st) \<le> n \<and> length (afListens st) \<le> n \<and> length (afAliases st) \<le> n
     \<and> length (afAcls st) \<le> n \<and> afChars st \<le> 17 * n
     \<and> rooms st \<le> afChars st"

lemma fits_mono: "fits n st \<Longrightarrow> n \<le> m \<Longrightarrow> fits m st"
  by (fastforce simp: fits_def list_all_iff listenUpTo_def aliasUpTo_def aclUpTo_def upTo_def)

lemma fits_okAcc:
  assumes "fits n st" "n < 0x7fff"
  shows "okAcc st"
proof -
  have s: "short16 v" if "upTo n v" for v using that assms(2) by (simp add: upTo_def short16_def)
  have f: "short16 f" if "f \<in> {0, 1, 2, 3}" for f using that by (auto simp: short16_def)
  have "short16 (int k)" if "k \<le> n" for k using that assms(2) by (simp add: short16_def)
  with assms s f show ?thesis
    by (auto simp: okAcc_def fits_def list_all_iff listenUpTo_def okListen_def okAlias_def aliasUpTo_def
        okAcl_def aclUpTo_def int32_def short16_def rooms_def)
qed

lemma okName_cstrOf: "length w < 0xffff \<Longrightarrow> okName (cstrOf w)"
  by (auto simp: okName_def cstrOf_def dest: set_takeWhileD intro: le_less_trans [OF length_takeWhile_le])

lemma length_cstrOf: "length (cstrOf w) \<le> length w"
  by (simp add: cstrOf_def length_takeWhile_le)

lemma okName_tl: "okName b \<Longrightarrow> okName (tl b)"
  by (cases b) (auto simp: okName_def)

lemma parseHost_fits:
  assumes "okResolver r" "parseHost r p len w = Some (h, c)" "length w \<le> len" "1 \<le> len" "len < 0x7fff"
  shows "okHost h \<and> hostRoom h \<le> c \<and> c \<le> 17 * len"
proof -
  have w: "okName (cstrOf w)" "length (cstrOf w) \<le> len"
    using assms(3,5) okName_cstrOf [of w] length_cstrOf [of w] by simp_all
  have rr: "int32 af \<and> length b < 0x10000 \<and> length b \<le> 17 * len" if "r v = Some (af, b)" for v af b
  proof -
    have "int32 af" "length b \<le> 16" using assms(1) that by (auto simp: okResolver_def)
    with assms(4) show ?thesis by simp
  qed
  show ?thesis
    using assms(2-5) w okName_tl [OF w(1)]
    by (auto simp: parseHost_def Let_def dest: rr split: if_splits option.splits)
qed

text \<open>Adding hosts leaves the other lists and counts at least the room the hosts take.\<close>

definition grew :: "nat \<Rightarrow> nat \<Rightarrow> accFile \<Rightarrow> accFile \<Rightarrow> bool" where
  "grew k c st st' \<longleftrightarrow> afListens st' = afListens st \<and> afAliases st' = afAliases st \<and> afAcls st' = afAcls st
     \<and> length (afHosts st') = length (afHosts st) + c \<and> c \<le> k \<and> rooms st' + afChars st \<le> rooms st + afChars st'
     \<and> afChars st' \<le> afChars st + 17 * k \<and> (list_all okHost (afHosts st) \<longrightarrow> list_all okHost (afHosts st'))"

lemma grew_refl: "grew k 0 st st"
  by (simp add: grew_def)

lemma grew_trans: "grew k c st s1 \<Longrightarrow> grew l d s1 s2 \<Longrightarrow> grew (k + l) (c + d) st s2"
  by (auto simp: grew_def)

lemma fits_grew: "fits n st \<Longrightarrow> grew k c st st' \<Longrightarrow> fits (n + k) st'"
  using fits_mono [of n st "n + k"] by (simp add: fits_def grew_def)

lemma addHost_grew:
  assumes "okResolver r" "addHost r p len w st = (k, st')" "length w \<le> len" "1 \<le> len" "len < 0x7fff"
  shows "grew len (if k then 1 else 0) st st'"
proof (cases "parseHost r p len w")
  case None
  with assms show ?thesis by (auto simp: addHost_def grew_refl)
next
  case (Some x)
  then obtain h c where x: "parseHost r p len w = Some (h, c)" by (cases x) auto
  with parseHost_fits [OF assms(1) x assms(3-5)] assms show ?thesis
    by (auto simp: addHost_def grew_def rooms_def)
qed

lemma fits_hosts: "fits n st \<Longrightarrow> length (afHosts st) \<le> n"
  by (simp add: fits_def)

text \<open>The words of a line: not empty and not too long.\<close>

definition okWords :: "bytes list \<Rightarrow> bool" where
  "okWords ws \<longleftrightarrow> (\<forall>w \<in> set ws. w \<noteq> [] \<and> length w < 0x7fff)"

lemma okWords_simps [simp]:
  "okWords []" "okWords (w # ws) \<longleftrightarrow> w \<noteq> [] \<and> length w < 0x7fff \<and> okWords ws"
  by (auto simp: okWords_def)

lemma addHosts_grew:
  assumes "okResolver r" "addHosts r p ws st = (c, bad, st')" "okWords ws"
  shows "grew (length (concat ws)) c st st'"
  using assms
proof (induction ws arbitrary: st c bad st')
  case Nil
  then show ?case by (simp add: grew_refl)
next
  case (Cons w ws)
  obtain k s1 where s1: "addHost r p (length w) w st = (k, s1)" by (cases "addHost r p (length w) w st")
  obtain c2 b2 s2 where s2: "addHosts r p ws s1 = (c2, b2, s2)" by (cases "addHosts r p ws s1")
  have "1 \<le> length w" "length w < 0x7fff" "okWords ws" using Cons.prems(3) by (cases w; simp)+
  from grew_trans [OF addHost_grew [OF Cons.prems(1) s1 _ this(1,2)] Cons.IH [OF Cons.prems(1) s2 this(3)]]
  show ?case using Cons.prems(2) s1 s2 by (auto split: if_splits)
qed

lemma aclWords_grew:
  assumes "okResolver r" "aclWords r ws f st = (c, f', st')" "okWords ws" "f \<in> {0, 1, 2, 3}"
  shows "grew (length (concat ws)) c st st' \<and> f' \<in> {0, 1, 2, 3}"
  using assms
proof (induction ws arbitrary: st c f f' st')
  case Nil
  then show ?case by (simp add: grew_refl)
next
  case (Cons w ws)
  have w: "1 \<le> length w" "length w < 0x7fff" "okWords ws" using Cons.prems(3) by (cases w; simp)+
  have f: "or f a_useChooser \<in> {0, 1, 2, 3}" "or f a_notBroadcast \<in> {0, 1, 2, 3}" using Cons.prems(4) by auto
  show ?case
  proof (cases "cstrOf w = CHOOSER_STRING \<or> cstrOf w = NOBROADCAST_STRING")
    case True
    with Cons.prems(2) obtain g where "aclWords r ws g st = (c, f', st')" "g \<in> {0, 1, 2, 3}"
      using f by (auto split: if_splits)
    from Cons.IH [OF Cons.prems(1) this(1) w(3) this(2)]
      grew_trans [OF grew_refl [of "length w" st], of "length (concat ws)" c st']
    show ?thesis by simp
  next
    case False
    obtain k s1 where s1: "addHost r PARSE_NO_PAT (length w) w st = (k, s1)"
      by (cases "addHost r PARSE_NO_PAT (length w) w st")
    obtain c2 f2 s2 where s2: "aclWords r ws f s1 = (c2, f2, s2)" by (cases "aclWords r ws f s1")
    from Cons.IH [OF Cons.prems(1) s2 w(3) Cons.prems(4)]
      grew_trans [OF addHost_grew [OF Cons.prems(1) s1 _ w(1,2)], of "length (concat ws)" c2 s2]
    show ?thesis using Cons.prems(2) s1 s2 False by (auto split: if_splits)
  qed
qed

lemma aliasLine_fits:
  assumes "fits n st" "okResolver r" "okWords (w # ws)"
  shows "fits (n + length w + length (concat ws)) (aliasLine r w ws st)"
proof -
  let ?m = "n + length w + length (concat ws)"
  let ?s0 = "st\<lparr>afChars := afChars st + length w\<rparr>"
  have w: "1 \<le> length w" "length w < 0x7fff" "okWords ws" using assms(3) by (cases w; simp)+
  obtain c b s1 where s1: "addHosts r PARSE_NO_BCAST ws ?s0 = (c, b, s1)"
    by (cases "addHosts r PARSE_NO_BCAST ws ?s0")
  have g: "grew (length (concat ws)) c ?s0 s1" by (rule addHosts_grew [OF assms(2) s1 w(3)])
  have "fits (n + length w) ?s0" using fits_mono [OF assms(1), of "n + length w"] assms(1) by (simp add: fits_def rooms_def)
  from fits_grew [OF this g] have f: "fits ?m s1" .
  have nm: "okName (tl (cstrOf w))" by (rule okName_tl, rule okName_cstrOf) (use w in simp)
  have tl: "length (tl (cstrOf w)) + 1 \<le> length w" using length_cstrOf [of w] w(1) by (cases "cstrOf w") simp_all
  have "rooms ?s0 = rooms st" by (simp add: rooms_def)
  then have sl: "rooms s1 + length w \<le> afChars s1" "length (afAliases s1) < ?m"
    using g assms(1) w(1) by (simp_all add: grew_def fits_def)
  have h: "length (afHosts st) \<le> ?m" "c \<le> ?m" using g assms(1) by (simp_all add: grew_def fits_def)
  show ?thesis using f nm tl sl h s1
    by (simp add: aliasLine_def Let_def fits_def rooms_def aliasUpTo_def)
qed

lemma listenLine_fits:
  assumes "fits n st" "okResolver r" "okWords (w0 # ws)"
  shows "fits (n + length w0 + length (concat ws)) (listenLine r ws st)"
proof -
  let ?m = "n + length w0 + length (concat ws)"
  have w0: "1 \<le> length w0" "okWords ws" using assms(3) by (cases w0; simp)+
  obtain k s1 where s1: "(case ws of [] \<Rightarrow> (False, st)
      | w # _ \<Rightarrow> if cstrOf w = [STAR] then (False, st) else addHost r PARSE_ADDR (length w) w st) = (k, s1)"
    by fastforce
  obtain c b s2 where s2: "addHosts r PARSE_ADDR (tl ws) s1 = (c, b, s2)"
    by (cases "addHosts r PARSE_ADDR (tl ws) s1")
  have g1: "grew (length (concat (take 1 ws))) (if k then 1 else 0) st s1"
  proof (cases ws)
    case (Cons w us)
    then have w: "1 \<le> length w" "length w < 0x7fff" using w0(2) by (cases w; simp)+
    show ?thesis using s1 Cons addHost_grew [OF assms(2) _ _ w, of PARSE_ADDR w st k s1] by (auto simp: grew_refl split: if_splits)
  qed (use s1 in \<open>auto simp: grew_refl\<close>)
  have g2: "grew (length (concat (tl ws))) c s1 s2"
    by (rule addHosts_grew [OF assms(2) s2]) (use w0(2) in \<open>cases ws; simp\<close>)
  have l: "length (concat (take 1 ws)) + length (concat (tl ws)) = length (concat ws)" by (cases ws) simp_all
  have g: "grew (length (concat ws)) ((if k then 1 else 0) + c) st s2"
    using grew_trans [OF g1 g2] l by simp
  have f: "fits ?m s2" using fits_mono [OF fits_grew [OF assms(1) g], of ?m] by simp
  have b: "length (afHosts st) \<le> n" "length (afListens st) \<le> n" using assms(1) by (simp_all add: fits_def)
  have "listenUpTo ?m \<lparr>liIface = (if k then int (length (afHosts st)) else -1),
      liMcasts = int (length (afHosts s1)), liNmcasts = int c\<rparr>"
    using b g1 g g2 l by (auto simp: listenUpTo_def upTo_def grew_def split: if_splits)
  moreover have "length (afListens s2) < ?m" using b g w0(1) by (simp add: grew_def)
  ultimately show ?thesis using f s1 s2
    by (simp add: listenLine_def Let_def fits_def rooms_def)
qed

lemma aclLine_fits:
  assumes "fits n st" "okResolver r" "okWords (w # ws)"
  shows "fits (n + length w + length (concat ws)) (aclLine r w ws st)"
proof -
  let ?m = "n + length w + length (concat ws)"
  let ?neg = "hd w = 33"
  let ?w = "if ?neg \<or> hd w = 61 then tl w else w"
  have w: "1 \<le> length w" "length w < 0x7fff" "okWords ws" using assms(3) by (cases w; simp)+
  obtain k s1 where s1: "addHost r PARSE_NO_BCAST (length w) ?w st = (k, s1)"
    by (cases "addHost r PARSE_NO_BCAST (length w) ?w st")
  let ?s1 = "if \<not> k \<and> ?neg then s1\<lparr>afError := True\<rparr> else s1"
  obtain c f s2 where s2: "aclWords r ws (if ?neg then a_notAllowed else 0) ?s1 = (c, f, s2)"
    by (cases "aclWords r ws (if ?neg then a_notAllowed else 0) ?s1")
  have g1': "grew (length w) (if k then 1 else 0) st s1"
    by (rule addHost_grew [OF assms(2) s1 _ w(1,2)]) simp
  then have g1: "grew (length w) (if k then 1 else 0) st ?s1" by (auto simp: grew_def rooms_def)
  have g2: "grew (length (concat ws)) c ?s1 s2 \<and> f \<in> {0, 1, 2, 3}"
    by (rule aclWords_grew [OF assms(2) s2 w(3)]) simp
  have g: "grew (length w + length (concat ws)) ((if k then 1 else 0) + c) st s2"
    using grew_trans [OF g1] g2 by blast
  have fs: "fits ?m s2" using fits_grew [OF assms(1) g] by (simp add: add.assoc)
  have b: "length (afHosts st) \<le> n" "length (afAcls st) \<le> n" using assms(1) by (simp_all add: fits_def)
  have "aclUpTo ?m \<lparr>acEntries = int (length (afHosts st)), acNentries = 1,
      acHosts = int (length (afHosts s1)), acNhosts = int c, acFlags = f\<rparr>"
    using b g1' g g2 w(1) by (auto simp: aclUpTo_def upTo_def grew_def split: if_splits)
  moreover have "length (afAcls s2) < ?m" using b g w(1) by (simp add: grew_def)
  ultimately show ?thesis using fs s1 s2
    by (simp add: aclLine_def Let_def fits_def rooms_def)
qed

text \<open>The characters of the lines, and of a whole file.\<close>

definition lineSize :: "bytes \<times> bytes list \<Rightarrow> nat" where
  "lineSize l = length (fst l) + length (concat (snd l))"

lemma parseLine_fits:
  assumes "fits n st" "okResolver r" "okWords (fst l # snd l)"
  shows "fits (n + lineSize l) (parseLine r st l)"
  using aliasLine_fits [OF assms] listenLine_fits [OF assms] aclLine_fits [OF assms]
  by (cases l) (simp add: parseLine_def lineSize_def add.assoc)

lemma parseLines_fits:
  assumes "fits n st" "okResolver r" "\<forall>l \<in> set ls. okWords (fst l # snd l)"
  shows "fits (n + sum_list (map lineSize ls)) (foldl (parseLine r) st ls)"
  using assms
proof (induction ls arbitrary: n st)
  case (Cons l ls)
  have "fits (n + lineSize l) (parseLine r st l)"
    by (rule parseLine_fits [OF Cons.prems(1,2)]) (use Cons.prems(3) in simp)
  from Cons.IH [OF this Cons.prems(2)] Cons.prems(3) show ?case by (simp add: add.assoc)
qed simp

lemma fileLines_size:
  "sum_list (map lineSize (fileLines s)) \<le> length s
   \<and> (\<forall>l \<in> set (fileLines s). fst l \<noteq> [] \<and> length (fst l) \<le> length s \<and> [] \<notin> set (snd l) \<and> length (concat (snd l)) \<le> length s)"
proof (induction s rule: fileLines.induct)
  case (1 s)
  obtain w r where w: "readWord False s = (w, r)" by (cases "readWord False s")
  show ?case
  proof (cases w)
    case None
    with w show ?thesis by (subst fileLines.simps, subst (2) fileLines.simps) simp
  next
    case (Some x)
    obtain ws t where t: "lineWords r = (ws, t)" by (cases "lineWords r")
    have l: "length x + length r \<le> length s" "x \<noteq> []" using readWord_length [OF w] Some by simp_all
    have m: "length (concat ws) + length t \<le> length r" "[] \<notin> set ws" using lineWords_length [OF t] by simp_all
    have e: "fileLines s = (x, ws) # fileLines t" by (subst fileLines.simps) (simp add: w Some t)
    from 1 [OF w [symmetric] Some t [symmetric]] l m show ?thesis
      by (fastforce simp: e lineSize_def)
  qed
qed

lemma length_le_concat: "x \<in> set xs \<Longrightarrow> length x \<le> length (concat xs)"
  by (induction xs) auto

lemma parseAccess_fits:
  assumes "okResolver r" "length file < 0x7000" "pred_option (\<lambda>w. w \<noteq> [] \<and> length w < 0x100) mcast"
  shows "fits (length file + 0x100) (parseAccess r mcast file)"
proof -
  let ?s = "foldl (parseLine r) noAccFile (fileLines file)"
  have "fits 0 noAccFile" by (simp add: fits_def noAccFile_def rooms_def)
  moreover have "okWords (fst l # snd l)" if "l \<in> set (fileLines file)" for l
    using fileLines_size [of "file"] that assms(2) length_le_concat [of _ "snd l"] by (fastforce simp: okWords_def)
  ultimately have "fits (sum_list (map lineSize (fileLines file))) ?s"
    using parseLines_fits [of 0 noAccFile r "fileLines file"] assms(1) by simp
  then have f: "fits (length file) ?s" using fits_mono fileLines_size by blast
  show ?thesis
  proof (cases "afListens ?s = []")
    case False
    with fits_mono [OF f, of "length file + 0x100"] show ?thesis by (simp add: parseAccess_def defaultListen_def)
  next
    case True
    obtain k s1 where s1: "(case mcast of None \<Rightarrow> (False, ?s) | Some w \<Rightarrow> addHost r PARSE_ALL (length w) w ?s) = (k, s1)"
      by fastforce
    have g: "grew 0xff (if k then 1 else 0) ?s s1"
    proof (cases mcast)
      case (Some w)
      then have "1 \<le> length w" "length w < 0x7fff" "length w \<le> 0xff" using assms(3) by (cases w; simp)+
      then show ?thesis using addHost_grew [OF assms(1) _ _ \<open>1 \<le> length w\<close> \<open>length w < 0x7fff\<close>, of PARSE_ALL w ?s k s1] s1 Some
        by (auto simp: grew_def)
    qed (use s1 in \<open>auto simp: grew_refl\<close>)
    have f1: "fits (length file + 0x100) s1" using fits_mono [OF fits_grew [OF f g]] by simp
    have "length (afHosts ?s) \<le> length file" using f by (rule fits_hosts)
    with f1 s1 True show ?thesis
      by (simp add: parseAccess_def defaultListen_def Let_def fits_def rooms_def listenUpTo_def upTo_def)
  qed
qed

section \<open>Every range is inside the list\<close>

definition inRange :: "accFile \<Rightarrow> bool" where
  "inRange st \<longleftrightarrow>
     (\<forall>a \<in> set (afAliases st). raHosts a + raNhosts a \<le> length (afHosts st))
   \<and> (\<forall>e \<in> set (afAcls st). 0 \<le> acEntries e \<and> acEntries e + 1 \<le> int (length (afHosts st)) \<and> acNentries e = 1
        \<and> 0 \<le> acHosts e \<and> 0 \<le> acNhosts e \<and> acHosts e + acNhosts e \<le> int (length (afHosts st)))"

lemma inRange_grew: "inRange st \<Longrightarrow> grew k c st st' \<Longrightarrow> inRange st'"
  by (fastforce simp: inRange_def grew_def)

lemma inRange_parts:
  "inRange st \<Longrightarrow> afHosts st' = afHosts st \<Longrightarrow> afAliases st' = afAliases st \<Longrightarrow> afAcls st' = afAcls st
   \<Longrightarrow> inRange st'"
  by (simp add: inRange_def)

lemma aliasLine_inRange:
  assumes "inRange st" "okResolver r" "okWords ws"
  shows "inRange (aliasLine r w ws st)"
proof -
  let ?s0 = "st\<lparr>afChars := afChars st + length w\<rparr>"
  obtain c b s1 where s1: "addHosts r PARSE_NO_BCAST ws ?s0 = (c, b, s1)"
    by (cases "addHosts r PARSE_NO_BCAST ws ?s0")
  have g: "grew (length (concat ws)) c ?s0 s1" by (rule addHosts_grew [OF assms(2) s1 assms(3)])
  have "inRange s1" by (rule inRange_grew [OF _ g]) (rule inRange_parts [OF assms(1)]; simp)
  then show ?thesis using s1 g by (auto simp: aliasLine_def inRange_def grew_def)
qed

lemma listenLine_inRange:
  assumes "inRange st" "okResolver r" "okWords ws"
  shows "inRange (listenLine r ws st)"
proof -
  obtain k s1 where s1: "(case ws of [] \<Rightarrow> (False, st)
      | w # _ \<Rightarrow> if cstrOf w = [STAR] then (False, st) else addHost r PARSE_ADDR (length w) w st) = (k, s1)"
    by fastforce
  obtain c b s2 where s2: "addHosts r PARSE_ADDR (tl ws) s1 = (c, b, s2)"
    by (cases "addHosts r PARSE_ADDR (tl ws) s1")
  have "inRange s1"
  proof (cases ws)
    case (Cons w us)
    then have w: "1 \<le> length w" "length w < 0x7fff" using assms(3) by (cases w; simp)+
    from s1 Cons consider "s1 = st" | "addHost r PARSE_ADDR (length w) w st = (k, s1)" by (auto split: if_splits)
    then show ?thesis
      using assms(1) inRange_grew [OF assms(1) addHost_grew [OF assms(2) _ _ w]] by cases auto
  qed (use s1 assms(1) in auto)
  moreover have "grew (length (concat (tl ws))) c s1 s2"
    by (rule addHosts_grew [OF assms(2) s2]) (use assms(3) in \<open>cases ws; simp\<close>)
  ultimately have "inRange s2" by (rule inRange_grew)
  with s1 s2 show ?thesis by (auto simp: listenLine_def Let_def intro: inRange_parts)
qed

lemma addHost_len: "addHost r p len w st = (k, st') \<Longrightarrow> length (afHosts st') = length (afHosts st) + (if k then 1 else 0)"
  by (auto simp: addHost_def split: option.splits)

lemma aclLine_inRange:
  assumes "inRange st" "okResolver r" "okWords (w # ws)"
  shows "inRange (aclLine r w ws st)"
proof -
  let ?neg = "hd w = 33"
  let ?w = "if ?neg \<or> hd w = 61 then tl w else w"
  have w: "1 \<le> length w" "length w < 0x7fff" "okWords ws" using assms(3) by (cases w; simp)+
  obtain k s1 where s1: "addHost r PARSE_NO_BCAST (length w) ?w st = (k, s1)"
    by (cases "addHost r PARSE_NO_BCAST (length w) ?w st")
  let ?s1 = "if \<not> k \<and> ?neg then s1\<lparr>afError := True\<rparr> else s1"
  obtain c f s2 where s2: "aclWords r ws (if ?neg then a_notAllowed else 0) ?s1 = (c, f, s2)"
    by (cases "aclWords r ws (if ?neg then a_notAllowed else 0) ?s1")
  have "grew (length w) (if k then 1 else 0) st s1"
    by (rule addHost_grew [OF assms(2) s1 _ w(1,2)]) simp
  then have "inRange s1" by (rule inRange_grew [OF assms(1)])
  then have r1: "inRange ?s1" by (rule inRange_parts) auto
  have g2: "grew (length (concat ws)) c ?s1 s2"
    using aclWords_grew [OF assms(2) s2 w(3)] by simp
  have h: "length (afHosts ?s1) = length (afHosts st) + (if k then 1 else 0)" using addHost_len [OF s1] by simp
  have "inRange s2" by (rule inRange_grew [OF r1 g2])
  with s1 s2 g2 h show ?thesis
    by (auto simp: aclLine_def Let_def inRange_def grew_def split: if_splits)
qed

lemma parseAccess_inRange:
  assumes "okResolver r" "length file < 0x7000" "pred_option (\<lambda>w. w \<noteq> [] \<and> length w < 0x100) mcast"
  shows "inRange (parseAccess r mcast file)"
proof -
  have "okWords (fst l # snd l)" if "l \<in> set (fileLines file)" for l
    using fileLines_size [of "file"] that assms(2) length_le_concat [of _ "snd l"] by (fastforce simp: okWords_def)
  note ok = this
  have r: "inRange (foldl (parseLine r) noAccFile (fileLines file))"
  proof (rule foldl_inv)
    show "inRange noAccFile" by (simp add: inRange_def noAccFile_def)
    fix st l assume l: "l \<in> set (fileLines file)" "inRange st"
    obtain w ws where "l = (w, ws)" by (cases l)
    with ok [OF l(1)] show "inRange (parseLine r st l)"
      using aliasLine_inRange [OF l(2) assms(1)] listenLine_inRange [OF l(2) assms(1)]
        aclLine_inRange [OF l(2) assms(1)] by (simp add: parseLine_def)
  qed
  let ?s = "foldl (parseLine r) noAccFile (fileLines file)"
  obtain k s1 where s1: "(case mcast of None \<Rightarrow> (False, ?s) | Some w \<Rightarrow> addHost r PARSE_ALL (length w) w ?s) = (k, s1)"
    by fastforce
  have "inRange s1"
  proof (cases mcast)
    case (Some w)
    then have "1 \<le> length w" "length w < 0x7fff" using assms(3) by (cases w; simp)+
    from inRange_grew [OF r addHost_grew [OF assms(1) _ _ this]] s1 Some show ?thesis by auto
  qed (use s1 r in auto)
  with s1 r show ?thesis by (auto simp: parseAccess_def defaultListen_def Let_def intro: inRange_parts)
qed

section \<open>The scans of the daemon return\<close>

lemma anyM_Some_False: "anyM f xs = Some False \<Longrightarrow> x \<in> set xs \<Longrightarrow> f x = Some False"
  by (induction xs) (auto split: bind_splits if_splits)

lemma bind_Some_False:
  "m \<bind> (\<lambda>b. if b then Some True else g b) = Some False \<longleftrightarrow> m = Some False \<and> g False = Some False"
  by (cases m) auto

text \<open>A checked list of hosts: each alias met is resolved one level further down.\<close>

lemma check_alias:
  assumes "checkHostlist r neg st fh nh = Some False" "RAlias p \<in> set (take nh (drop fh (afHosts st)))"
    "a \<in> set (afAliases st)"
  shows "\<exists>r' m. r = Suc r' \<and> patMatch (Some (raName a)) p = Some m
     \<and> (m \<longrightarrow> checkHostlist r' neg st (raHosts a) (raNhosts a) = Some False)"
proof -
  from anyM_Some_False [OF assms(1) [unfolded checkHostlist.simps [of r]] assms(2)]
  obtain r' where r: "r = Suc r'" and
    b: "anyM (\<lambda>a. do {
                    m \<leftarrow> patMatch (Some (raName a)) p;
                    if \<not> m then Some False
                    else if neg \<and> raBad a then Some True
                    else checkHostlist r' neg st (raHosts a) (raNhosts a) }) (afAliases st) = Some False"
    by (cases r) (auto simp: bind_Some_False)
  from anyM_Some_False [OF b assms(3)] obtain m where "patMatch (Some (raName a)) p = Some m"
      "m \<Longrightarrow> checkHostlist r' neg st (raHosts a) (raNhosts a) = Some False"
    by (auto split: bind_splits if_splits)
  with r show ?thesis by blast
qed

lemma hostRange_toHost:
  "f + n \<le> length hs \<Longrightarrow> hostRange (map toHost hs) (int f) (int n) = Some (map toHost (take n (drop f hs)))"
  by (simp add: hostRange_def take_map drop_map nat_add_distrib)

lemma set_take_drop: "x \<in> set (take n (drop f hs)) \<Longrightarrow> x \<in> set hs"
  by (meson in_set_dropD in_set_takeD)

text \<open>What the reader has checked, the daemon scans within one more level.\<close>

lemma check_okList:
  assumes "inRange st" "\<forall>p. RPattern p \<in> set (afHosts st) \<longrightarrow> safePat p"
  shows "checkHostlist r neg st fh nh = Some False \<Longrightarrow> fh + nh \<le> length (afHosts st) \<Longrightarrow>
     okList (Suc r) (toAcc st) (int fh) (int nh)"
proof (induction r arbitrary: fh nh rule: less_induct)
  case (less r)
  let ?hs = "take nh (drop fh (afHosts st))"
  have al: "case patMatch (Some (alName x)) p of None \<Rightarrow> False
      | Some m \<Rightarrow> m \<longrightarrow> okList r (toAcc st) (alHosts x) (alNhosts x)"
    if "RAlias p \<in> set ?hs" "x \<in> set (aliasList (toAcc st))" for p x
  proof -
    from that(2) obtain a where a: "a \<in> set (afAliases st)" "x = toAlias a" by (auto simp: toAcc_def)
    from check_alias [OF less.prems(1) that(1) a(1)] obtain r' m where m: "r = Suc r'" "patMatch (Some (raName a)) p = Some m"
        "m \<longrightarrow> checkHostlist r' neg st (raHosts a) (raNhosts a) = Some False" by blast
    have "raHosts a + raNhosts a \<le> length (afHosts st)" using assms(1) a(1) by (simp add: inRange_def)
    with m a(2) less.IH [of r' "raHosts a" "raNhosts a"] show ?thesis by (simp add: toAlias_def)
  qed
  have hr: "hostRange (hostList (toAcc st)) (int fh) (int nh) = Some (map toHost ?hs)"
    using hostRange_toHost [OF less.prems(2)] by (simp add: toAcc_def)
  show ?case
    unfolding okList.simps hr option.case list_all_iff
  proof
    fix h assume "h \<in> set (map toHost ?hs)"
    then obtain q where q: "q \<in> set ?hs" "h = toHost q" by auto
    show "case h of HAlias p \<Rightarrow> \<forall>a \<in> set (aliasList (toAcc st)). (case patMatch (Some (alName a)) p of None \<Rightarrow> False
            | Some m \<Rightarrow> m \<longrightarrow> okList r (toAcc st) (alHosts a) (alNhosts a))
        | HPattern p \<Rightarrow> safePat p | _ \<Rightarrow> True"
    proof (cases q)
      case (RAlias p)
      then have h: "h = HAlias p" "RAlias p \<in> set ?hs" using q by simp_all
      show ?thesis unfolding h(1) hostEntry.case using al [OF h(2)] by blast
    next
      case (RPattern p)
      then show ?thesis using q assms(2) set_take_drop [OF q(1)] by simp
    qed (use q(2) in simp_all)
  qed
qed

lemma checkAcls_False: "checkAcls st es = Some False \<Longrightarrow> e \<in> set es \<Longrightarrow> checkAcl st e = Some False"
  by (induction es) (auto split: bind_splits)

lemma checkAcl_False:
  "checkAcl st e = Some False \<Longrightarrow> (\<exists>neg. checkHostlist MAX_DEPTH neg st (nat (acEntries e)) (nat (acNentries e)) = Some False)
     \<and> checkHostlist MAX_DEPTH False st (nat (acHosts e)) (nat (acNhosts e)) = Some False"
  unfolding checkAcl_def bind_Some_False by blast

text \<open>What is sent is in range and either empty or checked.\<close>

lemma readAccess_checked:
  assumes "okResolver r" "length file < 0x7000" "pred_option (\<lambda>w. w \<noteq> [] \<and> length w < 0x100) mcast"
    "readAccess r mcast (Some file) = Some st"
  shows "okAcc st \<and> inRange st \<and> checkAcls st (afAcls st) = Some False"
proof -
  let ?p = "parseAccess r mcast file"
  from assms(4) obtain b where b: "checkAcls ?p (afAcls ?p) = Some b"
      "st = (if b \<or> afError ?p then noAccFile else ?p)"
    by (auto simp: readAccess_def Let_def split: bind_splits)
  have "okAcc noAccFile \<and> inRange noAccFile \<and> checkAcls noAccFile (afAcls noAccFile) = Some False"
    by (simp add: okAcc_def inRange_def noAccFile_def short16_def int32_def)
  moreover have "okAcc ?p" by (rule fits_okAcc [OF parseAccess_fits [OF assms(1-3)]]) (use assms(2) in simp)
  moreover have "inRange ?p" by (rule parseAccess_inRange [OF assms(1-3)])
  ultimately show ?thesis using b by (cases "b \<or> afError ?p") auto
qed

lemma checked_okLists:
  assumes "inRange st" "checkAcls st (afAcls st) = Some False"
    "\<forall>p. RPattern p \<in> set (afHosts st) \<longrightarrow> safePat p"
  shows "okLists (toAcc st)"
proof -
  have "okList ACL_DEPTH (toAcc st) (acEntries e) (acNentries e) \<and>
      okList ACL_DEPTH (toAcc st) (acHosts e) (acNhosts e)" if "e \<in> set (afAcls st)" for e
  proof -
    have r: "0 \<le> acEntries e" "acNentries e = 1" "acEntries e + 1 \<le> int (length (afHosts st))"
      "0 \<le> acHosts e" "0 \<le> acNhosts e" "acHosts e + acNhosts e \<le> int (length (afHosts st))"
      using assms(1) that by (auto simp: inRange_def)
    note c = checkAcl_False [OF checkAcls_False [OF assms(2) that]]
    from c obtain neg where n: "checkHostlist MAX_DEPTH neg st (nat (acEntries e)) (nat (acNentries e)) = Some False" by blast
    have "nat (acEntries e) + nat (acNentries e) \<le> length (afHosts st)"
      "nat (acHosts e) + nat (acNhosts e) \<le> length (afHosts st)" using r by linarith+
    from check_okList [OF assms(1,3) n this(1)] check_okList [OF assms(1,3) conjunct2 [OF c] this(2)] r
    show ?thesis by (simp del: okList.simps)
  qed
  then show ?thesis by (simp add: okLists_def list_all_iff toAcc_def del: okList.simps)
qed


text \<open>An example: two aliases, one in terms of the other; the second entry shows the chooser.\<close>

definition demoXaccess :: bytes where
  "demoXaccess = map of_char (''%lab  a.x b.x # the lab'' @ [NL] @ ''%all %lab c.x'' @ [NL] @ ''=%all'' @ [NL]
     @ ''*.x CHOOSER BROADCAST'' @ [NL] @ ''LISTEN *'' @ [NL])"

definition demoResolver :: resolver where
  "demoResolver w = (if length w = 3 then Some (AF_INET, [10, 0, 0, hd w]) else None)"

text \<open>\<open>%all\<close> stands in terms of itself: the reader sends nothing, and the daemon would not come to an end.\<close>

definition loopXaccess :: bytes where
  "loopXaccess = map of_char (''%all %all'' @ [NL] @ ''=%all'' @ [NL])"

theorem alias_loop_refused: "readAccess demoResolver None (Some loopXaccess) = Some noAccFile"
  by code_simp

text \<open>Nothing in the daemon itself stops the recursion such lists would cause.\<close>

definition loopAcc :: accArr where
  "loopAcc = \<lparr>hostList = [HAlias [97]], listenList = [], aliasList = [\<lparr>alName = [97], alHosts = 0, alNhosts = 1\<rparr>],
     acList = [\<lparr>acEntries = 0, acNentries = 1, acHosts = 1, acNhosts = 0, acFlags = 0\<rparr>]\<rparr>"

theorem alias_loop_endless: "acceptableDisplayAddress k loopAcc name addr ct QUERY = None"
proof -
  have m: "patMatch (Some [97]) [97] = Some True" by code_simp
  have "scanEntrylist k loopAcc name addr ct 0 1 = None"
    by (induction k) (simp_all add: loopAcc_def hostRange_def m)
  then show ?thesis by (simp add: acceptableDisplayAddress_def matchAclEntry_def loopAcc_def)
qed


end
