(* ===== verification/ProtoDpy.thy ===== *)
theory ProtoDpy
  imports NetAddr Registry
begin

text \<open>
  Displays between REQUEST and MANAGE of XDMCP, \<^verbatim>\<open>kdm/backend/protodpy.c\<close>. They are looked up
  by the sender's socket address and display number, and time out. \<open>pid\<close> is the address of
  the C object. \<open>date\<close> is an unsigned long, so the comparison wraps.
\<close>

abbreviation PROTO_TIMEOUT :: int where "PROTO_TIMEOUT \<equiv> 1800"

record xauth =
  xaName :: bytes
  xaData :: bytes

record protoInfo =
  pAddr :: nat
  pDate :: "64 word"
  pConnType :: "16 word"
  pConnAddr :: bytes
  pSessionID :: "32 word"
  pFileAuth :: "xauth option"
  pXdmcpAuth :: "xauth option"
  pAuthName :: bytes
  pAuthData :: bytes
  pKey :: bytes

type_synonym protoKey = "sockaddr \<times> nat \<times> 16 word"

type_synonym protoDisplay = "protoKey \<times> protoInfo"

definition sameProto :: "protoKey \<Rightarrow> protoKey \<Rightarrow> bool" where
  "sameProto k k' \<longleftrightarrow>
     (case (k, k') of ((a, l, n), (b, m, j)) \<Rightarrow> n = j \<and> addressEqual b m a l)"

definition findProtoDisplay :: "protoDisplay list \<Rightarrow> protoKey \<Rightarrow> protoDisplay option" where
  "findProtoDisplay ps k = find (\<lambda>p. sameProto (fst p) k) ps"

definition disposeProtoDisplay :: "nat \<Rightarrow> protoDisplay list \<Rightarrow> protoDisplay list" where
  "disposeProtoDisplay a ps = remove_first (\<lambda>p. pAddr (snd p) = a) ps"

text \<open>The walk disposes of each display that is too old.\<close>

definition expired :: "int \<Rightarrow> protoDisplay \<Rightarrow> bool" where
  "expired now p \<longleftrightarrow> pDate (snd p) < word_of_int (now - PROTO_TIMEOUT)"

fun timeoutWalk :: "int \<Rightarrow> protoDisplay list \<Rightarrow> protoDisplay list \<Rightarrow> protoDisplay list" where
  "timeoutWalk now [] ps = ps"
| "timeoutWalk now (p # rest) ps =
     timeoutWalk now rest (if expired now p then disposeProtoDisplay (pAddr (snd p)) ps else ps)"

definition timeoutProtoDisplays :: "int \<Rightarrow> protoDisplay list \<Rightarrow> protoDisplay list" where
  "timeoutProtoDisplays now ps = timeoutWalk now ps ps"

text \<open>\<open>mok\<close>: the record, its address, the connection address; \<open>a\<close> is the fresh object.\<close>

definition newProtoDisplay ::
  "(nat \<Rightarrow> bool) \<Rightarrow> nat \<Rightarrow> int \<Rightarrow> protoKey \<Rightarrow> 16 word \<Rightarrow> bytes \<Rightarrow> 32 word \<Rightarrow> protoDisplay list
   \<Rightarrow> protoDisplay option \<times> protoDisplay list"
where
  "newProtoDisplay mok a now k ctype caddr sid ps =
     (let ps = timeoutProtoDisplays now ps in
      if \<not> mok 0 \<or> \<not> mok 1 \<or> \<not> mok 2 then (None, ps)
      else
        let p = (k, \<lparr>pAddr = a, pDate = word_of_int now, pConnType = ctype, pConnAddr = caddr,
                     pSessionID = sid, pFileAuth = None, pXdmcpAuth = None, pAuthName = [],
                     pAuthData = [], pKey = []\<rparr>)
        in (Some p, p # ps))"

section \<open>The registry contract\<close>

definition wfProtos :: "protoDisplay list \<Rightarrow> bool" where
  "wfProtos ps \<longleftrightarrow> distinct (map (pAddr \<circ> snd) ps)"

lemma sameProto_equiv:
  shows sameProto_refl: "sameProto k k"
    and sameProto_sym: "sameProto k k' \<Longrightarrow> sameProto k' k"
    and sameProto_trans: "sameProto k k' \<Longrightarrow> sameProto k' k'' \<Longrightarrow> sameProto k k''"
  by (auto simp: sameProto_def addressEqual_refl intro: addressEqual_sym addressEqual_trans)

text \<open>What a lookup tells of the session to be.\<close>

type_synonym protoSession = "16 word \<times> bytes \<times> 32 word"

definition sessionOf :: "protoDisplay \<Rightarrow> protoSession" where
  "sessionOf p = (pConnType (snd p), pConnAddr (snd p), pSessionID (snd p))"

definition protoSessionFor :: "protoDisplay list \<Rightarrow> protoKey \<Rightarrow> protoSession option" where
  "protoSessionFor ps k = map_option sessionOf (findProtoDisplay ps k)"

definition freshAddr :: "protoDisplay list \<Rightarrow> nat" where
  "freshAddr ps = Suc (fold max (map (pAddr \<circ> snd) ps) 0)"

lemma fold_max_start: "m \<le> fold max xs (m::nat)"
  by (induction xs arbitrary: m) (auto intro: order_trans [OF max.cobounded2])

lemma fold_max_ge: "x \<in> set xs \<Longrightarrow> x \<le> fold max xs (m::nat)"
proof (induction xs arbitrary: m)
  case (Cons y ys)
  then show ?case
    using order_trans [OF max.cobounded1 fold_max_start [of "max x m" ys]] by auto
qed simp

lemma freshAddr_fresh: "freshAddr ps \<notin> set (map (pAddr \<circ> snd) ps)"
proof
  assume "freshAddr ps \<in> set (map (pAddr \<circ> snd) ps)"
  from fold_max_ge [OF this, of 0] show False by (simp add: freshAddr_def)
qed

text \<open>\<open>newProtoDisplay\<close> at time \<open>now\<close> when nothing fails and nothing has expired.\<close>

definition linkProto :: "int \<Rightarrow> protoDisplay list \<Rightarrow> protoKey \<Rightarrow> protoSession \<Rightarrow> protoDisplay list" where
  "linkProto now ps k v =
     (k, \<lparr>pAddr = freshAddr ps, pDate = word_of_int now, pConnType = fst v, pConnAddr = fst (snd v),
          pSessionID = snd (snd v), pFileAuth = None, pXdmcpAuth = None, pAuthName = [],
          pAuthData = [], pKey = []\<rparr>) # ps"

interpretation pd: keyed_store protoSessionFor "linkProto now" sameProto wfProtos
  for now
proof unfold_locales
  fix ps k k' v
  show "sameProto k k" by (rule sameProto_refl)
  show "sameProto k k' \<Longrightarrow> sameProto k' k" by (rule sameProto_sym)
  show "sameProto k k' \<Longrightarrow> protoSessionFor (linkProto now ps k v) k' = Some v"
    by (simp add: protoSessionFor_def linkProto_def findProtoDisplay_def sessionOf_def)
  show "\<not> sameProto k k' \<Longrightarrow> protoSessionFor (linkProto now ps k v) k' = protoSessionFor ps k'"
    by (simp add: protoSessionFor_def linkProto_def findProtoDisplay_def)
  show "wfProtos ps \<Longrightarrow> wfProtos (linkProto now ps k v)"
    using freshAddr_fresh [of ps] by (simp add: wfProtos_def linkProto_def comp_def)
qed

section \<open>Expiry and disposal\<close>

lemma disposeProtoDisplay_filter:
  "wfProtos ps \<Longrightarrow> disposeProtoDisplay a ps = filter (\<lambda>p. pAddr (snd p) \<noteq> a) ps"
  using remove_first_distinct [of "pAddr \<circ> snd" ps a]
  by (simp add: wfProtos_def disposeProtoDisplay_def comp_def)

lemma wfProtos_filter: "wfProtos ps \<Longrightarrow> wfProtos (filter P ps)"
  by (simp add: wfProtos_def distinct_map_filter)

lemma timeoutWalk_filter:
  assumes "wfProtos ps"
  shows "timeoutWalk now rest ps =
     filter (\<lambda>p. \<not> (\<exists>q \<in> set rest. expired now q \<and> pAddr (snd q) = pAddr (snd p))) ps"
  using assms
proof (induction now rest ps rule: timeoutWalk.induct)
  case (2 now p rest ps)
  show ?case
  proof (cases "expired now p")
    case True
    with 2 disposeProtoDisplay_filter [OF 2(2)] show ?thesis
      by (auto simp: wfProtos_filter intro!: filter_cong)
  next
    case False
    with 2 show ?thesis by (auto intro!: filter_cong)
  qed
qed simp

lemma timeoutProtoDisplays_filter:
  assumes "wfProtos ps"
  shows "timeoutProtoDisplays now ps = filter (\<lambda>p. \<not> expired now p) ps"
proof -
  have "q = p" if "p \<in> set ps" "q \<in> set ps" "pAddr (snd q) = pAddr (snd p)" for p q
    using that assms inj_onD [of "pAddr \<circ> snd" "set ps"] by (simp add: wfProtos_def distinct_map)
  then show ?thesis
    unfolding timeoutProtoDisplays_def timeoutWalk_filter [OF assms]
    by (intro filter_cong refl) blast
qed

lemma uint_word_of_int64: "0 \<le> x \<Longrightarrow> x < 2 ^ 63 \<Longrightarrow> uint (word_of_int x :: 64 word) = x"
  by (simp add: uint_word_of_int take_bit_int_eq_self)

text \<open>C29. A protocol display made at time \<open>t0\<close> is found under every address the code regards as
  the same until, more than \<open>PROTO_TIMEOUT\<close> seconds later, another one is made.
\<close>

theorem newProtoDisplay_timeout:
  assumes wf: "wfProtos ps" and t: "PROTO_TIMEOUT \<le> t0" "t0 \<le> t1" "t1 < 2 ^ 63"
    and new: "newProtoDisplay (\<lambda>_. True) a t0 k ct ca sid ps = (Some p, ps')"
    and a: "a \<notin> set (map (pAddr \<circ> snd) (timeoutProtoDisplays t0 ps))"
    and same: "sameProto k k'"
  shows "findProtoDisplay ps' k' = Some p \<and> sessionOf p = (ct, ca, sid) \<and>
     (p \<in> set (timeoutProtoDisplays t1 ps') \<longleftrightarrow> t1 \<le> t0 + PROTO_TIMEOUT)"
proof -
  have p: "fst p = k" "pDate (snd p) = word_of_int t0" "sessionOf p = (ct, ca, sid)"
    "pAddr (snd p) = a" "ps' = p # timeoutProtoDisplays t0 ps"
    using new by (auto simp: newProtoDisplay_def Let_def sessionOf_def)
  have "wfProtos (timeoutProtoDisplays t0 ps)"
    using wf by (simp add: timeoutProtoDisplays_filter wfProtos_filter)
  with p a have "wfProtos ps'" by (auto simp: wfProtos_def)
  then have "p \<in> set (timeoutProtoDisplays t1 ps') \<longleftrightarrow> \<not> expired t1 p"
    using p by (simp add: timeoutProtoDisplays_filter)
  also have "\<dots> \<longleftrightarrow> t1 - PROTO_TIMEOUT \<le> t0"
    unfolding expired_def p(2) not_less word_le_def using t
    by (simp only: uint_word_of_int64)
  finally show ?thesis using p same by (auto simp: findProtoDisplay_def)
qed

theorem newProtoDisplay_timeout_witness:
  "\<exists>p ps'. findProtoDisplay ps' (SaInet [2, 1] [10, 0, 0, 1], 16, 0) = Some p \<and> sessionOf p = (0, [10, 0, 0, 1], 99) \<and>
     (p \<in> set (timeoutProtoDisplays 5000 ps') \<longleftrightarrow> (5000::int) \<le> 3000 + PROTO_TIMEOUT)"
proof -
  let ?k = "(SaInet [2, 1] [10, 0, 0, 1], 16, 0)"
  obtain p ps' where "newProtoDisplay (\<lambda>_. True) 7 3000 ?k 0 [10, 0, 0, 1] 99 [] = (Some p, ps')"
    by (simp add: newProtoDisplay_def Let_def)
  from newProtoDisplay_timeout [OF _ _ _ _ this _ sameProto_refl, of 5000]
  have "findProtoDisplay ps' ?k = Some p \<and> sessionOf p = (0, [10, 0, 0, 1], 99) \<and>
     (p \<in> set (timeoutProtoDisplays 5000 ps') \<longleftrightarrow> (5000::int) \<le> 3000 + PROTO_TIMEOUT)"
    by (simp add: wfProtos_def timeoutProtoDisplays_def)
  then show ?thesis by blast
qed

text \<open>C2. A series of registrations answers lookups with the last session registered for the same address and display number.\<close>

theorem protoSessionFor_series:
  assumes "wfProtos ps"
  shows "protoSessionFor (foldl (\<lambda>ps (k, v). linkProto now ps k v) ps kvs) k' =
     (case find (\<lambda>(k, v). sameProto k k') (rev kvs) of
        Some (k, v) \<Rightarrow> Some v
      | None \<Rightarrow> protoSessionFor ps k')"
  using pd.find_add_all [OF assms, of now kvs k'] by (simp add: pd.add_all_def)

theorem protoSessionFor_series_witness:
  "protoSessionFor (foldl (\<lambda>ps (k, v). linkProto 5 ps k v) [] [((SaInet [2, 1] [10, 0, 0, 1], 16, 0), (0, [1], 42))])
     (SaInet [2, 1] [10, 0, 0, 1], 16, 0) = Some (0, [1], 42)"
  using protoSessionFor_series [of "[]" 5 "[((SaInet [2, 1] [10, 0, 0, 1], 16, 0), (0, [1], 42))]"
      "(SaInet [2, 1] [10, 0, 0, 1], 16, 0)"]
  by (simp add: wfProtos_def sameProto_refl)

end
