(* ===== verification/DmState.thy ===== *)
theory DmState
  imports Access ProtoDpy
begin

text \<open>
  The state of the master daemon: \<^verbatim>\<open>struct display\<close>, \<^verbatim>\<open>struct disphist\<close> and \<^verbatim>\<open>SdRec\<close> of
  \<^verbatim>\<open>kdm/backend/dm.h\<close> and the file-level variables of \<^verbatim>\<open>dm.c\<close>, \<^verbatim>\<open>server.c\<close> and
  \<^verbatim>\<open>dpylist.c\<close>. A \<^verbatim>\<open>struct display *\<close> is an address, a number given out once; the list of
  displays holds the live objects. An operation of type \<open>dm \<Rightarrow> dm option\<close> yields \<open>None\<close>
  when the code would use a NULL or dangling pointer or an uninitialised object. What the
  daemon does to other processes and files is recorded in \<open>actions\<close>, oldest first.
\<close>

section \<open>Constants\<close>

datatype displayStatus =
    notRunning | running | zombie | phoenix | raiser | textMode | reserve | remoteLogin

datatype serverStatus = ignore | awaiting | starting | terminated | killed | pausing

text \<open>Masks and values of \<open>displayType\<close>.\<close>

abbreviation d_location :: int where "d_location \<equiv> 1"
abbreviation dLocal :: int where "dLocal \<equiv> 1"
abbreviation dForeign :: int where "dForeign \<equiv> 0"
abbreviation d_lifetime :: int where "d_lifetime \<equiv> 6"
abbreviation dPermanent :: int where "dPermanent \<equiv> 4"
abbreviation dReserve :: int where "dReserve \<equiv> 2"
abbreviation dTransient :: int where "dTransient \<equiv> 0"
abbreviation d_origin :: int where "d_origin \<equiv> 24"
abbreviation dFromCommand :: int where "dFromCommand \<equiv> 16"
abbreviation dFromXDMCP :: int where "dFromXDMCP \<equiv> 8"
abbreviation dFromFile :: int where "dFromFile \<equiv> 0"

text \<open>End states of \<open>rStopDisplay\<close>.\<close>

abbreviation DS_MASK :: int where "DS_MASK \<equiv> 255"
abbreviation DS_RESTART :: int where "DS_RESTART \<equiv> 0"
abbreviation DS_TEXTMODE :: int where "DS_TEXTMODE \<equiv> 1"
abbreviation DS_RESERVE :: int where "DS_RESERVE \<equiv> 2"
abbreviation DS_REMOTE :: int where "DS_REMOTE \<equiv> 3"
abbreviation DS_REMOVE :: int where "DS_REMOVE \<equiv> 4"
abbreviation DS_SCHEDULE :: int where "DS_SCHEDULE \<equiv> 256"

text \<open>Shutdown requests; \<open>how\<close> and \<open>force\<close> are two-bit fields.\<close>

abbreviation SHUT_REBOOT :: "2 word" where "SHUT_REBOOT \<equiv> 1"
abbreviation SHUT_HALT :: "2 word" where "SHUT_HALT \<equiv> 2"
abbreviation SHUT_CANCEL :: "2 word" where "SHUT_CANCEL \<equiv> 0"
abbreviation SHUT_FORCEMY :: "2 word" where "SHUT_FORCEMY \<equiv> 1"
abbreviation SHUT_FORCE :: "2 word" where "SHUT_FORCE \<equiv> 2"
abbreviation SHUT_ASK :: "2 word" where "SHUT_ASK \<equiv> 3"

datatype shutPolicy = SHUT_NONE | SHUT_ROOT | SHUT_ALL

abbreviation SIGHUP :: int where "SIGHUP \<equiv> 1"
abbreviation SIGKILL :: int where "SIGKILL \<equiv> 9"
abbreviation SIGTERM :: int where "SIGTERM \<equiv> 15"
abbreviation SIGCONT :: int where "SIGCONT \<equiv> 18"

section \<open>Records\<close>

text \<open>
  The record of a planned shutdown, \<^verbatim>\<open>SdRec\<close> of \<^verbatim>\<open>dm.h\<close>, as the main loop and the commands use it. Its two fields
  for the boot managers alone, \<^verbatim>\<open>osindex\<close> and \<^verbatim>\<open>bmstamp\<close>, are in the record \<open>bootSel\<close> of the theory \<open>BootMan\<close>.
\<close>

record sdrec =
  how :: "2 word"
  force :: "2 word"
  sdUid :: int
  start :: int
  timeout :: int
  osname :: "string option"

definition sdRec0 :: sdrec where
  "sdRec0 = \<lparr>how = 0, force = 0, sdUid = 0, start = 0, timeout = 0, osname = None\<rparr>"

text \<open>The per-display configuration the master process reads.\<close>

record dpyConf =
  reqSrvVT :: int
  serverAttempts :: int
  openDelay :: int
  cfgServerTimeout :: int
  startAttempts :: int
  terminateServer :: bool
  authorize :: bool
  resetForAuth :: bool
  allowShutdown :: shutPolicy
  allowNuke :: shutPolicy
  pingInterval :: int

type_synonym addr = nat

record display =
  daddr :: addr
  dname :: string
  class2 :: "string option"
  displayType :: int
  status :: displayStatus
  zstatus :: int
  dpid :: int
  serverPid :: int
  serverVT :: int
  follower :: "addr option"
  serverStatus :: serverStatus
  lastStart :: int
  startTries :: int
  stillThere :: bool
  userSess :: int
  userName :: "string option"
  sessName :: "string option"
  dSdRec :: sdrec
  ctrlOpen :: bool
  pipesOpen :: bool
  remoteHost :: "string option"
  sessionID :: "32 word"
  peerAddr :: "(sockaddr \<times> nat) option"
  displayNumber :: "16 word"
  useChooserFlag :: bool
  clientAddr :: bytes
  clientPort :: bytes
  connectionType :: int
  authorizations :: "bytes list"
  authFile :: "string option"
  greeterAuthFile :: "string option"
  conf :: dpyConf

record disphist =
  hname :: string
  lastExit :: int
  rLogin :: "2 word"
  lock :: bool
  goodExit :: bool
  nuser :: "string option"
  npass :: "string option"
  nargs :: "string option"

datatype utState = UtDead | UtWait | UtActive

text \<open>The one utmp record.\<close>

record utmps =
  utTime :: int
  utState :: utState
  hadSess :: bool

text \<open>
  An entry of the utmp file. \<open>utAlive\<close>: its process exists; \<open>utConsole\<close>: its terminal is a
  virtual terminal of the console, as the driver's \<^verbatim>\<open>VT_OPENQRY\<close> tells.
\<close>

record utmpEntry =
  utLine :: string
  utUser :: string
  utHost :: string
  utIsUser :: bool
  utEntTime :: int
  utAlive :: bool
  utConsole :: bool

datatype action =
    Kill int int
  | Unlink string
  | WriteAuth addr
  | ActivateVT int
  | DisallocateVT int
  | SendFailed addr string
  | OpenCtrl addr
  | CloseCtrl addr
  | StopListening
  | Answer string

text \<open>
  The daemon. \<open>forks\<close> holds the results of the calls of \<^verbatim>\<open>fork\<close> still to come (-1 for
  failure, also once the list is used up); \<open>utmpMtime\<close>, \<open>utmpFile\<close> the state of the utmp file
  (\<open>None\<close> if it cannot be examined), \<open>utmpModtim\<close> the static variable of \<open>checkUtmp\<close>;
  \<open>choices\<close> and \<open>protos\<close> are the lists of \<open>Choose\<close> and \<open>ProtoDpy\<close>, \<open>accLists\<close> those of \<open>Access\<close>, last
  looked at by \<open>isWilling\<close> at time \<open>lastAccScan\<close>, \<open>nextSession\<close> the last XDMCP
  session id given out; \<open>busyVTs\<close> and \<open>activeVT\<close> what the console driver reports. \<open>consoleOk\<close> says
  whether the console device can be opened, \<open>passwd\<close> is the user database, \<open>memOk\<close> whether a small
  allocation succeeds, \<open>junkState\<close> what the enum of a fresh, uninitialised record reads as.
\<close>

record dm =
  displays :: "display list"
  disphists :: "disphist list"
  nextAddr :: addr
  startingServer :: "addr option"
  serverTimeout :: int
  stopping :: bool
  sdRec :: sdrec
  now :: int
  utmpList :: "utmps option"
  utmpTimeout :: int
  utmpModtim :: int
  utmpMtime :: "int option"
  utmpFile :: "utmpEntry list"
  consoleTTYs :: "string list"
  serverVTs :: "string list"
  busyVTs :: int
  activeVT :: int
  listening :: bool
  requestPort :: int
  choices :: "choiceRec list"
  choiceTimeout :: int
  accLists :: accArr
  lastAccScan :: int
  protos :: "protoDisplay list"
  nextSession :: "32 word"
  consoleOk :: bool
  passwd :: "string \<Rightarrow> int option"
  memOk :: bool
  junkState :: utState
  forks :: "int list"
  actions :: "action list"

section \<open>Pointers\<close>

definition deref :: "dm \<Rightarrow> addr \<Rightarrow> display option" where
  "deref s a = find (\<lambda>d. daddr d = a) (displays s)"

definition setD :: "addr \<Rightarrow> (display \<Rightarrow> display) \<Rightarrow> dm \<Rightarrow> dm" where
  "setD a f s = s\<lparr>displays := update_where (\<lambda>d. daddr d = a) f (displays s)\<rparr>"

definition act :: "action \<Rightarrow> dm \<Rightarrow> dm" where
  "act e s = s\<lparr>actions := actions s @ [e]\<rparr>"

definition takeFork :: "dm \<Rightarrow> int \<times> dm" where
  "takeFork s = (case forks s of [] \<Rightarrow> (-1, s) | p # ps \<Rightarrow> (p, s\<lparr>forks := ps\<rparr>))"

text \<open>\<open>terminateProcess\<close> of \<^verbatim>\<open>process.c\<close>: the signal, then \<^verbatim>\<open>SIGCONT\<close>.\<close>

definition terminateProcess :: "int \<Rightarrow> int \<Rightarrow> dm \<Rightarrow> dm" where
  "terminateProcess p sig s = act (Kill p SIGCONT) (act (Kill p sig) s)"

definition isLocal :: "display \<Rightarrow> bool" where
  "isLocal d \<longleftrightarrow> and (displayType d) d_location = dLocal"

definition lifetime :: "display \<Rightarrow> int" where
  "lifetime d = and (displayType d) d_lifetime"

definition origin :: "display \<Rightarrow> int" where
  "origin d = and (displayType d) d_origin"

text \<open>The live addresses.\<close>

definition live :: "dm \<Rightarrow> addr list" where
  "live s = map daddr (displays s)"

lemma find_map_addr:
  "(find (\<lambda>d. daddr d = a) ds = None) = (a \<notin> daddr ` set ds)"
  by (auto simp: find_None_iff)

lemma deref_None: "deref s a = None \<longleftrightarrow> a \<notin> set (live s)"
  by (auto simp: deref_def live_def find_None_iff)

lemma deref_live: "a \<in> set (live s) \<Longrightarrow> \<exists>d. deref s a = Some d"
  using deref_None [of s a] by auto

lemma deref_SomeD: "deref s a = Some d \<Longrightarrow> daddr d = a \<and> d \<in> set (displays s)"
  by (auto simp: deref_def dest: find_SomeD)

lemma find_update_where:
  assumes "\<And>d. daddr (f d) = daddr d"
  shows "find (\<lambda>d. daddr d = b) (update_where (\<lambda>d. daddr d = a) f ds) =
    (if a = b then map_option f (find (\<lambda>d. daddr d = b) ds) else find (\<lambda>d. daddr d = b) ds)"
  using assms by (induction ds) auto

lemma deref_setD:
  assumes "\<And>d. daddr (f d) = daddr d"
  shows "deref (setD a f s) b = (if a = b then map_option f (deref s b) else deref s b)"
  using find_update_where [OF assms] by (simp add: deref_def setD_def)

lemma live_setD: "(\<And>d. daddr (f d) = daddr d) \<Longrightarrow> live (setD a f s) = live s"
  by (simp add: live_def setD_def map_update_where)

lemma act_simps [simp]:
  "displays (act e s) = displays s" "disphists (act e s) = disphists s"
  "nextAddr (act e s) = nextAddr s" "startingServer (act e s) = startingServer s"
  "serverTimeout (act e s) = serverTimeout s" "stopping (act e s) = stopping s"
  "sdRec (act e s) = sdRec s" "now (act e s) = now s" "utmpList (act e s) = utmpList s"
  "forks (act e s) = forks s" "live (act e s) = live s" "deref (act e s) a = deref s a"
  by (simp_all add: act_def live_def deref_def)

lemma terminateProcess_simps [simp]:
  "displays (terminateProcess p g s) = displays s" "disphists (terminateProcess p g s) = disphists s"
  "nextAddr (terminateProcess p g s) = nextAddr s"
  "startingServer (terminateProcess p g s) = startingServer s"
  "serverTimeout (terminateProcess p g s) = serverTimeout s"
  "stopping (terminateProcess p g s) = stopping s" "sdRec (terminateProcess p g s) = sdRec s"
  "now (terminateProcess p g s) = now s" "utmpList (terminateProcess p g s) = utmpList s"
  "forks (terminateProcess p g s) = forks s"
  "live (terminateProcess p g s) = live s" "deref (terminateProcess p g s) a = deref s a"
  by (simp_all add: terminateProcess_def)

end
