(* ===== verification/DpyList.thy ===== *)
theory DpyList
  imports DmState Registry
begin

text \<open>
  The display list, \<^verbatim>\<open>kdm/backend/dpylist.c\<close>: queries, the walks that call a function for
  every display, lookup, creation and removal, and the display history, whose entries
  outlive the displays and are found by name.
\<close>

section \<open>Queries\<close>

definition anyDisplaysLeft :: "dm \<Rightarrow> bool" where
  "anyDisplaysLeft s \<longleftrightarrow> displays s \<noteq> []"

fun countsAsRunning :: "displayStatus \<Rightarrow> bool" where
  "countsAsRunning notRunning = False"
| "countsAsRunning textMode = False"
| "countsAsRunning reserve = False"
| "countsAsRunning _ = True"

definition anyRunningDisplays :: "dm \<Rightarrow> bool" where
  "anyRunningDisplays s \<longleftrightarrow> list_ex (\<lambda>d. countsAsRunning (status d)) (displays s)"

definition anyReserveDisplays :: "dm \<Rightarrow> bool" where
  "anyReserveDisplays s \<longleftrightarrow> list_ex (\<lambda>d. lifetime d = dReserve) (displays s)"

definition idleReserveDisplays :: "dm \<Rightarrow> nat" where
  "idleReserveDisplays s = length (filter (\<lambda>d. status d = reserve) (displays s))"

text \<open>The loop keeps the last display in reserve, which is then started.\<close>

definition startReserveDisplay :: "dm \<Rightarrow> bool \<times> dm" where
  "startReserveDisplay s =
     (case find (\<lambda>d. status d = reserve) (rev (displays s)) of
        None \<Rightarrow> (False, s)
      | Some rd \<Rightarrow> (True, setD (daddr rd) (\<lambda>d. d\<lparr>status := notRunning\<rparr>) s))"

section \<open>Walks\<close>

text \<open>
  The walk reads the next pointer before it calls the function, so a function that removes
  the display it is called for is fine; the addresses are those on the list at the start.
\<close>

fun walk :: "(addr \<Rightarrow> dm \<Rightarrow> dm option) \<Rightarrow> addr list \<Rightarrow> dm \<Rightarrow> dm option" where
  "walk f [] s = Some s"
| "walk f (a # as) s = do { s' \<leftarrow> f a s; walk f as s' }"

definition forEachDisplay :: "(addr \<Rightarrow> dm \<Rightarrow> dm option) \<Rightarrow> dm \<Rightarrow> dm option" where
  "forEachDisplay f s = walk f (live s) s"

definition forEachDisplayRev :: "(addr \<Rightarrow> dm \<Rightarrow> dm option) \<Rightarrow> dm \<Rightarrow> dm option" where
  "forEachDisplayRev f s = walk f (rev (live s)) s"

section \<open>Lookup\<close>

definition findDisplayByName :: "string \<Rightarrow> dm \<Rightarrow> addr option" where
  "findDisplayByName n s = map_option daddr (find (\<lambda>d. n = dname d) (displays s))"

definition findDisplayByPid :: "int \<Rightarrow> dm \<Rightarrow> addr option" where
  "findDisplayByPid p s = map_option daddr (find (\<lambda>d. p = dpid d) (displays s))"

definition findDisplayByServerPid :: "int \<Rightarrow> dm \<Rightarrow> addr option" where
  "findDisplayByServerPid p s = map_option daddr (find (\<lambda>d. p = serverPid d) (displays s))"

definition findDisplayBySessionID :: "32 word \<Rightarrow> dm \<Rightarrow> addr option" where
  "findDisplayBySessionID i s = map_option daddr (find (\<lambda>d. i = sessionID d) (displays s))"

definition findDisplayByAddress :: "sockaddr \<Rightarrow> nat \<Rightarrow> 16 word \<Rightarrow> dm \<Rightarrow> addr option" where
  "findDisplayByAddress sa len dn s =
     map_option daddr (find (\<lambda>d. origin d = dFromXDMCP \<and> displayNumber d = dn
        \<and> (case peerAddr d of Some (p, l) \<Rightarrow> addressEqual p l sa len | None \<Rightarrow> False)) (displays s))"

section \<open>Creation and removal\<close>

definition unlinkIf :: "string option \<Rightarrow> dm \<Rightarrow> dm" where
  "unlinkIf f s = (case f of Some n \<Rightarrow> act (Unlink n) s | None \<Rightarrow> s)"

definition removeDisplay :: "addr \<Rightarrow> dm \<Rightarrow> dm" where
  "removeDisplay old s =
     (case deref s old of
        None \<Rightarrow> s
      | Some d \<Rightarrow>
          unlinkIf (greeterAuthFile d) (unlinkIf (authFile d)
            (s\<lparr>displays := remove_first (\<lambda>x. daddr x = old) (displays s)\<rparr>)))"

definition findHist :: "string \<Rightarrow> dm \<Rightarrow> disphist option" where
  "findHist n s = find (\<lambda>h. hname h = n) (disphists s)"

definition emptyHist :: "string \<Rightarrow> disphist" where
  "emptyHist n = \<lparr>hname = n, lastExit = 0, rLogin = 0, lock = False, goodExit = False,
     nuser = None, npass = None, nargs = None\<rparr>"

definition setHist :: "string \<Rightarrow> (disphist \<Rightarrow> disphist) \<Rightarrow> dm \<Rightarrow> dm" where
  "setHist n f s = s\<lparr>disphists := update_where (\<lambda>h. hname h = n) f (disphists s)\<rparr>"

definition emptyConf :: dpyConf where
  "emptyConf = \<lparr>reqSrvVT = 0, serverAttempts = 0, openDelay = 0, cfgServerTimeout = 0,
     startAttempts = 0, terminateServer = False, authorize = False, resetForAuth = False,
     allowShutdown = SHUT_NONE, allowNuke = SHUT_NONE, pingInterval = 0\<rparr>"

definition emptyDisplay :: "addr \<Rightarrow> string \<Rightarrow> display" where
  "emptyDisplay a n = \<lparr>daddr = a, dname = n, class2 = None, displayType = 0,
     status = notRunning, zstatus = 0, dpid = -1, serverPid = -1, serverVT = 0,
     follower = None, serverStatus = ignore, lastStart = 0, startTries = 0,
     stillThere = False, userSess = -1, userName = None, sessName = None,
     dSdRec = sdRec0, ctrlOpen = False, pipesOpen = False, remoteHost = None,
     sessionID = 0, peerAddr = None, displayNumber = 0, useChooserFlag = False,
     clientAddr = [], clientPort = [], connectionType = 0, authorizations = [],
     authFile = None, greeterAuthFile = None, conf = emptyConf\<rparr>"

text \<open>
  \<open>newDisplay\<close> puts the display in front; \<open>mok\<close> says which of its three allocations (history
  entry, name, display) succeed.
\<close>

definition newDisplay :: "(nat \<Rightarrow> bool) \<Rightarrow> string \<Rightarrow> dm \<Rightarrow> addr option \<times> dm" where
  "newDisplay mok n s =
     (let hit = findHist n s in
      if hit = None \<and> (\<not> mok 0 \<or> \<not> mok 1) then (None, s)
      else
        let s = (if hit = None then s\<lparr>disphists := emptyHist n # disphists s\<rparr> else s) in
        if \<not> mok 2 then (None, s)
        else (Some (nextAddr s),
          s\<lparr>displays := emptyDisplay (nextAddr s) n # displays s, nextAddr := nextAddr s + 1\<rparr>))"

definition displayName :: "display \<Rightarrow> string" where
  "displayName d = (if prefix ''localhost:'' (dname d) then drop 9 (dname d) else dname d)"

text \<open>The daemon before anything was read: the static initialisers of the sources.\<close>

definition initDm :: dm where
  "initDm = \<lparr>displays = [], disphists = [], nextAddr = 0, startingServer = None,
     serverTimeout = TO_INF, stopping = False,
     sdRec = sdRec0\<lparr>start := TO_INF, timeout := TO_INF\<rparr>, now = 0, utmpList = None,
     utmpTimeout = TO_INF, utmpModtim = 0, utmpMtime = None, utmpFile = [], consoleTTYs = [],
     serverVTs = [], busyVTs = 0, activeVT = 1, listening = False, requestPort = 177,
     choices = [], choiceTimeout = 15,
     accLists = \<lparr>hostList = [], listenList = [], aliasList = [], acList = []\<rparr>, lastAccScan = 0, protos = [], nextSession = 0,
     consoleOk = True, passwd = (\<lambda>_. None), memOk = True, junkState = UtDead, forks = [], actions = []\<rparr>"

section \<open>Well-formed lists\<close>

text \<open>
  Addresses are distinct and were given out; every display has its history entry, and
  there is one entry per name.
\<close>

definition wfList :: "dm \<Rightarrow> bool" where
  "wfList s \<longleftrightarrow> distinct (live s) \<and> (\<forall>a \<in> set (live s). a < nextAddr s)
     \<and> (\<forall>d \<in> set (displays s). findHist (dname d) s \<noteq> None)
     \<and> distinct (map hname (disphists s))"

lemma wfList_act [simp]: "wfList (act e s) = wfList s"
  by (simp add: wfList_def findHist_def)

lemma wfList_terminate [simp]: "wfList (terminateProcess p g s) = wfList s"
  by (simp add: terminateProcess_def)

lemma unlinkIf_simps [simp]:
  "displays (unlinkIf f s) = displays s" "live (unlinkIf f s) = live s"
  "wfList (unlinkIf f s) = wfList s" "startingServer (unlinkIf f s) = startingServer s"
  "serverTimeout (unlinkIf f s) = serverTimeout s" "deref (unlinkIf f s) a = deref s a"
  "disphists (unlinkIf f s) = disphists s" "nextAddr (unlinkIf f s) = nextAddr s"
  by (simp_all add: unlinkIf_def split: option.split)

lemma wfList_cong:
  "displays s' = displays s \<Longrightarrow> disphists s' = disphists s \<Longrightarrow> nextAddr s' = nextAddr s \<Longrightarrow>
   wfList s' = wfList s"
  by (simp add: wfList_def live_def findHist_def)

lemma setD_simps [simp]:
  "disphists (setD a f s) = disphists s" "nextAddr (setD a f s) = nextAddr s"
  "startingServer (setD a f s) = startingServer s" "serverTimeout (setD a f s) = serverTimeout s"
  "stopping (setD a f s) = stopping s" "sdRec (setD a f s) = sdRec s" "now (setD a f s) = now s"
  "forks (setD a f s) = forks s" "actions (setD a f s) = actions s" "utmpList (setD a f s) = utmpList s"
  by (simp_all add: setD_def)

lemma wfList_setD:
  assumes "wfList s" and "\<And>d. daddr (f d) = daddr d" and "\<And>d. dname (f d) = dname d"
  shows "wfList (setD a f s)"
  using assms live_setD [of f a s]
  by (auto simp: wfList_def findHist_def) (auto simp: setD_def set_update_where split: if_splits)

lemma setHist_simps [simp]:
  "displays (setHist n f s) = displays s" "live (setHist n f s) = live s"
  "nextAddr (setHist n f s) = nextAddr s" "startingServer (setHist n f s) = startingServer s"
  "serverTimeout (setHist n f s) = serverTimeout s" "stopping (setHist n f s) = stopping s"
  "deref (setHist n f s) a = deref s a" "forks (setHist n f s) = forks s" "now (setHist n f s) = now s"
  "sdRec (setHist n f s) = sdRec s"
  by (simp_all add: setHist_def live_def deref_def)

lemma find_hist_update:
  assumes "\<And>h. hname (f h) = hname h"
  shows "find (\<lambda>h. hname h = m) (update_where (\<lambda>h. hname h = n) f hs) =
    (if m = n then map_option f (find (\<lambda>h. hname h = m) hs) else find (\<lambda>h. hname h = m) hs)"
  using assms by (induction hs) auto

lemma findHist_setHist:
  "(\<And>h. hname (f h) = hname h) \<Longrightarrow>
   findHist m (setHist n f s) = (if m = n then map_option f (findHist m s) else findHist m s)"
  by (simp add: findHist_def setHist_def find_hist_update)

lemma wfList_setHist:
  assumes "wfList s" and "\<And>h. hname (f h) = hname h"
  shows "wfList (setHist n f s)"
proof -
  have "map hname (disphists (setHist n f s)) = map hname (disphists s)"
    using assms(2) by (simp add: setHist_def map_update_where)
  with assms show ?thesis by (auto simp: wfList_def findHist_setHist)
qed

lemma displays_removeDisplay:
  "displays (removeDisplay a s) = remove_first (\<lambda>x. daddr x = a) (displays s)"
proof (cases "deref s a")
  case None
  then have "\<forall>x \<in> set (displays s). daddr x \<noteq> a" by (auto simp: deref_None live_def)
  with None show ?thesis by (simp add: removeDisplay_def remove_first_none)
next
  case (Some d)
  then show ?thesis by (simp add: removeDisplay_def)
qed

lemma removeDisplay_simps [simp]:
  "disphists (removeDisplay a s) = disphists s" "nextAddr (removeDisplay a s) = nextAddr s"
  "startingServer (removeDisplay a s) = startingServer s"
  "serverTimeout (removeDisplay a s) = serverTimeout s"
  by (simp_all add: removeDisplay_def split: option.split)

lemma live_removeDisplay:
  "wfList s \<Longrightarrow> live (removeDisplay a s) = filter (\<lambda>x. x \<noteq> a) (live s)"
  using remove_first_distinct [of daddr "displays s" a]
  by (simp add: live_def displays_removeDisplay wfList_def filter_map comp_def)

lemma wfList_removeDisplay: "wfList s \<Longrightarrow> wfList (removeDisplay a s)"
  using set_remove_first_subset [of "\<lambda>x. daddr x = a" "displays s"]
  by (auto simp: wfList_def live_def findHist_def displays_removeDisplay
      intro: map_remove_first_distinct dest: subsetD)

lemma find_filter_addr:
  "find (\<lambda>d. daddr d = b) (filter (\<lambda>x. daddr x \<noteq> a) ds) =
     (if a = b then None else find (\<lambda>d. daddr d = b) ds)"
  by (induction ds) auto

lemma deref_removeDisplay:
  assumes "wfList s"
  shows "deref (removeDisplay a s) b = (if a = b then None else deref s b)"
proof -
  have "remove_first (\<lambda>x. daddr x = a) (displays s) = filter (\<lambda>x. daddr x \<noteq> a) (displays s)"
    using remove_first_distinct [of daddr "displays s" a] assms by (simp add: wfList_def live_def)
  then show ?thesis
    by (simp only: deref_def displays_removeDisplay find_filter_addr)
qed

lemma emptyDisplay_simps [simp]:
  "daddr (emptyDisplay a n) = a" "dname (emptyDisplay a n) = n"
  "status (emptyDisplay a n) = notRunning" "serverPid (emptyDisplay a n) = -1"
  "dpid (emptyDisplay a n) = -1" "serverStatus (emptyDisplay a n) = ignore"
  by (simp_all add: emptyDisplay_def)

lemma hname_emptyHist [simp]: "hname (emptyHist n) = n"
  by (simp add: emptyHist_def)

lemma newDisplay_None:
  "newDisplay mok n s = (None, s') \<Longrightarrow> displays s' = displays s \<and> nextAddr s' = nextAddr s"
  by (auto simp: newDisplay_def Let_def split: if_splits)

lemma newDisplay_Some:
  assumes "newDisplay mok n s = (Some a, s')"
  shows "a = nextAddr s" and "displays s' = emptyDisplay a n # displays s"
    and "nextAddr s' = nextAddr s + 1"
    and "deref s' a = Some (emptyDisplay a n)"
    and "findDisplayByName n s' = Some a"
  using assms by (auto simp: newDisplay_def Let_def deref_def findDisplayByName_def split: if_splits)

lemma disphists_newDisplay:
  "newDisplay mok n s = (r, s') \<Longrightarrow> disphists s' = disphists s \<and> (r \<noteq> None \<longrightarrow> findHist n s \<noteq> None)
   \<or> disphists s' = emptyHist n # disphists s \<and> findHist n s = None"
  by (auto simp: newDisplay_def Let_def split: if_splits)

lemma findHist_Cons:
  "disphists s' = emptyHist n # disphists s \<Longrightarrow>
   findHist m s' = (if m = n then Some (emptyHist n) else findHist m s)"
  by (simp add: findHist_def)

lemma findHist_None: "findHist n s = None \<longleftrightarrow> n \<notin> hname ` set (disphists s)"
  by (auto simp: findHist_def find_None_iff)

lemma distinct_hists_newDisplay:
  assumes "wfList s" and "newDisplay mok n s = (r, s')"
  shows "distinct (map hname (disphists s'))"
  using assms(1) disphists_newDisplay [OF assms(2)] by (auto simp: wfList_def findHist_None)

lemma findHist_newDisplay:
  assumes "newDisplay mok n s = (r, s')" and "findHist m s \<noteq> None \<or> m = n \<and> r \<noteq> None"
  shows "findHist m s' \<noteq> None"
  using disphists_newDisplay [OF assms(1)] assms(2)
  by (auto simp: findHist_Cons) (auto simp: findHist_def)

lemma newDisplay_wf:
  assumes wf: "wfList s" and nd: "newDisplay mok n s = (r, s')"
  shows "wfList s'"
proof (cases r)
  case None
  then have "displays s' = displays s" "nextAddr s' = nextAddr s"
    using newDisplay_None nd by blast+
  moreover have "\<forall>d \<in> set (displays s). findHist (dname d) s' \<noteq> None"
    using findHist_newDisplay [OF nd] wf by (auto simp: wfList_def)
  ultimately show ?thesis
    using wf distinct_hists_newDisplay [OF wf nd] by (simp add: wfList_def live_def)
next
  case (Some a)
  note nd' = newDisplay_Some [OF nd [unfolded Some]]
  have hist: "\<forall>d \<in> set (displays s'). findHist (dname d) s' \<noteq> None"
    using findHist_newDisplay [OF nd] wf Some unfolding nd'(2) by (auto simp: wfList_def)
  have "live s' = nextAddr s # live s" using nd'(1,2) by (simp add: live_def)
  moreover have "nextAddr s \<notin> set (live s)" using wf by (auto simp: wfList_def)
  ultimately show ?thesis
    using wf hist distinct_hists_newDisplay [OF wf nd] nd'(3) by (auto simp: wfList_def)
qed

lemma walk_inv:
  assumes "\<And>a s. I s \<Longrightarrow> \<exists>s'. f a s = Some s' \<and> I s'" and "I s"
  shows "\<exists>s'. walk f as s = Some s' \<and> I s'"
  using assms(2)
proof (induction as arbitrary: s)
  case (Cons a as)
  with assms(1) [of s a] show ?case by auto
qed simp

text \<open>
  A walk whose function keeps an invariant, never removes another display than its own and
  never fails on a live one.
\<close>

lemma walk_live:
  assumes step: "\<And>a s. I s \<Longrightarrow> a \<in> set (live s) \<Longrightarrow>
      \<exists>s'. f a s = Some s' \<and> I s' \<and> set (live s) - {a} \<subseteq> set (live s')"
    and "I s" and "distinct as" and "set as \<subseteq> set (live s)"
  shows "\<exists>s'. walk f as s = Some s' \<and> I s'"
  using assms(2-4)
proof (induction as arbitrary: s)
  case Nil
  then show ?case by simp
next
  case (Cons a as)
  then obtain s' where s': "f a s = Some s'" "I s'" "set (live s) - {a} \<subseteq> set (live s')"
    using step [of s a] by auto
  with Cons.prems have "set as \<subseteq> set (live s')" by auto
  with Cons s' show ?case by auto
qed

end
