(* ===== verification/DmStop.thy ===== *)
theory DmStop
  imports DpyList CStrings
begin

text \<open>
  Stopping displays and console mode: \<^verbatim>\<open>abortStartServer\<close> of \<^verbatim>\<open>kdm/backend/server.c\<close>, and from
  \<^verbatim>\<open>kdm/backend/dm.c\<close> the utmp watcher, the switch to text mode, remote login,
  \<^verbatim>\<open>rStopDisplay\<close>, \<^verbatim>\<open>exitDisplay\<close> and \<^verbatim>\<open>stoppen\<close>. The configuration is that of Linux
  (\<^verbatim>\<open>HAVE_VTS\<close>, no \<^verbatim>\<open>BSD_UTMP\<close>) with XDMCP.
\<close>

section \<open>Numbers in terminal names\<close>

text \<open>\<open>atoi\<close> and \<open>strtoul (.., 16)\<close> of the C library on the numbers that occur here.\<close>

definition digitOf :: "char \<Rightarrow> nat option" where
  "digitOf c = (let n = of_char c in if 48 \<le> n \<and> n \<le> 57 then Some (n - 48) else None)"

definition hexOfChar :: "char \<Rightarrow> nat option" where
  "hexOfChar c = (let n = of_char c in
     if 48 \<le> n \<and> n \<le> 57 then Some (n - 48)
     else if 97 \<le> n \<and> n \<le> 102 then Some (n - 87)
     else if 65 \<le> n \<and> n \<le> 70 then Some (n - 55) else None)"

fun digits :: "(char \<Rightarrow> nat option) \<Rightarrow> nat \<Rightarrow> nat \<Rightarrow> string \<Rightarrow> nat" where
  "digits f b acc [] = acc"
| "digits f b acc (c # cs) = (case f c of None \<Rightarrow> acc | Some d \<Rightarrow> digits f b (b * acc + d) cs)"

definition atoi :: "string \<Rightarrow> int" where
  "atoi s = (let s = dropWhile isspace s in
     if peek s = CHR ''-'' then - int (digits digitOf 10 0 (tl s))
     else if peek s = CHR ''+'' then int (digits digitOf 10 0 (tl s))
     else int (digits digitOf 10 0 s))"

definition TTYtoVT :: "string \<Rightarrow> int" where
  "TTYtoVT tty =
     (if prefix ''ttyv'' tty then int (digits hexOfChar 16 0 (drop 4 tty))
      else if prefix ''tty'' tty then atoi (drop 3 tty)
      else 0)"

section \<open>Watching utmp\<close>

text \<open>\<open>abortStartServer\<close>.\<close>

definition abortStartServer :: "addr \<Rightarrow> dm \<Rightarrow> dm option" where
  "abortStartServer a s =
     (if startingServer s = Some a then do {
        d \<leftarrow> deref s a;
        let s = (if serverStatus d \<noteq> ignore
                 then (setD a (\<lambda>d. d\<lparr>serverStatus := ignore\<rparr>) s)\<lparr>serverTimeout := TO_INF\<rparr>
                 else s);
        Some (s\<lparr>startingServer := None\<rparr>)
      } else Some s)"

definition wakeDisplay :: "addr \<Rightarrow> dm \<Rightarrow> dm option" where
  "wakeDisplay a s = do {
     d \<leftarrow> deref s a;
     Some (if status d = textMode
       then setD a (\<lambda>d. d\<lparr>status := (if lifetime d = dReserve then reserve else notRunning)\<rparr>) s
       else s) }"

definition wakeDisplays :: "dm \<Rightarrow> dm option" where
  "wakeDisplays s = do { s \<leftarrow> forEachDisplay wakeDisplay s; Some (s\<lparr>utmpList := None\<rparr>) }"

abbreviation TIME_LOG :: int where "TIME_LOG \<equiv> 40"
abbreviation TIME_RELOG :: int where "TIME_RELOG \<equiv> 10"

text \<open>\<open>strncmp (a, b, 32) == 0\<close>.\<close>

definition sameLine :: "string \<Rightarrow> string \<Rightarrow> bool" where
  "sameLine a b \<longleftrightarrow> take 32 a = take 32 b"

text \<open>One utmp entry; a record that is active already is left alone by a login prompt.\<close>

definition updUtmp :: "utmpEntry \<Rightarrow> utmps \<Rightarrow> utmps" where
  "updUtmp e u =
     (if \<not> utIsUser e \<and> utState u = UtActive then u
      else
        let u = (if \<not> utIsUser e then u\<lparr>utState := UtWait\<rparr>
                 else u\<lparr>hadSess := True, utState := UtActive\<rparr>)
        in if utTime u < utEntTime e then u\<lparr>utTime := utEntTime e\<rparr> else u)"

fun scanUtmp :: "string list \<Rightarrow> utmpEntry list \<Rightarrow> utmps \<Rightarrow> utmps" where
  "scanUtmp ttys [] u = u"
| "scanUtmp ttys (e # es) u =
     scanUtmp ttys es (if list_ex (\<lambda>l. sameLine l (utLine e)) ttys then updUtmp e u else u)"

definition utmpEnds :: "utmps \<Rightarrow> int" where
  "utmpEnds u = utTime u + (if hadSess u then TIME_RELOG else TIME_LOG)"

text \<open>The file is read only when its modification time changed.\<close>

definition rescanUtmp :: "int \<Rightarrow> utmps \<Rightarrow> dm \<Rightarrow> utmps \<times> dm" where
  "rescanUtmp mt u s =
     (if utmpModtim s \<noteq> mt
      then (scanUtmp (consoleTTYs s) (utmpFile s) (u\<lparr>utState := UtDead\<rparr>), s\<lparr>utmpModtim := mt\<rparr>)
      else (u, s))"

definition judgeUtmp :: "utmps \<Rightarrow> dm \<Rightarrow> dm option" where
  "judgeUtmp u s =
     (let u = (if utState u = UtDead then u\<lparr>utTime := 0\<rparr> else u) in
      if utState u \<noteq> UtActive \<and> utmpEnds u \<le> now s
      then wakeDisplays (s\<lparr>utmpList := Some u\<rparr>)
      else
        let nck = (if utState u \<noteq> UtActive then utmpEnds u else TIME_RELOG + now s)
        in Some (s\<lparr>utmpList := Some u, utmpTimeout := min nck (utmpTimeout s)\<rparr>))"

definition checkUtmp :: "dm \<Rightarrow> dm option" where
  "checkUtmp s =
     (case utmpList s of
        None \<Rightarrow> Some s
      | Some u \<Rightarrow>
          (case utmpMtime s of
             None \<Rightarrow> wakeDisplays s
           | Some mt \<Rightarrow> (case rescanUtmp mt u s of (u, s) \<Rightarrow> judgeUtmp u s)))"

definition activateVT :: "int \<Rightarrow> dm \<Rightarrow> dm" where
  "activateVT vt s = (if consoleOk s then act (ActivateVT vt) s else s)"

definition switchToTTY :: "dm \<Rightarrow> dm option" where
  "switchToTTY s =
     (if \<not> memOk s then wakeDisplays s
      else do {
        s \<leftarrow> checkUtmp (s\<lparr>utmpList :=
               Some \<lparr>utTime = now s, utState = junkState s, hadSess = False\<rparr>\<rparr>);
        (case consoleTTYs s of
           [] \<Rightarrow> None
         | tty # _ \<Rightarrow>
             let vt = TTYtoVT tty in Some (if vt \<noteq> 0 then activateVT vt s else s)) })"

definition checkTTYMode :: "dm \<Rightarrow> dm option" where
  "checkTTYMode s =
     (if list_ex (\<lambda>d. status d = zombie) (displays s) then Some s else switchToTTY s)"

section \<open>Stopping a display\<close>

definition startRemoteLogin :: "addr \<Rightarrow> dm \<Rightarrow> dm option" where
  "startRemoteLogin a s = do {
     _ \<leftarrow> deref s a;
     let (pid, s) = takeFork s;
     let s = setD a (\<lambda>d. d\<lparr>serverPid := pid\<rparr>) s;
     Some (setD a (\<lambda>d. d\<lparr>status := (if pid = -1 then notRunning else remoteLogin)\<rparr>) s) }"

definition rStopDisplay :: "addr \<Rightarrow> int \<Rightarrow> dm \<Rightarrow> dm option" where
  "rStopDisplay a endState s = do {
     s \<leftarrow> abortStartServer a s;
     d \<leftarrow> deref s a;
     if serverPid d \<noteq> -1 \<or> dpid d \<noteq> -1 then
       let s = (if dpid d \<noteq> -1 then terminateProcess (dpid d) SIGTERM s else s);
           s = (if serverPid d \<noteq> -1 then terminateProcess (serverPid d) SIGTERM s else s)
       in Some (setD a (\<lambda>d. d\<lparr>status := zombie, zstatus := and endState DS_MASK\<rparr>) s)
     else if endState = DS_TEXTMODE then
       checkTTYMode (setD a (\<lambda>d. d\<lparr>status := textMode\<rparr>) s)
     else if endState = or DS_TEXTMODE DS_SCHEDULE then
       Some (setD a (\<lambda>d. d\<lparr>status := textMode\<rparr>) s)
     else if endState = DS_RESERVE then
       Some (setHist (dname d) (\<lambda>h. h\<lparr>lastExit := 0\<rparr>) (setD a (\<lambda>d. d\<lparr>status := reserve\<rparr>) s))
     else if endState = DS_REMOTE then startRemoteLogin a s
     else Some (removeDisplay a s) }"

definition stopDisplay :: "addr \<Rightarrow> dm \<Rightarrow> dm option" where
  "stopDisplay a s = rStopDisplay a DS_REMOVE s"

definition stopToTTY :: "addr \<Rightarrow> dm \<Rightarrow> dm option" where
  "stopToTTY a s = do {
     d \<leftarrow> deref s a;
     if isLocal d \<and> status d \<noteq> reserve \<and> status d \<noteq> textMode
     then rStopDisplay a (or DS_TEXTMODE DS_SCHEDULE) s
     else Some s }"

definition stopInactiveDisplay :: "addr \<Rightarrow> dm \<Rightarrow> dm option" where
  "stopInactiveDisplay a s = do {
     d \<leftarrow> deref s a;
     if status d \<noteq> remoteLogin \<and> userSess d < 0 then stopDisplay a s else Some s }"

definition stoppen :: "bool \<Rightarrow> dm \<Rightarrow> dm option" where
  "stoppen frc s = do {
     let s = act StopListening (s\<lparr>requestPort := 0, listening := False\<rparr>);
     s \<leftarrow> (if frc then forEachDisplay stopDisplay s else forEachDisplay stopInactiveDisplay s);
     Some (s\<lparr>stopping := True\<rparr>) }"

section \<open>The end of a session\<close>

definition sessionDone :: "addr \<Rightarrow> dm \<Rightarrow> dm" where
  "sessionDone a s = setD a (\<lambda>d. d\<lparr>userSess := -1, userName := None, sessName := None\<rparr>) s"

text \<open>\<open>oks\<close>: the outcomes of the three allocations; a failed \<open>reStr\<close> leaves NULL behind.\<close>

definition setNLogin :: "bool \<times> bool \<times> bool \<Rightarrow> string \<Rightarrow> string option \<Rightarrow> string option
    \<Rightarrow> string option \<Rightarrow> 2 word \<Rightarrow> dm \<Rightarrow> dm" where
  "setNLogin oks n user pass args rl s =
     (case oks of (ok1, ok2, ok3) \<Rightarrow>
      setHist n (\<lambda>h.
        let (r1, u) = reStr ok1 (nuser h) user in
        if r1 = 0 then h\<lparr>nuser := u, rLogin := 0\<rparr>
        else let (r2, p) = reStr ok2 (npass h) pass in
        if r2 = 0 then h\<lparr>nuser := u, npass := p, rLogin := 0\<rparr>
        else let (r3, g) = reStr ok3 (nargs h) args in
        h\<lparr>nuser := u, npass := p, nargs := g, rLogin := (if r3 \<noteq> 0 then rl else 0)\<rparr>) s)"

datatype serverCmd = XS_KEEP | XS_RESTART | XS_RETRY

definition restartDisplay :: "addr \<Rightarrow> serverCmd \<Rightarrow> dm \<Rightarrow> dm option" where
  "restartDisplay a serverCmd s = do {
     d \<leftarrow> deref s a;
     if serverPid d \<noteq> -1 \<and> (serverCmd \<noteq> XS_KEEP \<or> terminateServer (conf d)) then
       Some (setD a (\<lambda>d. d\<lparr>status := phoenix\<rparr>) (terminateProcess (serverPid d) SIGTERM s))
     else Some (setD a (\<lambda>d. d\<lparr>status := notRunning\<rparr>) s) }"

definition exitDisplay :: "addr \<Rightarrow> int \<Rightarrow> serverCmd \<Rightarrow> bool \<Rightarrow> dm \<Rightarrow> dm option" where
  "exitDisplay a endState serverCmd good s = do {
     d \<leftarrow> deref s a;
     let serverCmd = (if status d = raiser then XS_KEEP else serverCmd);
     let good = (if status d = raiser then True else good);
     let s = sessionDone a s;
     let s = setHist (dname d) (\<lambda>h. h\<lparr>lastExit := now s, goodExit := good\<rparr>) s;
     let endState = (if how (sdRec s) \<noteq> 0 \<and> start (sdRec s) = TO_INF then DS_REMOVE else endState);
     if status d = zombie then rStopDisplay a (zstatus d) s
     else if stopping s then stopDisplay a s
     else if endState \<noteq> DS_RESTART \<or> lifetime d = dTransient then rStopDisplay a endState s
     else if serverCmd = XS_RETRY then
       (if isLocal d then
          (if now s - lastStart d < 120 then stopDisplay a s else restartDisplay a serverCmd s)
        else
          let s = setD a (\<lambda>d. d\<lparr>startTries := startTries d + 1\<rparr>) s in
          if startTries d + 1 > startAttempts (conf d) then stopDisplay a s
          else restartDisplay a serverCmd s)
     else restartDisplay a serverCmd (setD a (\<lambda>d. d\<lparr>startTries := 0\<rparr>) s) }"

end
