(* ===== verification/DmInv.thy ===== *)
theory DmInv
  imports DmStop
begin

text \<open>
  The invariant of the master daemon and the proof that the operations of \<open>DmStop\<close> keep it.
  \<open>okStat\<close> relates the status of a display to its processes, \<open>okW\<close> is the part of it that
  also holds between the steps of one handler, \<open>ok\<close> adds the display whose X server is being
  started, its timeout and the signals sent so far: none goes to a process id below 1
  (\<open>kill (-1, ..)\<close> would signal every process of the machine).
\<close>

section \<open>The invariant\<close>

definition okPid :: "int \<Rightarrow> bool" where
  "okPid p \<longleftrightarrow> p = -1 \<or> 0 < p"

definition okW :: "display \<Rightarrow> bool" where
  "okW d \<longleftrightarrow> okPid (serverPid d) \<and> okPid (dpid d)
     \<and> (serverStatus d \<noteq> ignore \<longrightarrow> status d = running \<and> dpid d = -1)
     \<and> (serverStatus d = awaiting \<longrightarrow> serverPid d = -1)"

fun okFor :: "displayStatus \<Rightarrow> display \<Rightarrow> bool" where
  "okFor running d = True"
| "okFor raiser d = True"
| "okFor zombie d = (serverPid d \<noteq> -1 \<or> dpid d \<noteq> -1)"
| "okFor phoenix d = (serverPid d \<noteq> -1 \<and> dpid d = -1)"
| "okFor textMode d = (serverPid d = -1 \<and> dpid d = -1)"
| "okFor reserve d = (dpid d = -1)"
| "okFor notRunning d = (dpid d = -1)"
| "okFor remoteLogin d = (dpid d = -1)"

definition okStat :: "display \<Rightarrow> bool" where
  "okStat d \<longleftrightarrow> okFor (status d) d
     \<and> (serverStatus d \<in> {starting, terminated, killed} \<longrightarrow> serverPid d \<noteq> -1)"

definition isStarting :: "display \<Rightarrow> bool" where
  "isStarting d \<longleftrightarrow> serverStatus d \<in> {starting, terminated, killed, pausing}"

definition okKill :: "action \<Rightarrow> bool" where
  "okKill e \<longleftrightarrow> (case e of Kill p g \<Rightarrow> 0 < p | _ \<Rightarrow> True)"

definition okStarting :: "dm \<Rightarrow> bool" where
  "okStarting s \<longleftrightarrow>
     (\<forall>a. startingServer s = Some a \<longrightarrow> (\<exists>d. deref s a = Some d))
   \<and> (\<forall>a d. deref s a = Some d \<and> isStarting d \<longrightarrow> startingServer s = Some a)
   \<and> (serverTimeout s \<noteq> TO_INF \<longrightarrow>
        (\<exists>a d. startingServer s = Some a \<and> deref s a = Some d \<and> isStarting d))"

definition okBut :: "addr option \<Rightarrow> dm \<Rightarrow> bool" where
  "okBut x s \<longleftrightarrow> wfList s \<and> okStarting s
     \<and> (\<forall>a d. deref s a = Some d \<longrightarrow> okW d \<and> (x \<noteq> Some a \<longrightarrow> okStat d))
     \<and> (\<forall>p \<in> set (forks s). okPid p) \<and> (\<forall>e \<in> set (actions s). okKill e)"

definition ok :: "dm \<Rightarrow> bool" where
  "ok s \<longleftrightarrow> okBut None s"

lemma ok_okBut: "ok s \<Longrightarrow> okBut x s"
  by (auto simp: ok_def okBut_def)

lemma okKill_simps [simp]:
  "okKill (Kill p g) = (0 < p)" "okKill (Unlink n)" "okKill (ActivateVT v)"
  "okKill (DisallocateVT v)" "okKill (SendFailed a r)" "okKill (OpenCtrl a)"
  "okKill (CloseCtrl a)" "okKill (WriteAuth a)" "okKill StopListening" "okKill (Answer t)"
  by (simp_all add: okKill_def)

lemma okStarting_cong:
  "deref s' = deref s \<Longrightarrow> startingServer s' = startingServer s \<Longrightarrow>
   serverTimeout s' = serverTimeout s \<Longrightarrow> okStarting s' = okStarting s"
  by (simp add: okStarting_def)

lemma okBut_act [simp]: "okBut x (act e s) \<longleftrightarrow> okBut x s \<and> okKill e"
  by (auto simp: okBut_def okStarting_def) (auto simp: act_def)

lemma ok_act [simp]: "ok (act e s) \<longleftrightarrow> ok s \<and> okKill e"
  by (simp add: ok_def)

lemma okBut_terminate [simp]:
  "okBut x (terminateProcess p g s) \<longleftrightarrow> okBut x s \<and> 0 < p"
  by (auto simp: terminateProcess_def)

lemma okBut_setHist: "(\<And>h. hname (f h) = hname h) \<Longrightarrow> okBut x (setHist n f s) = okBut x s"
proof -
  assume f: "\<And>h. hname (f h) = hname h"
  have "map hname (disphists (setHist n f s)) = map hname (disphists s)"
    using f by (simp add: setHist_def map_update_where)
  then have "wfList (setHist n f s) = wfList s"
    using f by (auto simp: wfList_def findHist_setHist)
  then show ?thesis
    by (simp add: okBut_def okStarting_def) (simp add: setHist_def)
qed

text \<open>
  A change of fields the invariant does not read.
\<close>

lemma okBut_cong:
  assumes "displays s' = displays s" "disphists s' = disphists s" "nextAddr s' = nextAddr s"
    "startingServer s' = startingServer s" "serverTimeout s' = serverTimeout s"
    "forks s' = forks s" "actions s' = actions s"
  shows "okBut x s' = okBut x s"
proof -
  have "deref s' = deref s" using assms(1) by (intro ext) (simp add: deref_def)
  then show ?thesis
    using assms wfList_cong [of s' s] by (simp add: okBut_def okStarting_def)
qed

text \<open>A change of one display.\<close>

lemma okBut_setD:
  assumes ok: "okBut x s" and xa: "x = None \<or> x = Some a" and d: "deref s a = Some d"
    and f: "\<And>d. daddr (f d) = daddr d" "\<And>d. dname (f d) = dname d"
    and new: "okW (f d)" "y = None \<longrightarrow> okStat (f d)" "y = None \<or> y = Some a"
    and st: "isStarting (f d) = isStarting d"
  shows "okBut y (setD a f s)"
proof -
  have dr: "deref (setD a f s) b = (if a = b then Some (f d) else deref s b)" for b
    using deref_setD [of f a s b] f d by (cases "a = b") auto
  have "okStarting s" using ok by (simp add: okBut_def)
  then have "okStarting (setD a f s)"
    using st d by (simp add: okStarting_def dr) fastforce
  moreover have "wfList (setD a f s)"
    using ok f by (intro wfList_setD) (auto simp: okBut_def)
  ultimately show ?thesis
    using ok xa new by (auto simp: okBut_def dr)
qed

lemma okStat_simps [simp]:
  "okFor (status d) d \<Longrightarrow> serverStatus d = ignore \<Longrightarrow> okStat d"
  by (simp add: okStat_def)

section \<open>What stays the same\<close>

text \<open>The configuration, the shutdown state and the clock, which stopping displays leaves alone.\<close>

definition sameEnv :: "dm \<Rightarrow> dm \<Rightarrow> bool" where
  "sameEnv s t \<longleftrightarrow> consoleTTYs t = consoleTTYs s \<and> stopping t = stopping s \<and> sdRec t = sdRec s
     \<and> now t = now s \<and> memOk t = memOk s \<and> serverVTs t = serverVTs s \<and> nextAddr t = nextAddr s
     \<and> accLists t = accLists s \<and> protos t = protos s"

text \<open>The part of it that the handlers of messages keep, too.\<close>

definition sameCfg :: "dm \<Rightarrow> dm \<Rightarrow> bool" where
  "sameCfg s t \<longleftrightarrow> consoleTTYs t = consoleTTYs s \<and> accLists t = accLists s \<and> protos t = protos s"

lemma sameEnv_sameCfg: "sameEnv s t \<Longrightarrow> sameCfg s t"
  by (simp add: sameEnv_def sameCfg_def)

lemma sameCfg_trans [trans]: "sameCfg s t \<Longrightarrow> sameCfg t u \<Longrightarrow> sameCfg s u"
  by (simp add: sameCfg_def)

lemma sameCfg_upd [simp]:
  "sameCfg s s" "sameCfg s (setD a f t) = sameCfg s t" "sameCfg s (act e t) = sameCfg s t"
  "sameCfg s (t\<lparr>sdRec := r\<rparr>) = sameCfg s t" "sameCfg s (t\<lparr>startingServer := x\<rparr>) = sameCfg s t"
  "sameCfg s (setHist n g t) = sameCfg s t" "sameCfg s (t\<lparr>choices := cs\<rparr>) = sameCfg s t"
  by (simp_all add: sameCfg_def setD_def act_def setHist_def)

lemma sameEnv_refl [simp]: "sameEnv s s"
  by (simp add: sameEnv_def)

lemma sameEnv_trans [trans]: "sameEnv s t \<Longrightarrow> sameEnv t u \<Longrightarrow> sameEnv s u"
  by (simp add: sameEnv_def)

lemma sameEnv_upd [simp]:
  "sameEnv s (setD a f t) = sameEnv s t" "sameEnv s (setHist n g t) = sameEnv s t"
  "sameEnv s (act e t) = sameEnv s t" "sameEnv s (terminateProcess p sg t) = sameEnv s t"
  "sameEnv s (t\<lparr>utmpList := u\<rparr>) = sameEnv s t" "sameEnv s (t\<lparr>utmpModtim := m\<rparr>) = sameEnv s t"
  "sameEnv s (t\<lparr>utmpTimeout := to\<rparr>) = sameEnv s t"
  "sameEnv s (t\<lparr>startingServer := x\<rparr>) = sameEnv s t"
  "sameEnv s (t\<lparr>serverTimeout := to\<rparr>) = sameEnv s t" "sameEnv s (t\<lparr>forks := fs\<rparr>) = sameEnv s t"
  by (simp_all add: sameEnv_def setD_def setHist_def act_def terminateProcess_def)

lemma sameEnv_removeDisplay [simp]: "sameEnv s (removeDisplay a t) = sameEnv s t"
  by (simp add: sameEnv_def removeDisplay_def unlinkIf_def act_def split: option.split)

section \<open>Console mode keeps the invariant\<close>

lemma ok_derefD: "ok s \<Longrightarrow> deref s a = Some d \<Longrightarrow> okW d \<and> okStat d"
  by (simp add: ok_def okBut_def)

lemma okBut_derefD: "okBut x s \<Longrightarrow> deref s a = Some d \<Longrightarrow> okW d"
  by (simp add: okBut_def)

lemma ok_wfList: "ok s \<Longrightarrow> wfList s"
  by (simp add: ok_def okBut_def)

lemma wakeDisplay_ok:
  assumes "ok s" and "a \<in> set (live s)"
  shows "\<exists>s'. wakeDisplay a s = Some s' \<and> ok s' \<and> live s' = live s \<and> sameEnv s s'"
proof -
  obtain d where d: "deref s a = Some d" using assms deref_live by blast
  show ?thesis
  proof (cases "status d = textMode")
    case True
    let ?f = "\<lambda>d. d\<lparr>status := (if lifetime d = dReserve then reserve else notRunning)\<rparr>"
    have "okBut None (setD a ?f s)"
    proof (rule okBut_setD [OF _ _ d, of None])
      show "okW (?f d)" "None = None \<longrightarrow> okStat (?f d)"
        using ok_derefD [OF assms(1) d] True by (auto simp: okW_def okStat_def)
    qed (use assms ok_derefD [OF assms(1) d] True in \<open>auto simp: ok_def isStarting_def okW_def\<close>)
    with d True show ?thesis by (simp add: wakeDisplay_def ok_def live_setD)
  next
    case False
    with assms d show ?thesis by (simp add: wakeDisplay_def)
  qed
qed

lemma ok_utmp:
  "ok (s\<lparr>utmpList := u\<rparr>) = ok s" "ok (s\<lparr>utmpModtim := m\<rparr>) = ok s" "ok (s\<lparr>utmpTimeout := t\<rparr>) = ok s"
  "okBut x (s\<lparr>stopping := b\<rparr>) = okBut x s" "okBut x (s\<lparr>requestPort := n\<rparr>) = okBut x s"
  "okBut x (s\<lparr>listening := b\<rparr>) = okBut x s" "okBut x (s\<lparr>sdRec := r\<rparr>) = okBut x s"
  "okBut x (s\<lparr>now := t\<rparr>) = okBut x s"
  unfolding ok_def by (rule okBut_cong; simp)+

lemma live_utmp [simp]:
  "live (s\<lparr>utmpList := u\<rparr>) = live s" "live (s\<lparr>utmpModtim := m\<rparr>) = live s"
  "live (s\<lparr>utmpTimeout := t\<rparr>) = live s" "live (s\<lparr>requestPort := n\<rparr>) = live s"
  "live (s\<lparr>listening := b\<rparr>) = live s" "live (s\<lparr>stopping := b\<rparr>) = live s"
  by (simp_all add: live_def)

lemma wakeDisplays_ok:
  assumes "ok s"
  shows "\<exists>s'. wakeDisplays s = Some s' \<and> ok s' \<and> live s' = live s \<and> sameEnv s s'"
proof -
  have "\<exists>s'. forEachDisplay wakeDisplay s = Some s' \<and> (ok s' \<and> live s' = live s \<and> sameEnv s s')"
    unfolding forEachDisplay_def
  proof (rule walk_live)
    fix a t assume t: "ok t \<and> live t = live s \<and> sameEnv s t" "a \<in> set (live t)"
    then obtain t' where "wakeDisplay a t = Some t'" "ok t'" "live t' = live t" "sameEnv t t'"
      using wakeDisplay_ok by blast
    with t show "\<exists>s'. wakeDisplay a t = Some s' \<and> (ok s' \<and> live s' = live s \<and> sameEnv s s')
        \<and> set (live t) - {a} \<subseteq> set (live s')" by (auto intro: sameEnv_trans)
  qed (use assms in \<open>auto simp: ok_def okBut_def wfList_def\<close>)
  then show ?thesis by (auto simp: wakeDisplays_def ok_utmp)
qed

text \<open>The outcome the lemmas on console mode share.\<close>

definition keeps :: "dm \<Rightarrow> dm option \<Rightarrow> bool" where
  "keeps s r \<longleftrightarrow> (\<exists>s'. r = Some s' \<and> ok s' \<and> live s' = live s \<and> sameEnv s s')"

lemma keepsI: "ok s' \<Longrightarrow> live s' = live s \<Longrightarrow> sameEnv s s' \<Longrightarrow> keeps s (Some s')"
  by (simp add: keeps_def)

lemma keeps_trans: "keeps t r \<Longrightarrow> live t = live s \<Longrightarrow> sameEnv s t \<Longrightarrow> keeps s r"
  by (auto simp: keeps_def intro: sameEnv_trans)

lemma keeps_wakeDisplays: "ok s \<Longrightarrow> keeps s (wakeDisplays s)"
  using wakeDisplays_ok by (simp add: keeps_def)

lemma keeps_judgeUtmp:
  assumes "ok s"
  shows "keeps s (judgeUtmp u s)"
proof -
  have "keeps s (wakeDisplays (s\<lparr>utmpList := v\<rparr>))" for v
    by (rule keeps_trans [OF keeps_wakeDisplays]) (simp_all add: ok_utmp assms)
  moreover have "keeps s (Some (s\<lparr>utmpList := v, utmpTimeout := t\<rparr>))" for v t
    by (rule keepsI) (simp_all add: ok_utmp assms)
  ultimately show ?thesis by (simp add: judgeUtmp_def Let_def)
qed

lemma keeps_checkUtmp:
  assumes "ok s"
  shows "keeps s (checkUtmp s)"
proof -
  have "keeps s (case rescanUtmp mt u s of (u, s) \<Rightarrow> judgeUtmp u s)" for mt u
    using keeps_judgeUtmp [OF assms] keeps_trans [OF keeps_judgeUtmp [of "s\<lparr>utmpModtim := mt\<rparr>"]] assms
    by (simp add: rescanUtmp_def ok_utmp)
  with assms show ?thesis
    by (simp add: checkUtmp_def keeps_wakeDisplays keepsI split: option.split)
qed

lemma keeps_bind:
  assumes "keeps s r" and "\<And>t. ok t \<Longrightarrow> live t = live s \<Longrightarrow> sameEnv s t \<Longrightarrow> keeps s (f t)"
  shows "keeps s (r \<bind> f)"
  using assms by (auto simp: keeps_def)

lemma keeps_switchToTTY:
  assumes "ok s" and "consoleTTYs s \<noteq> []"
  shows "keeps s (switchToTTY s)"
proof (cases "memOk s")
  case False
  with assms show ?thesis by (simp add: switchToTTY_def keeps_wakeDisplays)
next
  case True
  let ?u = "Some \<lparr>utTime = now s, utState = junkState s, hadSess = False\<rparr>"
  have "keeps s (checkUtmp (s\<lparr>utmpList := ?u\<rparr>))"
    by (rule keeps_trans [OF keeps_checkUtmp]) (simp_all add: ok_utmp assms)
  then have "keeps s (checkUtmp (s\<lparr>utmpList := ?u\<rparr>) \<bind> (\<lambda>t. case consoleTTYs t of [] \<Rightarrow> None
      | tty # _ \<Rightarrow> let vt = TTYtoVT tty in Some (if vt \<noteq> 0 then activateVT vt t else t)))"
  proof (rule keeps_bind)
    fix t assume t: "ok t" "live t = live s" "sameEnv s t"
    then obtain tty r where "consoleTTYs t = tty # r"
      using assms(2) by (cases "consoleTTYs t") (auto simp: sameEnv_def)
    with t show "keeps s (case consoleTTYs t of [] \<Rightarrow> None
      | tty # _ \<Rightarrow> let vt = TTYtoVT tty in Some (if vt \<noteq> 0 then activateVT vt t else t))"
      by (auto simp: Let_def activateVT_def intro!: keepsI)
  qed
  with True show ?thesis by (simp add: switchToTTY_def)
qed

lemma keeps_checkTTYMode: "ok s \<Longrightarrow> consoleTTYs s \<noteq> [] \<Longrightarrow> keeps s (checkTTYMode s)"
  using keeps_switchToTTY keepsI [of s s] by (simp add: checkTTYMode_def)

section \<open>Stopping keeps the invariant\<close>

lemma okFor_upd [simp]:
  "okFor t (d\<lparr>serverStatus := i\<rparr>) = okFor t d" "okFor t (d\<lparr>status := u\<rparr>) = okFor t d"
  "okFor t (d\<lparr>zstatus := z\<rparr>) = okFor t d"
  by (cases t; simp)+

text \<open>What \<open>abortStartServer\<close> leaves: the display is not the starting one any more.\<close>

definition aborted :: "addr \<Rightarrow> display \<Rightarrow> dm \<Rightarrow> display" where
  "aborted a d s = (if startingServer s = Some a then d\<lparr>serverStatus := ignore\<rparr> else d)"

lemma aborted_simps [simp]:
  "dpid (aborted a d s) = dpid d" "serverPid (aborted a d s) = serverPid d"
  "status (aborted a d s) = status d" "daddr (aborted a d s) = daddr d"
  "dname (aborted a d s) = dname d" "displayType (aborted a d s) = displayType d"
  by (simp_all add: aborted_def)

lemma okStat_ignore: "okStat d \<Longrightarrow> okStat (d\<lparr>serverStatus := ignore\<rparr>)"
  by (simp add: okStat_def)

lemma abortStartServer_ok:
  assumes ok: "okBut x s" and d: "deref s a = Some d"
  shows "\<exists>s'. abortStartServer a s = Some s' \<and> okBut x s' \<and> startingServer s' \<noteq> Some a
     \<and> deref s' a = Some (aborted a d s) \<and> (\<forall>b. b \<noteq> a \<longrightarrow> deref s' b = deref s b)
     \<and> live s' = live s \<and> sameEnv s s'"
proof (cases "startingServer s = Some a")
  case False
  with ok d show ?thesis by (simp add: abortStartServer_def aborted_def)
next
  case True
  have st: "okStarting s" and wf: "wfList s" using ok by (auto simp: okBut_def)
  define s' where "s' = (if serverStatus d \<noteq> ignore
     then (setD a (\<lambda>d. d\<lparr>serverStatus := ignore\<rparr>) s)\<lparr>serverTimeout := TO_INF\<rparr>
     else s)\<lparr>startingServer := None\<rparr>"
  have dr: "deref s' b = (if b = a then Some (aborted a d s) else deref s b)" for b
    using d True deref_setD [of "\<lambda>d. d\<lparr>serverStatus := ignore\<rparr>" a s b]
    by (auto simp: s'_def aborted_def deref_def)
  have lv: "live s' = live s"
    using live_setD [of "\<lambda>d. d\<lparr>serverStatus := ignore\<rparr>" a s] by (simp add: s'_def live_def)
  have "serverTimeout s' = TO_INF"
    using st True d by (auto simp: s'_def okStarting_def isStarting_def)
  moreover have "\<not> isStarting c" if "deref s' b = Some c" for b c
    using that st True d by (auto simp: dr aborted_def okStarting_def isStarting_def split: if_splits)
  ultimately have "okStarting s'" by (auto simp: okStarting_def s'_def)
  moreover have "wfList s'"
    using wf wfList_setD [of s "\<lambda>d. d\<lparr>serverStatus := ignore\<rparr>" a]
    by (simp add: s'_def wfList_def live_def findHist_def)
  moreover have "okW c \<and> (x \<noteq> Some b \<longrightarrow> okStat c)" if "deref s' b = Some c" for b c
    using that ok d okStat_ignore [of d]
    by (auto simp: dr aborted_def okBut_def okW_def split: if_splits)
  moreover have "forks s' = forks s" "actions s' = actions s" by (simp_all add: s'_def)
  ultimately have "okBut x s'" using ok unfolding okBut_def by metis
  moreover have "abortStartServer a s = Some s'"
    using True d by (simp add: abortStartServer_def s'_def)
  moreover have "startingServer s' \<noteq> Some a" "sameEnv s s'" by (simp_all add: s'_def)
  ultimately show ?thesis using dr lv by simp
qed

lemma okStarting_drop:
  assumes "okStarting s" and "startingServer s \<noteq> Some a"
    and "\<And>b. deref s' b = (if b = a then None else deref s b)"
    and "startingServer s' = startingServer s" "serverTimeout s' = serverTimeout s"
  shows "okStarting s'"
  using assms by (auto simp: okStarting_def)

lemma actions_removeDisplay:
  "\<forall>e \<in> set (actions (removeDisplay a s)). e \<in> set (actions s) \<or> (\<exists>n. e = Unlink n)"
  by (auto simp: removeDisplay_def unlinkIf_def act_def split: option.split)

lemma forks_removeDisplay [simp]: "forks (removeDisplay a s) = forks s"
  by (auto simp: removeDisplay_def unlinkIf_def split: option.split)

lemma removeDisplay_ok:
  assumes "okBut x s" and "x = None \<or> x = Some a" and "startingServer s \<noteq> Some a"
  shows "ok (removeDisplay a s)"
proof -
  have wf: "wfList s" and st: "okStarting s" using assms(1) by (auto simp: okBut_def)
  note dr = deref_removeDisplay [OF wf, of a]
  have dr': "\<And>b. deref (removeDisplay a s) b = (if b = a then None else deref s b)"
    using dr by auto
  have "okStarting (removeDisplay a s)"
    using okStarting_drop [OF st assms(3) dr'] by simp
  moreover have "\<forall>e \<in> set (actions (removeDisplay a s)). okKill e"
    using actions_removeDisplay [of a s] assms(1) by (auto simp: okBut_def)
  ultimately show ?thesis
    using assms wfList_removeDisplay [OF wf, of a] by (auto simp: ok_def okBut_def dr')
qed

lemma okBut_wake:
  assumes "okBut x s" "deref s a = Some d" "x = None \<or> x = Some a" "startingServer s \<noteq> Some a"
    "f = (\<lambda>d. d\<lparr>status := t\<rparr>)" "okW (d\<lparr>status := t\<rparr>)" "okStat (d\<lparr>status := t\<rparr>)"
  shows "ok (setD a f s)"
  unfolding ok_def
  by (rule okBut_setD [OF assms(1,3,2)]) (use assms in \<open>auto simp: isStarting_def\<close>)

lemma takeFork_ok:
  assumes "okBut x s" "takeFork s = (p, s')"
  shows "okBut x s' \<and> okPid p \<and> displays s' = displays s \<and> startingServer s' = startingServer s
     \<and> serverTimeout s' = serverTimeout s \<and> sameEnv s s'"
proof (cases "forks s")
  case Nil
  with assms show ?thesis by (auto simp: takeFork_def okPid_def)
next
  case (Cons q qs)
  with assms(2) have s': "s' = s\<lparr>forks := qs\<rparr>" "p = q" by (auto simp: takeFork_def)
  have "deref s' = deref s" by (intro ext) (simp add: s' deref_def)
  moreover have "wfList s' = wfList s" by (rule wfList_cong) (simp_all add: s')
  ultimately show ?thesis
    using assms Cons by (auto simp: s' okBut_def okStarting_def)
qed

lemma okW_aborted: "okW d \<Longrightarrow> okW (aborted a d s)"
  by (auto simp: okW_def aborted_def)

text \<open>After the abort the display is idle in the server machinery or waits for its turn.\<close>

lemma aborted_status:
  assumes "okBut x s" "deref s a = Some d"
  shows "serverStatus (aborted a d s) \<in> {ignore, awaiting}"
proof (cases "startingServer s = Some a")
  case True
  then show ?thesis by (simp add: aborted_def)
next
  case False
  with assms have "\<not> isStarting d" by (auto simp: okBut_def okStarting_def)
  with False show ?thesis by (cases "serverStatus d") (auto simp: aborted_def isStarting_def)
qed

lemma aborted_awaiting: "serverStatus d \<noteq> awaiting \<Longrightarrow> serverStatus (aborted a d s) \<noteq> awaiting"
  by (simp add: aborted_def)

text \<open>The outcome of stopping display \<open>a\<close>.\<close>

definition stops :: "addr \<Rightarrow> dm \<Rightarrow> dm option \<Rightarrow> bool" where
  "stops a s r \<longleftrightarrow> (\<exists>s'. r = Some s' \<and> ok s' \<and> set (live s) - {a} \<subseteq> set (live s')
     \<and> set (live s') \<subseteq> set (live s) \<and> sameEnv s s')"

lemma stopsI:
  "ok s' \<Longrightarrow> live s' = live s \<or> live s' = filter (\<lambda>b. b \<noteq> a) (live s) \<Longrightarrow> sameEnv s s' \<Longrightarrow> stops a s (Some s')"
  by (auto simp: stops_def)

lemma stops_keeps: "keeps t r \<Longrightarrow> live t = live s \<Longrightarrow> sameEnv s t \<Longrightarrow> stops a s r"
  by (auto simp: keeps_def stops_def intro: sameEnv_trans)

lemma stops_trans: "stops a t r \<Longrightarrow> live t = live s \<Longrightarrow> sameEnv s t \<Longrightarrow> stops a s r"
  by (auto simp: stops_def intro: sameEnv_trans)

lemma startRemoteLogin_ok:
  assumes ok: "okBut x s" "x = None \<or> x = Some a" and d: "deref s a = Some d"
    and st: "startingServer s \<noteq> Some a" and idle: "serverStatus d = ignore" "dpid d = -1"
  shows "stops a s (startRemoteLogin a s)"
proof -
  obtain p s1 where f: "takeFork s = (p, s1)" by fastforce
  note tf = takeFork_ok [OF ok(1) f]
  let ?g = "\<lambda>d. d\<lparr>serverPid := p, status := (if p = -1 then notRunning else remoteLogin)\<rparr>"
  have d1: "deref s1 a = Some d" using d tf by (simp add: deref_def)
  have "okBut None (setD a ?g s1)"
  proof (rule okBut_setD [OF _ ok(2) d1])
    show "okBut x s1" using tf by simp
    show "okW (?g d)" "None = None \<longrightarrow> okStat (?g d)"
      using tf idle by (simp_all add: okW_def okPid_def okStat_def)
  qed (use idle in \<open>simp_all add: isStarting_def\<close>)
  then have "ok (setD a ?g s1)" by (simp add: ok_def)
  moreover have "setD a (\<lambda>d. d\<lparr>status := (if p = -1 then notRunning else remoteLogin)\<rparr>)
      (setD a (\<lambda>d. d\<lparr>serverPid := p\<rparr>) s1) = setD a ?g s1"
    by (simp add: setD_def update_where_def comp_def)
  moreover have "live (setD a ?g s1) = live s" using tf live_setD [of ?g a s1] by (simp add: live_def)
  ultimately show ?thesis
    using d tf by (simp add: startRemoteLogin_def f stopsI)
qed

lemma zombify_ok:
  assumes ok: "okBut x s" "x = None \<or> x = Some a" and d: "deref s a = Some d"
    and st: "serverStatus d = ignore" and proc: "serverPid d \<noteq> -1 \<or> dpid d \<noteq> -1"
  shows "ok (setD a (\<lambda>d. d\<lparr>status := zombie, zstatus := z\<rparr>) s)"
  unfolding ok_def
proof (rule okBut_setD [OF ok d])
  have "okW d" using ok(1) d by (simp add: okBut_def)
  then show "okW (d\<lparr>status := zombie, zstatus := z\<rparr>)"
    "None = None \<longrightarrow> okStat (d\<lparr>status := zombie, zstatus := z\<rparr>)"
    using st proc by (simp_all add: okW_def okStat_def)
qed (use st in \<open>simp_all add: isStarting_def\<close>)

text \<open>The end state a display in the server queue must not be sent to.\<close>

definition parks :: "int \<Rightarrow> bool" where
  "parks es \<longleftrightarrow> es \<in> {DS_TEXTMODE, or DS_TEXTMODE DS_SCHEDULE, DS_RESERVE, DS_REMOTE}"

lemma rStopDisplay_busy:
  assumes "abortStartServer a s = Some s1" "deref s1 a = Some e" "serverPid e \<noteq> -1 \<or> dpid e \<noteq> -1"
  shows "rStopDisplay a es s =
    (let t = (if dpid e \<noteq> -1 then terminateProcess (dpid e) SIGTERM s1 else s1);
         t = (if serverPid e \<noteq> -1 then terminateProcess (serverPid e) SIGTERM t else t)
     in Some (setD a (\<lambda>d. d\<lparr>status := zombie, zstatus := and es DS_MASK\<rparr>) t))"
  using assms by (simp add: rStopDisplay_def)

lemma rStopDisplay_idle:
  assumes "abortStartServer a s = Some s1" "deref s1 a = Some e" "serverPid e = -1" "dpid e = -1"
  shows "rStopDisplay a es s =
     (if es = DS_TEXTMODE then checkTTYMode (setD a (\<lambda>d. d\<lparr>status := textMode\<rparr>) s1)
      else if es = or DS_TEXTMODE DS_SCHEDULE then Some (setD a (\<lambda>d. d\<lparr>status := textMode\<rparr>) s1)
      else if es = DS_RESERVE then
        Some (setHist (dname e) (\<lambda>h. h\<lparr>lastExit := 0\<rparr>) (setD a (\<lambda>d. d\<lparr>status := reserve\<rparr>) s1))
      else if es = DS_REMOTE then startRemoteLogin a s1
      else Some (removeDisplay a s1))"
  using assms by (simp add: rStopDisplay_def)

lemma rStopDisplay_ok:
  assumes ok: "okBut x s" and x: "x = None \<or> x = Some a" and d: "deref s a = Some d"
    and aw: "parks es \<longrightarrow> serverStatus d \<noteq> awaiting"
    and tty: "es = DS_TEXTMODE \<longrightarrow> consoleTTYs s \<noteq> []"
  shows "stops a s (rStopDisplay a es s)"
proof -
  obtain s1 where s1: "abortStartServer a s = Some s1" "okBut x s1" "startingServer s1 \<noteq> Some a"
      "deref s1 a = Some (aborted a d s)" "live s1 = live s" "sameEnv s s1"
    using abortStartServer_ok [OF ok d] by blast
  let ?d = "aborted a d s"
  have w: "okW ?d" using okW_aborted okBut_derefD [OF ok d] by blast
  have sst: "serverStatus ?d \<in> {ignore, awaiting}" by (rule aborted_status [OF ok d])
  consider (proc) "serverPid d \<noteq> -1 \<or> dpid d \<noteq> -1"
    | (park) "serverPid d = -1" "dpid d = -1" "parks es"
    | (gone) "serverPid d = -1" "dpid d = -1" "\<not> parks es" by blast
  then show ?thesis
  proof cases
    case proc
    then have ign: "serverStatus ?d = ignore" using w sst by (auto simp: okW_def)
    let ?t1 = "if dpid d \<noteq> -1 then terminateProcess (dpid d) SIGTERM s1 else s1"
    let ?t2 = "if serverPid d \<noteq> -1 then terminateProcess (serverPid d) SIGTERM ?t1 else ?t1"
    have t2: "okBut x ?t2" "deref ?t2 a = Some ?d" "live ?t2 = live s" "sameEnv s ?t2"
      using s1 w by (auto simp: okW_def okPid_def)
    then have "ok (setD a (\<lambda>d. d\<lparr>status := zombie, zstatus := and es DS_MASK\<rparr>) ?t2)"
      using zombify_ok [OF t2(1) x t2(2) ign] proc by simp
    then show ?thesis
      using proc t2 unfolding rStopDisplay_busy [OF s1(1,4), unfolded aborted_simps, OF proc] Let_def
      by (intro stopsI) (simp_all add: live_setD)
  next
    case park
    then have ign: "serverStatus ?d = ignore" using aw sst aborted_awaiting by fastforce
    have upd: "ok (setD a (\<lambda>d. d\<lparr>status := t\<rparr>) s1)" if "t \<in> {textMode, reserve}" for t
      by (rule okBut_wake [OF s1(2,4) x s1(3)])
        (use that w ign park in \<open>auto simp: okW_def okStat_def\<close>)
    have ttyk: "keeps s1 (checkTTYMode (setD a (\<lambda>d. d\<lparr>status := textMode\<rparr>) s1))"
      if "es = DS_TEXTMODE"
    proof -
      have "sameEnv s (setD a (\<lambda>d. d\<lparr>status := textMode\<rparr>) s1)" using s1(6) by simp
      then have "consoleTTYs (setD a (\<lambda>d. d\<lparr>status := textMode\<rparr>) s1) \<noteq> []"
        using tty that by (simp add: sameEnv_def)
      then show ?thesis
        by (intro keeps_trans [OF keeps_checkTTYMode]) (simp_all add: upd live_setD)
    qed
    have rem: "stops a s (startRemoteLogin a s1)"
      by (rule stops_trans [OF startRemoteLogin_ok [OF s1(2) x s1(4,3)]])
        (use s1 ign park in simp_all)
    have upd': "stops a s (Some (setD a (\<lambda>d. d\<lparr>status := t\<rparr>) s1))" if "t \<in> {textMode, reserve}" for t
      using upd [OF that] s1 by (intro stopsI) (simp_all add: live_setD)
    have res: "stops a s (Some (setHist n (\<lambda>h. h\<lparr>lastExit := 0\<rparr>)
        (setD a (\<lambda>d. d\<lparr>status := reserve\<rparr>) s1)))" for n
      using upd [of reserve] s1
      by (intro stopsI) (simp_all add: live_setD ok_def okBut_setHist)
    note r = rStopDisplay_idle [OF s1(1,4), unfolded aborted_simps, OF park(1,2)]
    show ?thesis
    proof (cases "es = DS_TEXTMODE")
      case True
      then show ?thesis using stops_keeps [OF ttyk s1(5,6)] r by simp
    next
      case False
      then show ?thesis using park(3) upd' res rem r [of es] by (auto simp: parks_def)
    qed
  next
    case gone
    have "ok (removeDisplay a s1)" by (rule removeDisplay_ok [OF s1(2) x s1(3)])
    moreover have "live (removeDisplay a s1) = filter (\<lambda>b. b \<noteq> a) (live s)"
      using live_removeDisplay s1 by (simp add: okBut_def)
    ultimately have "stops a s (Some (removeDisplay a s1))" using s1 by (intro stopsI) simp_all
    then show ?thesis
      using gone rStopDisplay_idle [OF s1(1,4), unfolded aborted_simps, OF gone(1,2), of es]
      by (simp add: parks_def)
  qed
qed

section \<open>The end of a session keeps the invariant\<close>

lemma stops_okBut: "okBut x s \<Longrightarrow> x = None \<or> x = Some a \<Longrightarrow> deref s a = Some d \<Longrightarrow> stops a s (stopDisplay a s)"
  unfolding stopDisplay_def by (rule rStopDisplay_ok) (auto simp: parks_def)

lemma restartDisplay_ok:
  assumes ok: "okBut x s" and x: "x = None \<or> x = Some a" and d: "deref s a = Some d"
    and dead: "dpid d = -1" "serverStatus d = ignore"
  shows "stops a s (restartDisplay a c s)"
proof -
  have w: "okW d" using okBut_derefD [OF ok d] .
  have upd: "ok (setD a (\<lambda>d. d\<lparr>status := t\<rparr>) u)"
    if "okBut x u" "deref u a = Some d" "t = notRunning \<or> t = phoenix \<and> serverPid d \<noteq> -1" for t u
    unfolding ok_def
    by (rule okBut_setD [OF that(1) x that(2)])
      (use that w dead in \<open>auto simp: okW_def okStat_def isStarting_def\<close>)
  show ?thesis
  proof (cases "serverPid d \<noteq> -1 \<and> (c \<noteq> XS_KEEP \<or> terminateServer (conf d))")
    case True
    let ?t = "terminateProcess (serverPid d) SIGTERM s"
    have "ok (setD a (\<lambda>d. d\<lparr>status := phoenix\<rparr>) ?t)"
      using True w ok d by (intro upd) (auto simp: okW_def okPid_def)
    then show ?thesis
      using True d by (auto simp: restartDisplay_def live_setD intro!: stopsI)
  next
    case False
    with upd [OF ok d] d show ?thesis
      by (auto simp: restartDisplay_def live_setD intro!: stopsI)
  qed
qed

text \<open>Changes of a display the invariant does not see.\<close>

lemma okBut_neutral:
  assumes ok: "okBut x s"
    and f: "\<And>d. daddr (f d) = daddr d" "\<And>d. dname (f d) = dname d"
      "\<And>d. status (f d) = status d" "\<And>d. serverStatus (f d) = serverStatus d"
      "\<And>d. dpid (f d) = dpid d" "\<And>d. serverPid (f d) = serverPid d"
  shows "okBut x (setD a f s)"
proof -
  have dr: "deref (setD a f s) b = (if a = b then map_option f (deref s b) else deref s b)" for b
    by (rule deref_setD) (rule f(1))
  have wst: "okW (f d) = okW d" "okStat (f d) = okStat d" "isStarting (f d) = isStarting d" for d
    by (cases "status d"; simp add: okW_def okStat_def isStarting_def f)+
  have "okStarting (setD a f s)"
    using ok by (auto simp: okBut_def okStarting_def dr wst f split: if_splits)
  moreover have "wfList (setD a f s)"
    using ok f by (intro wfList_setD) (auto simp: okBut_def)
  ultimately show ?thesis
    using ok by (auto simp: okBut_def dr wst split: if_splits)
qed

lemma exitDisplay_ok:
  assumes ok: "okBut (Some a) s" and d: "deref s a = Some d"
    and dead: "dpid d = -1" "serverStatus d = ignore"
    and es: "es \<noteq> DS_TEXTMODE"
    and tty: "status d = zombie \<and> zstatus d = DS_TEXTMODE \<longrightarrow> consoleTTYs s \<noteq> []"
  shows "stops a s (exitDisplay a es c g s)"
proof -
  define good where "good = (if status d = raiser then True else g)"
  define cmd where "cmd = (if status d = raiser then XS_KEEP else c)"
  define s1 where "s1 = setHist (dname d) (\<lambda>h. h\<lparr>lastExit := now (sessionDone a s), goodExit := good\<rparr>) (sessionDone a s)"
  define e where "e = (if how (sdRec s1) \<noteq> 0 \<and> start (sdRec s1) = TO_INF then DS_REMOVE else es)"
  let ?d = "d\<lparr>userSess := -1, userName := None, sessName := None\<rparr>"
  have ok1: "okBut (Some a) s1"
    using ok by (simp add: s1_def okBut_setHist sessionDone_def okBut_neutral)
  have d1: "deref s1 a = Some ?d"
    using d by (simp add: s1_def sessionDone_def deref_setD)
  have l1: "live s1 = live s" "sameEnv s s1"
    by (simp_all add: s1_def sessionDone_def live_setD)
  have stop: "stops a s (rStopDisplay a z s1)" if "z = DS_TEXTMODE \<longrightarrow> consoleTTYs s \<noteq> []" for z
    by (rule stops_trans [OF rStopDisplay_ok [OF ok1 _ d1] l1])
      (use that dead l1 in \<open>simp_all add: sameEnv_def\<close>)
  have del: "stops a s (stopDisplay a s1)" using stop by (simp add: stopDisplay_def)
  have upd: "stops a s (restartDisplay a k (setD a f s1))"
      "stops a s (stopDisplay a (setD a f s1))"
    if "f = (\<lambda>d. d\<lparr>startTries := n d\<rparr>)" for n k f
  proof -
    have k: "okBut (Some a) (setD a f s1)" unfolding that by (rule okBut_neutral [OF ok1]) simp_all
    have l: "live (setD a f s1) = live s" "sameEnv s (setD a f s1)"
      using l1 by (simp_all add: that live_setD)
    have dd: "deref (setD a f s1) a = Some (f ?d)" using d1 by (simp add: that deref_setD)
    show "stops a s (restartDisplay a k (setD a f s1))"
      by (rule stops_trans [OF restartDisplay_ok [OF k _ dd] l]) (use dead that in simp_all)
    show "stops a s (stopDisplay a (setD a f s1))"
      by (rule stops_trans [OF stops_okBut [OF k _ dd] l]) simp
  qed
  have rst: "stops a s (restartDisplay a k s1)" for k
    by (rule stops_trans [OF restartDisplay_ok [OF ok1 _ d1] l1]) (use dead in simp_all)
  have e: "e = DS_TEXTMODE \<longrightarrow> consoleTTYs s \<noteq> []" using es by (simp add: e_def)
  have "exitDisplay a es c g s =
    (if status d = zombie then rStopDisplay a (zstatus d) s1
     else if stopping s1 then stopDisplay a s1
     else if e \<noteq> DS_RESTART \<or> lifetime d = dTransient then rStopDisplay a e s1
     else if cmd = XS_RETRY then
       (if isLocal d then
          (if now s1 - lastStart d < 120 then stopDisplay a s1 else restartDisplay a cmd s1)
        else
          let s = setD a (\<lambda>d. d\<lparr>startTries := startTries d + 1\<rparr>) s1 in
          if startTries d + 1 > startAttempts (conf d) then stopDisplay a s
          else restartDisplay a cmd s)
     else restartDisplay a cmd (setD a (\<lambda>d. d\<lparr>startTries := 0\<rparr>) s1))"
    using d by (simp add: exitDisplay_def s1_def e_def cmd_def good_def Let_def)
  then show ?thesis using stop [of "zstatus d"] stop [OF e] del upd rst tty by (simp add: Let_def)
qed

text \<open>A walk of operations that each stop at most their own display.\<close>

lemma stops_walk:
  assumes "\<And>a t. ok t \<Longrightarrow> sameEnv s t \<Longrightarrow> a \<in> set (live t) \<Longrightarrow> stops a t (f a t)" and "ok s"
  shows "\<exists>s'. forEachDisplay f s = Some s' \<and> ok s' \<and> sameEnv s s' \<and> set (live s') \<subseteq> set (live s)"
  unfolding forEachDisplay_def
proof (rule walk_live)
  fix a t assume t: "ok t \<and> sameEnv s t \<and> set (live t) \<subseteq> set (live s)" "a \<in> set (live t)"
  with assms(1) [of t a] show "\<exists>s'. f a t = Some s' \<and>
      (ok s' \<and> sameEnv s s' \<and> set (live s') \<subseteq> set (live s)) \<and> set (live t) - {a} \<subseteq> set (live s')"
    by (auto simp: stops_def intro: sameEnv_trans)
qed (use assms(2) in \<open>auto simp: ok_def okBut_def wfList_def\<close>)

lemma stops_stopDisplay: "ok t \<Longrightarrow> a \<in> set (live t) \<Longrightarrow> stops a t (stopDisplay a t)"
  using deref_live [of a t] stops_okBut [of None t a] by (auto simp: ok_def)

lemma stops_stopInactive:
  assumes "ok t" "a \<in> set (live t)"
  shows "stops a t (stopInactiveDisplay a t)"
proof -
  obtain d where "deref t a = Some d" using assms deref_live by blast
  then show ?thesis
    using stops_stopDisplay [OF assms] assms(1) by (auto simp: stopInactiveDisplay_def intro: stopsI)
qed

lemma stoppen_ok:
  assumes "ok s"
  shows "\<exists>s'. stoppen frc s = Some s' \<and> ok s' \<and> stopping s' \<and> set (live s') \<subseteq> set (live s)"
proof -
  let ?s = "act StopListening (s\<lparr>requestPort := 0, listening := False\<rparr>)"
  have ok: "ok ?s" using assms by (simp add: ok_def ok_utmp)
  have "\<exists>s'. (if frc then forEachDisplay stopDisplay ?s else forEachDisplay stopInactiveDisplay ?s)
      = Some s' \<and> ok s' \<and> set (live s') \<subseteq> set (live s)"
    using stops_walk [OF stops_stopDisplay ok] stops_walk [OF stops_stopInactive ok] by auto
  then show ?thesis by (auto simp: stoppen_def Let_def ok_def ok_utmp)
qed

end
