(* ===== verification/DmServer.thy ===== *)
theory DmServer
  imports DmInv ArgVec
begin

text \<open>
  Starting the X server of a local display, \<^verbatim>\<open>kdm/backend/server.c\<close>, and the session
  process, \<open>startDisplayP2\<close> of \<^verbatim>\<open>dm.c\<close>. One server is started at a time; the state machine is

    awaiting -> starting -> (SIGUSR1) ignore, session forked
                starting -> (timeout) terminated -> (timeout) killed -> (timeout) failed
                starting -> (server exits) failed;  failed -> pausing -> starting, or given up.

  A branch of \<^verbatim>\<open>Fork\<close> that runs in the child is not part of the daemon's state.
\<close>

section \<open>The server's command line\<close>

text \<open>
  \<open>prepareServerArgv\<close>: command, display name, terminal, arguments; \<open>Ret None\<close> is \<open>exit (47)\<close>.
  \<open>m i\<close> are the allocation outcomes of its calls, \<open>userOk\<close> that of \<open>changeUser\<close>;
  the terminal is written as \<open>vt\<close> and the decimal number.
\<close>

fun decDigits :: "nat \<Rightarrow> string" where
  "decDigits n = (if n < 10 then [char_of (48 + n)] else decDigits (n div 10) @ [char_of (48 + n mod 10)])"

declare decDigits.simps [simp del]

definition showInt :: "int \<Rightarrow> string" where
  "showInt i = (if i < 0 then ''-'' @ decDigits (nat (- i)) else decDigits (nat i))"

definition prepareServerArgv ::
  "(nat \<Rightarrow> nat \<Rightarrow> bool) \<Rightarrow> bool \<Rightarrow> string \<Rightarrow> string \<Rightarrow> int \<Rightarrow> string \<Rightarrow> strarr outcome" where
  "prepareServerArgv m userOk serverCmd name vt args =
     bind_out (parseArgs (m 0) None serverCmd) (\<lambda>argv.
       case argv of None \<Rightarrow> Ret None
       | Some _ \<Rightarrow>
         (case addStrArr (m 1 0) (m 1 1) argv name (-1) of
            None \<Rightarrow> Ret None
          | Some a1 \<Rightarrow>
             let vtstr = ''vt'' @ showInt vt;
                 a2 = (if vt \<noteq> 0
                   then addStrArr (m 2 0) (m 2 1) (Some a1) vtstr (int (length vtstr)) else Some a1)
             in (case a2 of
                   None \<Rightarrow> Ret None
                 | Some _ \<Rightarrow>
                    bind_out (parseArgs (m 3) a2 args) (\<lambda>a3.
                      Ret (if a3 = None \<or> \<not> userOk then None else a3)))))"

text \<open>What the child executes: the local server, and one that queries the chosen host.\<close>

definition addArgs :: "(nat \<Rightarrow> bool) \<Rightarrow> strarr \<Rightarrow> string list \<Rightarrow> strarr" where
  "addArgs m arr ws =
     foldl (\<lambda>a (i, w). if a = None then None
        else addStrArr (m (2 * i)) (m (2 * i + 1)) a w (int (length w))) arr (enumerate 0 ws)"

definition localServerArgv ::
  "(nat \<Rightarrow> nat \<Rightarrow> bool) \<Rightarrow> bool \<Rightarrow> string \<Rightarrow> string \<Rightarrow> display \<Rightarrow> strarr outcome" where
  "localServerArgv m userOk serverCmd serverArgsLocal d =
     bind_out (prepareServerArgv m userOk serverCmd (dname d) (serverVT d) serverArgsLocal) (\<lambda>argv.
       Ret (case authFile d of None \<Rightarrow> argv | Some f \<Rightarrow> addArgs (m 4) argv [''-auth'', f]))"

definition remoteServerArgv ::
  "(nat \<Rightarrow> nat \<Rightarrow> bool) \<Rightarrow> bool \<Rightarrow> string \<Rightarrow> string \<Rightarrow> display \<Rightarrow> strarr outcome" where
  "remoteServerArgv m userOk serverCmd serverArgsRemote d =
     bind_out (prepareServerArgv m userOk serverCmd (dname d) (serverVT d) serverArgsRemote) (\<lambda>argv.
       Ret (case remoteHost d of
              None \<Rightarrow> addArgs (m 4) argv [''-once'', ''-query'']
            | Some h \<Rightarrow> addArgs (m 4) argv [''-once'', ''-query'', h]))"

lemma addStrArr_all:
  "addStrArr True True (Some a) w (-1) = Some (a @ [w])"
  "n = int (length w) \<Longrightarrow> addStrArr True True (Some a) w n = Some (a @ [w])"
  by (simp_all add: addStrArr_def strNDup_def)

lemma showInt_7: "showInt 7 = ''7''"
  by code_simp

lemma addArgs_all:
  assumes "\<forall>j. m j"
  shows "addArgs m (Some a) ws = Some (a @ ws)"
proof -
  have "foldl (\<lambda>a (i, w). if a = None then None
        else addStrArr (m (2 * i)) (m (2 * i + 1)) a w (int (length w))) (Some a) (enumerate n ws) = Some (a @ ws)" for n
    using assms by (induction ws arbitrary: a n) (simp_all add: addStrArr_all)
  then show ?thesis by (simp add: addArgs_def)
qed

text \<open>C30. The X server is executed with exactly the configured words, the display name, the terminal, the configured arguments and the authority file, each as one argument whatever characters it holds.\<close>

theorem localServerArgv_words:
  assumes "\<forall>i j. m i j"
  shows "localServerArgv m True (argLine cmd) (argLine args) d =
    Ret (Some (cmd @ [dname d] @ (if serverVT d \<noteq> 0 then [''vt'' @ showInt (serverVT d)] else []) @ args
      @ (case authFile d of None \<Rightarrow> [] | Some f \<Rightarrow> [''-auth'', f])))"
proof -
  have m: "\<And>i. \<forall>j. m i j" "\<And>i j. m i j" using assms by blast+
  show ?thesis
    unfolding localServerArgv_def prepareServerArgv_def
    by (simp add: parseArgs_words m(1) m(2) addStrArr_all addArgs_all Let_def split: option.split)
qed

theorem localServerArgv_words_witness:
  "localServerArgv (\<lambda>_ _. True) True (argLine [''/usr/bin/X'', ''-br'']) (argLine [''-nolisten'', ''t c p''])
     ((emptyDisplay 0 '':0'')\<lparr>serverVT := 7, authFile := Some ''/run/a b''\<rparr>) =
   Ret (Some [''/usr/bin/X'', ''-br'', '':0'', ''vt7'', ''-nolisten'', ''t c p'', ''-auth'', ''/run/a b''])"
  using localServerArgv_words [of "\<lambda>_ _. True" "[''/usr/bin/X'', ''-br'']" "[''-nolisten'', ''t c p'']"
      "(emptyDisplay 0 '':0'')\<lparr>serverVT := 7, authFile := Some ''/run/a b''\<rparr>"]
  by (simp add: showInt_7)

section \<open>The session process\<close>

definition openCtrl :: "addr \<Rightarrow> dm \<Rightarrow> dm" where
  "openCtrl a s = act (OpenCtrl a) (setD a (\<lambda>d. d\<lparr>ctrlOpen := True\<rparr>) s)"

definition closeCtrl :: "addr \<Rightarrow> dm \<Rightarrow> dm" where
  "closeCtrl a s = act (CloseCtrl a) (setD a (\<lambda>d. d\<lparr>ctrlOpen := False\<rparr>) s)"

definition startDisplayP2 :: "addr \<Rightarrow> dm \<Rightarrow> dm option" where
  "startDisplayP2 a s = do {
     d \<leftarrow> deref s a;
     let s = openCtrl a s;
     let (p, s) = takeFork s;
     let s = setD a (\<lambda>d. d\<lparr>dpid := p\<rparr>) s;
     Some (if p = -1
       then setD a (\<lambda>d. d\<lparr>status := notRunning\<rparr>) (closeCtrl a s)
       else
         let s = setHist (dname d) (\<lambda>h. h\<lparr>lock := False, rLogin := 0, goodExit := False\<rparr>) s
         in setD a (\<lambda>d. d\<lparr>pipesOpen := True, dSdRec := (dSdRec d)\<lparr>how := 0\<rparr>, lastStart := now s\<rparr>) s) }"

section \<open>The server state machine\<close>

definition startServerFailed :: "dm \<Rightarrow> dm option" where
  "startServerFailed s = do {
     a \<leftarrow> startingServer s;
     d \<leftarrow> deref s a;
     if serverAttempts (conf d) = 0 \<or> startTries d < serverAttempts (conf d) then
       Some ((setD a (\<lambda>d. d\<lparr>serverStatus := pausing\<rparr>) s)
               \<lparr>serverTimeout := openDelay (conf d) + now s\<rparr>)
     else
       stopDisplay a ((setD a (\<lambda>d. d\<lparr>serverStatus := ignore\<rparr>) s)
               \<lparr>serverTimeout := TO_INF, startingServer := None\<rparr>) }"

definition startServerOnce :: "dm \<Rightarrow> dm option" where
  "startServerOnce s = do {
     a \<leftarrow> startingServer s;
     d \<leftarrow> deref s a;
     let s = setD a (\<lambda>d. d\<lparr>startTries := startTries d + 1, serverStatus := starting\<rparr>) s;
     let (p, s) = takeFork s;
     let s = setD a (\<lambda>d. d\<lparr>serverPid := p\<rparr>) s;
     if p = -1 then startServerFailed s
     else Some (s\<lparr>serverTimeout := cfgServerTimeout (conf d) + now s\<rparr>) }"

definition startServer :: "addr \<Rightarrow> dm \<Rightarrow> dm option" where
  "startServer a s = do {
     _ \<leftarrow> deref s a;
     startServerOnce (setD a (\<lambda>d. d\<lparr>startTries := 0\<rparr>) (s\<lparr>startingServer := Some a\<rparr>)) }"

definition startServerSuccess :: "dm \<Rightarrow> dm option" where
  "startServerSuccess s = do {
     a \<leftarrow> startingServer s;
     _ \<leftarrow> deref s a;
     startDisplayP2 a ((setD a (\<lambda>d. d\<lparr>serverStatus := ignore\<rparr>) s)\<lparr>serverTimeout := TO_INF\<rparr>) }"

definition startServerTimeout :: "dm \<Rightarrow> dm option" where
  "startServerTimeout s = do {
     a \<leftarrow> startingServer s;
     d \<leftarrow> deref s a;
     (case serverStatus d of
        ignore \<Rightarrow> Some s
      | awaiting \<Rightarrow> Some s
      | starting \<Rightarrow>
          Some ((setD a (\<lambda>d. d\<lparr>serverStatus := terminated\<rparr>) (act (Kill (serverPid d) SIGTERM) s))
            \<lparr>serverTimeout := cfgServerTimeout (conf d) + now s\<rparr>)
      | terminated \<Rightarrow>
          Some ((setD a (\<lambda>d. d\<lparr>serverStatus := killed\<rparr>) (act (Kill (serverPid d) SIGKILL) s))
            \<lparr>serverTimeout := 10 + now s\<rparr>)
      | killed \<Rightarrow> startServerFailed s
      | pausing \<Rightarrow> startServerOnce s) }"

section \<open>The server state machine keeps the invariant\<close>

lemma sameEnv_upd_left [simp]:
  "sameEnv (setD a f t) s = sameEnv t s" "sameEnv (setHist n g t) s = sameEnv t s"
  "sameEnv (act e t) s = sameEnv t s"
  by (simp_all add: sameEnv_def setD_def setHist_def act_def)

text \<open>
  The invariant while the server of display \<open>a\<close> is handled: everything about the other
  displays, nothing about \<open>a\<close> and the timeout.
\<close>

definition okCore :: "addr \<Rightarrow> dm \<Rightarrow> bool" where
  "okCore a s \<longleftrightarrow> wfList s \<and> startingServer s = Some a \<and> a \<in> set (live s)
     \<and> (\<forall>b e. b \<noteq> a \<and> deref s b = Some e \<longrightarrow> okW e \<and> okStat e \<and> \<not> isStarting e)
     \<and> (\<forall>p \<in> set (forks s). okPid p) \<and> (\<forall>e \<in> set (actions s). okKill e)"

lemma okCoreI:
  assumes "okBut x s" "x = None \<or> x = Some a" "startingServer s = None \<or> startingServer s = Some a"
    "deref s a = Some d" "\<And>b. deref t b = deref s b" "live t = live s" "wfList t"
    "startingServer t = Some a" "forks t = forks s" "actions t = actions s"
  shows "okCore a t"
proof -
  have "a \<in> set (live s)" using assms(4) deref_None [of s a] by auto
  moreover have "\<forall>b e. b \<noteq> a \<and> deref t b = Some e \<longrightarrow> okW e \<and> okStat e \<and> \<not> isStarting e"
    using assms(1-3,5) unfolding okBut_def okStarting_def by auto
  ultimately show ?thesis using assms unfolding okCore_def okBut_def by simp
qed

lemma okCore_setD:
  assumes "okCore a s" "\<And>d. daddr (f d) = daddr d" "\<And>d. dname (f d) = dname d"
  shows "okCore a (setD a f s)"
proof -
  have "deref (setD a f s) b = deref s b" if "b \<noteq> a" for b
    using that assms(2) by (simp add: deref_setD)
  then have "\<forall>b e. b \<noteq> a \<and> deref (setD a f s) b = Some e \<longrightarrow> okW e \<and> okStat e \<and> \<not> isStarting e"
    using assms(1) unfolding okCore_def by auto
  moreover have "actions (setD a f s) = actions s" "forks (setD a f s) = forks s" by simp_all
  ultimately show ?thesis
    using assms unfolding okCore_def by (simp add: live_setD wfList_setD)
qed

lemma okCore_timeout [simp]: "okCore a (s\<lparr>serverTimeout := t\<rparr>) = okCore a s"
  using wfList_cong [of "s\<lparr>serverTimeout := t\<rparr>" s] by (simp add: okCore_def deref_def live_def)

lemma okCore_act [simp]: "okCore a (act e s) \<longleftrightarrow> okCore a s \<and> okKill e"
  by (simp add: okCore_def) (auto simp: act_def)

lemma okCore_setHist:
  assumes "okCore a s" "\<And>h. hname (f h) = hname h"
  shows "okCore a (setHist n f s)"
proof -
  have "actions (setHist n f s) = actions s" by (simp add: setHist_def)
  with assms show ?thesis by (simp add: okCore_def wfList_setHist)
qed

lemma takeFork_frame:
  assumes "takeFork s = (p, s')"
  shows "displays s' = displays s" "deref s' b = deref s b" "live s' = live s" "sameEnv s s'"
    "startingServer s' = startingServer s" "serverTimeout s' = serverTimeout s" "actions s' = actions s"
    "disphists s' = disphists s" "nextAddr s' = nextAddr s"
  using assms by (auto simp: takeFork_def deref_def live_def split: list.splits)

lemma okCore_takeFork:
  assumes "okCore a s" "takeFork s = (p, s')"
  shows "okCore a s'" "okPid p"
proof -
  have "set (forks s') \<subseteq> set (forks s)" "p = -1 \<or> p \<in> set (forks s)"
    using assms(2) by (auto simp: takeFork_def split: list.splits)
  with assms takeFork_frame [OF assms(2)] wfList_cong [of s' s] show "okCore a s'" "okPid p"
    by (auto simp: okCore_def okPid_def)
qed

lemma okCore_finish:
  assumes "okCore a s" "deref s a = Some d" "okW d" "okStat d"
    and "isStarting d \<or> serverStatus d = ignore \<and> serverTimeout s = TO_INF"
  shows "ok s"
proof -
  have other: "okW e \<and> okStat e \<and> \<not> isStarting e" if "b \<noteq> a" "deref s b = Some e" for b e
    using that assms(1) by (simp add: okCore_def)
  have "startingServer s = Some b" if "deref s b = Some e" "isStarting e" for b e
    using that other assms(1) by (cases "b = a") (auto simp: okCore_def)
  moreover have "startingServer s = Some a" using assms(1) by (simp add: okCore_def)
  ultimately have "okStarting s"
    using assms(2,5) by (auto simp: okStarting_def)
  moreover have "okW e \<and> okStat e" if "deref s b = Some e" for b e
    using that other assms(2-4) by (cases "b = a") auto
  ultimately show ?thesis using assms(1) by (simp add: ok_def okBut_def okCore_def)
qed

lemma okCore_none:
  assumes "okCore a s" "deref s a = Some d" "okW d" "serverStatus d = ignore"
  shows "okBut (Some a) (s\<lparr>serverTimeout := TO_INF, startingServer := None\<rparr>)"
proof -
  let ?t = "s\<lparr>serverTimeout := TO_INF, startingServer := None\<rparr>"
  have dr: "deref ?t b = deref s b" for b by (simp add: deref_def)
  have other: "okW e \<and> okStat e \<and> \<not> isStarting e" if "b \<noteq> a" "deref s b = Some e" for b e
    using that assms(1) by (simp add: okCore_def)
  have "\<not> isStarting e" if "deref s b = Some e" for b e
    using that other assms(2,4) by (cases "b = a") (auto simp: isStarting_def)
  then have "okStarting ?t" by (auto simp: okStarting_def dr)
  moreover have "wfList ?t"
    using assms(1) wfList_cong [of ?t s] by (simp add: okCore_def)
  moreover have "okW e \<and> (b \<noteq> a \<longrightarrow> okStat e)" if "deref s b = Some e" for b e
    using that other assms(2,3) by (cases "b = a") auto
  ultimately have "\<forall>b e. deref ?t b = Some e \<longrightarrow> okW e \<and> (Some a \<noteq> Some b \<longrightarrow> okStat e)"
    by (auto simp: dr)
  with \<open>okStarting ?t\<close> \<open>wfList ?t\<close> assms(1) show ?thesis
    unfolding okBut_def okCore_def by simp
qed

lemma startServerFailed_ok:
  assumes core: "okCore a s" and d: "deref s a = Some d"
    and st: "status d = running" "dpid d = -1" "okPid (serverPid d)"
  shows "stops a s (startServerFailed s)"
proof (cases "serverAttempts (conf d) = 0 \<or> startTries d < serverAttempts (conf d)")
  case True
  let ?s = "setD a (\<lambda>d. d\<lparr>serverStatus := pausing\<rparr>) s"
  let ?t = "?s\<lparr>serverTimeout := openDelay (conf d) + now s\<rparr>"
  have "okCore a ?t" using core by (simp add: okCore_setD)
  moreover have "deref ?t a = Some (d\<lparr>serverStatus := pausing\<rparr>)"
    using d deref_setD [of "\<lambda>d. d\<lparr>serverStatus := pausing\<rparr>" a s a] by (simp add: deref_def)
  ultimately have "ok ?t"
    by (rule okCore_finish) (use st in \<open>simp_all add: okW_def okStat_def isStarting_def okPid_def\<close>)
  moreover have "live ?t = live s"
    using live_setD [of "\<lambda>d. d\<lparr>serverStatus := pausing\<rparr>" a s] by (simp add: live_def)
  ultimately show ?thesis
    using True core d by (auto simp: startServerFailed_def okCore_def intro!: stopsI)
next
  case False
  let ?s = "setD a (\<lambda>d. d\<lparr>serverStatus := ignore\<rparr>) s"
  let ?t = "?s\<lparr>serverTimeout := TO_INF, startingServer := None\<rparr>"
  have ds: "deref ?s a = Some (d\<lparr>serverStatus := ignore\<rparr>)"
    using d by (simp add: deref_setD)
  then have dt: "deref ?t a = Some (d\<lparr>serverStatus := ignore\<rparr>)" by (simp add: deref_def)
  have "okBut (Some a) ?t"
    by (rule okCore_none [OF okCore_setD [OF core] ds]) (use st in \<open>simp_all add: okW_def okPid_def\<close>)
  then have "stops a ?t (stopDisplay a ?t)" using stops_okBut dt by blast
  moreover have "live ?t = live s"
    using live_setD [of "\<lambda>d. d\<lparr>serverStatus := ignore\<rparr>" a s] by (simp add: live_def)
  ultimately have "stops a s (stopDisplay a ?t)" by (elim stops_trans) simp_all
  then show ?thesis using False core d by (simp add: startServerFailed_def okCore_def)
qed

lemma startServerOnce_ok:
  assumes core: "okCore a s" and d: "deref s a = Some d" and st: "status d = running" "dpid d = -1"
  shows "stops a s (startServerOnce s)"
proof -
  let ?f = "\<lambda>d. d\<lparr>startTries := startTries d + 1, serverStatus := starting\<rparr>"
  obtain p s2 where f: "takeFork (setD a ?f s) = (p, s2)" by fastforce
  let ?s3 = "setD a (\<lambda>d. d\<lparr>serverPid := p\<rparr>) s2"
  have c2: "okCore a s2" and p: "okPid p"
    using okCore_takeFork [OF okCore_setD [OF core] f] by simp_all
  have d2: "deref s2 a = Some (?f d)" using takeFork_frame(2) [OF f] d by (simp add: deref_setD)
  have c3: "okCore a ?s3" using c2 by (simp add: okCore_setD)
  have d3: "deref ?s3 a = Some ((?f d)\<lparr>serverPid := p\<rparr>)" using d2 by (simp add: deref_setD)
  have l3: "live ?s3 = live s" "sameEnv s ?s3"
    using takeFork_frame(3) [OF f] takeFork_frame(4) [OF f] by (simp_all add: live_setD)
  have r: "startServerOnce s = (if p = -1 then startServerFailed ?s3
      else Some (?s3\<lparr>serverTimeout := cfgServerTimeout (conf d) + now ?s3\<rparr>))"
    using core d f by (simp add: startServerOnce_def okCore_def)
  show ?thesis
  proof (cases "p = -1")
    case True
    have "stops a ?s3 (startServerFailed ?s3)"
      by (rule startServerFailed_ok [OF c3 d3]) (use st p in simp_all)
    then show ?thesis using True r l3 by (simp add: stops_trans)
  next
    case False
    let ?t = "?s3\<lparr>serverTimeout := cfgServerTimeout (conf d) + now ?s3\<rparr>"
    have "deref ?t a = Some ((?f d)\<lparr>serverPid := p\<rparr>)" using d3 by (simp add: deref_def)
    then have "ok ?t"
      by (rule okCore_finish [rotated]) (use c3 st p False in \<open>simp_all add: okW_def okStat_def isStarting_def okPid_def\<close>)
    moreover have "live ?t = live s" using l3 by (simp add: live_def)
    ultimately show ?thesis using False r l3 by (simp add: stopsI)
  qed
qed

lemma startServer_ok:
  assumes ok: "ok s" and d: "deref s a = Some d" and st: "serverStatus d = awaiting"
    "startingServer s = None"
  shows "stops a s (startServer a s)"
proof -
  let ?t = "s\<lparr>startingServer := Some a\<rparr>"
  have w: "wfList ?t" using ok wfList_cong [of ?t s] by (simp add: ok_def okBut_def)
  have "okCore a ?t"
    by (rule okCoreI [of None s _ d]) (use ok d st w in \<open>simp_all add: ok_def deref_def live_def\<close>)
  then have core: "okCore a (setD a (\<lambda>d. d\<lparr>startTries := 0\<rparr>) ?t)" by (simp add: okCore_setD)
  have "deref ?t a = Some d" using d by (simp add: deref_def)
  then have dd: "deref (setD a (\<lambda>d. d\<lparr>startTries := 0\<rparr>) ?t) a = Some (d\<lparr>startTries := 0\<rparr>)"
    by (simp add: deref_setD)
  have "live (setD a (\<lambda>d. d\<lparr>startTries := 0\<rparr>) ?t) = live s"
    using live_setD [of "\<lambda>d. d\<lparr>startTries := 0\<rparr>" a ?t] by (simp add: live_def)
  moreover have "stops a (setD a (\<lambda>d. d\<lparr>startTries := 0\<rparr>) ?t)
      (startServerOnce (setD a (\<lambda>d. d\<lparr>startTries := 0\<rparr>) ?t))"
    by (rule startServerOnce_ok [OF core dd])
      (use ok_derefD [OF ok d] st in \<open>simp_all add: okW_def\<close>)
  ultimately have "stops a s (startServerOnce (setD a (\<lambda>d. d\<lparr>startTries := 0\<rparr>) ?t))"
    by (elim stops_trans) simp_all
  then show ?thesis using d by (simp add: startServer_def)
qed

lemma startDisplayP2_ok:
  assumes ok: "okBut x s" and x: "x = None \<or> x = Some a" and d: "deref s a = Some d"
    and st: "status d = running" "dpid d = -1" "serverStatus d = ignore"
  shows "keeps s (startDisplayP2 a s)"
proof -
  obtain p s2 where f: "takeFork (openCtrl a s) = (p, s2)" by fastforce
  let ?s3 = "setD a (\<lambda>d. d\<lparr>dpid := p\<rparr>) s2"
  have o1: "okBut x (openCtrl a s)" using ok by (simp add: openCtrl_def okBut_neutral)
  note tf = takeFork_ok [OF o1 f]
  have d2: "deref s2 a = Some (d\<lparr>ctrlOpen := True\<rparr>)"
    using takeFork_frame(2) [OF f] d by (simp add: openCtrl_def deref_setD)
  have w: "okW d" using okBut_derefD [OF ok d] .
  have l3: "live ?s3 = live s" "sameEnv s ?s3"
    using takeFork_frame(3) [OF f] takeFork_frame(4) [OF f] by (simp_all add: openCtrl_def live_setD)
  have d3: "deref ?s3 a = Some (d\<lparr>ctrlOpen := True, dpid := p\<rparr>)" using d2 by (simp add: deref_setD)
  have ok3: "okBut None ?s3"
    by (rule okBut_setD [OF _ x d2])
      (use tf w st in \<open>simp_all add: okW_def okStat_def isStarting_def\<close>)
  have r: "startDisplayP2 a s = Some (if p = -1
       then setD a (\<lambda>d. d\<lparr>status := notRunning\<rparr>) (closeCtrl a ?s3)
       else setD a (\<lambda>d. d\<lparr>pipesOpen := True, dSdRec := (dSdRec d)\<lparr>how := 0\<rparr>, lastStart :=
              now (setHist (dname d) (\<lambda>h. h\<lparr>lock := False, rLogin := 0, goodExit := False\<rparr>) ?s3)\<rparr>)
              (setHist (dname d) (\<lambda>h. h\<lparr>lock := False, rLogin := 0, goodExit := False\<rparr>) ?s3))"
    using d f by (simp add: startDisplayP2_def Let_def)
  show ?thesis
  proof (cases "p = -1")
    case True
    have c3: "okBut None (closeCtrl a ?s3)" using ok3 by (simp add: closeCtrl_def okBut_neutral)
    have d4: "deref (closeCtrl a ?s3) a = Some (d\<lparr>dpid := p, ctrlOpen := False\<rparr>)"
      using d2 by (simp add: closeCtrl_def deref_setD)
    have "okBut None (setD a (\<lambda>d. d\<lparr>status := notRunning\<rparr>) (closeCtrl a ?s3))"
      by (rule okBut_setD [OF c3 _ d4])
        (use w st True in \<open>simp_all add: okW_def okStat_def isStarting_def okPid_def\<close>)
    then show ?thesis
      using r True l3 by (simp add: ok_def keepsI closeCtrl_def live_setD)
  next
    case False
    have "okBut None (setD a (\<lambda>d. d\<lparr>pipesOpen := True, dSdRec := (dSdRec d)\<lparr>how := 0\<rparr>, lastStart := n\<rparr>)
        (setHist (dname d) (\<lambda>h. h\<lparr>lock := False, rLogin := 0, goodExit := False\<rparr>) ?s3))" for n
      by (rule okBut_neutral) (simp_all add: ok3 okBut_setHist)
    then show ?thesis using r False l3 by (simp add: ok_def keepsI live_setD)
  qed
qed

text \<open>The display whose server is handled.\<close>

lemma ok_starting:
  assumes "ok s" "startingServer s = Some a"
  shows "\<exists>d. deref s a = Some d \<and> okW d \<and> okStat d \<and> okCore a (s\<lparr>serverTimeout := t\<rparr>)"
proof -
  obtain d where d: "deref s a = Some d"
    using assms by (auto simp: ok_def okBut_def okStarting_def)
  have "okCore a s"
    by (rule okCoreI [of None s _ d]) (use assms d in \<open>simp_all add: ok_def okBut_def\<close>)
  then show ?thesis using d ok_derefD [OF assms(1)] by auto
qed

lemma startServerSuccess_ok:
  assumes ok: "ok s" and a: "startingServer s = Some a" "deref s a = Some d" "serverStatus d = starting"
  shows "stops a s (startServerSuccess s)"
proof -
  let ?t = "(setD a (\<lambda>d. d\<lparr>serverStatus := ignore\<rparr>) s)\<lparr>serverTimeout := TO_INF\<rparr>"
  have w: "okW d" "okStat d" using ok_derefD [OF ok a(2)] by auto
  have core: "okCore a ?t"
    using ok_starting [OF ok a(1), of "serverTimeout s"] by (auto intro: okCore_setD)
  have dt: "deref ?t a = Some (d\<lparr>serverStatus := ignore\<rparr>)"
    using a(2) deref_setD [of "\<lambda>d. d\<lparr>serverStatus := ignore\<rparr>" a s a] by (simp add: deref_def)
  have "ok ?t"
    by (rule okCore_finish [OF core dt]) (use w a(3) in \<open>simp_all add: okW_def okStat_def okPid_def\<close>)
  then have "keeps ?t (startDisplayP2 a ?t)"
    unfolding ok_def by (rule startDisplayP2_ok [OF _ _ dt]) (use w a(3) in \<open>simp_all add: okW_def\<close>)
  moreover have "live ?t = live s"
    using live_setD [of "\<lambda>d. d\<lparr>serverStatus := ignore\<rparr>" a s] by (simp add: live_def)
  ultimately have "stops a s (startDisplayP2 a ?t)" by (elim stops_keeps) simp_all
  then show ?thesis using a by (simp add: startServerSuccess_def)
qed

text \<open>
  The timeout fires: the main loop has reset \<open>serverTimeout\<close> before the call.
\<close>

lemma startServerTimeout_ok:
  assumes ok: "ok s" and due: "serverTimeout s \<noteq> TO_INF"
  shows "\<exists>a. stops a s (startServerTimeout (s\<lparr>serverTimeout := TO_INF\<rparr>))"
proof -
  obtain a d where a: "startingServer s = Some a" "deref s a = Some d" "isStarting d"
    using ok due by (auto simp: ok_def okBut_def okStarting_def)
  have w: "okW d" "okStat d" using ok_derefD [OF ok a(2)] by auto
  let ?s = "s\<lparr>serverTimeout := TO_INF\<rparr>"
  have core: "okCore a ?s" using ok_starting [OF ok a(1)] by blast
  have d: "deref ?s a = Some d" using a(2) by (simp add: deref_def)
  have st: "status d = running" "dpid d = -1" "okPid (serverPid d)"
    using w a(3) by (auto simp: okW_def isStarting_def)
  have next_state: "stops a s (Some ((setD a (\<lambda>d. d\<lparr>serverStatus := n\<rparr>) (act (Kill (serverPid d) g) ?s))
      \<lparr>serverTimeout := to\<rparr>))"
    if "serverStatus d \<in> {starting, terminated}" "n \<in> {terminated, killed}" for n g to
  proof -
    let ?t = "(setD a (\<lambda>d. d\<lparr>serverStatus := n\<rparr>) (act (Kill (serverPid d) g) ?s))\<lparr>serverTimeout := to\<rparr>"
    have pos: "0 < serverPid d" using w that(1) by (auto simp: okW_def okStat_def okPid_def)
    have c: "okCore a ?t" using core pos by (simp add: okCore_setD)
    have "deref ?t a = Some (d\<lparr>serverStatus := n\<rparr>)"
      using d deref_setD [of "\<lambda>d. d\<lparr>serverStatus := n\<rparr>" a "act (Kill (serverPid d) g) ?s" a]
      by (simp add: deref_def)
    then have "ok ?t"
      by (rule okCore_finish [OF c]) (use w st that pos in \<open>auto simp: okW_def okStat_def isStarting_def\<close>)
    moreover have "live ?t = live s"
      using live_setD [of "\<lambda>d. d\<lparr>serverStatus := n\<rparr>" a "act (Kill (serverPid d) g) ?s"]
      by (simp add: live_def)
    ultimately show ?thesis by (intro stopsI) simp_all
  qed
  have fail: "stops a s (startServerFailed ?s)"
    by (rule stops_trans [OF startServerFailed_ok [OF core d st]]) (simp_all add: live_def)
  have once: "stops a s (startServerOnce ?s)"
    by (rule stops_trans [OF startServerOnce_ok [OF core d st(1,2)]]) (simp_all add: live_def)
  have "stops a s (startServerTimeout ?s)"
    using next_state fail once a d
    by (cases "serverStatus d") (simp_all add: startServerTimeout_def isStarting_def)
  then show ?thesis ..
qed

end
