(* ===== verification/Policy.thy ===== *)
theory Policy
  imports DmServer CStrings AccScan
begin

text \<open>
  The policy of the XDMCP service: \<^verbatim>\<open>kdm/backend/policy.c\<close>, the authorization protocols of
  \<^verbatim>\<open>auth.c\<close> it asks for and the encrypted authentication of \<^verbatim>\<open>xdmauth.c\<close>, in the build with
  \<^verbatim>\<open>HASXDMAUTH\<close> and without Sun RPC and Kerberos. The record \<open>xenv\<close> holds what comes from
  outside: the DES functions of libXdmcp, the key file, random data, the resolver, the
  output of the \<open>willing\<close> program. The result \<open>None\<close> is a read outside an object.
\<close>

section \<open>The surroundings\<close>

text \<open>
  \<open>xByAddr\<close>, \<open>xInfo\<close>, \<open>xCanon\<close>, \<open>xNtop\<close> are \<^verbatim>\<open>gethostbyaddr\<close>, \<^verbatim>\<open>getaddrinfo\<close> (the families and
  addresses it lists), the same with the canonical name (and protocols), and \<^verbatim>\<open>inet_ntop\<close>.
  \<open>xRescan\<close> are the access lists if the reader sends new ones; \<open>xPopen\<close> what reading from the
  \<open>willing\<close> program yields, if it can be started: each time a line or nothing, and whether the
  read was interrupted.
\<close>

record xenv =
  xWrap :: "bytes \<Rightarrow> bytes \<Rightarrow> bytes"
  xUnwrap :: "bytes \<Rightarrow> bytes \<Rightarrow> bytes"
  xIncrement :: "bytes \<Rightarrow> bytes"
  xKeyFile :: "bytes list option"
  xRandom :: "nat \<Rightarrow> bytes option"
  xByAddr :: "int \<Rightarrow> bytes \<Rightarrow> bytes option"
  xInfo :: "bytes \<Rightarrow> (int \<times> bytes) list option"
  xCanon :: "bytes \<Rightarrow> (bytes \<times> (int \<times> bytes) list) option"
  xNtop :: "int \<Rightarrow> bytes \<Rightarrow> bytes"
  xLocalName :: bytes
  xLocalAddr :: bytes
  xSourceAddress :: bool
  xRemoveDomainname :: bool
  xAutoRescan :: bool
  xRescan :: "accArr option"
  xWilling :: bytes
  xPopen :: "(bytes option \<times> bool) list option"
  xMok :: "nat \<Rightarrow> bool"

definition ascii :: "string \<Rightarrow> bytes" where
  "ascii s = map of_char s"

definition chars :: "bytes \<Rightarrow> string" where
  "chars b = map (\<lambda>x. char_of (unat x)) b"

section \<open>Authorization protocols\<close>

definition XDM_AUTHENTICATION :: bytes where "XDM_AUTHENTICATION = ascii ''XDM-AUTHENTICATION-1''"
definition XDM_AUTHORIZATION :: bytes where "XDM_AUTHORIZATION = ascii ''XDM-AUTHORIZATION-1''"
definition MIT_COOKIE :: bytes where "MIT_COOKIE = ascii ''MIT-MAGIC-COOKIE-1''"

text \<open>\<open>authProtocols\<close>: the two protocols, of which only the second has a special form for XDMCP.\<close>

datatype authProtocol = MitCookie | XdmAuthorization

definition findProtocol :: "bytes \<Rightarrow> authProtocol option" where
  "findProtocol name =
     (if name = MIT_COOKIE then Some MitCookie
      else if name = XDM_AUTHORIZATION then Some XdmAuthorization
      else None)"

definition validAuthorization :: "bytes \<Rightarrow> bool" where
  "validAuthorization name \<longleftrightarrow> findProtocol name \<noteq> None"

text \<open>Allocations 20, 21 and 22: record, name and data.\<close>

definition getAuthHelper :: "xenv \<Rightarrow> bytes \<Rightarrow> xauth option" where
  "getAuthHelper E name = (if \<not> xMok E 20 \<or> \<not> xMok E 21 then None else Some \<lparr>xaName = name, xaData = []\<rparr>)"

definition generateAuthHelper :: "xenv \<Rightarrow> bytes \<Rightarrow> nat \<Rightarrow> xauth option" where
  "generateAuthHelper E name n =
     (case getAuthHelper E name of
        None \<Rightarrow> None
      | Some a \<Rightarrow>
          if \<not> xMok E 22 then None
          else (case xRandom E n of None \<Rightarrow> None | Some d \<Rightarrow> Some (a\<lparr>xaData := d\<rparr>)))"

definition mitGetAuth :: "xenv \<Rightarrow> bytes \<Rightarrow> xauth option" where
  "mitGetAuth E name = generateAuthHelper E name 16"

text \<open>The first byte of the session key, the last eight bytes, is zero.\<close>

definition xdmGetAuthHelper :: "xenv \<Rightarrow> bytes \<Rightarrow> nat \<Rightarrow> xauth option" where
  "xdmGetAuthHelper E name n =
     map_option (\<lambda>a. a\<lparr>xaData := (xaData a)[length (xaData a) - 8 := 0]\<rparr>) (generateAuthHelper E name n)"

definition xdmGetAuth :: "xenv \<Rightarrow> bytes \<Rightarrow> xauth option" where
  "xdmGetAuth E name = xdmGetAuthHelper E name 16"

text \<open>
  \<open>xdmGetXdmcpAuth\<close>: the eight bytes of the authentication data are copied whatever is
  there. Allocations 23 to 25: the second record, its name, its data.
\<close>

definition xdmGetXdmcpAuth :: "xenv \<Rightarrow> bytes \<Rightarrow> protoInfo \<Rightarrow> protoInfo option" where
  "xdmGetXdmcpAuth E name p =
     (if pFileAuth p \<noteq> None \<and> pXdmcpAuth p \<noteq> None then Some p
      else (case xdmGetAuthHelper E name 8 of
        None \<Rightarrow> Some p
      | Some x \<Rightarrow>
          if \<not> xMok E 23 \<or> \<not> xMok E 24 \<or> \<not> xMok E 25 then Some p
          else if length (pAuthData p) < 8 then None
          else Some (p\<lparr>pFileAuth := Some (x\<lparr>xaData := take 8 (pAuthData p) @ take 8 (xaData x)\<rparr>),
                       pXdmcpAuth := Some (x\<lparr>xaData := xWrap E (xaData x) (pKey p)\<rparr>)\<rparr>)))"

definition setProtoDisplayAuthorization :: "xenv \<Rightarrow> bytes \<Rightarrow> protoInfo \<Rightarrow> protoInfo option" where
  "setProtoDisplayAuthorization E name p =
     (let p = p\<lparr>pXdmcpAuth := None, pFileAuth := None\<rparr> in
      case findProtocol name of
        None \<Rightarrow> Some p
      | Some MitCookie \<Rightarrow> Some (p\<lparr>pFileAuth := mitGetAuth E name, pXdmcpAuth := None\<rparr>)
      | Some XdmAuthorization \<Rightarrow> xdmGetXdmcpAuth E name p)"

section \<open>Keys\<close>

text \<open>\<^verbatim>\<open>sscanf (line, "%s %s", ..)\<close>: the first two words.\<close>

definition blank :: "8 word \<Rightarrow> bool" where
  "blank c \<longleftrightarrow> c \<in> {32, 9, 10, 11, 12, 13}"

definition wordOf :: "bytes \<Rightarrow> bytes \<times> bytes" where
  "wordOf l = (let l = dropWhile blank l in (takeWhile (\<lambda>c. \<not> blank c) l, dropWhile (\<lambda>c. \<not> blank c) l))"

definition twoWords :: "bytes \<Rightarrow> (bytes \<times> bytes) option" where
  "twoWords l = (case wordOf l of (a, r) \<Rightarrow> case wordOf r of (b, _) \<Rightarrow>
     if a = [] \<or> b = [] then None else Some (a, b))"

text \<open>Plain text or hexadecimal digits behind 0x; the key is a zero and seven bytes. A bad number ends the search.\<close>

definition keyBytes :: "bytes \<Rightarrow> bytes option" where
  "keyBytes k =
     (if take 2 k = ascii ''0x'' \<or> take 2 k = ascii ''0X'' then
        (case hexToBinary (chars (drop 2 k)) of
           (n, out) \<Rightarrow> if n = 0 then None else Some out)
      else Some k)"

fun xdmGetKey :: "bytes list \<Rightarrow> bytes \<Rightarrow> bytes option" where
  "xdmGetKey [] displayID = None"
| "xdmGetKey (l # ls) displayID =
     (if take 1 l = [35] then xdmGetKey ls displayID
      else case twoWords (cstrOf l) of
        None \<Rightarrow> xdmGetKey ls displayID
      | Some (did, k) \<Rightarrow>
          if did = displayID then
            map_option (\<lambda>k. 0 # take 7 (k @ replicate 7 0)) (keyBytes k)
          else xdmGetKey ls displayID)"

text \<open>The result: accepted, the display with its key and data, the data to send back. The copy is allocation 26.\<close>

definition xdmcheckAuthentication :: "xenv \<Rightarrow> protoInfo \<Rightarrow> bytes \<Rightarrow> bytes \<Rightarrow> bool \<times> protoInfo \<times> bytes" where
  "xdmcheckAuthentication E p displayID data =
     (case (case xKeyFile E of None \<Rightarrow> None | Some ls \<Rightarrow> xdmGetKey ls displayID) of
        None \<Rightarrow> (False, p, data)
      | Some k \<Rightarrow>
          let p = p\<lparr>pKey := k\<rparr> in
          if length data \<noteq> 8 then (False, p, data)
          else
            let data = xUnwrap E data k in
            if \<not> xMok E 26 then (False, p, data)
            else (True, p\<lparr>pAuthData := data\<rparr>, xWrap E (xIncrement E data) k))"

section \<open>Policy\<close>

definition authTable :: "(bytes \<times> bytes) list" where
  "authTable = [(XDM_AUTHENTICATION, XDM_AUTHORIZATION), ([], [])]"

definition chooseAuthentication :: "bytes list \<Rightarrow> bytes" where
  "chooseAuthentication names =
     (case find (\<lambda>n. n \<in> fst ` set authTable) names of None \<Rightarrow> [] | Some n \<Rightarrow> n)"

text \<open>The comparison with the 20 bytes of the name reads past a name that is a shorter part of it.\<close>

definition checkAuthentication :: "xenv \<Rightarrow> protoInfo \<Rightarrow> bytes \<Rightarrow> bytes \<Rightarrow> bytes \<Rightarrow> (bool \<times> protoInfo \<times> bytes) option" where
  "checkAuthentication E p displayID name data =
     (if name \<noteq> [] \<and> length name < 20 \<and> prefix name XDM_AUTHENTICATION then None
      else if name \<noteq> [] \<and> take 20 name = XDM_AUTHENTICATION
      then Some (xdmcheckAuthentication E p displayID data)
      else Some (True, p, data))"

fun indexOf :: "('a \<Rightarrow> bool) \<Rightarrow> 'a list \<Rightarrow> nat option" where
  "indexOf P [] = None"
| "indexOf P (x # xs) = (if P x then Some 0 else map_option Suc (indexOf P xs))"

definition selectAuthorizationTypeIndex :: "bytes \<Rightarrow> bytes list \<Rightarrow> nat option" where
  "selectAuthorizationTypeIndex authName names =
     (case (case find (\<lambda>a. authName = fst a) authTable of
              None \<Rightarrow> None
            | Some a \<Rightarrow> indexOf (\<lambda>n. n = snd a) names) of
        Some i \<Rightarrow> Some i
      | None \<Rightarrow> indexOf validAuthorization names)"

definition selectConnectionTypeIndex :: "16 word list \<Rightarrow> nat option" where
  "selectConnectionTypeIndex types =
     indexOf (\<lambda>t. t = word_of_int FamilyLocal \<or> t = word_of_int FamilyInternet
        \<or> t = word_of_int FamilyInternet6) types"

text \<open>Every sender is accepted; the result would be the reason for the refusal.\<close>

definition isAccepting :: "sockaddr \<Rightarrow> nat \<Rightarrow> 16 word \<Rightarrow> bytes option" where
  "isAccepting sa len dn = None"

section \<open>Willingness\<close>

text \<open>
  The status that goes with the answer, in a buffer of 256 bytes. The first read counts, even
  if its line is empty, unless it was interrupted.
\<close>

fun willingLine :: "(bytes option \<times> bool) list \<Rightarrow> bytes option" where
  "willingLine [] = None"
| "willingLine ((r, interrupted) # rs) =
     (case r of
        Some (c # l) \<Rightarrow> Some (take 255 (c # l))
      | _ \<Rightarrow> if interrupted then willingLine rs else None)"

definition willingStatus :: "xenv \<Rightarrow> bytes" where
  "willingStatus E =
     (if xWilling E = [] then ascii ''Willing to manage''
      else (case willingLine (case xPopen E of None \<Rightarrow> [] | Some rs \<Rightarrow> rs) of
              Some l \<Rightarrow> l
            | None \<Rightarrow> ascii ''Willing, but '' @ take 235 (xWilling E) @ ascii '' failed''))"

section \<open>Names\<close>

text \<open>\<open>xInfo\<close> lists the address among those of the name.\<close>

definition listed :: "xenv \<Rightarrow> bytes \<Rightarrow> int \<Rightarrow> bytes \<Rightarrow> bool option" where
  "listed E name af addr = map_option (\<lambda>l. (af, addr) \<in> set l) (xInfo E name)"

definition familyOf :: "int \<Rightarrow> int option" where
  "familyOf ct = (if ct = FamilyInternet then Some AF_INET
     else if ct = FamilyInternet6 then Some AF_INET6 else None)"

definition addrLen :: "int \<Rightarrow> nat" where
  "addrLen af = (if af = AF_INET then 4 else 16)"

text \<open>The text of an address; it reads the full length whatever the array holds.\<close>

definition numeric :: "xenv \<Rightarrow> int \<Rightarrow> bytes \<Rightarrow> bytes option" where
  "numeric E af addr = (if length addr < addrLen af then None else Some (xNtop E af (take (addrLen af) addr)))"

text \<open>The part from the first dot on.\<close>

definition dotOf :: "bytes \<Rightarrow> bytes option" where
  "dotOf s = (if 46 \<in> set s then Some (dropWhile (\<lambda>c. c \<noteq> 46) s) else None)"

text \<open>
  A name the resolver does not lead back to the address is not believed. A short name is
  completed with the local domain if that leads back, too. The inner option is the null pointer.
\<close>

definition networkAddressToHostname :: "xenv \<Rightarrow> int \<Rightarrow> bytes \<Rightarrow> bytes option option" where
  "networkAddressToHostname E ct addr =
     (case familyOf ct of
        None \<Rightarrow> Some None
      | Some af \<Rightarrow>
          (case xByAddr E af addr of
             None \<Rightarrow> map_option Some (numeric E af addr)
           | Some name \<Rightarrow>
               if listed E name af addr = Some True then
                 (case dotOf name of
                    Some _ \<Rightarrow> Some (Some name)
                  | None \<Rightarrow>
                      (case dotOf (xLocalName E) of
                         None \<Rightarrow> Some (Some name)
                       | Some dot \<Rightarrow>
                           Some (Some (if listed E (name @ dot) af addr = Some True then name @ dot else name))))
               else map_option Some (numeric E af addr)))"

definition decimal :: "nat \<Rightarrow> bytes" where
  "decimal n = ascii (decDigits n)"

text \<open>
  The address field of the request's sender, read as the connection type has it: in a socket
  address of the other family there are zeros at that place.
\<close>

fun origAddr :: "int \<Rightarrow> sockaddr \<Rightarrow> bytes option" where
  "origAddr ct (SaInet p a) = Some (if ct = FamilyInternet then a else replicate 16 0)"
| "origAddr ct (SaInet6 p a) = Some (if ct = FamilyInternet then replicate 4 0 else a)"
| "origAddr ct _ = None"

text \<open>
  The host name of an address, if there is one; the flag says that the host has several addresses,
  which is asked with \<open>xSourceAddress\<close>.
\<close>

definition hostOf :: "xenv \<Rightarrow> int \<Rightarrow> bytes \<Rightarrow> bytes option \<times> bool" where
  "hostOf E af addr =
     (case xByAddr E af addr of
        None \<Rightarrow> (None, False)
      | Some h \<Rightarrow>
          if xSourceAddress E then
            (case xCanon E h of
               None \<Rightarrow> (None, False)
             | Some (cn, ais) \<Rightarrow>
                 (Some cn, \<exists>ai \<in> set (tl ais). fst ai = fst (hd ais) \<and> snd ai \<noteq> snd (hd ais)))
          else (Some h, False))"

text \<open>The host part of the name of a display, without the local domain if so configured.\<close>

definition hostPart :: "xenv \<Rightarrow> bytes \<Rightarrow> bytes" where
  "hostPart E h =
     (if h = xLocalName E then ascii ''localhost''
      else if xRemoveDomainname E \<and>
        (case (dotOf (xLocalName E), dotOf h) of (Some l, Some r) \<Rightarrow> l = r | _ \<Rightarrow> False)
      then takeWhile (\<lambda>c. c \<noteq> 46) h
      else h)"

text \<open>
  The name of a display; its allocation is number 28. A host with several addresses is named by
  the one the request came from.
\<close>

definition networkAddressToName :: "xenv \<Rightarrow> int \<Rightarrow> bytes \<Rightarrow> sockaddr \<Rightarrow> 16 word \<Rightarrow> bytes option option" where
  "networkAddressToName E ct addr sa dn =
     (case familyOf ct of
        None \<Rightarrow> Some None
      | Some af \<Rightarrow> do {
          host \<leftarrow>
            (case hostOf E af addr of
               (Some h, multi) \<Rightarrow>
                 if h \<noteq> [] \<and> hd h \<noteq> 46 \<and> \<not> multi then Some (hostPart E h)
                 else do { a \<leftarrow> (if multi then origAddr ct sa else Some addr); numeric E af a }
             | (None, _) \<Rightarrow> numeric E af addr);
          Some (if xMok E 28 then Some (host @ ascii '':'' @ decimal (unat dn)) else None) })"

text \<open>The scan asks for the name only when it meets a pattern; for a socket address the answer is always there.\<close>

lemma hostname_defined:
  "(\<And>af. familyOf ct = Some af \<Longrightarrow> length addr = addrLen af) \<Longrightarrow> networkAddressToHostname E ct addr \<noteq> None"
  by (auto simp: networkAddressToHostname_def numeric_def split: option.split)

text \<open>The answer to a query, its status (allocation 27), and the state, whose access lists may be new.\<close>

definition isWilling :: "xenv \<Rightarrow> bytes \<Rightarrow> int \<Rightarrow> xdmOpCode \<Rightarrow> dm \<Rightarrow> (bool \<times> bytes \<times> dm) option" where
  "isWilling E addr ct type s = do {
     let s = (if xAutoRescan E \<and> lastAccScan s + 15 < now s
              then s\<lparr>lastAccScan := now s,
                     accLists := (case xRescan E of None \<Rightarrow> accLists s | Some A \<Rightarrow> A)\<rparr>
              else s);
     name \<leftarrow> networkAddressToHostname E ct addr;
     ret \<leftarrow> acceptableDisplayAddress ACL_DEPTH (accLists s) name addr ct type;
     let st = (if \<not> ret then ascii ''Display not authorized to connect'' else willingStatus E);
     Some (ret, if xMok E 27 then st else [], s) }"

end
