(* ===== verification/Xdmcp.thy ===== *)
theory Xdmcp
  imports Policy DmStop
begin

text \<open>
  The XDMCP service, \<^verbatim>\<open>kdm/backend/xdmcp.c\<close>: each request of an X terminal, from the packet to
  the answers and the change of the daemon's state. The functions of libXdmcp that take a
  packet apart are the record \<open>xread\<close>; a packet that is sent is its opcode, the length in its
  header and its fields, with the sizes the protocol documents. Answers leave by the socket the
  request came in on.
\<close>

section \<open>Packets\<close>

record xread =
  rHeader :: "(int \<times> int \<times> int) rx"
  rCARD16 :: "16 word rx"
  rCARD32 :: "32 word rx"
  rARRAY8 :: "bytes rx"
  rARRAY16 :: "16 word list rx"
  rARRAYofARRAY8 :: "bytes list rx"

datatype field = FCard8 "8 word" | FCard32 "32 word" | FArray8 bytes | FArrayOf "bytes list"

record packet =
  pkOpcode :: xdmOpCode
  pkLength :: "16 word"
  pkFields :: "field list"

type_synonym sent = "(sockaddr \<times> nat \<times> packet) list"

abbreviation XDM_PROTOCOL_VERSION :: int where "XDM_PROTOCOL_VERSION \<equiv> 1"

fun opcode :: "xdmOpCode \<Rightarrow> int" where
  "opcode BROADCAST_QUERY = 1" | "opcode QUERY = 2" | "opcode INDIRECT_QUERY = 3" | "opcode FORWARD_QUERY = 4"
| "opcode WILLING = 5" | "opcode UNWILLING = 6" | "opcode REQUEST = 7" | "opcode ACCEPT = 8"
| "opcode DECLINE = 9" | "opcode MANAGE = 10" | "opcode REFUSE = 11" | "opcode FAILED = 12"
| "opcode KEEPALIVE = 13" | "opcode ALIVE = 14"

text \<open>The length of an array of arrays, without the count byte.\<close>

definition arraysLen :: "bytes list \<Rightarrow> nat" where
  "arraysLen l = sum_list (map (\<lambda>b. 2 + length b) l)"

fun fieldSize :: "field \<Rightarrow> nat" where
  "fieldSize (FCard8 _) = 1"
| "fieldSize (FCard32 _) = 4"
| "fieldSize (FArray8 b) = 2 + length b"
| "fieldSize (FArrayOf l) = 1 + arraysLen l"

section \<open>Queries\<close>

definition send_willing :: "xenv \<Rightarrow> sockaddr \<Rightarrow> nat \<Rightarrow> bytes \<Rightarrow> bytes \<Rightarrow> sent" where
  "send_willing E sa len name st =
     [(sa, len, \<lparr>pkOpcode = WILLING,
        pkLength = word_of_nat (6 + length name + length (xLocalName E) + length st),
        pkFields = [FArray8 name, FArray8 (xLocalName E), FArray8 st]\<rparr>)]"

definition send_unwilling :: "xenv \<Rightarrow> sockaddr \<Rightarrow> nat \<Rightarrow> bytes \<Rightarrow> bytes \<Rightarrow> sent" where
  "send_unwilling E sa len name st =
     [(sa, len, \<lparr>pkOpcode = UNWILLING,
        pkLength = word_of_nat (4 + length (xLocalName E) + length st),
        pkFields = [FArray8 (xLocalName E), FArray8 st]\<rparr>)]"

text \<open>A direct query ends the choice made for the terminal; an indirect one keeps it alive.\<close>

definition all_query_respond ::
  "xenv \<Rightarrow> sockaddr \<Rightarrow> nat \<Rightarrow> bytes list \<Rightarrow> xdmOpCode \<Rightarrow> dm \<Rightarrow> (sent \<times> dm) option"
where
  "all_query_respond E sa len names type s =
     (case convertAddr sa of (family, addr) \<Rightarrow>
        if family < 0 then Some ([], s)
        else do {
          let k = (addr, netaddrPort sa, word_of_int family);
          let s = (if type = INDIRECT_QUERY
            then s\<lparr>choices := registerIndirectChoice (xMok E) (now s) (choiceTimeout s) k None (choices s)\<rparr>
            else s\<lparr>choices := snd (checkIndirectChoice k (choices s))\<rparr>);
          let name = chooseAuthentication names;
          (ret, st, s) \<leftarrow> isWilling E addr family type s;
          Some (if ret then send_willing E sa len name st
                else if type = QUERY then send_unwilling E sa len name st
                else [], s) })"

text \<open>The port as the socket address holds it, high byte first.\<close>

definition portBytes :: "int \<Rightarrow> bytes" where
  "portBytes p = [word_of_int (p div 256), word_of_int p]"

definition sendForward :: "packet \<Rightarrow> int \<Rightarrow> hostCall \<Rightarrow> sent" where
  "sendForward pk port c =
     (case c of
        CallHost ct a \<Rightarrow>
          if ct = FamilyInternet then
            (if length a \<noteq> 4 then [] else [(SaInet (portBytes port) a, 16, pk)])
          else if ct = FamilyInternet6 then
            (if length a \<noteq> 16 then [] else [(SaInet6 (portBytes port) a, 28, pk)])
          else []
      | CallBroadcast \<Rightarrow> [])"

text \<open>A 16-bit connection type.\<close>

definition card16Of :: "int \<Rightarrow> int" where
  "card16Of ct = uint (word_of_int ct :: 16 word)"

definition forwardPacket :: "bytes \<Rightarrow> bytes \<Rightarrow> bytes list \<Rightarrow> packet" where
  "forwardPacket addr port names =
     \<lparr>pkOpcode = FORWARD_QUERY,
      pkLength = word_of_nat (2 + length addr + (2 + length port) + 1 + arraysLen names),
      pkFields = [FArray8 addr, FArray8 port, FArrayOf names]\<rparr>"

definition indirect_respond ::
  "xenv \<Rightarrow> xread \<Rightarrow> sockaddr \<Rightarrow> nat \<Rightarrow> int \<Rightarrow> bytes \<Rightarrow> dm \<Rightarrow> (sent \<times> dm) option"
where
  "indirect_respond E R sa len n buf s =
     (case rARRAYofARRAY8 R buf of
        None \<Rightarrow> Some ([], s)
      | Some (names, _) \<Rightarrow>
          if n \<noteq> int (1 + arraysLen names) then Some ([], s)
          else do {
            let port = netaddrPort sa;
            let (family, addr) = convertAddr sa;
            let ct = card16Of family;
            let pk = forwardPacket addr port names;
            name \<leftarrow> networkAddressToHostname E ct addr;
            (calls, localToo) \<leftarrow>
              forEachMatchingIndirectHost ACL_DEPTH (accLists s) name (xLocalAddr E) (choices s) addr port ct;
            let out = concat (map (sendForward pk (requestPort s)) calls);
            if localToo then do {
              (out2, s) \<leftarrow> all_query_respond E sa len names INDIRECT_QUERY s;
              Some (out @ out2, s) }
            else Some (out, s) })"

definition direct_query_respond ::
  "xenv \<Rightarrow> xread \<Rightarrow> sockaddr \<Rightarrow> nat \<Rightarrow> int \<Rightarrow> xdmOpCode \<Rightarrow> bytes \<Rightarrow> dm \<Rightarrow> (sent \<times> dm) option"
where
  "direct_query_respond E R sa len n type buf s =
     (case rARRAYofARRAY8 R buf of
        None \<Rightarrow> Some ([], s)
      | Some (names, _) \<Rightarrow>
          if n = int (1 + arraysLen names) then all_query_respond E sa len names type s else Some ([], s))"

definition query_respond where
  "query_respond E R sa len n buf s = direct_query_respond E R sa len n QUERY buf s"

definition broadcast_respond where
  "broadcast_respond E R sa len n buf s = direct_query_respond E R sa len n BROADCAST_QUERY buf s"

text \<open>
  The client a forwarded query comes from, in the family of the host that forwards it; an IPv4
  client behind an IPv6 host has a mapped address. \<open>None\<close>: a bad address.
\<close>

fun forwardClient :: "sockaddr \<Rightarrow> bytes \<Rightarrow> bytes \<Rightarrow> (sockaddr \<times> nat) option" where
  "forwardClient (SaInet _ _) a p =
     (if length a \<noteq> 4 \<or> length p \<noteq> 2 then None else Some (SaInet p a, 16))"
| "forwardClient (SaInet6 _ _) a p =
     (if length a \<noteq> 16 \<and> length a \<noteq> 4 \<or> length p \<noteq> 2 then None
      else Some (SaInet6 p (if length a = 16 then a else replicate 10 0 @ [0xff, 0xff] @ a), 28))"
| "forwardClient (SaUnix _) a p =
     (if 108 \<le> length a then None else Some (SaUnix (a @ replicate (108 - length a) 0), 110))"
| "forwardClient (SaOther _) a p = None"

definition forward_respond ::
  "xenv \<Rightarrow> xread \<Rightarrow> sockaddr \<Rightarrow> nat \<Rightarrow> int \<Rightarrow> bytes \<Rightarrow> dm \<Rightarrow> (sent \<times> dm) option"
where
  "forward_respond E R sa len n buf s =
     (case (do { (a, buf) \<leftarrow> rARRAY8 R buf; (p, buf) \<leftarrow> rARRAY8 R buf; (names, buf) \<leftarrow> rARRAYofARRAY8 R buf;
                 Some (a, p, names) }) of
        None \<Rightarrow> Some ([], s)
      | Some (a, p, names) \<Rightarrow>
          if n \<noteq> int (2 + length a + (2 + length p) + 1 + arraysLen names) then Some ([], s)
          else (case forwardClient sa a p of
                  None \<Rightarrow> Some ([], s)
                | Some (client, clen) \<Rightarrow> all_query_respond E client clen names FORWARD_QUERY s))"

section \<open>Requests\<close>

definition send_accept ::
  "sockaddr \<Rightarrow> nat \<Rightarrow> 32 word \<Rightarrow> bytes \<Rightarrow> bytes \<Rightarrow> bytes \<Rightarrow> bytes \<Rightarrow> sent"
where
  "send_accept sa len sid an ad zn zd =
     [(sa, len, \<lparr>pkOpcode = ACCEPT,
        pkLength = word_of_nat (4 + (2 + length an) + (2 + length ad) + (2 + length zn) + (2 + length zd)),
        pkFields = [FCard32 sid, FArray8 an, FArray8 ad, FArray8 zn, FArray8 zd]\<rparr>)]"

definition send_decline :: "sockaddr \<Rightarrow> nat \<Rightarrow> bytes \<Rightarrow> bytes \<Rightarrow> bytes \<Rightarrow> sent" where
  "send_decline sa len an ad st =
     [(sa, len, \<lparr>pkOpcode = DECLINE,
        pkLength = word_of_nat ((2 + length st) + (2 + length an) + (2 + length ad)),
        pkFields = [FArray8 st, FArray8 an, FArray8 ad]\<rparr>)]"

definition outOfMemory :: bytes where "outOfMemory = ascii ''Out of memory''"
definition noValidAddr :: bytes where "noValidAddr = ascii ''No valid address''"
definition noValidAuth :: bytes where "noValidAuth = ascii ''No valid authorization''"
definition noAuthentic :: bytes where "noAuthentic = ascii ''XDM has no authentication key''"

record request =
  rqDisplay :: "16 word"
  rqTypes :: "16 word list"
  rqAddrs :: "bytes list"
  rqAuthName :: bytes
  rqAuthData :: bytes
  rqNames :: "bytes list"
  rqDisplayID :: bytes

definition readRequest :: "xread \<Rightarrow> bytes \<Rightarrow> request option" where
  "readRequest R buf = do {
     (dn, buf) \<leftarrow> rCARD16 R buf;
     (ts, buf) \<leftarrow> rARRAY16 R buf;
     (as, buf) \<leftarrow> rARRAYofARRAY8 R buf;
     (an, buf) \<leftarrow> rARRAY8 R buf;
     (ad, buf) \<leftarrow> rARRAY8 R buf;
     (ns, buf) \<leftarrow> rARRAYofARRAY8 R buf;
     (did, buf) \<leftarrow> rARRAY8 R buf;
     Some \<lparr>rqDisplay = dn, rqTypes = ts, rqAddrs = as, rqAuthName = an, rqAuthData = ad, rqNames = ns,
           rqDisplayID = did\<rparr> }"

definition requestLen :: "request \<Rightarrow> nat" where
  "requestLen q = 2 + (1 + 2 * length (rqTypes q)) + (1 + arraysLen (rqAddrs q)) + (2 + length (rqAuthName q))
     + (2 + length (rqAuthData q)) + (1 + arraysLen (rqNames q)) + (2 + length (rqDisplayID q))"

text \<open>The display of the sender, a new one if need be: the reason to decline, or the display and the state.\<close>

definition requestDisplay ::
  "xenv \<Rightarrow> sockaddr \<Rightarrow> nat \<Rightarrow> request \<Rightarrow> dm \<Rightarrow> (bytes + protoDisplay) \<times> dm"
where
  "requestDisplay E sa len q s =
     (let k = (sa, len, rqDisplay q) in
      case findProtoDisplay (protos s) k of
        Some p \<Rightarrow> (Inr p, s)
      | None \<Rightarrow>
          (case isAccepting sa len (rqDisplay q) of
             Some reason \<Rightarrow> (Inl reason, s)
           | None \<Rightarrow>
               (case selectConnectionTypeIndex (rqTypes q) of
                  None \<Rightarrow> (Inl noValidAddr, s)
                | Some i \<Rightarrow>
                    let sid = nextSession s + 1 in
                    (case newProtoDisplay (xMok E) (freshAddr (protos s)) (now s) k (rqTypes q ! i) (rqAddrs q ! i)
                            sid (protos s) of
                       (None, ps) \<Rightarrow> (Inl outOfMemory, s\<lparr>nextSession := sid, protos := ps\<rparr>)
                     | (Some p, ps) \<Rightarrow> (Inr p, s\<lparr>nextSession := sid, protos := ps\<rparr>)))))"

definition setProto :: "nat \<Rightarrow> protoInfo \<Rightarrow> dm \<Rightarrow> dm" where
  "setProto a i s = s\<lparr>protos := map (\<lambda>p. if pAddr (snd p) = a then (fst p, i) else p) (protos s)\<rparr>"

text \<open>
  The rest of a request, with its display: the reason to decline or the authorization to send,
  the authentication data to send back, the state.
\<close>

definition requestAuth ::
  "xenv \<Rightarrow> request \<Rightarrow> protoInfo \<Rightarrow> dm \<Rightarrow> ((bytes + bytes \<times> bytes) \<times> bytes \<times> dm) option"
where
  "requestAuth E q p s =
     (case (if rqNames q = [] then Some 0 else selectAuthorizationTypeIndex (rqAuthName q) (rqNames q)) of
        None \<Rightarrow> Some (Inl noValidAuth, rqAuthData q, s)
      | Some j \<Rightarrow> do {
          (ok, p1, ad) \<leftarrow> checkAuthentication E p (rqDisplayID q) (rqAuthName q) (rqAuthData q);
          if \<not> ok then Some (Inl noAuthentic, ad, setProto (pAddr p) p1 s)
          else if j < length (rqNames q) then do {
            p2 \<leftarrow> setProtoDisplayAuthorization E (rqNames q ! j) p1;
            let auth = (case pXdmcpAuth p2 of Some a \<Rightarrow> Some a | None \<Rightarrow> pFileAuth p2);
            Some (Inr (case auth of Some a \<Rightarrow> (xaName a, xaData a) | None \<Rightarrow> ([], [])), ad, setProto (pAddr p) p2 s) }
          else Some (Inr ([], []), ad, setProto (pAddr p) p1 s) })"

definition request_respond ::
  "xenv \<Rightarrow> xread \<Rightarrow> sockaddr \<Rightarrow> nat \<Rightarrow> int \<Rightarrow> bytes \<Rightarrow> dm \<Rightarrow> (sent \<times> dm) option"
where
  "request_respond E R sa len n buf s =
     (case readRequest R buf of
        None \<Rightarrow> Some ([], s)
      | Some q \<Rightarrow>
          let decline = (\<lambda>reason ad. send_decline sa len (rqAuthName q) ad reason) in
          if n \<noteq> int (requestLen q) then Some ([], s)
          else if rqTypes q = [] \<or> length (rqAddrs q) \<noteq> length (rqTypes q)
          then Some (decline noValidAddr (rqAuthData q), s)
          else (case requestDisplay E sa len q s of
              (Inl reason, s) \<Rightarrow> Some (decline reason (rqAuthData q), s)
            | (Inr p, s) \<Rightarrow> do {
                (r, ad, s) \<leftarrow> requestAuth E q (snd p) s;
                Some (case r of
                  Inl reason \<Rightarrow>
                    (decline reason ad, s\<lparr>protos := disposeProtoDisplay (pAddr (snd p)) (protos s)\<rparr>)
                | Inr (zn, zd) \<Rightarrow>
                    (send_accept sa len (pSessionID (snd p)) (rqAuthName q) ad zn zd, s)) }))"

section \<open>Managing a display\<close>

text \<open>The text of a failure; the name is cut to 260 characters.\<close>

definition failedText :: "bytes \<Rightarrow> 32 word \<Rightarrow> bytes \<Rightarrow> bytes" where
  "failedText name sid reason =
     ascii ''Session '' @ decimal (unat sid) @ ascii '' failed for display '' @ take 260 name @ ascii '': '' @ reason"

definition send_failed :: "sockaddr \<Rightarrow> nat \<Rightarrow> bytes \<Rightarrow> 32 word \<Rightarrow> bytes \<Rightarrow> sent" where
  "send_failed sa len name sid reason =
     (let st = failedText name sid reason in
      [(sa, len, \<lparr>pkOpcode = FAILED, pkLength = word_of_nat (6 + length st),
         pkFields = [FCard32 sid, FArray8 st]\<rparr>)])"

text \<open>\<open>sendFailed\<close> for a display whose session could not start.\<close>

definition sendFailed :: "display \<Rightarrow> bytes \<Rightarrow> sent" where
  "sendFailed d reason =
     (case peerAddr d of
        None \<Rightarrow> []
      | Some (sa, len) \<Rightarrow> send_failed sa len (ascii (dname d)) (sessionID d) reason)"

definition send_refuse :: "sockaddr \<Rightarrow> nat \<Rightarrow> 32 word \<Rightarrow> sent" where
  "send_refuse sa len sid = [(sa, len, \<lparr>pkOpcode = REFUSE, pkLength = 4, pkFields = [FCard32 sid]\<rparr>)]"

text \<open>A display that is already there under the name is stopped.\<close>

definition stopNamed :: "string \<Rightarrow> dm \<Rightarrow> dm option" where
  "stopNamed n s = (case findDisplayByName n s of None \<Rightarrow> Some s | Some a \<Rightarrow> stopDisplay a s)"

text \<open>The terminal gets the chooser if it has not chosen yet and the lists say so.\<close>

definition manageChooser :: "xenv \<Rightarrow> sockaddr \<Rightarrow> dm \<Rightarrow> (bool \<times> dm) option" where
  "manageChooser E sa s =
     (let (family, addr) = convertAddr sa; ct = card16Of family;
          (hit, cs) = checkIndirectChoice (addr, netaddrPort sa, word_of_int ct) (choices s) in do {
        chooser \<leftarrow> (if hit then do {
            nm \<leftarrow> networkAddressToHostname E ct addr;
            useChooser ACL_DEPTH (accLists s) nm addr ct }
          else Some False);
        Some (chooser, s\<lparr>choices := cs\<rparr>) })"

definition fillDisplay ::
  "sockaddr \<Rightarrow> nat \<Rightarrow> protoInfo \<Rightarrow> 16 word \<Rightarrow> bytes \<Rightarrow> bool \<Rightarrow> display \<Rightarrow> display"
where
  "fillDisplay sa len p dn cls chooser d =
     d\<lparr>class2 := (if cls = [] then None else Some (chars (cstrOf cls))),
       displayType := or dForeign (or dTransient dFromXDMCP), sessionID := pSessionID p,
       peerAddr := Some (sa, len), displayNumber := dn, useChooserFlag := chooser,
       clientAddr := snd (convertAddr sa), clientPort := netaddrPort sa,
       connectionType := card16Of (fst (convertAddr sa))\<rparr>"

text \<open>The authorization goes to the display, allocation 34, and the protocol display is used up.\<close>

definition takeProto :: "xenv \<Rightarrow> protoInfo \<Rightarrow> addr \<Rightarrow> dm \<Rightarrow> bytes option \<times> dm" where
  "takeProto E p a s =
     (if pFileAuth p \<noteq> None \<and> \<not> xMok E 34 then (Some (ascii ''out of memory''), removeDisplay a s)
      else
        let s = (case pFileAuth p of
                   Some f \<Rightarrow> setD a (\<lambda>d. d\<lparr>authorizations := [xaData f]\<rparr>) s
                 | None \<Rightarrow> s)
        in (None, s\<lparr>protos := disposeProtoDisplay (pAddr p) (protos s)\<rparr>))"

text \<open>
  The new display for a protocol display. Allocations: class 29, address 30, display 31 to 33.
  The result is the failure message, if any.
\<close>

definition manageDisplay ::
  "xenv \<Rightarrow> sockaddr \<Rightarrow> nat \<Rightarrow> bytes \<Rightarrow> protoInfo \<Rightarrow> 16 word \<Rightarrow> bytes \<Rightarrow> dm \<Rightarrow> (bytes option \<times> dm) option"
where
  "manageDisplay E sa len name p dn cls s = do {
     s \<leftarrow> stopNamed (chars name) s;
     if cls \<noteq> [] \<and> \<not> xMok E 29 \<or> \<not> xMok E 30 then Some (Some (ascii ''out of memory''), s)
     else (case newDisplay (\<lambda>i. xMok E (31 + i)) (chars name) s of
         (None, s) \<Rightarrow> Some (Some (ascii ''out of memory''), s)
       | (Some a, s) \<Rightarrow> do {
           (chooser, s) \<leftarrow> manageChooser E sa s;
           Some (takeProto E p a (setD a (fillDisplay sa len p dn cls chooser) s)) }) }"

definition manage ::
  "xenv \<Rightarrow> xread \<Rightarrow> sockaddr \<Rightarrow> nat \<Rightarrow> int \<Rightarrow> bytes \<Rightarrow> dm \<Rightarrow> (sent \<times> dm) option"
where
  "manage E R sa len n buf s =
     (case (do { (sid, buf) \<leftarrow> rCARD32 R buf; (dn, buf) \<leftarrow> rCARD16 R buf; (cls, buf) \<leftarrow> rARRAY8 R buf;
                 Some (sid, dn, cls) }) of
        None \<Rightarrow> Some ([], s)
      | Some (sid, dn, cls) \<Rightarrow>
          if n \<noteq> int (4 + 2 + (2 + length cls)) then Some ([], s)
          else (case findProtoDisplay (protos s) (sa, len, dn) of
              None \<Rightarrow>
                (case findDisplayByAddress sa len dn s of
                   None \<Rightarrow> Some (send_refuse sa len sid, s)
                 | Some a \<Rightarrow> do {
                     d \<leftarrow> deref s a;
                     Some (if sessionID d = sid then [] else send_refuse sa len sid, s) })
            | Some (k, p) \<Rightarrow>
                if pSessionID p \<noteq> sid then Some (send_refuse sa len sid, s)
                else do {
                  nm \<leftarrow> networkAddressToName E (uint (pConnType p)) (pConnAddr p) sa dn;
                  (case nm of
                     None \<Rightarrow> Some (send_failed sa len (ascii ''(no name)'') sid (ascii ''out of memory''), s)
                   | Some name \<Rightarrow> do {
                       (err, s) \<leftarrow> manageDisplay E sa len name p dn cls s;
                       Some (case err of None \<Rightarrow> [] | Some r \<Rightarrow> send_failed sa len name sid r, s) }) }))"

section \<open>Keeping a session alive\<close>

definition send_alive ::
  "xread \<Rightarrow> sockaddr \<Rightarrow> nat \<Rightarrow> int \<Rightarrow> bytes \<Rightarrow> dm \<Rightarrow> (sent \<times> dm) option"
where
  "send_alive R sa len n buf s =
     (case (do { (dn, buf) \<leftarrow> rCARD16 R buf; (sid, buf) \<leftarrow> rCARD32 R buf; Some (dn, sid) }) of
        None \<Rightarrow> Some ([], s)
      | Some (dn, sid) \<Rightarrow>
          if n \<noteq> 6 then Some ([], s)
          else
            let a = (case findDisplayBySessionID sid s of
                       Some a \<Rightarrow> Some a | None \<Rightarrow> findDisplayByAddress sa len dn s);
                (up, sid2) = (case a of
                    None \<Rightarrow> (0, 0)
                  | Some a \<Rightarrow>
                      (case deref s a of
                         Some d \<Rightarrow>
                           if status d = running then (if sessionID d = sid then 1 else 0, sessionID d) else (0, 0)
                       | None \<Rightarrow> (0, 0)))
            in Some ([(sa, len, \<lparr>pkOpcode = ALIVE, pkLength = 5, pkFields = [FCard8 up, FCard32 sid2]\<rparr>)], s))"

section \<open>Dispatch\<close>

text \<open>A datagram and its sender, as \<^verbatim>\<open>XdmcpFill\<close> delivers them.\<close>

definition processRequestSocket ::
  "xenv \<Rightarrow> xread \<Rightarrow> sockaddr \<Rightarrow> nat \<Rightarrow> bytes \<Rightarrow> dm \<Rightarrow> (sent \<times> dm) option"
where
  "processRequestSocket E R sa len buf s =
     (case rHeader R buf of
        None \<Rightarrow> Some ([], s)
      | Some ((ver, op, n), buf) \<Rightarrow>
          if ver \<noteq> XDM_PROTOCOL_VERSION then Some ([], s)
          else if op = opcode BROADCAST_QUERY then broadcast_respond E R sa len n buf s
          else if op = opcode QUERY then query_respond E R sa len n buf s
          else if op = opcode INDIRECT_QUERY then indirect_respond E R sa len n buf s
          else if op = opcode FORWARD_QUERY then forward_respond E R sa len n buf s
          else if op = opcode REQUEST then request_respond E R sa len n buf s
          else if op = opcode MANAGE then manage E R sa len n buf s
          else if op = opcode KEEPALIVE then send_alive R sa len n buf s
          else Some ([], s))"

text \<open>Session ids start at a number that depends on the time.\<close>

definition initXdmcp :: "int \<Rightarrow> dm \<Rightarrow> dm" where
  "initXdmcp t s = s\<lparr>nextSession := word_of_int (and t 0x7fff * 16000)\<rparr>"

end
