(* ===== verification/DmStart.thy ===== *)
theory DmStart
  imports DmServer
begin

text \<open>
  Bringing displays up: the servers file (\<^verbatim>\<open>addServers\<close>, \<^verbatim>\<open>scanServers\<close> of
  \<^verbatim>\<open>kdm/backend/resource.c\<close>) and \<^verbatim>\<open>startDisplays\<close> of \<^verbatim>\<open>dm.c\<close>, with the assignment of virtual
  terminals. \<open>load\<close> stands for the answer of the configuration reader, another program, to
  \<^verbatim>\<open>loadDisplayResources\<close>; \<open>None\<close> is a negative result.
\<close>

section \<open>The servers lists\<close>

text \<open>The part of an entry before the first underscore names the display, the rest its class.\<close>

definition serverName :: "string \<Rightarrow> string" where
  "serverName srv = takeWhile (\<lambda>c. c \<noteq> CHR ''_'') srv"

definition serverClass :: "string \<Rightarrow> string option" where
  "serverClass srv = strchr srv (CHR ''_'')"

definition setServer :: "addr \<Rightarrow> string \<Rightarrow> string option \<Rightarrow> int \<Rightarrow> dm \<Rightarrow> dm" where
  "setServer a name cls bType s =
     setD a (\<lambda>d. d\<lparr>stillThere := True, class2 := cls,
       displayType := or (if peek name = CHR '':'' then dLocal else dForeign) bType,
       status := (if and bType d_lifetime = dReserve
                  then (if status d = notRunning then reserve else status d)
                  else (if status d = reserve then notRunning else status d))\<rparr>) s"

text \<open>\<open>mok k i\<close>: the allocations for entry \<open>k\<close>; a failed one ends the loop.\<close>

fun addServers :: "(nat \<Rightarrow> nat \<Rightarrow> bool) \<Rightarrow> nat \<Rightarrow> string list \<Rightarrow> int \<Rightarrow> dm \<Rightarrow> dm" where
  "addServers mok k [] bType s = s"
| "addServers mok k (srv # srvs) bType s =
     (if \<not> mok k 0 \<or> serverClass srv \<noteq> None \<and> \<not> mok k 1 then s
      else
        let name = serverName srv; cls = serverClass srv in
        (case findDisplayByName name s of
           Some a \<Rightarrow> addServers mok (k + 1) srvs bType (setServer a name cls bType s)
         | None \<Rightarrow>
             (case newDisplay (\<lambda>i. mok k (i + 2)) name s of
                (None, s) \<Rightarrow> s
              | (Some a, s) \<Rightarrow> addServers mok (k + 1) srvs bType (setServer a name cls bType s))))"

definition scanServers :: "(nat \<Rightarrow> nat \<Rightarrow> bool) \<Rightarrow> string list \<Rightarrow> string list \<Rightarrow> dm \<Rightarrow> dm" where
  "scanServers mok statics reserves s =
     addServers (\<lambda>k. mok (k + length statics)) 0 reserves (or dFromFile dReserve)
       (addServers mok 0 statics (or dFromFile dPermanent) s)"

section \<open>Virtual terminals\<close>

datatype vtPick = NoVT | TakeVT int | FollowVT addr

text \<open>
  The look at all displays for one terminal: \<open>None\<close> is the jump to the next one,
  \<open>NoVT\<close> that nobody objects.
\<close>

fun claimVT :: "int \<Rightarrow> display list \<Rightarrow> vtPick option" where
  "claimVT tvt [] = Some NoVT"
| "claimVT tvt (cd # ds) =
     (if reqSrvVT (conf cd) = tvt \<and> (status cd \<noteq> zombie \<or> zstatus cd \<noteq> DS_REMOVE) then None
      else if serverVT cd = tvt then
        (if status cd \<noteq> zombie \<or> zstatus cd = DS_REMOTE then None
         else if follower cd = None then Some (FollowVT (daddr cd))
         else claimVT tvt ds)
      else claimVT tvt ds)"

definition tryVT :: "bool \<Rightarrow> int \<Rightarrow> dm \<Rightarrow> vtPick option" where
  "tryVT volun tvt s =
     (case claimVT tvt (displays s) of
        None \<Rightarrow> None
      | Some NoVT \<Rightarrow> (if \<not> volun \<or> \<not> bit (busyVTs s) (nat tvt) then Some (TakeVT tvt) else None)
      | Some p \<Rightarrow> Some p)"

text \<open>Past the configured list all terminals up to 15 are tried.\<close>

function climbVT :: "int \<Rightarrow> dm \<Rightarrow> vtPick" where
  "climbVT tvt s =
     (if 16 \<le> tvt + 1 then NoVT
      else case tryVT True (tvt + 1) s of Some p \<Rightarrow> p | None \<Rightarrow> climbVT (tvt + 1) s)"
  by auto
termination by (relation "measure (\<lambda>(t, s). nat (16 - t))") auto

declare climbVT.simps [simp del]

fun listVT :: "string list \<Rightarrow> int \<Rightarrow> dm \<Rightarrow> vtPick" where
  "listVT [] tvt s = climbVT tvt s"
| "listVT (w # ws) _ s =
     (let t = atoi w; volun = (t < 0); tvt = (if t < 0 then - t else t) in
      if tvt = 0 \<or> 16 \<le> tvt then listVT ws tvt s
      else case tryVT volun tvt s of Some p \<Rightarrow> p | None \<Rightarrow> listVT ws tvt s)"

definition allocateVT :: "addr \<Rightarrow> dm \<Rightarrow> dm option" where
  "allocateVT a s = do {
     d \<leftarrow> deref s a;
     Some (if isLocal d \<and> status d = notRunning \<and> serverVT d = 0 \<and> 0 \<le> reqSrvVT (conf d) then
       (if reqSrvVT (conf d) \<noteq> 0 \<and> reqSrvVT (conf d) < 16
        then setD a (\<lambda>d. d\<lparr>serverVT := reqSrvVT (conf d)\<rparr>) s
        else
          (case listVT (serverVTs s) 0 s of
             NoVT \<Rightarrow> s
           | TakeVT t \<Rightarrow> setD a (\<lambda>d. d\<lparr>serverVT := t\<rparr>) s
           | FollowVT b \<Rightarrow>
               setD b (\<lambda>cd. cd\<lparr>follower := Some a\<rparr>) (setD a (\<lambda>d. d\<lparr>serverVT := -1\<rparr>) s)))
      else s) }"

section \<open>Starting displays\<close>

definition checkDisplayStatus :: "(display \<Rightarrow> dpyConf option) \<Rightarrow> addr \<Rightarrow> dm \<Rightarrow> dm option" where
  "checkDisplayStatus load a s = do {
     d \<leftarrow> deref s a;
     if origin d = dFromFile \<and> \<not> stillThere d then stopDisplay a s
     else if status d = notRunning then
       (case load d of
          None \<Rightarrow> stopDisplay a s
        | Some c \<Rightarrow> Some (setD a (\<lambda>d. d\<lparr>conf := c\<rparr>) s))
     else Some s }"

definition startDisplay :: "addr \<Rightarrow> dm \<Rightarrow> dm option" where
  "startDisplay a s = do {
     d \<leftarrow> deref s a;
     if stopping s then stopDisplay a s
     else if serverVT d < 0 then Some s
     else
       let s = setD a (\<lambda>d. d\<lparr>status := running\<rparr>) s in
       if isLocal d then
         let s = setD a (\<lambda>d. d\<lparr>conf := (conf d)\<lparr>pingInterval := 0\<rparr>\<rparr>) s;
             s = (if authorize (conf d) then
                    (let s = act (WriteAuth a) s in
                     if serverPid d \<noteq> -1 \<and> resetForAuth (conf d) then act (Kill (serverPid d) SIGHUP) s
                     else s)
                  else s)
         in if serverPid d = -1 then Some (setD a (\<lambda>d. d\<lparr>serverStatus := awaiting\<rparr>) s)
            else startDisplayP2 a s
       else
         startDisplayP2 a (if authorizations d \<noteq> [] then act (WriteAuth a) s else s) }"

definition kickDisplay :: "addr \<Rightarrow> dm \<Rightarrow> dm option" where
  "kickDisplay a s = do {
     d \<leftarrow> deref s a;
     s \<leftarrow> (if status d = notRunning then startDisplay a s else Some s);
     d \<leftarrow> deref s a;
     if serverStatus d = awaiting \<and> startingServer s = None then startServer a s else Some s }"

definition startDisplays :: "(display \<Rightarrow> dpyConf option) \<Rightarrow> dm \<Rightarrow> dm option" where
  "startDisplays load s = do {
     s \<leftarrow> forEachDisplay (checkDisplayStatus load) s;
     s \<leftarrow> forEachDisplayRev allocateVT s;
     forEachDisplay kickDisplay s }"

section \<open>Starting displays keeps the invariant\<close>

lemma stops_refl: "ok s \<Longrightarrow> stops a s (Some s)"
  by (simp add: stopsI)

lemma ok_neutral:
  assumes "ok s" "\<And>d. daddr (f d) = daddr d" "\<And>d. dname (f d) = dname d"
    "\<And>d. status (f d) = status d" "\<And>d. serverStatus (f d) = serverStatus d"
    "\<And>d. dpid (f d) = dpid d" "\<And>d. serverPid (f d) = serverPid d"
  shows "ok (setD a f s)"
  using assms unfolding ok_def by (intro okBut_neutral)

lemma checkDisplayStatus_ok:
  assumes "ok s" "a \<in> set (live s)"
  shows "stops a s (checkDisplayStatus load a s)"
proof -
  obtain d where d: "deref s a = Some d" using assms deref_live by blast
  have "ok (setD a (\<lambda>d. d\<lparr>conf := c\<rparr>) s)" for c by (rule ok_neutral [OF assms(1)]) simp_all
  then have "stops a s (Some (setD a (\<lambda>d. d\<lparr>conf := c\<rparr>) s))" for c by (intro stopsI) (simp_all add: live_setD)
  then show ?thesis
    using d stops_stopDisplay [OF assms] stops_refl [OF assms(1)]
    by (simp add: checkDisplayStatus_def split: option.split)
qed

lemma allocateVT_ok:
  assumes "ok s" "a \<in> set (live s)"
  shows "stops a s (allocateVT a s)"
proof -
  obtain d where d: "deref s a = Some d" using assms deref_live by blast
  have vt: "ok (setD a (\<lambda>d. d\<lparr>serverVT := v d\<rparr>) s)" for v
    by (rule ok_neutral [OF assms(1)]) simp_all
  moreover have "ok (setD b (\<lambda>cd. cd\<lparr>follower := Some a\<rparr>) (setD a (\<lambda>d. d\<lparr>serverVT := v\<rparr>) s))" for v b
    by (rule ok_neutral [OF vt]) simp_all
  ultimately have
    "stops a s (Some (setD a (\<lambda>d. d\<lparr>serverVT := w d\<rparr>) s))"
    "stops a s (Some (setD b (\<lambda>cd. cd\<lparr>follower := Some a\<rparr>) (setD a (\<lambda>d. d\<lparr>serverVT := v\<rparr>) s)))" for v b w
    by (auto intro!: stopsI simp: live_setD)
  with d stops_refl [OF assms(1)] show ?thesis
    by (simp add: allocateVT_def split: vtPick.split)
qed

lemma startDisplay_ok:
  assumes ok: "ok s" and d: "deref s a = Some d" and st: "status d = notRunning" "\<not> stopping s"
  shows "keeps s (startDisplay a s)"
proof (cases "serverVT d < 0")
  case True
  with assms show ?thesis by (simp add: startDisplay_def keepsI)
next
  case False
  have w: "okW d" "okStat d" using ok_derefD [OF ok d] by auto
  have ign: "serverStatus d = ignore" "dpid d = -1" using w st by (auto simp: okW_def okStat_def)
  define s1 where "s1 = setD a (\<lambda>d. d\<lparr>status := running\<rparr>) s"
  define f where "f = (\<lambda>d. d\<lparr>conf := (conf d)\<lparr>pingInterval := 0\<rparr>\<rparr> :: display)"
  define es where "es = (if authorize (conf d)
     then WriteAuth a # (if serverPid d \<noteq> -1 \<and> resetForAuth (conf d) then [Kill (serverPid d) SIGHUP] else [])
     else [])"
  define s2 where "s2 = foldl (\<lambda>s e. act e s) (setD a f s1) es"
  have ok1: "ok s1"
    unfolding ok_def s1_def
    by (rule okBut_setD [OF _ _ d, of None]) (use ok w ign in \<open>simp_all add: ok_def okW_def okStat_def isStarting_def\<close>)
  have ok2: "ok s2"
    using ok_neutral [OF ok1, of f a] w by (auto simp: s2_def es_def f_def okW_def okPid_def)
  have l2: "live s2 = live s" "sameEnv s s2"
    by (simp_all add: s2_def es_def f_def s1_def live_setD)
  have d2: "deref s2 a = Some (f (d\<lparr>status := running\<rparr>))"
    using d by (simp add: s2_def es_def f_def s1_def deref_setD)
  have aw: "keeps s (Some (setD a (\<lambda>d. d\<lparr>serverStatus := awaiting\<rparr>) s2))" if "serverPid d = -1"
  proof (rule keepsI)
    show "ok (setD a (\<lambda>d. d\<lparr>serverStatus := awaiting\<rparr>) s2)"
      unfolding ok_def
      by (rule okBut_setD [OF _ _ d2, of None])
        (use ok2 ign that in \<open>simp_all add: ok_def f_def okW_def okStat_def isStarting_def okPid_def\<close>)
  qed (use l2 in \<open>simp_all add: live_setD\<close>)
  have p2: "keeps s (startDisplayP2 a s2)"
    by (rule keeps_trans [OF startDisplayP2_ok [OF _ _ d2, of None] l2])
      (use ok2 ign in \<open>simp_all add: ok_def f_def\<close>)
  have p1: "keeps s (startDisplayP2 a (if authorizations d \<noteq> [] then act (WriteAuth a) s1 else s1))"
    by (rule keeps_trans [OF startDisplayP2_ok [of None _ _ "d\<lparr>status := running\<rparr>"]])
      (use ok1 ign d in \<open>simp_all add: ok_def s1_def live_setD deref_setD\<close>)
  have "startDisplay a s = (if isLocal d then
      (if serverPid d = -1 then Some (setD a (\<lambda>d. d\<lparr>serverStatus := awaiting\<rparr>) s2) else startDisplayP2 a s2)
     else startDisplayP2 a (if authorizations d \<noteq> [] then act (WriteAuth a) s1 else s1))"
    using d st False by (simp add: startDisplay_def s1_def s2_def es_def f_def Let_def)
  with aw p2 p1 show ?thesis by simp
qed

lemma kickDisplay_ok:
  assumes ok: "ok s" "a \<in> set (live s)" and run: "\<not> stopping s"
  shows "stops a s (kickDisplay a s)"
proof -
  obtain d where d: "deref s a = Some d" using ok deref_live by blast
  have "keeps s (if status d = notRunning then startDisplay a s else Some s)"
    using startDisplay_ok [OF ok(1) d _ run] ok(1) by (simp add: keepsI)
  then obtain t where t: "(if status d = notRunning then startDisplay a s else Some s) = Some t"
      "ok t" "live t = live s" "sameEnv s t" by (auto simp: keeps_def)
  obtain e where e: "deref t a = Some e" using t ok deref_live [of a t] by auto
  have "stops a t (if serverStatus e = awaiting \<and> startingServer t = None then startServer a t else Some t)"
    using startServer_ok [OF t(2) e] stops_refl [OF t(2)] by simp
  then have "stops a s (if serverStatus e = awaiting \<and> startingServer t = None then startServer a t else Some t)"
    using t by (elim stops_trans) simp_all
  then show ?thesis using d e t(1) by (simp add: kickDisplay_def)
qed

lemma stops_walk_rev:
  assumes "\<And>a t. ok t \<Longrightarrow> sameEnv s t \<Longrightarrow> a \<in> set (live t) \<Longrightarrow> stops a t (f a t)" and "ok s"
  shows "\<exists>s'. forEachDisplayRev f s = Some s' \<and> ok s' \<and> sameEnv s s' \<and> set (live s') \<subseteq> set (live s)"
  unfolding forEachDisplayRev_def
proof (rule walk_live)
  fix a t assume t: "ok t \<and> sameEnv s t \<and> set (live t) \<subseteq> set (live s)" "a \<in> set (live t)"
  with assms(1) [of t a] show "\<exists>s'. f a t = Some s' \<and>
      (ok s' \<and> sameEnv s s' \<and> set (live s') \<subseteq> set (live s)) \<and> set (live t) - {a} \<subseteq> set (live s')"
    by (auto simp: stops_def intro: sameEnv_trans)
qed (use assms(2) in \<open>auto simp: ok_def okBut_def wfList_def\<close>)

lemma startDisplays_ok:
  assumes "ok s" "\<not> stopping s"
  shows "\<exists>s'. startDisplays load s = Some s' \<and> ok s' \<and> sameEnv s s'"
proof -
  obtain s1 where s1: "forEachDisplay (checkDisplayStatus load) s = Some s1" "ok s1" "sameEnv s s1"
    using stops_walk [of s "checkDisplayStatus load"] checkDisplayStatus_ok assms(1) by blast
  obtain s2 where s2: "forEachDisplayRev allocateVT s1 = Some s2" "ok s2" "sameEnv s1 s2"
    using stops_walk_rev [of s1 allocateVT] allocateVT_ok s1(2) by blast
  have env: "sameEnv s s2" using s1 s2 sameEnv_trans by blast
  have "stops a t (kickDisplay a t)" if "ok t" "sameEnv s2 t" "a \<in> set (live t)" for a t
    by (rule kickDisplay_ok) (use that env assms(2) in \<open>simp_all add: sameEnv_def\<close>)
  then obtain s3 where s3: "forEachDisplay kickDisplay s2 = Some s3" "ok s3" "sameEnv s2 s3"
    using stops_walk [OF _ s2(2), of kickDisplay] by blast
  then have "startDisplays load s = Some s3" using s1(1) s2(1) by (simp add: startDisplays_def)
  moreover have "sameEnv s s3" using env s3(3) by (rule sameEnv_trans)
  ultimately show ?thesis using s3(2) by blast
qed

section \<open>The servers lists keep the invariant\<close>

lemma newDisplay_frame:
  assumes "newDisplay mok n s = (r, s')"
  shows "startingServer s' = startingServer s" "serverTimeout s' = serverTimeout s"
    "forks s' = forks s" "actions s' = actions s" "stopping s' = stopping s" "sdRec s' = sdRec s"
    "consoleTTYs s' = consoleTTYs s" "now s' = now s" "accLists s' = accLists s" "protos s' = protos s"
  using assms by (auto simp: newDisplay_def Let_def split: if_splits)

lemma deref_newDisplay:
  assumes "wfList s" "newDisplay mok n s = (r, s')"
  shows "deref s' b = (if r = Some b then Some (emptyDisplay b n) else deref s b)"
proof (cases r)
  case None
  then show ?thesis using newDisplay_None assms(2) by (auto simp: deref_def)
next
  case (Some a)
  note nd = newDisplay_Some [OF assms(2) [unfolded Some]]
  show ?thesis
  proof (cases "a = b")
    case True
    then show ?thesis using Some nd(4) by simp
  next
    case False
    then show ?thesis using Some nd(2) by (simp add: deref_def)
  qed
qed

lemma newDisplay_ok:
  assumes ok: "ok s" and nd: "newDisplay mok n s = (r, s')"
  shows "ok s'"
proof -
  have wf: "wfList s" using ok ok_wfList by blast
  note fr = newDisplay_frame [OF nd] and dr = deref_newDisplay [OF wf nd]
  have new: "okW (emptyDisplay b n)" "okStat (emptyDisplay b n)" "\<not> isStarting (emptyDisplay b n)" for b
    by (simp_all add: okW_def okStat_def isStarting_def okPid_def)
  have fresh: "deref s b = None" if "r = Some b" for b
    using that newDisplay_Some(1) nd wf by (auto simp: deref_None wfList_def)
  have "okStarting s" using ok by (simp add: ok_def okBut_def)
  then have "okStarting s'"
    using fresh new(3) by (auto simp: okStarting_def dr fr) (metis option.distinct(1))+
  moreover have "wfList s'" using newDisplay_wf [OF wf nd] .
  moreover have "okW d \<and> okStat d" if "deref s' b = Some d" for b d
    using that new ok by (auto simp: dr ok_def okBut_def split: if_splits)
  ultimately show ?thesis using ok by (simp add: ok_def okBut_def fr)
qed

lemma setServer_ok:
  assumes ok: "ok s"
  shows "ok (setServer a n c t s)"
proof (cases "deref s a")
  case None
  then have "\<forall>d \<in> set (displays s). daddr d \<noteq> a" by (auto simp: deref_None live_def)
  then have "setServer a n c t s = s"
    by (auto simp: setServer_def setD_def update_where_def intro!: dm.equality map_idI)
  with ok show ?thesis by simp
next
  case (Some d)
  let ?f = "\<lambda>d. d\<lparr>stillThere := True, class2 := c,
       displayType := or (if peek n = CHR '':'' then dLocal else dForeign) t,
       status := (if and t d_lifetime = dReserve
                  then (if status d = notRunning then reserve else status d)
                  else (if status d = reserve then notRunning else status d))\<rparr>"
  have w: "okW d" "okStat d" using ok_derefD [OF ok Some] by auto
  have "okBut None (setD a ?f s)"
  proof (rule okBut_setD [OF _ _ Some, of None])
    show "okW (?f d)" using w by (auto simp: okW_def)
    show "None = None \<longrightarrow> okStat (?f d)"
      using w by (cases "status d") (auto simp: okStat_def)
  qed (use ok in \<open>simp_all add: ok_def isStarting_def\<close>)
  then show ?thesis by (simp add: ok_def setServer_def)
qed

lemma addServers_ok: "ok s \<Longrightarrow> ok (addServers mok k srvs t s)"
proof (induction mok k srvs t s rule: addServers.induct)
  case (2 mok k srv srvs t s)
  show ?case
  proof (cases "\<not> mok k 0 \<or> serverClass srv \<noteq> None \<and> \<not> mok k 1")
    case True
    with 2(3) show ?thesis by simp
  next
    case False
    show ?thesis
    proof (cases "findDisplayByName (serverName srv) s")
      case None
      obtain r s1 where nd: "newDisplay (\<lambda>i. mok k (i + 2)) (serverName srv) s = (r, s1)" by fastforce
      then have "ok s1" using newDisplay_ok 2(3) by blast
      with None nd False 2(1) [OF False refl refl None nd [symmetric]] setServer_ok 2(3)
      show ?thesis by (cases r) simp_all
    next
      case (Some a)
      with False 2(2) [OF False refl refl Some] setServer_ok [OF 2(3)] 2(3) show ?thesis by simp
    qed
  qed
qed simp

lemma scanServers_ok: "ok s \<Longrightarrow> ok (scanServers mok st rs s)"
  by (simp add: scanServers_def addServers_ok)

text \<open>Every entry of the lists has its display afterwards, when no allocation fails.\<close>

definition names :: "dm \<Rightarrow> string set" where
  "names s = dname ` set (displays s)"

lemma findDisplayByName_names: "findDisplayByName n s \<noteq> None \<longleftrightarrow> n \<in> names s"
  by (auto simp: findDisplayByName_def find_None_iff names_def)

lemma names_setD: "(\<And>d. dname (f d) = dname d) \<Longrightarrow> names (setD a f s) = names s"
proof -
  assume f: "\<And>d. dname (f d) = dname d"
  then have "map dname (displays (setD a f s)) = map dname (displays s)"
    by (simp add: setD_def map_update_where)
  then show ?thesis unfolding names_def by (metis list.set_map)
qed

lemma names_setServer [simp]: "names (setServer a m c t s) = names s"
  unfolding setServer_def by (rule names_setD) simp

lemma names_newDisplay:
  "newDisplay mok n s = (r, s') \<Longrightarrow> names s' = (if r = None then names s else insert n (names s))"
  using newDisplay_None newDisplay_Some(2) by (cases r) (fastforce simp: names_def)+

lemma addServers_names: "names s \<subseteq> names (addServers mok k srvs t s)"
proof (induction mok k srvs t s rule: addServers.induct)
  case (2 mok k srv srvs t s)
  show ?case
  proof (cases "\<not> mok k 0 \<or> serverClass srv \<noteq> None \<and> \<not> mok k 1")
    case True
    then show ?thesis by simp
  next
    case False
    show ?thesis
    proof (cases "findDisplayByName (serverName srv) s")
      case None
      obtain r s1 where nd: "newDisplay (\<lambda>i. mok k (i + 2)) (serverName srv) s = (r, s1)" by fastforce
      with None False 2(1) [OF False refl refl None nd [symmetric]] names_newDisplay [OF nd]
      show ?thesis by (cases r) auto
    next
      case (Some a)
      with False 2(2) [OF False refl refl Some] show ?thesis by simp
    qed
  qed
qed simp

lemma addServers_all:
  "\<forall>i j. mok i j \<Longrightarrow> serverName ` set srvs \<subseteq> names (addServers mok k srvs t s)"
proof (induction srvs arbitrary: k s)
  case (Cons srv srvs)
  let ?n = "serverName srv"
  have ok: "mok i j" for i j using Cons.prems by blast
  show ?case
  proof (cases "findDisplayByName ?n s")
    case (Some a)
    then have "?n \<in> names s" using findDisplayByName_names [of ?n s] by simp
    with Some Cons.IH [OF Cons.prems, of "k + 1"] addServers_names ok show ?thesis
      by (auto simp: subset_iff)
  next
    case None
    obtain r s1 where nd: "newDisplay (\<lambda>i. mok k (i + 2)) ?n s = (r, s1)" by fastforce
    obtain a where r: "r = Some a" using nd ok by (auto simp: newDisplay_def Let_def split: if_splits)
    have "?n \<in> names s1" using names_newDisplay [OF nd] r by simp
    with None nd r Cons.IH [OF Cons.prems, of "k + 1"] addServers_names ok show ?thesis
      by (auto simp: subset_iff)
  qed
qed simp

section \<open>Terminals\<close>

lemma claimVT_range: "claimVT t ds = Some p \<Longrightarrow> p = NoVT \<or> (\<exists>b. p = FollowVT b)"
  by (induction t ds rule: claimVT.induct) (auto split: if_splits)

lemma tryVT_range: "tryVT v t s = Some p \<Longrightarrow> p = TakeVT t \<or> (\<exists>b. p = FollowVT b)"
  by (cases "claimVT t (displays s)") (auto simp: tryVT_def split: vtPick.splits if_splits dest: claimVT_range)


lemma claimVT_NoVT:
  "claimVT t ds = Some NoVT \<Longrightarrow> cd \<in> set ds \<Longrightarrow> serverVT cd = t \<Longrightarrow>
     status cd = zombie \<and> zstatus cd \<noteq> DS_REMOTE \<and> follower cd \<noteq> None"
  by (induction t ds rule: claimVT.induct) (auto split: if_splits)

lemma claimVT_NoVT_req:
  "claimVT t ds = Some NoVT \<Longrightarrow> cd \<in> set ds \<Longrightarrow> reqSrvVT (conf cd) = t \<Longrightarrow>
     status cd = zombie \<and> zstatus cd = DS_REMOVE"
  by (induction t ds rule: claimVT.induct) (auto split: if_splits)

lemma claimVT_Follow:
  "claimVT t ds = Some (FollowVT b) \<Longrightarrow>
     \<exists>cd \<in> set ds. daddr cd = b \<and> serverVT cd = t \<and> status cd = zombie \<and> zstatus cd \<noteq> DS_REMOTE
       \<and> follower cd = None"
  by (induction t ds rule: claimVT.induct) (auto split: if_splits)

text \<open>What the walk over the terminals may come up with.\<close>

definition goodPick :: "dm \<Rightarrow> vtPick \<Rightarrow> bool" where
  "goodPick s p \<longleftrightarrow>
     (case p of
        NoVT \<Rightarrow> True
      | TakeVT t \<Rightarrow> 1 \<le> t \<and> t \<le> 15 \<and> claimVT t (displays s) = Some NoVT
      | FollowVT b \<Rightarrow> (\<exists>t. 1 \<le> t \<and> t \<le> 15 \<and> claimVT t (displays s) = Some (FollowVT b)))"

lemma tryVT_good: "tryVT v t s = Some p \<Longrightarrow> 1 \<le> t \<Longrightarrow> t \<le> 15 \<Longrightarrow> goodPick s p"
  using claimVT_range [of t "displays s"]
  by (auto simp: tryVT_def goodPick_def split: option.splits vtPick.splits if_splits)

lemma climbVT_good: "0 \<le> t \<Longrightarrow> goodPick s (climbVT t s)"
proof (induction t s rule: climbVT.induct)
  case (1 t s)
  show ?case
  proof (cases "16 \<le> t + 1")
    case True
    then show ?thesis by (simp add: climbVT.simps [of t] goodPick_def)
  next
    case False
    show ?thesis
    proof (cases "tryVT True (t + 1) s")
      case None
      with False 1 show ?thesis by (simp add: climbVT.simps [of t])
    next
      case (Some p)
      have "goodPick s p" by (rule tryVT_good [OF Some]) (use False 1 in simp_all)
      with Some False show ?thesis by (simp add: climbVT.simps [of t])
    qed
  qed
qed

lemma listVT_good: "0 \<le> t \<Longrightarrow> goodPick s (listVT ws t s)"
proof (induction ws arbitrary: t)
  case Nil
  then show ?case by (simp add: climbVT_good)
next
  case (Cons w ws)
  define v where "v = (if atoi w < 0 then - atoi w else atoi w)"
  have v: "0 \<le> v" by (simp add: v_def)
  have e: "listVT (w # ws) t s = (if v = 0 \<or> 16 \<le> v then listVT ws v s
      else case tryVT (atoi w < 0) v s of Some p \<Rightarrow> p | None \<Rightarrow> listVT ws v s)"
    by (auto simp: v_def Let_def split: option.split)
  show ?case
  proof (cases "v = 0 \<or> 16 \<le> v")
    case True
    with Cons.IH [OF v] show ?thesis unfolding e by simp
  next
    case False
    then have "goodPick s p" if "tryVT (atoi w < 0) v s = Some p" for p
      using tryVT_good [OF that] v by simp
    with Cons.IH [OF v] False show ?thesis unfolding e by (simp split: option.split)
  qed
qed

text \<open>
  What \<open>allocateVT\<close> promises: the display gets no terminal, or one from 1 to 15 that no display holds
  or is configured for - dying ones that have a follower or are to be removed do not count -, or waits (-1) for
  the terminal of a dying one without a follower yet.
\<close>

definition vtPromise :: "addr \<Rightarrow> dm \<Rightarrow> dm \<Rightarrow> bool" where
  "vtPromise a s s' \<longleftrightarrow>
     s' = s
   \<or> (\<exists>t. s' = setD a (\<lambda>d. d\<lparr>serverVT := t\<rparr>) s \<and> 1 \<le> t \<and> t \<le> 15 \<and>
        (\<forall>cd \<in> set (displays s).
           (serverVT cd = t \<longrightarrow> status cd = zombie \<and> zstatus cd \<noteq> DS_REMOTE \<and> follower cd \<noteq> None)
         \<and> (reqSrvVT (conf cd) = t \<longrightarrow> status cd = zombie \<and> zstatus cd = DS_REMOVE)))
   \<or> (\<exists>b t cd. s' = setD b (\<lambda>cd. cd\<lparr>follower := Some a\<rparr>) (setD a (\<lambda>d. d\<lparr>serverVT := -1\<rparr>) s)
        \<and> cd \<in> set (displays s) \<and> daddr cd = b \<and> serverVT cd = t \<and> 1 \<le> t \<and> t \<le> 15
        \<and> status cd = zombie \<and> zstatus cd \<noteq> DS_REMOTE \<and> follower cd = None)"

lemma goodPick_TakeVT:
  assumes "goodPick s (TakeVT t)" "cd \<in> set (displays s)"
  shows "(serverVT cd = t \<longrightarrow> status cd = zombie \<and> zstatus cd \<noteq> DS_REMOTE \<and> follower cd \<noteq> None)
     \<and> (reqSrvVT (conf cd) = t \<longrightarrow> status cd = zombie \<and> zstatus cd = DS_REMOVE)"
  using assms claimVT_NoVT [of t "displays s" cd] claimVT_NoVT_req [of t "displays s" cd]
  by (simp add: goodPick_def)

lemma allocateVT_promise:
  assumes "deref s a = Some d" and "reqSrvVT (conf d) = 0 \<or> 16 \<le> reqSrvVT (conf d)"
  shows "\<exists>s'. allocateVT a s = Some s' \<and> vtPromise a s s'"
proof (cases "isLocal d \<and> status d = notRunning \<and> serverVT d = 0")
  case False
  with assms show ?thesis by (auto simp: allocateVT_def vtPromise_def)
next
  case True
  have good: "goodPick s (listVT (serverVTs s) 0 s)" by (simp add: listVT_good)
  have r: "allocateVT a s = Some (case listVT (serverVTs s) 0 s of
             NoVT \<Rightarrow> s
           | TakeVT t \<Rightarrow> setD a (\<lambda>d. d\<lparr>serverVT := t\<rparr>) s
           | FollowVT b \<Rightarrow>
               setD b (\<lambda>cd. cd\<lparr>follower := Some a\<rparr>) (setD a (\<lambda>d. d\<lparr>serverVT := -1\<rparr>) s))"
    using assms True by (auto simp: allocateVT_def)
  show ?thesis
  proof (cases "listVT (serverVTs s) 0 s")
    case NoVT
    then show ?thesis using r by (simp add: vtPromise_def)
  next
    case (TakeVT t)
    then show ?thesis
      using r good goodPick_TakeVT [of s t] by (simp add: vtPromise_def goodPick_def) blast
  next
    case (FollowVT b)
    then obtain t where "1 \<le> t" "t \<le> 15" "claimVT t (displays s) = Some (FollowVT b)"
      using good by (auto simp: goodPick_def)
    with claimVT_Follow [of t "displays s" b] FollowVT r show ?thesis
      by (simp add: vtPromise_def) blast
  qed
qed

text \<open>The display has a terminal that no display held before.\<close>

definition soleVT :: "addr \<Rightarrow> display \<Rightarrow> dm \<Rightarrow> dm \<Rightarrow> bool" where
  "soleVT a d s s' \<longleftrightarrow> (\<forall>d'. deref s' a = Some d' \<and> serverVT d' \<noteq> serverVT d \<and> serverVT d' \<noteq> -1 \<longrightarrow>
     serverVT d' \<notin> serverVT ` set (displays s))"

lemma vtPromise_sole:
  assumes "vtPromise a s s'" "list_all (\<lambda>cd. follower cd = None) (displays s)" "deref s a = Some d"
  shows "soleVT a d s s'"
  using assms unfolding vtPromise_def soleVT_def
  by (elim disjE exE conjE) (auto simp: list_all_iff deref_setD split: if_splits)

text \<open>C9. A display without a configured terminal is left without one, or gets a terminal from 1 to 15, or waits for
  the terminal of a dying display as its only follower. While no display has a follower, the terminal it gets is one
  that no display holds. Once a dying display has a follower, its terminal counts as free, although the follower is
  to inherit it: then two displays get the same terminal (\<open>DmRun.one_terminal_for_two\<close>, \<^verbatim>\<open>dm.c:1438\<close>).\<close>

theorem allocateVT_terminal:
  assumes "deref s a = Some d" and "reqSrvVT (conf d) = 0 \<or> 16 \<le> reqSrvVT (conf d)"
  shows "\<exists>s'. allocateVT a s = Some s' \<and> vtPromise a s s'
     \<and> (list_all (\<lambda>cd. follower cd = None) (displays s) \<longrightarrow> soleVT a d s s')"
proof -
  obtain s' where "allocateVT a s = Some s'" "vtPromise a s s'" using allocateVT_promise [OF assms] by blast
  then show ?thesis using vtPromise_sole [OF _ _ assms(1)] by blast
qed

definition twoDpys :: dm where
  "twoDpys = initDm\<lparr>serverVTs := [''-7'', ''9''], displays :=
     [(emptyDisplay 1 '':1'')\<lparr>displayType := or dLocal dPermanent\<rparr>,
      (emptyDisplay 0 '':0'')\<lparr>displayType := or dLocal dPermanent, status := running, serverVT := 7\<rparr>]\<rparr>"

theorem allocateVT_terminal_witness:
  "\<exists>s'. allocateVT 1 twoDpys = Some s' \<and> vtPromise 1 twoDpys s'
     \<and> soleVT 1 ((emptyDisplay 1 '':1'')\<lparr>displayType := or dLocal dPermanent\<rparr>) twoDpys s'
     \<and> map serverVT (displays s') = [9, 7]"
proof -
  have d: "deref twoDpys 1 = Some ((emptyDisplay 1 '':1'')\<lparr>displayType := or dLocal dPermanent\<rparr>)"
    by (simp add: deref_def twoDpys_def)
  have f: "list_all (\<lambda>cd. follower cd = None) (displays twoDpys)" by code_simp
  obtain s' where "allocateVT 1 twoDpys = Some s'" "vtPromise 1 twoDpys s'"
      "soleVT 1 ((emptyDisplay 1 '':1'')\<lparr>displayType := or dLocal dPermanent\<rparr>) twoDpys s'"
    using allocateVT_terminal [OF d] f by (auto simp: emptyDisplay_def emptyConf_def)
  moreover have "map_option (\<lambda>s. map serverVT (displays s)) (allocateVT 1 twoDpys) = Some [9, 7]"
    by code_simp
  ultimately show ?thesis by simp
qed

end
