(* ===== verification/Sessions.thy ===== *)
theory Sessions
  imports DmStart
begin

text \<open>
  Who is logged in: \<open>listSessions\<close> and \<open>anyUserLogins\<close> of \<^verbatim>\<open>kdm/backend/util.c\<close>. The X
  sessions come from the display list, the others from utmp; the callbacks of the C
  code are the lists of what they are called for.
\<close>

abbreviation lstRemote :: int where "lstRemote \<equiv> 1"
abbreviation lstPassive :: int where "lstPassive \<equiv> 2"
abbreviation lstTTY :: int where "lstTTY \<equiv> 4"

definition flagged :: "int \<Rightarrow> int \<Rightarrow> bool" where
  "flagged flags f \<longleftrightarrow> and flags f \<noteq> 0"

definition listXSessions :: "int \<Rightarrow> dm \<Rightarrow> display list" where
  "listXSessions flags s =
     filter (\<lambda>di. (flagged flags lstRemote \<or> isLocal di)
        \<and> (status di = remoteLogin
           \<or> (if flagged flags lstPassive then status di = running else 0 \<le> userSess di)))
       (displays s)"

definition ttySession :: "int \<Rightarrow> utmpEntry \<Rightarrow> bool" where
  "ttySession flags ut \<longleftrightarrow>
     utIsUser ut \<and> utAlive ut
     \<and> (if utHost ut \<noteq> [] then flagged flags lstRemote else utLine ut \<noteq> [] \<and> utConsole ut)
     \<and> strNChrCnt (utLine ut) 32 (CHR '':'') = 0
     \<and> strNChrCnt (utHost ut) 256 (CHR '':'') \<noteq> 1"

definition listTTYSessions :: "int \<Rightarrow> dm \<Rightarrow> utmpEntry list" where
  "listTTYSessions flags s =
     (if flagged flags lstTTY then filter (ttySession flags) (utmpFile s) else [])"

definition noteXSession :: "int \<Rightarrow> display \<Rightarrow> bool" where
  "noteXSession uid di \<longleftrightarrow> status di = remoteLogin \<or> userSess di \<noteq> uid"

definition noteTTYSession :: "int \<Rightarrow> dm \<Rightarrow> utmpEntry \<Rightarrow> bool" where
  "noteTTYSession uid s ut \<longleftrightarrow>
     uid < 0 \<or> (case passwd s (utUser ut) of None \<Rightarrow> True | Some u \<Rightarrow> u \<noteq> uid)"

definition anyUserLogins :: "int \<Rightarrow> dm \<Rightarrow> bool" where
  "anyUserLogins uid s \<longleftrightarrow>
     (let flags = or lstRemote lstTTY in
      list_ex (noteXSession uid) (listXSessions flags s)
      \<or> list_ex (noteTTYSession uid s) (listTTYSessions flags s))"

text \<open>With the flags used here, an X session counts when it is remote or of another user.\<close>

lemma anyUserLogins_iff:
  "anyUserLogins uid s \<longleftrightarrow>
     (\<exists>d \<in> set (displays s). status d = remoteLogin \<or> 0 \<le> userSess d \<and> userSess d \<noteq> uid)
   \<or> (\<exists>u \<in> set (utmpFile s). ttySession (or lstRemote lstTTY) u \<and> noteTTYSession uid s u)"
  by (auto simp: anyUserLogins_def listXSessions_def listTTYSessions_def list_ex_iff
      noteXSession_def flagged_def Let_def)

lemma anyUserLogins_anyone: "anyUserLogins uid s \<Longrightarrow> anyUserLogins (-1) s"
  unfolding anyUserLogins_iff noteTTYSession_def by auto

end
