(* ===== verification/DmLoop.thy ===== *)
theory DmLoop
  imports Sessions
begin

text \<open>
  The event handlers of the master daemon, \<^verbatim>\<open>kdm/backend/dm.c\<close>: reaping children, messages
  from session processes and greeters, the shutdown protocol and the main loop. Wait
  statuses are those of \<^verbatim>\<open>dm.h\<close> and Linux. A greeter or session process is another program;
  its messages are data here.
\<close>

section \<open>Wait statuses\<close>

definition waitCode :: "int \<Rightarrow> int" where
  "waitCode w = (if and w 127 = 0 then and (w div 256) 255 else 0)"

definition waitSig :: "int \<Rightarrow> int" where
  "waitSig w = (if 1 \<le> and w 127 \<and> and w 127 \<le> 126 then and w 127 else 0)"

definition waitCore :: "int \<Rightarrow> int" where
  "waitCore w = and w 128"

definition wcCompose :: "int \<Rightarrow> int \<Rightarrow> int \<Rightarrow> int" where
  "wcCompose sig core code = sig * 256 + core * 128 + code"

definition wcFromWait :: "int \<Rightarrow> int" where
  "wcFromWait w = wcCompose (waitSig w) (waitCore w) (waitCode w)"

text \<open>The status of a process that exited with a code, and of one killed by a signal.\<close>

definition exited :: "int \<Rightarrow> int" where "exited c = c * 256"
definition signalled :: "int \<Rightarrow> int" where "signalled g = g"

text \<open>\<open>Wait4\<close> (\<open>None\<close>: \<^verbatim>\<open>waitpid\<close> failed) and \<open>runAndWait\<close> of \<^verbatim>\<open>process.c\<close>.\<close>

definition Wait4 :: "int option \<Rightarrow> int" where
  "Wait4 r = wcFromWait (case r of None \<Rightarrow> 0 | Some w \<Rightarrow> w)"

definition runAndWait :: "int \<Rightarrow> int option \<Rightarrow> int" where
  "runAndWait pid r = (if pid = -1 then wcCompose 0 0 127 else wcFromWait (Wait4 r))"

abbreviation EX_NORMAL :: int where "EX_NORMAL \<equiv> 30"
abbreviation EX_UNMANAGE_DPY :: int where "EX_UNMANAGE_DPY \<equiv> 32"
abbreviation EX_RESERVER_DPY :: int where "EX_RESERVER_DPY \<equiv> 33"
abbreviation EX_AL_RESERVER_DPY :: int where "EX_AL_RESERVER_DPY \<equiv> 34"
abbreviation EX_OPENFAILED_DPY :: int where "EX_OPENFAILED_DPY \<equiv> 35"
abbreviation EX_RESERVE :: int where "EX_RESERVE \<equiv> 37"
abbreviation EX_REMOTE :: int where "EX_REMOTE \<equiv> 38"

section \<open>Reaping children\<close>

definition exitSession :: "addr \<Rightarrow> int \<Rightarrow> dm \<Rightarrow> dm option" where
  "exitSession a code s = do {
     d \<leftarrow> deref s a;
     if code = EX_REMOTE then exitDisplay a DS_REMOTE XS_KEEP False s
     else if code = EX_NORMAL then
       (if lifetime d = dReserve then exitDisplay a DS_RESERVE XS_KEEP False s
        else exitDisplay a DS_RESTART XS_KEEP True s)
     else if code = EX_RESERVE then exitDisplay a DS_RESERVE XS_KEEP False s
     else if code = EX_OPENFAILED_DPY then
       exitDisplay a DS_RESTART XS_RETRY False
         (if origin d = dFromXDMCP then act (SendFailed a ''cannot open display'') s else s)
     else if code = wcCompose SIGTERM 0 0 then exitDisplay a DS_RESTART XS_RETRY False s
     else if code = EX_AL_RESERVER_DPY then exitDisplay a DS_RESTART XS_RESTART False s
     else if code = EX_RESERVER_DPY then exitDisplay a DS_RESTART XS_RESTART True s
     else exitDisplay a DS_REMOVE XS_KEEP False s }"

definition reapSession :: "addr \<Rightarrow> int \<Rightarrow> dm \<Rightarrow> dm option" where
  "reapSession a st s =
     exitSession a (wcFromWait st)
       (closeCtrl a (setD a (\<lambda>d. d\<lparr>dpid := -1, pipesOpen := False\<rparr>) s))"

text \<open>The terminal to show when the active one goes away: that of a user, else of any display.\<close>

definition nextActiveVT :: "addr \<Rightarrow> dm \<Rightarrow> int" where
  "nextActiveVT a s =
     (let others = filter (\<lambda>di. daddr di \<noteq> a \<and> serverVT di \<noteq> 0) (displays s);
          users = filter (\<lambda>di. 0 \<le> userSess di \<or> status di = remoteLogin) others
      in if users \<noteq> [] then serverVT (last users)
         else if others \<noteq> [] then serverVT (last others) else 1)"

definition releaseVT :: "addr \<Rightarrow> dm \<Rightarrow> dm option" where
  "releaseVT a s = do {
     d \<leftarrow> deref s a;
     if serverVT d \<noteq> 0 \<and> zstatus d \<noteq> DS_REMOTE then do {
       s \<leftarrow> (case follower d of
               Some b \<Rightarrow> do {
                 _ \<leftarrow> deref s b;
                 Some (setD a (\<lambda>d. d\<lparr>follower := None\<rparr>)
                   (setD b (\<lambda>f. f\<lparr>serverVT := serverVT d\<rparr>) s)) }
             | None \<Rightarrow>
                 Some (if consoleOk s then
                   act (DisallocateVT (serverVT d))
                     (if activeVT s = serverVT d then act (ActivateVT (nextActiveVT a s)) s else s)
                   else s));
       Some (setD a (\<lambda>d. d\<lparr>serverVT := 0\<rparr>) s)
     } else Some s }"

definition reapServer :: "addr \<Rightarrow> dm \<Rightarrow> dm option" where
  "reapServer a s0 = do {
     let s = setD a (\<lambda>d. d\<lparr>serverPid := -1\<rparr>) s0;
     d \<leftarrow> deref s a;
     (case status d of
        zombie \<Rightarrow> do { s \<leftarrow> releaseVT a s; rStopDisplay a (zstatus d) s }
      | phoenix \<Rightarrow> Some (setD a (\<lambda>d. d\<lparr>status := notRunning\<rparr>) s)
      | remoteLogin \<Rightarrow>
          Some (setD a (\<lambda>d. d\<lparr>status := (if lifetime d = dReserve then reserve else notRunning)\<rparr>) s)
      | raiser \<Rightarrow> Some s
      | running \<Rightarrow>
          (if startingServer s = Some a \<and> serverStatus d \<noteq> ignore then startServerFailed s
           else Some (if dpid d \<noteq> -1 then terminateProcess (dpid d) SIGTERM s else s))
      | notRunning \<Rightarrow> Some s | textMode \<Rightarrow> Some s | reserve \<Rightarrow> Some s) }"

definition reapChild :: "int \<Rightarrow> int \<Rightarrow> dm \<Rightarrow> dm option" where
  "reapChild pid st s =
     (case findDisplayByPid pid s of
        Some a \<Rightarrow> reapSession a st s
      | None \<Rightarrow>
          (case findDisplayByServerPid pid s of
             Some a \<Rightarrow> reapServer a s
           | None \<Rightarrow> Some s))"

text \<open>\<open>reapChildren\<close>: the results of \<^verbatim>\<open>waitpid\<close> until none is left.\<close>

fun reapChildren :: "(int \<times> int) list \<Rightarrow> dm \<Rightarrow> dm option" where
  "reapChildren [] s = Some s"
| "reapChildren ((pid, st) # ws) s = do { s \<leftarrow> reapChild pid st s; reapChildren ws s }"

section \<open>Messages of the session process and the greeter\<close>

text \<open>
  A message as it has been read from the pipe. Each comes whole or not at all: a pipe that breaks inside a message is
  \<open>D_Broken\<close>, whatever fields of the display have been read before, since the display is stopped either way. Arrays
  have at most 64 kB, beyond which the reading is out of step (\<open>IpcPipe.gRecvStr_too_long\<close>), so the data of
  \<open>D_ChooseHost\<close> is as long as its length says.
\<close>

datatype dmsg =
    D_User int "string option" "string option"
  | D_UnUser
  | D_ReLogin "string option" "string option" "string option"
  | D_ChooseHost bytes bytes int bytes
  | D_RemoteHost "string option"
  | D_XConnOk
  | D_Other int
  | D_Broken

text \<open>The user's shutdown request replaces the pending one unless that one is protected.\<close>

definition acceptShutdown :: "display \<Rightarrow> dm \<Rightarrow> bool" where
  "acceptShutdown d s \<longleftrightarrow>
     how (sdRec s) = 0 \<or> force (sdRec s) \<noteq> SHUT_FORCE \<or>
     \<not> ((allowNuke (conf d) = SHUT_NONE \<and> sdUid (sdRec s) \<noteq> sdUid (dSdRec d)) \<or>
        (allowNuke (conf d) = SHUT_ROOT \<and> sdUid (dSdRec d) \<noteq> 0))"

text \<open>Where the code answers, the answer comes with the state.\<close>

definition unUser :: "addr \<Rightarrow> dm \<Rightarrow> (bool \<times> dm) option" where
  "unUser a s = do {
     d \<leftarrow> deref s a;
     let s = sessionDone a s;
     Some (if how (dSdRec d) \<noteq> 0 then
       (if force (dSdRec d) = SHUT_ASK \<and> (anyUserLogins (-1) s \<or> allowShutdown (conf d) = SHUT_ROOT)
        then (True, s)
        else
          let s = (if acceptShutdown d s then s\<lparr>sdRec := dSdRec d\<rparr> else s)
          in (False, setD a (\<lambda>d. d\<lparr>dSdRec := (dSdRec d)\<lparr>how := 0, osname := None\<rparr>\<rparr>) s))
      else (False, s)) }"

text \<open>The length of an array received from the pipe is cut to 16 bits.\<close>

definition card16 :: "bytes \<Rightarrow> bytes" where
  "card16 b = take (length b mod 2 ^ 16) b"

definition processDPipe ::
  "bool \<times> bool \<times> bool \<Rightarrow> (nat \<Rightarrow> bool) \<Rightarrow> addr \<Rightarrow> dmsg \<Rightarrow> dm \<Rightarrow> (bool option \<times> dm) option"
where
  "processDPipe oks mok a m s = do {
     d \<leftarrow> deref s a;
     (case m of
        D_User uid user sess \<Rightarrow>
          Some (None, setD a (\<lambda>d. d\<lparr>userSess := uid, userName := user, sessName := sess\<rparr>) s)
      | D_UnUser \<Rightarrow> do { (r, s) \<leftarrow> unUser a s; Some (Some r, s) }
      | D_ReLogin user pass args \<Rightarrow> Some (None, setNLogin oks (dname d) user pass args 1 s)
      | D_ChooseHost ca cp ct ha \<Rightarrow>
          Some (None, s\<lparr>choices := registerIndirectChoice mok (now s) (choiceTimeout s)
                  (card16 ca, card16 cp, word_of_int ct) (Some (card16 ha)) (choices s)\<rparr>)
      | D_RemoteHost h \<Rightarrow> Some (None, setD a (\<lambda>d. d\<lparr>remoteHost := h\<rparr>) s)
      | D_XConnOk \<Rightarrow> Some (None, s\<lparr>startingServer := None\<rparr>)
      | D_Other c \<Rightarrow> do { s \<leftarrow> stopDisplay a s; Some (None, s) }
      | D_Broken \<Rightarrow> do { s \<leftarrow> stopDisplay a s; Some (None, s) }) }"

datatype gmsg =
    G_ListBootOpts
  | G_Shutdown int int int int int "string option"
  | G_QueryShutdown
  | G_QryDpyShutdown
  | G_List int
  | G_Activate int
  | G_Console
  | G_Other int
  | G_Broken

text \<open>What goes back to the greeter.\<close>

datatype reply =
    RInt int
  | RStr "string option"

definition emitXSessG :: "addr \<Rightarrow> display \<Rightarrow> reply list" where
  "emitXSessG a di =
     [RStr (Some (dname di)), RStr (Some []), RInt (serverVT di)]
     @ (if status di = remoteLogin then [RStr (Some []), RStr (remoteHost di)]
        else [RStr (userName di), RStr (sessName di)])
     @ [RInt (if daddr di = a then 1 else 0)]"

definition emitTTYSessG :: "utmpEntry \<Rightarrow> reply list" where
  "emitTTYSessG ut =
     [RStr (Some (utLine ut)), RStr (Some (utHost ut)), RInt (TTYtoVT (utLine ut)),
      RStr (if utIsUser ut then Some (utUser ut) else None), RStr None, RInt 2]"

definition replySdRec :: "sdrec \<Rightarrow> reply list" where
  "replySdRec r = [RInt (uint (how r)), RInt (start r), RInt (timeout r), RInt (uint (force r)),
     RInt (sdUid r), RStr (osname r)]"

text \<open>
  \<open>boot\<close> stands for the boot manager: the answer to \<^verbatim>\<open>getBootOptions\<close> and the record after
  \<^verbatim>\<open>setBootOption\<close>.
\<close>

definition processGPipe ::
  "reply list \<Rightarrow> (string option \<Rightarrow> sdrec \<Rightarrow> sdrec) \<Rightarrow> addr \<Rightarrow> gmsg \<Rightarrow> dm \<Rightarrow> (reply list \<times> dm) option"
where
  "processGPipe bootOpts setBoot a m s = do {
     d \<leftarrow> deref s a;
     (case m of
        G_ListBootOpts \<Rightarrow> Some (bootOpts, s)
      | G_Shutdown hw st tmo frc uid opt \<Rightarrow>
          Some ([], s\<lparr>sdRec := setBoot opt ((sdRec s)\<lparr>how := of_int hw, start := st, timeout := tmo,
                       force := of_int frc, sdUid := uid\<rparr>)\<rparr>)
      | G_QueryShutdown \<Rightarrow> Some (replySdRec (sdRec s), s)
      | G_QryDpyShutdown \<Rightarrow>
          Some ([RInt (uint (how (dSdRec d))), RInt (sdUid (dSdRec d)), RStr (osname (dSdRec d))], s)
      | G_List flags \<Rightarrow>
          Some (concat (map (emitXSessG a) (listXSessions flags s))
                @ concat (map emitTTYSessG (listTTYSessions flags s)) @ [RInt 0], s)
      | G_Activate vt \<Rightarrow> Some ([], activateVT vt s)
      | G_Console \<Rightarrow>
          (if consoleTTYs s \<noteq> [] then do {
             s \<leftarrow> forEachDisplay stopToTTY s;
             s \<leftarrow> checkTTYMode s;
             Some ([], s)
           } else Some ([], s))
      | G_Other c \<Rightarrow> do { s \<leftarrow> stopDisplay a s; Some ([], s) }
      | G_Broken \<Rightarrow> do { s \<leftarrow> stopDisplay a s; Some ([], s) }) }"

section \<open>Configuration changes\<close>

definition markDisplay :: "addr \<Rightarrow> dm \<Rightarrow> dm option" where
  "markDisplay a s = do { _ \<leftarrow> deref s a; Some (setD a (\<lambda>d. d\<lparr>stillThere := False\<rparr>) s) }"

text \<open>
  The configuration reader's answer to \<^verbatim>\<open>loadDMResources\<close>: \<open>None\<close> when nothing changed or it
  failed, otherwise the values the daemon uses. The listen sockets follow the port;
  \<open>cfAccess\<close> are the access lists if they have changed.
\<close>

record dmConf =
  cfStatic :: "string list"
  cfReserve :: "string list"
  cfConsoleTTYs :: "string list"
  cfServerVTs :: "string list"
  cfPort :: int
  cfListening :: bool
  cfChoiceTimeout :: int
  cfAccess :: "accArr option"

definition scanConfigs :: "(nat \<Rightarrow> nat \<Rightarrow> bool) \<Rightarrow> dmConf option \<Rightarrow> dm \<Rightarrow> dm" where
  "scanConfigs mok c s =
     (case c of
        None \<Rightarrow> s
      | Some c \<Rightarrow>
          let s = scanServers mok (cfStatic c) (cfReserve c)
            (s\<lparr>consoleTTYs := cfConsoleTTYs c, serverVTs := cfServerVTs c, requestPort := cfPort c,
               choiceTimeout := cfChoiceTimeout c\<rparr>)
          in s\<lparr>accLists := (case cfAccess c of None \<Rightarrow> accLists s | Some A \<Rightarrow> A)\<rparr>)"

definition rescanConfigs :: "(nat \<Rightarrow> nat \<Rightarrow> bool) \<Rightarrow> dmConf option \<Rightarrow> dm \<Rightarrow> dm" where
  "rescanConfigs mok c s =
     (let s = scanConfigs mok c s in
      case c of None \<Rightarrow> s | Some c \<Rightarrow> s\<lparr>listening := cfListening c\<rparr>)"

section \<open>Shutdown\<close>

definition cancelShutdown :: "(nat \<Rightarrow> nat \<Rightarrow> bool) \<Rightarrow> dmConf option \<Rightarrow> dm \<Rightarrow> dm" where
  "cancelShutdown mok c s =
     rescanConfigs mok c (s\<lparr>sdRec := (sdRec s)\<lparr>how := 0, osname := None\<rparr>, stopping := False\<rparr>)"

definition wouldShutdown :: "dm \<Rightarrow> bool" where
  "wouldShutdown s =
     (if force (sdRec s) = SHUT_FORCE then True
      else if force (sdRec s) = SHUT_FORCEMY then \<not> anyUserLogins (sdUid (sdRec s)) s
      else \<not> anyUserLogins (-1) s)"

section \<open>The main loop\<close>

text \<open>The condition of the loop.\<close>

definition loopCond :: "dm \<Rightarrow> bool" where
  "loopCond s \<longleftrightarrow> listening s \<or> (if stopping s then anyRunningDisplays s else anyDisplaysLeft s)"

text \<open>
  The shutdown part of an iteration; \<open>to0\<close> is the timeout of the indirect hosts. The result
  carries the time to wake up at.
\<close>

definition shutdownStep :: "(nat \<Rightarrow> nat \<Rightarrow> bool) \<Rightarrow> dmConf option \<Rightarrow> int \<Rightarrow> dm \<Rightarrow> (int \<times> dm) option" where
  "shutdownStep mok c to0 s =
     (if how (sdRec s) = 0 then Some (to0, s)
      else if start (sdRec s) \<noteq> TO_INF \<and> now s < start (sdRec s) then Some (start (sdRec s), s)
      else
        let s = s\<lparr>sdRec := (sdRec s)\<lparr>start := TO_INF\<rparr>\<rparr> in
        if timeout (sdRec s) \<le> now s then
          let s = s\<lparr>sdRec := (sdRec s)\<lparr>timeout := TO_INF\<rparr>\<rparr> in
          if wouldShutdown s then do { s \<leftarrow> stoppen True s; Some (to0, s) }
          else Some (to0, cancelShutdown mok c s)
        else do { s \<leftarrow> stoppen False s; Some (timeout (sdRec s), s) })"

text \<open>The first half of an iteration, up to \<^verbatim>\<open>select\<close>: how long it may block, if not forever.\<close>

definition beforeSelect ::
  "(display \<Rightarrow> dpyConf option) \<Rightarrow> (nat \<Rightarrow> nat \<Rightarrow> bool) \<Rightarrow> dmConf option \<Rightarrow> dm \<Rightarrow> (int option \<times> dm) option"
where
  "beforeSelect load mok c s = do {
     s \<leftarrow> (if stopping s then Some s else startDisplays load s);
     let (to0, cs) = disposeIndirectHosts (now s) (choices s);
     (to, s) \<leftarrow> shutdownStep mok c to0 (s\<lparr>choices := cs\<rparr>);
     let to = min (utmpTimeout s) (min (serverTimeout s) to);
     Some (if to = TO_INF then None else Some (max 0 (to - now s)), s) }"

text \<open>After \<^verbatim>\<open>select\<close>, at time \<open>t\<close>, the timeouts that are due.\<close>

definition afterSelect :: "int \<Rightarrow> dm \<Rightarrow> dm option" where
  "afterSelect t s = do {
     let s = s\<lparr>now := t\<rparr>;
     s \<leftarrow> (if serverTimeout s \<le> now s then startServerTimeout (s\<lparr>serverTimeout := TO_INF\<rparr>) else Some s);
     if utmpTimeout s \<le> now s then checkUtmp (s\<lparr>utmpTimeout := TO_INF\<rparr>) else Some s }"

datatype signal = STerm | SInt | SHup | SChld "(int \<times> int) list" | SUsr1 | SOtherSig

definition handleSignal ::
  "bool \<Rightarrow> (nat \<Rightarrow> nat \<Rightarrow> bool) \<Rightarrow> dmConf option \<Rightarrow> signal \<Rightarrow> dm \<Rightarrow> dm option"
where
  "handleSignal autoRescan mok c sig s =
     (case sig of
        STerm \<Rightarrow> stoppen True s
      | SInt \<Rightarrow> stoppen True s
      | SHup \<Rightarrow> do { s \<leftarrow> forEachDisplay markDisplay s; Some (rescanConfigs mok c s) }
      | SChld ws \<Rightarrow> do {
          s \<leftarrow> reapChildren ws s;
          Some (if \<not> stopping s \<and> autoRescan then rescanConfigs mok c s else s) }
      | SUsr1 \<Rightarrow>
          (case startingServer s of
             None \<Rightarrow> Some s
           | Some a \<Rightarrow> do {
               d \<leftarrow> deref s a;
               if serverStatus d = starting then startServerSuccess s else Some s })
      | SOtherSig \<Rightarrow> Some s)"

end
