(* ===== verification/DmSafe.thy ===== *)
theory DmSafe
  imports DmLoop
begin

text \<open>
  The handlers of \<open>DmLoop\<close> keep the invariant of \<open>DmInv\<close> and never use a NULL or dangling
  display pointer, whatever children and greeters send, under the conditions \<open>okReap\<close>,
  \<open>okDMsg\<close> and \<open>okGMsg\<close>; the end of the theory shows what happens without them.
\<close>

section \<open>The handlers keep the invariant\<close>

lemma closeCtrl_okBut: "okBut x s \<Longrightarrow> okBut x (closeCtrl a s)"
  by (simp add: closeCtrl_def okBut_neutral)

lemma closeCtrl_frame [simp]:
  "live (closeCtrl a s) = live s" "sameEnv t (closeCtrl a s) = sameEnv t s"
  by (simp_all add: closeCtrl_def live_setD)

lemma ok_terminate [simp]: "ok (terminateProcess p g s) \<longleftrightarrow> ok s \<and> 0 < p"
  by (simp add: ok_def)

lemma okBut_ok:
  assumes "okBut (Some a) s" "deref s a = Some d" "okStat d"
  shows "ok s"
proof -
  have "okStat e" if "deref s b = Some e" for b e
    using that assms by (cases "b = a") (auto simp: okBut_def)
  with assms(1) show ?thesis by (simp add: ok_def okBut_def)
qed

lemma reapSession_ok:
  assumes ok: "ok s" and d: "deref s a = Some d" "dpid d \<noteq> -1" and tty: "consoleTTYs s \<noteq> []"
  shows "stops a s (reapSession a st s)"
proof -
  let ?f = "\<lambda>d. d\<lparr>dpid := -1, pipesOpen := False\<rparr>"
  define s1 where "s1 = closeCtrl a (setD a ?f s)"
  define e where "e = (?f d)\<lparr>ctrlOpen := False\<rparr>"
  have w: "okW d" "okStat d" using ok_derefD [OF ok d(1)] by auto
  have ign: "serverStatus d = ignore" using w d(2) by (auto simp: okW_def)
  have ok0: "okBut (Some a) (setD a ?f s)"
    by (rule okBut_setD [OF ok_okBut [OF ok] _ d(1), of None])
      (use w ign in \<open>simp_all add: okW_def okPid_def isStarting_def\<close>)
  then have ok1: "okBut (Some a) s1" unfolding s1_def by (rule closeCtrl_okBut)
  have d1: "deref s1 a = Some e" using d by (simp add: s1_def e_def closeCtrl_def deref_setD)
  have e: "dpid e = -1" "serverStatus e = ignore" by (simp_all add: e_def ign)
  have l1: "live s1 = live s" "sameEnv s s1" by (simp_all add: s1_def live_setD)
  then have tty1: "consoleTTYs s1 \<noteq> []" using tty by (simp add: sameEnv_def)
  have ex1: "stops a s (exitDisplay a es c g s1)" if "es \<noteq> DS_TEXTMODE" for es c g
    by (rule stops_trans [OF exitDisplay_ok l1]) (use ok1 d1 e that tty1 in simp_all)
  have tty2: "consoleTTYs (act (SendFailed a r) s1) \<noteq> []" for r using tty1 by (simp add: act_def)
  have ex2: "stops a s (exitDisplay a es c g (act (SendFailed a r) s1))" if "es \<noteq> DS_TEXTMODE" for es c g r
    by (rule stops_trans [OF exitDisplay_ok]) (use ok1 d1 e that tty2 l1 in simp_all)
  note ex = ex1 ex2
  show ?thesis
    using ex d1 unfolding reapSession_def s1_def [symmetric] exitSession_def by simp
qed

lemma releaseVT_ok:
  assumes ok: "okBut x s" and d: "deref s a = Some d"
    and fol: "\<And>b. follower d = Some b \<Longrightarrow> b \<in> set (live s)"
  shows "\<exists>s' v f. releaseVT a s = Some s' \<and> okBut x s' \<and> live s' = live s \<and> sameEnv s s'
     \<and> (\<exists>d'. deref s' a = Some d' \<and> status d' = status d \<and> serverPid d' = serverPid d
           \<and> dpid d' = dpid d \<and> serverStatus d' = serverStatus d \<and> zstatus d' = zstatus d)"
proof (cases "serverVT d \<noteq> 0 \<and> zstatus d \<noteq> DS_REMOTE")
  case False
  with ok d show ?thesis by (auto simp: releaseVT_def)
next
  case True
  have clear: "okBut x (setD a (\<lambda>d. d\<lparr>serverVT := 0\<rparr>) t)" if "okBut x t" for t
    by (rule okBut_neutral [OF that]) simp_all
  show ?thesis
  proof (cases "follower d")
    case None
    let ?t = "if consoleOk s then act (DisallocateVT (serverVT d))
       (if activeVT s = serverVT d then act (ActivateVT (nextActiveVT a s)) s else s) else s"
    have "releaseVT a s = Some (setD a (\<lambda>d. d\<lparr>serverVT := 0\<rparr>) ?t)"
      using True None d by (simp add: releaseVT_def)
    moreover have "okBut x ?t" using ok by simp
    ultimately show ?thesis using clear [of ?t] d by (auto simp: live_setD deref_setD)
  next
    case (Some b)
    obtain e where e: "deref s b = Some e" using fol [OF Some] deref_live by blast
    let ?t = "setD a (\<lambda>d. d\<lparr>follower := None\<rparr>) (setD b (\<lambda>f. f\<lparr>serverVT := serverVT d\<rparr>) s)"
    have r: "releaseVT a s = Some (setD a (\<lambda>d. d\<lparr>serverVT := 0\<rparr>) ?t)"
      using True Some d e by (simp add: releaseVT_def)
    have "okBut x (setD b (\<lambda>f. f\<lparr>serverVT := serverVT d\<rparr>) s)" by (rule okBut_neutral [OF ok]) simp_all
    then have "okBut x ?t" by (rule okBut_neutral) simp_all
    with clear [of ?t] r d e show ?thesis
      by (cases "a = b") (auto simp: live_setD deref_setD)
  qed
qed

lemma reapServer_ok:
  assumes ok: "ok s" and d: "deref s a = Some d" "serverPid d \<noteq> -1" and tty: "consoleTTYs s \<noteq> []"
    and fol: "\<And>b. follower d = Some b \<Longrightarrow> b \<in> set (live s)"
  shows "stops a s (reapServer a s)"
proof -
  let ?f = "\<lambda>d. d\<lparr>serverPid := -1\<rparr>"
  define s1 where "s1 = setD a ?f s"
  have w: "okW d" "okStat d" using ok_derefD [OF ok d(1)] by auto
  have ok1: "okBut (Some a) s1"
    unfolding s1_def by (rule okBut_setD [OF ok_okBut [OF ok] _ d(1), of None])
      (use w in \<open>simp_all add: okW_def okPid_def isStarting_def\<close>)
  have d1: "deref s1 a = Some (?f d)" using d by (simp add: s1_def deref_setD)
  have l1: "live s1 = live s" "sameEnv s s1" by (simp_all add: s1_def live_setD)
  have upd: "stops a s (Some (setD a (\<lambda>d. d\<lparr>status := g d\<rparr>) s1))"
    if "g (?f d) \<in> {notRunning, reserve}" "dpid d = -1" "status d \<noteq> running" for g
  proof (rule stopsI)
    show "ok (setD a (\<lambda>d. d\<lparr>status := g d\<rparr>) s1)"
      unfolding ok_def
      by (rule okBut_setD [OF ok1 _ d1]) (use that w in \<open>auto simp: okW_def okStat_def okPid_def isStarting_def\<close>)
  qed (use l1 in \<open>simp_all add: live_setD\<close>)
  have plain: "ok s1" if "status d \<in> {raiser, notRunning, textMode, reserve} \<or>
      status d = running \<and> serverStatus d = ignore"
  proof -
    have "okStat (?f d)" using that w by (auto simp: okStat_def okW_def)
    then show ?thesis by (rule okBut_ok [OF ok1 d1])
  qed
  have "stops a s (case status d of
        zombie \<Rightarrow> do { s \<leftarrow> releaseVT a s1; rStopDisplay a (zstatus d) s }
      | phoenix \<Rightarrow> Some (setD a (\<lambda>d. d\<lparr>status := notRunning\<rparr>) s1)
      | remoteLogin \<Rightarrow>
          Some (setD a (\<lambda>d. d\<lparr>status := (if lifetime d = dReserve then reserve else notRunning)\<rparr>) s1)
      | raiser \<Rightarrow> Some s1
      | running \<Rightarrow>
          (if startingServer s1 = Some a \<and> serverStatus d \<noteq> ignore then startServerFailed s1
           else Some (if dpid d \<noteq> -1 then terminateProcess (dpid d) SIGTERM s1 else s1))
      | notRunning \<Rightarrow> Some s1 | textMode \<Rightarrow> Some s1 | reserve \<Rightarrow> Some s1)"
  proof (cases "status d")
    case zombie
    obtain s2 e where s2: "releaseVT a s1 = Some s2" "okBut (Some a) s2" "live s2 = live s1" "sameEnv s1 s2"
      "deref s2 a = Some e" "status e = status (?f d)" "serverStatus e = serverStatus (?f d)"
      using releaseVT_ok [OF ok1 d1] fol l1 by auto
    have "consoleTTYs s2 \<noteq> []" using tty s2(4) l1(2) by (simp add: sameEnv_def)
    moreover have "serverStatus e \<noteq> awaiting" using s2(7) w zombie by (auto simp: okW_def)
    ultimately have "stops a s2 (rStopDisplay a (zstatus d) s2)"
      using rStopDisplay_ok [OF s2(2) _ s2(5)] by simp
    then have "stops a s (rStopDisplay a (zstatus d) s2)"
      using s2 l1 sameEnv_trans by (elim stops_trans) simp_all
    then show ?thesis using zombie s2(1) by simp
  next
    case running
    show ?thesis
    proof (cases "startingServer s1 = Some a \<and> serverStatus d \<noteq> ignore")
      case True
      have "okCore a s1"
        by (rule okCoreI [OF ok1 _ _ d1]) (use True ok1 in \<open>simp_all add: okBut_def\<close>)
      then have "stops a s1 (startServerFailed s1)"
        by (rule startServerFailed_ok [OF _ d1]) (use True w running in \<open>simp_all add: okW_def okPid_def\<close>)
      then have "stops a s (startServerFailed s1)" using l1 by (elim stops_trans) simp_all
      with True running show ?thesis by simp
    next
      case False
      have st: "startingServer s1 = startingServer s" by (simp add: s1_def)
      have "\<not> isStarting d" if "startingServer s \<noteq> Some a"
        using that ok d(1) by (auto simp: ok_def okBut_def okStarting_def)
      then have "serverStatus d = ignore"
        using False st w d(2) by (cases "serverStatus d") (auto simp: isStarting_def okW_def)
      then have "ok s1" using plain running by simp
      then show ?thesis using False running w l1 by (auto simp: okW_def okPid_def intro!: stopsI)
    qed
  qed (use plain upd [of "\<lambda>_. notRunning"] upd [of "\<lambda>d. if lifetime d = dReserve then reserve else notRunning"]
        w l1 in \<open>auto simp: okStat_def intro!: stopsI\<close>)
  then show ?thesis
    unfolding reapServer_def Let_def s1_def [symmetric] using d1
    by (cases "status d") (auto split: if_splits)
qed


text \<open>No display waits for the terminal of a removed one.\<close>

definition followersLive :: "dm \<Rightarrow> bool" where
  "followersLive s \<longleftrightarrow>
     list_all (\<lambda>d. case follower d of None \<Rightarrow> True | Some b \<Rightarrow> b \<in> set (live s)) (displays s)"

lemma followersLiveD:
  "followersLive s \<Longrightarrow> deref s a = Some d \<Longrightarrow> follower d = Some b \<Longrightarrow> b \<in> set (live s)"
  by (auto simp: followersLive_def list_all_iff dest!: deref_SomeD split: option.splits)

lemma find_deref:
  assumes "wfList s" "map_option daddr (find P (displays s)) = Some a"
  shows "\<exists>d. deref s a = Some d \<and> P d"
proof -
  obtain d where d: "find P (displays s) = Some d" "daddr d = a" using assms(2) by auto
  have mem: "d \<in> set (displays s)" "P d" using d(1) by (auto dest: find_SomeD)
  have "find (\<lambda>x. daddr x = a) ds = Some d" if "distinct (map daddr ds)" "d \<in> set ds" for ds
    using that d(2) by (induction ds) (auto simp: image_iff)
  with mem assms(1) show ?thesis by (auto simp: deref_def wfList_def live_def)
qed

lemma reapChild_ok:
  assumes ok: "ok s" and p: "0 < p" and tty: "consoleTTYs s \<noteq> []" and fol: "followersLive s"
  shows "\<exists>s'. reapChild p st s = Some s' \<and> ok s' \<and> sameEnv s s'"
proof (cases "findDisplayByPid p s")
  case (Some a)
  then obtain d where d: "deref s a = Some d" "p = dpid d"
    using find_deref [OF ok_wfList [OF ok]] unfolding findDisplayByPid_def by blast
  have "stops a s (reapSession a st s)" by (rule reapSession_ok [OF ok d(1) _ tty]) (use d p in simp)
  with Some show ?thesis by (auto simp: reapChild_def stops_def)
next
  case no: None
  show ?thesis
  proof (cases "findDisplayByServerPid p s")
    case None
    with no ok show ?thesis by (simp add: reapChild_def)
  next
    case (Some a)
    then obtain d where d: "deref s a = Some d" "p = serverPid d"
      using find_deref [OF ok_wfList [OF ok]] unfolding findDisplayByServerPid_def by blast
    have "stops a s (reapServer a s)"
      by (rule reapServer_ok [OF ok d(1) _ tty followersLiveD [OF fol d(1)]]) (use d p in simp)
    with no Some show ?thesis by (auto simp: reapChild_def stops_def)
  qed
qed

fun okReap :: "(int \<times> int) list \<Rightarrow> dm \<Rightarrow> bool" where
  "okReap [] s = True"
| "okReap ((p, st) # ws) s =
     (0 < p \<and> followersLive s \<and> (case reapChild p st s of None \<Rightarrow> True | Some s' \<Rightarrow> okReap ws s'))"

lemma reapChildren_ok:
  assumes "ok s" "consoleTTYs s \<noteq> []" "okReap ws s"
  shows "\<exists>s'. reapChildren ws s = Some s' \<and> ok s' \<and> sameEnv s s'"
  using assms
proof (induction ws s rule: okReap.induct)
  case (2 p st ws s)
  then obtain s1 where s1: "reapChild p st s = Some s1" "ok s1" "sameEnv s s1"
    using reapChild_ok [of s p st] by auto
  have "consoleTTYs s1 \<noteq> []" using s1(3) 2(3) by (simp add: sameEnv_def)
  then obtain s2 where "reapChildren ws s1 = Some s2" "ok s2" "sameEnv s1 s2"
    using 2(1) [OF s1(1) s1(2)] 2(4) s1(1) by auto
  with s1 show ?case using sameEnv_trans by auto
qed simp

lemma stopDisplay_ok: "ok s \<Longrightarrow> deref s a = Some d \<Longrightarrow> stops a s (stopDisplay a s)"
  using stops_okBut [of None s a d] by (simp add: ok_def)

lemma ok_updates [simp]:
  "ok (s\<lparr>choices := x\<rparr>) = ok s" "ok (s\<lparr>sdRec := r\<rparr>) = ok s" "ok (s\<lparr>stopping := b\<rparr>) = ok s"
  "ok (s\<lparr>now := t\<rparr>) = ok s" "ok (s\<lparr>utmpTimeout := t\<rparr>) = ok s" "ok (s\<lparr>listening := b\<rparr>) = ok s"
  "ok (s\<lparr>consoleTTYs := ts\<rparr>) = ok s" "ok (s\<lparr>serverVTs := ts\<rparr>) = ok s" "ok (s\<lparr>requestPort := n\<rparr>) = ok s"
  "ok (s\<lparr>choiceTimeout := t\<rparr>) = ok s" "ok (s\<lparr>accLists := A\<rparr>) = ok s" "ok (s\<lparr>lastAccScan := t\<rparr>) = ok s"
  "ok (s\<lparr>protos := ps\<rparr>) = ok s" "ok (s\<lparr>nextSession := i\<rparr>) = ok s"
  unfolding ok_def by (rule okBut_cong; simp)+

lemma setNLogin_ok: "ok s \<Longrightarrow> ok (setNLogin oks n u p g rl s)"
  by (cases oks) (simp add: setNLogin_def ok_def okBut_setHist Let_def split: prod.split)

text \<open>The messages the invariant tolerates; see the findings on the two others.\<close>

definition okDMsg :: "addr \<Rightarrow> dmsg \<Rightarrow> dm \<Rightarrow> bool" where
  "okDMsg a m s \<longleftrightarrow> a \<in> set (live s) \<and>
     (m = D_XConnOk \<longrightarrow> startingServer s = None \<or>
        startingServer s = Some a \<and> (case deref s a of Some d \<Rightarrow> dpid d \<noteq> -1 | None \<Rightarrow> False))"

definition okGMsg :: "addr \<Rightarrow> gmsg \<Rightarrow> dm \<Rightarrow> bool" where
  "okGMsg a m s \<longleftrightarrow> a \<in> set (live s) \<and>
     (m = G_Console \<longrightarrow> list_all (\<lambda>d. serverStatus d \<noteq> awaiting) (displays s))"

lemma XConnOk_ok:
  assumes ok: "ok s" and a: "okDMsg a D_XConnOk s"
  shows "ok (s\<lparr>startingServer := None\<rparr>)"
proof -
  let ?t = "s\<lparr>startingServer := None\<rparr>"
  have dr: "deref ?t b = deref s b" for b by (simp add: deref_def)
  have st: "okStarting s" using ok by (simp add: ok_def okBut_def)
  have none: "\<not> isStarting d" if "deref s b = Some d" for b d
  proof
    assume i: "isStarting d"
    then have "startingServer s = Some b" using st that by (auto simp: okStarting_def)
    with a have "dpid d \<noteq> -1" using that by (auto simp: okDMsg_def)
    with i ok_derefD [OF ok that] show False by (auto simp: okW_def isStarting_def)
  qed
  then have "serverTimeout s = TO_INF" using st by (auto simp: okStarting_def)
  with none have "okStarting ?t" by (auto simp: okStarting_def dr)
  moreover have "wfList ?t" using ok wfList_cong [of ?t s] by (simp add: ok_def okBut_def)
  ultimately show ?thesis using ok by (simp add: ok_def okBut_def dr)
qed

lemma sessionDone_ok [simp]: "ok s \<Longrightarrow> ok (sessionDone a s)"
  unfolding sessionDone_def by (rule ok_neutral) simp_all

lemma unUser_ok:
  assumes ok: "ok s" and d: "deref s a = Some d"
  shows "\<exists>r s'. unUser a s = Some (r, s') \<and> ok s' \<and> sameCfg s s'"
proof -
  let ?g = "\<lambda>d :: display. d\<lparr>dSdRec := (dSdRec d)\<lparr>how := 0, osname := None\<rparr>\<rparr>"
  have g: "ok (setD a ?g t)" if "ok t" for t by (rule ok_neutral [OF that]) simp_all
  have d1: "ok (sessionDone a s)" "sameCfg s (sessionDone a s)"
    using ok by (simp_all add: sessionDone_def ok_neutral)
  let ?s2 = "if acceptShutdown d (sessionDone a s) then (sessionDone a s)\<lparr>sdRec := dSdRec d\<rparr> else sessionDone a s"
  have "ok (setD a ?g ?s2)" "sameCfg s (setD a ?g ?s2)"
    using d1 by (simp_all add: g)
  moreover have "unUser a s = Some (if how (dSdRec d) \<noteq> 0 then
       (if force (dSdRec d) = SHUT_ASK \<and>
          (anyUserLogins (-1) (sessionDone a s) \<or> allowShutdown (conf d) = SHUT_ROOT)
        then (True, sessionDone a s) else (False, setD a ?g ?s2))
      else (False, sessionDone a s))"
    using d unfolding unUser_def Let_def by simp
  ultimately show ?thesis using d1 by auto
qed

lemma processDPipe_ok:
  assumes ok: "ok s" and m: "okDMsg a m s"
  shows "\<exists>r s'. processDPipe oks mok a m s = Some (r, s') \<and> ok s' \<and> sameCfg s s'"
proof -
  obtain d where d: "deref s a = Some d" using m deref_live by (auto simp: okDMsg_def)
  have n1: "ok (setD a (\<lambda>d. d\<lparr>userSess := u d, userName := n d, sessName := x d\<rparr>) s)" for u n x
    by (rule ok_neutral [OF ok]) simp_all
  have n2: "ok (setD a (\<lambda>d. d\<lparr>remoteHost := h\<rparr>) s)" for h by (rule ok_neutral [OF ok]) simp_all
  have st: "\<exists>s'. stopDisplay a s = Some s' \<and> ok s' \<and> sameCfg s s'"
    using stopDisplay_ok [OF ok d] by (auto simp: stops_def sameEnv_sameCfg)
  have un: "\<exists>r s'. unUser a s = Some (r, s') \<and> ok s' \<and> sameCfg s s'"
    by (rule unUser_ok [OF ok d])
  show ?thesis
  proof (cases m)
    case D_UnUser
    with un d show ?thesis by (auto simp: processDPipe_def)
  next
    case D_XConnOk
    with XConnOk_ok ok m d show ?thesis by (simp add: processDPipe_def)
  next
    case (D_ReLogin u p g)
    have "sameCfg s (setNLogin oks n u p g 1 s)" for n
      by (cases oks) (simp add: setNLogin_def)
    with D_ReLogin setNLogin_ok [OF ok] d show ?thesis by (simp add: processDPipe_def)
  qed (use d n1 n2 st ok in \<open>auto simp: processDPipe_def\<close>)
qed


lemma stopToTTY_stops:
  assumes ok: "ok t" "a \<in> set (live t)" and aw: "\<forall>d \<in> set (displays t). serverStatus d \<noteq> awaiting"
  shows "stops a t (stopToTTY a t)"
proof -
  obtain d where d: "deref t a = Some d" using ok deref_live by blast
  then have "serverStatus d \<noteq> awaiting" using aw by (auto dest: deref_SomeD)
  then have "stops a t (rStopDisplay a (or DS_TEXTMODE DS_SCHEDULE) t)"
    using ok d by (intro rStopDisplay_ok) (auto simp: ok_def)
  with d ok show ?thesis by (simp add: stopToTTY_def stops_refl)
qed

text \<open>Stopping a display never puts another one into the server queue.\<close>

definition noAwaiting :: "dm \<Rightarrow> bool" where
  "noAwaiting s \<longleftrightarrow> (\<forall>d \<in> set (displays s). serverStatus d \<noteq> awaiting)"

lemma noAwaiting_setD:
  "noAwaiting s \<Longrightarrow> (\<And>d. serverStatus d \<noteq> awaiting \<Longrightarrow> serverStatus (f d) \<noteq> awaiting) \<Longrightarrow>
   noAwaiting (setD a f s)"
  by (auto simp: noAwaiting_def setD_def set_update_where split: if_splits)

lemma noAwaiting_displays: "displays s' = displays s \<Longrightarrow> noAwaiting s' = noAwaiting s"
  by (simp add: noAwaiting_def)

lemma noAwaiting_text:
  assumes "noAwaiting t" "rStopDisplay a (or DS_TEXTMODE DS_SCHEDULE) t = Some t'"
  shows "noAwaiting t'"
proof -
  obtain s1 where s1: "abortStartServer a t = Some s1"
    using assms(2) by (cases "abortStartServer a t") (auto simp: rStopDisplay_def)
  have n1: "noAwaiting s1"
  proof (cases "startingServer t = Some a")
    case True
    with s1 obtain d where "deref t a = Some d"
        "s1 = (if serverStatus d \<noteq> ignore
           then (setD a (\<lambda>d. d\<lparr>serverStatus := ignore\<rparr>) t)\<lparr>serverTimeout := TO_INF\<rparr>
           else t)\<lparr>startingServer := None\<rparr>"
      by (cases "deref t a") (auto simp: abortStartServer_def)
    moreover have "noAwaiting (setD a (\<lambda>d. d\<lparr>serverStatus := ignore\<rparr>) t)"
      by (rule noAwaiting_setD [OF assms(1)]) simp
    ultimately show ?thesis using assms(1) by (simp add: noAwaiting_def)
  qed (use s1 assms(1) in \<open>simp add: abortStartServer_def\<close>)
  then obtain e where e: "deref s1 a = Some e"
    using assms(2) s1 by (cases "deref s1 a") (auto simp: rStopDisplay_def)
  have z: "noAwaiting (setD a (\<lambda>d. d\<lparr>status := zombie, zstatus := z\<rparr>) u)" if "displays u = displays s1" for u z
    by (rule noAwaiting_setD) (use n1 that in \<open>simp_all add: noAwaiting_def\<close>)
  have x: "noAwaiting (setD a (\<lambda>d. d\<lparr>status := textMode\<rparr>) s1)"
    by (rule noAwaiting_setD [OF n1]) simp
  show ?thesis
  proof (cases "serverPid e \<noteq> -1 \<or> dpid e \<noteq> -1")
    case True
    with assms(2) rStopDisplay_busy [OF s1 e True] z show ?thesis by (auto simp: Let_def)
  next
    case False
    with assms(2) rStopDisplay_idle [OF s1 e, of "or DS_TEXTMODE DS_SCHEDULE"] x show ?thesis by simp
  qed
qed

lemma console_ok:
  assumes ok: "ok s" and aw: "noAwaiting s" and tty: "consoleTTYs s \<noteq> []"
  shows "\<exists>s'. (forEachDisplay stopToTTY s \<bind> checkTTYMode) = Some s' \<and> ok s' \<and> sameEnv s s'"
proof -
  have "\<exists>s1. forEachDisplay stopToTTY s = Some s1 \<and> (ok s1 \<and> sameEnv s s1 \<and> noAwaiting s1)"
    unfolding forEachDisplay_def
  proof (rule walk_live)
    fix a t assume t: "ok t \<and> sameEnv s t \<and> noAwaiting t" "a \<in> set (live t)"
    then obtain t' where t': "stopToTTY a t = Some t'" "ok t'" "set (live t) - {a} \<subseteq> set (live t')" "sameEnv t t'"
      using stopToTTY_stops [of t a] by (auto simp: stops_def noAwaiting_def)
    moreover have "noAwaiting t'"
      using t t'(1) noAwaiting_text by (auto simp: stopToTTY_def split: if_splits option.splits bind_splits)
    ultimately show "\<exists>s'. stopToTTY a t = Some s' \<and> (ok s' \<and> sameEnv s s' \<and> noAwaiting s')
        \<and> set (live t) - {a} \<subseteq> set (live s')"
      using t sameEnv_trans by blast
  qed (use ok aw in \<open>auto simp: ok_def okBut_def wfList_def\<close>)
  then obtain s1 where s1: "forEachDisplay stopToTTY s = Some s1" "ok s1" "sameEnv s s1" by blast
  have "consoleTTYs s1 \<noteq> []" using s1(3) tty by (simp add: sameEnv_def)
  from keeps_checkTTYMode [OF s1(2) this] show ?thesis
    using s1 sameEnv_trans by (auto simp: keeps_def)
qed

lemma processGPipe_ok:
  assumes ok: "ok s" and m: "okGMsg a m s" and tty: "consoleTTYs s \<noteq> []"
  shows "\<exists>r s'. processGPipe bo sb a m s = Some (r, s') \<and> ok s' \<and> sameCfg s s'"
proof -
  obtain d where d: "deref s a = Some d" using m deref_live by (auto simp: okGMsg_def)
  have st: "\<exists>s'. stopDisplay a s = Some s' \<and> ok s' \<and> sameCfg s s'"
    using stopDisplay_ok [OF ok d] by (auto simp: stops_def sameEnv_sameCfg)
  have vt: "ok (activateVT v s)" "sameCfg s (activateVT v s)" for v
    using ok by (simp_all add: activateVT_def)
  show ?thesis
  proof (cases m)
    case G_Console
    then have "noAwaiting s" using m by (simp add: okGMsg_def noAwaiting_def list_all_iff)
    from console_ok [OF ok this tty] obtain s' where
      "forEachDisplay stopToTTY s \<bind> checkTTYMode = Some s'" "ok s'" "sameEnv s s'" by blast
    with G_Console d tty show ?thesis
      by (cases "forEachDisplay stopToTTY s") (auto simp: processGPipe_def sameEnv_sameCfg)
  qed (use d st vt ok in \<open>auto simp: processGPipe_def\<close>)
qed

end
