(* ===== verification/XdmSafe.thy ===== *)
theory XdmSafe
  imports Xdmcp DmSafe
begin

text \<open>
  The XDMCP service keeps the invariant of the daemon and reads no field outside its bounds,
  for packets that meet \<open>okPacket\<close>; the conditions on a request are those the code fails to
  check, as the last section shows.
\<close>

section \<open>Conditions\<close>

text \<open>The address of a pending display is as long as its type says.\<close>

definition okConn :: "16 word \<Rightarrow> bytes \<Rightarrow> bool" where
  "okConn t a \<longleftrightarrow> (case familyOf (uint t) of None \<Rightarrow> True | Some af \<Rightarrow> addrLen af \<le> length a)"

definition okProto :: "protoDisplay \<Rightarrow> bool" where
  "okProto p \<longleftrightarrow> okConn (pConnType (snd p)) (pConnAddr (snd p))"

text \<open>One pending display for each sender and display number.\<close>

definition okProtos :: "protoDisplay list \<Rightarrow> bool" where
  "okProtos ps \<longleftrightarrow> list_all okProto ps \<and> wfProtos ps \<and> sorted_wrt (\<lambda>p q. \<not> sameProto (fst p) (fst q)) ps"

definition okXd :: "dm \<Rightarrow> bool" where
  "okXd s \<longleftrightarrow> okLists (accLists s) \<and> okProtos (protos s)"

text \<open>The service listens on internet sockets.\<close>

fun okSender :: "sockaddr \<Rightarrow> bool" where
  "okSender (SaInet p a) \<longleftrightarrow> length p = 2 \<and> length a = 4"
| "okSender (SaInet6 p a) \<longleftrightarrow> length p = 2 \<and> length a = 16"
| "okSender _ \<longleftrightarrow> False"

definition keyOf :: "xenv \<Rightarrow> bytes \<Rightarrow> bytes option" where
  "keyOf E displayID = (case xKeyFile E of None \<Rightarrow> None | Some ls \<Rightarrow> xdmGetKey ls displayID)"

text \<open>
  A request that asks for \<open>XDM-AUTHORIZATION-1\<close> authenticates, and no authentication name stops
  short inside the name the code compares it with.
\<close>

definition okRequest :: "xenv \<Rightarrow> request \<Rightarrow> bool" where
  "okRequest E q \<longleftrightarrow>
     (case selectConnectionTypeIndex (rqTypes q) of
        None \<Rightarrow> True | Some i \<Rightarrow> i < length (rqAddrs q) \<longrightarrow> okConn (rqTypes q ! i) (rqAddrs q ! i))
   \<and> \<not> (rqAuthName q \<noteq> [] \<and> length (rqAuthName q) < 20 \<and> prefix (rqAuthName q) XDM_AUTHENTICATION)
   \<and> (XDM_AUTHORIZATION \<in> set (rqNames q) \<longrightarrow>
        take 20 (rqAuthName q) = XDM_AUTHENTICATION
        \<and> whenSome (\<lambda>k. 8 \<le> length (xUnwrap E (rqAuthData q) k)) (keyOf E (rqDisplayID q)))"

definition okPacket :: "xenv \<Rightarrow> xread \<Rightarrow> sockaddr \<Rightarrow> bytes \<Rightarrow> bool" where
  "okPacket E R sa buf \<longleftrightarrow> okSender sa \<and> whenSome okLists (xRescan E)
     \<and> (case rHeader R buf of
          None \<Rightarrow> True
        | Some ((ver, op, n), buf) \<Rightarrow>
            op = opcode REQUEST \<longrightarrow> whenSome (okRequest E) (readRequest R buf))"

text \<open>The outcome: no read outside an object, the invariant kept, the display list as it must be.\<close>

definition serves :: "dm \<Rightarrow> ('a \<times> dm) option \<Rightarrow> bool" where
  "serves s r \<longleftrightarrow> (\<exists>x s'. r = Some (x, s') \<and> ok s' \<and> okXd s' \<and> consoleTTYs s' = consoleTTYs s)"

lemma servesI: "ok s' \<Longrightarrow> okXd s' \<Longrightarrow> consoleTTYs s' = consoleTTYs s \<Longrightarrow> serves s (Some (x, s'))"
  by (simp add: serves_def)

lemma servesE:
  assumes "serves s r"
  obtains x s' where "r = Some (x, s')" "ok s'" "okXd s'" "consoleTTYs s' = consoleTTYs s"
  using assms by (auto simp: serves_def)

lemma okXd_updates [simp]:
  "okXd (s\<lparr>choices := cs\<rparr>) = okXd s" "okXd (s\<lparr>lastAccScan := t\<rparr>) = okXd s"
  "okXd (s\<lparr>nextSession := i\<rparr>) = okXd s" "okXd (setD a f s) = okXd s"
  by (simp_all add: okXd_def setD_def)

lemma okXd_env: "sameCfg s t \<Longrightarrow> okXd t = okXd s"
  by (simp add: okXd_def sameCfg_def)

lemma okSender_wf: "okSender sa \<Longrightarrow> wfSockaddr sa"
  by (cases sa) simp_all

section \<open>Queries\<close>

lemma familyOf_card16: "convertAddr sa = (f, a) \<Longrightarrow> familyOf (card16Of f) = familyOf f"
  by (cases sa) (auto simp: convertAddr_def Let_def card16Of_def familyOf_def unsigned_minus_1_eq_mask
      mask_eq_exp_minus_1 split: if_splits)

lemma hostname_sender:
  assumes "wfSockaddr sa" "convertAddr sa = (f, a)" "familyOf ct = familyOf f"
  shows "networkAddressToHostname E ct a \<noteq> None"
proof (rule hostname_defined)
  fix af assume "familyOf ct = Some af"
  then show "length a = addrLen af"
    using assms convertAddr_length [OF assms(1)]
    by (auto simp: familyOf_def addrLen_def split: if_splits)
qed

lemma isWilling_serves:
  assumes "ok s" "okXd s" "wfSockaddr sa" "convertAddr sa = (f, a)" "whenSome okLists (xRescan E)"
  shows "\<exists>r st s'. isWilling E a f type s = Some (r, st, s') \<and> ok s' \<and> okXd s' \<and> consoleTTYs s' = consoleTTYs s"
proof -
  define t where "t = (if xAutoRescan E \<and> lastAccScan s + 15 < now s
              then s\<lparr>lastAccScan := now s,
                     accLists := (case xRescan E of None \<Rightarrow> accLists s | Some A \<Rightarrow> A)\<rparr>
              else s)"
  have t: "ok t" "okXd t" "consoleTTYs t = consoleTTYs s"
    using assms by (auto simp: t_def okXd_def split: option.splits)
  obtain nm where nm: "networkAddressToHostname E f a = Some nm"
    using hostname_sender [OF assms(3,4) refl, of E] by blast
  obtain r where r: "acceptableDisplayAddress ACL_DEPTH (accLists t) nm a f type = Some r"
    using okLists_acceptable t(2) unfolding okXd_def by fastforce
  show ?thesis unfolding isWilling_def Let_def t_def [symmetric] using t by (simp add: nm r)
qed

lemma all_query_serves:
  assumes "ok s" "okXd s" "wfSockaddr sa" "whenSome okLists (xRescan E)"
  shows "serves s (all_query_respond E sa len ns type s)"
proof -
  obtain f a where c: "convertAddr sa = (f, a)" by fastforce
  let ?k = "(a, netaddrPort sa, word_of_int f)"
  let ?s = "if type = INDIRECT_QUERY
            then s\<lparr>choices := registerIndirectChoice (xMok E) (now s) (choiceTimeout s) ?k None (choices s)\<rparr>
            else s\<lparr>choices := snd (checkIndirectChoice ?k (choices s))\<rparr>"
  have s: "ok ?s" "okXd ?s" "consoleTTYs ?s = consoleTTYs s" using assms by simp_all
  obtain r st s' where w: "isWilling E a f type ?s = Some (r, st, s')" "ok s'" "okXd s'"
      "consoleTTYs s' = consoleTTYs ?s"
    using isWilling_serves [OF s(1,2) assms(3) c assms(4)] by blast
  show ?thesis
    using assms s(3) w by (auto simp: all_query_respond_def c Let_def intro!: servesI)
qed

lemma direct_query_serves:
  assumes "ok s" "okXd s" "wfSockaddr sa" "whenSome okLists (xRescan E)"
  shows "serves s (direct_query_respond E R sa len n type buf s)"
  using all_query_serves [OF assms] assms
  by (auto simp: direct_query_respond_def intro!: servesI split: option.split)

lemma forwardClient_wf: "forwardClient sa a p = Some (client, clen) \<Longrightarrow> wfSockaddr client"
  by (cases sa) (auto split: if_splits)

lemma forward_serves:
  assumes "ok s" "okXd s" "whenSome okLists (xRescan E)"
  shows "serves s (forward_respond E R sa len n buf s)"
  using all_query_serves [OF assms(1,2) forwardClient_wf assms(3)] assms
  by (auto simp: forward_respond_def intro!: servesI split: option.split)

lemma indirect_serves:
  assumes "ok s" "okXd s" "wfSockaddr sa" "whenSome okLists (xRescan E)"
  shows "serves s (indirect_respond E R sa len n buf s)"
proof (cases "rARRAYofARRAY8 R buf")
  case None
  with assms show ?thesis by (simp add: indirect_respond_def servesI)
next
  case (Some r)
  obtain f a where c: "convertAddr sa = (f, a)" by fastforce
  obtain nm where nm: "networkAddressToHostname E (card16Of f) a = Some nm"
    using hostname_sender [OF assms(3) c familyOf_card16 [OF c], of E] by blast
  obtain cs loc where m: "forEachMatchingIndirectHost ACL_DEPTH (accLists s) nm (xLocalAddr E) (choices s)
      a (netaddrPort sa) (card16Of f) = Some (cs, loc)"
    using okLists_indirect [of "accLists s" nm "xLocalAddr E" "choices s" a "netaddrPort sa" "card16Of f"] assms(2)
    by (auto simp: okXd_def)
  obtain ns b where r: "r = (ns, b)" by (cases r)
  have q: "serves s (all_query_respond E sa len ns INDIRECT_QUERY s)" by (rule all_query_serves [OF assms])
  then obtain o2 s2 where "all_query_respond E sa len ns INDIRECT_QUERY s = Some (o2, s2)" "ok s2" "okXd s2"
      "consoleTTYs s2 = consoleTTYs s" by (rule servesE)
  then show ?thesis
    using Some assms by (simp add: indirect_respond_def r c nm m Let_def servesI)
qed


section \<open>Requests\<close>

lemma okProtos_filter: "okProtos ps \<Longrightarrow> okProtos (filter P ps)"
  by (auto simp: okProtos_def wfProtos_filter sorted_wrt_filter list_all_iff)

lemma protos_dispose: "okProtos ps \<Longrightarrow> okProtos (disposeProtoDisplay a ps)"
  using okProtos_filter by (simp add: okProtos_def disposeProtoDisplay_filter)

lemma protos_timeout: "okProtos ps \<Longrightarrow> okProtos (timeoutProtoDisplays t ps)"
  using okProtos_filter by (simp add: okProtos_def timeoutProtoDisplays_filter)

lemma newProto_ok:
  assumes "newProtoDisplay mok (freshAddr ps) t k ct ca sid ps = (r, ps')" "okProtos ps" "okConn ct ca"
    "findProtoDisplay ps k = None"
  shows "okProtos ps' \<and> whenSome okProto r"
proof -
  let ?ps = "timeoutProtoDisplays t ps"
  let ?p = "(k, \<lparr>pAddr = freshAddr ps, pDate = word_of_int t, pConnType = ct, pConnAddr = ca, pSessionID = sid,
       pFileAuth = None, pXdmcpAuth = None, pAuthName = [], pAuthData = [], pKey = []\<rparr>)"
  have ps: "okProtos ?ps" by (rule protos_timeout [OF assms(2)])
  have sub: "set ?ps \<subseteq> set ps" using assms(2) by (auto simp: okProtos_def timeoutProtoDisplays_filter)
  have "okProto ?p" using assms(3) by (simp add: okProto_def)
  moreover have "freshAddr ps \<notin> (pAddr \<circ> snd) ` set ?ps" using freshAddr_fresh [of ps] sub by auto
  moreover have "\<not> sameProto k (fst q)" if "q \<in> set ?ps" for q
  proof -
    have "q \<in> set ps" using sub that by blast
    then have "\<not> sameProto (fst q) k" using assms(4) unfolding findProtoDisplay_def find_None_iff by blast
    then show ?thesis using sameProto_sym by blast
  qed
  ultimately have "okProtos (?p # ?ps)" "okProto ?p"
    using ps by (auto simp: okProtos_def wfProtos_def)
  then show ?thesis using assms(1) ps by (auto simp: newProtoDisplay_def Let_def split: if_splits)
qed

lemma okXd_setProto:
  assumes "okXd s" "okProto (k, i)" "pAddr i = a"
  shows "okXd (setProto a i s)"
proof -
  let ?f = "\<lambda>p. if pAddr (snd p) = a then (fst p, i) else p"
  have p: "okLists (accLists s)" "list_all okProto (protos s)" "distinct (map (pAddr \<circ> snd) (protos s))"
    "sorted_wrt (\<lambda>p q. \<not> sameProto (fst p) (fst q)) (protos s)"
    using assms(1) by (simp_all add: okXd_def okProtos_def wfProtos_def)
  have f: "(pAddr \<circ> snd) \<circ> ?f = pAddr \<circ> snd" using assms(3) by auto
  have k: "fst (?f p) = fst p" for p by simp
  have "list_all okProto (map ?f (protos s))"
    using p(2) assms(2) by (auto simp: okProto_def list_all_iff)
  moreover have "distinct (map (pAddr \<circ> snd) (map ?f (protos s)))"
    using p(3) by (simp only: map_map f)
  moreover have "sorted_wrt (\<lambda>p q. \<not> sameProto (fst p) (fst q)) (map ?f (protos s))"
    using p(4) by (simp only: sorted_wrt_map k)
  ultimately show ?thesis using p(1) by (simp add: okXd_def okProtos_def wfProtos_def setProto_def)
qed

lemma setProto_frame [simp]: "ok (setProto a i s) = ok s" "consoleTTYs (setProto a i s) = consoleTTYs s"
  by (simp_all add: setProto_def)

lemma find_list_all: "list_all P xs \<Longrightarrow> find Q xs = Some x \<Longrightarrow> P x"
  by (auto simp: list_all_iff dest: find_SomeD)

lemma requestDisplay_ok:
  assumes "ok s" "okXd s" "okRequest E q" "length (rqAddrs q) = length (rqTypes q)"
    "requestDisplay E sa len q s = (r, s')"
  shows "ok s' \<and> okXd s' \<and> consoleTTYs s' = consoleTTYs s \<and> (\<forall>p. r = Inr p \<longrightarrow> okProto p)"
proof (cases "findProtoDisplay (protos s) (sa, len, rqDisplay q)")
  case (Some p)
  with assms show ?thesis
    by (auto simp: requestDisplay_def findProtoDisplay_def okXd_def okProtos_def intro: find_list_all)
next
  case none: None
  show ?thesis
  proof (cases "selectConnectionTypeIndex (rqTypes q)")
    case None
    with none assms show ?thesis by (auto simp: requestDisplay_def isAccepting_def)
  next
    case (Some i)
    have "i < length (rqTypes q)"
    proof -
      have "indexOf P xs = Some i \<Longrightarrow> i < length xs" for P and xs :: "16 word list" and i
        by (induction xs arbitrary: i) (auto split: if_splits)
      with Some show ?thesis by (simp add: selectConnectionTypeIndex_def)
    qed
    then have conn: "okConn (rqTypes q ! i) (rqAddrs q ! i)"
      using assms(3,4) Some by (simp add: okRequest_def)
    obtain p ps where np: "newProtoDisplay (xMok E) (freshAddr (protos s)) (now s) (sa, len, rqDisplay q)
        (rqTypes q ! i) (rqAddrs q ! i) (nextSession s + 1) (protos s) = (p, ps)" by fastforce
    have "okProtos ps \<and> whenSome okProto p"
      by (rule newProto_ok [OF np _ conn none]) (use assms(2) in \<open>simp add: okXd_def\<close>)
    with none Some assms np show ?thesis
      by (cases p) (auto simp: requestDisplay_def isAccepting_def Let_def okXd_def)
  qed
qed

text \<open>Authentication does not touch the address of the display.\<close>

lemma checkAuthentication_conn:
  "checkAuthentication E p d n a = Some (b, p', ad) \<Longrightarrow>
     pConnType p' = pConnType p \<and> pConnAddr p' = pConnAddr p \<and> pAddr p' = pAddr p"
  by (auto simp: checkAuthentication_def xdmcheckAuthentication_def Let_def split: if_splits option.splits)

lemma setAuthorization_conn:
  "setProtoDisplayAuthorization E n p = Some p' \<Longrightarrow> pConnType p' = pConnType p \<and> pConnAddr p' = pConnAddr p \<and> pAddr p' = pAddr p"
  by (auto simp: setProtoDisplayAuthorization_def xdmGetXdmcpAuth_def Let_def
      split: if_splits option.splits authProtocol.splits)

lemma checkAuthentication_data:
  assumes "okRequest E q" "XDM_AUTHORIZATION \<in> set (rqNames q)"
    "checkAuthentication E p (rqDisplayID q) (rqAuthName q) (rqAuthData q) = Some (True, p', ad)"
  shows "8 \<le> length (pAuthData p')"
proof -
  have n: "take 20 (rqAuthName q) = XDM_AUTHENTICATION" "rqAuthName q \<noteq> []"
    and k: "whenSome (\<lambda>k. 8 \<le> length (xUnwrap E (rqAuthData q) k)) (keyOf E (rqDisplayID q))"
    using assms(1,2) by (auto simp: okRequest_def XDM_AUTHENTICATION_def ascii_def)
  from assms(3) n have "xdmcheckAuthentication E p (rqDisplayID q) (rqAuthData q) = (True, p', ad)"
    by (simp add: checkAuthentication_def split: if_splits)
  with k show ?thesis
    by (auto simp: xdmcheckAuthentication_def keyOf_def Let_def split: option.splits if_splits)
qed

lemma checkAuthentication_defined:
  "okRequest E q \<Longrightarrow> \<exists>b p' ad. checkAuthentication E p d (rqAuthName q) a = Some (b, p', ad)"
  by (cases "xdmcheckAuthentication E p d a") (auto simp: okRequest_def checkAuthentication_def)

lemma setAuthorization_defined:
  assumes "n = XDM_AUTHORIZATION \<longrightarrow> 8 \<le> length (pAuthData p)"
  shows "\<exists>p'. setProtoDisplayAuthorization E n p = Some p'"
proof (cases "findProtocol n")
  case None
  then show ?thesis by (simp add: setProtoDisplayAuthorization_def)
next
  case (Some x)
  show ?thesis
  proof (cases x)
    case XdmAuthorization
    then have "n = XDM_AUTHORIZATION" using Some by (simp add: findProtocol_def split: if_splits)
    with assms Some XdmAuthorization show ?thesis
      by (simp add: setProtoDisplayAuthorization_def xdmGetXdmcpAuth_def Let_def split: option.split)
  qed (use Some in \<open>simp add: setProtoDisplayAuthorization_def Let_def\<close>)
qed

lemma requestAuth_ok:
  assumes "ok s" "okXd s" "okRequest E q" "okProto (k, p)"
  shows "\<exists>r ad s'. requestAuth E q p s = Some (r, ad, s') \<and> ok s' \<and> okXd s' \<and> consoleTTYs s' = consoleTTYs s"
proof (cases "if rqNames q = [] then Some 0 else selectAuthorizationTypeIndex (rqAuthName q) (rqNames q)")
  case None
  with assms show ?thesis by (simp add: requestAuth_def)
next
  case (Some j)
  obtain b p1 ad where c: "checkAuthentication E p (rqDisplayID q) (rqAuthName q) (rqAuthData q) = Some (b, p1, ad)"
    using checkAuthentication_defined [OF assms(3)] by blast
  have p1: "okProto (k, p1)" "pAddr p1 = pAddr p" using checkAuthentication_conn [OF c] assms(4) by (simp_all add: okProto_def)
  have set: "ok (setProto (pAddr p) x s)" "okXd (setProto (pAddr p) x s)" if "okProto (k, x)" "pAddr x = pAddr p" for x
    using assms(1) okXd_setProto [OF assms(2) that] by simp_all
  show ?thesis
  proof (cases "b \<and> j < length (rqNames q)")
    case True
    then have "\<exists>p2. setProtoDisplayAuthorization E (rqNames q ! j) p1 = Some p2"
      using checkAuthentication_data [OF assms(3) _ , of p p1 ad] c
      by (intro setAuthorization_defined) (auto dest: nth_mem)
    then obtain p2 where p2: "setProtoDisplayAuthorization E (rqNames q ! j) p1 = Some p2" by blast
    have "okProto (k, p2)" "pAddr p2 = pAddr p" using setAuthorization_conn [OF p2] p1 by (simp_all add: okProto_def)
    from set [OF this] Some c True p2 show ?thesis by (simp add: requestAuth_def Let_def)
  qed (use set [OF p1] Some c in \<open>auto simp: requestAuth_def Let_def\<close>)
qed

lemma request_serves:
  assumes "ok s" "okXd s" "whenSome (okRequest E) (readRequest R buf)"
  shows "serves s (request_respond E R sa len n buf s)"
proof (cases "readRequest R buf")
  case None
  with assms show ?thesis by (simp add: request_respond_def servesI)
next
  case (Some q)
  then have q: "okRequest E q" using assms(3) by simp
  show ?thesis
  proof (cases "n \<noteq> int (requestLen q) \<or> rqTypes q = [] \<or> length (rqAddrs q) \<noteq> length (rqTypes q)")
    case True
    with Some assms show ?thesis by (auto simp: request_respond_def Let_def intro!: servesI)
  next
    case False
    obtain r s1 where r: "requestDisplay E sa len q s = (r, s1)" by fastforce
    from requestDisplay_ok [OF assms(1,2) q _ r] False
    have s1: "ok s1" "okXd s1" "consoleTTYs s1 = consoleTTYs s" "\<And>p. r = Inr p \<Longrightarrow> okProto p" by auto
    show ?thesis
    proof (cases r)
      case (Inl reason)
      with Some False r s1 show ?thesis by (simp add: request_respond_def Let_def servesI)
    next
      case (Inr p)
      then have "okProto (fst p, snd p)" using s1(4) by simp
      then obtain x ad s2 where s2: "requestAuth E q (snd p) s1 = Some (x, ad, s2)" "ok s2" "okXd s2"
          "consoleTTYs s2 = consoleTTYs s1"
        using requestAuth_ok [OF s1(1,2) q] by blast
      have "okXd (s2\<lparr>protos := disposeProtoDisplay a (protos s2)\<rparr>)" for a
        using s2(3) by (simp add: okXd_def protos_dispose)
      with Some False r Inr s1 s2 show ?thesis
        by (cases x) (auto simp: request_respond_def Let_def intro!: servesI)
    qed
  qed
qed


section \<open>Managing a display\<close>

lemma numeric_defined: "addrLen af \<le> length a \<Longrightarrow> \<exists>t. numeric E af a = Some t"
  by (simp add: numeric_def)

lemma origAddr_defined: "okSender sa \<Longrightarrow> familyOf ct = Some af \<Longrightarrow> \<exists>a. origAddr ct sa = Some a \<and> addrLen af \<le> length a"
  by (cases sa) (auto simp: familyOf_def addrLen_def split: if_splits)

lemma networkAddressToName_defined:
  assumes "okProto (k, p)" "okSender sa"
  shows "networkAddressToName E (uint (pConnType p)) (pConnAddr p) sa dn \<noteq> None"
proof (cases "familyOf (uint (pConnType p))")
  case None
  then show ?thesis by (simp add: networkAddressToName_def)
next
  case (Some af)
  have a: "\<exists>u. numeric E af (pConnAddr p) = Some u"
    by (rule numeric_defined) (use assms(1) Some in \<open>simp add: okProto_def okConn_def\<close>)
  obtain b where b: "origAddr (uint (pConnType p)) sa = Some b" "addrLen af \<le> length b"
    using origAddr_defined [OF assms(2) Some] by blast
  obtain t where "numeric E af b = Some t" using numeric_defined [OF b(2)] by blast
  obtain u where "numeric E af (pConnAddr p) = Some u" using a by blast
  with \<open>numeric E af b = Some t\<close> b(1) Some show ?thesis
    by (cases "hostOf E af (pConnAddr p)"; cases "fst (hostOf E af (pConnAddr p))")
      (auto simp: networkAddressToName_def)
qed

lemma stopDisplay_serves:
  assumes "ok s" "okXd s"
  shows "\<exists>s'. stopNamed n s = Some s' \<and> ok s' \<and> okXd s' \<and> consoleTTYs s' = consoleTTYs s \<and> protos s' = protos s"
proof (cases "findDisplayByName n s")
  case None
  with assms show ?thesis by (simp add: stopNamed_def)
next
  case (Some a)
  then obtain d where d: "deref s a = Some d"
    using find_deref [OF ok_wfList [OF assms(1)]] unfolding findDisplayByName_def by blast
  then obtain s' where s': "stopDisplay a s = Some s'" "ok s'" "sameEnv s s'"
    using stopDisplay_ok [OF assms(1) d] by (auto simp: stops_def)
  have "okXd s'" "consoleTTYs s' = consoleTTYs s" "protos s' = protos s"
    using okXd_env [OF sameEnv_sameCfg [OF s'(3)]] assms(2) s'(3) by (simp_all add: sameEnv_def)
  with Some s' show ?thesis by (simp add: stopNamed_def)
qed

lemma manageChooser_serves:
  assumes "ok s" "okXd s" "okSender sa"
  obtains b s' where "manageChooser E sa s = Some (b, s')" "ok s'" "okXd s'" "consoleTTYs s' = consoleTTYs s"
    "startingServer s' = startingServer s" "displays s' = displays s" "protos s' = protos s"
proof -
  obtain f addr where c: "convertAddr sa = (f, addr)" by fastforce
  obtain hit cs where ch: "checkIndirectChoice (addr, netaddrPort sa, word_of_int (card16Of f)) (choices s) = (hit, cs)"
    by fastforce
  obtain nm where nm: "networkAddressToHostname E (card16Of f) addr = Some nm"
    using hostname_sender [OF okSender_wf [OF assms(3)] c familyOf_card16 [OF c], of E] by blast
  obtain u where u: "useChooser ACL_DEPTH (accLists s) nm addr (card16Of f) = Some u"
    using okLists_useChooser assms(2) unfolding okXd_def by fastforce
  have "manageChooser E sa s = Some (hit \<and> u, s\<lparr>choices := cs\<rparr>)"
    by (cases hit) (simp_all add: manageChooser_def c ch nm u Let_def)
  with that assms show thesis by simp
qed

lemma fillDisplay_serves:
  assumes "ok s" "okXd s"
  shows "ok (setD a (fillDisplay sa len p dn cls b) s)" "okXd (setD a (fillDisplay sa len p dn cls b) s)"
  using assms by (auto simp: fillDisplay_def intro: ok_neutral)

lemma takeProto_serves:
  assumes "ok s" "okXd s" "startingServer s \<noteq> Some a"
  shows "serves s (Some (takeProto E p a s))"
proof (cases "pFileAuth p \<noteq> None \<and> \<not> xMok E 34")
  case True
  have "ok (removeDisplay a s)"
    by (rule removeDisplay_ok [of None]) (use assms in \<open>simp_all add: ok_def\<close>)
  moreover have "sameCfg s (removeDisplay a s)" by (rule sameEnv_sameCfg) simp
  moreover from this have "okXd (removeDisplay a s)" using okXd_env assms(2) by blast
  ultimately have "serves s (Some (x, removeDisplay a s))" for x :: "bytes option"
    by (intro servesI) (simp_all add: sameCfg_def)
  then show ?thesis using True by (simp add: takeProto_def)
next
  case False
  define t where "t = (case pFileAuth p of
      Some f \<Rightarrow> setD a (\<lambda>d. d\<lparr>authorizations := [xaData f]\<rparr>) s | None \<Rightarrow> s)"
  have "ok (setD a (\<lambda>d. d\<lparr>authorizations := x\<rparr>) s)" for x
    using assms(1) by (rule ok_neutral) simp_all
  moreover have "consoleTTYs (setD a f s) = consoleTTYs s" "protos (setD a f s) = protos s" for f
    by (simp_all add: setD_def)
  ultimately have t: "ok t" "okXd t" "consoleTTYs t = consoleTTYs s" "protos t = protos s"
    using assms by (simp_all add: t_def split: option.split)
  have "takeProto E p a s = (None, t\<lparr>protos := disposeProtoDisplay (pAddr p) (protos t)\<rparr>)"
    using False by (simp add: takeProto_def t_def Let_def)
  then show ?thesis using t by (simp add: servesI okXd_def protos_dispose)
qed

lemma manageDisplay_serves:
  assumes "ok s" "okXd s" "okSender sa"
  shows "serves s (manageDisplay E sa len name p dn cls s)"
proof -
  obtain s1 where s1: "stopNamed (chars name) s = Some s1" "ok s1" "okXd s1" "consoleTTYs s1 = consoleTTYs s"
    using stopDisplay_serves [OF assms(1,2)] by blast
  obtain r s2 where nd: "newDisplay (\<lambda>i. xMok E (31 + i)) (chars name) s1 = (r, s2)" by fastforce
  have s2: "ok s2" "okXd s2" "consoleTTYs s2 = consoleTTYs s" "startingServer s2 = startingServer s1"
    using newDisplay_ok [OF s1(2) nd] newDisplay_frame [OF nd] s1 by (simp_all add: okXd_def)
  show ?thesis
  proof (cases "cls \<noteq> [] \<and> \<not> xMok E 29 \<or> \<not> xMok E 30 \<or> r = None")
    case True
    with s1 s2 nd show ?thesis by (cases r) (auto simp: manageDisplay_def serves_def)
  next
    case False
    then obtain a where a: "r = Some a" by auto
    obtain b s3 where s3: "manageChooser E sa s2 = Some (b, s3)" "ok s3" "okXd s3" "consoleTTYs s3 = consoleTTYs s2"
        "startingServer s3 = startingServer s2"
      by (rule manageChooser_serves [OF s2(1,2) assms(3)])
    let ?t = "setD a (fillDisplay sa len p dn cls b) s3"
    have "startingServer s1 \<noteq> Some a"
    proof
      assume "startingServer s1 = Some a"
      then obtain d where "deref s1 a = Some d" using s1(2) by (auto simp: ok_def okBut_def okStarting_def)
      then have "a \<in> set (live s1)" using deref_SomeD live_def by fastforce
      then show False using newDisplay_Some(1) [OF nd [unfolded a]] ok_wfList [OF s1(2)] by (auto simp: wfList_def)
    qed
    then have "serves ?t (Some (takeProto E p a ?t))"
      using takeProto_serves [OF fillDisplay_serves [OF s3(2,3)]] s2(4) s3(5) by simp
    moreover have "consoleTTYs ?t = consoleTTYs s" using s3(4) s2(3) by (simp add: setD_def)
    ultimately have "serves s (Some (takeProto E p a ?t))" by (simp add: serves_def)
    moreover have c: "(cls \<noteq> [] \<and> \<not> xMok E 29 \<or> \<not> xMok E 30) = False" using False by blast
    ultimately show ?thesis using s1(1) nd a s3(1) by (simp add: manageDisplay_def c)
  qed
qed

lemma manage_serves:
  assumes "ok s" "okXd s" "okSender sa"
  shows "serves s (manage E R sa len n buf s)"
proof -
  have same: "serves s (Some (x, s))" for x :: sent using assms by (simp add: servesI)
  show ?thesis
  proof (cases "do { (sid, buf) \<leftarrow> rCARD32 R buf; (dn, buf) \<leftarrow> rCARD16 R buf; (cls, buf) \<leftarrow> rARRAY8 R buf;
                 Some (sid, dn, cls) }")
    case None
    with same show ?thesis by (simp add: manage_def)
  next
    case (Some m)
    obtain sid dn cls where m: "m = (sid, dn, cls)" by (cases m)
    show ?thesis
    proof (cases "findProtoDisplay (protos s) (sa, len, dn)")
      case None
      have "\<exists>d. deref s a = Some d" if "findDisplayByAddress sa len dn s = Some a" for a
        using find_deref [OF ok_wfList [OF assms(1)] that [unfolded findDisplayByAddress_def]] by blast
      with same None Some m show ?thesis by (auto simp: manage_def split: option.split)
    next
      case found: (Some kp)
      obtain k p where kp: "kp = (k, p)" by (cases kp)
      have "okProto (k, p)"
        using assms(2) found unfolding okXd_def okProtos_def findProtoDisplay_def kp by (auto intro: find_list_all)
      then obtain nm where nm: "networkAddressToName E (uint (pConnType p)) (pConnAddr p) sa dn = Some nm"
        using networkAddressToName_defined [OF _ assms(3)] by blast
      show ?thesis
      proof (cases nm)
        case (Some name)
        from manageDisplay_serves [OF assms, of E len name p dn cls]
        obtain e s' where "manageDisplay E sa len name p dn cls s = Some (e, s')" "ok s'" "okXd s'"
            "consoleTTYs s' = consoleTTYs s" by (rule servesE)
        then show ?thesis using same \<open>_ = Some m\<close> m found kp nm Some
          by (simp add: manage_def servesI)
      qed (use same \<open>_ = Some m\<close> m found kp nm in \<open>simp add: manage_def\<close>)
    qed
  qed
qed

section \<open>Every packet\<close>

lemma packet_serves:
  assumes "ok s" "okXd s" "okPacket E R sa buf"
  shows "serves s (processRequestSocket E R sa len buf s)"
proof (cases "rHeader R buf")
  case None
  with assms show ?thesis by (simp add: processRequestSocket_def servesI)
next
  case (Some h)
  obtain ver op n rest where h: "h = ((ver, op, n), rest)" by (metis prod.collapse)
  have p: "okSender sa" "wfSockaddr sa" "whenSome okLists (xRescan E)"
    "op = opcode REQUEST \<Longrightarrow> whenSome (okRequest E) (readRequest R rest)"
    using assms(3) Some h okSender_wf by (auto simp: okPacket_def)
  have same: "serves s (Some (x, s))" for x :: sent using assms by (simp add: servesI)
  have "serves s (send_alive R sa len n rest s)"
    using same by (auto simp: send_alive_def Let_def split: option.split)
  then show ?thesis
    using same direct_query_serves [OF assms(1,2) p(2,3)] indirect_serves [OF assms(1,2) p(2,3)]
      forward_serves [OF assms(1,2) p(3)] request_serves [OF assms(1,2) p(4)] manage_serves [OF assms(1,2) p(1)] Some
    by (simp add: h processRequestSocket_def broadcast_respond_def query_respond_def del: opcode.simps)
qed

end
