(* ===== verification/DmKeep.thy ===== *)
theory DmKeep
  imports XdmSafe
begin

text \<open>
  The invariant with a console terminal configured and access lists that can be scanned, and the
  proof that a pass of the main loop of \<^verbatim>\<open>kdm/backend/dm.c\<close>, a signal and a change of the
  configuration keep it.
\<close>

section \<open>The main loop\<close>

lemma rescanConfigs_ok:
  assumes "ok s"
  shows "ok (rescanConfigs mok c s)"
proof (cases c)
  case None
  with assms show ?thesis by (simp add: rescanConfigs_def scanConfigs_def)
next
  case (Some k)
  have "ok (s\<lparr>consoleTTYs := t, serverVTs := v, requestPort := p, choiceTimeout := c\<rparr>)" for t v p c
    using assms by simp
  with Some show ?thesis by (simp add: rescanConfigs_def scanConfigs_def Let_def scanServers_ok)
qed

lemma addServers_cfg: "sameCfg u s \<Longrightarrow> sameCfg u (addServers mok k srvs t s)"
proof (induction mok k srvs t s rule: addServers.induct)
  case (2 mok k srv srvs t s)
  have st: "sameCfg u (setServer a n c t v) = sameCfg u v" for a n c t v
    by (simp add: setServer_def)
  show ?case
  proof (cases "\<not> mok k 0 \<or> serverClass srv \<noteq> None \<and> \<not> mok k 1")
    case True
    with 2 show ?thesis by simp
  next
    case False
    show ?thesis
    proof (cases "findDisplayByName (serverName srv) s")
      case None
      obtain r s1 where nd: "newDisplay (\<lambda>i. mok k (i + 2)) (serverName srv) s = (r, s1)" by fastforce
      have "sameCfg u s1" using newDisplay_frame [OF nd] 2(3) by (simp add: sameCfg_def)
      with None False 2(1) [OF False refl refl None nd [symmetric]] 2(3) nd st
      show ?thesis by (cases r) simp_all
    next
      case (Some a)
      with False 2(2) [OF False refl refl Some] 2(3) st show ?thesis by simp
    qed
  qed
qed simp

definition okConf :: "dmConf option \<Rightarrow> bool" where
  "okConf c \<longleftrightarrow> (case c of None \<Rightarrow> True
     | Some k \<Rightarrow> cfConsoleTTYs k \<noteq> [] \<and> whenSome okLists (cfAccess k))"

text \<open>The invariant with a console terminal configured and access lists that can be scanned.\<close>

definition okEnv :: "dm \<Rightarrow> bool" where
  "okEnv s \<longleftrightarrow> consoleTTYs s \<noteq> [] \<and> okXd s"

definition okT :: "dm \<Rightarrow> bool" where
  "okT s \<longleftrightarrow> ok s \<and> okEnv s"

lemma okEnv_cong: "sameCfg s t \<Longrightarrow> okEnv t = okEnv s"
  by (simp add: okEnv_def okXd_env) (simp add: sameCfg_def)

lemma okT_cfg: "ok s' \<Longrightarrow> okT s \<Longrightarrow> sameCfg s s' \<Longrightarrow> okT s'"
  by (simp add: okT_def okEnv_cong)

lemma okT_env: "ok s' \<Longrightarrow> okT s \<Longrightarrow> sameEnv s s' \<Longrightarrow> okT s'"
  using okT_cfg sameEnv_sameCfg by blast

lemma okT_tty: "okT s \<Longrightarrow> consoleTTYs s \<noteq> []"
  by (simp add: okT_def okEnv_def)

lemma scanConfigs_okEnv:
  assumes "okXd s" "okConf (Some k)"
  shows "okEnv (scanConfigs mok (Some k) s)"
proof -
  let ?u = "s\<lparr>consoleTTYs := cfConsoleTTYs k, serverVTs := cfServerVTs k, requestPort := cfPort k,
               choiceTimeout := cfChoiceTimeout k\<rparr>"
  define v where "v = scanServers mok (cfStatic k) (cfReserve k) ?u"
  have "sameCfg ?u v" by (simp add: v_def scanServers_def addServers_cfg)
  then have v: "consoleTTYs v = cfConsoleTTYs k" "accLists v = accLists s" "protos v = protos s"
    by (simp_all add: sameCfg_def)
  have "scanConfigs mok (Some k) s = v\<lparr>accLists := (case cfAccess k of None \<Rightarrow> accLists v | Some A \<Rightarrow> A)\<rparr>"
    by (simp only: scanConfigs_def option.case Let_def v_def)
  then show ?thesis
    using v assms by (auto simp: okEnv_def okXd_def okConf_def split: option.split)
qed

lemma rescanConfigs_okEnv: "okXd s \<Longrightarrow> okConf (Some k) \<Longrightarrow> okEnv (rescanConfigs mok (Some k) s)"
  using scanConfigs_okEnv [of s k mok] by (simp add: rescanConfigs_def Let_def okEnv_def okXd_def)

lemma rescanConfigs_okT: "okT s \<Longrightarrow> okConf c \<Longrightarrow> okT (rescanConfigs mok c s)"
  using rescanConfigs_ok [of s mok c] rescanConfigs_okEnv [of s _ mok]
  by (cases c) (simp_all add: okT_def okEnv_def rescanConfigs_def scanConfigs_def)

lemma okT_updates [simp]:
  "okT (s\<lparr>sdRec := r\<rparr>) = okT s" "okT (s\<lparr>stopping := b\<rparr>) = okT s" "okT (s\<lparr>choices := cs\<rparr>) = okT s"
  "okT (s\<lparr>now := t\<rparr>) = okT s" "okT (s\<lparr>utmpTimeout := t\<rparr>) = okT s"
  by (simp_all add: okT_def okEnv_def okXd_def)

lemma stoppen_okT:
  assumes "okT s"
  shows "\<exists>s'. stoppen frc s = Some s' \<and> okT s'"
proof -
  let ?s = "act StopListening (s\<lparr>requestPort := 0, listening := False\<rparr>)"
  have ok: "ok ?s" using assms by (simp add: okT_def)
  then have T: "okT ?s" by (rule okT_cfg [OF _ assms]) (simp add: sameCfg_def act_def)
  have "\<exists>s'. (if frc then forEachDisplay stopDisplay ?s else forEachDisplay stopInactiveDisplay ?s)
      = Some s' \<and> ok s' \<and> sameEnv ?s s'"
    using stops_walk [OF stops_stopDisplay ok] stops_walk [OF stops_stopInactive ok] by auto
  then obtain s' where s': "(if frc then forEachDisplay stopDisplay ?s else forEachDisplay stopInactiveDisplay ?s)
      = Some s'" "ok s'" "sameEnv ?s s'" by blast
  then have "okT (s'\<lparr>stopping := True\<rparr>)" using okT_env [OF _ T] by simp
  then show ?thesis using s'(1) by (simp add: stoppen_def Let_def)
qed

lemma cancelShutdown_okT: "okT s \<Longrightarrow> okConf c \<Longrightarrow> okT (cancelShutdown mok c s)"
  by (simp add: cancelShutdown_def rescanConfigs_okT)

lemma shutdownStep_okT:
  assumes "okT s" "okConf c"
  shows "\<exists>to' s'. shutdownStep mok c to0 s = Some (to', s') \<and> okT s'"
proof -
  have s: "\<exists>s'. stoppen frc (s\<lparr>sdRec := r\<rparr>) = Some s' \<and> okT s'" for frc r
    by (rule stoppen_okT) (simp add: assms)
  have c: "okT (cancelShutdown mok c (s\<lparr>sdRec := r\<rparr>))" for r
    by (rule cancelShutdown_okT) (simp_all add: assms)
  show ?thesis
    unfolding shutdownStep_def Let_def
    using assms(1) s [of True "(sdRec s)\<lparr>start := TO_INF, timeout := TO_INF\<rparr>"] c
      s [of False "(sdRec s)\<lparr>start := TO_INF\<rparr>"]
    by (auto split: if_splits)
qed

lemma beforeSelect_okT:
  assumes "okT s" "okConf c"
  shows "\<exists>to' s'. beforeSelect load mok c s = Some (to', s') \<and> okT s'"
proof -
  have "\<exists>s1. (if stopping s then Some s else startDisplays load s) = Some s1 \<and> okT s1"
    using startDisplays_ok [of s load] assms(1) okT_env okT_tty by (auto simp: okT_def)
  then obtain s1 where s1: "(if stopping s then Some s else startDisplays load s) = Some s1" "okT s1"
    by blast
  obtain t cs where d: "disposeIndirectHosts (now s1) (choices s1) = (t, cs)" by fastforce
  from shutdownStep_okT [of "s1\<lparr>choices := cs\<rparr>" c mok t] s1(2) assms(2)
  show ?thesis unfolding beforeSelect_def s1(1) by (auto simp: d Let_def)
qed

lemma afterSelect_okT:
  assumes "okT s" "t < TO_INF"
  shows "\<exists>s'. afterSelect t s = Some s' \<and> okT s'"
proof -
  let ?s = "s\<lparr>now := t\<rparr>"
  have ok: "okT ?s" using assms by simp
  have "\<exists>s1. (if serverTimeout ?s \<le> now ?s then startServerTimeout (?s\<lparr>serverTimeout := TO_INF\<rparr>)
       else Some ?s) = Some s1 \<and> okT s1"
  proof (cases "serverTimeout ?s \<le> now ?s")
    case True
    then have "serverTimeout ?s \<noteq> TO_INF" using assms(2) by simp
    then show ?thesis
      using startServerTimeout_ok [of ?s] ok True okT_env [OF _ ok] okT_tty [OF ok]
      by (auto simp: okT_def stops_def)
  qed (use ok in simp)
  then obtain s1 where s1: "(if serverTimeout ?s \<le> now ?s then startServerTimeout (?s\<lparr>serverTimeout := TO_INF\<rparr>)
       else Some ?s) = Some s1" "okT s1" by blast
  have "keeps (s1\<lparr>utmpTimeout := TO_INF\<rparr>) (checkUtmp (s1\<lparr>utmpTimeout := TO_INF\<rparr>))"
    using keeps_checkUtmp s1(2) by (simp add: okT_def)
  then obtain s2 where s2: "checkUtmp (s1\<lparr>utmpTimeout := TO_INF\<rparr>) = Some s2" "ok s2"
      "sameEnv (s1\<lparr>utmpTimeout := TO_INF\<rparr>) s2" by (auto simp: keeps_def)
  have "okT s2" by (rule okT_env [OF s2(2) _ s2(3)]) (simp add: s1(2))
  then show ?thesis using s1 s2(1) by (auto simp: afterSelect_def Let_def)
qed

definition okSignal :: "signal \<Rightarrow> dm \<Rightarrow> bool" where
  "okSignal sig s \<longleftrightarrow> (case sig of SChld ws \<Rightarrow> okReap ws s | _ \<Rightarrow> True)"

lemma mark_walk:
  assumes "ok s"
  shows "\<exists>s'. forEachDisplay markDisplay s = Some s' \<and> ok s' \<and> sameEnv s s'"
proof -
  have "stops a t (markDisplay a t)" if t: "ok t" "a \<in> set (live t)" for a t
  proof -
    have "ok (setD a (\<lambda>d. d\<lparr>stillThere := False\<rparr>) t)" by (rule ok_neutral [OF t(1)]) simp_all
    moreover obtain d where "deref t a = Some d" using deref_live [OF t(2)] by blast
    ultimately show ?thesis by (simp add: markDisplay_def stopsI live_setD)
  qed
  then show ?thesis using stops_walk [OF _ assms, of markDisplay] by blast
qed

lemma handleSignal_okT:
  assumes ok: "okT s" and c: "okConf c" and sg: "okSignal sig s"
  shows "\<exists>s'. handleSignal ar mok c sig s = Some s' \<and> okT s'"
proof (cases sig)
  case (SChld ws)
  then have "okReap ws s" using sg by (simp add: okSignal_def)
  then obtain s1 where s1: "reapChildren ws s = Some s1" "ok s1" "sameEnv s s1"
    using reapChildren_ok ok okT_tty [OF ok] by (auto simp: okT_def)
  then have "okT s1" using okT_env ok by blast
  with SChld s1 rescanConfigs_okT [OF _ c] show ?thesis by (simp add: handleSignal_def)
next
  case SHup
  obtain s1 where "forEachDisplay markDisplay s = Some s1" "ok s1" "sameEnv s s1"
    using mark_walk ok by (auto simp: okT_def)
  with SHup rescanConfigs_okT [OF okT_env [OF _ ok] c] show ?thesis by (simp add: handleSignal_def)
next
  case SUsr1
  show ?thesis
  proof (cases "startingServer s")
    case None
    with SUsr1 ok show ?thesis by (simp add: handleSignal_def)
  next
    case (Some a)
    then obtain d where d: "deref s a = Some d"
      using ok by (auto simp: okT_def ok_def okBut_def okStarting_def)
    show ?thesis
      using SUsr1 Some d ok startServerSuccess_ok [of s a d] okT_env [OF _ ok] okT_tty [OF ok]
      by (auto simp: handleSignal_def okT_def stops_def)
  qed
qed (use stoppen_okT [OF ok] ok in \<open>simp_all add: handleSignal_def\<close>)

end
