(* ===== verification/BootMan.thy ===== *)
theory BootMan
  imports DmServer
begin

text \<open>
  The boot managers, \<^verbatim>\<open>kdm/backend/bootman.c\<close>: the systems that can be booted next, read from
  the menus of GRUB, GRUB 2 and BURG and from the output of LILO, and the choice of one of them.
  The files, the programs found and their results are parameters; memory suffices. A read
  outside the line buffer is \<open>None\<close>, but for the byte in front of it, which GRUB 2's reader looks at for every
  blank line: this one is \<open>bBefore\<close>, whatever the stack has there. The static variables of the file are fields of the environment, as
  they are when a function is called: \<open>bSetDefault\<close>, \<open>bGrub\<close> and \<open>bReboot\<close> cache what \<open>locate\<close> found,
  \<open>bConfig\<close> is \<^verbatim>\<open>grubConfig\<close>.
\<close>

datatype bootRes = BO_OK | BO_NOMAN | BO_NOENT | BO_IO

datatype bootManager = BO_NONE | BO_GRUB | BO_GRUB2 | BO_BURG | BO_LILO

datatype fileRes = NoFile | Unreadable | Content string

record bootEnv =
  bManager :: bootManager
  bTool :: "string \<Rightarrow> bool"
  bFile :: "string \<Rightarrow> fileRes"
  bTime :: "string \<Rightarrow> int"
  bLilo :: "(string \<times> int) option"
  bSetDefault :: bool
  bGrub :: bool
  bReboot :: "string option"
  bConfig :: string
  bBefore :: char

text \<open>What the shutdown record keeps: the name for the boot manager, its index and the time of the menu.\<close>

record bootSel =
  bsName :: "string option"
  bsIndex :: int
  bsStamp :: int

abbreviation SEP :: string where "SEP \<equiv> '' >> ''"

section \<open>Lines and words\<close>

text \<open>\<open>fGets\<close> of \<^verbatim>\<open>util.c\<close>: the next line into a buffer of \<open>mx\<close> bytes, as a C string without line end.\<close>

definition fGets :: "nat \<Rightarrow> string \<Rightarrow> (string \<times> string) option" where
  "fGets mx f =
     (if f = [] then None
      else
        let l = takeWhile (\<lambda>c. c \<noteq> NL) f;
            n = min (mx - 1) (if length l < length f then Suc (length l) else length l);
            s = takeWhile (\<lambda>c. c \<noteq> NUL) (take n f)
        in Some (if s \<noteq> [] \<and> last s = NL then butlast s else s, drop n f))"

lemma fGets_shorter:
  assumes "1 < mx" "fGets mx f = Some (l, r)"
  shows "length r < length f"
proof -
  let ?l = "takeWhile (\<lambda>c. c \<noteq> NL) f"
  let ?n = "min (mx - 1) (if length ?l < length f then Suc (length ?l) else length ?l)"
  have f: "f \<noteq> []" and r: "r = drop ?n f" using assms(2) by (auto simp: fGets_def Let_def split: if_splits)
  then have "0 < ?n" using assms(1) by (cases "length ?l < length f") auto
  with f r show ?thesis by simp
qed

function fLines :: "nat \<Rightarrow> string \<Rightarrow> string list" where
  "fLines mx f = (if mx \<le> 1 then [] else case fGets mx f of None \<Rightarrow> [] | Some (l, r) \<Rightarrow> l # fLines mx r)"
  by auto
termination
  by (relation "measure (\<lambda>(mx, f). length f)") (auto simp: not_le intro: fGets_shorter [simplified])

declare fLines.simps [simp del]

text \<open>A keyword, blanks and more: what follows the blanks.\<close>

definition matchKey :: "string \<Rightarrow> string \<Rightarrow> string option" where
  "matchKey buf k =
     (if prefix k buf \<and> isspace (peek (drop (length k) buf)) then
        (case dropWhile isspace (drop (length k + 1) buf) of [] \<Rightarrow> None | r \<Rightarrow> Some r)
      else None)"

definition trimEnd :: "string \<Rightarrow> string" where
  "trimEnd s = rev (dropWhile isspace (rev s))"

section \<open>GRUB\<close>

abbreviation GRUB_MENU :: string where "GRUB_MENU \<equiv> ''/boot/grub/menu.lst''"

fun grubLines :: "string list \<Rightarrow> string list \<Rightarrow> int \<Rightarrow> string list \<times> int" where
  "grubLines [] opts df = (opts, df)"
| "grubLines (l # ls) opts df =
     (let linp = dropWhile isspace l in
      case matchKey linp ''default'' of
        Some p \<Rightarrow> grubLines ls opts (atoi p)
      | None \<Rightarrow>
          (case matchKey linp ''title'' of
             Some p \<Rightarrow> grubLines ls (opts @ [trimEnd p]) df
           | None \<Rightarrow> grubLines ls opts df))"

definition getGrub :: "bootEnv \<Rightarrow> bootRes \<times> string list \<times> int \<times> int" where
  "getGrub E =
     (if \<not> bSetDefault E \<and> \<not> bGrub E \<and> \<not> bTool E ''grub-set-default'' \<and> \<not> bTool E ''grub'' then (BO_NOMAN, [], 0, -1)
      else
        case bFile E GRUB_MENU of
          NoFile \<Rightarrow> (BO_NOMAN, [], 0, -1)
        | Unreadable \<Rightarrow> (BO_IO, [], 0, -1)
        | Content f \<Rightarrow> (case grubLines (fLines 1000 f) [] 0 of (opts, df) \<Rightarrow> (BO_OK, opts, df, -1)))"

text \<open>Here lines are neither stripped in front nor at the end.\<close>

fun findTitle :: "string \<Rightarrow> string list \<Rightarrow> int \<Rightarrow> int option" where
  "findTitle opt [] i = None"
| "findTitle opt (l # ls) i =
     (case matchKey l ''title'' of
        Some p \<Rightarrow> if p = opt then Some i else findTitle opt ls (i + 1)
      | None \<Rightarrow> findTitle opt ls i)"

definition setGrub :: "bootEnv \<Rightarrow> string \<Rightarrow> bootSel \<Rightarrow> bootRes \<times> bootSel" where
  "setGrub E opt b =
     (case bFile E GRUB_MENU of
        NoFile \<Rightarrow> (BO_NOMAN, b)
      | Unreadable \<Rightarrow> (BO_IO, b)
      | Content f \<Rightarrow>
          (case findTitle opt (fLines 1000 f) 0 of
             None \<Rightarrow> (BO_NOENT, b)
           | Some i \<Rightarrow> (BO_OK, b\<lparr>bsIndex := i, bsStamp := bTime E GRUB_MENU, bsName := Some opt\<rparr>)))"

section \<open>GRUB 2\<close>

abbreviation GRUB2_MAX_MENU_LEVEL :: nat where "GRUB2_MAX_MENU_LEVEL \<equiv> 5"

fun titleSq :: "string \<Rightarrow> string option" where
  "titleSq [] = None"
| "titleSq (c # r) = (if c = SQ then Some [] else map_option ((#) c) (titleSq r))"

fun titleDq :: "string \<Rightarrow> string option" where
  "titleDq [] = None"
| "titleDq (c # r) =
     (if c = DQ then Some []
      else if c = BSL then
        (case r of
           [] \<Rightarrow> None
         | e # r \<Rightarrow> map_option ((@) (if e \<in> {CHR ''$'', DQ, BSL} then [e] else [BSL, e])) (titleDq r))
      else map_option ((#) c) (titleDq r))"

fun titlePlain :: "string \<Rightarrow> string option" where
  "titlePlain [] = None"
| "titlePlain (c # r) =
     (if isspace c then Some []
      else if c = BSL then (case r of [] \<Rightarrow> None | e # r \<Rightarrow> map_option ((#) e) (titlePlain r))
      else map_option ((#) c) (titlePlain r))"

definition parseGrubTitle :: "string \<Rightarrow> string option" where
  "parseGrubTitle t =
     (if peek t = SQ then titleSq (tl t) else if peek t = DQ then titleDq (tl t) else titlePlain t)"

record g2 =
  gOpts :: "string list"
  gRet :: bootRes
  gLvl :: nat
  gEntry :: bool
  gMenus :: "nat list"

text \<open>\<open>None\<close>: the title cannot be read. The parent of an entry is the option its menu's title is.\<close>

definition buildBootList :: "string \<Rightarrow> g2 \<Rightarrow> g2 option" where
  "buildBootList p g =
     (case parseGrubTitle p of
        None \<Rightarrow> None
      | Some t \<Rightarrow> Some (g\<lparr>gOpts := gOpts g
          @ [if 0 < gLvl g then gOpts g ! (gMenus g ! (gLvl g - 1)) @ SEP @ t else t]\<rparr>))"

text \<open>
  One line. \<open>Inl\<close>: reading ends with an error; no result: the search for the last character that
  is no blank goes on beyond the byte in front of the buffer, because the line and this byte are blank. A line that begins with \<^verbatim>\<open>set\<close> has its length cut by what stands
  before the operand, so the character tested for a brace is not the last one then.
\<close>

definition grub2Close :: "char \<Rightarrow> g2 \<Rightarrow> g2" where
  "grub2Close c g =
     (if c = CHR ''}'' then (if gEntry g then g\<lparr>gEntry := False\<rparr> else g\<lparr>gLvl := gLvl g - 1\<rparr>) else g)"

definition grub2Line :: "char \<Rightarrow> string \<Rightarrow> g2 \<Rightarrow> (g2 + g2) option" where
  "grub2Line before l g =
     (let linp = dropWhile isspace l; len = length (trimEnd linp) in
      if linp = [] then (if isspace before then None else Some (Inr (grub2Close before g)))
      else
        case matchKey linp ''set'' of
          Some p \<Rightarrow>
            if prefix (''default='' @ [DQ] @ ''${saved_entry}'' @ [DQ]) p then Some (Inr (g\<lparr>gRet := BO_OK\<rparr>))
            else Some (Inr (grub2Close (linp ! (len - (length linp - length p) - 1)) g))
        | None \<Rightarrow>
            (case matchKey linp ''menuentry'' of
               Some p \<Rightarrow>
                 (if gLvl g \<le> GRUB2_MAX_MENU_LEVEL then
                    (case buildBootList p g of
                       None \<Rightarrow> Some (Inl (g\<lparr>gRet := BO_IO\<rparr>))
                     | Some g \<Rightarrow> Some (Inr (g\<lparr>gEntry := True\<rparr>)))
                  else Some (Inr (g\<lparr>gEntry := True\<rparr>)))
             | None \<Rightarrow>
                 (case matchKey linp ''submenu'' of
                    Some p \<Rightarrow>
                      (if gLvl g < GRUB2_MAX_MENU_LEVEL then
                         let g = g\<lparr>gMenus := (gMenus g)[gLvl g := length (gOpts g)]\<rparr> in
                         case buildBootList p g of
                           None \<Rightarrow> Some (Inl (g\<lparr>gRet := BO_IO\<rparr>))
                         | Some g \<Rightarrow> Some (Inr (g\<lparr>gLvl := gLvl g + 1\<rparr>))
                       else Some (Inr (g\<lparr>gLvl := gLvl g + 1\<rparr>)))
                  | None \<Rightarrow>
                      Some (Inr (grub2Close (linp ! (len - 1)) g)))))"

fun grub2Lines :: "char \<Rightarrow> string list \<Rightarrow> g2 \<Rightarrow> g2 option" where
  "grub2Lines before [] g = Some g"
| "grub2Lines before (l # ls) g =
     (case grub2Line before l g of
        None \<Rightarrow> None
      | Some (Inl g) \<Rightarrow> Some g
      | Some (Inr g) \<Rightarrow> grub2Lines before ls g)"

text \<open>The array \<^verbatim>\<open>menus\<close> has five elements; each is written before it is read.\<close>

definition g2Start :: g2 where
  "g2Start = \<lparr>gOpts = [], gRet = BO_NOMAN, gLvl = 0, gEntry = False, gMenus = replicate 5 0\<rparr>"

definition rebootTool :: "bootEnv \<Rightarrow> string \<Rightarrow> string option" where
  "rebootTool E tool = (case bReboot E of Some t \<Rightarrow> Some t | None \<Rightarrow> if bTool E tool then Some tool else None)"

definition getGrub2OrBurg :: "bootEnv \<Rightarrow> string \<Rightarrow> string \<Rightarrow> (bootRes \<times> string list \<times> int \<times> int) option" where
  "getGrub2OrBurg E config tool =
     (if rebootTool E tool = None then Some (BO_NOMAN, [], -1, -1)
      else
        case bFile E config of
          NoFile \<Rightarrow> Some (BO_NOMAN, [], -1, -1)
        | Unreadable \<Rightarrow> Some (BO_IO, [], -1, -1)
        | Content f \<Rightarrow>
            map_option (\<lambda>g. (gRet g, gOpts g, -1, -1)) (grub2Lines (bBefore E) (fLines 1000 f) g2Start))"

definition grub2Config :: "bootEnv \<Rightarrow> string" where
  "grub2Config E = (if bFile E ''/boot/grub2/grub.cfg'' \<noteq> NoFile then ''/boot/grub2/grub.cfg'' else ''/boot/grub/grub.cfg'')"

definition grub2Tool :: "bootEnv \<Rightarrow> string" where
  "grub2Tool E = (if bFile E ''/boot/grub2/grub.cfg'' \<noteq> NoFile then ''grub2-reboot'' else ''grub-reboot'')"

definition getGrub2 :: "bootEnv \<Rightarrow> (bootRes \<times> string list \<times> int \<times> int) option" where
  "getGrub2 E = getGrub2OrBurg E (grub2Config E) (grub2Tool E)"

text \<open>\<open>setGrub2\<close> asks \<open>getGrub2\<close> for BURG, too.\<close>

definition setGrub2 :: "bootEnv \<Rightarrow> string \<Rightarrow> bootSel \<Rightarrow> (bootRes \<times> bootSel) option" where
  "setGrub2 E opt b = do {
     (r, opts, _) \<leftarrow> getGrub2 E;
     if r \<noteq> BO_OK then Some (r, b)
     else if opt \<in> set opts then do {
       (_, n) \<leftarrow> replaceInString opt SEP ''>'';
       Some (BO_OK, b\<lparr>bsStamp := bTime E (grub2Config E), bsName := Some n\<rparr>) }
     else Some (BO_NOENT, b) }"

definition getBurg :: "bootEnv \<Rightarrow> (bootRes \<times> string list \<times> int \<times> int) option" where
  "getBurg E = getGrub2OrBurg E ''/boot/burg/burg.cfg'' ''burg-reboot''"

section \<open>LILO\<close>

abbreviation Ldeflin :: string where "Ldeflin \<equiv> ''  Default boot command line:''"

text \<open>The lines before the list of images; the command line for the next boot is copied without its quotes.\<close>

fun liloHead :: "string list \<Rightarrow> string \<Rightarrow> (string list \<times> string) option option" where
  "liloHead [] nxt = Some None"
| "liloHead (l # ls) nxt =
     (if prefix ''Images:'' l then Some (Some (ls, nxt))
      else if prefix Ldeflin l then
        (if length l < length Ldeflin + 3 then None
         else liloHead ls (take (length l - length Ldeflin - 3) (drop (length Ldeflin + 2) l)))
      else liloHead ls nxt)"

fun liloImages :: "string list \<Rightarrow> string \<Rightarrow> string list \<Rightarrow> int \<Rightarrow> int \<Rightarrow> (string list \<times> int \<times> int) option" where
  "liloImages [] nxt opts df cu = Some (opts, df, cu)"
| "liloImages (l # ls) nxt opts df cu =
     (if prefix ''  '' l \<and> peek (drop 2 l) \<noteq> CHR '' '' then
        let star = (last l = CHR ''*'');
            m = (if star then butlast l else l);
            m = rev (dropWhile (\<lambda>c. c = CHR '' '') (rev m));
            df = (if star then int (length opts) else df);
            t = drop 2 m
        in if m = [] then None
           else liloImages ls nxt (opts @ [t]) df (if t = nxt then int (length opts) else cu)
      else liloImages ls nxt opts df cu)"

definition getLilo :: "bootEnv \<Rightarrow> (bootRes \<times> string list \<times> int \<times> int) option" where
  "getLilo E =
     (if \<not> bTool E ''lilo'' then Some (BO_NOMAN, [], 0, -1)
      else
        case bLilo E of
          None \<Rightarrow> Some (BO_IO, [], 0, -1)
        | Some (out, code) \<Rightarrow>
            (case liloHead (fLines 256 out) [] of
               None \<Rightarrow> None
             | Some None \<Rightarrow> Some (if code \<noteq> 0 then BO_IO else BO_NOMAN, [], 0, -1)
             | Some (Some (ls, nxt)) \<Rightarrow> do {
                 (opts, df, cu) \<leftarrow> liloImages ls nxt [] 0 (-1);
                 Some (if code \<noteq> 0 then BO_IO else BO_OK, if code \<noteq> 0 then [] else opts, df, cu) }))"

definition setLilo :: "bootEnv \<Rightarrow> string \<Rightarrow> bootSel \<Rightarrow> (bootRes \<times> bootSel) option" where
  "setLilo E opt b = do {
     (r, opts, _) \<leftarrow> getLilo E;
     Some (if r \<noteq> BO_OK then (r, b)
       else if opt = [] then (BO_OK, b\<lparr>bsName := None\<rparr>)
       else if opt \<in> set opts then (BO_OK, b\<lparr>bsName := Some opt\<rparr>)
       else (BO_NOENT, b)) }"

section \<open>The boot manager in use\<close>

definition getBootOptions :: "bootEnv \<Rightarrow> (bootRes \<times> string list \<times> int \<times> int) option" where
  "getBootOptions E =
     (case bManager E of
        BO_NONE \<Rightarrow> Some (BO_NOMAN, [], 0, 0)
      | BO_GRUB \<Rightarrow> Some (getGrub E)
      | BO_GRUB2 \<Rightarrow> getGrub2 E
      | BO_BURG \<Rightarrow> getBurg E
      | BO_LILO \<Rightarrow> getLilo E)"

definition setBootOption :: "bootEnv \<Rightarrow> string option \<Rightarrow> bootSel \<Rightarrow> (bootRes \<times> bootSel) option" where
  "setBootOption E opt b =
     (let b = b\<lparr>bsName := None\<rparr> in
      case opt of
        None \<Rightarrow> Some (BO_OK, b)
      | Some opt \<Rightarrow>
          (case bManager E of
             BO_NONE \<Rightarrow> Some (BO_NOMAN, b)
           | BO_GRUB \<Rightarrow> Some (setGrub E opt b)
           | BO_GRUB2 \<Rightarrow> setGrub2 E opt b
           | BO_BURG \<Rightarrow> setGrub2 E opt b
           | BO_LILO \<Rightarrow> setLilo E opt b))"

text \<open>The command that makes the choice take effect, with its arguments or its input; none when the menu changed and the choice is gone.\<close>

datatype commit = NoCommit | RunArgs "string list" | PipeTo "string option" "string list" string

definition commitGrub :: "bootEnv \<Rightarrow> bootSel \<Rightarrow> commit" where
  "commitGrub E b =
     (let (r, b) = (if bsStamp b \<noteq> bTime E GRUB_MENU then setGrub E (the (bsName b)) b else (BO_OK, b)) in
      if r \<noteq> BO_OK then NoCommit
      else if bSetDefault E then RunArgs [''grub-set-default'', showInt (bsIndex b)]
      else PipeTo (if bGrub E then Some ''grub'' else None) [''--batch'', ''--no-floppy'']
        (''savedefault --default='' @ showInt (bsIndex b) @ '' --once'' @ [NL]))"

definition commitGrub2 :: "bootEnv \<Rightarrow> bootSel \<Rightarrow> commit option" where
  "commitGrub2 E b = do {
     (r, b, tool) \<leftarrow> (if bsStamp b \<noteq> bTime E (bConfig E)
       then map_option (\<lambda>(r, b). (r, b, rebootTool E (grub2Tool E))) (setGrub2 E (the (bsName b)) b)
       else Some (BO_OK, b, bReboot E));
     Some (if r \<noteq> BO_OK then NoCommit
       else case tool of None \<Rightarrow> NoCommit | Some t \<Rightarrow> RunArgs [t, the (bsName b)]) }"

definition commitLilo :: "bootSel \<Rightarrow> commit" where
  "commitLilo b = RunArgs [''lilo'', ''-w'', ''-R'', the (bsName b)]"

definition commitBootOption :: "bootEnv \<Rightarrow> bootSel \<Rightarrow> commit option" where
  "commitBootOption E b =
     (if bsName b = None then Some NoCommit
      else case bManager E of
        BO_NONE \<Rightarrow> None
      | BO_GRUB \<Rightarrow> Some (commitGrub E b)
      | BO_GRUB2 \<Rightarrow> commitGrub2 E b
      | BO_BURG \<Rightarrow> commitGrub2 E b
      | BO_LILO \<Rightarrow> Some (commitLilo b))"

section \<open>A menu and what is read of it\<close>

text \<open>
  A GRUB 2 menu as the configuration tools write it: titles in single quotes, followed by the class and the other
  options, tabs for the depth, the lines of the entries, and other lines (blank ones, comments, commands) in between.
\<close>

datatype gmenu = Entry string string "string list" | Sub string string "gmenu list" | Other string

fun renderMenu :: "nat \<Rightarrow> gmenu \<Rightarrow> string list" where
  "renderMenu d (Entry t opts body) =
     (replicate d TAB @ ''menuentry '' @ [SQ] @ t @ [SQ] @ opts) # body @ [replicate d TAB @ ''}'']"
| "renderMenu d (Sub t opts ms) =
     (replicate d TAB @ ''submenu '' @ [SQ] @ t @ [SQ] @ opts) # concat (map (renderMenu (Suc d)) ms)
      @ [replicate d TAB @ ''}'']"
| "renderMenu d (Other l) = [l]"

text \<open>The names the user sees: those of submenus lead to those of their entries.\<close>

fun titlesOf :: "string \<Rightarrow> gmenu \<Rightarrow> string list" where
  "titlesOf p (Entry t opts body) = [p @ t]"
| "titlesOf p (Sub t opts ms) = (p @ t) # concat (map (titlesOf (p @ t @ SEP)) ms)"
| "titlesOf p (Other l) = []"

text \<open>
  The character the reader takes for the last one of a line that is neither of an entry or a submenu nor the choice
  of the saved entry.
\<close>

definition lastLooked :: "char \<Rightarrow> string \<Rightarrow> char option" where
  "lastLooked before l =
     (let linp = dropWhile isspace l; len = length (trimEnd linp) in
      if linp = [] then (if isspace before then None else Some before)
      else
        case matchKey linp ''set'' of
          Some p \<Rightarrow>
            if prefix (''default='' @ [DQ] @ ''${saved_entry}'' @ [DQ]) p then None
            else Some (linp ! (len - (length linp - length p) - 1))
        | None \<Rightarrow>
            if matchKey linp ''menuentry'' \<noteq> None \<or> matchKey linp ''submenu'' \<noteq> None then None
            else Some (linp ! (len - 1)))"

text \<open>A line inside an entry or a submenu, and one outside, where a brace closes nothing.\<close>

definition plainLine :: "char \<Rightarrow> string \<Rightarrow> bool" where
  "plainLine before l \<longleftrightarrow> lastLooked before l \<noteq> None \<and> lastLooked before l \<noteq> Some CHR ''}''"

definition topLine :: "char \<Rightarrow> string \<Rightarrow> bool" where
  "topLine before l \<longleftrightarrow> lastLooked before l \<noteq> None"

fun okMenu :: "char \<Rightarrow> nat \<Rightarrow> gmenu \<Rightarrow> bool" where
  "okMenu b d (Entry t opts body) = (d \<le> GRUB2_MAX_MENU_LEVEL \<and> SQ \<notin> set t \<and> list_all (plainLine b) body)"
| "okMenu b d (Sub t opts ms) = (d < GRUB2_MAX_MENU_LEVEL \<and> SQ \<notin> set t \<and> list_all (okMenu b (Suc d)) ms)"
| "okMenu b d (Other l) = (if d = 0 then topLine b l else plainLine b l)"

lemma tabs_skip [simp]: "dropWhile isspace (replicate d TAB @ s) = dropWhile isspace s"
  by (induction d) (simp_all add: isspace_def)

lemma titleSq_quoted: "SQ \<notin> set t \<Longrightarrow> titleSq (t @ SQ # r) = Some t"
  by (induction t) auto

lemma looked_line: "lastLooked b l = Some c \<Longrightarrow> grub2Line b l g = Some (Inr (grub2Close c g))"
  by (auto simp: lastLooked_def grub2Line_def Let_def split: if_splits option.splits)

lemma plain_grub2Line: "plainLine b l \<Longrightarrow> grub2Line b l g = Some (Inr g)"
  by (auto simp: plainLine_def looked_line grub2Close_def)

lemma top_grub2Line: "topLine b l \<Longrightarrow> gLvl g = 0 \<Longrightarrow> \<not> gEntry g \<Longrightarrow> grub2Line b l g = Some (Inr g)"
  by (auto simp: topLine_def looked_line grub2Close_def)

lemma plain_grub2Lines: "list_all (plainLine b) body \<Longrightarrow> grub2Lines b (body @ ls) g = grub2Lines b ls g"
  by (induction body) (simp_all add: plain_grub2Line)

lemma top_grub2Lines:
  "list_all (topLine b) body \<Longrightarrow> gLvl g = 0 \<Longrightarrow> \<not> gEntry g \<Longrightarrow> grub2Lines b (body @ ls) g = grub2Lines b ls g"
  by (induction body) (simp_all add: top_grub2Line)

lemma brace_line: "grub2Line b (replicate d TAB @ ''}'') g =
    Some (Inr (if gEntry g then g\<lparr>gEntry := False\<rparr> else g\<lparr>gLvl := gLvl g - 1\<rparr>))"
  by (simp add: grub2Line_def grub2Close_def matchKey_def trimEnd_def isspace_def Let_def)

lemma entry_line:
  assumes "gLvl g \<le> GRUB2_MAX_MENU_LEVEL" "SQ \<notin> set t"
  shows "grub2Line b (replicate d TAB @ ''menuentry '' @ [SQ] @ t @ [SQ] @ opts) g =
    Some (Inr (g\<lparr>gOpts := gOpts g @ [if 0 < gLvl g then gOpts g ! (gMenus g ! (gLvl g - 1)) @ SEP @ t else t], gEntry := True\<rparr>))"
  using assms titleSq_quoted [OF assms(2)]
  by (simp add: grub2Line_def matchKey_def isspace_def Let_def buildBootList_def parseGrubTitle_def)

lemma sub_line:
  assumes "gLvl g < GRUB2_MAX_MENU_LEVEL" "SQ \<notin> set t" "length (gMenus g) = 5"
  shows "grub2Line b (replicate d TAB @ ''submenu '' @ [SQ] @ t @ [SQ] @ opts) g =
    Some (Inr (g\<lparr>gMenus := (gMenus g)[gLvl g := length (gOpts g)],
      gOpts := gOpts g @ [if 0 < gLvl g then gOpts g ! (gMenus g ! (gLvl g - 1)) @ SEP @ t else t], gLvl := gLvl g + 1\<rparr>))"
  using assms titleSq_quoted [OF assms(2)]
  by (simp add: grub2Line_def matchKey_def isspace_def Let_def buildBootList_def parseGrubTitle_def)

text \<open>Inside \<open>gLvl\<close> menus, outside an entry; the titles of the menus around are known.\<close>

definition wfG2 :: "nat \<Rightarrow> g2 \<Rightarrow> bool" where
  "wfG2 d g \<longleftrightarrow> gLvl g = d \<and> \<not> gEntry g \<and> length (gMenus g) = 5 \<and> (\<forall>i < d. gMenus g ! i < length (gOpts g))"

definition pathOf :: "nat \<Rightarrow> g2 \<Rightarrow> string" where
  "pathOf d g = (if 0 < d then gOpts g ! (gMenus g ! (d - 1)) @ SEP else [])"

definition readsAs :: "char \<Rightarrow> nat \<Rightarrow> string list \<Rightarrow> string list \<Rightarrow> g2 \<Rightarrow> bool" where
  "readsAs b d lines ts g \<longleftrightarrow>
     (\<exists>g'. (\<forall>ls. grub2Lines b (lines @ ls) g = grub2Lines b ls g') \<and> wfG2 d g' \<and> gOpts g' = gOpts g @ ts \<and> gRet g' = gRet g
        \<and> take d (gMenus g') = take d (gMenus g))"

lemma pathOf_cong:
  assumes "wfG2 d g" "gOpts g' = gOpts g @ ts" "take d (gMenus g') = take d (gMenus g)" "d \<le> 5" "length (gMenus g') = 5"
  shows "pathOf d g' = pathOf d g"
proof (cases "0 < d")
  case True
  then have i: "d - 1 < d" by simp
  have "take d (gMenus g') ! (d - 1) = take d (gMenus g) ! (d - 1)" using assms(3) by simp
  then have "gMenus g' ! (d - 1) = gMenus g ! (d - 1)" using i by (simp only: nth_take)
  moreover have "gMenus g ! (d - 1) < length (gOpts g)" using assms(1) i unfolding wfG2_def by blast
  ultimately show ?thesis using assms(2) True by (simp add: pathOf_def nth_append)
qed (simp add: pathOf_def)

lemma readsAs_all:
  assumes "\<And>m g. m \<in> set ms \<Longrightarrow> wfG2 d g \<Longrightarrow> readsAs b d (f m) (h (pathOf d g) m) g" "d \<le> 5"
  shows "wfG2 d g \<Longrightarrow> readsAs b d (concat (map f ms)) (concat (map (h (pathOf d g)) ms)) g"
  using assms(1)
proof (induction ms arbitrary: g)
  case (Cons m ms)
  obtain g1 where g1: "\<And>ls. grub2Lines b (f m @ ls) g = grub2Lines b ls g1" "wfG2 d g1"
      "gOpts g1 = gOpts g @ h (pathOf d g) m" "gRet g1 = gRet g" "take d (gMenus g1) = take d (gMenus g)"
    using Cons.prems(2) [of m g] Cons.prems(1) by (auto simp: readsAs_def)
  have p: "pathOf d g1 = pathOf d g"
    by (rule pathOf_cong [OF Cons.prems(1) g1(3,5) assms(2)]) (use g1(2) in \<open>simp add: wfG2_def\<close>)
  obtain g2 where "\<And>ls. grub2Lines b (concat (map f ms) @ ls) g1 = grub2Lines b ls g2" "wfG2 d g2"
      "gOpts g2 = gOpts g1 @ concat (map (h (pathOf d g)) ms)" "gRet g2 = gRet g1" "take d (gMenus g2) = take d (gMenus g1)"
    using Cons.IH [OF g1(2)] Cons.prems(2) unfolding p by (auto simp: readsAs_def)
  with g1 show ?case unfolding readsAs_def by (intro exI [of _ g2]) simp
qed (auto simp: readsAs_def)

lemma menu_reads: "okMenu b d m \<Longrightarrow> wfG2 d g \<Longrightarrow> readsAs b d (renderMenu d m) (titlesOf (pathOf d g) m) g"
proof (induction m arbitrary: d g)
  case (Entry t opts body)
  let ?g = "g\<lparr>gOpts := gOpts g @ [pathOf d g @ t], gEntry := True\<rparr>"
  have "grub2Line b (replicate d TAB @ ''menuentry '' @ [SQ] @ t @ [SQ] @ opts) g = Some (Inr ?g)"
    using Entry by (subst entry_line) (auto simp: wfG2_def pathOf_def)
  moreover have "grub2Line b (replicate d TAB @ ''}'') ?g = Some (Inr (?g\<lparr>gEntry := False\<rparr>))" by (subst brace_line) simp
  ultimately have "grub2Lines b (renderMenu d (Entry t opts body) @ ls) g = grub2Lines b ls (?g\<lparr>gEntry := False\<rparr>)" for ls
    using Entry.prems(1) by (simp add: plain_grub2Lines)
  moreover have "wfG2 d (?g\<lparr>gEntry := False\<rparr>)" using Entry.prems(2) by (auto simp: wfG2_def intro: less_SucI)
  ultimately show ?case unfolding readsAs_def by (intro exI [of _ "?g\<lparr>gEntry := False\<rparr>"]) simp
next
  case (Sub t opts ms)
  have d: "d < 5" "SQ \<notin> set t" and ms: "\<And>m. m \<in> set ms \<Longrightarrow> okMenu b (Suc d) m"
    using Sub.prems(1) by (auto simp: list_all_iff)
  let ?t = "pathOf d g @ t"
  let ?g = "g\<lparr>gMenus := (gMenus g)[d := length (gOpts g)], gOpts := gOpts g @ [?t], gLvl := Suc d\<rparr>"
  have sub: "grub2Line b (replicate d TAB @ ''submenu '' @ [SQ] @ t @ [SQ] @ opts) g = Some (Inr ?g)"
    using d Sub.prems(2) by (subst sub_line) (auto simp: wfG2_def pathOf_def)
  have w: "wfG2 (Suc d) ?g" using Sub.prems(2) d by (auto simp: wfG2_def nth_list_update less_Suc_eq)
  have p: "pathOf (Suc d) ?g = ?t @ SEP" using Sub.prems(2) d by (simp add: pathOf_def wfG2_def)
  have "readsAs b (Suc d) (concat (map (renderMenu (Suc d)) ms)) (concat (map (titlesOf (pathOf (Suc d) ?g)) ms)) ?g"
    by (rule readsAs_all [OF _ _ w]) (use Sub.IH ms d in auto)
  then obtain g1 where g1: "\<And>ls. grub2Lines b (concat (map (renderMenu (Suc d)) ms) @ ls) ?g = grub2Lines b ls g1" "wfG2 (Suc d) g1"
      "gOpts g1 = gOpts ?g @ concat (map (titlesOf (?t @ SEP)) ms)" "gRet g1 = gRet ?g"
      "take (Suc d) (gMenus g1) = take (Suc d) (gMenus ?g)"
    unfolding p by (auto simp: readsAs_def)
  have "grub2Line b (replicate d TAB @ ''}'') g1 = Some (Inr (g1\<lparr>gLvl := d\<rparr>))"
    using g1(2) by (subst brace_line) (simp add: wfG2_def)
  then have l: "grub2Lines b (renderMenu d (Sub t opts ms) @ ls) g = grub2Lines b ls (g1\<lparr>gLvl := d\<rparr>)" for ls
    using sub g1(1) by simp
  have "take d (take (Suc d) (gMenus g1)) = take d (take (Suc d) (gMenus ?g))" using g1(5) by simp
  then have "take d (gMenus g1) = take d (gMenus g)" by (simp add: take_update_cancel)
  moreover have "wfG2 d (g1\<lparr>gLvl := d\<rparr>)" using g1(2) by (auto simp: wfG2_def)
  ultimately show ?case
    unfolding readsAs_def using l g1(3,4) by (intro exI [of _ "g1\<lparr>gLvl := d\<rparr>"]) simp
next
  case (Other l)
  have "grub2Line b l g = Some (Inr g)"
    using Other by (cases "d = 0") (auto simp: wfG2_def plain_grub2Line top_grub2Line)
  then show ?case using Other.prems(2) by (auto simp: readsAs_def)
qed

section \<open>The file\<close>

definition fileOf :: "string list \<Rightarrow> string" where
  "fileOf ls = concat (map (\<lambda>l. l @ [NL]) ls)"

definition fitsLine :: "nat \<Rightarrow> string \<Rightarrow> bool" where
  "fitsLine mx l \<longleftrightarrow> NL \<notin> set l \<and> NUL \<notin> set l \<and> length l + 2 \<le> mx"

lemma fGets_line:
  assumes "fitsLine mx l"
  shows "fGets mx (l @ NL # r) = Some (l, r)"
proof -
  have l: "NL \<notin> set l" "NUL \<notin> set l" "Suc (length l) \<le> mx - 1" using assms by (auto simp: fitsLine_def)
  have "takeWhile (\<lambda>c. c \<noteq> NL) (l @ NL # r) = l" using l(1) by (subst takeWhile_append2) auto
  moreover have "takeWhile (\<lambda>c. c \<noteq> NUL) (l @ [NL]) = l @ [NL]" using l(2) by (subst takeWhile_append2) auto
  moreover have "min (mx - 1) (Suc (length l)) = Suc (length l)" using l(3) by simp
  ultimately show ?thesis by (simp add: fGets_def Let_def)
qed

lemma fLines_fileOf: "list_all (fitsLine mx) ls \<Longrightarrow> fLines mx (fileOf ls) = ls"
proof (induction ls)
  case Nil
  then show ?case by (simp add: fLines.simps fileOf_def fGets_def)
next
  case (Cons l ls)
  then have l: "fitsLine mx l" and "\<not> mx \<le> 1" by (auto simp: fitsLine_def)
  have "fileOf (l # ls) = l @ NL # fileOf ls" by (simp add: fileOf_def)
  with fGets_line [OF l, of "fileOf ls"] Cons \<open>\<not> mx \<le> 1\<close> show ?case by (simp add: fLines.simps [of mx "l @ NL # fileOf ls"])
qed

lemma replaceInString_SEP: "\<exists>n. replaceInString str SEP t = Some (n, replaceAll SEP t str)"
  by (simp add: replaceInString_def repCount_eq repFill_eq)

text \<open>The line that makes the saved entry the default, without which no choice is possible.\<close>

definition savesEntry :: "string \<Rightarrow> bool" where
  "savesEntry l \<longleftrightarrow> (case matchKey (dropWhile isspace l) ''set'' of None \<Rightarrow> False
     | Some p \<Rightarrow> prefix (''default='' @ [DQ] @ ''${saved_entry}'' @ [DQ]) p)"

lemma savesEntry_sets:
  assumes "savesEntry l"
  shows "grub2Line b l g = Some (Inr (g\<lparr>gRet := BO_OK\<rparr>))"
proof -
  from assms obtain p where p: "matchKey (dropWhile isspace l) ''set'' = Some p"
    "prefix (''default='' @ [DQ] @ ''${saved_entry}'' @ [DQ]) p"
    by (auto simp: savesEntry_def split: option.splits)
  then have "dropWhile isspace l \<noteq> []" by (cases "dropWhile isspace l") (simp_all add: matchKey_def)
  then show ?thesis unfolding grub2Line_def Let_def p(1) option.case using p(2) by (simp only: if_False if_True)
qed

text \<open>A configuration: what comes before that line, the line, and the menu.\<close>

definition menuLines :: "string list \<Rightarrow> string \<Rightarrow> gmenu list \<Rightarrow> string list" where
  "menuLines pre sv ms = pre @ sv # concat (map (renderMenu 0) ms)"

definition okConfig :: "char \<Rightarrow> string list \<Rightarrow> string \<Rightarrow> gmenu list \<Rightarrow> bool" where
  "okConfig b pre sv ms \<longleftrightarrow> list_all (topLine b) pre \<and> savesEntry sv \<and> list_all (okMenu b 0) ms \<and>
     list_all (fitsLine 1000) (menuLines pre sv ms)"

lemma menuLines_read:
  assumes "okConfig b pre sv ms"
  shows "\<exists>g. grub2Lines b (menuLines pre sv ms) g2Start = Some g \<and> gRet g = BO_OK \<and> gOpts g = concat (map (titlesOf []) ms)"
proof -
  let ?g = "g2Start\<lparr>gRet := BO_OK\<rparr>"
  have w: "wfG2 0 ?g" by (simp add: wfG2_def g2Start_def)
  have p: "pathOf 0 ?g = []" by (simp add: pathOf_def)
  have "readsAs b 0 (concat (map (renderMenu 0) ms)) (concat (map (titlesOf (pathOf 0 ?g)) ms)) ?g"
    by (rule readsAs_all [OF _ _ w]) (use assms in \<open>auto simp: okConfig_def list_all_iff intro: menu_reads\<close>)
  then obtain g where g: "\<And>ls. grub2Lines b (concat (map (renderMenu 0) ms) @ ls) ?g = grub2Lines b ls g"
      "gOpts g = gOpts ?g @ concat (map (titlesOf []) ms)" "gRet g = gRet ?g"
    unfolding p by (auto simp: readsAs_def)
  have "grub2Lines b (menuLines pre sv ms) g2Start = grub2Lines b (sv # concat (map (renderMenu 0) ms)) g2Start"
    unfolding menuLines_def using assms by (intro top_grub2Lines) (simp_all add: okConfig_def g2Start_def)
  then have "grub2Lines b (menuLines pre sv ms) g2Start = Some g"
    using g(1) [of "[]"] assms by (simp add: okConfig_def savesEntry_sets)
  with g(2,3) show ?thesis by (simp add: g2Start_def)
qed

text \<open>C14. A GRUB 2 configuration - any lines, blank ones included, a line that makes the saved entry the default, and a
  menu of at most five nested levels with further options and any other lines in it - is read back as the list of the
  titles in menu order, those of submenus with the path to them; each of them can be chosen, is handed to the boot
  manager with its own separator, and nothing else can be chosen. The titles are in single quotes, no line inside an
  entry or a submenu has a brace where the code looks for one (at its end; in a line that begins with \<^verbatim>\<open>set\<close> as many
  characters before as that word and its blanks have), none has more than 998 characters, and the byte in front of the line buffer,
  which is read for a blank line, is neither a blank nor, when the line is inside a menu, a brace.\<close>

theorem getGrub2_menu:
  assumes "rebootTool E (grub2Tool E) \<noteq> None" "bFile E (grub2Config E) = Content (fileOf (menuLines pre sv ms))"
    "okConfig (bBefore E) pre sv ms"
  shows "getGrub2 E = Some (BO_OK, concat (map (titlesOf []) ms), -1, -1) \<and>
     setGrub2 E opt b = Some (if opt \<in> set (concat (map (titlesOf []) ms))
       then (BO_OK, b\<lparr>bsStamp := bTime E (grub2Config E), bsName := Some (replaceAll SEP ''>'' opt)\<rparr>) else (BO_NOENT, b))"
proof -
  obtain g where g: "grub2Lines (bBefore E) (menuLines pre sv ms) g2Start = Some g" "gRet g = BO_OK"
      "gOpts g = concat (map (titlesOf []) ms)"
    using menuLines_read [OF assms(3)] by blast
  have fits: "list_all (fitsLine 1000) (menuLines pre sv ms)" using assms(3) by (simp add: okConfig_def)
  have get: "getGrub2 E = Some (BO_OK, concat (map (titlesOf []) ms), -1, -1)"
    unfolding getGrub2_def getGrub2OrBurg_def using assms(1,2) g by (simp add: fLines_fileOf [OF fits])
  obtain n where "replaceInString opt SEP ''>'' = Some (n, replaceAll SEP ''>'' opt)"
    using replaceInString_SEP by blast
  with get show ?thesis by (simp add: setGrub2_def)
qed

text \<open>Lines as \<^verbatim>\<open>grub-mkconfig\<close> writes them.\<close>

definition demoHead :: "string list" where
  "demoHead = [''### BEGIN /etc/grub.d/00_header ###'', ''if [ -s $prefix/grubenv ]; then'', ''  load_env'', ''fi'', [],
     ''function savedefault {'', ''  save_env saved_entry'', ''}'', '' '']"

definition demoSaved :: string where
  "demoSaved = ''   set default='' @ [DQ] @ ''${saved_entry}'' @ [DQ]"

definition demoMenu :: "gmenu list" where
  "demoMenu = [Other ''fi'', Other [],
     Entry ''Linux'' '' --class gnu-linux --class os {'' [TAB # ''recordfail'', TAB # ''set gfxpayload=$linux_gfx_mode'', [], TAB # ''linux /vmlinuz ro''],
     Sub ''Other'' '' $menuentry_id_option {'' [Entry ''Old'' '' {'' [], Other [], Sub ''More'' '' {'' [Entry ''Test'' '' {'' []]],
     Other ''### END ###'', Entry ''BSD'' '' {'' []]"

definition demoBoot :: bootEnv where
  "demoBoot = \<lparr>bManager = BO_GRUB2, bTool = (\<lambda>_. True),
     bFile = (\<lambda>f. if f = ''/boot/grub/grub.cfg'' then Content (fileOf (menuLines demoHead demoSaved demoMenu)) else NoFile),
     bTime = (\<lambda>_. 7), bLilo = None,
     bSetDefault = True, bGrub = False, bReboot = Some ''grub-reboot'', bConfig = ''/boot/grub/grub.cfg'', bBefore = NUL\<rparr>"

theorem getGrub2_menu_witness:
  "getGrub2 demoBoot = Some (BO_OK, [''Linux'', ''Other'', ''Other >> Old'', ''Other >> More'', ''Other >> More >> Test'', ''BSD''], -1, -1)
   \<and> setGrub2 demoBoot ''Other >> Old'' \<lparr>bsName = None, bsIndex = 0, bsStamp = 0\<rparr> = Some (BO_OK, \<lparr>bsName = Some ''Other>Old'', bsIndex = 0, bsStamp = 7\<rparr>)"
proof -
  have t: "concat (map (titlesOf []) demoMenu) =
      [''Linux'', ''Other'', ''Other >> Old'', ''Other >> More'', ''Other >> More >> Test'', ''BSD'']" by code_simp
  have r: "replaceAll SEP ''>'' ''Other >> Old'' = ''Other>Old''" by code_simp
  have "rebootTool demoBoot (grub2Tool demoBoot) \<noteq> None" by (simp add: demoBoot_def rebootTool_def)
  moreover have "bFile demoBoot (grub2Config demoBoot) = Content (fileOf (menuLines demoHead demoSaved demoMenu))"
    by (simp add: demoBoot_def grub2Config_def)
  moreover have "okConfig (bBefore demoBoot) demoHead demoSaved demoMenu" by code_simp
  ultimately have "getGrub2 demoBoot = Some (BO_OK, concat (map (titlesOf []) demoMenu), -1, -1) \<and>
     setGrub2 demoBoot ''Other >> Old'' \<lparr>bsName = None, bsIndex = 0, bsStamp = 0\<rparr> = Some (if ''Other >> Old'' \<in> set (concat (map (titlesOf []) demoMenu))
       then (BO_OK, \<lparr>bsName = None, bsIndex = 0, bsStamp = 0\<rparr>\<lparr>bsStamp := bTime demoBoot (grub2Config demoBoot), bsName := Some (replaceAll SEP ''>'' ''Other >> Old'')\<rparr>)
       else (BO_NOENT, \<lparr>bsName = None, bsIndex = 0, bsStamp = 0\<rparr>))"
    by (rule getGrub2_menu)
  then show ?thesis unfolding t r by (simp add: demoBoot_def grub2Config_def)
qed

section \<open>Where the readers go wrong\<close>

text \<open>A blank line is judged by the byte in front of the buffer: a blank there makes the search for the end of the
  line leave the frame, a brace ends the entry or the menu.\<close>

theorem grub2_blank_line:
  "list_all isspace l \<Longrightarrow> grub2Line b l g = (if isspace b then None else Some (Inr (grub2Close b g)))"
  by (simp add: grub2Line_def Let_def list_all_iff dropWhile_eq_Nil_conv)

text \<open>
  A choice inside a submenu is kept under the boot manager's name. When the menu changes before the
  shutdown it is looked up among the names for the user, not found and dropped.
\<close>

theorem commitGrub2_forgets_nested:
  "commitBootOption (demoBoot\<lparr>bTime := (\<lambda>_. 8)\<rparr>) \<lparr>bsName = Some ''BSD'', bsIndex = 0, bsStamp = 7\<rparr> = Some (RunArgs [''grub-reboot'', ''BSD''])
   \<and> commitBootOption (demoBoot\<lparr>bTime := (\<lambda>_. 8)\<rparr>) \<lparr>bsName = Some ''Other>Old'', bsIndex = 0, bsStamp = 7\<rparr> = Some NoCommit"
proof -
  let ?E = "demoBoot\<lparr>bTime := (\<lambda>_. 8)\<rparr>"
  have get: "getGrub2 ?E = Some (BO_OK, [''Linux'', ''Other'', ''Other >> Old'', ''Other >> More'', ''Other >> More >> Test'', ''BSD''], -1, -1)"
    by code_simp
  have "replaceAll SEP ''>'' ''BSD'' = ''BSD''" by code_simp
  then obtain n where n: "replaceInString ''BSD'' SEP ''>'' = Some (n, ''BSD'')" using replaceInString_SEP [of "''BSD''" "''>''"] by auto
  have "commitBootOption ?E b = commitGrub2 ?E b" if "bsName b \<noteq> None" for b
    using that by (cases "bsName b") (simp_all add: commitBootOption_def demoBoot_def)
  moreover have "rebootTool ?E (grub2Tool ?E) = Some ''grub-reboot''" "bTime ?E f = 8" for f
    by (simp_all add: rebootTool_def demoBoot_def)
  moreover have "setGrub2 ?E ''BSD'' b = Some (BO_OK, b\<lparr>bsStamp := 8, bsName := Some ''BSD''\<rparr>)" for b
    by (simp add: setGrub2_def get n)
  moreover have "setGrub2 ?E ''Other>Old'' b = Some (BO_NOENT, b)" for b by (simp add: setGrub2_def get)
  ultimately show ?thesis by (simp add: commitGrub2_def)
qed

text \<open>The legacy menu is listed with indented titles, but chosen from without them, so another system is booted.\<close>

theorem setGrub_other_system:
  "let E = demoBoot\<lparr>bFile := (\<lambda>_. Content (fileOf [''  title A'', ''title B'', ''title C'']))\<rparr>; b = \<lparr>bsName = None, bsIndex = 0, bsStamp = 0\<rparr> in
   getGrub E = (BO_OK, [''A'', ''B'', ''C''], 0, -1) \<and> commitGrub E (snd (setGrub E ''C'' b)) = RunArgs [''grub-set-default'', ''1'']"
  by code_simp

text \<open>A choice made before the list was asked for: the program to tell was not looked for yet, and there is none to run.\<close>

theorem commitGrub_without_program:
  "let E = demoBoot\<lparr>bSetDefault := False, bFile := (\<lambda>_. Content (fileOf [''title A'', ''title B'']))\<rparr>; b = \<lparr>bsName = None, bsIndex = 0, bsStamp = 0\<rparr> in
   commitGrub E (snd (setGrub E ''B'' b)) = PipeTo None [''--batch'', ''--no-floppy''] (''savedefault --default=1 --once'' @ [NL])"
  by code_simp

text \<open>The entries of BURG are listed, but the choice is looked up in the menu of GRUB 2.\<close>

theorem burg_choice_not_found:
  "let E = demoBoot\<lparr>bManager := BO_BURG, bFile := (\<lambda>f. Content (fileOf (menuLines [] demoSaved (if f = ''/boot/burg/burg.cfg'' then [Entry ''Mine'' '' {'' []] else demoMenu))))\<rparr> in
   map_option (fst \<circ> snd) (getBootOptions E) = Some [''Mine'']
   \<and> map_option fst (setBootOption E (Some ''Mine'') \<lparr>bsName = None, bsIndex = 0, bsStamp = 0\<rparr>) = Some BO_NOENT"
  by code_simp

end
