(* ===== verification/Printf.thy ===== *)
theory Printf
  imports DmServer
begin

text \<open>
  The formatter behind all messages, \<^verbatim>\<open>kdm/backend/printf.c\<close> as \<^verbatim>\<open>error.c\<close> includes it, with
  \<^verbatim>\<open>PRINT_QUOTES\<close> and \<^verbatim>\<open>PRINT_ARRAYS\<close>: numbers, strings with quoting, arrays, and the
  interpreter of format strings. Longs have 64 widthBits, characters are signed. An argument of the
  wrong type, or none, and the negation of the least long are \<open>UB\<close>.
\<close>

section \<open>Outcomes\<close>

text \<open>The outcome of reading on: the format ended, undefined behaviour (an argument that is missing or of the
  wrong kind, or a signed overflow), or a value.\<close>

datatype 'a scan = Stop | Wrong | Go 'a

fun bindS :: "'a scan \<Rightarrow> ('a \<Rightarrow> 'b scan) \<Rightarrow> 'b scan" where
  "bindS Stop f = Stop"
| "bindS Wrong f = Wrong"
| "bindS (Go x) f = f x"

fun mapS :: "('a \<Rightarrow> 'b scan) \<Rightarrow> 'a list \<Rightarrow> 'b list scan" where
  "mapS f [] = Go []"
| "mapS f (x # xs) = bindS (f x) (\<lambda>y. bindS (mapS f xs) (\<lambda>ys. Go (y # ys)))"

section \<open>Flags\<close>

record flags =
  fNum :: bool
  fMinus :: bool
  fPlus :: bool
  fSpace :: bool
  fZero :: bool
  fUpcase :: bool
  fUnsigned :: bool
  fDquote :: bool
  fSquote :: bool
  fBacksl :: bool

definition noFlags :: flags where
  "noFlags = \<lparr>fNum = False, fMinus = False, fPlus = False, fSpace = False, fZero = False, fUpcase = False,
     fUnsigned = False, fDquote = False, fSquote = False, fBacksl = False\<rparr>"

section \<open>Numbers\<close>

text \<open>The digits, lowest first, as they are put into the array \<^verbatim>\<open>convert\<close>. Bases are at least 2.\<close>

function convertDigits :: "string \<Rightarrow> nat \<Rightarrow> nat \<Rightarrow> string" where
  "convertDigits ctab base u =
     ctab ! (u mod base) # (if u div base = 0 \<or> base < 2 then [] else convertDigits ctab base (u div base))"
  by auto
termination
  by (relation "measure (\<lambda>(ctab, base, u). u)") (auto simp: div_eq_0_iff)

declare convertDigits.simps [simp del]

text \<open>Sign and digits with blanks and zeros around them; in a negative width the blanks come last.\<close>

definition padNumber :: "string \<Rightarrow> string \<Rightarrow> int \<Rightarrow> int \<Rightarrow> flags \<Rightarrow> string" where
  "padNumber sign ds mn mx fl =
     (let place = int (length ds);
          zpad = max 0 (mx - place);
          spad = max 0 (mn - max mx place - int (length sign) - (if fNum fl then 2 else 0));
          (zpad, spad) = (if fZero fl then (max zpad spad, 0) else (zpad, spad));
          blanks = replicate (nat spad) CHR '' ''
      in (if fMinus fl then [] else blanks) @ sign @ (if fNum fl then ''0x'' else [])
         @ replicate (nat zpad) CHR ''0'' @ ds @ (if fMinus fl then blanks else []))"

text \<open>A number is negated as a long before it becomes unsigned, which the least long does not survive.\<close>

definition fmtlong :: "64 word \<Rightarrow> nat \<Rightarrow> int \<Rightarrow> int \<Rightarrow> flags \<Rightarrow> string" where
  "fmtlong value base mn mx fl =
     (let neg = (\<not> fUnsigned fl \<and> sint value < 0);
          uvalue = (if neg then - value else value);
          sign = (if fUnsigned fl then [] else if neg then ''-'' else if fPlus fl then ''+''
                  else if fSpace fl then '' '' else []);
          digits = convertDigits (if fUpcase fl then ''0123456789ABCDEF'' else ''0123456789abcdef'') base (unat uvalue)
      in padNumber sign (rev digits) mn (max mx 0) fl)"

definition fmtint :: "64 word \<Rightarrow> nat \<Rightarrow> int \<Rightarrow> int \<Rightarrow> flags \<Rightarrow> string scan" where
  "fmtint value base mn mx fl =
     (if \<not> fUnsigned fl \<and> sint value = - (2 ^ 63) then Wrong else Go (fmtlong value base mn mx fl))"

section \<open>Strings\<close>

definition letterEscape :: "char \<Rightarrow> char option" where
  "letterEscape c =
     (if c = CHR 0x0D then Some CHR ''r'' else if c = CHR 0x0A then Some CHR ''n''
      else if c = CHR 0x09 then Some CHR ''t'' else if c = CHR 0x07 then Some CHR ''a''
      else if c = CHR 0x08 then Some CHR ''b'' else if c = CHR 0x0B then Some CHR ''v''
      else if c = CHR 0x0C then Some CHR ''f'' else None)"

text \<open>The comparison with 32 is one of signed characters. The number of a character is not negative, so it is \<open>fmtlong\<close>'s.\<close>

definition quoteChar :: "flags \<Rightarrow> bool \<Rightarrow> char \<Rightarrow> string" where
  "quoteChar fl edge c =
     (case letterEscape c of
        Some e \<Rightarrow> [BSL, e]
      | None \<Rightarrow>
          let w = (of_char c :: 8 word) in
          if sint w < 32 \<or> 0x7f \<le> w \<and> w < 0xa0
          then BSL # fmtlong (ucast w) 8 3 3 (noFlags\<lparr>fZero := True\<rparr>)
          else if c = CHR 0x27 \<and> fSquote fl \<or> c = CHR 0x22 \<and> fDquote fl
            \<or> c = CHR '' '' \<and> fBacksl fl \<and> edge \<or> c = BSL
          then [BSL, c]
          else [c])"

text \<open>A space counts as one at the edge at the first column and from \<open>lastcol\<close> on.\<close>

fun quoteFrom :: "flags \<Rightarrow> nat \<Rightarrow> nat \<Rightarrow> string \<Rightarrow> string" where
  "quoteFrom fl lastcol cur [] = []"
| "quoteFrom fl lastcol cur (c # cs) =
     quoteChar fl (cur = 0 \<or> lastcol \<le> cur) c @ quoteFrom fl lastcol (Suc cur) cs"

definition quoted :: "flags \<Rightarrow> bool" where
  "quoted fl \<longleftrightarrow> fSquote fl \<or> fDquote fl \<or> fBacksl fl"

definition quoteMark :: "flags \<Rightarrow> string" where
  "quoteMark fl = (if fSquote fl then [CHR 0x27] else if fDquote fl then [CHR 0x22] else [])"

definition trimmedLength :: "string \<Rightarrow> nat" where
  "trimmedLength v = length (dropWhile (\<lambda>c. c = CHR '' '') (rev v))"

definition fmtstr :: "string option \<Rightarrow> flags \<Rightarrow> int \<Rightarrow> int \<Rightarrow> string" where
  "fmtstr value fl mn mx =
     (case value of
        None \<Rightarrow> if fSquote fl \<or> fDquote fl then ''NULL'' else ''(null)''
      | Some v \<Rightarrow>
          let v = (if mx < 0 then v else take (nat mx) v);
              pad = replicate (nat (mn - int (length v))) CHR '' '';
              lastcol = (if fSquote fl \<or> fDquote fl \<or> \<not> fBacksl fl then 0 else trimmedLength v)
          in (if fMinus fl then [] else pad) @ quoteMark fl
             @ (if quoted fl then quoteFrom fl lastcol 0 v else v)
             @ quoteMark fl @ (if fMinus fl then pad else []))"


section \<open>Format strings\<close>

text \<open>An argument: a number, a string, or an array of either.\<close>

datatype parg =
    PInt int
  | PStr "string option"
  | PInts "int list option"
  | PStrs "string option list option"

fun nextChar :: "string \<Rightarrow> (char \<times> string) scan" where
  "nextChar [] = Stop"
| "nextChar (c # f) = Go (c, f)"

definition addFlag :: "char \<Rightarrow> flags \<Rightarrow> flags option" where
  "addFlag c fl =
     (if c = CHR ''#'' then Some (fl\<lparr>fNum := True\<rparr>)
      else if c = CHR ''-'' then Some (fl\<lparr>fMinus := True\<rparr>)
      else if c = CHR ''+'' then Some (fl\<lparr>fPlus := True\<rparr>)
      else if c = CHR '' '' then Some (fl\<lparr>fSpace := True\<rparr>)
      else if c = CHR ''0'' then Some (fl\<lparr>fZero := True\<rparr>)
      else if c = CHR 0x22 then Some (fl\<lparr>fDquote := True\<rparr>)
      else if c = CHR 0x27 then Some (fl\<lparr>fSquote := True\<rparr>)
      else if c = BSL then Some (fl\<lparr>fBacksl := True\<rparr>)
      else None)"

fun parseFlags :: "string \<Rightarrow> flags \<Rightarrow> (char \<times> string \<times> flags) scan" where
  "parseFlags [] fl = Stop"
| "parseFlags (c # f) fl =
     (case addFlag c fl of Some fl \<Rightarrow> parseFlags f fl | None \<Rightarrow> Go (c, f, fl))"

definition digitOf :: "char \<Rightarrow> int option" where
  "digitOf c = (let n = (of_char c :: int) in if 48 \<le> n \<and> n \<le> 57 then Some (n - 48) else None)"

definition intArg :: "parg list \<Rightarrow> (int \<times> parg list) scan" where
  "intArg as = (case as of PInt i # as \<Rightarrow> Go (i, as) | _ \<Rightarrow> Wrong)"

text \<open>The field width: digits, or an asterisk behind them.\<close>

fun parseMin :: "string \<Rightarrow> int \<Rightarrow> parg list \<Rightarrow> (char \<times> string \<times> int \<times> parg list) scan" where
  "parseMin [] mn as = Stop"
| "parseMin (c # f) mn as =
     (case digitOf c of
        Some d \<Rightarrow> parseMin f (10 * mn + d) as
      | None \<Rightarrow>
          if c = CHR ''*'' then
            bindS (intArg as) (\<lambda>(mn, as). bindS (nextChar f) (\<lambda>(c, f). Go (c, f, mn, as)))
          else Go (c, f, mn, as))"

fun parseMax :: "string \<Rightarrow> int \<Rightarrow> parg list \<Rightarrow> (char \<times> string \<times> int \<times> parg list) scan" where
  "parseMax [] mx as = Stop"
| "parseMax (c # f) mx as =
     (case digitOf c of
        Some d \<Rightarrow> parseMax f (10 * mx + d) as
      | None \<Rightarrow>
          if c = CHR ''*'' then
            bindS (intArg as) (\<lambda>(mx, as). bindS (nextChar f) (\<lambda>(c, f). Go (c, f, mx, as)))
          else Go (c, f, mx, as))"

text \<open>An array: prefix and suffix of the whole and of the elements, separator, length (negative: find the end).\<close>

record aspec =
  arPre :: string
  arSuf :: string
  arePre :: string
  areSuf :: string
  areSep :: string
  arLen :: int
  arColon :: bool

definition noArray :: aspec where
  "noArray = \<lparr>arPre = [], arSuf = [], arePre = [], areSuf = [], areSep = '' '', arLen = -1, arColon = False\<rparr>"

text \<open>The text up to the next occurrence of its first character.\<close>

fun delimited :: "string \<Rightarrow> (string \<times> string) scan" where
  "delimited [] = Stop"
| "delimited (q # f) =
     (case dropWhile (\<lambda>c. c \<noteq> q) f of
        [] \<Rightarrow> Stop
      | _ # rest \<Rightarrow> Go (takeWhile (\<lambda>c. c \<noteq> q) f, rest))"

fun parseLen :: "string \<Rightarrow> int \<Rightarrow> (char \<times> string \<times> int) scan" where
  "parseLen [] n = Stop"
| "parseLen (c # f) n =
     (case digitOf c of None \<Rightarrow> Go (c, f, n) | Some d \<Rightarrow> parseLen f (10 * n + d))"

definition arrayMod :: "char \<Rightarrow> string \<Rightarrow> aspec \<Rightarrow> parg list \<Rightarrow> (string \<times> aspec \<times> parg list) option scan" where
  "arrayMod c f a as =
     (let part = (\<lambda>upd. bindS (delimited f) (\<lambda>(t, f). Go (Some (f, upd t, as)))) in
      if c = CHR '':'' then Go (Some (f, a\<lparr>arColon := True\<rparr>, as))
      else if c = CHR ''*'' then bindS (intArg as) (\<lambda>(n, as). Go (Some (f, a\<lparr>arLen := n\<rparr>, as)))
      else if c = CHR ''('' then part (\<lambda>t. a\<lparr>arPre := t\<rparr>)
      else if c = CHR '')'' then part (\<lambda>t. a\<lparr>arSuf := t\<rparr>)
      else if c = CHR ''<'' then part (\<lambda>t. a\<lparr>arePre := t\<rparr>)
      else if c = CHR ''>'' then part (\<lambda>t. a\<lparr>areSuf := t\<rparr>)
      else if c = CHR ''|'' then part (\<lambda>t. a\<lparr>areSep := t\<rparr>)
      else if c = CHR '','' then Go (Some (f, a\<lparr>areSep := '',''\<rparr>, as))
      else if c = CHR ''{'' then Go (Some (f, a\<lparr>areSep := [], arPre := ''{'', arePre := '' '', arSuf := '' }''\<rparr>, as))
      else Go None)"


lemma parseLen_shorter: "parseLen f n = Go (c', f', n') \<Longrightarrow> length f' < length f"
  by (induction f arbitrary: n) (auto split: option.splits, fastforce)

lemma delimited_shorter: "delimited f = Go (t, f') \<Longrightarrow> length f' < length f"
proof (cases f)
  case (Cons q r)
  assume "delimited f = Go (t, f')"
  with Cons obtain x where "dropWhile (\<lambda>c. c \<noteq> q) r = x # f'" by (auto split: list.splits)
  then have "length (x # f') \<le> length r" by (metis length_dropWhile_le)
  with Cons show ?thesis by simp
qed simp

lemma bindS_Go: "bindS m g = Go y \<longleftrightarrow> (\<exists>x. m = Go x \<and> g x = Go y)"
  by (cases m) auto

lemma arrayMod_shorter: "arrayMod c f a as = Go (Some (f', a', as')) \<Longrightarrow> length f' \<le> length f"
  by (auto simp: arrayMod_def Let_def bindS_Go dest: delimited_shorter split: if_splits)

text \<open>One turn of the loop over the array modifiers: the first character that is none, or the rest.\<close>

definition arrayStep ::
  "string \<Rightarrow> aspec \<Rightarrow> parg list \<Rightarrow> (char \<times> string \<times> aspec \<times> parg list + string \<times> aspec \<times> parg list) scan"
where
  "arrayStep f a as =
     bindS (nextChar f) (\<lambda>(c, g).
       bindS (if digitOf c = None then Go (c, g, arLen a) else parseLen f 0) (\<lambda>(c, g, n).
         bindS (arrayMod c g (a\<lparr>arLen := n\<rparr>) as) (\<lambda>m.
           Go (case m of None \<Rightarrow> Inl (c, g, a\<lparr>arLen := n\<rparr>, as) | Some r \<Rightarrow> Inr r))))"

lemma arrayStep_shorter: "arrayStep f a as = Go (Inr (f', a', as')) \<Longrightarrow> length f' < length f"
proof -
  assume "arrayStep f a as = Go (Inr (f', a', as'))"
  then obtain c g c' g' n where s: "nextChar f = Go (c, g)"
      "(if digitOf c = None then Go (c, g, arLen a) else parseLen f 0) = Go (c', g', n)"
      "arrayMod c' g' (a\<lparr>arLen := n\<rparr>) as = Go (Some (f', a', as'))"
    by (auto simp: arrayStep_def bindS_Go split: option.splits)
  have "length g < length f" using s(1) by (cases f) auto
  then have "length g' < length f" using s(2) parseLen_shorter by (auto split: if_splits)
  with arrayMod_shorter [OF s(3)] show ?thesis by simp
qed

function parseArray :: "string \<Rightarrow> aspec \<Rightarrow> parg list \<Rightarrow> (char \<times> string \<times> aspec \<times> parg list) scan" where
  "parseArray f a as =
     (case arrayStep f a as of
        Go (Inl r) \<Rightarrow> Go r
      | Go (Inr (f, a, as)) \<Rightarrow> parseArray f a as
      | Stop \<Rightarrow> Stop
      | Wrong \<Rightarrow> Wrong)"
  by auto
termination
  by (relation "measure (\<lambda>(f, a, as). length f)") (auto dest: arrayStep_shorter)

declare parseArray.simps [simp del]

text \<open>Width modifiers.\<close>

datatype cwidth = CInt | CByte | CShort | CLong

definition widthBits :: "cwidth \<Rightarrow> nat" where
  "widthBits w = (case w of CInt \<Rightarrow> 32 | CByte \<Rightarrow> 8 | CShort \<Rightarrow> 16 | CLong \<Rightarrow> 64)"

fun parseWidth :: "char \<Rightarrow> string \<Rightarrow> cwidth \<Rightarrow> (char \<times> string \<times> cwidth) scan" where
  "parseWidth c [] w = (if c = CHR ''h'' \<or> c = CHR ''l'' then Stop else Go (c, [], w))"
| "parseWidth c (d # f) w =
     (if c = CHR ''h'' then
        (if d = CHR ''h'' then (case f of [] \<Rightarrow> Stop | e # f \<Rightarrow> parseWidth e f CByte) else parseWidth d f CShort)
      else if c = CHR ''l'' then parseWidth d f CLong
      else Go (c, d # f, w))"

section \<open>Conversions\<close>

text \<open>A number of an array, or an argument, as a long.\<close>

definition elemValue :: "cwidth \<Rightarrow> bool \<Rightarrow> int \<Rightarrow> 64 word" where
  "elemValue w uns v =
     word_of_int (if uns then take_bit (widthBits w) v else signed_take_bit (widthBits w - 1) v)"

text \<open>Arguments narrower than an int are passed as one.\<close>

definition argValue :: "cwidth \<Rightarrow> bool \<Rightarrow> int \<Rightarrow> 64 word" where
  "argValue w uns v = elemValue (if w = CLong then CLong else CInt) uns v"

text \<open>The elements of an array: as many as given, or those before the end mark.\<close>

definition elements :: "('a \<Rightarrow> bool) \<Rightarrow> int \<Rightarrow> 'a list \<Rightarrow> 'a list scan" where
  "elements ends n xs =
     (if n = -1 then (if list_ex ends xs then Go (takeWhile (\<lambda>x. \<not> ends x) xs) else Wrong)
      else if 0 \<le> n \<and> nat n \<le> length xs then Go (take (nat n) xs) else Wrong)"

definition showArray :: "aspec \<Rightarrow> string list \<Rightarrow> string" where
  "showArray a xs =
     (if arColon a then showInt (int (length xs)) @ '': '' else []) @ arPre a
     @ concat (map (\<lambda>(i, x). (if i = 0 then [] else areSep a) @ arePre a @ x @ areSuf a) (enumerate 0 xs)) @ arSuf a"

definition nullArray :: "aspec \<Rightarrow> string" where
  "nullArray a = (if arPre a \<noteq> [] then ''NULL'' else ''((null))'')"

record spec =
  sFlags :: flags
  sMin :: int
  sMax :: int
  sArray :: "aspec option"
  sWidth :: cwidth

definition printStr :: "spec \<Rightarrow> parg list \<Rightarrow> (string \<times> parg list) scan" where
  "printStr sp as =
     (let one = (\<lambda>v. fmtstr v (sFlags sp) (sMin sp) (sMax sp)) in
      case (sArray sp, as) of
        (None, PStr v # as) \<Rightarrow> Go (one v, as)
      | (Some a, PStrs None # as) \<Rightarrow> Go (nullArray a, as)
      | (Some a, PStrs (Some xs) # as) \<Rightarrow>
          bindS (elements (\<lambda>x. x = None) (arLen a) xs) (\<lambda>xs. Go (showArray a (map one xs), as))
      | _ \<Rightarrow> Wrong)"

definition printInt :: "spec \<Rightarrow> nat \<Rightarrow> flags \<Rightarrow> parg list \<Rightarrow> (string \<times> parg list) scan" where
  "printInt sp radix fl as =
     (let one = (\<lambda>v. fmtint v radix (sMin sp) (sMax sp) fl); w = sWidth sp; uns = fUnsigned fl in
      case (sArray sp, as) of
        (None, PInt v # as) \<Rightarrow> bindS (one (argValue w uns v)) (\<lambda>s. Go (s, as))
      | (Some a, PInts None # as) \<Rightarrow> Go (nullArray a, as)
      | (Some a, PInts (Some xs) # as) \<Rightarrow>
          bindS (elements (\<lambda>x. take_bit (widthBits w) x = mask (widthBits w)) (arLen a) xs)
            (\<lambda>xs. bindS (mapS (\<lambda>v. one (elemValue w uns v)) xs) (\<lambda>ss. Go (showArray a ss, as)))
      | _ \<Rightarrow> Wrong)"

text \<open>One conversion; \<open>err\<close> is the text for \<^verbatim>\<open>%m\<close>.\<close>

definition convert :: "string \<Rightarrow> spec \<Rightarrow> char \<Rightarrow> parg list \<Rightarrow> (string \<times> parg list) scan" where
  "convert err sp c as =
     (let fl = sFlags sp; un = fl\<lparr>fUnsigned := True\<rparr> in
      if c = CHR ''%'' then Go (''%'', as)
      else if c = CHR ''m'' then Go (fmtstr (Some err) fl (sMin sp) (sMax sp), as)
      else if c = CHR ''c'' then bindS (intArg as) (\<lambda>(i, as). Go ([char_of (take_bit 8 i)], as))
      else if c = CHR ''s'' then printStr sp as
      else if c = CHR ''u'' then printInt sp 10 un as
      else if c = CHR ''d'' \<or> c = CHR ''i'' then printInt sp 10 fl as
      else if c = CHR ''X'' then printInt sp 16 (un\<lparr>fUpcase := True\<rparr>) as
      else if c = CHR ''x'' then printInt sp 16 un as
      else if c = CHR ''p'' then
        bindS (intArg as) (\<lambda>(i, as).
          bindS (fmtint (word_of_int i) 16 18 (sMax sp) (un\<lparr>fZero := True, fNum := True\<rparr>)) (\<lambda>s. Go (s, as)))
      else Go ([], as))"


section \<open>The interpreter\<close>

definition parseSpec :: "string \<Rightarrow> parg list \<Rightarrow> (spec \<times> char \<times> string \<times> parg list) scan" where
  "parseSpec f as =
     bindS (parseFlags f noFlags) (\<lambda>(c, f, fl).
       bindS (parseMin (c # f) 0 as) (\<lambda>(c, f, mn, as).
         bindS (if c = CHR ''.'' then parseMax f 0 as else Go (c, f, -1, as)) (\<lambda>(c, f, mx, as).
           bindS (if c = CHR ''['' then bindS (parseArray f noArray as) (\<lambda>(c, f, a, as). Go (c, f, Some a, as))
                  else Go (c, f, None, as)) (\<lambda>(c, f, a, as).
             bindS (parseWidth c f CInt) (\<lambda>(c, f, w).
               Go (\<lparr>sFlags = fl, sMin = mn, sMax = mx, sArray = a, sWidth = w\<rparr>, c, f, as))))))"

lemma parseFlags_shorter: "parseFlags f fl = Go (c, f', fl') \<Longrightarrow> length f' < length f"
  by (induction f arbitrary: fl) (auto split: option.splits, fastforce)

lemma parseMin_shorter: "parseMin f mn as = Go (c, f', r) \<Longrightarrow> length f' < length f"
proof (induction f arbitrary: mn)
  case (Cons d f)
  show ?case
  proof (cases "digitOf d")
    case None
    then show ?thesis using Cons.prems by (cases f) (auto simp: bindS_Go split: if_splits)
  next
    case (Some x)
    with Cons show ?thesis by fastforce
  qed
qed simp

lemma parseMax_shorter: "parseMax f mx as = Go (c, f', r) \<Longrightarrow> length f' < length f"
proof (induction f arbitrary: mx)
  case (Cons d f)
  show ?case
  proof (cases "digitOf d")
    case None
    then show ?thesis using Cons.prems by (cases f) (auto simp: bindS_Go split: if_splits)
  next
    case (Some x)
    with Cons show ?thesis by fastforce
  qed
qed simp

lemma parseArray_shorter: "parseArray f a as = Go (c, f', r) \<Longrightarrow> length f' < length f"
proof (induction f a as rule: parseArray.induct)
  case (1 f a as)
  from 1(2) obtain m where m: "arrayStep f a as = Go m"
    by (auto simp: parseArray.simps [of f] split: scan.splits)
  show ?case
  proof (cases m)
    case (Inl l)
    with 1(2) m have l: "l = (c, f', r)" by (simp add: parseArray.simps [of f])
    with m Inl obtain d g d' n where s: "nextChar f = Go (d, g)"
        "(if digitOf d = None then Go (d, g, arLen a) else parseLen f 0) = Go (d', f', n)"
      by (auto simp: arrayStep_def bindS_Go split: option.splits)
    have "length g < length f" using s(1) by (cases f) auto
    then show ?thesis using s(2) parseLen_shorter by (auto split: if_splits)
  next
    case (Inr x)
    obtain g b bs where x: "x = (g, b, bs)" by (cases x)
    then have "length g < length f" using m Inr arrayStep_shorter by blast
    moreover have "length f' < length g" using 1 m Inr x by (simp add: parseArray.simps [of f])
    ultimately show ?thesis by simp
  qed
qed

lemma parseWidth_shorter: "parseWidth c f w = Go (c', f', w') \<Longrightarrow> length f' \<le> length f"
  by (induction c f w rule: parseWidth.induct) (auto split: if_splits list.splits)

lemma parseSpec_shorter: "parseSpec f as = Go (sp, c, f', as') \<Longrightarrow> length f' < length f"
proof -
  assume "parseSpec f as = Go (sp, c, f', as')"
  then obtain c1 f1 fl c2 f2 mn a2 c3 f3 mx a3 c4 f4 ar a4 w where s:
      "parseFlags f noFlags = Go (c1, f1, fl)" "parseMin (c1 # f1) 0 as = Go (c2, f2, mn, a2)"
      "(if c2 = CHR ''.'' then parseMax f2 0 a2 else Go (c2, f2, -1, a2)) = Go (c3, f3, mx, a3)"
      "(if c3 = CHR ''['' then bindS (parseArray f3 noArray a3) (\<lambda>(c, f, a, as). Go (c, f, Some a, as))
                  else Go (c3, f3, None, a3)) = Go (c4, f4, ar, a4)"
      "parseWidth c4 f4 CInt = Go (c, f', w)"
    by (auto simp: parseSpec_def bindS_Go)
  have "length f1 < length f" by (rule parseFlags_shorter [OF s(1)])
  moreover have "length f2 \<le> length f1" using parseMin_shorter [OF s(2)] by simp
  moreover have "length f3 \<le> length f2" using s(3) by (auto dest: parseMax_shorter split: if_splits)
  moreover have "length f4 \<le> length f3"
    using s(4) by (auto simp: bindS_Go dest: parseArray_shorter split: if_splits)
  ultimately show ?thesis using parseWidth_shorter [OF s(5)] by simp
qed

text \<open>The output of a format with its arguments; a format that ends inside a conversion ends the output.\<close>

function doPrint :: "string \<Rightarrow> string \<Rightarrow> parg list \<Rightarrow> string outcome" where
  "doPrint err f as =
     (let lit = takeWhile (\<lambda>c. c \<noteq> CHR ''%'') f in
      case dropWhile (\<lambda>c. c \<noteq> CHR ''%'') f of
        [] \<Rightarrow> Ret lit
      | _ # rest \<Rightarrow>
          (case parseSpec rest as of
             Stop \<Rightarrow> Ret lit
           | Wrong \<Rightarrow> UB
           | Go (sp, c, f, as) \<Rightarrow>
               (case convert err sp c as of
                  Go (x, as) \<Rightarrow> bind_out (doPrint err f as) (\<lambda>r. Ret (lit @ x @ r))
                | _ \<Rightarrow> UB)))"
  by auto
termination
proof (relation "measure (\<lambda>(err, f, as). length f)")
  show "((err, g, bs), err, f, as) \<in> measure (\<lambda>(err, f, as). length f)"
    if "dropWhile (\<lambda>c. c \<noteq> CHR ''%'') f = x # rest" "parseSpec rest as = Go y" "(sp, z) = y" "(c, z') = z" "(g, as') = z'"
    for err f :: string and as x rest y sp z c z' g as' bs
    using that parseSpec_shorter length_dropWhile_le [of "\<lambda>c. c \<noteq> CHR ''%''" f] by fastforce
qed simp

declare doPrint.simps [simp del]

section \<open>Numbers come out in full\<close>

lemma convertDigits_length: "2 \<le> base \<Longrightarrow> u < base ^ Suc n \<Longrightarrow> length (convertDigits ctab base u) \<le> Suc n"
proof (induction n arbitrary: u)
  case 0
  then show ?case by (simp add: convertDigits.simps)
next
  case (Suc n)
  have "u div base < base ^ Suc n" using Suc.prems by (simp add: less_mult_imp_div_less mult.commute)
  from Suc.IH [OF Suc.prems(1) this] show ?case by (subst convertDigits.simps) simp
qed

lemma convertDigits_dec: "rev (convertDigits ''0123456789abcdef'' 10 u) = decDigits u"
proof (induction u rule: less_induct)
  case (less u)
  have "map ((!) ''0123456789abcdef'') [0..<10] = map (\<lambda>k. char_of (48 + k)) [0..<10 :: nat]" by code_simp
  then have d: "''0123456789abcdef'' ! k = (char_of (48 + k) :: char)" if "k < 10" for k
    using that by (auto dest: map_eq_conv [THEN iffD1] simp del: nth_Cons_numeral)
  show ?case
  proof (cases "u < 10")
    case True
    then show ?thesis using d [of u] by (simp add: convertDigits.simps decDigits.simps)
  next
    case False
    then have "rev (convertDigits ''0123456789abcdef'' 10 (u div 10)) = decDigits (u div 10)"
      by (intro less.IH) simp
    moreover have "u div 10 \<noteq> 0" using False by (simp add: div_eq_0_iff)
    ultimately show ?thesis
      using False d [of "u mod 10"] by (subst convertDigits.simps, subst decDigits.simps) simp
  qed
qed

lemma sint_uint64: "sint (v :: 64 word) = uint v - (if bit v 63 then 2 ^ 64 else 0)"
proof -
  have "take_bit 64 (uint v) = uint v"
    by (rule take_bit_int_eq_self) (use uint_lt2p [of v] in simp_all)
  then show ?thesis by (simp add: sint_uint signed_take_bit_eq_take_bit_minus bit_uint_iff)
qed

lemma uint_minus64: "uint v \<noteq> 0 \<Longrightarrow> uint (- (v :: 64 word)) = 2 ^ 64 - uint v"
proof -
  assume "uint v \<noteq> 0"
  moreover have "uint v mod 2 ^ 64 = uint v" using uint_lt2p [of v] by (intro mod_pos_pos_trivial) simp_all
  ultimately have "(- uint v) mod 2 ^ 64 = 2 ^ 64 - uint v" by (simp add: zmod_zminus1_eq_if)
  then show ?thesis using uint_word_ariths(4) [of v] by simp
qed

text \<open>C36. A number without flags is printed as its decimal digits, for every long but the least; printing that one
  negates it, which overflows. The digits of every number fit into the array of 20 in the decimal and hexadecimal
  formats.\<close>

theorem fmtint_decimal:
  "fmtint v 10 0 (-1) noFlags = (if sint v = - (2 ^ 63) then Wrong else Go (showInt (sint v)))
   \<and> length (convertDigits tab 10 (unat (v :: 64 word))) \<le> 20
   \<and> length (convertDigits tab 16 (unat v)) \<le> 16"
proof (intro conjI)
  have u: "unat v < 2 ^ 64" using unsigned_less [of v, where 'a = nat] by simp
  show "length (convertDigits tab 10 (unat v)) \<le> 20"
    using convertDigits_length [of 10 "unat v" 19 tab] u by simp
  show "length (convertDigits tab 16 (unat v)) \<le> 16"
    using convertDigits_length [of 16 "unat v" 15 tab] u by simp
  have lt: "uint v < 2 ^ 64" using uint_lt2p [of v] by simp
  have neg: "unat (- v) = nat (- sint v)" if "sint v < 0"
  proof -
    have "v \<noteq> 0" using that by auto
    then have s: "uint v \<noteq> 0" by (simp add: uint_0_iff)
    have "sint v = uint v - 2 ^ 64"
      using that sint_uint64 [of v] uint_ge_0 [of v] by (auto split: if_splits)
    then have "uint (- v) = - sint v" using uint_minus64 s by simp
    then show ?thesis by (simp add: unat_eq_nat_uint)
  qed
  have pos: "unat v = nat (sint v)" if "\<not> sint v < 0"
  proof -
    have "sint v = uint v" using that sint_uint64 [of v] lt by (auto split: if_splits)
    then show ?thesis by (simp only: unat_eq_nat_uint)
  qed
  have pad: "padNumber s ds 0 (max (-1) 0) noFlags = s @ ds" for s ds by (simp add: padNumber_def noFlags_def)
  have fl: "fUnsigned noFlags = False" "fPlus noFlags = False" "fSpace noFlags = False" "fUpcase noFlags = False"
    by (simp_all add: noFlags_def)
  have "fmtlong v 10 0 (-1) noFlags = showInt (sint v)"
  proof (cases "sint v < 0")
    case True
    show ?thesis unfolding fmtlong_def Let_def pad fl showInt_def
      by (simp only: True neg [OF True] convertDigits_dec simp_thms if_True if_False)
  next
    case False
    show ?thesis unfolding fmtlong_def Let_def pad fl showInt_def
      by (simp only: False pos [OF False] convertDigits_dec simp_thms if_True if_False append.simps)
  qed
  then show "fmtint v 10 0 (-1) noFlags = (if sint v = - (2 ^ 63) then Wrong else Go (showInt (sint v)))"
    by (simp add: fmtint_def fl)
qed

section \<open>Quoted strings can be read back\<close>

text \<open>The reading of the escapes: a letter, three octal digits, or the character itself.\<close>

definition letterOf :: "char \<Rightarrow> char option" where
  "letterOf e =
     (if e = CHR ''r'' then Some CHR 0x0D else if e = CHR ''n'' then Some CHR 0x0A
      else if e = CHR ''t'' then Some CHR 0x09 else if e = CHR ''a'' then Some CHR 0x07
      else if e = CHR ''b'' then Some CHR 0x08 else if e = CHR ''v'' then Some CHR 0x0B
      else if e = CHR ''f'' then Some CHR 0x0C else None)"

fun unescape :: "string \<Rightarrow> string option" where
  "unescape [] = Some []"
| "unescape (c # cs) =
     (if c \<noteq> BSL then map_option ((#) c) (unescape cs)
      else (case cs of
          [] \<Rightarrow> None
        | e # es \<Rightarrow>
            (case letterOf e of
               Some l \<Rightarrow> map_option ((#) l) (unescape es)
             | None \<Rightarrow>
                 (case (digitOf e, es) of
                    (Some a, b # c # es) \<Rightarrow>
                      (case (digitOf b, digitOf c) of
                         (Some b, Some c) \<Rightarrow>
                           map_option ((#) (char_of (nat (64 * a + 8 * b + c)))) (unescape es)
                       | _ \<Rightarrow> None)
                  | (Some a, _) \<Rightarrow> None
                  | (None, _) \<Rightarrow> map_option ((#) e) (unescape es)))))"

declare unescape.simps [simp del]

lemma unescape_Nil [simp]: "unescape [] = Some []"
  by (simp add: unescape.simps)

lemma unescape_plain: "c \<noteq> BSL \<Longrightarrow> unescape (c # r) = map_option ((#) c) (unescape r)"
  by (simp add: unescape.simps)

lemma unescape_letter: "letterOf e = Some l \<Longrightarrow> unescape (BSL # e # r) = map_option ((#) l) (unescape r)"
  by (simp add: unescape.simps(2) [of BSL])

lemma unescape_itself:
  "letterOf e = None \<Longrightarrow> digitOf e = None \<Longrightarrow> unescape (BSL # e # r) = map_option ((#) e) (unescape r)"
  by (simp add: unescape.simps(2) [of BSL])

lemma unescape_octal:
  "letterOf e = None \<Longrightarrow> digitOf e = Some a \<Longrightarrow> digitOf b = Some b' \<Longrightarrow> digitOf c = Some c' \<Longrightarrow>
   unescape (BSL # e # b # c # r) = map_option ((#) (char_of (nat (64 * a + 8 * b' + c')))) (unescape r)"
  by (simp add: unescape.simps(2) [of BSL])

definition printable :: "char \<Rightarrow> bool" where
  "printable c \<longleftrightarrow> (let n = (of_char c :: nat) in 32 \<le> n \<and> n \<le> 126)"

lemma octal_digits:
  assumes "n < 256"
  shows "padNumber [] (rev (convertDigits ''0123456789abcdef'' 8 n)) 3 3 (noFlags\<lparr>fZero := True\<rparr>) =
     [char_of (48 + n div 64), char_of (48 + n div 8 mod 8), char_of (48 + n mod 8)]"
proof -
  have "map ((!) ''0123456789abcdef'') [0..<8] = map (\<lambda>k. char_of (48 + k)) [0..<8 :: nat]" by code_simp
  then have d: "''0123456789abcdef'' ! k = (char_of (48 + k) :: char)" if "k < 8" for k
    using that by (auto dest: map_eq_conv [THEN iffD1] simp del: nth_Cons_numeral)
  have z: "char_of (48 :: nat) = CHR ''0''" by code_simp
  consider "n < 8" | "8 \<le> n" "n < 64" | "64 \<le> n" by linarith
  then show ?thesis
  proof cases
    case 1
    then have "convertDigits ''0123456789abcdef'' 8 n = [char_of (48 + n)]" using d [of n] by (simp add: convertDigits.simps)
    then show ?thesis using 1 z by (simp add: padNumber_def noFlags_def numeral_2_eq_2)
  next
    case 2
    then have "n div 8 < 8" "n div 8 \<noteq> 0" "n div 64 = 0" by (auto simp: div_eq_0_iff)
    then have "convertDigits ''0123456789abcdef'' 8 n = [char_of (48 + n mod 8), char_of (48 + n div 8)]"
      using d [of "n mod 8"] d [of "n div 8"] by (simp add: convertDigits.simps [of _ _ n] convertDigits.simps [of _ _ "n div 8"])
    then show ?thesis using \<open>n div 8 < 8\<close> \<open>n div 64 = 0\<close> z by (simp add: padNumber_def noFlags_def)
  next
    case 3
    have q: "n div 8 div 8 = n div 64" by (simp add: div_mult2_eq [symmetric])
    have "n div 64 < 8" "n div 64 \<noteq> 0" "n div 8 \<noteq> 0" using 3 assms by (auto simp: div_eq_0_iff)
    then have "convertDigits ''0123456789abcdef'' 8 n = [char_of (48 + n mod 8), char_of (48 + n div 8 mod 8), char_of (48 + n div 64)]"
      using d [of "n mod 8"] d [of "n div 8 mod 8"] d [of "n div 64"] q
      by (simp add: convertDigits.simps [of _ _ n] convertDigits.simps [of _ _ "n div 8"] convertDigits.simps [of _ _ "n div 64"])
    then show ?thesis by (simp add: padNumber_def noFlags_def)
  qed
qed

lemma escape_octal:
  assumes "(of_char c :: nat) = n" "n < 256"
  shows "unescape (BSL # char_of (48 + n div 64) # char_of (48 + n div 8 mod 8) # char_of (48 + n mod 8) # r)
     = map_option ((#) c) (unescape r)"
proof -
  have "list_all (\<lambda>k. digitOf (char_of (48 + k)) = Some (int k) \<and> letterOf (char_of (48 + k)) = None) [0 ..< 8]"
    by code_simp
  then have d: "digitOf (char_of (48 + k)) = Some (int k)" "letterOf (char_of (48 + k)) = None" if "k < 8" for k :: nat
    using that by (simp_all add: list_all_iff)
  have "n div 8 div 8 = n div 64" by (simp add: div_mult2_eq [symmetric])
  then have "64 * (n div 64) + 8 * (n div 8 mod 8) + n mod 8 = n"
    using div_mult_mod_eq [of n 8] div_mult_mod_eq [of "n div 8" 8] by linarith
  then have n: "nat (64 * int (n div 64) + 8 * int (n div 8 mod 8) + int (n mod 8)) = n" by linarith
  have c: "char_of n = c" unfolding assms(1) [symmetric] by (rule char_of_char)
  have "n div 64 < 8" "n div 8 mod 8 < 8" "n mod 8 < 8" using assms(2) by auto
  from \<open>n div 64 < 8\<close> \<open>n div 8 mod 8 < 8\<close> \<open>n mod 8 < 8\<close> show ?thesis
    using unescape_octal [OF d(2) d(1) d(1) d(1), of "n div 64" "n div 8 mod 8" "n mod 8" r] unfolding n c by (simp only:)
qed

lemma byte_long:
  "unat (ucast (w :: 8 word) :: 64 word) = unat w \<and> sint (ucast w :: 64 word) = int (unat w)"
proof -
  have u: "uint (ucast w :: 64 word) = uint w" by (rule uint_up_ucast) (simp add: is_up)
  moreover have "\<not> bit (ucast w :: 64 word) 63"
    using bit_imp_le_length [of w 63] by (auto simp: bit_ucast_iff)
  ultimately have "sint (ucast w :: 64 word) = uint w" by (simp only: sint_uint64 if_False diff_0_right)
  then show ?thesis using u by (simp only: unat_eq_nat_uint int_nat_eq uint_ge_0 if_True simp_thms)
qed

lemma quoteChar_control:
  assumes "letterEscape c = None" "sint (of_char c :: 8 word) < 32 \<or> 0x7f \<le> (of_char c :: 8 word) \<and> (of_char c :: 8 word) < 0xa0"
  shows "quoteChar fl e c = (let n = of_char c in
     [BSL, char_of (48 + n div 64), char_of (48 + n div 8 mod 8), char_of (48 + n mod 8 :: nat)])"
proof -
  let ?w = "of_char c :: 8 word"
  let ?n = "of_char c :: nat"
  have n: "?n < 256" using nat_of_char_less_256 [of c] by simp
  have w: "?w = word_of_nat ?n" by (simp add: of_char_def)
  have u: "unat ?w = ?n" unfolding w using n by (simp add: unat_of_nat)
  have v: "unat (ucast ?w :: 64 word) = ?n" and "sint (ucast ?w :: 64 word) = int ?n"
    using byte_long [of ?w] unfolding u by blast+
  then have s: "(sint (ucast ?w :: 64 word) < 0) = False" by simp
  have fl: "fUnsigned (noFlags\<lparr>fZero := True\<rparr>) = False" "fPlus (noFlags\<lparr>fZero := True\<rparr>) = False"
    "fSpace (noFlags\<lparr>fZero := True\<rparr>) = False" "fUpcase (noFlags\<lparr>fZero := True\<rparr>) = False"
    by (simp_all add: noFlags_def)
  have "fmtlong (ucast ?w) 8 3 3 (noFlags\<lparr>fZero := True\<rparr>) =
     [char_of (48 + ?n div 64), char_of (48 + ?n div 8 mod 8), char_of (48 + ?n mod 8)]"
    unfolding fmtlong_def Let_def fl s using octal_digits [OF n] v by simp
  with assms show ?thesis by (simp add: quoteChar_def Let_def)
qed

lemma printable_quote:
  assumes "n < 8"
  shows "printable (char_of (48 + n :: nat))"
proof -
  have "list_all (\<lambda>k. printable (char_of (48 + k :: nat))) [0 ..< 8]" by code_simp
  with assms show ?thesis by (simp add: list_all_iff)
qed

lemma letterEscape_letterOf: "letterEscape c = Some e \<Longrightarrow> letterOf e = Some c \<and> printable e"
  by (auto simp: letterEscape_def letterOf_def printable_def Let_def split: if_splits)

lemma plain_printable:
  assumes "\<not> (sint (of_char c :: 8 word) < 32 \<or> 0x7f \<le> (of_char c :: 8 word) \<and> (of_char c :: 8 word) < 0xa0)"
  shows "printable c"
proof -
  have all: "list_all (\<lambda>n. let w = (word_of_nat n :: 8 word) in sint w < 32 \<or> 0x7f \<le> w \<and> w < 0xa0 \<or> 32 \<le> n \<and> n \<le> 126) [0 ..< 256]"
    by code_simp
  have n: "(of_char c :: nat) < 256" by (rule nat_of_char_less_256)
  have w: "(of_char c :: 8 word) = word_of_nat (of_char c)" by (simp add: of_char_def)
  have "of_char c \<in> set [0 ..< 256]" unfolding set_upt atLeastLessThan_iff using n by blast
  then show ?thesis
    using all assms unfolding w printable_def Let_def list_all_iff by blast
qed

lemma quoteChar_back:
  "unescape (quoteChar fl e c @ r) = map_option ((#) c) (unescape r) \<and> list_all printable (quoteChar fl e c)"
proof -
  have bs: "printable BSL" by (simp add: printable_def)
  consider (letter) l where "letterEscape c = Some l"
    | (octal) "letterEscape c = None" "sint (of_char c :: 8 word) < 32 \<or> 0x7f \<le> (of_char c :: 8 word) \<and> (of_char c :: 8 word) < 0xa0"
    | (plain) "letterEscape c = None" "\<not> (sint (of_char c :: 8 word) < 32 \<or> 0x7f \<le> (of_char c :: 8 word) \<and> (of_char c :: 8 word) < 0xa0)"
    by (cases "letterEscape c") auto
  then show ?thesis
  proof cases
    case letter
    with letterEscape_letterOf [OF letter] bs show ?thesis by (simp add: quoteChar_def unescape_letter)
  next
    case octal
    have n: "(of_char c :: nat) < 256" by simp
    then have "(of_char c :: nat) div 64 < 8" by (simp add: less_mult_imp_div_less del: nat_of_char_less_256)
    with quoteChar_control [OF octal] escape_octal [OF refl n, of r] bs show ?thesis
      by (simp add: Let_def printable_quote)
  next
    case plain
    show ?thesis
    proof (cases "c = CHR 0x27 \<and> fSquote fl \<or> c = CHR 0x22 \<and> fDquote fl \<or> c = CHR '' '' \<and> fBacksl fl \<and> e \<or> c = BSL")
      case True
      then have q: "quoteChar fl e c = [BSL, c]" using plain by (simp only: quoteChar_def option.case Let_def if_False if_True)
      have "list_all (\<lambda>c. letterOf c = None \<and> digitOf c = None \<and> printable c) [CHR 0x27, CHR 0x22, CHR '' '', BSL]"
        by code_simp
      moreover from True have "c = CHR 0x27 \<or> c = CHR 0x22 \<or> c = CHR '' '' \<or> c = BSL" by blast
      ultimately have l: "letterOf c = None" "digitOf c = None" "printable c"
        by (simp_all only: list.pred_inject) blast+
      show ?thesis using q bs l by (simp add: unescape_itself [OF l(1,2)])
    next
      case False
      then have q: "quoteChar fl e c = [c]" using plain by (simp only: quoteChar_def option.case Let_def if_False)
      from False have "c \<noteq> BSL" by simp
      with q plain_printable [OF plain(2)] show ?thesis by (simp add: unescape_plain)
    qed
  qed
qed

lemma quoteFrom_back: "unescape (quoteFrom fl lc k v) = Some v \<and> list_all printable (quoteFrom fl lc k v)"
  by (induction v arbitrary: k) (simp_all add: quoteChar_back)

text \<open>C16. A string printed with one of the quoting flags comes between two equal marks, holds printable characters only, whatever bytes the string had, and its escapes read back as the string.\<close>

theorem fmtstr_quoted:
  assumes "quoted fl"
  shows "\<exists>body. fmtstr (Some v) fl 0 (-1) = quoteMark fl @ body @ quoteMark fl
     \<and> list_all printable body \<and> unescape body = Some v"
  using assms quoteFrom_back by (simp add: fmtstr_def)

theorem fmtstr_quoted_witness:
  "\<exists>body. fmtstr (Some ''it's'') (noFlags\<lparr>fSquote := True\<rparr>) 0 (-1) = [CHR 0x27] @ body @ [CHR 0x27]
     \<and> list_all printable body \<and> unescape body = Some ''it's''"
  using fmtstr_quoted [of "noFlags\<lparr>fSquote := True\<rparr>" "''it's''"] by (simp add: quoted_def quoteMark_def)

lemma doPrint_example:
  "doPrint ''err'' (''%d|%5.3x|%-4s|%'' @ [BSL] @ ''s|%[,u|%[*{d %m'')
     [PInt (-7), PInt 10, PStr (Some ''xy''), PStr (Some '' a b''), PInts (Some [1, 2, -1]), PInt 2, PInts (Some [5, 6, 7])]
   = Ret (''-7|  00a|xy  |'' @ [BSL] @ '' a b|1,2|{ 5 6 } err'')"
  by code_simp

end
