(* ===== verification/Logger.thy ===== *)
theory Logger
  imports Prelude
begin

text \<open>
  The two receivers of formatted characters in \<^verbatim>\<open>kdm/backend/printf.c\<close>: the line buffer of the log
  (\<^verbatim>\<open>outCh_OCL\<close>, \<^verbatim>\<open>flush_OCL\<close>, \<^verbatim>\<open>logger\<close>) and the growing string of \<^verbatim>\<open>VASPrintf\<close>. The \<open>n\<close>-th
  allocation succeeds when \<open>mal n\<close> holds. A write outside a buffer is \<open>UB\<close>.
\<close>

section \<open>Log lines\<close>

record lbuf =
  lbText :: string
  lbLen :: int
  lbLocal :: bool
  lbOut :: "string list"
  lbAllocs :: nat
  lbHeads :: nat

definition lbuf0 :: lbuf where
  "lbuf0 = \<lparr>lbText = [], lbLen = 0, lbLocal = False, lbOut = [], lbAllocs = 0, lbHeads = 0\<rparr>"

text \<open>The line ends go to the log file only, at the place behind the text; the system log needs none.\<close>

definition flush_OCL :: "bool \<Rightarrow> lbuf \<Rightarrow> lbuf outcome" where
  "flush_OCL sys b =
     (if lbText b = [] then Ret b
      else if \<not> sys \<and> lbLen b \<le> int (length (lbText b)) then UB
      else Ret (b\<lparr>lbOut := lbOut b @ [lbText b], lbText := []\<rparr>))"

text \<open>Room for another character: a bigger block, or the line so far is written and the small buffer used.\<close>

definition growLine :: "bool \<Rightarrow> (nat \<Rightarrow> bool) \<Rightarrow> lbuf \<Rightarrow> lbuf outcome" where
  "growLine sys mal b =
     (if int (length (lbText b)) < lbLen b - 1 then Ret b
      else
        bind_out (if lbLocal b then bind_out (flush_OCL sys b) (\<lambda>b. Ret (b\<lparr>lbLocal := False, lbLen := 0\<rparr>)) else Ret b)
          (\<lambda>b.
            let nlen = lbLen b * 3 div 2 + 128; ok = mal (lbAllocs b); b = b\<lparr>lbAllocs := Suc (lbAllocs b)\<rparr> in
            if ok then Ret (b\<lparr>lbLen := nlen\<rparr>)
            else bind_out (flush_OCL sys b) (\<lambda>b. Ret (b\<lparr>lbLocal := True, lbLen := 128\<rparr>))))"

text \<open>The text of \<open>sprintf\<close> ends in a NUL of its own.\<close>

definition putHeader :: "bool \<Rightarrow> (nat \<Rightarrow> string) \<Rightarrow> lbuf \<Rightarrow> lbuf outcome" where
  "putHeader sys hdr b =
     (if lbText b = [] \<and> \<not> sys then
        (if int (length (hdr (lbHeads b))) < lbLen b
         then Ret (b\<lparr>lbText := hdr (lbHeads b), lbHeads := Suc (lbHeads b)\<rparr>) else UB)
      else Ret b)"

definition outCh_OCL :: "bool \<Rightarrow> (nat \<Rightarrow> string) \<Rightarrow> (nat \<Rightarrow> bool) \<Rightarrow> char \<Rightarrow> lbuf \<Rightarrow> lbuf outcome" where
  "outCh_OCL sys hdr mal c b =
     (if c = NL then flush_OCL sys b
      else
        bind_out (growLine sys mal b) (\<lambda>b.
          bind_out (putHeader sys hdr b) (\<lambda>b.
            if int (length (lbText b)) < lbLen b then Ret (b\<lparr>lbText := lbText b @ [c]\<rparr>) else UB)))"

fun logChars :: "bool \<Rightarrow> (nat \<Rightarrow> string) \<Rightarrow> (nat \<Rightarrow> bool) \<Rightarrow> string \<Rightarrow> lbuf \<Rightarrow> lbuf outcome" where
  "logChars sys hdr mal [] b = Ret b"
| "logChars sys hdr mal (c # cs) b = bind_out (outCh_OCL sys hdr mal c b) (logChars sys hdr mal cs)"

definition logger :: "bool \<Rightarrow> (nat \<Rightarrow> string) \<Rightarrow> (nat \<Rightarrow> bool) \<Rightarrow> string \<Rightarrow> string list outcome" where
  "logger sys hdr mal s = bind_out (logChars sys hdr mal s lbuf0) (\<lambda>b. Ret (lbOut b))"

section \<open>Formatted strings\<close>

record abuf =
  abText :: string
  abLen :: int
  abTotal :: int
  abAllocs :: nat

definition outCh_OCA :: "(nat \<Rightarrow> bool) \<Rightarrow> char \<Rightarrow> abuf \<Rightarrow> abuf" where
  "outCh_OCA mal c b =
     (let b = b\<lparr>abTotal := abTotal b + 1\<rparr> in
      if int (length (abText b)) < abLen b then b\<lparr>abText := abText b @ [c]\<rparr>
      else if abLen b < 0 then b
      else
        let nlen = abLen b * 3 div 2 + 100; ok = mal (abAllocs b); b = b\<lparr>abAllocs := Suc (abAllocs b)\<rparr> in
        if ok then b\<lparr>abLen := nlen, abText := abText b @ [c]\<rparr> else b\<lparr>abLen := -1, abText := []\<rparr>)"

text \<open>The string returned, as the bytes of its block or a null pointer, and the length. Shrinking a null pointer to no bytes gives a block without bytes.\<close>

definition VASPrintf :: "(nat \<Rightarrow> bool) \<Rightarrow> string \<Rightarrow> string option \<times> int" where
  "VASPrintf mal s =
     (let b = fold (outCh_OCA mal) (s @ [NUL]) \<lparr>abText = [], abLen = 0, abTotal = -1, abAllocs = 0\<rparr>
      in (if mal (abAllocs b) then Some (abText b) else if abLen b < 0 then None else Some (abText b), abTotal b))"

section \<open>The log never leaves its buffer\<close>

definition lbFits :: "lbuf \<Rightarrow> bool" where
  "lbFits b \<longleftrightarrow> lbText b = [] \<and> lbLen b = 0 \<and> \<not> lbLocal b \<or> 128 \<le> lbLen b \<and> int (length (lbText b)) < lbLen b"

definition shortHeads :: "(nat \<Rightarrow> string) \<Rightarrow> bool" where
  "shortHeads hdr \<longleftrightarrow> (\<forall>k. length (hdr k) \<le> 126)"

lemma flush_fits: "lbFits b \<Longrightarrow> flush_OCL sys b = Ret (b\<lparr>lbOut := lbOut b @ (if lbText b = [] then [] else [lbText b]), lbText := []\<rparr>)"
  by (auto simp: flush_OCL_def lbFits_def)

lemma growLine_fits:
  "lbFits b \<Longrightarrow> \<exists>b'. growLine sys mal b = Ret b' \<and> 128 \<le> lbLen b' \<and> int (length (lbText b')) < lbLen b' - 1"
  by (auto simp: growLine_def Let_def flush_fits lbFits_def flush_OCL_def)

lemma outCh_fits:
  assumes "shortHeads hdr" "lbFits b"
  shows "\<exists>b'. outCh_OCL sys hdr mal c b = Ret b' \<and> lbFits b'"
proof (cases "c = NL")
  case True
  with assms show ?thesis by (auto simp: outCh_OCL_def flush_fits) (auto simp: lbFits_def)
next
  case False
  obtain b1 where g: "growLine sys mal b = Ret b1" and b1: "128 \<le> lbLen b1" "int (length (lbText b1)) < lbLen b1 - 1"
    using growLine_fits [OF assms(2)] by blast
  have "length (hdr (lbHeads b1)) \<le> 126" using assms(1) by (simp add: shortHeads_def)
  with False g b1 show ?thesis by (auto simp: outCh_OCL_def putHeader_def lbFits_def)
qed

lemma logChars_fits:
  "shortHeads hdr \<Longrightarrow> lbFits b \<Longrightarrow> \<exists>b'. logChars sys hdr mal s b = Ret b' \<and> lbFits b'"
proof (induction s arbitrary: b)
  case (Cons c s)
  then obtain b1 where "outCh_OCL sys hdr mal c b = Ret b1" "lbFits b1" using outCh_fits by blast
  with Cons show ?case by simp
qed simp

text \<open>The lines a text holds: what stands before a line end and is not empty.\<close>

fun textLines :: "string \<Rightarrow> string \<Rightarrow> string list" where
  "textLines cur [] = []"
| "textLines cur (c # s) =
     (if c = NL then (if cur = [] then [] else [cur]) @ textLines [] s else textLines (cur @ [c]) s)"

definition headed :: "bool \<Rightarrow> (nat \<Rightarrow> string) \<Rightarrow> nat \<Rightarrow> string list \<Rightarrow> string list" where
  "headed sys hdr k ls = map (\<lambda>(i, l). (if sys then [] else hdr i) @ l) (enumerate k ls)"

lemma headed_simps [simp]:
  "headed sys hdr k [] = []"
  "headed sys hdr k (l # ls) = ((if sys then [] else hdr k) @ l) # headed sys hdr (Suc k) ls"
  by (simp_all add: headed_def)

definition lineState :: "bool \<Rightarrow> (nat \<Rightarrow> string) \<Rightarrow> nat \<Rightarrow> string \<Rightarrow> lbuf \<Rightarrow> bool" where
  "lineState sys hdr k cur b \<longleftrightarrow>
     lbFits b \<and> \<not> lbLocal b \<and> (if cur = [] then lbText b = [] else lbText b = (if sys then [] else hdr k) @ cur)
     \<and> (sys \<or> lbHeads b = (if cur = [] then k else Suc k))"

lemma growLine_room:
  assumes "\<forall>n. mal n" "lbFits b" "\<not> lbLocal b"
  shows "\<exists>b1. growLine sys mal b = Ret b1 \<and> 128 \<le> lbLen b1 \<and> int (length (lbText b1)) < lbLen b1 - 1
    \<and> lbText b1 = lbText b \<and> lbHeads b1 = lbHeads b \<and> lbOut b1 = lbOut b \<and> \<not> lbLocal b1"
  using assms by (auto simp: growLine_def Let_def lbFits_def)

lemma outCh_line:
  assumes "shortHeads hdr" "\<forall>n. mal n" "lineState sys hdr k cur b"
  shows "\<exists>b'. outCh_OCL sys hdr mal c b = Ret b' \<and>
     (if c = NL then lineState sys hdr (if cur = [] then k else Suc k) [] b' \<and>
        lbOut b' = lbOut b @ headed sys hdr k (if cur = [] then [] else [cur])
      else lineState sys hdr k (cur @ [c]) b' \<and> lbOut b' = lbOut b)"
proof (cases "c = NL")
  case True
  with assms(3) show ?thesis
    by (auto simp: lineState_def outCh_OCL_def flush_fits) (auto simp: lbFits_def)
next
  case False
  have h: "int (length (hdr j)) \<le> 126" for j using assms(1) by (simp add: shortHeads_def)
  obtain b1 where g: "growLine sys mal b = Ret b1" and b1: "128 \<le> lbLen b1" "int (length (lbText b1)) < lbLen b1 - 1"
      "lbText b1 = lbText b" "lbHeads b1 = lbHeads b" "lbOut b1 = lbOut b" "\<not> lbLocal b1"
    using growLine_room [OF assms(2), of b sys] assms(3) by (auto simp: lineState_def)
  from False g b1 h [of "lbHeads b"] assms(3) show ?thesis
    by (cases "cur = []") (auto simp: outCh_OCL_def putHeader_def lineState_def lbFits_def)
qed

lemma logChars_lines:
  assumes "shortHeads hdr" "\<forall>n. mal n"
  shows "lineState sys hdr k cur b \<Longrightarrow>
     \<exists>b'. logChars sys hdr mal s b = Ret b' \<and> lbOut b' = lbOut b @ headed sys hdr k (textLines cur s)"
proof (induction s arbitrary: k cur b)
  case (Cons c s)
  obtain b1 where o1: "outCh_OCL sys hdr mal c b = Ret b1" and
    r: "if c = NL then lineState sys hdr (if cur = [] then k else Suc k) [] b1 \<and>
        lbOut b1 = lbOut b @ headed sys hdr k (if cur = [] then [] else [cur])
      else lineState sys hdr k (cur @ [c]) b1 \<and> lbOut b1 = lbOut b"
    using outCh_line [OF assms Cons.prems] by blast
  show ?case
  proof (cases "c = NL")
    case True
    with r have "lineState sys hdr (if cur = [] then k else Suc k) [] b1" by simp
    from Cons.IH [OF this] o1 r True show ?thesis by auto
  next
    case False
    with r have "lineState sys hdr k (cur @ [c]) b1" by simp
    from Cons.IH [OF this] o1 r False show ?thesis by auto
  qed
qed simp

text \<open>C37. No allocation failure makes the log write outside its buffers, as long as time, program name and process id leave room for a character in the small one; and while memory lasts every line that is not empty comes out once, in order, with one header, and the rest of a text behind its last line end does not come out.\<close>

theorem logger_lines:
  assumes "\<forall>k. length (hdr k) \<le> 126"
  shows "(case logger sys hdr mal s of UB \<Rightarrow> False | Ret ls \<Rightarrow> (\<exists>n. \<not> mal n) \<or> ls = headed sys hdr 0 (textLines [] s))"
proof -
  have h: "shortHeads hdr" using assms by (simp add: shortHeads_def)
  obtain b where b: "logChars sys hdr mal s lbuf0 = Ret b"
    using logChars_fits [OF h, of lbuf0 sys mal s] by (auto simp: lbFits_def lbuf0_def)
  have "lbOut b = headed sys hdr 0 (textLines [] s)" if "\<forall>n. mal n"
    using logChars_lines [OF h that, of sys 0 "[]" lbuf0 s] b by (simp add: lineState_def lbFits_def lbuf0_def)
  with b show ?thesis by (auto simp: logger_def)
qed

theorem logger_lines_witness:
  "logger False (\<lambda>_. ''kdm[7]: '') (\<lambda>_. True) (''up'' @ [NL, NL] @ ''down'' @ [NL] @ ''lost'') = Ret [''kdm[7]: up'', ''kdm[7]: down'']"
proof -
  have "(case logger False (\<lambda>_. ''kdm[7]: '') (\<lambda>_. True) (''up'' @ [NL, NL] @ ''down'' @ [NL] @ ''lost'') of UB \<Rightarrow> False
     | Ret ls \<Rightarrow> (\<exists>n :: nat. \<not> True) \<or> ls = headed False (\<lambda>_. ''kdm[7]: '') 0 (textLines [] (''up'' @ [NL, NL] @ ''down'' @ [NL] @ ''lost'')))"
    by (rule logger_lines [where hdr = "\<lambda>_. ''kdm[7]: ''" and sys = False and mal = "\<lambda>_. True"]) simp
  then show ?thesis by (auto split: outcome.splits)
qed

section \<open>The string is whole or absent\<close>

lemma fold_OCA_broken:
  "abLen b < 0 \<Longrightarrow> abText b = [] \<Longrightarrow> fold (outCh_OCA mal) s b = b\<lparr>abTotal := abTotal b + int (length s)\<rparr>"
  by (induction s arbitrary: b) (simp_all add: outCh_OCA_def Let_def)

lemma fold_OCA:
  "0 \<le> abLen b \<Longrightarrow>
   (let b' = fold (outCh_OCA mal) s b in abTotal b' = abTotal b + int (length s)
     \<and> (if abLen b' < 0 then abText b' = [] \<and> (\<exists>n. \<not> mal n) else abText b' = abText b @ s))"
proof (induction s arbitrary: b)
  case (Cons c s)
  show ?case
  proof (cases "0 \<le> abLen (outCh_OCA mal c b)")
    case True
    from Cons.IH [OF True] True Cons.prems show ?thesis
      by (auto simp: outCh_OCA_def Let_def split: if_splits)
  next
    case False
    then have "abText (outCh_OCA mal c b) = []" "\<exists>n. \<not> mal n" "abTotal (outCh_OCA mal c b) = abTotal b + 1"
      using Cons.prems by (auto simp: outCh_OCA_def Let_def split: if_splits)
    with False show ?thesis by (simp add: fold_OCA_broken)
  qed
qed simp

lemma VASPrintf_whole: "(\<And>n. mal n) \<Longrightarrow> VASPrintf mal s = (Some (s @ [NUL]), int (length s))"
  using fold_OCA [of "\<lparr>abText = [], abLen = 0, abTotal = -1, abAllocs = 0\<rparr>" mal "s @ [NUL]"]
  by (auto simp: VASPrintf_def Let_def split: if_splits)

text \<open>\<open>VASPrintf\<close> always reports the length of the whole text. The block it returns holds the whole text with its NUL, unless an allocation failed: then it is null, or a block without bytes, so without the NUL a reader of the string waits for.\<close>

theorem VASPrintf_result:
  "snd (VASPrintf mal s) = int (length s) \<and>
   (fst (VASPrintf mal s) = Some (s @ [NUL]) \<or> (fst (VASPrintf mal s) \<in> {None, Some []} \<and> (\<exists>n. \<not> mal n)))"
  using fold_OCA [of "\<lparr>abText = [], abLen = 0, abTotal = -1, abAllocs = 0\<rparr>" mal "s @ [NUL]"]
  by (auto simp: VASPrintf_def Let_def split: if_splits)

end
