(* ===== verification/Ctrl.thy ===== *)
theory Ctrl
  imports DmLoop BootMan Printf Logger
begin

text \<open>
  The command sockets, \<^verbatim>\<open>kdm/backend/ctrl.c\<close>: a command line from a client, global or of one
  display, and the answer. What is written to the connection comes with the state; \<open>None\<close> is the
  use of a NULL pointer or a write or read outside a buffer. The clocks, the console driver, the
  outcome of a reconfiguration and the allocations are parameters.
\<close>

text \<open>
  Allocations: 0 words, 1 \<open>unQuote\<close>, 2 to 4 \<open>setNLogin\<close>, 5 class, 6 to 9
  \<open>setDynamicDisplayAuthorization\<close>, 10 on \<open>newDisplay\<close>; \<open>cFmt k\<close> is the one that fails, if any, among those of the two strings formatted for an answer.
\<close>

record cenv =
  cFifoShutdown :: bool
  cFifoNuke :: bool
  cBoot :: bootEnv
  cTime :: int
  cMonotonic :: bool
  cVTok :: "int \<Rightarrow> bool"
  cConf :: "dmConf option"
  cConfMok :: "nat \<Rightarrow> nat \<Rightarrow> bool"
  cMok :: "nat \<Rightarrow> bool"
  cFmt :: "nat \<Rightarrow> nat option"
  cJunk :: int

type_synonym answer = "(string \<times> dm) option"

section \<open>Words\<close>

text \<open>The loop over the command: a tab ends a word, the end of the command the last one. Words are C strings.\<close>

fun splitTabs :: "string \<Rightarrow> string \<Rightarrow> string list" where
  "splitTabs w [] = [takeWhile (\<lambda>c. c \<noteq> NUL) w]"
| "splitTabs w (c # s) =
     (if c = TAB then takeWhile (\<lambda>c. c \<noteq> NUL) w # splitTabs [] s else splitTabs (w @ [c]) s)"

definition argN :: "string list \<Rightarrow> nat \<Rightarrow> string option" where
  "argN ar i = (if i < length ar then Some (ar ! i) else None)"

fun unQuote :: "string \<Rightarrow> string" where
  "unQuote [] = []"
| "unQuote (c # s) =
     (if c \<noteq> BSL then c # unQuote s
      else (case s of
          [] \<Rightarrow> [BSL]
        | e # r \<Rightarrow>
            if e = BSL then BSL # unQuote r
            else if e = CHR ''n'' then NL # unQuote r
            else if e = CHR ''t'' then TAB # unQuote r
            else BSL # e # unQuote r))"

text \<open>Assignments to an \<^verbatim>\<open>int\<close>.\<close>

definition toInt :: "int \<Rightarrow> int" where
  "toInt i = signed_take_bit 31 i"

text \<open>\<open>strtol (.., 10)\<close>: the value, and whether there were digits up to the end of the string.\<close>

definition strtol :: "string \<Rightarrow> int \<times> bool" where
  "strtol s =
     (let s = dropWhile isspace s;
          neg = (peek s = CHR ''-'');
          t = (if neg \<or> peek s = CHR ''+'' then tl s else s);
          ds = takeWhile (\<lambda>c. DmStop.digitOf c \<noteq> None) t;
          v = int (digits DmStop.digitOf 10 0 ds);
          v = (if neg then max (- (2 ^ 63)) (- v) else min (2 ^ 63 - 1) v)
      in (v, ds \<noteq> [] \<and> length ds = length t))"

section \<open>Answers\<close>

text \<open>
  \<open>fLog\<close>: two strings are formatted; nothing is written when the first one is null or the second
  one is; reading the first one or writing the second one past its block is \<open>None\<close>.
\<close>

definition fLog :: "cenv \<Rightarrow> string \<Rightarrow> string \<Rightarrow> string option" where
  "fLog E sts msg =
     (case VASPrintf (\<lambda>n. cFmt E 0 \<noteq> Some n) msg of
        (None, _) \<Rightarrow> Some []
      | (Some b, _) \<Rightarrow>
          if NUL \<notin> set b then None
          else
            (case VASPrintf (\<lambda>n. cFmt E 1 \<noteq> Some n) (sts @ [TAB]
                @ fmtstr (Some (takeWhile (\<lambda>c. c \<noteq> NUL) b)) (noFlags\<lparr>fBacksl := True\<rparr>) 0 (-1) @ [NL]) of
               (None, _) \<Rightarrow> Some []
             | (Some t, n) \<Rightarrow> if int (length t) < n then None else Some (take (nat n) t)))"

definition refuse :: "cenv \<Rightarrow> string \<Rightarrow> string \<Rightarrow> dm \<Rightarrow> answer" where
  "refuse E sts msg s = map_option (\<lambda>t. (t, s)) (fLog E sts msg)"

definition miss :: "cenv \<Rightarrow> dm \<Rightarrow> answer" where
  "miss E = refuse E ''bad'' ''missing argument(s)''"

definition exce :: "cenv \<Rightarrow> dm \<Rightarrow> answer" where
  "exce E = refuse E ''bad'' ''excess argument(s)''"

definition oom :: "cenv \<Rightarrow> dm \<Rightarrow> answer" where
  "oom E = refuse E ''nomem'' ''out of memory''"

definition okNL :: "dm \<Rightarrow> answer" where
  "okNL s = Some (''ok'' @ [NL], s)"

definition dquoted :: "string \<Rightarrow> string" where
  "dquoted w = fmtstr (Some w) (noFlags\<lparr>fDquote := True\<rparr>) 0 (-1)"

section \<open>Capabilities and lists\<close>

definition tabbed :: "string list \<Rightarrow> string" where
  "tabbed ws = concat (map (\<lambda>w. w @ [TAB]) ws)"

definition reserveCap :: "dm \<Rightarrow> string list" where
  "reserveCap s = (if anyReserveDisplays s then [''reserve '' @ showInt (int (idleReserveDisplays s))] else [])"

definition ctrlCaps :: "cenv \<Rightarrow> display option \<Rightarrow> dm \<Rightarrow> string" where
  "ctrlCaps E dd s =
     tabbed ([''ok'', ''kdm'', ''list''] @ (if bManager (cBoot E) \<noteq> BO_NONE then [''bootoptions''] else []))
     @ (case dd of
          Some d \<Rightarrow>
            tabbed ((if isLocal d then [''local'', ''activate''] else [])
              @ (if allowShutdown (conf d) = SHUT_NONE then []
                 else [if allowShutdown (conf d) = SHUT_ROOT \<and> userSess d \<noteq> 0 then ''shutdown root'' else ''shutdown'',
                       ''shutdown ask'']
                   @ (if allowNuke (conf d) = SHUT_NONE then []
                      else [if allowNuke (conf d) = SHUT_ROOT \<and> userSess d \<noteq> 0 then ''nuke root'' else ''nuke'']))
              @ (if isLocal d then reserveCap s else []))
            @ ''lock'' @ [TAB] @ ''suicide'' @ [NL]
        | None \<Rightarrow>
            tabbed ((if cFifoShutdown E then ''shutdown'' # (if cFifoNuke E then [''nuke''] else []) else [])
              @ reserveCap s @ [''activate'', ''resume'', ''manage''])
            @ ''login'' @ [NL])"

text \<open>One session; a remote session without a host is a NULL pointer.\<close>

definition emitXSessC :: "cenv \<Rightarrow> display option \<Rightarrow> display \<Rightarrow> string option" where
  "emitXSessC E dd di =
     (let part = (\<lambda>n v. case v of None \<Rightarrow> [] | Some t \<Rightarrow> take n t) in
      if status di = remoteLogin \<and> remoteHost di = None then None
      else Some ([TAB] @ take 512 (displayName di) @ '',''
        @ (if serverVT di \<noteq> 0 then ''vt'' @ showInt (serverVT di) else []) @ '',''
        @ (if status di = remoteLogin then '','' @ part 341 (remoteHost di)
           else part 204 (userName di) @ '','' @ part 204 (sessName di))
        @ '','' @ (case dd of Some d \<Rightarrow> if daddr di = daddr d then ''*'' else [] | None \<Rightarrow> [])
        @ (if 0 \<le> userSess di \<and>
             (case dd of
                Some d \<Rightarrow> userSess d \<noteq> userSess di \<and>
                  (allowNuke (conf d) = SHUT_NONE \<or> allowNuke (conf d) = SHUT_ROOT \<and> userSess d \<noteq> 0)
              | None \<Rightarrow> \<not> cFifoNuke E) then ''!'' else [])))"

definition emitTTYSessC :: "cenv \<Rightarrow> display option \<Rightarrow> dm \<Rightarrow> utmpEntry \<Rightarrow> string" where
  "emitTTYSessC E dd s ut =
     (let user = (if utIsUser ut then take 32 (utUser ut) else []); vt = TTYtoVT (utLine ut) in
      [TAB] @ take 32 (utLine ut) @ '',''
      @ (if utHost ut \<noteq> [] then ''@'' @ take 256 (utHost ut) else if vt \<noteq> 0 then ''vt'' @ showInt vt else [])
      @ '','' @ user @ '',,t''
      @ (if user \<noteq> [] \<and>
           (case dd of
              Some d \<Rightarrow>
                (allowNuke (conf d) = SHUT_NONE \<or> allowNuke (conf d) = SHUT_ROOT \<and> userSess d \<noteq> 0)
                \<and> (case passwd s user of None \<Rightarrow> True | Some u \<Rightarrow> userSess d \<noteq> u)
            | None \<Rightarrow> \<not> cFifoNuke E) then ''!'' else []))"

fun allSome :: "'a option list \<Rightarrow> 'a list option" where
  "allSome [] = Some []"
| "allSome (x # xs) = do { a \<leftarrow> x; as \<leftarrow> allSome xs; Some (a # as) }"

definition listAnswer :: "cenv \<Rightarrow> display option \<Rightarrow> int \<Rightarrow> dm \<Rightarrow> answer" where
  "listAnswer E dd flags s = do {
     xs \<leftarrow> allSome (map (emitXSessC E dd) (listXSessions flags s));
     Some (''ok'' @ concat xs @ concat (map (emitTTYSessC E dd s) (listTTYSessions flags s)) @ [NL], s) }"

definition ctrlList :: "cenv \<Rightarrow> display option \<Rightarrow> string list \<Rightarrow> dm \<Rightarrow> answer" where
  "ctrlList E dd ar s =
     (case argN ar 1 of
        None \<Rightarrow> listAnswer E dd (or lstRemote lstTTY) s
      | Some w \<Rightarrow>
          if w \<noteq> ''all'' \<and> w \<noteq> ''alllocal'' then refuse E ''bad'' (''invalid list scope '' @ dquoted w) s
          else if argN ar 2 \<noteq> None then exce E s
          else listAnswer E dd (if w = ''all'' then or lstRemote (or lstPassive lstTTY) else or lstPassive lstTTY) s)"

section \<open>Reserve displays and terminals\<close>

definition notLocal :: "display option \<Rightarrow> bool" where
  "notLocal dd = (case dd of None \<Rightarrow> False | Some d \<Rightarrow> \<not> isLocal d)"

definition ctrlReserve :: "cenv \<Rightarrow> display option \<Rightarrow> string list \<Rightarrow> dm \<Rightarrow> answer" where
  "ctrlReserve E dd ar s =
     (if argN ar 2 \<noteq> None then exce E s
      else if notLocal dd then refuse E ''perm'' ''display is not local'' s
      else
        case startReserveDisplay s of
          (False, s) \<Rightarrow> refuse E ''noent'' ''no reserve display available'' s
        | (True, s) \<Rightarrow> okNL s)"

definition switchVT :: "cenv \<Rightarrow> int \<Rightarrow> dm \<Rightarrow> answer" where
  "switchVT E vt s =
     (if consoleOk s \<and> cVTok E vt then okNL (activateVT vt s)
      else refuse E ''inval'' ''VT switch failed'' (activateVT vt s))"

definition ctrlActivate :: "cenv \<Rightarrow> display option \<Rightarrow> string list \<Rightarrow> dm \<Rightarrow> answer" where
  "ctrlActivate E dd ar s =
     (case argN ar 1 of
        None \<Rightarrow> miss E s
      | Some w \<Rightarrow>
          if argN ar 2 \<noteq> None then exce E s
          else if notLocal dd then refuse E ''perm'' ''display is not local'' s
          else if prefix ''vt'' w \<and> 0 < toInt (fst (strtol (drop 2 w))) then switchVT E (toInt (fst (strtol (drop 2 w)))) s
          else
            (case findDisplayByName w s of
               None \<Rightarrow> refuse E ''noent'' ''display not found'' s
             | Some a \<Rightarrow> do {
                 di \<leftarrow> deref s a;
                 if \<not> isLocal di then refuse E ''inval'' ''target display is not local'' s
                 else if serverVT di = 0 then refuse E ''noent'' ''target display has no VT assigned'' s
                 else switchVT E (serverVT di) s }))"

section \<open>Shutdown\<close>

text \<open>A time of the shutdown record as the client reads it, in wall-clock time.\<close>

definition wallTime :: "cenv \<Rightarrow> dm \<Rightarrow> int \<Rightarrow> int" where
  "wallTime E s t =
     (if t = 0 then 0 else toInt (t + (if cMonotonic E then toInt (cTime E - now s) else 0)))"

definition sdCat :: "cenv \<Rightarrow> dm \<Rightarrow> sdrec \<Rightarrow> string" where
  "sdCat E s r =
     (if how r = SHUT_HALT then ''halt,'' else ''reboot,'')
     @ (if start r = TO_INF then ''0,'' else showInt (wallTime E s (start r)) @ '','')
     @ (if timeout r = TO_INF then ''-1,'' else showInt (wallTime E s (timeout r)) @ '','')
     @ (if force r = SHUT_ASK then ''ask'' else if force r = SHUT_FORCE then ''force''
        else if force r = SHUT_FORCEMY then ''forcemy'' else ''cancel'')
     @ '','' @ showInt (sdUid r) @ '','' @ (case osname r of Some n \<Rightarrow> n | None \<Rightarrow> ''-'')"

text \<open>The text is put together in a buffer of 1024 bytes.\<close>

definition sdStatus :: "cenv \<Rightarrow> display option \<Rightarrow> dm \<Rightarrow> answer" where
  "sdStatus E dd s =
     (let t = ''ok'' @ (if how (sdRec s) \<noteq> 0 then TAB # ''global,'' @ sdCat E s (sdRec s) else [])
        @ (case dd of
             Some d \<Rightarrow> if how (dSdRec d) \<noteq> 0 then TAB # ''local,'' @ sdCat E s (dSdRec d) else []
           | None \<Rightarrow> []) @ [NL]
      in if length t \<le> 1024 then Some (t, s) else None)"

text \<open>What the words ask for: a record, or an answer that refuses them.\<close>

datatype sdParse = SdOk sdrec | SdErr string string | SdNone

definition sdMiss :: sdParse where "sdMiss = SdErr ''bad'' ''missing argument(s)''"
definition sdExce :: sdParse where "sdExce = SdErr ''bad'' ''excess argument(s)''"

definition monoTime :: "cenv \<Rightarrow> dm \<Rightarrow> int \<Rightarrow> int" where
  "monoTime E s t = (if cMonotonic E \<and> t \<noteq> 0 then toInt (toInt (t - cTime E) + now s) else t)"

definition sdDone :: "string list \<Rightarrow> sdrec \<Rightarrow> sdParse" where
  "sdDone rest r = (if rest = [] then SdOk r else sdExce)"

definition parseAction :: "bool \<Rightarrow> string list \<Rightarrow> sdrec \<Rightarrow> sdParse" where
  "parseAction isD ap r =
     (case ap of
        [] \<Rightarrow> sdMiss
      | w # rest \<Rightarrow>
          if w = ''force'' then sdDone rest (r\<lparr>force := SHUT_FORCE\<rparr>)
          else if isD \<and> w = ''forcemy'' then sdDone rest (r\<lparr>force := SHUT_FORCEMY\<rparr>)
          else if w = ''cancel'' then sdDone rest r
          else SdErr ''bad'' (''invalid timeout action '' @ dquoted w))"

text \<open>The timeout; the word quoted in the complaint is the third one of the line.\<close>

definition parseTimeout :: "cenv \<Rightarrow> bool \<Rightarrow> string \<Rightarrow> dm \<Rightarrow> string list \<Rightarrow> sdrec \<Rightarrow> sdParse" where
  "parseTimeout E isD third s ap r =
     (case ap of
        [] \<Rightarrow> sdMiss
      | w # rest \<Rightarrow>
          (case strtol w of (v, whole) \<Rightarrow>
             if \<not> whole then SdErr ''bad'' (''invalid timeout '' @ dquoted third)
             else
               let t = toInt v in
               if t < 0 then sdDone rest (r\<lparr>timeout := TO_INF\<rparr>)
               else parseAction isD rest (r\<lparr>timeout :=
                 (if peek w = CHR ''+'' then toInt (t + (if start r \<noteq> 0 then start r else now s)) else monoTime E s t)\<rparr>)))"

definition parseWhen :: "cenv \<Rightarrow> bool \<Rightarrow> string \<Rightarrow> dm \<Rightarrow> string list \<Rightarrow> sdrec \<Rightarrow> sdParse" where
  "parseWhen E isD third s ap r =
     (case ap of
        [] \<Rightarrow> sdMiss
      | w # rest \<Rightarrow>
          (case strtol w of (v, whole) \<Rightarrow>
             let t = toInt v in
             if whole then
               parseTimeout E isD third s rest
                 (r\<lparr>start := (if peek w = CHR ''+'' then toInt (t + now s) else monoTime E s t)\<rparr>)
             else
               let r = r\<lparr>start := t, timeout := 0\<rparr> in
               if isD \<and> w = ''ask'' then sdDone rest (r\<lparr>force := SHUT_ASK\<rparr>)
               else if w = ''forcenow'' then sdDone rest (r\<lparr>force := SHUT_FORCE\<rparr>)
               else if w = ''schedule'' then sdDone rest (r\<lparr>timeout := TO_INF\<rparr>)
               else if w = ''trynow'' then sdDone rest r
               else SdErr ''bad'' (''invalid mode '' @ dquoted w)))"

definition parseOption :: "cenv \<Rightarrow> bool \<Rightarrow> string \<Rightarrow> dm \<Rightarrow> string list \<Rightarrow> sdrec \<Rightarrow> sdParse" where
  "parseOption E isD third s ap r =
     (case ap of
        [] \<Rightarrow> sdMiss
      | w # rest \<Rightarrow>
          if peek w = CHR ''='' then
            (case setBootOption (cBoot E) (Some (tl w)) \<lparr>bsName = None, bsIndex = cJunk E, bsStamp = cJunk E\<rparr> of
               None \<Rightarrow> SdNone
             | Some (BO_NOMAN, b) \<Rightarrow> SdErr ''notsup'' ''boot options unavailable''
             | Some (BO_NOENT, b) \<Rightarrow> SdErr ''noent'' ''no such boot option''
             | Some (BO_IO, b) \<Rightarrow> SdErr ''io'' ''io error''
             | Some (BO_OK, b) \<Rightarrow> parseWhen E isD third s rest (r\<lparr>osname := bsName b\<rparr>))
          else parseWhen E isD third s ap r)"

text \<open>Everything after the word \<^verbatim>\<open>shutdown\<close> but \<^verbatim>\<open>status\<close>. Fields a cancellation does not set keep what was there.\<close>

definition parseShutdown :: "cenv \<Rightarrow> bool \<Rightarrow> string \<Rightarrow> dm \<Rightarrow> string list \<Rightarrow> sdParse" where
  "parseShutdown E isD third s ap =
     (let r = \<lparr>how = 0, force = SHUT_CANCEL, sdUid = -1, start = 0, timeout = cJunk E, osname = None\<rparr> in
      case ap of
        [] \<Rightarrow> sdMiss
      | w # rest \<Rightarrow>
          if w = ''cancel'' then
            (case rest of
               [] \<Rightarrow> SdOk r
             | v # vs \<Rightarrow>
                 if \<not> isD then sdExce
                 else if v = ''global'' then sdDone vs (r\<lparr>start := TO_INF\<rparr>)
                 else if v \<noteq> ''local'' then SdErr ''bad'' (''invalid cancel scope '' @ dquoted v)
                 else sdDone vs r)
          else if w = ''reboot'' then parseOption E isD third s rest (r\<lparr>how := SHUT_REBOOT\<rparr>)
          else if w = ''halt'' then parseOption E isD third s rest (r\<lparr>how := SHUT_HALT\<rparr>)
          else SdErr ''bad'' (''invalid type '' @ dquoted w))"

definition forcedByOther :: "shutPolicy \<Rightarrow> int \<Rightarrow> sdrec \<Rightarrow> bool" where
  "forcedByOther nuke uid g \<longleftrightarrow>
     how g \<noteq> 0 \<and> force g = SHUT_FORCE
     \<and> (nuke = SHUT_NONE \<and> sdUid g \<noteq> uid \<or> nuke = SHUT_ROOT \<and> uid \<noteq> 0)"

definition doCancel :: "cenv \<Rightarrow> dm \<Rightarrow> dm" where
  "doCancel E s = cancelShutdown (cConfMok E) (cConf E) s"

text \<open>A request on the socket of a display.\<close>

definition displayShutdown :: "cenv \<Rightarrow> display \<Rightarrow> sdrec \<Rightarrow> dm \<Rightarrow> answer" where
  "displayShutdown E d r s =
     (let uid = (if 0 \<le> userSess d then userSess d else 0); r = r\<lparr>sdUid := uid\<rparr>;
          nuke = allowNuke (conf d); put = (\<lambda>s. setD (daddr d) (\<lambda>d. d\<lparr>dSdRec := r\<rparr>) s) in
      if allowShutdown (conf d) = SHUT_NONE \<or> allowShutdown (conf d) = SHUT_ROOT \<and> uid \<noteq> 0 \<and> force r \<noteq> SHUT_ASK
      then refuse E ''perm'' ''shutdown forbidden'' s
      else if how r = 0 \<and> start r = 0 then okNL (put s)
      else if forcedByOther nuke uid (sdRec s) then refuse E ''perm'' ''overriding forced shutdown forbidden'' s
      else if force r = SHUT_FORCE \<and> (nuke = SHUT_NONE \<or> nuke = SHUT_ROOT \<and> uid \<noteq> 0)
      then refuse E ''perm'' ''forced shutdown forbidden'' s
      else if start r = 0 then okNL (put s)
      else if how r = 0 then okNL (doCancel E s)
      else okNL (s\<lparr>sdRec := r\<rparr>))"

definition globalShutdown :: "cenv \<Rightarrow> sdrec \<Rightarrow> dm \<Rightarrow> answer" where
  "globalShutdown E r s =
     (if \<not> cFifoShutdown E then refuse E ''perm'' ''shutdown forbidden'' s
      else if how (sdRec s) \<noteq> 0 \<and> force (sdRec s) = SHUT_FORCE \<and> sdUid (sdRec s) \<noteq> -1 \<and> \<not> cFifoNuke E
      then refuse E ''perm'' ''overriding forced shutdown forbidden'' s
      else if how r = 0 then okNL (doCancel E s)
      else if force r \<noteq> SHUT_CANCEL \<and> \<not> cFifoNuke E then refuse E ''perm'' ''forced shutdown forbidden'' s
      else if force r = SHUT_CANCEL \<and> start r = 0 \<and> timeout r = 0 \<and> anyUserLogins (-1) s
      then refuse E ''busy'' ''user sessions running'' s
      else okNL (s\<lparr>sdRec := r\<lparr>sdUid := -1\<rparr>\<rparr>))"

definition ctrlShutdown :: "cenv \<Rightarrow> display option \<Rightarrow> string list \<Rightarrow> dm \<Rightarrow> answer" where
  "ctrlShutdown E dd ar s =
     (if argN ar 1 = Some ''status'' then (if argN ar 2 \<noteq> None then exce E s else sdStatus E dd s)
      else
        case parseShutdown E (dd \<noteq> None) (case argN ar 3 of Some w \<Rightarrow> w | None \<Rightarrow> []) s (drop 1 ar) of
          SdNone \<Rightarrow> None
        | SdErr sts msg \<Rightarrow> refuse E sts msg s
        | SdOk r \<Rightarrow> (case dd of Some d \<Rightarrow> displayShutdown E d r s | None \<Rightarrow> globalShutdown E r s))"

definition bootWord :: "nat \<Rightarrow> string \<Rightarrow> string" where
  "bootWord i w = (if i = 0 then [] else '' '') @ concat (map (\<lambda>c. if c = CHR '' '' then [BSL, CHR ''s''] else [c]) w)"

text \<open>Each option is spelt out in the buffer of 1024 bytes.\<close>

definition ctrlListBoot :: "cenv \<Rightarrow> string list \<Rightarrow> dm \<Rightarrow> answer" where
  "ctrlListBoot E ar s =
     (if argN ar 1 \<noteq> None then exce E s
      else
        case getBootOptions (cBoot E) of
          None \<Rightarrow> None
        | Some (BO_NOMAN, r) \<Rightarrow> refuse E ''notsup'' ''boot options unavailable'' s
        | Some (BO_IO, r) \<Rightarrow> refuse E ''io'' ''io error'' s
        | Some (_, opts, df, cu) \<Rightarrow>
            let ws = map (\<lambda>(i, w). bootWord i w) (enumerate 0 opts) in
            if list_ex (\<lambda>w. 1024 < length w) ws then None
            else Some (''ok'' @ [TAB] @ concat ws @ [TAB] @ showInt df @ [TAB] @ showInt cu @ [NL], s))"

section \<open>Commands on the socket of a display\<close>

definition setLock :: "bool \<Rightarrow> display \<Rightarrow> dm \<Rightarrow> dm" where
  "setLock b d s = setHist (dname d) (\<lambda>h. h\<lparr>lock := b\<rparr>) s"

text \<open>The session process is asked to end and its display will restart.\<close>

definition raiseSession :: "display \<Rightarrow> dm \<Rightarrow> dm" where
  "raiseSession d s = setD (daddr d) (\<lambda>d. d\<lparr>status := raiser\<rparr>) (terminateProcess (dpid d) SIGTERM s)"

definition ctrlDisplay :: "cenv \<Rightarrow> display \<Rightarrow> string list \<Rightarrow> dm \<Rightarrow> answer" where
  "ctrlDisplay E d ar s =
     (let cmd = argN ar 0; noArg = (argN ar 1 = None) in
      if cmd = Some ''lock'' then (if noArg then okNL (setLock True d s) else exce E s)
      else if cmd = Some ''unlock'' then (if noArg then okNL (setLock False d s) else exce E s)
      else if cmd = Some ''suicide'' then
        (if \<not> noArg then exce E s
         else okNL (if status d = running \<and> dpid d \<noteq> -1 then raiseSession d s else s))
      else refuse E ''nosys'' ''unknown command'' s)"

section \<open>Commands on the global socket\<close>

text \<open>What a login request does to the display it is for.\<close>

definition wakeForLogin :: "bool \<Rightarrow> display \<Rightarrow> dm \<Rightarrow> dm" where
  "wakeForLogin nuke di s =
     (case status di of
        running \<Rightarrow> if dpid di \<noteq> -1 \<and> (userSess di < 0 \<or> nuke) then raiseSession di s else s
      | remoteLogin \<Rightarrow> if serverPid di \<noteq> -1 \<and> nuke then terminateProcess (serverPid di) SIGTERM s else s
      | reserve \<Rightarrow> setD (daddr di) (\<lambda>d. d\<lparr>status := notRunning\<rparr>) s
      | _ \<Rightarrow> s)"

definition ctrlLogin :: "cenv \<Rightarrow> string list \<Rightarrow> dm \<Rightarrow> answer" where
  "ctrlLogin E ar s =
     (if length ar < 5 then miss E s
      else
        case findDisplayByName (ar ! 1) s of
          None \<Rightarrow> refuse E ''noent'' (''display '' @ ar ! 1 @ '' not found'') s
        | Some a \<Rightarrow> do {
            di \<leftarrow> deref s a;
            let set = (\<lambda>args. okNL (wakeForLogin (ar ! 2 = ''now'') di
              (setNLogin (cMok E 2, cMok E 3, cMok E 4) (dname di) (Some (ar ! 3)) (Some (ar ! 4)) args 2 s)));
            (case argN ar 5 of
               None \<Rightarrow> set None
             | Some q \<Rightarrow>
                 if \<not> cMok E 1 then oom E s
                 else if argN ar 6 \<noteq> None then exce E s
                 else set (Some (unQuote q))) })"

text \<open>\<open>setDynamicDisplayAuthorization\<close> of \<^verbatim>\<open>auth.c\<close>: the data in hexadecimal digits.\<close>

datatype setAuth = SetAuthOk | SetAuthOOM | SetAuthBad

definition setDynamicDisplayAuthorization :: "(nat \<Rightarrow> bool) \<Rightarrow> addr \<Rightarrow> string \<Rightarrow> dm \<Rightarrow> setAuth \<times> dm" where
  "setDynamicDisplayAuthorization mok a dat s =
     (if \<not> mok 6 then (SetAuthOOM, s)
      else if fst (hexToBinary dat) = 0 then (SetAuthBad, s)
      else if \<not> mok 7 \<or> \<not> mok 8 \<or> \<not> mok 9 then (SetAuthOOM, s)
      else (SetAuthOk, setD a (\<lambda>d. d\<lparr>authorizations := [take (length dat div 2) (snd (hexToBinary dat))]\<rparr>) s))"

definition manageAuth :: "cenv \<Rightarrow> addr \<Rightarrow> string list \<Rightarrow> dm \<Rightarrow> answer" where
  "manageAuth E a ar s =
     (if argN ar 3 = None then okNL s
      else
        case argN ar 4 of
          None \<Rightarrow> miss E s
        | Some dat \<Rightarrow>
            if argN ar 5 \<noteq> None then exce E (removeDisplay a s)
            else
              (case setDynamicDisplayAuthorization (cMok E) a dat s of
                 (SetAuthOOM, s) \<Rightarrow> oom E (removeDisplay a s)
               | (SetAuthBad, s) \<Rightarrow> refuse E ''bad'' ''invalid authorization data'' (removeDisplay a s)
               | (SetAuthOk, s) \<Rightarrow> okNL s))"

definition ctrlManage :: "cenv \<Rightarrow> string list \<Rightarrow> dm \<Rightarrow> answer" where
  "ctrlManage E ar s =
     (case argN ar 1 of
        None \<Rightarrow> miss E s
      | Some n \<Rightarrow>
          if peek n = CHR '':'' then refuse E ''bad'' ''display needs host (try localhost?)'' s
          else if findDisplayByName n s \<noteq> None then refuse E ''exists'' ''display is already being managed'' s
          else
            (case newDisplay (\<lambda>i. cMok E (10 + i)) n s of
               (None, s) \<Rightarrow> oom E s
             | (Some a, s) \<Rightarrow>
                 let s = setD a (\<lambda>d. d\<lparr>displayType := or dForeign (or dPermanent dFromCommand)\<rparr>) s in
                 (case argN ar 2 of
                    None \<Rightarrow> okNL s
                  | Some c \<Rightarrow>
                      if c \<noteq> [] \<and> \<not> cMok E 5 then oom E (removeDisplay a s)
                      else manageAuth E a ar (if c \<noteq> [] then setD a (\<lambda>d. d\<lparr>class2 := Some c\<rparr>) s else s))))"

definition ctrlUnmanage :: "cenv \<Rightarrow> string list \<Rightarrow> dm \<Rightarrow> answer" where
  "ctrlUnmanage E ar s =
     (case argN ar 1 of
        None \<Rightarrow> miss E s
      | Some n \<Rightarrow>
          if argN ar 2 \<noteq> None then exce E s
          else
            (case findDisplayByName n s of
               None \<Rightarrow> refuse E ''noent'' (''display '' @ n @ '' not found'') s
             | Some a \<Rightarrow> do {
                 di \<leftarrow> deref s a;
                 if origin di \<noteq> dFromCommand then refuse E ''perm'' ''not an on-demand display'' s
                 else do { s \<leftarrow> stopDisplay a s; okNL s } }))"

definition ctrlGlobal :: "cenv \<Rightarrow> string list \<Rightarrow> dm \<Rightarrow> answer" where
  "ctrlGlobal E ar s =
     (let cmd = argN ar 0 in
      if cmd = Some ''login'' then ctrlLogin E ar s
      else if cmd = Some ''resume'' then
        (if argN ar 1 \<noteq> None then exce E s else do { s \<leftarrow> wakeDisplays s; okNL s })
      else if cmd = Some ''manage'' then ctrlManage E ar s
      else if cmd = Some ''unmanage'' then ctrlUnmanage E ar s
      else refuse E ''nosys'' ''unknown command'' s)"

section \<open>A command\<close>

definition ctrlWords :: "cenv \<Rightarrow> display option \<Rightarrow> string list \<Rightarrow> dm \<Rightarrow> answer" where
  "ctrlWords E dd ar s =
     (let cmd = argN ar 0 in
      if cmd = Some ''caps'' then (if argN ar 1 \<noteq> None then exce E s else Some (ctrlCaps E dd s, s))
      else if cmd = Some ''list'' then ctrlList E dd ar s
      else if cmd = Some ''reserve'' then ctrlReserve E dd ar s
      else if cmd = Some ''activate'' then ctrlActivate E dd ar s
      else if cmd = Some ''shutdown'' then ctrlShutdown E dd ar s
      else if cmd = Some ''listbootoptions'' then ctrlListBoot E ar s
      else (case dd of Some d \<Rightarrow> ctrlDisplay E d ar s | None \<Rightarrow> ctrlGlobal E ar s))"

text \<open>The socket of the display at the address, or the global one.\<close>

definition processCtrl :: "cenv \<Rightarrow> addr option \<Rightarrow> string \<Rightarrow> dm \<Rightarrow> answer" where
  "processCtrl E da line s =
     (if \<not> cMok E 0 then Some ([], s)
      else
        case da of
          None \<Rightarrow> ctrlWords E None (splitTabs [] line) s
        | Some a \<Rightarrow> do { d \<leftarrow> deref s a; ctrlWords E (Some d) (splitTabs [] line) s })"

end
