(* ===== verification/CtrlSafe.thy ===== *)
theory CtrlSafe
  imports DmKeep Ctrl
begin

text \<open>
  Commands on the control sockets keep the invariant of the daemon, are always answered, and are
  refused in one line that changes nothing.
\<close>

section \<open>Answers\<close>

text \<open>Memory for the answers.\<close>

definition fmtOk :: "cenv \<Rightarrow> bool" where
  "fmtOk E \<longleftrightarrow> cFmt E 0 = None \<and> cFmt E 1 = None"

definition logLine :: "string \<Rightarrow> string \<Rightarrow> string" where
  "logLine sts msg = sts @ [TAB] @ fmtstr (Some (takeWhile (\<lambda>c. c \<noteq> NUL) msg)) (noFlags\<lparr>fBacksl := True\<rparr>) 0 (-1) @ [NL]"

lemma takeWhile_NUL [simp]: "takeWhile (\<lambda>c. c \<noteq> NUL) (s @ [NUL]) = takeWhile (\<lambda>c. c \<noteq> NUL) s"
  by (induction s) auto

lemma fLog_line:
  assumes "fmtOk E"
  shows "fLog E sts msg = Some (logLine sts msg)"
proof -
  have m: "(\<lambda>n. cFmt E 0 \<noteq> Some n) = (\<lambda>_. True)" "(\<lambda>n. cFmt E 1 \<noteq> Some n) = (\<lambda>_. True)"
    using assms by (simp_all add: fmtOk_def)
  have "fLog E sts msg = (case VASPrintf (\<lambda>_. True) (logLine sts msg) of
      (None, _) \<Rightarrow> Some [] | (Some t, n) \<Rightarrow> if int (length t) < n then None else Some (take (nat n) t))"
    by (simp add: fLog_def m VASPrintf_whole [of "\<lambda>_. True" msg] logLine_def del: append.simps One_nat_def)
  then show ?thesis by (simp add: VASPrintf_whole)
qed

lemma refuse_line: "fmtOk E \<Longrightarrow> refuse E sts msg s = Some (logLine sts msg, s)"
  by (simp add: refuse_def fLog_line)

section \<open>The invariant\<close>

definition answers :: "answer \<Rightarrow> bool" where
  "answers r \<longleftrightarrow> (\<exists>t s'. r = Some (t, s') \<and> okT s')"

lemma answers_Some [simp]: "answers (Some (t, s)) = okT s"
  by (simp add: answers_def)

lemma answers_ok [simp]: "answers (okNL s) = okT s"
  by (simp add: okNL_def)

lemma answers_refuse: "fmtOk E \<Longrightarrow> answers (refuse E sts msg s) = okT s"
  by (simp add: refuse_line)

text \<open>What the answers need: known hosts of remote sessions, names that fit the buffers, readable menus.\<close>

definition bootFits :: "bootEnv \<Rightarrow> bool" where
  "bootFits B \<longleftrightarrow>
     (case getBootOptions B of
        None \<Rightarrow> False
      | Some (r, opts, _) \<Rightarrow> list_all (\<lambda>w. length (bootWord 1 w) \<le> 1024) opts)
     \<and> (bManager B = BO_BURG \<longrightarrow> getGrub2 B \<noteq> None)"

definition hostsKnown :: "dm \<Rightarrow> bool" where
  "hostsKnown s \<longleftrightarrow> list_all (\<lambda>d. status d = remoteLogin \<longrightarrow> remoteHost d \<noteq> None) (displays s)"

definition okCtrl :: "cenv \<Rightarrow> addr option \<Rightarrow> dm \<Rightarrow> bool" where
  "okCtrl E da s \<longleftrightarrow> okConf (cConf E) \<and> fmtOk E \<and> bootFits (cBoot E) \<and> hostsKnown s
     \<and> (case da of
          None \<Rightarrow> sdStatus E None s \<noteq> None
        | Some a \<Rightarrow> a \<in> set (live s) \<and> sdStatus E (deref s a) s \<noteq> None)"

lemma okT_setHist: "okT s \<Longrightarrow> (\<And>h. hname (f h) = hname h) \<Longrightarrow> okT (setHist n f s)"
  by (rule okT_cfg [of _ s]) (simp_all add: okT_def ok_def okBut_setHist)

lemma okT_setD: "okT s \<Longrightarrow> ok (setD a f s) \<Longrightarrow> okT (setD a f s)"
  by (rule okT_cfg [of _ s]) simp_all

lemma okT_neutral:
  assumes "okT s" "\<And>d. daddr (f d) = daddr d" "\<And>d. dname (f d) = dname d"
    "\<And>d. status (f d) = status d" "\<And>d. serverStatus (f d) = serverStatus d"
    "\<And>d. dpid (f d) = dpid d" "\<And>d. serverPid (f d) = serverPid d"
  shows "okT (setD a f s)"
  by (rule okT_setD [OF assms(1)]) (rule ok_neutral, use assms in \<open>simp_all add: okT_def\<close>)

lemma okT_act [simp]: "okT (act e s) \<longleftrightarrow> okT s \<and> okKill e"
  by (auto simp: okT_def okEnv_def okXd_def) (simp_all add: act_def)

lemma okT_terminate: "okT s \<Longrightarrow> 0 < p \<Longrightarrow> okT (terminateProcess p g s)"
  by (simp add: terminateProcess_def)

text \<open>A change of the status of an idle display.\<close>

lemma okT_status:
  assumes "okT s" "deref s a = Some d" "serverStatus d = ignore" "okFor t (d\<lparr>status := t\<rparr>)"
  shows "okT (setD a (\<lambda>d. d\<lparr>status := t\<rparr>) s)"
proof (rule okT_setD [OF assms(1)])
  have w: "okW d \<and> okStat d" using assms(1,2) ok_derefD by (auto simp: okT_def)
  have "okBut None (setD a (\<lambda>d. d\<lparr>status := t\<rparr>) s)"
  proof (rule okBut_setD [OF _ _ assms(2), of None])
    show "okW (d\<lparr>status := t\<rparr>)" using w assms(3) by (auto simp: okW_def)
    show "None = None \<longrightarrow> okStat (d\<lparr>status := t\<rparr>)" using assms(3,4) by simp
  qed (use assms in \<open>auto simp: okT_def ok_def isStarting_def\<close>)
  then show "ok (setD a (\<lambda>d. d\<lparr>status := t\<rparr>) s)" by (simp add: ok_def)
qed

lemma okT_derefD: "okT s \<Longrightarrow> deref s a = Some d \<Longrightarrow> okW d \<and> okStat d"
  using ok_derefD [of s a d] by (simp add: okT_def)

lemma ignore_unless_running: "okW d \<Longrightarrow> status d \<noteq> running \<or> dpid d \<noteq> -1 \<Longrightarrow> serverStatus d = ignore"
  by (auto simp: okW_def)

lemma raiseSession_okT:
  assumes "okT s" "deref s a = Some d" "dpid d \<noteq> -1"
  shows "okT (raiseSession d s)"
proof -
  have w: "okW d" using okT_derefD [OF assms(1,2)] by simp
  then have p: "0 < dpid d" using assms(3) by (auto simp: okW_def okPid_def)
  have a: "daddr d = a" using deref_SomeD [OF assms(2)] by simp
  show ?thesis unfolding raiseSession_def a
    by (rule okT_status [of _ _ d]) (use okT_terminate [OF assms(1) p] assms ignore_unless_running [OF w] in simp_all)
qed

lemma startReserve_okT:
  assumes "okT s" "startReserveDisplay s = (b, s')"
  shows "okT s'"
proof (cases "find (\<lambda>d. status d = reserve) (rev (displays s))")
  case None
  with assms show ?thesis by (simp add: startReserveDisplay_def)
next
  case (Some d)
  then have d: "status d = reserve" "d \<in> set (displays s)" by (auto dest: find_SomeD)
  have wf: "wfList s" using assms(1) ok_wfList by (simp add: okT_def)
  have dr: "deref s (daddr d) = Some d"
  proof -
    have "find (\<lambda>x. daddr x = daddr d) ds = Some d" if "distinct (map daddr ds)" "d \<in> set ds" for ds
      using that by (induction ds) (auto simp: image_iff)
    with d wf show ?thesis by (simp add: deref_def wfList_def live_def)
  qed
  have w: "okW d \<and> okStat d" by (rule okT_derefD [OF assms(1) dr])
  have "okT (setD (daddr d) (\<lambda>d. d\<lparr>status := notRunning\<rparr>) s)"
    by (rule okT_status [OF assms(1) dr]) (use w d in \<open>auto simp: okW_def okStat_def\<close>)
  with Some assms show ?thesis by (simp add: startReserveDisplay_def)
qed

lemma wakeForLogin_okT:
  assumes "okT s" "deref s a = Some di"
  shows "okT (wakeForLogin nuke di s)"
proof -
  have w: "okW di \<and> okStat di" by (rule okT_derefD [OF assms])
  have a: "daddr di = a" using deref_SomeD [OF assms(2)] by simp
  show ?thesis
  proof (cases "status di")
    case running
    with raiseSession_okT [OF assms] assms(1) show ?thesis by (simp add: wakeForLogin_def)
  next
    case remoteLogin
    have "0 < serverPid di" if "serverPid di \<noteq> -1" using that w by (auto simp: okW_def okPid_def)
    with remoteLogin okT_terminate [OF assms(1)] assms(1) show ?thesis by (simp add: wakeForLogin_def)
  next
    case reserve
    have "okT (setD a (\<lambda>d. d\<lparr>status := notRunning\<rparr>) s)"
      by (rule okT_status [OF assms]) (use w reserve in \<open>auto simp: okW_def okStat_def\<close>)
    with reserve a show ?thesis by (simp add: wakeForLogin_def)
  qed (use assms(1) in \<open>simp_all add: wakeForLogin_def\<close>)
qed

section \<open>Every command is answered\<close>

lemma okCtrlD:
  assumes "okCtrl E da s"
  shows "fmtOk E" "bootFits (cBoot E)" "hostsKnown s" "okConf (cConf E)"
  using assms by (simp_all add: okCtrl_def)

lemma answers_errors [simp]:
  "fmtOk E \<Longrightarrow> answers (miss E s) = okT s" "fmtOk E \<Longrightarrow> answers (exce E s) = okT s" "fmtOk E \<Longrightarrow> answers (oom E s) = okT s"
  by (simp_all add: miss_def exce_def oom_def answers_refuse)

lemma allSome_list: "list_all (\<lambda>x. x \<noteq> None) xs \<Longrightarrow> \<exists>ys. allSome xs = Some ys"
  by (induction xs) auto

lemma listAnswer_ok:
  assumes "okT s" "hostsKnown s"
  shows "answers (listAnswer E dd flags s)"
proof -
  have "emitXSessC E dd di \<noteq> None" if "di \<in> set (listXSessions flags s)" for di
    using that assms(2) by (auto simp: emitXSessC_def hostsKnown_def list_all_iff listXSessions_def Let_def)
  then have "list_all (\<lambda>x. x \<noteq> None) (map (emitXSessC E dd) (listXSessions flags s))" by (simp add: list_all_iff)
  then obtain xs where "allSome (map (emitXSessC E dd) (listXSessions flags s)) = Some xs"
    using allSome_list by blast
  with assms(1) show ?thesis by (simp add: listAnswer_def)
qed

lemma ctrlList_ok: "okT s \<Longrightarrow> fmtOk E \<Longrightarrow> hostsKnown s \<Longrightarrow> answers (ctrlList E dd ar s)"
  by (simp add: ctrlList_def answers_refuse listAnswer_ok split: option.split)

lemma ctrlReserve_ok: "okT s \<Longrightarrow> fmtOk E \<Longrightarrow> answers (ctrlReserve E dd ar s)"
  using startReserve_okT [of s]
  by (cases "startReserveDisplay s") (auto simp: ctrlReserve_def answers_refuse split: bool.split)

lemma switchVT_ok: "okT s \<Longrightarrow> fmtOk E \<Longrightarrow> answers (switchVT E vt s)"
  by (simp add: switchVT_def answers_refuse activateVT_def)

lemma findDisplay_deref:
  assumes "okT s" "findDisplayByName n s = Some a"
  shows "\<exists>d. deref s a = Some d"
  using find_deref [OF ok_wfList, of s] assms unfolding findDisplayByName_def okT_def by blast

lemma ctrlActivate_ok:
  assumes "okT s" "fmtOk E"
  shows "answers (ctrlActivate E dd ar s)"
proof -
  have f: "answers (case findDisplayByName w s of
      None \<Rightarrow> refuse E ''noent'' ''display not found'' s
    | Some a \<Rightarrow> do {
        di \<leftarrow> deref s a;
        if \<not> isLocal di then refuse E ''inval'' ''target display is not local'' s
        else if serverVT di = 0 then refuse E ''noent'' ''target display has no VT assigned'' s
        else switchVT E (serverVT di) s })" for w
  proof (cases "findDisplayByName w s")
    case (Some a)
    then obtain d where "deref s a = Some d" using findDisplay_deref [OF assms(1)] by blast
    with Some switchVT_ok [OF assms] assms show ?thesis by (simp add: answers_refuse)
  qed (simp add: answers_refuse assms)
  show ?thesis
    using f switchVT_ok [OF assms] assms by (simp add: ctrlActivate_def answers_refuse split: option.split)
qed

lemma setBootOption_Some: "bootFits B \<Longrightarrow> setBootOption B opt b \<noteq> None"
proof -
  assume f: "bootFits B"
  have s: "setGrub2 B x c \<noteq> None" if g: "getGrub2 B \<noteq> None" for x c
  proof -
    obtain n where "replaceInString x SEP ''>'' = Some (n, replaceAll SEP ''>'' x)"
      using replaceInString_SEP by blast
    with g show ?thesis by (auto simp: setGrub2_def split: prod.splits)
  qed
  have l: "setLilo B x c \<noteq> None" if "getLilo B \<noteq> None" for x c
    using that by (auto simp: setLilo_def)
  have get: "getBootOptions B \<noteq> None" "bManager B = BO_BURG \<longrightarrow> getGrub2 B \<noteq> None" using f by (auto simp: bootFits_def split: option.splits)
  show ?thesis
  proof (cases opt)
    case (Some x)
    with get s l show ?thesis by (cases "bManager B") (simp_all add: setBootOption_def getBootOptions_def Let_def)
  qed (simp add: setBootOption_def)
qed

lemma sdDone_None [simp]: "sdDone rest r \<noteq> SdNone" "sdMiss \<noteq> SdNone" "sdExce \<noteq> SdNone"
  by (simp_all add: sdDone_def sdMiss_def sdExce_def)

lemma parseAction_None [simp]: "parseAction isD ap r \<noteq> SdNone"
  by (simp add: parseAction_def split: list.split)

lemma parseTimeout_None [simp]: "parseTimeout E isD third s ap r \<noteq> SdNone"
  by (simp add: parseTimeout_def Let_def split: list.split prod.split)

lemma parseWhen_None [simp]: "parseWhen E isD third s ap r \<noteq> SdNone"
  by (simp add: parseWhen_def Let_def split: list.split prod.split)

lemma parseOption_None:
  assumes "bootFits (cBoot E)"
  shows "parseOption E isD third s ap r \<noteq> SdNone"
proof (cases ap)
  case (Cons w rest)
  obtain c b where "setBootOption (cBoot E) (Some (tl w)) \<lparr>bsName = None, bsIndex = cJunk E, bsStamp = cJunk E\<rparr> = Some (c, b)"
    using setBootOption_Some [OF assms] by fastforce
  with Cons show ?thesis by (cases c) (simp_all add: parseOption_def)
qed (simp add: parseOption_def)

lemma parseShutdown_None: "bootFits (cBoot E) \<Longrightarrow> parseShutdown E isD third s ap \<noteq> SdNone"
  by (simp add: parseShutdown_def Let_def parseOption_None split: list.split)

lemma displayShutdown_ok:
  assumes "okT s" "okConf (cConf E)" "fmtOk E"
  shows "answers (displayShutdown E d r s)"
proof -
  have "okT (setD a (\<lambda>d. d\<lparr>dSdRec := x\<rparr>) s)" for a x by (rule okT_neutral [OF assms(1)]) simp_all
  moreover have "okT (doCancel E s)" using cancelShutdown_okT assms(1,2) by (simp add: doCancel_def)
  ultimately show ?thesis using assms by (simp add: displayShutdown_def Let_def answers_refuse)
qed

lemma globalShutdown_ok:
  assumes "okT s" "okConf (cConf E)" "fmtOk E"
  shows "answers (globalShutdown E r s)"
proof -
  have "okT (doCancel E s)" using cancelShutdown_okT assms(1,2) by (simp add: doCancel_def)
  with assms show ?thesis by (simp add: globalShutdown_def answers_refuse)
qed

lemma sdStatus_okT: "okT s \<Longrightarrow> sdStatus E dd s \<noteq> None \<Longrightarrow> answers (sdStatus E dd s)"
  by (simp add: sdStatus_def Let_def split: if_splits)

lemma ctrlShutdown_ok:
  assumes "okT s" "okConf (cConf E)" "fmtOk E" "bootFits (cBoot E)" "sdStatus E dd s \<noteq> None"
  shows "answers (ctrlShutdown E dd ar s)"
proof -
  define p where "p = parseShutdown E (dd \<noteq> None) (case argN ar 3 of Some w \<Rightarrow> w | None \<Rightarrow> []) s (drop 1 ar)"
  have "p \<noteq> SdNone" unfolding p_def by (rule parseShutdown_None [OF assms(4)])
  then have "answers (case p of SdNone \<Rightarrow> None | SdErr sts msg \<Rightarrow> refuse E sts msg s
        | SdOk r \<Rightarrow> (case dd of Some d \<Rightarrow> displayShutdown E d r s | None \<Rightarrow> globalShutdown E r s))"
    using assms displayShutdown_ok globalShutdown_ok by (cases p) (simp_all add: answers_refuse split: option.split)
  then show ?thesis
    unfolding ctrlShutdown_def p_def [symmetric] using assms sdStatus_okT by simp
qed

lemma length_bootWord: "length (bootWord i w) \<le> length (bootWord 1 w)"
  by (simp add: bootWord_def)

lemma ctrlListBoot_ok:
  assumes "okT s" "fmtOk E" "bootFits (cBoot E)"
  shows "answers (ctrlListBoot E ar s)"
proof -
  obtain r opts df cu where g: "getBootOptions (cBoot E) = Some (r, opts, df, cu)"
      and f: "list_all (\<lambda>w. length (bootWord 1 w) \<le> 1024) opts"
    using assms(3) by (auto simp: bootFits_def split: option.splits)
  have "length (bootWord i w) \<le> 1024" if "(i, w) \<in> set (enumerate 0 opts)" for i w
    using that f length_bootWord [of i w] by (fastforce simp: list_all_iff in_set_enumerate_eq dest: nth_mem)
  then have "\<not> list_ex (\<lambda>w. 1024 < length w) (map (\<lambda>(i, w). bootWord i w) (enumerate 0 opts))"
    by (force simp: list_ex_iff)
  then show ?thesis using assms(1,2) g by (cases r) (simp_all add: ctrlListBoot_def Let_def answers_refuse)
qed

lemma ctrlDisplay_ok:
  assumes "okT s" "deref s a = Some d" "fmtOk E"
  shows "answers (ctrlDisplay E d ar s)"
  using assms raiseSession_okT [OF assms(1,2)]
  by (simp add: ctrlDisplay_def Let_def answers_refuse setLock_def okT_setHist)

lemma ctrlLogin_ok:
  assumes "okT s" "fmtOk E"
  shows "answers (ctrlLogin E ar s)"
proof (cases "length ar < 5")
  case False
  show ?thesis
  proof (cases "findDisplayByName (ar ! 1) s")
    case None
    with False assms show ?thesis by (simp add: ctrlLogin_def answers_refuse)
  next
    case (Some a)
    then obtain di where di: "deref s a = Some di" using findDisplay_deref [OF assms(1)] by blast
    have "okT (setNLogin oks n u p g rl s)" for oks n u p g rl
      by (rule okT_cfg [OF setNLogin_ok _]) (use assms(1) in \<open>auto simp: okT_def setNLogin_def split: prod.splits\<close>)
    moreover have "deref (setNLogin oks n u p g rl s) a = Some di" for oks n u p g rl
      using di by (cases oks) (simp add: setNLogin_def setHist_def deref_def)
    ultimately have "okT (wakeForLogin b di (setNLogin oks n u p g rl s))" for b oks n u p g rl
      by (rule wakeForLogin_okT)
    with False Some di assms show ?thesis by (simp add: ctrlLogin_def Let_def split: option.split)
  qed
qed (use assms in \<open>simp add: ctrlLogin_def\<close>)

lemma okT_removeDisplay: "okT s \<Longrightarrow> startingServer s \<noteq> Some a \<Longrightarrow> okT (removeDisplay a s)"
proof (rule okT_env [of _ s])
  assume "okT s" "startingServer s \<noteq> Some a"
  then show "ok (removeDisplay a s)" by (intro removeDisplay_ok [of None]) (simp_all add: okT_def ok_def)
qed simp_all

lemma manageAuth_ok:
  assumes "okT s" "fmtOk E" "startingServer s \<noteq> Some a"
  shows "answers (manageAuth E a ar s)"
proof -
  have n: "okT (setD a (\<lambda>d. d\<lparr>authorizations := x\<rparr>) s)" for x by (rule okT_neutral [OF assms(1)]) simp_all
  have r: "okT (removeDisplay a s)" by (rule okT_removeDisplay [OF assms(1,3)])
  show ?thesis
    using n r assms by (simp add: manageAuth_def setDynamicDisplayAuthorization_def answers_refuse split: option.split)
qed

lemma ctrlManage_ok:
  assumes "okT s" "fmtOk E"
  shows "answers (ctrlManage E ar s)"
proof (cases "argN ar 1")
  case (Some n)
  obtain r s1 where nd: "newDisplay (\<lambda>i. cMok E (10 + i)) n s = (r, s1)" by fastforce
  have "ok s1" using newDisplay_ok [OF _ nd] assms(1) by (simp add: okT_def)
  then have s1: "okT s1" by (rule okT_cfg [OF _ assms(1)]) (use newDisplay_frame [OF nd] in \<open>simp add: sameCfg_def\<close>)
  show ?thesis
  proof (cases r)
    case None
    with s1 Some nd assms show ?thesis by (simp add: ctrlManage_def answers_refuse)
  next
    case r: (Some a)
    have "a \<notin> set (live s)"
      using newDisplay_Some(1) [OF nd [unfolded r]] ok_wfList [of s] assms(1) by (auto simp: okT_def wfList_def)
    then have "deref s a = None" by (simp add: deref_None)
    moreover have "okStarting s" using assms(1) by (simp add: okT_def ok_def okBut_def)
    ultimately have "startingServer s \<noteq> Some a" unfolding okStarting_def by fastforce
    then have st: "startingServer s1 \<noteq> Some a" using newDisplay_frame(1) [OF nd] by simp
    let ?t = "setD a (\<lambda>d. d\<lparr>displayType := or dForeign (or dPermanent dFromCommand)\<rparr>) s1"
    have t: "okT ?t" by (rule okT_neutral [OF s1]) simp_all
    have c: "okT (setD a (\<lambda>d. d\<lparr>class2 := x\<rparr>) ?t)" for x by (rule okT_neutral [OF t]) simp_all
    have "startingServer (setD a f u) = startingServer u" for f u by (simp add: setD_def)
    then have "answers (manageAuth E a ar ?t)" "answers (manageAuth E a ar (setD a (\<lambda>d. d\<lparr>class2 := x\<rparr>) ?t))"
        "okT (removeDisplay a ?t)" for x
      using manageAuth_ok [OF t assms(2)] manageAuth_ok [OF c assms(2)] okT_removeDisplay [OF t] st by simp_all
    with t Some nd r assms show ?thesis
      by (simp add: ctrlManage_def Let_def answers_refuse split: option.split)
  qed
qed (use assms in \<open>simp add: ctrlManage_def\<close>)

lemma ctrlUnmanage_ok:
  assumes "okT s" "fmtOk E"
  shows "answers (ctrlUnmanage E ar s)"
proof (cases "argN ar 1")
  case (Some n)
  show ?thesis
  proof (cases "findDisplayByName n s")
    case None
    with Some assms show ?thesis by (simp add: ctrlUnmanage_def answers_refuse)
  next
    case a: (Some a)
    then obtain d where d: "deref s a = Some d" using findDisplay_deref [OF assms(1)] by blast
    have "stops a s (stopDisplay a s)" using stopDisplay_ok d assms(1) by (simp add: okT_def)
    then obtain s' where "stopDisplay a s = Some s'" "okT s'"
      using okT_env [OF _ assms(1)] by (auto simp: stops_def)
    with Some a d assms show ?thesis by (simp add: ctrlUnmanage_def answers_refuse)
  qed
qed (use assms in \<open>simp add: ctrlUnmanage_def\<close>)

lemma ctrlGlobal_ok:
  assumes "okT s" "fmtOk E"
  shows "answers (ctrlGlobal E ar s)"
proof -
  obtain s' where "wakeDisplays s = Some s'" "okT s'"
    using wakeDisplays_ok [of s] okT_env [OF _ assms(1)] assms(1) by (auto simp: okT_def)
  then show ?thesis
    using assms ctrlLogin_ok ctrlManage_ok ctrlUnmanage_ok by (simp add: ctrlGlobal_def Let_def answers_refuse)
qed

lemma processCtrl_okT:
  assumes "okT s" "okCtrl E da s"
  shows "answers (processCtrl E da line s)"
proof -
  note k = okCtrlD [OF assms(2)]
  have w: "answers (ctrlWords E dd ar s)"
    if "sdStatus E dd s \<noteq> None" "\<And>d. dd = Some d \<Longrightarrow> deref s (daddr d) = Some d" for dd ar
  proof -
    have dd: "answers (case dd of Some d \<Rightarrow> ctrlDisplay E d ar s | None \<Rightarrow> ctrlGlobal E ar s)"
      using ctrlDisplay_ok [OF assms(1) that(2) k(1)] ctrlGlobal_ok [OF assms(1) k(1)] by (simp split: option.split)
    show ?thesis
      unfolding ctrlWords_def Let_def
      using dd assms(1) k that(1) ctrlList_ok ctrlReserve_ok ctrlActivate_ok ctrlShutdown_ok ctrlListBoot_ok by simp
  qed
  show ?thesis
  proof (cases da)
    case None
    with w [of None] assms show ?thesis by (simp add: processCtrl_def okCtrl_def)
  next
    case (Some a)
    then obtain d where d: "deref s a = Some d" using assms(2) deref_live by (auto simp: okCtrl_def)
    then have "deref s (daddr d) = Some d" by (auto dest: deref_SomeD)
    with w [of "Some d"] d Some assms show ?thesis by (simp add: processCtrl_def okCtrl_def)
  qed
qed

end
