(* ===== verification/DmRun.thy ===== *)
theory DmRun
  imports CtrlSafe
begin

text \<open>
  Runs of the master daemon: the main loop of \<^verbatim>\<open>kdm/backend/dm.c\<close> as a state machine over
  events, the states it reaches and what is true of all of them. The last part holds runs
  that leave the safe states, one for each condition \<open>okEvent\<close> puts on an event.
\<close>

section \<open>Runs of the daemon\<close>

text \<open>
  An event: one pass through \<^verbatim>\<open>select\<close> with the time after it, a signal, a message from a
  session process or a greeter, a packet for the XDMCP service, a command on a control
  socket, or a change of what the system tells (outcomes of \<^verbatim>\<open>fork\<close>, utmp, terminals). \<open>env\<close> collects what the daemon gets from other programs.
\<close>

record env =
  eLoad :: "display \<Rightarrow> dpyConf option"
  eMok :: "nat \<Rightarrow> nat \<Rightarrow> bool"
  eConf :: "dmConf option"
  eRescan :: bool
  eBootOpts :: "reply list"
  eSetBoot :: "string option \<Rightarrow> sdrec \<Rightarrow> sdrec"

datatype event =
    Select int
  | Signal signal
  | DMsg addr dmsg
  | GMsg addr gmsg
  | Packet xenv xread sockaddr nat bytes
  | Command cenv "addr option" string
  | System "int list" "int option" "utmpEntry list" int int bool bool utState

definition handle :: "env \<Rightarrow> event \<Rightarrow> dm \<Rightarrow> dm option" where
  "handle e ev s =
     (case ev of
        Select t \<Rightarrow> do {
          (_, s) \<leftarrow> beforeSelect (eLoad e) (eMok e) (eConf e) s;
          afterSelect t s }
      | Signal sig \<Rightarrow> handleSignal (eRescan e) (eMok e) (eConf e) sig s
      | DMsg a m \<Rightarrow> map_option snd (processDPipe (eMok e 0 0, eMok e 0 1, eMok e 0 2) (eMok e 1) a m s)
      | GMsg a m \<Rightarrow> map_option snd (processGPipe (eBootOpts e) (eSetBoot e) a m s)
      | Packet E R sa len buf \<Rightarrow> map_option snd (processRequestSocket E R sa len buf s)
      | Command E a line \<Rightarrow> map_option snd (processCtrl E a line s)
      | System fs mt ut bv av mo co j \<Rightarrow>
          Some (s\<lparr>forks := fs, utmpMtime := mt, utmpFile := ut, busyVTs := bv, activeVT := av,
                  memOk := mo, consoleOk := co, junkState := j\<rparr>))"

definition okEvent :: "env \<Rightarrow> event \<Rightarrow> dm \<Rightarrow> bool" where
  "okEvent e ev s \<longleftrightarrow> okConf (eConf e) \<and>
     (case ev of
        Select t \<Rightarrow> t < TO_INF
      | Signal sig \<Rightarrow> okSignal sig s
      | DMsg a m \<Rightarrow> okDMsg a m s
      | GMsg a m \<Rightarrow> okGMsg a m s
      | Packet E R sa len buf \<Rightarrow> okPacket E R sa buf
      | Command E a line \<Rightarrow> okCtrl E a s
      | System fs mt ut bv av mo co j \<Rightarrow> list_all okPid fs)"

lemma handle_okT:
  assumes ok: "okT s" and ev: "okEvent e ev s"
  shows "\<exists>s'. handle e ev s = Some s' \<and> okT s'"
proof (cases ev)
  case (Select t)
  obtain to' s1 where s1: "beforeSelect (eLoad e) (eMok e) (eConf e) s = Some (to', s1)" "okT s1"
    using beforeSelect_okT [OF ok, of "eConf e" "eLoad e" "eMok e"] ev by (auto simp: okEvent_def)
  with Select ev afterSelect_okT [OF s1(2), of t] show ?thesis by (auto simp: handle_def okEvent_def)
next
  case (Signal sig)
  with handleSignal_okT [OF ok] ev show ?thesis by (simp add: handle_def okEvent_def)
next
  case (DMsg a m)
  have "\<exists>r s'. processDPipe (eMok e 0 0, eMok e 0 1, eMok e 0 2) (eMok e 1) a m s = Some (r, s')
      \<and> ok s' \<and> sameCfg s s'"
    by (rule processDPipe_ok) (use ok ev DMsg in \<open>simp_all add: okEvent_def okT_def\<close>)
  then obtain r s' where "processDPipe (eMok e 0 0, eMok e 0 1, eMok e 0 2) (eMok e 1) a m s = Some (r, s')"
      "ok s'" "sameCfg s s'" by blast
  with DMsg okT_cfg [OF _ ok] show ?thesis by (simp add: handle_def)
next
  case (GMsg a m)
  have "\<exists>r s'. processGPipe (eBootOpts e) (eSetBoot e) a m s = Some (r, s') \<and> ok s' \<and> sameCfg s s'"
    by (rule processGPipe_ok [OF _ _ okT_tty [OF ok]])
      (use ok ev GMsg in \<open>simp_all add: okEvent_def okT_def\<close>)
  then obtain r s' where "processGPipe (eBootOpts e) (eSetBoot e) a m s = Some (r, s')" "ok s'" "sameCfg s s'"
    by blast
  with GMsg okT_cfg [OF _ ok] show ?thesis by (simp add: handle_def)
next
  case (Packet E R sa len buf)
  have "serves s (processRequestSocket E R sa len buf s)"
    by (rule packet_serves) (use ok ev Packet in \<open>simp_all add: okT_def okEnv_def okEvent_def\<close>)
  then obtain x s' where "processRequestSocket E R sa len buf s = Some (x, s')" "ok s'" "okXd s'"
      "consoleTTYs s' = consoleTTYs s" by (rule servesE)
  with Packet okT_tty [OF ok] show ?thesis by (simp add: handle_def okT_def okEnv_def)
next
  case (Command E a line)
  have "answers (processCtrl E a line s)"
    by (rule processCtrl_okT) (use ok ev Command in \<open>simp_all add: okEvent_def\<close>)
  with Command show ?thesis by (auto simp: handle_def answers_def)
next
  case (System fs mt ut bv av mo co j)
  let ?t = "s\<lparr>forks := fs, utmpMtime := mt, utmpFile := ut, busyVTs := bv, activeVT := av,
                  memOk := mo, consoleOk := co, junkState := j\<rparr>"
  have "deref ?t = deref s" by (intro ext) (simp add: deref_def)
  moreover have "wfList ?t = wfList s" by (rule wfList_cong) simp_all
  ultimately have "okT ?t"
    using ok ev System
    by (simp add: okT_def okEnv_def okXd_def ok_def okBut_def okStarting_def okEvent_def list_all_iff)
  with System show ?thesis by (simp add: handle_def)
qed

text \<open>The states the daemon can get to from its start with a first configuration.\<close>

inductive reach :: "dm \<Rightarrow> bool" where
  start: "okConf (Some c) \<Longrightarrow> reach (rescanConfigs mok (Some c) (initDm\<lparr>now := t, forks := fs\<rparr>))"
    if "list_all okPid fs"
| step: "reach s \<Longrightarrow> okEvent e ev s \<Longrightarrow> handle e ev s = Some s' \<Longrightarrow> reach s'"

lemma initDm_ok: "list_all okPid fs \<Longrightarrow> ok (initDm\<lparr>now := t, forks := fs\<rparr>)"
  by (simp add: ok_def okBut_def okStarting_def wfList_def live_def deref_def initDm_def list_all_iff)

lemma reach_okT: "reach s \<Longrightarrow> okT s"
proof (induction rule: reach.induct)
  case (start fs c mok t)
  have "ok (rescanConfigs mok (Some c) (initDm\<lparr>now := t, forks := fs\<rparr>))"
    by (rule rescanConfigs_ok [OF initDm_ok]) (rule start)
  moreover have "okEnv (rescanConfigs mok (Some c) (initDm\<lparr>now := t, forks := fs\<rparr>))"
    by (rule rescanConfigs_okEnv [OF _ start(2)]) (simp add: okXd_def okLists_def okProtos_def wfProtos_def initDm_def)
  ultimately show ?case by (simp add: okT_def)
next
  case (step s e ev s')
  then show ?case using handle_okT by fastforce
qed

text \<open>C1. As long as every event meets \<open>okEvent\<close>, the daemon handles it without using a NULL or dangling
  display pointer or reading outside its data, and never sends a signal to process id 0 or below, which would hit
  every process of the machine. The code does not enforce \<open>okEvent\<close>, which asks that
  \<^item> a child is reaped while the follower of its display is still in the list (\<open>dangling_follower\<close>),
  \<^item> \<open>D_XConnOk\<close> comes while no server is starting, or from the display whose server is (\<open>stale_XConnOk_crash\<close>),
  \<^item> \<open>G_Console\<close> comes while no display waits for its turn to start a server (\<open>console_kills_everything\<close>),
  \<^item> an XDMCP request names an address with the bytes its type has and, if it offers XDM authorization, is
    authenticated, with the full name of the authentication (\<open>short_address_overreads\<close>,
    \<open>unauthenticated_request_overreads\<close>, \<open>short_authentication_overreads\<close> in \<open>XdmFlow\<close>),
  \<^item> messages and commands come from displays in the list, packets from Internet addresses, and what the answer to
    a command is made from is there: the hosts of remote sessions and a boot menu whose entries fit the buffer,
  \<^item> a configuration names a console terminal, its access lists can be scanned, \<open>fork\<close> gives positive process ids
    and the clock is below the time that stands for never.\<close>

theorem daemon_safe:
  assumes "reach s"
  shows "(\<forall>e ev. okEvent e ev s \<longrightarrow> handle e ev s \<noteq> None) \<and>
     (\<forall>p g. Kill p g \<in> set (actions s) \<longrightarrow> 0 < p)"
proof -
  have ok: "okT s" by (rule reach_okT [OF assms])
  have "handle e ev s \<noteq> None" if "okEvent e ev s" for e ev
    using handle_okT [OF ok that] by auto
  moreover have "0 < p" if "Kill p g \<in> set (actions s)" for p g
    using ok that by (force simp: okT_def ok_def okBut_def)
  ultimately show ?thesis by blast
qed

section \<open>Runs that go wrong\<close>

fun runEvents :: "(env \<times> event) list \<Rightarrow> dm \<Rightarrow> dm option" where
  "runEvents [] s = Some s"
| "runEvents ((e, ev) # evs) s = do { s \<leftarrow> handle e ev s; runEvents evs s }"

text \<open>A configuration with local displays, each loaded with the same settings.\<close>

definition demoConf :: "string list \<Rightarrow> dmConf" where
  "demoConf ds = \<lparr>cfStatic = ds, cfReserve = [], cfConsoleTTYs = [''tty1''], cfServerVTs = [''-7''],
     cfPort = 0, cfListening = False, cfChoiceTimeout = 15, cfAccess = None\<rparr>"

definition demoDpy :: dpyConf where
  "demoDpy = emptyConf\<lparr>serverAttempts := 1, cfgServerTimeout := 15\<rparr>"

definition demoEnv :: "string list \<Rightarrow> env" where
  "demoEnv ds = \<lparr>eLoad = (\<lambda>_. Some demoDpy), eMok = (\<lambda>_ _. True), eConf = Some (demoConf ds),
     eRescan = False, eBootOpts = [], eSetBoot = (\<lambda>_ r. r)\<rparr>"

definition demoStart :: "string list \<Rightarrow> dm" where
  "demoStart ds = rescanConfigs (\<lambda>_ _. True) (Some (demoConf ds))
     (initDm\<lparr>now := 10000, forks := [100, 200, 300, 400, 500, 600]\<rparr>)"

definition consoleRun :: "(env \<times> event) list" where
  "consoleRun = map (Pair (demoEnv ['':0'', '':1'', '':2'']))
     [Select 10001, Signal SUsr1, DMsg 2 D_XConnOk, Select 10002,
      GMsg 2 G_Console, Select 10003, Signal (SChld [(400, 0)]), Select 10030]"

definition view :: "dm \<Rightarrow> (string \<times> displayStatus \<times> serverStatus \<times> int \<times> int) list" where
  "view s = map (\<lambda>d. (dname d, status d, serverStatus d, serverPid d, serverVT d)) (displays s)"

text \<open>
  Console mode requested while a display waits for its turn to start a server:
  \<open>abortStartServer\<close> does not reset it, its server is started in text mode, nobody notices its
  exit, and the startup timeout signals process -1, every process of the machine.
\<close>

theorem console_kills_everything:
  "map_option (\<lambda>s. Kill (-1) SIGTERM \<in> set (actions s))
     (runEvents consoleRun (demoStart ['':0'', '':1'', '':2''])) = Some True"
  by code_simp

text \<open>
  A connection report of a display that was stopped meanwhile clears the display another
  server is started for; its timeout then uses a NULL pointer.
\<close>

definition staleRun :: "(env \<times> event) list" where
  "staleRun = map (Pair (demoEnv ['':0'']))
     [Select 10001, Signal SUsr1, Signal SHup, Select 10002, DMsg 1 D_XConnOk, Select 10030]"

theorem stale_XConnOk_crash:
  "runEvents (take 5 staleRun) (demoStart ['':0'', '':1'']) \<noteq> None \<and>
   runEvents staleRun (demoStart ['':0'', '':1'']) = None"
  by code_simp

text \<open>
  A session process that gives up on its server after two minutes leaves \<open>startingServer\<close> set:
  its display waits for itself, and no server of any display is started again.
\<close>

definition wedgeRun :: "(env \<times> event) list" where
  "wedgeRun = map (Pair (demoEnv ['':0'']))
     [Select 10001, Signal SUsr1, Select 10140, Signal (SChld [(200, exited EX_OPENFAILED_DPY)]),
      Signal (SChld [(100, 0)]), Select 10141, Select 99999]"

theorem server_start_wedged:
  "map_option (\<lambda>s. (view s, startingServer s, serverTimeout s = TO_INF, forks s))
     (runEvents wedgeRun (demoStart ['':0''])) =
   Some ([('':0'', running, awaiting, -1, 7)], Some 0, True, [300, 400, 500, 600])"
  by code_simp

text \<open>
  Two displays on one terminal: a terminal listed without the minus sign is taken although a
  dying server still has it and a follower is to inherit it.
\<close>

definition vtEnv :: "string list \<Rightarrow> env" where
  "vtEnv ds = (demoEnv ds)\<lparr>eConf := Some ((demoConf ds)\<lparr>cfServerVTs := [''7'']\<rparr>)\<rparr>"

definition vtRun :: "(env \<times> event) list" where
  "vtRun = map (Pair (vtEnv ['':1'', '':2'']))
     [Select 10001, Signal SUsr1, DMsg 0 D_XConnOk, Signal SHup, Select 10002,
      Signal (SChld [(200, signalled 15), (100, 0)])]"

theorem one_terminal_for_two:
  "map_option (\<lambda>s. map (\<lambda>d. (dname d, serverVT d)) (displays s)) (runEvents vtRun (demoStart ['':0''])) =
   Some [('':2'', 7), ('':1'', 7)]"
  by code_simp

text \<open>The follower of a dying display is removed; the pointer to it is used when the server exits.\<close>

definition followerRun :: "(env \<times> event) list" where
  "followerRun = take 5 vtRun @ map (Pair (vtEnv ['':2'']))
     [Signal SHup, Select 10003, Signal (SChld [(200, signalled 15), (100, 0)])]"

theorem dangling_follower:
  "runEvents (take 7 followerRun) (demoStart ['':0'']) \<noteq> None \<and>
   runEvents followerRun (demoStart ['':0'']) = None"
  by code_simp


text \<open>Runs whose events are all acceptable, decided by evaluation.\<close>

fun okRun :: "(env \<times> event) list \<Rightarrow> dm \<Rightarrow> bool" where
  "okRun [] s = True"
| "okRun ((e, ev) # evs) s =
     (okEvent e ev s \<and> (case handle e ev s of None \<Rightarrow> True | Some s' \<Rightarrow> okRun evs s'))"

lemma okRun_reach: "reach s \<Longrightarrow> okRun evs s \<Longrightarrow> \<exists>s'. runEvents evs s = Some s' \<and> reach s'"
proof (induction evs s rule: okRun.induct)
  case (2 e ev evs s)
  then obtain s1 where "handle e ev s = Some s1" using handle_okT [OF reach_okT] by fastforce
  with 2 reach.step show ?case by auto
qed simp

lemma demo_reach: "reach (demoStart ds)"
  unfolding demoStart_def by (rule reach.start) (simp_all add: okPid_def okConf_def demoConf_def)

text \<open>Two local displays, one with a session, the other with its server starting.\<close>

definition demoUp :: "(env \<times> event) list" where
  "demoUp = map (Pair (demoEnv ['':0'', '':1'']))
     [Select 10001, Signal SUsr1, DMsg 1 D_XConnOk, Select 10002]"

text \<open>Then a termination request, which kills servers and sessions.\<close>

definition demoTerm :: "(env \<times> event) list" where
  "demoTerm = demoUp @ [(demoEnv [], Signal STerm)]"

theorem daemon_safe_witness:
  "\<exists>s. runEvents demoTerm (demoStart ['':0'', '':1'']) = Some s
     \<and> Kill 100 SIGTERM \<in> set (actions s)
     \<and> handle (demoEnv []) (Signal (SChld [(200, signalled 15), (300, 0), (100, 0)])) s \<noteq> None
     \<and> Kill (- 1) SIGTERM \<notin> set (actions s)"
proof -
  let ?ev = "Signal (SChld [(200, signalled 15), (300, 0), (100, 0)])"
  have "okRun demoTerm (demoStart ['':0'', '':1''])" by code_simp
  then obtain s where s: "runEvents demoTerm (demoStart ['':0'', '':1'']) = Some s" "reach s"
    using okRun_reach [OF demo_reach] by blast
  have "map_option (\<lambda>s. okEvent (demoEnv []) ?ev s \<and> Kill 100 SIGTERM \<in> set (actions s))
      (runEvents demoTerm (demoStart ['':0'', '':1''])) = Some True" by code_simp
  then have "okEvent (demoEnv []) ?ev s" "Kill 100 SIGTERM \<in> set (actions s)" using s(1) by simp_all
  with daemon_safe [OF s(2)] s(1) show ?thesis by fastforce
qed

end
