(* ===== verification/DmShutdown.thy ===== *)
theory DmShutdown
  imports DmRun
begin

text \<open>
  Shutting the daemon down: after \<open>stoppen (True)\<close> of \<^verbatim>\<open>kdm/backend/dm.c\<close> every display is
  on its way out, each reaped child brings the end nearer, and the main loop ends when the
  last one is reaped.
\<close>

section \<open>Dying displays\<close>

definition dying :: "display \<Rightarrow> bool" where
  "dying d \<longleftrightarrow> status d = zombie \<and> zstatus d = DS_REMOVE \<and> follower d = None"

definition hasProc :: "display \<Rightarrow> bool" where
  "hasProc d \<longleftrightarrow> serverPid d \<noteq> -1 \<or> dpid d \<noteq> -1"

text \<open>The processes of the displays, by display and kind.\<close>

definition procs :: "dm \<Rightarrow> (addr \<times> bool) set" where
  "procs s = {(a, False) | a d. deref s a = Some d \<and> dpid d \<noteq> -1}
     \<union> {(a, True) | a d. deref s a = Some d \<and> serverPid d \<noteq> -1}"

lemma finite_procs [simp]: "finite (procs s)"
proof -
  have "procs s \<subseteq> set (live s) \<times> UNIV"
    using deref_None [of s] by (auto simp: procs_def) (metis option.distinct(1))+
  then show ?thesis by (rule finite_subset) simp
qed

definition sees :: "dm \<Rightarrow> addr \<Rightarrow> display option \<Rightarrow> dm \<Rightarrow> bool" where
  "sees s' a r s \<longleftrightarrow> (\<forall>b. deref s' b = (if b = a then r else deref s b))"

lemma live_deref: "a \<in> set (live s) \<longleftrightarrow> deref s a \<noteq> None"
  by (simp add: deref_None)

text \<open>What stopping for removal does to the list of displays.\<close>

lemma stopDisplay_sees:
  assumes ok: "okBut x s" and x: "x = None \<or> x = Some a" and d: "deref s a = Some d"
    and fol: "follower d = None"
  shows "\<exists>s' e. stopDisplay a s = Some s' \<and> sees s' a (if hasProc d then Some e else None) s
     \<and> dying e \<and> dpid e = dpid d \<and> serverPid e = serverPid d \<and> listening s' = listening s"
proof -
  obtain s1 where s1: "abortStartServer a s = Some s1" "okBut x s1" "deref s1 a = Some (aborted a d s)"
      "\<forall>b. b \<noteq> a \<longrightarrow> deref s1 b = deref s b"
    using abortStartServer_ok [OF ok d] by blast
  have lst: "listening s1 = listening s"
    using s1(1) d by (auto simp: abortStartServer_def setD_def split: if_splits)
  show ?thesis
  proof (cases "hasProc d")
    case True
    define t where "t = (if dpid d \<noteq> -1 then terminateProcess (dpid d) SIGTERM s1 else s1)"
    define u where "u = (if serverPid d \<noteq> -1 then terminateProcess (serverPid d) SIGTERM t else t)"
    define v where "v = setD a (\<lambda>d. d\<lparr>status := zombie, zstatus := 4\<rparr>) u"
    define e where "e = (aborted a d s)\<lparr>status := zombie, zstatus := 4\<rparr>"
    have "stopDisplay a s = Some v"
      unfolding stopDisplay_def v_def u_def t_def
      using True rStopDisplay_busy [OF s1(1,3), unfolded aborted_simps] by (simp add: hasProc_def Let_def)
    moreover have "sees v a (Some e) s"
      using s1(3,4) by (auto simp: v_def u_def t_def e_def sees_def deref_setD)
    moreover have "listening v = listening s"
      using lst by (simp add: v_def u_def t_def setD_def terminateProcess_def act_def)
    moreover have "dying e" "dpid e = dpid d" "serverPid e = serverPid d"
      using fol by (simp_all add: e_def dying_def aborted_def)
    ultimately show ?thesis using True by auto
  next
    case False
    have "stopDisplay a s = Some (removeDisplay a s1)"
      unfolding stopDisplay_def
      using False rStopDisplay_idle [OF s1(1,3), unfolded aborted_simps, of DS_REMOVE]
      by (simp add: hasProc_def)
    moreover have "sees (removeDisplay a s1) a None s"
      using s1(2,4) deref_removeDisplay [of s1 a] by (auto simp: sees_def okBut_def)
    moreover have "listening (removeDisplay a s1) = listening s"
      using lst by (simp add: removeDisplay_def unlinkIf_def act_def split: option.split)
    moreover have "dying (d\<lparr>status := zombie, zstatus := 4\<rparr>)" using fol by (simp add: dying_def)
    ultimately show ?thesis
      using False by (intro exI [of _ "removeDisplay a s1"] exI [of _ "d\<lparr>status := zombie, zstatus := 4\<rparr>"]) simp
  qed
qed

definition noFollowers :: "dm \<Rightarrow> bool" where
  "noFollowers s \<longleftrightarrow> list_all (\<lambda>d. follower d = None) (displays s)"

lemma noFollowersD: "noFollowers s \<Longrightarrow> deref s a = Some d \<Longrightarrow> follower d = None"
  by (auto simp: noFollowers_def list_all_iff dest: deref_SomeD)

text \<open>The walk over all displays turns them into dying ones.\<close>

lemma stop_walk:
  assumes "ok s" and "distinct as"
    and "\<forall>a d. deref s a = Some d \<longrightarrow> (if a \<in> set as then follower d = None else dying d)"
    and "set as \<subseteq> set (live s)"
  shows "\<exists>s'. walk stopDisplay as s = Some s' \<and> ok s' \<and> sameEnv s s' \<and> listening s' = listening s
     \<and> (\<forall>a d. deref s' a = Some d \<longrightarrow> dying d)"
  using assms
proof (induction as arbitrary: s)
  case Nil
  then show ?case by simp
next
  case (Cons a as)
  obtain d where d: "deref s a = Some d" using Cons.prems(4) deref_live [of a s] by auto
  have fol: "follower d = None" using Cons.prems(3) d by auto
  obtain s1 e where s1: "stopDisplay a s = Some s1" "sees s1 a (if hasProc d then Some e else None) s"
      "dying e" "listening s1 = listening s"
    using stopDisplay_sees [OF ok_okBut [OF Cons.prems(1), of None] _ d fol] by auto
  have ok1: "ok s1" "sameEnv s s1"
    using stopDisplay_ok [OF Cons.prems(1) d] s1(1) by (auto simp: stops_def)
  have st1: "\<forall>b c. deref s1 b = Some c \<longrightarrow> (if b \<in> set as then follower c = None else dying c)"
    using s1(2,3) Cons.prems(2,3) by (auto simp: sees_def split: if_splits)
  have "set as \<subseteq> set (live s1)"
    using Cons.prems(2,4) s1(2) by (auto simp: live_deref sees_def)
  with Cons.IH [OF ok1(1) _ st1] Cons.prems(2) obtain s2 where
    "walk stopDisplay as s1 = Some s2" "ok s2" "sameEnv s1 s2" "listening s2 = listening s1"
    "\<forall>a d. deref s2 a = Some d \<longrightarrow> dying d" by auto
  with s1 ok1 sameEnv_trans show ?case by auto
qed

definition allDying :: "dm \<Rightarrow> bool" where
  "allDying s \<longleftrightarrow> ok s \<and> (\<forall>a d. deref s a = Some d \<longrightarrow> dying d)"

lemma stoppen_allDying:
  assumes ok: "ok s" and fol: "noFollowers s"
  shows "\<exists>s1. stoppen True s = Some s1 \<and> allDying s1 \<and> stopping s1 \<and> \<not> listening s1"
proof -
  let ?s = "act StopListening (s\<lparr>requestPort := 0, listening := False\<rparr>)"
  have ok1: "ok ?s" using ok by simp
  have "distinct (live ?s)" using ok_wfList [OF ok1] by (simp add: wfList_def)
  moreover have dr: "deref ?s a = deref s a" for a by (simp add: deref_def act_def)
  have "\<forall>a d. deref ?s a = Some d \<longrightarrow> (if a \<in> set (live ?s) then follower d = None else dying d)"
    using noFollowersD [OF fol] by (simp only: live_deref dr) auto
  ultimately obtain s' where s': "walk stopDisplay (live ?s) ?s = Some s'" "ok s'"
      "listening s' = listening ?s" "\<forall>a d. deref s' a = Some d \<longrightarrow> dying d"
    using stop_walk [OF ok1, of "live ?s"] by blast
  have "\<not> listening s'" using s'(3) by (simp add: act_def)
  moreover have "deref (s'\<lparr>stopping := True\<rparr>) a = deref s' a" for a by (simp add: deref_def)
  ultimately show ?thesis
    using s' by (simp add: stoppen_def Let_def forEachDisplay_def allDying_def)
qed

section \<open>Reaping dying displays\<close>

lemma sees_trans:
  "sees s' a r s2 \<Longrightarrow> (\<And>b. b \<noteq> a \<Longrightarrow> deref s2 b = deref s b) \<Longrightarrow> sees s' a r s"
  by (auto simp: sees_def)

lemma exitDisplay_zombie:
  assumes "deref s a = Some d" "status d = zombie"
  shows "\<exists>f. (\<forall>h. hname (f h) = hname h) \<and>
    exitDisplay a es c g s = rStopDisplay a (zstatus d) (setHist (dname d) f (sessionDone a s))"
  using assms
  by (intro exI [of _ "\<lambda>h. h\<lparr>lastExit := now (sessionDone a s), goodExit := g\<rparr>"])
    (simp add: exitDisplay_def Let_def)

lemma exitSession_cases:
  assumes "deref s a = Some d"
  shows "\<exists>es c g b. exitSession a code s =
    exitDisplay a es c g (if b then act (SendFailed a ''cannot open display'') s else s)"
proof -
  define Q where "Q x \<longleftrightarrow> (\<exists>es c g b. x = exitDisplay a es c g
    (if b then act (SendFailed a ''cannot open display'') s else s))" for x
  have n: "Q (exitDisplay a es c g s)" for es c g
    unfolding Q_def by (rule exI [of _ es], rule exI [of _ c], rule exI [of _ g], rule exI [of _ False]) simp
  have y: "Q (exitDisplay a es c g (act (SendFailed a ''cannot open display'') s))" for es c g
    unfolding Q_def by (rule exI [of _ es], rule exI [of _ c], rule exI [of _ g], rule exI [of _ True]) simp
  have "Q (exitSession a code s)"
    using assms by (simp add: exitSession_def n y)
  then show ?thesis by (simp add: Q_def)
qed

lemma reapSession_dying:
  assumes dy: "allDying s" and d: "deref s a = Some d" "dpid d \<noteq> -1"
  shows "\<exists>s' e. reapSession a st s = Some s' \<and> sees s' a (if serverPid d \<noteq> -1 then Some e else None) s
     \<and> dying e \<and> dpid e = -1 \<and> serverPid e = serverPid d \<and> listening s' = listening s"
proof -
  define s1 where "s1 = closeCtrl a (setD a (\<lambda>d. d\<lparr>dpid := -1, pipesOpen := False\<rparr>) s)"
  define e1 where "e1 = d\<lparr>dpid := -1, pipesOpen := False, ctrlOpen := False\<rparr>"
  have ok: "ok s" and dd: "dying d" using dy d by (auto simp: allDying_def)
  have w: "okW d" "okStat d" using ok_derefD [OF ok d(1)] by auto
  have ign: "serverStatus d = ignore" using w d(2) by (auto simp: okW_def)
  have "okBut (Some a) (setD a (\<lambda>d. d\<lparr>dpid := -1, pipesOpen := False\<rparr>) s)"
    by (rule okBut_setD [OF ok_okBut [OF ok] _ d(1), of None])
      (use w ign in \<open>simp_all add: okW_def okPid_def isStarting_def\<close>)
  then have ok1: "okBut (Some a) s1" unfolding s1_def by (rule closeCtrl_okBut)
  have d1: "deref s1 a = Some e1" using d by (simp add: s1_def e1_def closeCtrl_def deref_setD)
  have o1: "deref s1 b = deref s b" if "b \<noteq> a" for b
    using that by (simp add: s1_def closeCtrl_def deref_setD)
  obtain es c g b where "exitSession a (wcFromWait st) s1 =
      exitDisplay a es c g (if b then act (SendFailed a ''cannot open display'') s1 else s1)"
    using exitSession_cases [OF d1] by blast
  moreover define s2 where "s2 = (if b then act (SendFailed a ''cannot open display'') s1 else s1)"
  moreover have d2: "deref s2 a = Some e1" using d1 by (simp add: s2_def)
  moreover have ez: "status e1 = zombie" "zstatus e1 = DS_REMOVE" using dd by (simp_all add: e1_def dying_def)
  ultimately obtain f where f: "\<forall>h. hname (f h) = hname h"
      "reapSession a st s = stopDisplay a (setHist (dname e1) f (sessionDone a s2))"
    using exitDisplay_zombie [OF d2 ez(1), of es c g]
    by (auto simp: reapSession_def s1_def [symmetric] stopDisplay_def)
  let ?s3 = "setHist (dname e1) f (sessionDone a s2)"
  let ?e3 = "e1\<lparr>userSess := -1, userName := None, sessName := None\<rparr>"
  have ok3: "okBut (Some a) ?s3"
    using ok1 f(1) by (simp add: okBut_setHist sessionDone_def okBut_neutral s2_def)
  have d3: "deref ?s3 a = Some ?e3" using d2 by (simp add: sessionDone_def deref_setD)
  have fol: "follower ?e3 = None" using dd by (simp add: e1_def dying_def)
  obtain s' e where s': "stopDisplay a ?s3 = Some s'" "sees s' a (if hasProc ?e3 then Some e else None) ?s3"
      "dying e" "dpid e = dpid ?e3" "serverPid e = serverPid ?e3" "listening s' = listening ?s3"
    using stopDisplay_sees [OF ok3 _ d3 fol] by auto
  have "listening ?s3 = listening s"
    by (simp add: setHist_def sessionDone_def setD_def s2_def s1_def closeCtrl_def act_def)
  moreover have "sees s' a (if hasProc ?e3 then Some e else None) s"
    by (rule sees_trans [OF s'(2)]) (simp add: sessionDone_def deref_setD s2_def o1)
  moreover have "hasProc ?e3 = (serverPid d \<noteq> -1)" by (simp add: hasProc_def e1_def)
  ultimately show ?thesis using s' f(2) by (auto simp: e1_def)
qed

lemma reapServer_dying:
  assumes dy: "allDying s" and d: "deref s a = Some d" "serverPid d \<noteq> -1"
  shows "\<exists>s' e. reapServer a s = Some s' \<and> sees s' a (if dpid d \<noteq> -1 then Some e else None) s
     \<and> dying e \<and> dpid e = dpid d \<and> serverPid e = -1 \<and> listening s' = listening s"
proof -
  define s1 where "s1 = setD a (\<lambda>d. d\<lparr>serverPid := -1\<rparr>) s"
  define e1 where "e1 = d\<lparr>serverPid := -1\<rparr>"
  have ok: "ok s" and dd: "dying d" using dy d by (auto simp: allDying_def)
  have w: "okW d" "okStat d" using ok_derefD [OF ok d(1)] by auto
  have ok1: "okBut (Some a) s1"
    unfolding s1_def by (rule okBut_setD [OF ok_okBut [OF ok] _ d(1), of None])
      (use w in \<open>simp_all add: okW_def okPid_def isStarting_def\<close>)
  have d1: "deref s1 a = Some e1" using d by (simp add: s1_def e1_def deref_setD)
  have ez: "status e1 = zombie" "zstatus e1 = DS_REMOVE" "follower e1 = None"
    using dd by (simp_all add: e1_def dying_def)
  define v where "v = (if consoleOk s1 then
       act (DisallocateVT (serverVT e1))
         (if activeVT s1 = serverVT e1 then act (ActivateVT (nextActiveVT a s1)) s1 else s1)
     else s1)"
  define s2 where "s2 = (if serverVT e1 \<noteq> 0 then setD a (\<lambda>d. d\<lparr>serverVT := 0\<rparr>) v else s1)"
  define e2 where "e2 = (if serverVT e1 \<noteq> 0 then e1\<lparr>serverVT := 0\<rparr> else e1)"
  have "releaseVT a s1 = Some s2"
    using d1 ez by (simp add: releaseVT_def s2_def v_def)
  then have r: "reapServer a s = stopDisplay a s2"
    unfolding reapServer_def Let_def s1_def [symmetric] using d1 ez by (simp add: stopDisplay_def)
  have "okBut (Some a) v" using ok1 by (simp add: v_def)
  then have "okBut (Some a) (setD a (\<lambda>d. d\<lparr>serverVT := 0\<rparr>) v)" by (rule okBut_neutral) simp_all
  then have ok2: "okBut (Some a) s2" using ok1 by (simp add: s2_def)
  have d2: "deref s2 a = Some e2" using d1 by (simp add: s2_def e2_def v_def deref_setD)
  have o2: "deref s2 b = deref s b" if "b \<noteq> a" for b
    using that by (simp add: s2_def v_def s1_def deref_setD)
  have lst: "listening s2 = listening s" by (simp add: s2_def v_def s1_def setD_def act_def)
  have "follower e2 = None" using ez by (simp add: e2_def)
  then obtain s' e where s': "stopDisplay a s2 = Some s'" "sees s' a (if hasProc e2 then Some e else None) s2"
      "dying e" "dpid e = dpid e2" "serverPid e = serverPid e2" "listening s' = listening s2"
    using stopDisplay_sees [OF ok2 _ d2] by auto
  have e2: "dpid e2 = dpid d" "serverPid e2 = -1" by (simp_all add: e2_def e1_def)
  moreover have "sees s' a (if hasProc e2 then Some e else None) s" by (rule sees_trans [OF s'(2) o2])
  ultimately show ?thesis using s' r lst by (auto simp: hasProc_def)
qed

text \<open>One child less.\<close>

lemma procs_iff:
  "(b, k) \<in> procs s \<longleftrightarrow>
     (case deref s b of None \<Rightarrow> False | Some d \<Rightarrow> if k then serverPid d \<noteq> -1 else dpid d \<noteq> -1)"
  by (auto simp: procs_def split: option.split)

lemma procs_sees_session:
  assumes "sees s' a (if serverPid d \<noteq> -1 then Some e else None) s" "deref s a = Some d"
    "dpid e = -1" "serverPid e = serverPid d" "dpid d \<noteq> -1"
  shows "procs s' = procs s - {(a, False)} \<and> (a, False) \<in> procs s"
proof -
  have "x \<in> procs s' \<longleftrightarrow> x \<in> procs s - {(a, False)}" for x
    using assms by (cases x; cases "fst x = a") (auto simp: procs_iff sees_def)
  then show ?thesis using assms by (auto simp: procs_iff)
qed

lemma procs_sees_server:
  assumes "sees s' a (if dpid d \<noteq> -1 then Some e else None) s" "deref s a = Some d"
    "serverPid e = -1" "dpid e = dpid d" "serverPid d \<noteq> -1"
  shows "procs s' = procs s - {(a, True)} \<and> (a, True) \<in> procs s"
proof -
  have "x \<in> procs s' \<longleftrightarrow> x \<in> procs s - {(a, True)}" for x
    using assms by (cases x; cases "fst x = a") (auto simp: procs_iff sees_def)
  then show ?thesis using assms by (auto simp: procs_iff)
qed

definition isChild :: "int \<Rightarrow> dm \<Rightarrow> bool" where
  "isChild p s \<longleftrightarrow> findDisplayByPid p s \<noteq> None \<or> findDisplayByServerPid p s \<noteq> None"

lemma allDying_sees:
  assumes "allDying s" "ok s'" "sees s' a r s" "\<And>e. r = Some e \<Longrightarrow> dying e"
  shows "allDying s'"
  using assms by (auto simp: allDying_def sees_def split: if_splits)

lemma deref_mem:
  assumes "wfList s" "d \<in> set (displays s)"
  shows "deref s (daddr d) = Some d"
proof -
  have "find (\<lambda>x. daddr x = daddr d) ds = Some d" if "distinct (map daddr ds)" "d \<in> set ds" for ds
    using that by (induction ds) (auto simp: image_iff)
  with assms show ?thesis by (simp add: deref_def wfList_def live_def)
qed

lemma allDying_followers: "allDying s \<Longrightarrow> followersLive s"
  using deref_mem ok_wfList
  by (fastforce simp: allDying_def dying_def followersLive_def list_all_iff)

lemma reapChild_dying:
  assumes dy: "allDying s" and p: "0 < p" "isChild p s" and tty: "consoleTTYs s \<noteq> []"
  shows "\<exists>s'. reapChild p st s = Some s' \<and> allDying s' \<and> Suc (card (procs s')) = card (procs s)
     \<and> listening s' = listening s \<and> sameEnv s s'"
proof -
  have ok: "ok s" using dy by (simp add: allDying_def)
  have "followersLive s" by (rule allDying_followers [OF dy])
  then obtain s' where s': "reapChild p st s = Some s'" "ok s'" "sameEnv s s'"
    using reapChild_ok [OF ok p(1) tty] by blast
  have dec: "Suc (card (procs s')) = card (procs s)" if "procs s' = procs s - {x} \<and> x \<in> procs s" for x
    using that by (metis card_Suc_Diff1 finite_procs)
  show ?thesis
  proof (cases "findDisplayByPid p s")
    case (Some a)
    then obtain d where d: "deref s a = Some d" "p = dpid d"
      using find_deref [OF ok_wfList [OF ok]] unfolding findDisplayByPid_def by blast
    have dp: "dpid d \<noteq> -1" using d p by simp
    obtain t e where t: "reapSession a st s = Some t" "sees t a (if serverPid d \<noteq> -1 then Some e else None) s"
      "dying e" "dpid e = -1" "serverPid e = serverPid d" "listening t = listening s"
      using reapSession_dying [OF dy d(1) dp] by blast
    have ts: "t = s'" using s'(1) t(1) Some by (simp add: reapChild_def)
    have "allDying s'"
      by (rule allDying_sees [OF dy s'(2) t(2) [unfolded ts]]) (use t(3) in \<open>auto split: if_splits\<close>)
    with dec [OF procs_sees_session [OF t(2) [unfolded ts] d(1) t(4,5) dp]] s' t ts show ?thesis by auto
  next
    case None
    then obtain a where a: "findDisplayByServerPid p s = Some a" using p(2) by (auto simp: isChild_def)
    then obtain d where d: "deref s a = Some d" "p = serverPid d"
      using find_deref [OF ok_wfList [OF ok]] unfolding findDisplayByServerPid_def by blast
    have dp: "serverPid d \<noteq> -1" using d p by simp
    obtain t e where t: "reapServer a s = Some t" "sees t a (if dpid d \<noteq> -1 then Some e else None) s"
      "dying e" "dpid e = dpid d" "serverPid e = -1" "listening t = listening s"
      using reapServer_dying [OF dy d(1) dp] by blast
    have ts: "t = s'" using s'(1) t(1) None a by (simp add: reapChild_def)
    have "allDying s'"
      by (rule allDying_sees [OF dy s'(2) t(2) [unfolded ts]]) (use t(3) in \<open>auto split: if_splits\<close>)
    with dec [OF procs_sees_server [OF t(2) [unfolded ts] d(1) t(5,4) dp]] s' t ts show ?thesis by auto
  qed
qed


fun validReaps :: "(int \<times> int) list \<Rightarrow> dm \<Rightarrow> bool" where
  "validReaps [] s = True"
| "validReaps ((p, st) # ws) s =
     (0 < p \<and> isChild p s \<and> (case reapChild p st s of None \<Rightarrow> True | Some s' \<Rightarrow> validReaps ws s'))"

lemma reapChildren_dying:
  assumes "allDying s" "consoleTTYs s \<noteq> []" "validReaps ws s"
  shows "\<exists>s'. reapChildren ws s = Some s' \<and> allDying s' \<and> card (procs s') + length ws = card (procs s)
     \<and> listening s' = listening s \<and> sameEnv s s'"
  using assms
proof (induction ws s rule: validReaps.induct)
  case (2 p st ws s)
  then obtain s1 where s1: "reapChild p st s = Some s1" "allDying s1" "Suc (card (procs s1)) = card (procs s)"
      "listening s1 = listening s" "sameEnv s s1"
    using reapChild_dying [of s p st] by auto
  have "consoleTTYs s1 \<noteq> []" using s1(5) 2(3) by (simp add: sameEnv_def)
  then obtain s2 where "reapChildren ws s1 = Some s2" "allDying s2" "card (procs s2) + length ws = card (procs s1)"
      "listening s2 = listening s1" "sameEnv s1 s2"
    using 2(1) [OF s1(1) s1(2)] 2(4) s1(1) by auto
  with s1 sameEnv_trans show ?case by auto
qed simp

lemma procs_empty: "displays s = [] \<Longrightarrow> card (procs s) = 0"
proof -
  assume "displays s = []"
  then have "deref s a = None" for a by (simp add: deref_def)
  then show ?thesis by (simp add: procs_def)
qed

lemma allDying_done:
  assumes "allDying s" "card (procs s) = 0"
  shows "displays s = []"
proof (rule ccontr)
  assume "displays s \<noteq> []"
  then obtain d where d: "d \<in> set (displays s)" by (cases "displays s") auto
  have ok: "ok s" using assms(1) by (simp add: allDying_def)
  have dr: "deref s (daddr d) = Some d" using deref_mem [OF ok_wfList [OF ok] d] .
  then have "status d = zombie" using assms(1) by (auto simp: allDying_def dying_def)
  then have "serverPid d \<noteq> -1 \<or> dpid d \<noteq> -1"
    using ok_derefD [OF ok dr] by (simp add: okStat_def)
  then have "(daddr d, serverPid d \<noteq> -1) \<in> procs s" using dr by (auto simp: procs_iff)
  then show False using assms(2) by auto
qed

text \<open>C3. If no display waits for the terminal of a dying one (\<open>noFollowers\<close>), a forced shutdown ends: after \<open>stoppen\<close> every display with a process is a zombie awaiting removal; whatever order the children are reaped in, each takes one process off the count, and when all are reaped the condition of the main loop is false. With a follower the shutdown may use a dangling
  pointer: the follower is removed at once if it has no process yet, and the pointer to it is followed when the
  dying server is reaped (\<^verbatim>\<open>dm.c:1063\<close>, the run \<open>DmRun.dangling_follower\<close>).\<close>

theorem shutdown_ends:
  assumes "okT s" and "noFollowers s"
  shows "\<exists>s1. stoppen True s = Some s1 \<and> stopping s1
     \<and> (\<forall>a d. deref s1 a = Some d \<longrightarrow> status d = zombie \<and> zstatus d = DS_REMOVE)
     \<and> (\<forall>ws. validReaps ws s1 \<longrightarrow>
          (\<exists>s2. reapChildren ws s1 = Some s2 \<and> card (procs s2) + length ws = card (procs s1)
             \<and> (card (procs s2) = 0 \<longrightarrow> \<not> loopCond s2)))"
proof -
  obtain s1 where s1: "stoppen True s = Some s1" "allDying s1" "stopping s1" "\<not> listening s1"
    using stoppen_allDying assms by (auto simp: okT_def)
  have "okT s1" using stoppen_okT [OF assms(1), of True] s1(1) by auto
  then have tty: "consoleTTYs s1 \<noteq> []" by (rule okT_tty)
  have rp: "\<forall>ws. validReaps ws s1 \<longrightarrow>
     (\<exists>s2. reapChildren ws s1 = Some s2 \<and> card (procs s2) + length ws = card (procs s1)
             \<and> (card (procs s2) = 0 \<longrightarrow> \<not> loopCond s2))"
  proof (intro allI impI)
    fix ws assume ws: "validReaps ws s1"
    obtain s2 where s2: "reapChildren ws s1 = Some s2" "allDying s2"
        "card (procs s2) + length ws = card (procs s1)" "listening s2 = listening s1" "sameEnv s1 s2"
      using reapChildren_dying [OF s1(2) tty ws] by blast
    have "\<not> loopCond s2" if "card (procs s2) = 0"
      using allDying_done [OF s2(2) that] s2(4) s1(4) s2(5) s1(3)
      by (simp add: loopCond_def anyRunningDisplays_def sameEnv_def)
    with s2(1,3) show "\<exists>s2. reapChildren ws s1 = Some s2 \<and> card (procs s2) + length ws = card (procs s1)
             \<and> (card (procs s2) = 0 \<longrightarrow> \<not> loopCond s2)"
      by (intro exI [of _ s2] conjI impI) simp_all
  qed
  have dz: "\<forall>a d. deref s1 a = Some d \<longrightarrow> status d = zombie \<and> zstatus d = DS_REMOVE"
    using s1(2) by (simp add: allDying_def dying_def)
  show ?thesis
    by (rule exI [of _ s1], intro conjI) (rule s1(1), rule s1(3), rule dz, rule rp)
qed

theorem shutdown_ends_witness:
  "\<exists>s s1 s2. runEvents demoUp (demoStart ['':0'', '':1'']) = Some s
     \<and> stoppen True s = Some s1 \<and> stopping s1
     \<and> reapChildren [(200, signalled 15), (300, 0), (100, 0)] s1 = Some s2
     \<and> card (procs s2) + 3 = card (procs s1) \<and> card (procs s1) = 3 \<and> \<not> loopCond s2"
proof -
  let ?ws = "[(200, signalled 15), (300, 0), (100, 0)]"
  have "okRun demoUp (demoStart ['':0'', '':1''])" by code_simp
  then obtain s where s: "runEvents demoUp (demoStart ['':0'', '':1'']) = Some s" "reach s"
    using okRun_reach [OF demo_reach] by blast
  have ev: "map_option (\<lambda>s. (noFollowers s, map_option (\<lambda>s1. (validReaps ?ws s1,
        map_option (\<lambda>s2. displays s2) (reapChildren ?ws s1))) (stoppen True s)))
      (runEvents demoUp (demoStart ['':0'', '':1''])) = Some (True, Some (True, Some []))" by code_simp
  then have nf: "noFollowers s" using s(1) by simp
  from shutdown_ends [OF reach_okT [OF s(2)] nf] obtain s1 where s1: "stoppen True s = Some s1"
      "stopping s1" "\<forall>ws. validReaps ws s1 \<longrightarrow>
          (\<exists>s2. reapChildren ws s1 = Some s2 \<and> card (procs s2) + length ws = card (procs s1)
             \<and> (card (procs s2) = 0 \<longrightarrow> \<not> loopCond s2))" by blast
  from ev s(1) s1(1) have v: "validReaps ?ws s1" and d: "\<And>s2. reapChildren ?ws s1 = Some s2 \<Longrightarrow> displays s2 = []"
    by auto
  have l: "length ?ws = 3" by simp
  from mp [OF spec [OF s1(3)] v] obtain s2 where s2: "reapChildren ?ws s1 = Some s2"
      "card (procs s2) + 3 = card (procs s1)" "card (procs s2) = 0 \<longrightarrow> \<not> loopCond s2"
    unfolding l by (elim exE conjE)
  have c0: "card (procs s2) = 0" by (rule procs_empty [OF d [OF s2(1)]])
  with s2(2) have c1: "card (procs s1) = 3" by simp
  show ?thesis
    by (rule exI [of _ s], rule exI [of _ s1], rule exI [of _ s2])
      (intro conjI, rule s(1), rule s1(1), rule s1(2), rule s2(1), rule s2(2), rule c1, rule mp [OF s2(3) c0])
qed

theorem shutdown_demo:
  "map_option (\<lambda>s. (view s, loopCond s))
     (runEvents (demoUp @ map (Pair (demoEnv []))
        [Signal STerm, Signal (SChld [(200, signalled 15), (300, 0), (100, 0)])])
       (demoStart ['':0'', '':1''])) = Some ([], False)"
  by code_simp

end
