(* ===== verification/XdmFlow.thy ===== *)
theory XdmFlow
  imports DmRun
begin

text \<open>
  What a terminal sees of the XDMCP service: the form of the answers, the two messages of a
  login with encrypted authentication, and packets that make the daemon read outside its
  data. \<open>wire\<close> is the byte format of the protocol, the instance the examples use.
\<close>

section \<open>The format of the answers\<close>

fun answersTo :: "int \<Rightarrow> xdmOpCode list" where
  "answersTo op =
     (if op = opcode BROADCAST_QUERY then [WILLING]
      else if op = opcode QUERY then [WILLING, UNWILLING]
      else if op = opcode INDIRECT_QUERY then [FORWARD_QUERY, WILLING]
      else if op = opcode FORWARD_QUERY then [WILLING]
      else if op = opcode REQUEST then [ACCEPT, DECLINE]
      else if op = opcode MANAGE then [REFUSE, FAILED]
      else if op = opcode KEEPALIVE then [ALIVE]
      else [])"

definition sized :: "packet \<Rightarrow> bool" where
  "sized pk \<longleftrightarrow> pkLength pk = word_of_nat (sum_list (map fieldSize (pkFields pk)))"

definition formed :: "xdmOpCode list \<Rightarrow> (sent \<times> dm) option \<Rightarrow> bool" where
  "formed ops r \<longleftrightarrow> (case r of None \<Rightarrow> True
     | Some (out, _) \<Rightarrow> \<forall>(to, l, pk) \<in> set out. sized pk \<and> pkOpcode pk \<in> set ops)"

lemma formed_none [simp]: "formed ops None" "formed ops (Some ([], s))"
  by (simp_all add: formed_def)

lemma formed_one:
  "sized pk \<Longrightarrow> pkOpcode pk \<in> set ops \<Longrightarrow> formed ops (Some ([(sa, len, pk)], s))"
  by (simp add: formed_def)

lemma formed_bind: "(\<And>x. formed ops (f x)) \<Longrightarrow> formed ops (m \<bind> f)"
  by (cases m) simp_all

lemma all_query_formed:
  "WILLING \<in> set ops \<Longrightarrow> type = QUERY \<longrightarrow> UNWILLING \<in> set ops \<Longrightarrow> formed ops (all_query_respond E sa len ns type s)"
  unfolding all_query_respond_def Let_def
  by (auto simp: send_willing_def send_unwilling_def sized_def split: prod.split bind_splits
      intro!: formed_one)

lemma forward_sized: "pk \<in> {x. sized x \<and> pkOpcode x \<in> set ops} \<Longrightarrow> (to, l, q) \<in> set (sendForward pk port c) \<Longrightarrow>
    sized q \<and> pkOpcode q \<in> set ops"
  by (auto simp: sendForward_def split: hostCall.splits if_splits)

lemma forwardPacket_sized: "sized (forwardPacket a p ns)" "pkOpcode (forwardPacket a p ns) = FORWARD_QUERY"
  by (simp_all add: forwardPacket_def sized_def)

lemma formed_append:
  "formed ops (Some (out, s)) \<Longrightarrow> \<forall>(to, l, pk) \<in> set out2. sized pk \<and> pkOpcode pk \<in> set ops \<Longrightarrow>
   formed ops (Some (out2 @ out, t))"
  by (auto simp: formed_def)

lemma indirect_formed: "formed [FORWARD_QUERY, WILLING] (indirect_respond E R sa len n buf s)"
proof (cases "rARRAYofARRAY8 R buf")
  case (Some r)
  obtain ns b where r: "r = (ns, b)" by (cases r)
  have all: "formed [FORWARD_QUERY, WILLING] (all_query_respond E sa len ns INDIRECT_QUERY s)"
    by (rule all_query_formed) simp_all
  let ?out = "\<lambda>calls. concat (map (sendForward (forwardPacket (snd (convertAddr sa)) (netaddrPort sa) ns)
      (requestPort s)) calls)"
  have out: "\<forall>(to, l, pk) \<in> set (?out calls). sized pk \<and> pkOpcode pk \<in> set [FORWARD_QUERY, WILLING]" for calls
    by (auto dest: forward_sized [of _ "[FORWARD_QUERY, WILLING]", rotated]
        simp: forwardPacket_sized)
  have "formed [FORWARD_QUERY, WILLING] (Some (?out calls, s))" for calls
    using out [of calls] by (simp add: formed_def)
  moreover have "formed [FORWARD_QUERY, WILLING] (all_query_respond E sa len ns INDIRECT_QUERY s \<bind>
      (\<lambda>(o2, s). Some (?out calls @ o2, s)))" for calls
    using all formed_append [OF _ out [of calls]]
    by (cases "all_query_respond E sa len ns INDIRECT_QUERY s") auto
  ultimately show ?thesis
    unfolding indirect_respond_def Some r Let_def
    by (auto simp: case_prod_unfold intro!: formed_bind)
qed (simp add: indirect_respond_def)

lemma request_formed: "formed [ACCEPT, DECLINE] (request_respond E R sa len n buf s)"
proof (cases "readRequest R buf")
  case (Some q)
  have d: "formed [ACCEPT, DECLINE] (Some (send_decline sa len an ad st, t))" for an ad st t
    by (simp add: send_decline_def sized_def formed_one)
  have a: "formed [ACCEPT, DECLINE] (Some (send_accept sa len sid an ad zn zd, t))" for sid an ad zn zd t
    by (simp add: send_accept_def sized_def formed_one)
  obtain r s1 where "requestDisplay E sa len q s = (r, s1)" by fastforce
  with Some show ?thesis
    by (cases r) (auto simp: request_respond_def Let_def d a split: sum.split intro!: formed_bind)
qed (simp add: request_respond_def)

lemma manage_formed: "formed [REFUSE, FAILED] (manage E R sa len n buf s)"
proof -
  have r: "formed [REFUSE, FAILED] (Some (send_refuse sa len sid, t))" for sid t
    by (simp add: send_refuse_def sized_def formed_one)
  have f: "formed [REFUSE, FAILED] (Some (send_failed sa len name sid st, t))" for name sid st t
    by (simp add: send_failed_def sized_def Let_def formed_one)
  show ?thesis
    unfolding manage_def
    by (auto simp: r f intro!: formed_bind split: option.split prod.split)
qed

lemma alive_formed: "formed [ALIVE] (send_alive R sa len n buf s)"
  by (auto simp: send_alive_def Let_def formed_one sized_def case_prod_unfold split: option.split)

text \<open>C7. Whatever packet comes in, each answer has an opcode the protocol has for it, and its header announces the size of its fields, modulo 16 bits.\<close>

theorem answers_formed:
  "case (rHeader R buf, processRequestSocket E R sa len buf s) of
     (Some ((ver, op, n), _), Some (out, _)) \<Rightarrow>
       list_all (\<lambda>(to, l, pk). sized pk \<and> pkOpcode pk \<in> set (answersTo op)) out
   | (None, Some (out, _)) \<Rightarrow> out = []
   | _ \<Rightarrow> True"
proof (cases "rHeader R buf")
  case (Some h)
  obtain ver op n rest where h: "h = ((ver, op, n), rest)" by (metis prod.collapse)
  have "formed (answersTo op) (processRequestSocket E R sa len buf s)"
    using all_query_formed indirect_formed request_formed manage_formed alive_formed
    by (auto simp: processRequestSocket_def Some h broadcast_respond_def query_respond_def
        direct_query_respond_def forward_respond_def split: option.split)
  then show ?thesis
    using Some h by (auto simp: formed_def list_all_iff split: option.splits)
qed (simp add: processRequestSocket_def)


section \<open>Encrypted authentication\<close>

lemma indexOf_Some: "indexOf P xs = Some i \<Longrightarrow> i < length xs \<and> P (xs ! i)"
  by (induction xs arbitrary: i) (auto split: if_splits)

lemma indexOf_None: "indexOf P xs = None \<longleftrightarrow> (\<forall>x \<in> set xs. \<not> P x)"
  by (induction xs) auto

lemma xdm_selected:
  assumes "XDM_AUTHORIZATION \<in> set ns"
  shows "\<exists>j. selectAuthorizationTypeIndex XDM_AUTHENTICATION ns = Some j \<and> j < length ns \<and> ns ! j = XDM_AUTHORIZATION"
proof -
  have "indexOf (\<lambda>n. n = XDM_AUTHORIZATION) ns \<noteq> None" using assms by (auto simp: indexOf_None)
  then obtain j where j: "indexOf (\<lambda>n. n = XDM_AUTHORIZATION) ns = Some j" by blast
  with indexOf_Some [OF j] show ?thesis
    by (simp add: selectAuthorizationTypeIndex_def authTable_def)
qed

text \<open>The cipher undoes itself, data come in blocks of eight bytes, memory and random data are at hand.\<close>

definition cipher :: "xenv \<Rightarrow> bool" where
  "cipher E \<longleftrightarrow> (\<forall>d k. length d = 8 \<longrightarrow> xUnwrap E (xWrap E d k) k = d \<and> length (xWrap E d k) = 8)"

definition session :: "bytes \<Rightarrow> bytes" where
  "session r = r[0 := 0]"

lemma xdm_keys:
  assumes c: "cipher E" "\<And>i. xMok E i" "xRandom E 8 = Some r" "length r = 8" "length rho = 8"
    and k: "keyOf E did = Some k"
  shows "\<exists>p1. checkAuthentication E p did XDM_AUTHENTICATION (xWrap E rho k) = Some (True, p1, xWrap E (xIncrement E rho) k)
     \<and> setProtoDisplayAuthorization E XDM_AUTHORIZATION p1 =
        Some (p1\<lparr>pFileAuth := Some \<lparr>xaName = XDM_AUTHORIZATION, xaData = rho @ session r\<rparr>,
                 pXdmcpAuth := Some \<lparr>xaName = XDM_AUTHORIZATION, xaData = xWrap E (session r) k\<rparr>\<rparr>)
     \<and> pAddr p1 = pAddr p \<and> pSessionID p1 = pSessionID p"
proof -
  let ?p1 = "p\<lparr>pKey := k, pAuthData := rho\<rparr>"
  have n: "length XDM_AUTHENTICATION = 20" "XDM_AUTHENTICATION \<noteq> []" "XDM_AUTHORIZATION \<noteq> MIT_COOKIE"
    by (simp_all add: XDM_AUTHENTICATION_def XDM_AUTHORIZATION_def MIT_COOKIE_def ascii_def)
  have w: "length (xWrap E rho k) = 8" "xUnwrap E (xWrap E rho k) k = rho" using c by (simp_all add: cipher_def)
  have "checkAuthentication E p did XDM_AUTHENTICATION (xWrap E rho k) = Some (True, ?p1, xWrap E (xIncrement E rho) k)"
    using n k w c(2) by (simp add: checkAuthentication_def xdmcheckAuthentication_def keyOf_def Let_def)
  moreover have "setProtoDisplayAuthorization E XDM_AUTHORIZATION ?p1 =
        Some (?p1\<lparr>pFileAuth := Some \<lparr>xaName = XDM_AUTHORIZATION, xaData = rho @ session r\<rparr>,
                 pXdmcpAuth := Some \<lparr>xaName = XDM_AUTHORIZATION, xaData = xWrap E (session r) k\<rparr>\<rparr>)"
    using n(3) c by (simp add: setProtoDisplayAuthorization_def findProtocol_def xdmGetXdmcpAuth_def
        xdmGetAuthHelper_def generateAuthHelper_def getAuthHelper_def session_def Let_def)
  ultimately show ?thesis by (intro exI [of _ ?p1]) simp
qed

lemma setProto_found:
  assumes "okProtos (protos s)" "findProtoDisplay (protos s) k = Some (k', p)" "pAddr p = a"
  shows "findProtoDisplay (protos (setProto a i s)) k = Some (k', i)"
proof -
  let ?f = "\<lambda>p. if pAddr (snd p) = a then (fst p, i) else p"
  have k: "sameProto (fst (?f x)) k = sameProto (fst x) k" for x by simp
  have "find (\<lambda>p. sameProto (fst p) k) (map ?f ps) = map_option ?f (find (\<lambda>p. sameProto (fst p) k) ps)" for ps
    by (induction ps) (simp_all only: list.map find.simps k option.map refl split: if_splits, simp_all)
  with assms(2,3) show ?thesis by (simp add: findProtoDisplay_def setProto_def)
qed

text \<open>C2. A terminal that holds the key of the host logs in with encrypted authentication. Its request, with its challenge \<open>rho\<close> encrypted, is accepted; the answer holds the incremented challenge, by which the terminal knows the host, and an encrypted session key; and the authorization stored for the X server to be is the challenge followed by that session key, which the terminal can now compute, too.\<close>

theorem xdm_handshake:
  assumes "okXd s" "cipher E" "\<forall>i. xMok E i" "xRandom E 8 = Some r" "length r = 8" "length rho = 8"
    and "keyOf E (rqDisplayID q) = Some k" "readRequest R buf = Some q" "n = int (requestLen q)"
    and "rqAuthName q = XDM_AUTHENTICATION" "rqAuthData q = xWrap E rho k" "XDM_AUTHORIZATION \<in> set (rqNames q)"
    and "length (rqAddrs q) = length (rqTypes q)" "selectConnectionTypeIndex (rqTypes q) = Some i"
    and "okConn (rqTypes q ! i) (rqAddrs q ! i)"
    and "findProtoDisplay (protos s) (sa, len, rqDisplay q) = None"
  shows "\<exists>sid ad zd s' p. request_respond E R sa len n buf s =
       Some (send_accept sa len sid XDM_AUTHENTICATION ad XDM_AUTHORIZATION zd, s')
     \<and> ad = xWrap E (xIncrement E rho) k
     \<and> findProtoDisplay (protos s') (sa, len, rqDisplay q) = Some ((sa, len, rqDisplay q), p)
     \<and> pSessionID p = sid
     \<and> map_option xaData (pFileAuth p) = Some (rho @ xUnwrap E zd k)"
proof -
  have i: "i < length (rqTypes q)" using indexOf_Some assms(14) by (auto simp: selectConnectionTypeIndex_def)
  then have ty: "rqTypes q \<noteq> []" by auto
  let ?k = "(sa, len, rqDisplay q)"
  let ?sid = "nextSession s + 1"
  obtain x ps where np: "newProtoDisplay (xMok E) (freshAddr (protos s)) (now s) ?k (rqTypes q ! i) (rqAddrs q ! i)
      ?sid (protos s) = (Some x, ps)" "fst x = ?k" "ps = x # tl ps" "pSessionID (snd x) = ?sid"
    using assms(3) by (simp add: newProtoDisplay_def Let_def)
  obtain p where x: "x = (?k, p)" using np(2) by (metis prod.collapse)
  let ?s1 = "s\<lparr>nextSession := ?sid, protos := ps\<rparr>"
  have d: "requestDisplay E sa len q s = (Inr x, ?s1)"
    using np(1) assms(14,16) by (simp add: requestDisplay_def isAccepting_def)
  have "okProtos ps \<and> whenSome okProto (Some x)"
    by (rule newProto_ok [OF np(1) _ assms(15,16)]) (use assms(1) in \<open>simp add: okXd_def\<close>)
  then have okp: "okProtos (protos ?s1)" by simp
  have f1: "findProtoDisplay (protos ?s1) ?k = Some (?k, p)"
    using np(3) x sameProto_refl [of ?k] by (cases ps) (auto simp: findProtoDisplay_def)
  obtain p1 where p1: "checkAuthentication E p (rqDisplayID q) XDM_AUTHENTICATION (xWrap E rho k) =
       Some (True, p1, xWrap E (xIncrement E rho) k)"
    "setProtoDisplayAuthorization E XDM_AUTHORIZATION p1 =
        Some (p1\<lparr>pFileAuth := Some \<lparr>xaName = XDM_AUTHORIZATION, xaData = rho @ session r\<rparr>,
                 pXdmcpAuth := Some \<lparr>xaName = XDM_AUTHORIZATION, xaData = xWrap E (session r) k\<rparr>\<rparr>)"
    "pAddr p1 = pAddr p" "pSessionID p1 = pSessionID p"
    using xdm_keys [OF assms(2) _ assms(4-7)] assms(3) by blast
  define p2 where "p2 = p1\<lparr>pFileAuth := Some \<lparr>xaName = XDM_AUTHORIZATION, xaData = rho @ session r\<rparr>,
                 pXdmcpAuth := Some \<lparr>xaName = XDM_AUTHORIZATION, xaData = xWrap E (session r) k\<rparr>\<rparr>"
  obtain j where j: "selectAuthorizationTypeIndex XDM_AUTHENTICATION (rqNames q) = Some j" "j < length (rqNames q)"
      "rqNames q ! j = XDM_AUTHORIZATION"
    using xdm_selected [OF assms(12)] by blast
  have "rqNames q \<noteq> []" using assms(12) by auto
  then have "requestAuth E q p ?s1 = Some (Inr (XDM_AUTHORIZATION, xWrap E (session r) k),
       xWrap E (xIncrement E rho) k, setProto (pAddr p) p2 ?s1)"
    using j p1 assms(10,11) by (simp add: requestAuth_def p2_def Let_def)
  then have "request_respond E R sa len n buf s = Some (send_accept sa len ?sid XDM_AUTHENTICATION
       (xWrap E (xIncrement E rho) k) XDM_AUTHORIZATION (xWrap E (session r) k), setProto (pAddr p) p2 ?s1)"
    using assms(8-10,13) ty d x np(4) by (simp add: request_respond_def Let_def)
  moreover have "findProtoDisplay (protos (setProto (pAddr p) p2 ?s1)) ?k = Some (?k, p2)"
    by (rule setProto_found [OF okp f1 refl])
  moreover have "xUnwrap E (xWrap E (session r) k) k = session r"
    using assms(2,5) by (simp add: cipher_def session_def)
  ultimately show ?thesis
    using p1(4) np(4) x by (intro exI conjI) (auto simp: p2_def)
qed


section \<open>From the answer to the session\<close>

lemma update_where_hd: "P x \<Longrightarrow> hd (update_where P f (x # xs)) = f x \<and> update_where P f (x # xs) \<noteq> []"
  by (simp add: update_where_def)

lemma findProto_disposed:
  assumes "okProtos ps" "findProtoDisplay ps k = Some (k', p)"
  shows "findProtoDisplay (disposeProtoDisplay (pAddr p) ps) k = None"
proof -
  have in_ps: "(k', p) \<in> set ps" "sameProto k' k" using assms(2) by (auto simp: findProtoDisplay_def dest: find_SomeD)
  have uniq: "q = (k', p)" if "q \<in> set ps" "sameProto (fst q) k" for q
  proof (rule ccontr)
    assume ne: "q \<noteq> (k', p)"
    have "sameProto (fst q) k'" using that(2) in_ps(2) sameProto_sym sameProto_trans by blast
    moreover from this have "sameProto k' (fst q)" by (rule sameProto_sym)
    moreover from that(1) in_ps(1) ne obtain i j where "i < length ps" "j < length ps" "i \<noteq> j"
        "ps ! i = q" "ps ! j = (k', p)"
      by (metis in_set_conv_nth)
    ultimately show False
      using assms(1) sorted_wrt_nth_less [of "\<lambda>p q. \<not> sameProto (fst p) (fst q)" ps]
      by (metis fst_conv linorder_neqE_nat okProtos_def)
  qed
  have "disposeProtoDisplay (pAddr p) ps = filter (\<lambda>q. pAddr (snd q) \<noteq> pAddr p) ps"
    using assms(1) by (simp add: okProtos_def disposeProtoDisplay_filter)
  then show ?thesis using uniq by (auto simp: findProtoDisplay_def find_None_iff)
qed

text \<open>The display that \<open>manageDisplay\<close> makes.\<close>

definition xdmDisplay :: "string \<Rightarrow> sockaddr \<Rightarrow> nat \<Rightarrow> protoInfo \<Rightarrow> 16 word \<Rightarrow> bytes \<Rightarrow> bool \<Rightarrow> addr \<Rightarrow> display" where
  "xdmDisplay name sa len p dn cls b a =
     (fillDisplay sa len p dn cls b (emptyDisplay a name))
       \<lparr>authorizations := (case pFileAuth p of Some f \<Rightarrow> [xaData f] | None \<Rightarrow> [])\<rparr>"

lemma takeProto_display:
  assumes "\<forall>i. xMok E i" "displays s = emptyDisplay a n # ds"
  shows "\<exists>s'. takeProto E p a (setD a (fillDisplay sa len p dn cls b) s) = (None, s')
     \<and> hd (displays s') = xdmDisplay n sa len p dn cls b a \<and> displays s' \<noteq> []
     \<and> protos s' = disposeProtoDisplay (pAddr p) (protos s)"
proof (cases "pFileAuth p")
  case None
  then have "xdmDisplay n sa len p dn cls b a = fillDisplay sa len p dn cls b (emptyDisplay a n)"
    by (simp add: xdmDisplay_def fillDisplay_def emptyDisplay_def)
  with None show ?thesis
    using update_where_hd [of "\<lambda>d. daddr d = a" "emptyDisplay a n" "fillDisplay sa len p dn cls b" ds] assms(2)
    by (simp add: takeProto_def setD_def)
next
  case (Some f)
  let ?g = "\<lambda>d. d\<lparr>authorizations := [xaData f]\<rparr>" and ?h = "fillDisplay sa len p dn cls b"
  have "update_where (\<lambda>d. daddr d = a) ?g (update_where (\<lambda>d. daddr d = a) ?h (emptyDisplay a n # ds)) =
      ?g (?h (emptyDisplay a n)) # map (\<lambda>d. if daddr d = a then ?g d else d)
        (map (\<lambda>d. if daddr d = a then ?h d else d) ds)"
    by (simp add: update_where_def fillDisplay_def)
  with Some assms show ?thesis
    by (simp add: takeProto_def setD_def xdmDisplay_def)
qed

lemma xdmDisplay_simps [simp]:
  "daddr (xdmDisplay name sa len p dn cls b a) = a" "origin (xdmDisplay name sa len p dn cls b a) = dFromXDMCP"
  "displayNumber (xdmDisplay name sa len p dn cls b a) = dn"
  "peerAddr (xdmDisplay name sa len p dn cls b a) = Some (sa, len)"
  "sessionID (xdmDisplay name sa len p dn cls b a) = pSessionID p"
  "dname (xdmDisplay name sa len p dn cls b a) = name" "status (xdmDisplay name sa len p dn cls b a) = notRunning"
  "authorizations (xdmDisplay name sa len p dn cls b a) = (case pFileAuth p of Some f \<Rightarrow> [xaData f] | None \<Rightarrow> [])"
  by (simp_all add: xdmDisplay_def fillDisplay_def origin_def)

lemma newDisplay_made:
  "\<forall>i. mok i \<Longrightarrow> \<exists>a s'. newDisplay mok n s = (Some a, s') \<and> displays s' = emptyDisplay a n # displays s"
  by (simp add: newDisplay_def Let_def)

lemma manageDisplay_display:
  assumes "ok s" "okXd s" "okSender sa" "\<forall>i. xMok E i"
  shows "\<exists>b a s'. manageDisplay E sa len name p dn cls s = Some (None, s')
     \<and> hd (displays s') = xdmDisplay (chars name) sa len p dn cls b a \<and> displays s' \<noteq> []
     \<and> protos s' = disposeProtoDisplay (pAddr p) (protos s)"
proof -
  obtain s1 where s1: "stopNamed (chars name) s = Some s1" "ok s1" "okXd s1" "protos s1 = protos s"
    using stopDisplay_serves [OF assms(1,2), of "chars name"] by blast
  obtain a s2 where nd: "newDisplay (\<lambda>i. xMok E (31 + i)) (chars name) s1 = (Some a, s2)"
      "displays s2 = emptyDisplay a (chars name) # displays s1"
    using newDisplay_made [of "\<lambda>i. xMok E (31 + i)" "chars name" s1] assms(4) by blast
  have s2: "ok s2" "okXd s2" "protos s2 = protos s"
    using newDisplay_ok [OF s1(2) nd(1)] newDisplay_frame [OF nd(1)] s1 by (simp_all add: okXd_def)
  obtain b s3 where s3: "manageChooser E sa s2 = Some (b, s3)" "displays s3 = displays s2" "protos s3 = protos s2"
    by (rule manageChooser_serves [OF s2(1,2) assms(3)])
  have ds: "displays s3 = emptyDisplay a (chars name) # displays s1" using s3(2) nd(2) by simp
  obtain s' where "takeProto E p a (setD a (fillDisplay sa len p dn cls b) s3) = (None, s')"
      "hd (displays s') = xdmDisplay (chars name) sa len p dn cls b a" "displays s' \<noteq> []"
      "protos s' = disposeProtoDisplay (pAddr p) (protos s3)"
    using takeProto_display [OF assms(4) ds] by blast
  then show ?thesis using s1(1) nd(1) s3 s2(3) assms(4) by (intro exI [of _ b] exI [of _ a]) (simp add: manageDisplay_def)
qed

text \<open>C4. The session a terminal was promised starts, once. In every state the daemon reaches, MANAGE with the id of a pending display starts a display for the sender with that id and the authorization generated for it, answers nothing and uses up the pending display; the same packet again is ignored. If the connection type the
  terminal had chosen is neither Internet nor Internet6 - REQUEST accepts a local one too, \<open>local_session_fails\<close> -
  MANAGE is answered with FAILED and nothing changes.\<close>

theorem manage_starts_session:
  assumes "reach s" "okSender sa" "\<forall>i. xMok E i"
    and "rCARD32 R buf = Some (sid, b1)" "rCARD16 R b1 = Some (dn, b2)" "rARRAY8 R b2 = Some (cls, b3)"
    and "n = int (8 + length cls)"
    and "findProtoDisplay (protos s) (sa, len, dn) = Some (k, p)" "pSessionID p = sid"
  shows "if familyOf (uint (pConnType p)) = None
     then manage E R sa len n buf s = Some (send_failed sa len (ascii ''(no name)'') sid (ascii ''out of memory''), s)
     else \<exists>s' d. manage E R sa len n buf s = Some ([], s')
     \<and> displays s' \<noteq> [] \<and> hd (displays s') = d
     \<and> status d = notRunning \<and> sessionID d = sid \<and> peerAddr d = Some (sa, len) \<and> displayNumber d = dn
     \<and> authorizations d = (case pFileAuth p of Some f \<Rightarrow> [xaData f] | None \<Rightarrow> [])
     \<and> findProtoDisplay (protos s') (sa, len, dn) = None
     \<and> manage E R sa len n buf s' = Some ([], s')"
proof (cases "familyOf (uint (pConnType p))")
  case None
  then show ?thesis using assms(4-9) by (simp add: manage_def networkAddressToName_def)
next
  case (Some fam)
  have s: "ok s" "okXd s" using reach_okT [OF assms(1)] by (simp_all add: okT_def okEnv_def)
  have "okProto (k, p)"
    using s(2) assms(8) unfolding okXd_def okProtos_def findProtoDisplay_def by (auto intro: find_list_all)
  then obtain nm where nm: "networkAddressToName E (uint (pConnType p)) (pConnAddr p) sa dn = Some nm"
    using networkAddressToName_defined [OF _ assms(2)] by blast
  then obtain name where name: "nm = Some name"
    using assms(3) Some by (auto simp: networkAddressToName_def split: option.splits prod.splits bind_splits if_splits)
  obtain b a s' where m: "manageDisplay E sa len name p dn cls s = Some (None, s')"
     "hd (displays s') = xdmDisplay (chars name) sa len p dn cls b a" "displays s' \<noteq> []"
     "protos s' = disposeProtoDisplay (pAddr p) (protos s)"
    using manageDisplay_display [OF s assms(2,3)] by blast
  have none: "findProtoDisplay (protos s') (sa, len, dn) = None"
    unfolding m(4) by (rule findProto_disposed [OF _ assms(8)]) (use s(2) in \<open>simp add: okXd_def\<close>)
  have ds: "displays s' = xdmDisplay (chars name) sa len p dn cls b a # tl (displays s')"
    using m(2,3) by (cases "displays s'") simp_all
  have "findDisplayByAddress sa len dn s' = Some a"
    unfolding findDisplayByAddress_def by (subst ds) (simp add: addressEqual_refl)
  moreover have "deref s' a = Some (xdmDisplay (chars name) sa len p dn cls b a)"
    unfolding deref_def by (subst ds) simp
  ultimately have "manage E R sa len n buf s' = Some ([], s')"
    using assms(4-7,9) none by (simp add: manage_def)
  moreover have "manage E R sa len n buf s = Some ([], s')"
    using assms(4-9) nm name m(1) by (simp add: manage_def)
  ultimately show ?thesis using m none assms(9) Some by simp
qed


section \<open>Examples\<close>

text \<open>The wire format: numbers high byte first, arrays behind their lengths.\<close>

fun w16 :: "16 word rx" where
  "w16 (h # l # r) = Some (word_of_int (256 * uint h + uint l), r)"
| "w16 _ = None"

definition w32 :: "32 word rx" where
  "w32 b = do { (h, b) \<leftarrow> w16 b; (l, b) \<leftarrow> w16 b; Some (word_of_int (65536 * uint h + uint l), b) }"

definition wArray :: "bytes rx" where
  "wArray b = do { (n, b) \<leftarrow> w16 b; if length b < unat n then None else Some (take (unat n) b, drop (unat n) b) }"

definition wList :: "'a rx \<Rightarrow> 'a list rx" where
  "wList f b = (case b of [] \<Rightarrow> None | n # b \<Rightarrow> recvMany f (unat n) b)"

definition wire :: xread where
  "wire = \<lparr>rHeader = (\<lambda>b. do { (v, b) \<leftarrow> w16 b; (op, b) \<leftarrow> w16 b; (n, b) \<leftarrow> w16 b; Some ((uint v, uint op, uint n), b) }),
     rCARD16 = w16, rCARD32 = w32, rARRAY8 = wArray, rARRAY16 = wList w16, rARRAYofARRAY8 = wList wArray\<rparr>"

definition p16 :: "nat \<Rightarrow> bytes" where
  "p16 n = [word_of_nat (n div 256), word_of_nat n]"

definition pArray :: "bytes \<Rightarrow> bytes" where
  "pArray b = p16 (length b) @ b"

definition pList :: "('a \<Rightarrow> bytes) \<Rightarrow> 'a list \<Rightarrow> bytes" where
  "pList f l = word_of_nat (length l) # concat (map f l)"

definition pRequest :: "request \<Rightarrow> bytes" where
  "pRequest q = p16 (unat (rqDisplay q)) @ pList (p16 \<circ> unat) (rqTypes q) @ pList pArray (rqAddrs q)
     @ pArray (rqAuthName q) @ pArray (rqAuthData q) @ pList pArray (rqNames q) @ pArray (rqDisplayID q)"

definition pPacket :: "xdmOpCode \<Rightarrow> bytes \<Rightarrow> bytes" where
  "pPacket op b = p16 1 @ p16 (nat (opcode op)) @ p16 (length b) @ b"

text \<open>A cipher that adds up the key; a host that knows the key of one terminal and no names.\<close>

definition demoWrap :: "bytes \<Rightarrow> bytes \<Rightarrow> bytes" where
  "demoWrap d k = map (xor (sum_list k)) d"

definition demoXenv :: xenv where
  "demoXenv = \<lparr>xWrap = demoWrap, xUnwrap = demoWrap, xIncrement = map ((+) 1),
     xKeyFile = Some [ascii ''# keys'', ascii ''term1 secret7''], xRandom = (\<lambda>n. Some (replicate n 7)),
     xByAddr = (\<lambda>_ _. None), xInfo = (\<lambda>_. None), xCanon = (\<lambda>_. None), xNtop = (\<lambda>_ a. concat (map (decimal \<circ> unat) a)),
     xLocalName = ascii ''host'', xLocalAddr = [10, 0, 0, 1], xSourceAddress = False, xRemoveDomainname = False,
     xAutoRescan = False, xRescan = None, xWilling = [], xPopen = None, xMok = (\<lambda>_. True)\<rparr>"

definition demoFrom :: sockaddr where
  "demoFrom = SaInet [4, 210] [10, 0, 0, 5]"

definition demoChallenge :: bytes where
  "demoChallenge = [1, 2, 3, 4, 5, 6, 7, 8]"

definition demoKey :: bytes where
  "demoKey = 0 # ascii ''secret7''"

definition demoRequest :: request where
  "demoRequest = \<lparr>rqDisplay = 0, rqTypes = [0], rqAddrs = [[10, 0, 0, 5]], rqAuthName = XDM_AUTHENTICATION,
     rqAuthData = demoWrap demoChallenge demoKey, rqNames = [MIT_COOKIE, XDM_AUTHORIZATION], rqDisplayID = ascii ''term1''\<rparr>"

definition demoBytes :: bytes where
  "demoBytes = pPacket REQUEST (pRequest demoRequest)"

definition xdmRun :: "(env \<times> event) list" where
  "xdmRun = [(demoEnv ['':0''], Packet demoXenv wire demoFrom 16 demoBytes)]"

lemma demo_cipher: "cipher demoXenv"
  by (simp add: cipher_def demoXenv_def demoWrap_def xor.assoc [symmetric] comp_def)

text \<open>
  The request is a run of its own: its header says what follows, and it is acceptable.
\<close>

lemma demo_read:
  "readRequest wire (drop 6 demoBytes) = Some demoRequest"
  "keyOf demoXenv (ascii ''term1'') = Some demoKey"
  "requestLen demoRequest = 93"
  "okRun xdmRun (demoStart ['':0''])"
  by code_simp+


theorem xdm_handshake_witness:
  "\<exists>sid zd s' p. request_respond demoXenv wire demoFrom 16 93 (drop 6 demoBytes) (demoStart ['':0'']) =
       Some (send_accept demoFrom 16 sid XDM_AUTHENTICATION (demoWrap [2, 3, 4, 5, 6, 7, 8, 9] demoKey) XDM_AUTHORIZATION zd, s')
     \<and> findProtoDisplay (protos s') (demoFrom, 16, 0) = Some ((demoFrom, 16, 0), p)
     \<and> map_option xaData (pFileAuth p) = Some (demoChallenge @ demoWrap zd demoKey)"
proof -
  have x: "okXd (demoStart ['':0''])" using reach_okT [OF demo_reach] by (simp add: okT_def okEnv_def)
  have e: "\<forall>i. xMok demoXenv i" "xRandom demoXenv 8 = Some (replicate 8 7)" "length (replicate 8 (7 :: 8 word)) = 8"
    "xUnwrap demoXenv = demoWrap" "xWrap demoXenv = demoWrap" "xIncrement demoXenv = map ((+) 1)"
    by (simp_all add: demoXenv_def)
  have q: "rqAuthName demoRequest = XDM_AUTHENTICATION" "rqDisplayID demoRequest = ascii ''term1''"
    "rqAuthData demoRequest = xWrap demoXenv demoChallenge demoKey" "XDM_AUTHORIZATION \<in> set (rqNames demoRequest)"
    "length (rqAddrs demoRequest) = length (rqTypes demoRequest)"
    "selectConnectionTypeIndex (rqTypes demoRequest) = Some 0" "okConn (rqTypes demoRequest ! 0) (rqAddrs demoRequest ! 0)"
    "rqDisplay demoRequest = 0" "length demoChallenge = 8"
    by (simp_all add: demoRequest_def e(5) selectConnectionTypeIndex_def okConn_def familyOf_def addrLen_def demoChallenge_def)
  have i: "map ((+) 1) demoChallenge = [2, 3, 4, 5, 6, 7, 8, 9]" by (simp add: demoChallenge_def)
  have n: "findProtoDisplay (protos (demoStart ['':0''])) (demoFrom, 16, rqDisplay demoRequest) = None"
    by code_simp
  have k: "keyOf demoXenv (rqDisplayID demoRequest) = Some demoKey" using demo_read(2) q(2) by simp
  have l: "(93 :: int) = int (requestLen demoRequest)" using demo_read(3) by simp
  from xdm_handshake [OF x demo_cipher e(1-3) q(9) k demo_read(1) l q(1) q(3-7) n] show ?thesis
    unfolding e q(8) i by blast
qed

definition demoManage :: bytes where
  "demoManage = p16 0 @ p16 1 @ p16 0 @ pArray []"

theorem manage_starts_session_witness:
  "\<exists>s s' d. runEvents xdmRun (demoStart ['':0'']) = Some s
     \<and> manage demoXenv wire demoFrom 16 8 demoManage s = Some ([], s')
     \<and> hd (displays s') = d \<and> status d = notRunning \<and> sessionID d = 1
     \<and> authorizations d = [demoChallenge @ 0 # replicate 7 7]
     \<and> manage demoXenv wire demoFrom 16 8 demoManage s' = Some ([], s')"
proof -
  obtain s where s: "runEvents xdmRun (demoStart ['':0'']) = Some s" "reach s"
    using okRun_reach [OF demo_reach demo_read(4)] by blast
  have "map_option (\<lambda>s. map_option (\<lambda>(k, p). (pSessionID p, map_option xaData (pFileAuth p), familyOf (uint (pConnType p))))
        (findProtoDisplay (protos s) (demoFrom, 16, 0)))
      (runEvents xdmRun (demoStart ['':0''])) = Some (Some (1, Some (demoChallenge @ 0 # replicate 7 7), Some AF_INET))"
    by code_simp
  then obtain k p where p: "findProtoDisplay (protos s) (demoFrom, 16, 0) = Some (k, p)" "pSessionID p = 1"
      "map_option xaData (pFileAuth p) = Some (demoChallenge @ 0 # replicate 7 7)" "familyOf (uint (pConnType p)) \<noteq> None"
    using s(1) by auto
  have r: "rCARD32 wire demoManage = Some (1, p16 0 @ pArray [])" "rCARD16 wire (p16 0 @ pArray []) = Some (0, pArray [])"
    "rARRAY8 wire (pArray []) = Some ([], [])" by code_simp+
  have m: "okSender demoFrom" "\<forall>i. xMok demoXenv i" "(8 :: int) = int (8 + length ([] :: bytes))"
    by (simp_all add: demoFrom_def demoXenv_def)
  have a: "(case pFileAuth p of Some f \<Rightarrow> [xaData f] | None \<Rightarrow> []) = [demoChallenge @ 0 # replicate 7 7]"
    using p(3) by auto
  from manage_starts_session [OF s(2) m(1,2) r m(3) p(1,2)] s(1) show ?thesis unfolding a if_not_P [OF p(4)] by blast
qed

section \<open>Packets that make the daemon read outside its data\<close>

text \<open>
  No authentication, but the authorization that needs it: \<^verbatim>\<open>xdmGetXdmcpAuth\<close> copies eight bytes from
  the empty authentication data.
\<close>

theorem unauthenticated_request_overreads:
  "processRequestSocket demoXenv wire demoFrom 16 (pPacket REQUEST (pRequest
     (demoRequest\<lparr>rqAuthName := [], rqAuthData := [], rqNames := [XDM_AUTHORIZATION]\<rparr>))) (demoStart ['':0'']) = None"
  by code_simp

text \<open>An authentication name that is the beginning of the one the code knows is compared past its end.\<close>

theorem short_authentication_overreads:
  "processRequestSocket demoXenv wire demoFrom 16 (pPacket REQUEST (pRequest
     (demoRequest\<lparr>rqAuthName := ascii ''XDM'', rqNames := []\<rparr>))) (demoStart ['':0'']) = None"
  by code_simp

text \<open>The request may announce an address of no bytes; the name of the display is made from four.\<close>

definition shortRun :: "(env \<times> event) list" where
  "shortRun = map (Pair (demoEnv ['':0'']))
     [Packet demoXenv wire demoFrom 16 (pPacket REQUEST (pRequest
        (demoRequest\<lparr>rqAddrs := [[]], rqAuthName := [], rqAuthData := [], rqNames := []\<rparr>)))]"

theorem short_address_overreads:
  "(case runEvents shortRun (demoStart ['':0'']) of
      None \<Rightarrow> False
    | Some s \<Rightarrow> processRequestSocket demoXenv wire demoFrom 16 (pPacket MANAGE demoManage) s = None)"
  by code_simp

text \<open>A terminal with a local connection is accepted, and its MANAGE always fails.\<close>

definition localRun :: "(env \<times> event) list" where
  "localRun = map (Pair (demoEnv ['':0'']))
     [Packet demoXenv wire demoFrom 16 (pPacket REQUEST (pRequest
        (demoRequest\<lparr>rqTypes := [256], rqAuthName := [], rqAuthData := [], rqNames := []\<rparr>)))]"

theorem local_session_fails:
  "(case runEvents localRun (demoStart ['':0'']) of
      None \<Rightarrow> False
    | Some s \<Rightarrow> map_option (map (\<lambda>(to, l, pk). pkOpcode pk) \<circ> fst)
        (processRequestSocket demoXenv wire demoFrom 16 (pPacket MANAGE demoManage) s) = Some [FAILED])"
  by code_simp

end
