(* ===== verification/CtrlSock.thy ===== *)
theory CtrlSock
  imports CtrlSafe
begin

text \<open>
  The connections of the command sockets, \<^verbatim>\<open>acceptSock\<close>, \<^verbatim>\<open>handleChan\<close> and \<^verbatim>\<open>handleCtrl\<close> of
  \<^verbatim>\<open>kdm/backend/ctrl.c\<close>: bytes are read into a buffer of 1024 bytes and cut into commands; and the
  sockets themselves, opened, closed and moved with the configuration (built with
  \<^verbatim>\<open>HONORS_SOCKET_PERMS\<close>).
\<close>

section \<open>Buffered commands\<close>

text \<open>
  \<^verbatim>\<open>struct bsock\<close>. A positive length: commands may be waiting in the buffer; a negative one: the
  beginning of a command was found in it.
\<close>

record bsock =
  bsBuffer :: string
  bsLen :: int

text \<open>What one look at a connection gives: an end, a command with the rest kept, or nothing.\<close>

datatype chan = Closed | Got string bsock | Quiet bsock

text \<open>What \<^verbatim>\<open>select\<close> and \<open>reader\<close> tell: not ready, or the bytes there are, none at the end or for an error.\<close>

datatype input = NotReady | Ready string

definition handleChan :: "bool \<Rightarrow> input \<Rightarrow> bsock \<Rightarrow> chan" where
  "handleChan mok inp cs =
     (case (if bsLen cs \<le> 0 then inp else NotReady) of
        Ready new \<Rightarrow>
          let old = take (nat (- bsLen cs)) (bsBuffer cs); got = take (1024 - length old) new; buf = old @ got in
          if got = [] then Closed
          else if NL \<in> set buf then
            (let line = takeWhile (\<lambda>c. c \<noteq> NL) buf; rest = drop (length line + 1) buf in
             if rest \<noteq> [] \<and> \<not> mok then Closed else Got line \<lparr>bsBuffer = rest, bsLen = int (length rest)\<rparr>)
          else Quiet cs
      | NotReady \<Rightarrow>
          let buf = take (nat (bsLen cs)) (bsBuffer cs) in
          if bsLen cs \<le> 0 then Quiet cs
          else if NL \<in> set buf then
            (let line = takeWhile (\<lambda>c. c \<noteq> NL) buf; rest = drop (length line + 1) buf in
             if rest \<noteq> [] \<and> \<not> mok then Closed else Got line \<lparr>bsBuffer = rest, bsLen = int (length rest)\<rparr>)
          else Quiet (cs\<lparr>bsLen := - bsLen cs\<rparr>))"

definition newSock :: bsock where
  "newSock = \<lparr>bsBuffer = [], bsLen = 0\<rparr>"

text \<open>A series of looks: the commands that come out, and the connection unless it was closed.\<close>

fun chanRun :: "input list \<Rightarrow> bsock \<Rightarrow> string list \<times> bsock option" where
  "chanRun [] cs = ([], Some cs)"
| "chanRun (i # is) cs =
     (case handleChan True i cs of
        Closed \<Rightarrow> ([], None)
      | Got l cs \<Rightarrow> (case chanRun is cs of (ls, r) \<Rightarrow> (l # ls, r))
      | Quiet cs \<Rightarrow> chanRun is cs)"

definition commandText :: "string list \<Rightarrow> string" where
  "commandText ls = concat (map (\<lambda>l. l @ [NL]) ls)"

lemma handleChan_line:
  assumes "NL \<notin> set l"
  shows "handleChan True i \<lparr>bsBuffer = l @ NL # rest, bsLen = int (length l + 1 + length rest)\<rparr>
    = Got l \<lparr>bsBuffer = rest, bsLen = int (length rest)\<rparr>"
proof -
  have "takeWhile (\<lambda>c. c \<noteq> NL) (l @ NL # rest) = l" using assms by (subst takeWhile_append2) auto
  then show ?thesis by (simp add: handleChan_def Let_def nat_add_distrib)
qed

lemma chanRun_lines:
  "list_all (\<lambda>l. NL \<notin> set l) ls \<Longrightarrow> length is = length ls \<Longrightarrow>
   chanRun is \<lparr>bsBuffer = commandText ls @ part, bsLen = int (length (commandText ls @ part))\<rparr>
     = (ls, Some \<lparr>bsBuffer = part, bsLen = int (length part)\<rparr>)"
proof (induction ls arbitrary: "is")
  case (Cons l ls)
  then obtain i js where i: "is = i # js" "length js = length ls" by (cases "is") auto
  have "handleChan True i \<lparr>bsBuffer = l @ NL # (commandText ls @ part), bsLen = int (length l + 1 + length (commandText ls @ part))\<rparr>
    = Got l \<lparr>bsBuffer = commandText ls @ part, bsLen = int (length (commandText ls @ part))\<rparr>"
    by (rule handleChan_line) (use Cons.prems in simp)
  moreover have "commandText (l # ls) @ part = l @ NL # (commandText ls @ part)" by (simp add: commandText_def)
  moreover have "int (length (l @ NL # (commandText ls @ part))) = int (length l + 1 + length (commandText ls @ part))" by simp
  ultimately show ?case using Cons i by (simp del: of_nat_add length_append of_nat_Suc)
qed (simp add: commandText_def)

lemma chanRun_append: "chanRun (is @ js) cs =
    (case chanRun is cs of (ls, None) \<Rightarrow> (ls, None) | (ls, Some cs) \<Rightarrow> (case chanRun js cs of (ms, r) \<Rightarrow> (ls @ ms, r)))"
  by (induction "is" cs rule: chanRun.induct) (auto split: chan.splits prod.splits option.splits)

text \<open>The first look at bytes that hold a command reads them all.\<close>

lemma handleChan_first:
  assumes "NL \<notin> set l" "length p + length l + 1 + length rest \<le> 1024" "l @ NL # rest = q @ r" "r \<noteq> []"
  shows "handleChan True (Ready r) \<lparr>bsBuffer = q, bsLen = - int (length q)\<rparr>
    = Got l \<lparr>bsBuffer = rest, bsLen = int (length rest)\<rparr>"
proof -
  have n: "length q + length r \<le> 1024" using assms(2) arg_cong [OF assms(3), of length] by simp
  then have t: "take (1024 - length q) r = r" "length q < 1024" using assms(4) by (simp, cases r, simp_all)
  have "takeWhile (\<lambda>c. c \<noteq> NL) (l @ NL # rest) = l" using assms(1) by (subst takeWhile_append2) auto
  moreover have "NL \<in> set (q @ r)" using assms(3) by (metis in_set_conv_decomp)
  ultimately show ?thesis using assms(4) t by (simp add: handleChan_def Let_def assms(3) [symmetric])
qed

text \<open>C38. Commands that arrive together are carried out one by one in their order, and what follows the last of them begins the next one: its rest may arrive later, after one more look at the connection. A command and the beginning of the next one must fit into 1024 bytes.\<close>

theorem handleChan_series:
  assumes "ls \<noteq> []" "list_all (\<lambda>l. NL \<notin> set l) ls" "NL \<notin> set p" "NL \<notin> set q"
    "length (commandText ls @ p) \<le> 1024" "length (p @ q) < 1024" "length is = length ls - 1"
  shows "chanRun (Ready (commandText ls @ p) # is @ [NotReady, Ready (q @ [NL])]) newSock = (ls @ [p @ q], Some newSock)"
proof -
  obtain l ms where ls: "ls = l # ms" using assms(1) by (cases ls) auto
  have split: "commandText ls @ p = l @ NL # (commandText ms @ p)" by (simp add: ls commandText_def)
  have one: "handleChan True (Ready (commandText ls @ p)) newSock =
      Got l \<lparr>bsBuffer = commandText ms @ p, bsLen = int (length (commandText ms @ p))\<rparr>"
    using handleChan_first [of l "[]" "commandText ms @ p" "[]" "commandText ls @ p"] assms(2,5) split
    by (simp add: ls newSock_def)
  have rest: "chanRun is \<lparr>bsBuffer = commandText ms @ p, bsLen = int (length (commandText ms @ p))\<rparr>
      = (ms, Some \<lparr>bsBuffer = p, bsLen = int (length p)\<rparr>)"
    by (rule chanRun_lines) (use assms(2,7) ls in auto)
  have look: "handleChan True NotReady \<lparr>bsBuffer = p, bsLen = int (length p)\<rparr> = Quiet \<lparr>bsBuffer = p, bsLen = - int (length p)\<rparr>"
    using assms(3) by (cases p) (auto simp: handleChan_def)
  have "handleChan True (Ready (q @ [NL])) \<lparr>bsBuffer = p, bsLen = - int (length p)\<rparr>
      = Got (p @ q) \<lparr>bsBuffer = [], bsLen = int (length ([] :: string))\<rparr>"
    by (rule handleChan_first [of _ "[]"]) (use assms(3,4,6) in auto)
  then have "chanRun [NotReady, Ready (q @ [NL])] \<lparr>bsBuffer = p, bsLen = int (length p)\<rparr> = ([p @ q], Some newSock)"
    by (simp add: look newSock_def)
  with one rest show ?thesis by (simp add: chanRun_append ls)
qed

theorem handleChan_series_witness:
  "chanRun [Ready (''caps'' @ [NL] @ ''list'' @ [NL] @ ''res''), NotReady, NotReady, Ready (''ume'' @ [NL])] newSock
   = ([''caps'', ''list'', ''resume''], Some newSock)"
proof -
  have "chanRun (Ready (commandText [''caps'', ''list''] @ ''res'') # [NotReady] @ [NotReady, Ready (''ume'' @ [NL])]) newSock
      = ([''caps'', ''list''] @ [''res'' @ ''ume''], Some newSock)"
    by (rule handleChan_series) (simp_all add: commandText_def)
  then show ?thesis by (simp only: commandText_def list.map concat.simps append.simps)
qed

text \<open>The beginning of a command that arrives alone is not kept.\<close>

theorem handleChan_loses_beginning:
  "chanRun [Ready ''shutdown hal'', Ready (''t trynow'' @ [NL])] newSock = ([''t trynow''], Some newSock)"
  by code_simp

section \<open>The sockets\<close>

text \<open>
  The calls made and their results (0 or the error number), oldest first; the system's answer to a
  call may depend on all that went before. Memory suffices.
\<close>

datatype sysCall =
    MkDir string nat | RmDir string | Chmod string nat | ChownGroup string int | ChownUser string int | UnlinkFile string
  | NewSocket | BindTo string | ListenOn string | CloseSock

type_synonym calls = "(sysCall \<times> int) list"

abbreviation EEXIST :: int where "EEXIST \<equiv> 17"
abbreviation ENOENT :: int where "ENOENT \<equiv> 2"

record ctrlRec =
  crPath :: "string option"
  crOpen :: bool
  crGid :: int
  crConns :: "bsock list"

definition ctrl0 :: ctrlRec where
  "ctrl0 = \<lparr>crPath = None, crOpen = False, crGid = 0, crConns = []\<rparr>"

definition call :: "(calls \<Rightarrow> sysCall \<Rightarrow> int) \<Rightarrow> sysCall \<Rightarrow> calls \<Rightarrow> int \<times> calls" where
  "call sys c tr = (sys tr c, tr @ [(c, sys tr c)])"

definition calls :: "(calls \<Rightarrow> sysCall \<Rightarrow> int) \<Rightarrow> sysCall list \<Rightarrow> calls \<Rightarrow> calls" where
  "calls sys cs tr = fold (\<lambda>c tr. snd (call sys c tr)) cs tr"

text \<open>From the socket on: bound and listening, with its permissions (432 is 0660, 448 is 0700, 493 is 0755), or everything is undone.\<close>

definition bindCtrl ::
  "(calls \<Rightarrow> sysCall \<Rightarrow> int) \<Rightarrow> bool \<Rightarrow> int \<Rightarrow> string \<Rightarrow> string \<Rightarrow> calls \<Rightarrow> bool \<times> calls" where
  "bindCtrl sys global grp sockdir path tr =
     (case call sys NewSocket tr of (r, tr) \<Rightarrow>
        if r \<noteq> 0 then (False, calls sys [RmDir sockdir] tr)
        else
          case call sys (BindTo path) tr of (r, tr) \<Rightarrow>
            if r \<noteq> 0 then (False, calls sys [CloseSock, RmDir sockdir] tr)
            else
              case call sys (ListenOn path) tr of (r, tr) \<Rightarrow>
                if r \<noteq> 0 then (False, calls sys [UnlinkFile path, CloseSock, RmDir sockdir] tr)
                else (True, calls sys ([Chmod path 432] @ (if global then [ChownGroup path grp] else []) @ [Chmod sockdir 493]) tr))"

definition bad :: "int \<Rightarrow> int \<Rightarrow> bool" where
  "bad fine r \<longleftrightarrow> r \<noteq> 0 \<and> r \<noteq> fine"

definition openCtrlSock ::
  "(calls \<Rightarrow> sysCall \<Rightarrow> int) \<Rightarrow> string \<Rightarrow> int \<Rightarrow> string option \<Rightarrow> ctrlRec \<Rightarrow> calls \<Rightarrow> ctrlRec \<times> calls" where
  "openCtrlSock sys dir grp name cr tr =
     (if dir = [] \<or> crOpen cr then (cr, tr)
      else
        let (r1, tr1) = call sys (MkDir dir 493) tr;
            tr1 = (if r1 = 0 then calls sys [Chmod dir 493] tr1 else tr1);
            sockdir = dir @ ''/dmctl'' @ (case name of Some n \<Rightarrow> ''-'' @ n | None \<Rightarrow> []);
            path = sockdir @ ''/socket''; none = cr\<lparr>crPath := None\<rparr>;
            (r2, tr2) = call sys (MkDir sockdir 448) tr1;
            (r3, tr3) = call sys (UnlinkFile path) tr2;
            (up, tr4) = bindCtrl sys (name = None) grp sockdir path tr3
        in if bad EEXIST r1 then (cr, tr1)
           else if 108 \<le> length path then (none, tr1)
           else if bad EEXIST r2 then (none, tr2)
           else if bad ENOENT r3 then (none, tr3)
           else (if up then cr\<lparr>crPath := Some path, crOpen := True\<rparr> else none, tr4))"

text \<open>The part of a path before its last slash.\<close>

definition dirOf :: "string \<Rightarrow> string" where
  "dirOf p = rev (tl (dropWhile (\<lambda>c. c \<noteq> CHR ''/'') (rev p)))"

definition closeCtrlSock :: "(calls \<Rightarrow> sysCall \<Rightarrow> int) \<Rightarrow> ctrlRec \<Rightarrow> calls \<Rightarrow> ctrlRec \<times> calls" where
  "closeCtrlSock sys cr tr =
     (case (crOpen cr, crPath cr) of
        (True, Some p) \<Rightarrow>
          (cr\<lparr>crOpen := False, crPath := None, crConns := []\<rparr>, calls sys [CloseSock, UnlinkFile p, RmDir (dirOf p)] tr)
      | _ \<Rightarrow> (cr, tr))"

definition chownCtrl :: "(calls \<Rightarrow> sysCall \<Rightarrow> int) \<Rightarrow> ctrlRec \<Rightarrow> int \<Rightarrow> calls \<Rightarrow> calls" where
  "chownCtrl sys cr uid tr = (case crPath cr of None \<Rightarrow> tr | Some p \<Rightarrow> calls sys [ChownUser p uid] tr)"

text \<open>After a change of the configuration: directory and group decide whether the global socket is opened anew.\<close>

definition updateCtrl :: "(calls \<Rightarrow> sysCall \<Rightarrow> int) \<Rightarrow> string \<Rightarrow> int \<Rightarrow> ctrlRec \<Rightarrow> calls \<Rightarrow> ctrlRec \<times> calls" where
  "updateCtrl sys dir grp cr tr =
     (let old = (case crPath cr of None \<Rightarrow> [] | Some p \<Rightarrow> dirOf (dirOf p)) in
      if old \<noteq> dir \<or> crGid cr \<noteq> grp then
        (case closeCtrlSock sys cr tr of (cr, tr) \<Rightarrow> openCtrlSock sys dir grp None cr tr)
      else (cr, tr))"

text \<open>A new connection is put in front.\<close>

definition acceptSock :: "bool \<Rightarrow> ctrlRec \<Rightarrow> ctrlRec" where
  "acceptSock accepted cr = (if accepted then cr\<lparr>crConns := newSock # crConns cr\<rparr> else cr)"

text \<open>One round over the connections; it ends with the first command. Closed ones are dropped.\<close>

fun handleConns :: "(nat \<Rightarrow> bool) \<Rightarrow> (nat \<Rightarrow> input) \<Rightarrow> nat \<Rightarrow> bsock list \<Rightarrow> (nat \<times> string) option \<times> bsock list" where
  "handleConns mok inp k [] = (None, [])"
| "handleConns mok inp k (c # cs) =
     (case handleChan (mok k) (inp k) c of
        Closed \<Rightarrow> handleConns mok inp (Suc k) cs
      | Got l c \<Rightarrow> (Some (k, l), c # cs)
      | Quiet c \<Rightarrow> (case handleConns mok inp (Suc k) cs of (r, cs) \<Rightarrow> (r, c # cs)))"

definition handleCtrl ::
  "(nat \<Rightarrow> bool) \<Rightarrow> bool option \<Rightarrow> (nat \<Rightarrow> input) \<Rightarrow> ctrlRec \<Rightarrow> (nat \<times> string) option \<times> ctrlRec" where
  "handleCtrl mok conn inp cr =
     (case (crOpen cr, conn) of
        (True, Some accepted) \<Rightarrow> (None, acceptSock accepted cr)
      | _ \<Rightarrow> (case handleConns mok inp 0 (crConns cr) of (r, cs) \<Rightarrow> (r, cr\<lparr>crConns := cs\<rparr>)))"

section \<open>A socket that is up is the one configured\<close>

definition ctrlPath :: "string \<Rightarrow> string" where
  "ctrlPath dir = dir @ ''/dmctl/socket''"

lemma dirOf_ctrlPath: "dirOf (dirOf (ctrlPath dir)) = dir"
  by (simp add: dirOf_def ctrlPath_def)

text \<open>Whether the calls leave a socket at the path.\<close>

fun boundAt :: "string \<Rightarrow> calls \<Rightarrow> bool \<Rightarrow> bool" where
  "boundAt p [] b = b"
| "boundAt p ((c, r) # tr) b =
     boundAt p tr (if c = BindTo p then (if r = 0 then True else b) else if c = UnlinkFile p then False else b)"

lemma boundAt_append: "boundAt p (tr @ ts) b = boundAt p ts (boundAt p tr b)"
  by (induction p tr b rule: boundAt.induct) auto

lemma boundAt_call: "call sys c tr = (r, t) \<Longrightarrow> boundAt p t b = boundAt p [(c, r)] (boundAt p tr b)"
  unfolding call_def by (auto simp: boundAt_append split: if_splits)

lemma boundAt_calls1: "boundAt p (calls sys [c] tr) b = boundAt p [(c, sys tr c)] (boundAt p tr b)"
  by (simp add: calls_def call_def boundAt_append)

lemma calls_length: "length tr \<le> length (calls sys cs tr)"
proof (induction cs arbitrary: tr)
  case (Cons c cs)
  from Cons [of "tr @ [(c, sys tr c)]"] show ?case by (simp add: calls_def call_def)
qed (simp add: calls_def)

lemma call_length: "call sys c tr = (r, t) \<Longrightarrow> length tr \<le> length t"
  by (auto simp: call_def)

lemma bindCtrl_length: "bindCtrl sys g grp d p tr = (up, t) \<Longrightarrow> length tr \<le> length t"
  by (auto simp: bindCtrl_def call_def calls_def split: if_splits)

lemma bindCtrl_bound:
  "bindCtrl sys g grp sockdir path tr = (up, tr') \<Longrightarrow> \<not> boundAt path tr b \<Longrightarrow> boundAt path tr' b = up"
  by (auto simp: bindCtrl_def call_def calls_def boundAt_append split: if_splits)

lemma openCtrl_result:
  assumes "openCtrlSock sys dir grp None ctrl0 tr = (cr, tr')"
  shows "(if crOpen cr then cr = ctrl0\<lparr>crOpen := True, crPath := Some (ctrlPath dir)\<rparr> \<and> boundAt (ctrlPath dir) tr' b \<and> dir \<noteq> []
     else cr = ctrl0 \<and> (boundAt (ctrlPath dir) tr' b \<longrightarrow> boundAt (ctrlPath dir) tr b))"
proof -
  let ?d = "dir @ ''/dmctl''" and ?p = "ctrlPath dir"
  obtain r1 t1 where c1: "call sys (MkDir dir 493) tr = (r1, t1)" by fastforce
  define tr1 where "tr1 = (if r1 = 0 then calls sys [Chmod dir 493] t1 else t1)"
  obtain r2 tr2 where c2: "call sys (MkDir ?d 448) tr1 = (r2, tr2)" by fastforce
  obtain r3 tr3 where c3: "call sys (UnlinkFile ?p) tr2 = (r3, tr3)" by fastforce
  obtain up tr4 where c4: "bindCtrl sys True grp ?d ?p tr3 = (up, tr4)" by fastforce
  have p: "?d @ ''/socket'' = ?p" by (simp add: ctrlPath_def)
  have same: "boundAt ?p tr1 b = boundAt ?p tr b" "boundAt ?p tr2 b = boundAt ?p tr b" "\<not> boundAt ?p tr3 b"
    using boundAt_call [OF c1] boundAt_call [OF c2] boundAt_call [OF c3] by (simp_all add: tr1_def boundAt_calls1)
  have z: "ctrl0\<lparr>crPath := None\<rparr> = ctrl0" "crOpen ctrl0 = False" by (simp_all add: ctrl0_def)
  have e: "openCtrlSock sys dir grp None ctrl0 tr =
     (if dir = [] then (ctrl0, tr)
      else if bad EEXIST r1 then (ctrl0, tr1)
      else if 108 \<le> length ?p then (ctrl0, tr1)
      else if bad EEXIST r2 then (ctrl0, tr2)
      else if bad ENOENT r3 then (ctrl0, tr3)
      else (if up then ctrl0\<lparr>crPath := Some ?p, crOpen := True\<rparr> else ctrl0, tr4))"
    unfolding openCtrlSock_def Let_def option.case append_Nil2 p c1 prod.case tr1_def [symmetric] c2 c3
    by (simp only: c4 prod.case z simp_thms)
  show ?thesis
    using assms [unfolded e] bindCtrl_bound [OF c4 same(3)] same z by (auto split: if_splits)
qed

lemma openCtrl_grows: "length tr \<le> length (snd (openCtrlSock sys dir grp None cr tr))"
proof -
  let ?d = "dir @ ''/dmctl''"
  let ?p = "?d @ ''/socket''"
  obtain r1 t1 where c1: "call sys (MkDir dir 493) tr = (r1, t1)" by fastforce
  define tr1 where "tr1 = (if r1 = 0 then calls sys [Chmod dir 493] t1 else t1)"
  obtain r2 tr2 where c2: "call sys (MkDir ?d 448) tr1 = (r2, tr2)" by fastforce
  obtain r3 tr3 where c3: "call sys (UnlinkFile ?p) tr2 = (r3, tr3)" by fastforce
  obtain up tr4 where c4: "bindCtrl sys True grp ?d ?p tr3 = (up, tr4)" by fastforce
  have "length t1 \<le> length tr1" using calls_length [of t1] by (simp add: tr1_def)
  then have "length tr \<le> length tr1" "length tr1 \<le> length tr2" "length tr2 \<le> length tr3" "length tr3 \<le> length tr4"
    using call_length [OF c1] call_length [OF c2] call_length [OF c3] bindCtrl_length [OF c4] by simp_all
  then show ?thesis
    unfolding openCtrlSock_def Let_def option.case append_Nil2 c1 prod.case tr1_def [symmetric] c2 c3
    using c4 by simp
qed

text \<open>C39. Opening the global socket succeeds completely - then it is bound where the configuration puts it - or leaves neither a path nor a new bound socket behind. A change of the configuration leaves an open socket with its connections alone exactly when the directory is the same and no group is configured, since the group of the socket is never noted.\<close>

theorem ctrl_socket_configured:
  assumes "openCtrlSock sys dir grp None ctrl0 [] = (cr, tr)"
  shows "(if crOpen cr then crPath cr = Some (ctrlPath dir) \<and> boundAt (ctrlPath dir) tr False
       \<and> (updateCtrl sys dir' grp' cr tr = (cr, tr) \<longleftrightarrow> dir' = dir \<and> grp' = 0)
     else crPath cr = None \<and> \<not> boundAt (ctrlPath dir) tr False)"
proof (cases "crOpen cr")
  case True
  then have cr: "cr = ctrl0\<lparr>crOpen := True, crPath := Some (ctrlPath dir)\<rparr>" "boundAt (ctrlPath dir) tr False"
    using openCtrl_result [OF assms, of False] by simp_all
  obtain c t where cl: "closeCtrlSock sys cr tr = (c, t)" by fastforce
  have "length tr < length t" using cl by (auto simp: cr(1) closeCtrlSock_def calls_def call_def)
  then have "snd (openCtrlSock sys dir' grp' None c t) \<noteq> tr" using openCtrl_grows [of t sys dir' grp' c] by auto
  then have "openCtrlSock sys dir' grp' None c t \<noteq> (cr, tr)" by (cases "openCtrlSock sys dir' grp' None c t") simp
  moreover have "crPath cr = Some (ctrlPath dir)" "crGid cr = 0" using cr(1) by (simp_all add: ctrl0_def)
  ultimately show ?thesis using True cl cr(2) by (auto simp: updateCtrl_def dirOf_ctrlPath)
next
  case False
  with openCtrl_result [OF assms, of False] show ?thesis by (simp add: ctrl0_def)
qed

definition fineSys :: "calls \<Rightarrow> sysCall \<Rightarrow> int" where
  "fineSys tr c = 0"

theorem ctrl_socket_configured_witness:
  "case openCtrlSock fineSys ''/run/xdmctl'' 0 None ctrl0 [] of (cr, tr) \<Rightarrow>
     crPath cr = Some ''/run/xdmctl/dmctl/socket'' \<and> updateCtrl fineSys ''/run/xdmctl'' 0 cr tr = (cr, tr)
     \<and> updateCtrl fineSys ''/run/xdmctl'' 5 cr tr \<noteq> (cr, tr)"
proof -
  obtain cr tr where o1: "openCtrlSock fineSys ''/run/xdmctl'' 0 None ctrl0 [] = (cr, tr)" by fastforce
  have "crOpen (fst (openCtrlSock fineSys ''/run/xdmctl'' 0 None ctrl0 []))" by code_simp
  then have up: "crOpen cr" by (simp add: o1)
  from ctrl_socket_configured [OF o1, of "''/run/xdmctl''" 0] ctrl_socket_configured [OF o1, of "''/run/xdmctl''" 5] up
  show ?thesis by (simp add: o1 ctrlPath_def)
qed

end
