(* ===== verification/CtrlFlow.thy ===== *)
theory CtrlFlow
  imports DmRun CtrlSock
begin

text \<open>
  What a client of a command socket can count on: refusals are one line and change nothing, and
  the shutdown of the machine changes only as the configuration allows.
\<close>

section \<open>Refusals\<close>

definition refusalWords :: "string list" where
  "refusalWords = [''bad'', ''perm'', ''noent'', ''inval'', ''busy'', ''notsup'', ''io'', ''nosys'', ''nomem'', ''exists'']"

definition refusal :: "string \<Rightarrow> bool" where
  "refusal t \<longleftrightarrow> (\<exists>sts body. t = sts @ [TAB] @ body @ [NL] \<and> sts \<in> set refusalWords \<and> list_all printable body)"

lemma logLine_refusal: "sts \<in> set refusalWords \<Longrightarrow> refusal (logLine sts msg)"
proof -
  assume s: "sts \<in> set refusalWords"
  let ?fl = "noFlags\<lparr>fBacksl := True\<rparr>"
  have f: "quoted ?fl" "quoteMark ?fl = []" by (simp_all add: quoted_def quoteMark_def noFlags_def)
  have "\<exists>lc. fmtstr (Some v) ?fl 0 (-1) = quoteFrom ?fl lc 0 v" for v using f by (simp add: fmtstr_def) blast
  then obtain lc where "logLine sts msg = sts @ [TAB] @ quoteFrom ?fl lc 0 (takeWhile (\<lambda>c. c \<noteq> NUL) msg) @ [NL]"
    unfolding logLine_def by metis
  with s quoteFrom_back show ?thesis unfolding refusal_def by blast
qed

definition tidy :: "dm \<Rightarrow> answer \<Rightarrow> bool" where
  "tidy s r \<longleftrightarrow> (\<forall>t s'. r = Some (t, s') \<longrightarrow>
     take 2 t = ''ok'' \<or> refusal t \<and> displays s' = displays s \<and> sdRec s' = sdRec s)"

lemma tidy_None [simp]: "tidy s None"
  by (simp add: tidy_def)

lemma tidy_ok [simp]: "tidy s (okNL u)" "tidy s (Some (CHR ''o'' # CHR ''k'' # r, u))"
  by (simp_all add: tidy_def okNL_def numeral_2_eq_2)

lemma tidy_refuse:
  "fmtOk E \<Longrightarrow> displays u = displays s \<Longrightarrow> sdRec u = sdRec s \<Longrightarrow> sts \<in> set refusalWords \<Longrightarrow> tidy s (refuse E sts msg u)"
  by (simp add: tidy_def refuse_line logLine_refusal)

lemma refusalWords_in [simp]:
  "''bad'' \<in> set refusalWords" "''perm'' \<in> set refusalWords" "''noent'' \<in> set refusalWords" "''inval'' \<in> set refusalWords"
  "''busy'' \<in> set refusalWords" "''notsup'' \<in> set refusalWords" "''io'' \<in> set refusalWords" "''nosys'' \<in> set refusalWords"
  "''nomem'' \<in> set refusalWords" "''exists'' \<in> set refusalWords"
  by (simp_all add: refusalWords_def)

lemma tidy_errors:
  assumes "fmtOk E" "displays u = displays s" "sdRec u = sdRec s"
  shows "tidy s (miss E u)" "tidy s (exce E u)" "tidy s (oom E u)"
  unfolding miss_def exce_def oom_def by (rule tidy_refuse [OF assms], simp)+

lemma listAnswer_tidy [simp]: "tidy s (listAnswer E dd flags u)"
  by (cases "allSome (map (emitXSessC E dd) (listXSessions flags u))") (simp_all add: listAnswer_def)

lemma ctrlList_tidy: "fmtOk E \<Longrightarrow> tidy s (ctrlList E dd ar s)"
  by (simp add: ctrlList_def tidy_refuse tidy_errors split: option.split)

lemma ctrlReserve_tidy: "fmtOk E \<Longrightarrow> tidy s (ctrlReserve E dd ar s)"
  by (auto simp: ctrlReserve_def startReserveDisplay_def tidy_refuse tidy_errors split: option.split)

lemma switchVT_tidy [simp]: "fmtOk E \<Longrightarrow> tidy s (switchVT E vt s)"
  by (simp add: switchVT_def tidy_refuse activateVT_def)

lemma ctrlActivate_tidy: "fmtOk E \<Longrightarrow> tidy s (ctrlActivate E dd ar s)"
  by (auto simp: ctrlActivate_def tidy_refuse tidy_errors split: option.split bind_split)

lemma sdStatus_tidy [simp]: "tidy s (sdStatus E dd u)"
  by (simp add: sdStatus_def Let_def)

text \<open>The complaints of the reader of shutdown requests.\<close>

definition goodErr :: "sdParse \<Rightarrow> bool" where
  "goodErr p \<longleftrightarrow> (\<forall>sts msg. p = SdErr sts msg \<longrightarrow> sts \<in> set refusalWords)"

lemma goodErr_simps [simp]:
  "goodErr (SdOk r)" "goodErr SdNone" "goodErr (SdErr sts msg) = (sts \<in> set refusalWords)" "goodErr (sdDone rest r)"
  "goodErr sdMiss" "goodErr sdExce"
  by (simp_all add: goodErr_def sdDone_def sdMiss_def sdExce_def)

lemma parseAction_good [simp]: "goodErr (parseAction isD ap r)"
  by (simp add: parseAction_def split: list.split)

lemma parseTimeout_good [simp]: "goodErr (parseTimeout E isD third s ap r)"
  by (simp add: parseTimeout_def Let_def split: list.split prod.split)

lemma parseWhen_good [simp]: "goodErr (parseWhen E isD third s ap r)"
  by (simp add: parseWhen_def Let_def split: list.split prod.split)

lemma parseOption_good [simp]: "goodErr (parseOption E isD third s ap r)"
  by (simp add: parseOption_def split: list.split option.split prod.split bootRes.split)

lemma parseShutdown_good: "goodErr (parseShutdown E isD third s ap)"
  by (simp add: parseShutdown_def Let_def split: list.split)

lemma displayShutdown_tidy: "fmtOk E \<Longrightarrow> tidy s (displayShutdown E d r s)"
  by (simp add: displayShutdown_def Let_def tidy_refuse)

lemma globalShutdown_tidy: "fmtOk E \<Longrightarrow> tidy s (globalShutdown E r s)"
  by (simp add: globalShutdown_def tidy_refuse)

lemma ctrlShutdown_tidy:
  assumes "fmtOk E"
  shows "tidy s (ctrlShutdown E dd ar s)"
proof -
  define p where "p = parseShutdown E (dd \<noteq> None) (case argN ar 3 of Some w \<Rightarrow> w | None \<Rightarrow> []) s (drop 1 ar)"
  have "goodErr p" unfolding p_def by (rule parseShutdown_good)
  then have "tidy s (case p of SdNone \<Rightarrow> None | SdErr sts msg \<Rightarrow> refuse E sts msg s
        | SdOk r \<Rightarrow> (case dd of Some d \<Rightarrow> displayShutdown E d r s | None \<Rightarrow> globalShutdown E r s))"
    using assms displayShutdown_tidy globalShutdown_tidy by (cases p) (simp_all add: tidy_refuse split: option.split)
  then show ?thesis
    unfolding ctrlShutdown_def p_def [symmetric] using assms tidy_errors by simp
qed

lemma ctrlListBoot_tidy:
  assumes "fmtOk E"
  shows "tidy s (ctrlListBoot E ar s)"
proof (cases "getBootOptions (cBoot E)")
  case (Some x)
  obtain r opts df cu where "x = (r, opts, df, cu)" by (cases x)
  with Some assms show ?thesis by (cases r) (simp_all add: ctrlListBoot_def Let_def tidy_refuse tidy_errors)
qed (use assms in \<open>simp add: ctrlListBoot_def tidy_errors\<close>)

lemma ctrlDisplay_tidy: "fmtOk E \<Longrightarrow> tidy s (ctrlDisplay E d ar s)"
  by (simp add: ctrlDisplay_def Let_def tidy_refuse tidy_errors)

lemma ctrlLogin_tidy: "fmtOk E \<Longrightarrow> tidy s (ctrlLogin E ar s)"
  by (auto simp: ctrlLogin_def Let_def tidy_refuse tidy_errors split: option.split bind_split)

text \<open>A state with one more display in front.\<close>

definition onTop :: "addr \<Rightarrow> dm \<Rightarrow> dm \<Rightarrow> bool" where
  "onTop a s u \<longleftrightarrow> (\<exists>x. displays u = x # displays s \<and> daddr x = a) \<and> a \<notin> set (live s) \<and> sdRec u = sdRec s"

lemma onTop_setD: "onTop a s u \<Longrightarrow> (\<And>d. daddr (f d) = daddr d) \<Longrightarrow> onTop a s (setD a f u)"
proof -
  assume t: "onTop a s u" and f: "\<And>d. daddr (f d) = daddr d"
  then obtain x where x: "displays u = x # displays s" "daddr x = a" "a \<notin> set (live s)" by (auto simp: onTop_def)
  have "update_where (\<lambda>d. daddr d = a) f (displays s) = displays s"
    using x(3) by (auto simp: update_where_def live_def intro!: map_idI)
  then have "displays (setD a f u) = f x # displays s" using x by (simp add: setD_def update_where_def)
  with x f t show ?thesis by (auto simp: onTop_def setD_def)
qed

lemma onTop_removed: "onTop a s u \<Longrightarrow> displays (removeDisplay a u) = displays s \<and> sdRec (removeDisplay a u) = sdRec s"
  by (auto simp: onTop_def removeDisplay_def unlinkIf_def deref_def act_def split: option.split)

lemma onTop_newDisplay:
  assumes "wfList s" "newDisplay mok n s = (Some a, s1)"
  shows "onTop a s s1"
  using newDisplay_Some [OF assms(2)] newDisplay_frame(6) [OF assms(2)] assms(1) by (auto simp: onTop_def wfList_def)

lemma manageAuth_tidy:
  assumes "fmtOk E" "onTop a s u" "argN ar 3 = None \<or> argN ar 4 \<noteq> None"
  shows "tidy s (manageAuth E a ar u)"
  using assms onTop_removed [OF assms(2)]
  by (auto simp: manageAuth_def setDynamicDisplayAuthorization_def tidy_refuse tidy_errors split: option.split)

lemma ctrlManage_tidy:
  assumes "fmtOk E" "wfList s" "argN ar 3 = None \<or> argN ar 4 \<noteq> None"
  shows "tidy s (ctrlManage E ar s)"
proof (cases "argN ar 1")
  case (Some n)
  obtain r s1 where nd: "newDisplay (\<lambda>i. cMok E (10 + i)) n s = (r, s1)" by fastforce
  show ?thesis
  proof (cases r)
    case None
    have "displays s1 = displays s" "sdRec s1 = sdRec s"
      using newDisplay_None [OF nd [unfolded None]] newDisplay_frame(6) [OF nd] by simp_all
    with None Some nd assms(1) show ?thesis by (simp add: ctrlManage_def tidy_refuse tidy_errors)
  next
    case r: (Some a)
    let ?t = "setD a (\<lambda>d. d\<lparr>displayType := or dForeign (or dPermanent dFromCommand)\<rparr>) s1"
    have t: "onTop a s ?t" by (rule onTop_setD [OF onTop_newDisplay [OF assms(2) nd [unfolded r]]]) simp
    have c: "onTop a s (setD a (\<lambda>d. d\<lparr>class2 := x\<rparr>) ?t)" for x by (rule onTop_setD [OF t]) simp
    show ?thesis
      using Some nd r assms(1) onTop_removed [OF t] manageAuth_tidy [OF assms(1) t assms(3)] manageAuth_tidy [OF assms(1) c assms(3)]
      by (simp add: ctrlManage_def Let_def tidy_refuse tidy_errors split: option.split)
  qed
qed (use assms in \<open>simp add: ctrlManage_def tidy_errors\<close>)

lemma ctrlUnmanage_tidy: "fmtOk E \<Longrightarrow> tidy s (ctrlUnmanage E ar s)"
  by (auto simp: ctrlUnmanage_def tidy_refuse tidy_errors split: option.split bind_split)

lemma ctrlGlobal_tidy:
  assumes "fmtOk E" "wfList s" "argN ar 0 \<noteq> Some ''manage'' \<or> argN ar 3 = None \<or> argN ar 4 \<noteq> None"
  shows "tidy s (ctrlGlobal E ar s)"
  using assms ctrlLogin_tidy ctrlManage_tidy ctrlUnmanage_tidy
  by (auto simp: ctrlGlobal_def Let_def tidy_refuse tidy_errors split: bind_split)

lemma ctrlCaps_ok: "take 2 (ctrlCaps E dd s) = ''ok''"
  by (simp add: ctrlCaps_def tabbed_def numeral_2_eq_2 del: One_nat_def)

lemma ctrlWords_tidy:
  assumes "fmtOk E" "wfList s" "argN ar 0 \<noteq> Some ''manage'' \<or> argN ar 3 = None \<or> argN ar 4 \<noteq> None"
  shows "tidy s (ctrlWords E dd ar s)"
proof -
  have "tidy s (Some (ctrlCaps E dd s, s))" using ctrlCaps_ok by (simp add: tidy_def)
  with assms show ?thesis
    using tidy_errors(2) [OF assms(1) refl refl] ctrlList_tidy ctrlReserve_tidy ctrlActivate_tidy ctrlShutdown_tidy
      ctrlListBoot_tidy ctrlDisplay_tidy ctrlGlobal_tidy
    unfolding ctrlWords_def Let_def by (simp split: option.split)
qed

lemma splitTabs_nonempty: "splitTabs w s \<noteq> []"
  by (induction w s rule: splitTabs.induct) auto

text \<open>The command \<open>manage\<close> with an authorization name and no data is refused after the display has been made.\<close>

definition nearlyTidy :: "dm \<Rightarrow> answer \<Rightarrow> bool" where
  "nearlyTidy s r \<longleftrightarrow> (\<forall>t s'. r = Some (t, s') \<longrightarrow>
     take 2 t = ''ok'' \<or> refusal t \<and> sdRec s' = sdRec s \<and> (displays s' = displays s \<or> (\<exists>x. displays s' = x # displays s)))"

lemma tidy_nearly: "tidy s r \<Longrightarrow> nearlyTidy s r"
  by (auto simp: tidy_def nearlyTidy_def)

lemma manageAuth_nearly:
  assumes "fmtOk E" "onTop a s u"
  shows "nearlyTidy s (manageAuth E a ar u)"
proof (cases "argN ar 3 = None \<or> argN ar 4 \<noteq> None")
  case True
  then show ?thesis by (rule tidy_nearly [OF manageAuth_tidy [OF assms]])
next
  case False
  then have m: "manageAuth E a ar u = miss E u" by (auto simp: manageAuth_def)
  have "tidy u (miss E u)" using tidy_errors assms(1) by simp
  then show ?thesis using assms(2) unfolding m by (fastforce simp: tidy_def nearlyTidy_def onTop_def)
qed

lemma ctrlManage_nearly:
  assumes "fmtOk E" "wfList s"
  shows "nearlyTidy s (ctrlManage E ar s)"
proof (cases "argN ar 3 = None \<or> argN ar 4 \<noteq> None")
  case True
  then show ?thesis by (rule tidy_nearly [OF ctrlManage_tidy [OF assms]])
next
  case False
  show ?thesis
  proof (cases "argN ar 1")
    case None
    then show ?thesis using tidy_errors assms(1) by (simp add: ctrlManage_def tidy_nearly)
  next
    case (Some n)
    obtain r s1 where nd: "newDisplay (\<lambda>i. cMok E (10 + i)) n s = (r, s1)" by fastforce
    show ?thesis
    proof (cases r)
      case None
      have "displays s1 = displays s" "sdRec s1 = sdRec s"
        using newDisplay_None [OF nd [unfolded None]] newDisplay_frame(6) [OF nd] by simp_all
      with None Some nd assms(1) show ?thesis by (simp add: ctrlManage_def tidy_refuse tidy_errors tidy_nearly)
    next
      case r: (Some a)
      let ?t = "setD a (\<lambda>d. d\<lparr>displayType := or dForeign (or dPermanent dFromCommand)\<rparr>) s1"
      have t: "onTop a s ?t" by (rule onTop_setD [OF onTop_newDisplay [OF assms(2) nd [unfolded r]]]) simp
      have c: "onTop a s (setD a (\<lambda>d. d\<lparr>class2 := x\<rparr>) ?t)" for x by (rule onTop_setD [OF t]) simp
      have "tidy s (refuse E sts msg s)" "tidy s (oom E (removeDisplay a ?t))" if "sts \<in> set refusalWords" for sts msg
        using that tidy_refuse tidy_errors assms(1) onTop_removed [OF t] by simp_all
      then show ?thesis
        using Some nd r assms(1) onTop_removed [OF t] manageAuth_nearly [OF assms(1) t] manageAuth_nearly [OF assms(1) c]
        by (simp add: ctrlManage_def Let_def tidy_refuse tidy_errors tidy_nearly split: option.split)
    qed
  qed
qed

lemma ctrlWords_manage:
  assumes "fmtOk E" "wfList s" "argN ar 0 = Some ''manage''"
  shows "nearlyTidy s (ctrlWords E dd ar s)"
proof (cases dd)
  case None
  then have "ctrlWords E dd ar s = ctrlManage E ar s" using assms(3) by (simp add: ctrlWords_def ctrlGlobal_def)
  then show ?thesis using ctrlManage_nearly [OF assms(1,2)] by simp
next
  case (Some d)
  then have "ctrlWords E dd ar s = ctrlDisplay E d ar s" using assms(3) by (simp add: ctrlWords_def)
  then show ?thesis using tidy_nearly [OF ctrlDisplay_tidy [OF assms(1)]] by simp
qed

text \<open>C15. With memory, every command is answered with a line that begins with \<open>ok\<close>, or refused with one line - an error
  word, a tab and printable text, whatever the client sent. A refused command leaves the planned shutdown as it was
  and the displays too, with one exception: \<open>manage\<close> with an authorization name and no data is refused, and
  yet the display may be in front of the list.\<close>

theorem refused_changes_nothing:
  assumes "wfList s" "fmtOk E" "cMok E 0" "processCtrl E da line s = Some (t, s')"
  shows "take 2 t = ''ok'' \<or> refusal t \<and> sdRec s' = sdRec s \<and>
    (displays s' = displays s \<or> hd (splitTabs [] line) = ''manage'' \<and> length (splitTabs [] line) = 4
       \<and> (\<exists>x. displays s' = x # displays s))"
proof -
  let ?ws = "splitTabs [] line"
  have hd: "argN ?ws 0 = Some (hd ?ws)" using splitTabs_nonempty [of "[]" line] by (simp add: argN_def hd_conv_nth)
  from assms(3,4) obtain dd where w: "ctrlWords E dd ?ws s = Some (t, s')"
    by (auto simp: processCtrl_def split: option.splits bind_splits)
  show ?thesis
  proof (cases "hd ?ws = ''manage'' \<and> length ?ws = 4")
    case True
    with ctrlWords_manage [OF assms(2,1)] hd w show ?thesis by (auto simp: nearlyTidy_def)
  next
    case False
    with hd have "argN ?ws 0 \<noteq> Some ''manage'' \<or> argN ?ws 3 = None \<or> argN ?ws 4 \<noteq> None"
      by (auto simp: argN_def)
    from ctrlWords_tidy [OF assms(2,1) this] w show ?thesis by (auto simp: tidy_def)
  qed
qed

definition demoCtrl :: cenv where
  "demoCtrl = \<lparr>cFifoShutdown = True, cFifoNuke = False, cBoot = demoBoot, cTime = 0, cMonotonic = False, cVTok = (\<lambda>_. True),
     cConf = None, cConfMok = (\<lambda>_ _. True), cMok = (\<lambda>_. True), cFmt = (\<lambda>_. None), cJunk = 0\<rparr>"

definition cmdLine :: "string list \<Rightarrow> string" where
  "cmdLine ws = tl (concat (map (\<lambda>w. TAB # w) ws))"

theorem refused_changes_nothing_witness:
  "\<exists>t s'. processCtrl demoCtrl None (cmdLine [''shutdown'', ''jump'' @ [NL]]) initDm = Some (t, s') \<and> refusal t
     \<and> t = ''bad'' @ [TAB] @ ''invalid type '' @ [DQ] @ ''jump'' @ [BSL, BSL] @ ''n'' @ [DQ, NL] \<and> displays s' = []"
proof -
  have "map_option fst (processCtrl demoCtrl None (cmdLine [''shutdown'', ''jump'' @ [NL]]) initDm)
      = Some (''bad'' @ [TAB] @ ''invalid type '' @ [DQ] @ ''jump'' @ [BSL, BSL] @ ''n'' @ [DQ, NL])" by code_simp
  then obtain t s' where p: "processCtrl demoCtrl None (cmdLine [''shutdown'', ''jump'' @ [NL]]) initDm = Some (t, s')"
      "t = ''bad'' @ [TAB] @ ''invalid type '' @ [DQ] @ ''jump'' @ [BSL, BSL] @ ''n'' @ [DQ, NL]" by auto
  have w: "splitTabs [] (cmdLine [''shutdown'', ''jump'' @ [NL]]) = [''shutdown'', ''jump'' @ [NL]]" by code_simp
  have "take 2 t = ''ok'' \<or> refusal t \<and> sdRec s' = sdRec initDm \<and> (displays s' = displays initDm \<or>
      hd (splitTabs [] (cmdLine [''shutdown'', ''jump'' @ [NL]])) = ''manage'' \<and>
      length (splitTabs [] (cmdLine [''shutdown'', ''jump'' @ [NL]])) = 4 \<and> (\<exists>x. displays s' = x # displays initDm))"
    by (rule refused_changes_nothing [OF _ _ _ p(1)]) (simp_all add: fmtOk_def demoCtrl_def wfList_def initDm_def live_def)
  moreover have "take 2 t \<noteq> ''ok''" by (simp add: p(2) numeral_2_eq_2)
  ultimately show ?thesis using p w by (auto simp: initDm_def)
qed

text \<open>The exception: the client is told that an argument is missing, and the display is managed without authorization.\<close>

theorem manage_despite_refusal:
  "map_option (\<lambda>(t, s). (t, map (\<lambda>d. (dname d, authorizations d)) (displays s)))
     (processCtrl demoCtrl None (cmdLine [''manage'', ''host:0'', [], ''MIT-MAGIC-COOKIE-1'']) initDm)
   = Some (''bad'' @ [TAB] @ ''missing argument(s)'' @ [NL], [(''host:0'', [])])"
  by code_simp

section \<open>Who may shut the machine down\<close>

lemma addServers_sdRec: "sdRec (addServers mok k srvs t s) = sdRec s"
proof (induction mok k srvs t s rule: addServers.induct)
  case (2 mok k srv srvs t s)
  have st: "sdRec (setServer a n c t v) = sdRec v" for a n c t v by (simp add: setServer_def setD_def)
  show ?case
  proof (cases "\<not> mok k 0 \<or> serverClass srv \<noteq> None \<and> \<not> mok k 1")
    case False
    show ?thesis
    proof (cases "findDisplayByName (serverName srv) s")
      case None
      obtain r s1 where nd: "newDisplay (\<lambda>i. mok k (i + 2)) (serverName srv) s = (r, s1)" by fastforce
      with None False 2(1) [OF False refl refl None nd [symmetric]] newDisplay_frame(6) [OF nd] st
      show ?thesis by (cases r) simp_all
    next
      case (Some a)
      with False 2(2) [OF False refl refl Some] st show ?thesis by simp
    qed
  qed simp
qed simp

lemma cancelShutdown_sdRec: "sdRec (cancelShutdown mok c s) = (sdRec s)\<lparr>how := 0, osname := None\<rparr>"
  by (simp add: cancelShutdown_def rescanConfigs_def scanConfigs_def scanServers_def addServers_sdRec Let_def split: option.split)

text \<open>The user a display acts for.\<close>

definition actor :: "display \<Rightarrow> int" where
  "actor d = (if 0 \<le> userSess d then userSess d else 0)"

definition mayChange :: "display \<Rightarrow> sdrec \<Rightarrow> sdrec \<Rightarrow> bool" where
  "mayChange d g r \<longleftrightarrow>
     (allowShutdown (conf d) = SHUT_ALL \<or> allowShutdown (conf d) = SHUT_ROOT \<and> (actor d = 0 \<or> force r = SHUT_ASK))
     \<and> \<not> forcedByOther (allowNuke (conf d)) (actor d) g
     \<and> (how r \<noteq> 0 \<and> force r = SHUT_FORCE \<longrightarrow> allowNuke (conf d) = SHUT_ALL \<or> allowNuke (conf d) = SHUT_ROOT \<and> actor d = 0)"

definition guarded :: "display \<Rightarrow> dm \<Rightarrow> answer \<Rightarrow> bool" where
  "guarded d s r \<longleftrightarrow> (\<forall>t s'. r = Some (t, s') \<longrightarrow> sdRec s' = sdRec s \<or> mayChange d (sdRec s) (sdRec s'))"

lemma guarded_same [simp]: "guarded d s None" "sdRec u = sdRec s \<Longrightarrow> guarded d s (refuse E sts msg u)"
  "sdRec u = sdRec s \<Longrightarrow> guarded d s (okNL u)" "sdRec u = sdRec s \<Longrightarrow> guarded d s (Some (t, u))"
  "sdRec u = sdRec s \<Longrightarrow> guarded d s (miss E u)" "sdRec u = sdRec s \<Longrightarrow> guarded d s (exce E u)"
  by (auto simp: guarded_def okNL_def refuse_def miss_def exce_def)

lemma guarded_if: "(b \<Longrightarrow> guarded d s x) \<Longrightarrow> (\<not> b \<Longrightarrow> guarded d s y) \<Longrightarrow> guarded d s (if b then x else y)"
  by simp

lemma displayShutdown_guarded:
  assumes "how r = 0 \<longrightarrow> force r = SHUT_CANCEL"
  shows "guarded d s (displayShutdown E d r s)"
proof -
  have pol: "p = SHUT_ALL" if "p \<noteq> SHUT_NONE" "p \<noteq> SHUT_ROOT" for p using that by (cases p) auto
  have put: "sdRec (setD a f s) = sdRec s" for a f by (simp add: setD_def)
  have c: "guarded d s (okNL (doCancel E s))"
    if "mayChange d (sdRec s) ((sdRec s)\<lparr>how := 0, osname := None\<rparr>)"
    using that by (simp add: guarded_def okNL_def doCancel_def cancelShutdown_sdRec)
  have n: "guarded d s (okNL (s\<lparr>sdRec := x\<rparr>))" if "mayChange d (sdRec s) x" for x
    using that by (simp add: guarded_def okNL_def)
  let ?u = "actor d" and ?sh = "allowShutdown (conf d)" and ?nk = "allowNuke (conf d)"
  have a: "(if 0 \<le> userSess d then userSess d else 0) = ?u" by (simp add: actor_def)
  show ?thesis
    unfolding displayShutdown_def Let_def a
  proof (intro guarded_if)
    assume h: "\<not> (?sh = SHUT_NONE \<or> ?sh = SHUT_ROOT \<and> ?u \<noteq> 0 \<and> force (r\<lparr>sdUid := ?u\<rparr>) \<noteq> SHUT_ASK)"
      "\<not> forcedByOther ?nk ?u (sdRec s)" "how (r\<lparr>sdUid := ?u\<rparr>) = 0"
    then have "mayChange d (sdRec s) ((sdRec s)\<lparr>how := 0, osname := None\<rparr>)"
      using assms pol [of ?sh] by (auto simp: mayChange_def)
    then show "guarded d s (okNL (doCancel E s))" by (rule c)
  next
    assume h: "\<not> (?sh = SHUT_NONE \<or> ?sh = SHUT_ROOT \<and> ?u \<noteq> 0 \<and> force (r\<lparr>sdUid := ?u\<rparr>) \<noteq> SHUT_ASK)"
      "\<not> forcedByOther ?nk ?u (sdRec s)"
      "\<not> (force (r\<lparr>sdUid := ?u\<rparr>) = SHUT_FORCE \<and> (?nk = SHUT_NONE \<or> ?nk = SHUT_ROOT \<and> ?u \<noteq> 0))"
    then have "mayChange d (sdRec s) (r\<lparr>sdUid := ?u\<rparr>)"
      using pol [of ?sh] pol [of ?nk] by (auto simp: mayChange_def)
    then show "guarded d s (okNL (s\<lparr>sdRec := r\<lparr>sdUid := ?u\<rparr>\<rparr>))" by (rule n)
  qed (simp_all add: put)
qed

definition keepsHow :: "2 word \<Rightarrow> sdParse \<Rightarrow> bool" where
  "keepsHow h p \<longleftrightarrow> (\<forall>r. p = SdOk r \<longrightarrow> how r = h)"

lemma keepsHow_simps [simp]:
  "keepsHow h (SdErr sts msg)" "keepsHow h SdNone" "keepsHow h sdMiss" "keepsHow h sdExce"
  "how r = h \<Longrightarrow> keepsHow h (sdDone rest r)"
  by (auto simp: keepsHow_def sdDone_def sdMiss_def sdExce_def)

lemma parseAction_how [simp]: "how r = h \<Longrightarrow> keepsHow h (parseAction isD ap r)"
  by (simp add: parseAction_def split: list.split)

lemma parseTimeout_how [simp]: "how r = h \<Longrightarrow> keepsHow h (parseTimeout E isD third s ap r)"
  by (simp add: parseTimeout_def Let_def split: list.split prod.split)

lemma parseWhen_how [simp]: "how r = h \<Longrightarrow> keepsHow h (parseWhen E isD third s ap r)"
  by (simp add: parseWhen_def Let_def split: list.split prod.split)

lemma parseOption_how [simp]: "how r = h \<Longrightarrow> keepsHow h (parseOption E isD third s ap r)"
  by (simp add: parseOption_def split: list.split option.split prod.split bootRes.split)

lemma parseShutdown_cancel:
  assumes "parseShutdown E isD third s ap = SdOk r"
  shows "how r = 0 \<longrightarrow> force r = SHUT_CANCEL"
proof -
  let ?r = "\<lparr>how = 0, force = SHUT_CANCEL, sdUid = -1, start = 0, timeout = cJunk E, osname = None\<rparr>"
  have "keepsHow h (parseOption E isD third s rest (?r\<lparr>how := h\<rparr>))" for h rest by simp
  then have h: "how x = h" if "parseOption E isD third s rest (?r\<lparr>how := h\<rparr>) = SdOk x" for h rest x
    using that unfolding keepsHow_def by blast
  show ?thesis
    using assms h unfolding parseShutdown_def Let_def
    by (force simp: sdDone_def sdMiss_def sdExce_def split: list.splits if_splits)
qed

lemma ctrlShutdown_guarded: "guarded d s (ctrlShutdown E (Some d) ar s)"
proof -
  define p where "p = parseShutdown E True (case argN ar 3 of Some w \<Rightarrow> w | None \<Rightarrow> []) s (drop 1 ar)"
  have "guarded d s (case p of SdNone \<Rightarrow> None | SdErr sts msg \<Rightarrow> refuse E sts msg s | SdOk r \<Rightarrow> displayShutdown E d r s)"
    using displayShutdown_guarded [OF parseShutdown_cancel] by (cases p) (simp_all add: p_def)
  moreover have "guarded d s (sdStatus E (Some d) s)" by (simp add: sdStatus_def Let_def)
  ultimately show ?thesis unfolding ctrlShutdown_def option.case by (simp add: p_def)
qed

lemma ctrlWords_guarded:
  assumes "deref s a = Some d"
  shows "guarded d s (ctrlWords E (Some d) ar s)"
proof -
  have list: "guarded d s (ctrlList E dd ar s)" for dd
  proof -
    have "guarded d s (listAnswer E dd fl s)" for fl
      by (cases "allSome (map (emitXSessC E dd) (listXSessions fl s))") (simp_all add: listAnswer_def)
    then show ?thesis by (simp add: ctrlList_def split: option.split)
  qed
  have reserve: "guarded d s (ctrlReserve E dd ar s)" for dd
    by (auto simp: ctrlReserve_def startReserveDisplay_def setD_def split: option.split)
  have vt: "guarded d s (switchVT E v s)" for v by (simp add: switchVT_def activateVT_def)
  have activate: "guarded d s (ctrlActivate E dd ar s)" for dd
    using vt by (auto simp: ctrlActivate_def split: option.split bind_split)
  have boot: "guarded d s (ctrlListBoot E ar s)"
  proof (cases "getBootOptions (cBoot E)")
    case (Some x)
    obtain r opts df cu where "x = (r, opts, df, cu)" by (cases x)
    with Some show ?thesis by (cases r) (simp_all add: ctrlListBoot_def Let_def)
  qed (simp add: ctrlListBoot_def)
  have "guarded d s (ctrlDisplay E d ar s)"
    by (simp add: ctrlDisplay_def Let_def setLock_def setHist_def raiseSession_def setD_def)
  with list reserve activate boot ctrlShutdown_guarded show ?thesis
    unfolding ctrlWords_def Let_def by simp
qed

text \<open>C13. A command on the socket of a display changes the planned shutdown of the machine only when its configuration allows shutdowns to the user of the display (or it asks at the end of the session), the pending one is not a forced one the user may not override, and a forced one only when the user may force it.\<close>

theorem display_shutdown_allowed:
  assumes "deref s a = Some d" "processCtrl E (Some a) line s = Some (t, s')" "sdRec s' \<noteq> sdRec s"
  shows "(allowShutdown (conf d) = SHUT_ALL \<or> allowShutdown (conf d) = SHUT_ROOT \<and> (actor d = 0 \<or> force (sdRec s') = SHUT_ASK))
     \<and> \<not> forcedByOther (allowNuke (conf d)) (actor d) (sdRec s)
     \<and> (how (sdRec s') \<noteq> 0 \<and> force (sdRec s') = SHUT_FORCE \<longrightarrow>
          allowNuke (conf d) = SHUT_ALL \<or> allowNuke (conf d) = SHUT_ROOT \<and> actor d = 0)"
  using assms ctrlWords_guarded [OF assms(1), of E "splitTabs [] line"]
  by (auto simp: processCtrl_def guarded_def mayChange_def split: if_splits)

definition demoSession :: dm where
  "demoSession = initDm\<lparr>displays := [(emptyDisplay 0 '':0'')\<lparr>displayType := dLocal, status := running, userSess := 1000,
     conf := emptyConf\<lparr>allowShutdown := SHUT_ALL\<rparr>\<rparr>], disphists := [emptyHist '':0''], nextAddr := 1, now := 500\<rparr>"

theorem display_shutdown_allowed_witness:
  "\<exists>t s'. processCtrl demoCtrl (Some 0) (cmdLine [''shutdown'', ''halt'', ''+60'', ''+30'', ''cancel'']) demoSession = Some (t, s')
     \<and> (how (sdRec s'), start (sdRec s'), timeout (sdRec s')) = (SHUT_HALT, 560, 590)
     \<and> \<not> forcedByOther SHUT_NONE 1000 (sdRec demoSession)"
proof -
  let ?r = "processCtrl demoCtrl (Some 0) (cmdLine [''shutdown'', ''halt'', ''+60'', ''+30'', ''cancel'']) demoSession"
  have "map_option (\<lambda>(t, s'). (how (sdRec s'), start (sdRec s'), timeout (sdRec s'))) ?r = Some (SHUT_HALT, 560, 590)" by code_simp
  then obtain t s' where p: "?r = Some (t, s')" "(how (sdRec s'), start (sdRec s'), timeout (sdRec s')) = (SHUT_HALT, 560, 590)" by auto
  let ?d = "(emptyDisplay 0 '':0'')\<lparr>displayType := dLocal, status := running, userSess := 1000,
     conf := emptyConf\<lparr>allowShutdown := SHUT_ALL\<rparr>\<rparr>"
  have d: "deref demoSession 0 = Some ?d" by (simp add: deref_def demoSession_def emptyDisplay_def)
  have "sdRec s' \<noteq> sdRec demoSession" using p(2) by (auto simp: demoSession_def initDm_def sdRec0_def)
  from display_shutdown_allowed [OF d p(1) this] show ?thesis using p by (simp add: emptyConf_def actor_def)
qed

end
