(* ===== verification/IniFile.thy ===== *)
theory IniFile
  imports Prelude
begin

text \<open>
  Configuration files of sections and keys, \<^verbatim>\<open>kdm/backend/inifile.c\<close>. A buffer is the list of its
  bytes before the terminating zero, a pointer into it the rest of the buffer from there on. A
  read past the terminating zero, or before the buffer, is \<open>None\<close>; memory suffices. The data of a
  file is what \<open>iniMap\<close> says: the first value each key has in the sections of one name. Reading
  and writing an entry and merging two files are shown to be lookup, update and overriding of that map.
\<close>

section \<open>Files\<close>

datatype iniSource = Missing | NotRegular | Regular string bool

text \<open>The bool tells whether \<open>read\<close> returns the whole file. The outer \<open>None\<close> is the read of \<open>data[-1]\<close>.\<close>

definition iniLoad :: "iniSource \<Rightarrow> string option option" where
  "iniLoad f =
     (case f of Missing \<Rightarrow> Some None | NotRegular \<Rightarrow> Some None
      | Regular t complete \<Rightarrow>
          if 0x10000 \<le> length t then Some None
          else if \<not> complete then Some None
          else if t = [] then None
          else Some (Some (if last t \<noteq> NL then t @ [NL] else t)))"

text \<open>
  \<open>iniSave\<close>: the fields are what the calls return, an error number on failure. The
  result, \<open>errno\<close> afterwards (\<open>0\<close> stands for unchanged) and what the file holds, if it was opened.
\<close>

record saveCalls =
  svOpen :: "int option"
  svWrite :: "int + nat"
  svClose :: "int option"

definition ENOENT :: int where "ENOENT = 2"
definition ENOSPC :: int where "ENOSPC = 28"

definition iniSave :: "string \<Rightarrow> saveCalls \<Rightarrow> bool \<times> int \<times> string option" where
  "iniSave data c =
     (let s = takeWhile (\<lambda>x. x \<noteq> NUL) data in
      case svOpen c of Some e \<Rightarrow> (False, e, None)
      | None \<Rightarrow>
          (case svWrite c of Inl e \<Rightarrow> (False, e, Some [])
           | Inr n \<Rightarrow>
               if n \<noteq> length s then (False, - ENOSPC, Some (take n s))
               else case svClose c of Some e \<Rightarrow> (False, e, Some s) | None \<Rightarrow> (True, 0, Some s)))"

section \<open>Scanning\<close>

definition blank :: "char \<Rightarrow> bool" where
  "blank c \<longleftrightarrow> c = CHR '' '' \<or> c = TAB"

definition skipBlank :: "string \<Rightarrow> string" where
  "skipBlank p = dropWhile blank p"

definition trimBack :: "string \<Rightarrow> string" where
  "trimBack s = rev (dropWhile blank (rev s))"

text \<open>\<open>while (*p++ != '\n');\<close>\<close>

fun pastLine :: "string \<Rightarrow> string option" where
  "pastLine [] = None"
| "pastLine (c # p) = (if c = NL then Some p else pastLine p)"

text \<open>\<open>for (t = name; *p == *t; t++, p++);\<close> where \<open>t\<close> is a C string\<close>

fun eqRun :: "string \<Rightarrow> string \<Rightarrow> (string \<times> string) option" where
  "eqRun [] [] = None"
| "eqRun (c # p) [] = (if c = NUL then None else Some (c # p, []))"
| "eqRun [] (d # t) = Some ([], d # t)"
| "eqRun (c # p) (d # t) = (if c = d then eqRun p t else Some (c # p, d # t))"

text \<open>
  One round of the loop, for a line that is not empty: the value of the key begins at the first
  pointer and its line ends before the second, or the line has been passed.
\<close>

datatype lineRes = Hit string string | Passed bool string

definition pass :: "bool \<Rightarrow> string \<Rightarrow> lineRes option" where
  "pass insect p = map_option (Passed insect) (pastLine p)"

definition iniLine :: "string \<Rightarrow> string \<Rightarrow> bool \<Rightarrow> string \<Rightarrow> lineRes option" where
  "iniLine section key insect p =
     (if peek p = CHR ''['' then
        case eqRun (tl p) section of None \<Rightarrow> None
        | Some (q, t) \<Rightarrow> pass (t = [] \<and> peek q = CHR '']'') q
      else if insect then
        case eqRun p key of None \<Rightarrow> None
        | Some (q, t) \<Rightarrow>
            let r = skipBlank q in
            if t = [] \<and> peek r = CHR ''='' then
              let cb = skipBlank (tl r) in map_option (Hit cb) (pastLine cb)
            else pass insect r
      else pass insect p)"

text \<open>The loop: the value found, or the places for insertion and the end of the text.\<close>

datatype scanRes = Found string string | Absent "string option" "string option" string

lemma pastLine_shorter: "pastLine p = Some q \<Longrightarrow> length q < length p"
  by (induction p) (auto split: if_splits)

lemma eqRun_shorter: "eqRun p t = Some (q, u) \<Longrightarrow> length q \<le> length p"
  by (induction p t rule: eqRun.induct) (auto split: if_splits)

lemma skipBlank_shorter: "length (skipBlank p) \<le> length p"
  by (simp add: skipBlank_def length_dropWhile_le)

lemma iniLine_shorter:
  assumes "iniLine s k i p = Some (Passed j q)" shows "length q < length p"
proof -
  have hop: "length q < length p" if "pass b r = Some (Passed j q)" "length r \<le> length p" for b r
    using that pastLine_shorter by (fastforce simp: pass_def)
  have tl: "length r \<le> length (tl p) \<Longrightarrow> length r \<le> length p" for r :: string by simp
  show ?thesis using assms
    by (auto simp: iniLine_def Let_def split: if_splits option.splits prod.splits
        intro: hop[OF _ tl[OF eqRun_shorter]] hop[OF _ order_trans[OF skipBlank_shorter eqRun_shorter]] hop)
qed

lemma peek_NL: "peek q = NL \<Longrightarrow> q \<noteq> []"
  by (cases q) auto

function iniScan :: "string \<Rightarrow> string \<Rightarrow> bool \<Rightarrow> string option \<Rightarrow> string option \<Rightarrow> string \<Rightarrow> scanRes option" where
  "iniScan section key insect secinsert pastinsert p =
     (if peek p = NUL then Some (Absent secinsert pastinsert p)
      else
        let q = skipBlank p in
        if peek q = NL then iniScan section key insect secinsert pastinsert (tl q)
        else
          case iniLine section key insect q of None \<Rightarrow> None
          | Some (Hit cb ce) \<Rightarrow> Some (Found cb ce)
          | Some (Passed inside r) \<Rightarrow>
              if inside then iniScan section key inside (Some r) pastinsert r
              else iniScan section key inside secinsert (Some r) r)"
  by pat_completeness auto

termination
  apply (relation "measure (\<lambda>(s, k, i, si, pi, p). length p)")
     apply simp
    apply (metis (no_types, lifting) case_prod_conv in_measure le_less_trans length_tl diff_less less_numeral_extra(1)
      length_greater_0_conv peek_NL skipBlank_shorter order_less_le_trans)
   apply (auto dest!: iniLine_shorter intro: less_le_trans[OF _ skipBlank_shorter])
  done

declare iniScan.simps [simp del]

section \<open>Entries\<close>

text \<open>The rest of the string at \<open>p\<close>, and the distance of two pointers into it.\<close>

abbreviation upto_ptr :: "string \<Rightarrow> string \<Rightarrow> string" where
  "upto_ptr s p \<equiv> take (length s - length p) s"

abbreviation cstrAt :: "string \<Rightarrow> string" where
  "cstrAt p \<equiv> takeWhile (\<lambda>c. c \<noteq> NUL) p"

text \<open>The text that is inserted: the line, with a header when the section is new.\<close>

definition newEntry :: "string \<Rightarrow> string \<Rightarrow> string" where
  "newEntry key value = key @ ''='' @ value @ [NL]"

definition newSection :: "bool \<Rightarrow> string \<Rightarrow> string \<Rightarrow> string \<Rightarrow> string" where
  "newSection ll section key value =
     (if ll then [NL] else []) @ ''['' @ section @ '']'' @ [NL] @ newEntry key value"

text \<open>\<open>iniEntry\<close>: the outer \<open>None\<close> is a read past the buffer, the inner one the null pointer.\<close>

definition iniEntry ::
    "string option \<Rightarrow> string \<Rightarrow> string \<Rightarrow> string option \<Rightarrow> string option option" where
  "iniEntry data section key value =
     (let d = case data of None \<Rightarrow> [] | Some d \<Rightarrow> d in
      case iniScan section key False None None d of None \<Rightarrow> None
      | Some (Found cb ce) \<Rightarrow>
          (case value of
             Some v \<Rightarrow> Some (Some (upto_ptr d cb @ v @ [NL] @ cstrAt ce))
           | None \<Rightarrow> Some (Some (cstrAt (trimBack (take (length cb - length ce - 1) cb)))))
      | Some (Absent secinsert pastinsert p) \<Rightarrow>
          (case value of None \<Rightarrow> Some None
           | Some v \<Rightarrow>
               Some (Some (case secinsert of
                   Some ce \<Rightarrow> upto_ptr d ce @ newEntry key v @ upto_ptr ce p
                 | None \<Rightarrow>
                     (case pastinsert of
                        Some ce \<Rightarrow> upto_ptr d ce @ newSection True section key v @ upto_ptr ce p
                      | None \<Rightarrow> newSection False section key v @ upto_ptr d p)))))"

section \<open>Merging\<close>

text \<open>\<open>for (; *p != c; p++) if (!*p || *p == '\n') goto bail;\<close>\<close>

fun seek :: "char \<Rightarrow> string \<Rightarrow> string option" where
  "seek c [] = None"
| "seek c (x # p) = (if x = c then Some (x # p) else if x = NUL \<or> x = NL then None else seek c p)"

definition commentEnd :: "string \<Rightarrow> string option" where
  "commentEnd p = (case dropWhile (\<lambda>c. c \<noteq> NL \<and> c \<noteq> NUL) p of
      c # q \<Rightarrow> if c = NL then Some q else None | [] \<Rightarrow> None)"

lemma seek_shorter: "seek c p = Some q \<Longrightarrow> length q \<le> length p \<and> q \<noteq> [] \<and> hd q = c"
  by (induction c p rule: seek.induct) (auto split: if_splits)

lemma commentEnd_shorter: "commentEnd p = Some q \<Longrightarrow> length q < length p"
  using length_dropWhile_le[of "\<lambda>c. c \<noteq> NL \<and> c \<noteq> NUL" p]
  by (auto simp: commentEnd_def split: list.splits if_splits)

lemma peek_NUL: "peek p \<noteq> NUL \<Longrightarrow> p \<noteq> []"
  by (cases p) auto

lemma merge_steps:
  assumes "peek (skipBlank p0) \<noteq> NUL"
  shows "length (tl (skipBlank p0)) < length p0"
    and "commentEnd (tl (skipBlank p0)) = Some q \<Longrightarrow> length q < length p0"
    and "seek c (tl (skipBlank p0)) = Some q \<Longrightarrow> length (tl q) < length p0"
    and "seek c (skipBlank p0) = Some q \<Longrightarrow> length (dropWhile P (skipBlank (tl q))) < length p0"
proof -
  have 1: "length (tl (skipBlank p0)) < length (skipBlank p0)" using assms by (cases "skipBlank p0") auto
  have 2: "length (skipBlank p0) \<le> length p0" by (rule skipBlank_shorter)
  show "length (tl (skipBlank p0)) < length p0" using 1 2 by linarith
  show "commentEnd (tl (skipBlank p0)) = Some q \<Longrightarrow> length q < length p0"
    using commentEnd_shorter[of "tl (skipBlank p0)" q] 1 2 by linarith
  show "seek c (tl (skipBlank p0)) = Some q \<Longrightarrow> length (tl q) < length p0"
    using seek_shorter[of c "tl (skipBlank p0)" q] 1 2 length_tl[of q] by linarith
  assume s: "seek c (skipBlank p0) = Some q"
  then have "length (tl q) < length p0" using seek_shorter[OF s] 2 by (cases q) auto
  then show "length (dropWhile P (skipBlank (tl q))) < length p0"
    using length_dropWhile_le[of P "skipBlank (tl q)"] skipBlank_shorter[of "tl q"] by linarith
qed

text \<open>\<open>data\<close> and \<open>section\<close> are the variables of the function. An entry goes into the last section named.\<close>

function iniMergeFrom :: "string option \<Rightarrow> string option \<Rightarrow> string \<Rightarrow> string option option" where
  "iniMergeFrom data section p0 =
     (let p = skipBlank p0 in
      if peek p = NUL then Some data
      else if peek p = NL then iniMergeFrom data section (tl p)
      else if peek p = CHR ''#'' then
        case commentEnd (tl p) of None \<Rightarrow> Some data
        | Some q \<Rightarrow> iniMergeFrom data section q
      else if peek p = CHR ''['' then
        case seek (CHR '']'') (tl p) of None \<Rightarrow> Some data
        | Some q \<Rightarrow> iniMergeFrom data (Some (upto_ptr (tl p) q)) (tl q)
      else
        case seek (CHR ''='') p of None \<Rightarrow> Some data
        | Some q \<Rightarrow>
            let key = trimBack (upto_ptr p q);
                v = skipBlank (tl q);
                r = dropWhile (\<lambda>c. c \<noteq> NUL \<and> c \<noteq> NL) v;
                val = trimBack (upto_ptr v r)
            in case section of None \<Rightarrow> iniMergeFrom data section r
               | Some s \<Rightarrow>
                   (case iniEntry data s key (Some val) of None \<Rightarrow> None
                    | Some d \<Rightarrow> iniMergeFrom d section r))"
  by pat_completeness auto

termination
  by (relation "measure (\<lambda>(d, s, p). length p)") (auto simp: merge_steps simp del: length_tl)

declare iniMergeFrom.simps [simp del]

definition iniMerge :: "string option \<Rightarrow> string option \<Rightarrow> string option option" where
  "iniMerge data newdata = (case newdata of None \<Rightarrow> Some data | Some n \<Rightarrow> iniMergeFrom data None n)"


section \<open>The map of a file\<close>

text \<open>A line is blank, a header, an entry or something else; the entries of a file with their section.\<close>

datatype iniKind = Blank | Header "string option" | Entry string string | Other

definition kindOf :: "string \<Rightarrow> iniKind" where
  "kindOf l =
     (let p = skipBlank l in
      if p = [] then Blank
      else if hd p = CHR ''['' then
        Header (if CHR '']'' \<in> set (tl p) then Some (takeWhile (\<lambda>c. c \<noteq> CHR '']'') (tl p)) else None)
      else if CHR ''='' \<in> set p then
        Entry (trimBack (takeWhile (\<lambda>c. c \<noteq> CHR ''='') p))
          (trimBack (skipBlank (tl (dropWhile (\<lambda>c. c \<noteq> CHR ''='') p))))
      else Other)"

fun unlines :: "string list \<Rightarrow> string" where
  "unlines [] = []"
| "unlines (l # ls) = l @ NL # unlines ls"

function splitLines :: "string \<Rightarrow> string list" where
  "splitLines d =
     (if d = [] then []
      else takeWhile (\<lambda>c. c \<noteq> NL) d # splitLines (tl (dropWhile (\<lambda>c. c \<noteq> NL) d)))"
  by pat_completeness auto

termination
  apply (relation "measure length", simp)
  subgoal for d
    using length_dropWhile_le[of "\<lambda>c. c \<noteq> NL" d]
    by (cases d) (auto intro: le_less_trans simp: less_Suc_eq_le le_diff_conv)
  done

declare splitLines.simps [simp del]

fun sectionAfter :: "string option \<Rightarrow> string list \<Rightarrow> string option" where
  "sectionAfter cur [] = cur"
| "sectionAfter cur (l # ls) = sectionAfter (case kindOf l of Header h \<Rightarrow> h | _ \<Rightarrow> cur) ls"

fun iniEntries :: "string option \<Rightarrow> string list \<Rightarrow> ((string \<times> string) \<times> string) list" where
  "iniEntries cur [] = []"
| "iniEntries cur (l # ls) =
     (case kindOf l of
        Header h \<Rightarrow> iniEntries h ls
      | Entry k v \<Rightarrow> (case cur of None \<Rightarrow> [] | Some s \<Rightarrow> [((s, k), v)]) @ iniEntries cur ls
      | _ \<Rightarrow> iniEntries cur ls)"

definition iniLines :: "string option \<Rightarrow> string list" where
  "iniLines d = (case d of None \<Rightarrow> [] | Some t \<Rightarrow> splitLines t)"

definition iniMap :: "string option \<Rightarrow> string \<times> string \<Rightarrow> string option" where
  "iniMap d = map_of (iniEntries None (iniLines d))"

text \<open>A buffer as \<open>iniLoad\<close> leaves it when the file has no zero byte, and the names \<open>iniEntry\<close> is called with.\<close>

definition iniText :: "string option \<Rightarrow> bool" where
  "iniText d \<longleftrightarrow> (case d of None \<Rightarrow> True | Some t \<Rightarrow> cstr t \<and> (t = [] \<or> last t = NL))"

definition oneLine :: "string \<Rightarrow> bool" where
  "oneLine s \<longleftrightarrow> NL \<notin> set s \<and> NUL \<notin> set s"

definition trimmed :: "string \<Rightarrow> bool" where
  "trimmed s \<longleftrightarrow> skipBlank s = s \<and> trimBack s = s"

definition okSection :: "string \<Rightarrow> bool" where
  "okSection s \<longleftrightarrow> oneLine s \<and> CHR '']'' \<notin> set s"

definition okKey :: "string \<Rightarrow> bool" where
  "okKey k \<longleftrightarrow> oneLine k \<and> trimmed k \<and> CHR ''='' \<notin> set k \<and> peek k \<noteq> CHR ''[''"

definition okValue :: "string \<Rightarrow> bool" where
  "okValue v \<longleftrightarrow> oneLine v \<and> trimmed v"

subsection \<open>Blanks and lines\<close>

lemma blank_simps [simp]:
  "blank CHR '' ''" "blank TAB" "\<not> blank NL" "\<not> blank NUL" "\<not> blank (CHR ''='')" "\<not> blank (CHR ''['')"
  by (simp_all add: blank_def)

lemma skipBlank_append:
  "skipBlank (b @ p) = (if \<forall>c \<in> set b. blank c then skipBlank p else skipBlank b @ p)"
  by (auto simp: skipBlank_def dropWhile_append1 dropWhile_append2)

lemma skipBlank_split: "\<exists>b. s = b @ skipBlank s \<and> (\<forall>c \<in> set b. blank c)"
  unfolding skipBlank_def by (metis set_takeWhileD takeWhile_dropWhile_id)

lemma trimBack_split: "\<exists>b. s = trimBack s @ b \<and> (\<forall>c \<in> set b. blank c)"
proof -
  have "rev s = takeWhile blank (rev s) @ dropWhile blank (rev s)" by simp
  then have "s = trimBack s @ rev (takeWhile blank (rev s))"
    unfolding trimBack_def by (metis rev_append rev_rev_ident)
  then show ?thesis by (metis set_rev set_takeWhileD)
qed

lemma trimBack_append: "\<forall>c \<in> set b. blank c \<Longrightarrow> trimBack (s @ b) = trimBack s"
  using dropWhile_append2[of "rev b" blank "rev s"] by (simp add: trimBack_def)

lemma skipBlank_Cons: "skipBlank (c # p) = (if blank c then skipBlank p else c # p)"
  by (simp add: skipBlank_def)

lemma skipBlank_Nil [simp]: "skipBlank [] = []"
  by (simp add: skipBlank_def)

lemma skipBlank_idem [simp]: "skipBlank (skipBlank p) = skipBlank p"
  by (simp add: skipBlank_def)

lemma set_skipBlank: "set (skipBlank p) \<subseteq> set p"
  unfolding skipBlank_def by (meson set_dropWhileD subsetI)

lemma set_trimBack: "set (trimBack p) \<subseteq> set p"
  unfolding trimBack_def by (metis set_dropWhileD set_rev subsetI)

lemma trimmed_trim: "trimmed (trimBack (skipBlank p))"
proof -
  obtain b where b: "skipBlank p = trimBack (skipBlank p) @ b" using trimBack_split by blast
  have "skipBlank (trimBack (skipBlank p)) = trimBack (skipBlank p)"
  proof (cases "trimBack (skipBlank p)")
    case (Cons c q)
    then have "skipBlank p = c # q @ b" using b by simp
    moreover have "skipBlank p \<noteq> [] \<Longrightarrow> \<not> blank (hd (skipBlank p))" by (simp add: skipBlank_def hd_dropWhile)
    ultimately show ?thesis using Cons by (simp add: skipBlank_Cons)
  qed simp
  then show ?thesis by (simp add: trimmed_def trimBack_def)
qed

lemma skipBlank_line: "skipBlank (l @ NL # rest) = skipBlank l @ NL # rest"
  by (induction l) (simp_all add: skipBlank_Cons)

lemma pastLine_line: "NL \<notin> set x \<Longrightarrow> pastLine (x @ NL # rest) = Some rest"
  by (induction x) auto

lemma unlines_append: "unlines (a @ b) = unlines a @ unlines b"
  by (induction a) auto

lemma takeWhile_line:
  "NL \<notin> set l \<Longrightarrow> takeWhile (\<lambda>c. c \<noteq> NL) (l @ NL # r) = l \<and> dropWhile (\<lambda>c. c \<noteq> NL) (l @ NL # r) = NL # r"
  by (induction l) auto

lemma splitLines_unlines: "\<forall>l \<in> set ls. NL \<notin> set l \<Longrightarrow> splitLines (unlines ls) = ls"
proof (induction ls)
  case (Cons l ls)
  have "takeWhile (\<lambda>c. c \<noteq> NL) (l @ NL # unlines ls) = l" "dropWhile (\<lambda>c. c \<noteq> NL) (l @ NL # unlines ls) = NL # unlines ls"
    using Cons.prems takeWhile_line[of l "unlines ls"] by simp_all
  then show ?case using Cons by (simp add: splitLines.simps[of "l @ NL # unlines ls"])
qed (simp add: splitLines.simps)

lemma unlines_splitLines: "t = [] \<or> last t = NL \<Longrightarrow> unlines (splitLines t) = t"
proof (induction t rule: splitLines.induct)
  case (1 d)
  show ?case
  proof (cases "d = []")
    case False
    then have l: "last d = NL" using 1 by simp
    have "NL \<in> set d" using False l last_in_set by metis
    then have n: "dropWhile (\<lambda>c. c \<noteq> NL) d \<noteq> []" by (auto simp: dropWhile_eq_Nil_conv)
    then have h: "hd (dropWhile (\<lambda>c. c \<noteq> NL) d) = NL" using hd_dropWhile by blast
    let ?r = "tl (dropWhile (\<lambda>c. c \<noteq> NL) d)"
    have d: "d = takeWhile (\<lambda>c. c \<noteq> NL) d @ NL # ?r" using n h
      by (metis list.collapse takeWhile_dropWhile_id)
    then have "?r = [] \<or> last ?r = NL" using l by (metis last_ConsR last_appendR list.discI)
    then have "unlines (splitLines ?r) = ?r" using 1 False by blast
    then show ?thesis using False d by (simp add: splitLines.simps[of d])
  qed (simp add: splitLines.simps)
qed

lemma splitLines_line: "l \<in> set (splitLines t) \<Longrightarrow> NL \<notin> set l \<and> set l \<subseteq> set t"
proof (induction t rule: splitLines.induct)
  case (1 d)
  show ?case
  proof (cases "d = []")
    case False
    consider "l = takeWhile (\<lambda>c. c \<noteq> NL) d" | "l \<in> set (splitLines (tl (dropWhile (\<lambda>c. c \<noteq> NL) d)))"
      using 1(2) False by (auto simp: splitLines.simps[of d])
    then show ?thesis
    proof cases
      case 1 then show ?thesis by (metis (mono_tags, lifting) set_takeWhileD subsetI)
    next
      case 2
      then have "NL \<notin> set l \<and> set l \<subseteq> set (tl (dropWhile (\<lambda>c. c \<noteq> NL) d))" using 1(1) False by blast
      then show ?thesis by (metis (no_types, lifting) list.set_sel(2) set_dropWhileD subset_iff tl_Nil)
    qed
  qed (use 1 in \<open>simp add: splitLines.simps\<close>)
qed


subsection \<open>One line\<close>

lemma eqRun_line:
  assumes "oneLine x" "oneLine t"
  obtains c y u where "x = c @ y" "t = c @ u" "eqRun (x @ NL # rest) t = Some (y @ NL # rest, u)"
    "u = [] \<or> y = [] \<or> hd y \<noteq> hd u"
proof -
  have "\<exists>c y u. x = c @ y \<and> t = c @ u \<and> eqRun (x @ NL # rest) t = Some (y @ NL # rest, u)
      \<and> (u = [] \<or> y = [] \<or> hd y \<noteq> hd u)"
    using assms
  proof (induction x arbitrary: t)
    case Nil
    then show ?case by (cases t) (auto simp: oneLine_def)
  next
    case (Cons d x)
    show ?case
    proof (cases t)
      case Nil then show ?thesis using Cons.prems by (auto simp: oneLine_def)
    next
      case t: (Cons e u)
      show ?thesis
      proof (cases "d = e")
        case True
        have "oneLine x" "oneLine u" using Cons.prems t by (auto simp: oneLine_def)
        from Cons.IH[OF this] obtain c y v where "x = c @ y" "u = c @ v"
          "eqRun (x @ NL # rest) u = Some (y @ NL # rest, v)" "v = [] \<or> y = [] \<or> hd y \<noteq> hd v" by blast
        then have "d # x = (d # c) @ y \<and> t = (d # c) @ v \<and> eqRun ((d # x) @ NL # rest) t = Some (y @ NL # rest, v)
            \<and> (v = [] \<or> y = [] \<or> hd y \<noteq> hd v)" using t True by simp
        then show ?thesis by blast
      next
        case False
        then have "d # x = [] @ d # x \<and> t = [] @ t \<and> eqRun ((d # x) @ NL # rest) t = Some ((d # x) @ NL # rest, t)
            \<and> (t = [] \<or> d # x = [] \<or> hd (d # x) \<noteq> hd t)" using t by simp
        then show ?thesis by blast
      qed
    qed
  qed
  then show thesis using that by blast
qed

lemma upto_char: "c \<in> set p \<Longrightarrow> \<exists>z. p = takeWhile (\<lambda>x. x \<noteq> c) p @ c # z"
  by (induction p) auto

lemma takeWhile_upto: "c \<notin> set a \<Longrightarrow> takeWhile (\<lambda>x. x \<noteq> c) (a @ c # z) = a \<and> dropWhile (\<lambda>x. x \<noteq> c) (a @ c # z) = c # z"
  by (induction a) auto

lemma header_line:
  assumes "oneLine x" "okSection s"
  shows "\<exists>q t y. eqRun (x @ NL # rest) s = Some (q, t) \<and> q = y @ NL # rest \<and> NL \<notin> set y \<and>
    ((t = [] \<and> peek q = CHR '']'') \<longleftrightarrow> (CHR '']'' \<in> set x \<and> takeWhile (\<lambda>c. c \<noteq> CHR '']'') x = s))"
proof -
  have s: "oneLine s" "CHR '']'' \<notin> set s" using assms(2) by (auto simp: okSection_def)
  obtain c y u where x: "x = c @ y" and c: "s = c @ u"
    and e: "eqRun (x @ NL # rest) s = Some (y @ NL # rest, u)" and d: "u = [] \<or> y = [] \<or> hd y \<noteq> hd u"
    using eqRun_line[OF assms(1) s(1)] by metis
  have n: "NL \<notin> set y" using assms(1) x by (auto simp: oneLine_def)
  have "u = [] \<and> peek (y @ NL # rest) = CHR '']'' \<longleftrightarrow> CHR '']'' \<in> set x \<and> takeWhile (\<lambda>c. c \<noteq> CHR '']'') x = s"
  proof
    assume l: "u = [] \<and> peek (y @ NL # rest) = CHR '']''"
    then obtain z where "y = CHR '']'' # z" by (cases y) auto
    then show "CHR '']'' \<in> set x \<and> takeWhile (\<lambda>c. c \<noteq> CHR '']'') x = s"
      using x c l s(2) takeWhile_upto[of "CHR '']''" c z] by auto
  next
    assume r: "CHR '']'' \<in> set x \<and> takeWhile (\<lambda>c. c \<noteq> CHR '']'') x = s"
    then obtain z where "x = s @ CHR '']'' # z" using upto_char[OF conjunct1[OF r]] conjunct2[OF r] by (elim exE) simp
    then have y: "y = u @ CHR '']'' # z" using x c by auto
    have "u = []" using d y by (cases u) auto
    then show "u = [] \<and> peek (y @ NL # rest) = CHR '']''" using y by simp
  qed
  then show ?thesis using e n by blast
qed

lemma key_line:
  assumes "oneLine p" "okKey k"
  shows "\<exists>q t y. eqRun (p @ NL # rest) k = Some (q, t) \<and> skipBlank q = y @ NL # rest \<and> NL \<notin> set y \<and>
    (if CHR ''='' \<in> set p \<and> trimBack (takeWhile (\<lambda>c. c \<noteq> CHR ''='') p) = k
     then t = [] \<and> y = dropWhile (\<lambda>c. c \<noteq> CHR ''='') p
     else \<not> (t = [] \<and> peek (y @ NL # rest) = CHR ''=''))"
proof -
  have k: "oneLine k" "CHR ''='' \<notin> set k" "trimBack k = k" using assms(2) by (auto simp: okKey_def trimmed_def)
  obtain c y u where p: "p = c @ y" and c: "k = c @ u"
    and e: "eqRun (p @ NL # rest) k = Some (y @ NL # rest, u)" and d: "u = [] \<or> y = [] \<or> hd y \<noteq> hd u"
    using eqRun_line[OF assms(1) k(1)] by metis
  have n: "NL \<notin> set (skipBlank y)" using assms(1) p set_skipBlank[of y] by (auto simp: oneLine_def)
  have sk: "skipBlank (y @ NL # rest) = skipBlank y @ NL # rest" by (rule skipBlank_line)
  show ?thesis
  proof (cases "CHR ''='' \<in> set p \<and> trimBack (takeWhile (\<lambda>c. c \<noteq> CHR ''='') p) = k")
    case True
    then obtain z where z: "p = takeWhile (\<lambda>c. c \<noteq> CHR ''='') p @ CHR ''='' # z"
      using upto_char[OF conjunct1[OF True]] by (elim exE)
    obtain b where b: "takeWhile (\<lambda>c. c \<noteq> CHR ''='') p = k @ b" "\<forall>x \<in> set b. blank x"
      using trimBack_split[of "takeWhile (\<lambda>c. c \<noteq> CHR ''='') p"] True by auto
    have y: "y = u @ b @ CHR ''='' # z" using z b(1) p c by auto
    have u: "u = []" using d y by (cases u) auto
    have "skipBlank y = CHR ''='' # z" using y u b(2) by (simp add: skipBlank_append skipBlank_Cons)
    moreover have "dropWhile (\<lambda>c. c \<noteq> CHR ''='') p = CHR ''='' # z"
    proof -
      have "CHR ''='' \<notin> set (k @ b)" using b k(2) by auto
      then show ?thesis using takeWhile_upto[of "CHR ''=''" "k @ b" z] z b(1) by simp
    qed
    ultimately show ?thesis using True e sk n u by auto
  next
    case False
    have "\<not> (u = [] \<and> peek (skipBlank y @ NL # rest) = CHR ''='')"
    proof
      assume a: "u = [] \<and> peek (skipBlank y @ NL # rest) = CHR ''=''"
      then obtain z where z: "skipBlank y = CHR ''='' # z" by (cases "skipBlank y") auto
      obtain b where b: "y = b @ skipBlank y" "\<forall>x \<in> set b. blank x" using skipBlank_split by blast
      have pz: "p = (k @ b) @ CHR ''='' # z" using p c a b(1) z by simp
      have "CHR ''='' \<notin> set (k @ b)" using b(2) k(2) by auto
      then have "takeWhile (\<lambda>c. c \<noteq> CHR ''='') p = k @ b"
        unfolding pz by (rule conjunct1[OF takeWhile_upto])
      moreover have "trimBack (k @ b) = k" using trimBack_append[OF b(2)] k(3) by simp
      ultimately show False using False pz by simp
    qed
    then show ?thesis using False e sk n by (intro exI[of _ "y @ NL # rest"] exI[of _ u] exI[of _ "skipBlank y"]) auto
  qed
qed

lemma iniLine_line:
  assumes l: "oneLine l" and s: "okSection s" and k: "okKey k" and p: "skipBlank l \<noteq> []"
  shows "iniLine s k inside (skipBlank l @ NL # rest) = Some
    (case kindOf l of
       Header h \<Rightarrow> Passed (h = Some s) rest
     | Entry n v \<Rightarrow>
         (if inside \<and> n = k
          then Hit (skipBlank (tl (dropWhile (\<lambda>c. c \<noteq> CHR ''='') (skipBlank l))) @ NL # rest) rest
          else Passed inside rest)
     | _ \<Rightarrow> Passed inside rest)"
proof -
  let ?p = "skipBlank l"
  have op: "oneLine ?p" using l set_skipBlank[of l] by (auto simp: oneLine_def)
  then have np: "NL \<notin> set ?p" by (simp add: oneLine_def)
  have hd: "peek (?p @ NL # rest) = hd ?p" using p by (cases ?p) auto
  show ?thesis
  proof (cases "hd ?p = CHR ''[''")
    case True
    have "oneLine (tl ?p)" using op by (cases ?p) (auto simp: oneLine_def)
    from header_line[OF this s, of rest] obtain q t y where
      e: "eqRun (tl ?p @ NL # rest) s = Some (q, t)" and q: "q = y @ NL # rest" "NL \<notin> set y"
      and c: "(t = [] \<and> peek q = CHR '']'') \<longleftrightarrow> (CHR '']'' \<in> set (tl ?p) \<and> takeWhile (\<lambda>c. c \<noteq> CHR '']'') (tl ?p) = s)"
      by blast
    have t: "tl (?p @ NL # rest) = tl ?p @ NL # rest" using p by (cases ?p) auto
    have i: "iniLine s k inside (?p @ NL # rest) = Some (Passed (t = [] \<and> peek q = CHR '']'') rest)"
      unfolding iniLine_def hd t e using True q pastLine_line[OF q(2)] by (simp add: pass_def)
    show ?thesis unfolding i c using True p by (auto simp: kindOf_def Let_def)
  next
    case h: False
    have pass: "NL \<notin> set r \<Longrightarrow> pass inside (r @ NL # rest) = Some (Passed inside rest)" for r
      by (simp add: pass_def pastLine_line)
    show ?thesis
    proof (cases inside)
      case False
      then show ?thesis using h hd p pass[OF np] by (auto simp: iniLine_def kindOf_def Let_def)
    next
      case True
      from key_line[OF op k, of rest] obtain q t y where
        e: "eqRun (?p @ NL # rest) k = Some (q, t)" and q: "skipBlank q = y @ NL # rest" "NL \<notin> set y"
        and c: "if CHR ''='' \<in> set ?p \<and> trimBack (takeWhile (\<lambda>c. c \<noteq> CHR ''='') ?p) = k
          then t = [] \<and> y = dropWhile (\<lambda>c. c \<noteq> CHR ''='') ?p
          else \<not> (t = [] \<and> peek (y @ NL # rest) = CHR ''='')" by blast
      show ?thesis
      proof (cases "CHR ''='' \<in> set ?p \<and> trimBack (takeWhile (\<lambda>c. c \<noteq> CHR ''='') ?p) = k")
        case t: True
        then obtain z where z: "?p = takeWhile (\<lambda>c. c \<noteq> CHR ''='') ?p @ CHR ''='' # z"
          using upto_char[OF conjunct1[OF t]] by (elim exE)
        have dw: "dropWhile (\<lambda>c. c \<noteq> CHR ''='') ?p = CHR ''='' # z"
          using takeWhile_dropWhile_id[of "\<lambda>c. c \<noteq> CHR ''=''" ?p] z by (metis same_append_eq)
        have nz: "NL \<notin> set z" using np z by (metis Un_iff list.set_intros(2) set_append)
        have n2: "NL \<notin> set (skipBlank z)" using nz set_skipBlank by blast
        have tq: "t = []" "y = CHR ''='' # z" using c t dw by auto
        have hit: "iniLine s k inside (?p @ NL # rest) = Some (Hit (skipBlank z @ NL # rest) rest)"
          unfolding iniLine_def hd e using h True tq q(1)
          by (simp add: Let_def skipBlank_line pastLine_line[OF n2])
        have kd: "\<exists>v. kindOf l = Entry k v" using t h p by (simp add: kindOf_def Let_def)
        show ?thesis unfolding hit using kd True by (auto simp: dw)
      next
        case f: False
        have "iniLine s k inside (?p @ NL # rest) = Some (Passed inside rest)"
          unfolding iniLine_def hd e using h True c f q pass[OF q(2)] by (simp add: Let_def)
        moreover have "kindOf l = Other \<or> (\<exists>n v. kindOf l = Entry n v \<and> n \<noteq> k)"
          using f h p by (auto simp: kindOf_def Let_def)
        ultimately show ?thesis by auto
      qed
    qed
  qed
qed


subsection \<open>The whole file\<close>

definition isBlank :: "string \<Rightarrow> bool" where
  "isBlank l \<longleftrightarrow> kindOf l = Blank"

lemma isBlank_skip: "isBlank l \<longleftrightarrow> skipBlank l = []"
  by (simp add: isBlank_def kindOf_def Let_def)

definition nextSection :: "string option \<Rightarrow> string \<Rightarrow> string option" where
  "nextSection cur l = (case kindOf l of Header h \<Rightarrow> h | _ \<Rightarrow> cur)"

lemma sectionAfter_Cons: "sectionAfter cur (l # ls) = sectionAfter (nextSection cur l) ls"
  by (simp add: nextSection_def)

lemma sectionAfter_append: "sectionAfter cur (a @ b) = sectionAfter (sectionAfter cur a) b"
  by (induction a arbitrary: cur) auto

lemma iniEntries_Cons:
  "iniEntries cur (l # ls) =
    (case (kindOf l, cur) of (Entry k v, Some s) \<Rightarrow> [((s, k), v)] | _ \<Rightarrow> []) @ iniEntries (nextSection cur l) ls"
  by (auto simp: nextSection_def split: iniKind.splits option.splits)

lemma iniEntries_append: "iniEntries cur (a @ b) = iniEntries cur a @ iniEntries (sectionAfter cur a) b"
  by (induction a arbitrary: cur) (auto split: iniKind.splits)

lemma iniEntries_blank: "\<forall>l \<in> set ls. isBlank l \<Longrightarrow> iniEntries cur ls = []"
  by (induction ls) (auto simp: isBlank_def)

lemma iniScan_blank:
  assumes "isBlank l" "oneLine l"
  shows "iniScan s k i si pi (l @ NL # rest) = iniScan s k i si pi rest"
proof -
  have "skipBlank (l @ NL # rest) = NL # rest" using assms by (simp add: skipBlank_line isBlank_skip)
  moreover have "peek (l @ NL # rest) \<noteq> NUL" using assms(2) by (cases l) (auto simp: oneLine_def)
  ultimately show ?thesis by (simp add: iniScan.simps[of s k i si pi "l @ NL # rest"])
qed

lemma iniScan_line:
  assumes "\<not> isBlank l" "oneLine l" "okSection s" "okKey k"
  shows "iniScan s k (cur = Some s) si pi (l @ NL # rest) =
    (case kindOf l of Entry n v \<Rightarrow>
        (if cur = Some s \<and> n = k
         then Some (Found (skipBlank (tl (dropWhile (\<lambda>c. c \<noteq> CHR ''='') (skipBlank l))) @ NL # rest) rest)
         else iniScan s k (cur = Some s) (if cur = Some s then Some rest else si)
                (if cur = Some s then pi else Some rest) rest)
     | _ \<Rightarrow> iniScan s k (nextSection cur l = Some s) (if nextSection cur l = Some s then Some rest else si)
              (if nextSection cur l = Some s then pi else Some rest) rest)"
proof -
  have p: "skipBlank l \<noteq> []" using assms(1) by (simp add: isBlank_skip)
  have b: "kindOf l \<noteq> Blank" using assms(1) by (simp add: isBlank_def)
  have q: "skipBlank (l @ NL # rest) = skipBlank l @ NL # rest" by (rule skipBlank_line)
  have "set (skipBlank l) \<subseteq> set l" by (rule set_skipBlank)
  then have n: "peek (skipBlank l @ NL # rest) \<noteq> NL" using p assms(2) by (cases "skipBlank l") (auto simp: oneLine_def)
  have z: "peek (l @ NL # rest) \<noteq> NUL" using assms(2) by (cases l) (auto simp: oneLine_def)
  note step = iniScan.simps[of s k "cur = Some s" si pi "l @ NL # rest"]
  note line = iniLine_line[OF assms(2) assms(3) assms(4) p, of "cur = Some s" rest]
  show ?thesis
    unfolding step using z n b
    by (cases "kindOf l") (simp_all add: q line Let_def nextSection_def)
qed

text \<open>A line that holds the key: what stands before the value stays when the value is replaced.\<close>

lemma kindOf_prefix:
  assumes "\<forall>c \<in> set b. blank c" "n = [] \<or> \<not> blank (hd n)" "n = [] \<or> hd n \<noteq> CHR ''[''" "CHR ''='' \<notin> set n" "\<forall>c \<in> set w. blank c"
  shows "kindOf (b @ n @ CHR ''='' # w @ v) = Entry (trimBack n) (trimBack (skipBlank v))"
proof -
  have s: "skipBlank (b @ n @ CHR ''='' # w @ v) = n @ CHR ''='' # w @ v"
    using assms(1,2) by (cases n) (auto simp: skipBlank_append skipBlank_Cons)
  have h: "n @ CHR ''='' # w @ v \<noteq> []" "hd (n @ CHR ''='' # w @ v) \<noteq> CHR ''[''" "CHR ''='' \<in> set (n @ CHR ''='' # w @ v)"
    using assms(3) by (cases n; auto)+
  have t: "takeWhile (\<lambda>c. c \<noteq> CHR ''='') (n @ CHR ''='' # w @ v) = n"
    "dropWhile (\<lambda>c. c \<noteq> CHR ''='') (n @ CHR ''='' # w @ v) = CHR ''='' # w @ v"
    using takeWhile_upto[OF assms(4), of "w @ v"] by auto
  show ?thesis unfolding kindOf_def Let_def s t using h assms(5) by (simp add: skipBlank_append)
qed

lemma entry_prefix:
  assumes "kindOf l = Entry k x"
  obtains pre w where "l = pre @ w" "w = skipBlank (tl (dropWhile (\<lambda>c. c \<noteq> CHR ''='') (skipBlank l)))" "x = trimBack w"
    "\<And>v. kindOf (pre @ v) = Entry k (trimBack (skipBlank v))"
proof -
  let ?p = "skipBlank l"
  have p: "?p \<noteq> []" "hd ?p \<noteq> CHR ''[''" "CHR ''='' \<in> set ?p" and k: "k = trimBack (takeWhile (\<lambda>c. c \<noteq> CHR ''='') ?p)"
    and x: "x = trimBack (skipBlank (tl (dropWhile (\<lambda>c. c \<noteq> CHR ''='') ?p)))"
    using assms by (auto simp: kindOf_def Let_def split: if_splits)
  let ?n = "takeWhile (\<lambda>c. c \<noteq> CHR ''='') ?p"
  obtain z where z: "?p = ?n @ CHR ''='' # z" using upto_char[OF p(3)] by (elim exE)
  have nn: "CHR ''='' \<notin> set ?n" by (auto dest: set_takeWhileD)
  have dz: "dropWhile (\<lambda>c. c \<noteq> CHR ''='') ?p = CHR ''='' # z"
    using takeWhile_upto[OF nn, of z] z by metis
  obtain b where b: "l = b @ ?p" "\<forall>c \<in> set b. blank c" using skipBlank_split by blast
  obtain w where w: "z = w @ skipBlank z" "\<forall>c \<in> set w. blank c" using skipBlank_split by blast
  have h: "\<not> blank (hd ?p)" using p(1) by (simp add: skipBlank_def hd_dropWhile)
  have hn: "?n = [] \<or> hd ?n = hd ?p" by (cases ?p) auto
  have n1: "?n = [] \<or> \<not> blank (hd ?n)" using hn h by metis
  have n2: "?n = [] \<or> hd ?n \<noteq> CHR ''[''" using hn p(2) by metis
  have kd: "kindOf ((b @ ?n @ CHR ''='' # w) @ v) = Entry k (trimBack (skipBlank v))" for v
    using kindOf_prefix[OF b(2) n1 n2 nn w(2), of v] k by simp
  have "l = b @ ?n @ CHR ''='' # z" by (rule trans[OF b(1) arg_cong[OF z, of "\<lambda>q. b @ q"]])
  also have "\<dots> = b @ ?n @ CHR ''='' # w @ skipBlank z"
    by (rule arg_cong[OF w(1), of "\<lambda>q. b @ ?n @ CHR ''='' # q"])
  finally have "l = (b @ ?n @ CHR ''='' # w) @ skipBlank z" by (simp only: append.assoc append_Cons)
  then show thesis
  proof (rule that)
    show "skipBlank z = skipBlank (tl (dropWhile (\<lambda>c. c \<noteq> CHR ''='') ?p))" by (simp only: dz list.sel)
    show "x = trimBack (skipBlank z)" using x by (simp only: dz list.sel)
  qed (rule kd)
qed


subsection \<open>Scanning lines\<close>

abbreviation keysOf :: "string option \<Rightarrow> string list \<Rightarrow> (string \<times> string) set" where
  "keysOf cur ls \<equiv> fst ` set (iniEntries cur ls)"

definition foundAt :: "string \<Rightarrow> string \<Rightarrow> string option \<Rightarrow> string list \<Rightarrow> scanRes \<Rightarrow> bool" where
  "foundAt s k cur ls r \<longleftrightarrow>
     (\<exists>a pre w b. ls = a @ (pre @ w) # b \<and> r = Found (w @ NL # unlines b) (unlines b)
        \<and> sectionAfter cur a = Some s \<and> (s, k) \<notin> keysOf cur a
        \<and> kindOf (pre @ w) = Entry k (trimBack w)
        \<and> (\<forall>v. kindOf (pre @ v) = Entry k (trimBack (skipBlank v))))"

definition absentAt ::
    "string \<Rightarrow> string \<Rightarrow> string option \<Rightarrow> string option \<Rightarrow> string option \<Rightarrow> string list \<Rightarrow> scanRes \<Rightarrow> bool" where
  "absentAt s k cur si pi ls r \<longleftrightarrow>
     (s, k) \<notin> keysOf cur ls \<and>
     (\<exists>si' pi'. r = Absent si' pi' []
        \<and> (si' = si \<or> (\<exists>a b. ls = a @ b \<and> si' = Some (unlines b) \<and> sectionAfter cur a = Some s))
        \<and> (si' = None \<longrightarrow>
             pi' = pi \<and> (\<forall>l \<in> set ls. isBlank l) \<or>
             (\<exists>a b. ls = a @ b \<and> pi' = Some (unlines b) \<and> (\<forall>l \<in> set b. isBlank l))))"

lemma foundAt_Cons:
  assumes "foundAt s k (nextSection cur l) ls r" "(s, k) \<notin> keysOf cur [l]"
  shows "foundAt s k cur (l # ls) r"
proof -
  obtain a pre w b where "ls = a @ (pre @ w) # b" "r = Found (w @ NL # unlines b) (unlines b)"
    "sectionAfter (nextSection cur l) a = Some s" "(s, k) \<notin> keysOf (nextSection cur l) a"
    "kindOf (pre @ w) = Entry k (trimBack w)" "\<forall>v. kindOf (pre @ v) = Entry k (trimBack (skipBlank v))"
    using assms(1) by (auto simp: foundAt_def)
  then show ?thesis using assms(2) unfolding foundAt_def
    by (intro exI[of _ "l # a"] exI[of _ pre] exI[of _ w] exI[of _ b])
      (auto simp: sectionAfter_Cons iniEntries_Cons simp del: sectionAfter.simps iniEntries.simps(2))
qed

lemma absentAt_Cons:
  assumes r: "absentAt s k (nextSection cur l) si2 pi2 ls r" and n: "(s, k) \<notin> keysOf cur [l]"
    and i: "si2 = si \<or> si2 = Some (unlines ls) \<and> nextSection cur l = Some s"
    and p: "si2 = None \<Longrightarrow> pi2 = Some (unlines ls) \<or> pi2 = pi \<and> isBlank l"
  shows "absentAt s k cur si pi (l # ls) r"
proof -
  obtain si' pi' where e: "r = Absent si' pi' []"
    and si: "si' = si2 \<or> (\<exists>a b. ls = a @ b \<and> si' = Some (unlines b) \<and> sectionAfter (nextSection cur l) a = Some s)"
    and pi: "si' = None \<longrightarrow> pi' = pi2 \<and> (\<forall>l \<in> set ls. isBlank l) \<or>
             (\<exists>a b. ls = a @ b \<and> pi' = Some (unlines b) \<and> (\<forall>l \<in> set b. isBlank l))"
    and k: "(s, k) \<notin> keysOf (nextSection cur l) ls"
    using r unfolding absentAt_def by (elim conjE exE)
  have 1: "(s, k) \<notin> keysOf cur (l # ls)"
    using n k by (auto simp: iniEntries_Cons simp del: iniEntries.simps(2))
  have 2: "si' = si \<or> (\<exists>a b. l # ls = a @ b \<and> si' = Some (unlines b) \<and> sectionAfter cur a = Some s)"
    using si
  proof
    assume "si' = si2"
    then consider "si' = si" | "si' = Some (unlines ls)" "nextSection cur l = Some s" using i by blast
    then show ?thesis
    proof cases
      case 2
      then have "l # ls = [l] @ ls \<and> si' = Some (unlines ls) \<and> sectionAfter cur [l] = Some s"
        by (simp add: nextSection_def)
      then show ?thesis by blast
    qed simp
  next
    assume "\<exists>a b. ls = a @ b \<and> si' = Some (unlines b) \<and> sectionAfter (nextSection cur l) a = Some s"
    then obtain a b where "ls = a @ b" "si' = Some (unlines b)" "sectionAfter (nextSection cur l) a = Some s" by blast
    then have "l # ls = (l # a) @ b \<and> si' = Some (unlines b) \<and> sectionAfter cur (l # a) = Some s"
      by (simp add: sectionAfter_Cons del: sectionAfter.simps)
    then show ?thesis by blast
  qed
  have 3: "pi' = pi \<and> (\<forall>l \<in> set (l # ls). isBlank l) \<or>
      (\<exists>a b. l # ls = a @ b \<and> pi' = Some (unlines b) \<and> (\<forall>l \<in> set b. isBlank l))" if none: "si' = None"
  proof -
    have s2: "si2 = None" using si none by auto
    consider "pi' = pi2" "\<forall>l \<in> set ls. isBlank l"
      | a b where "ls = a @ b" "pi' = Some (unlines b)" "\<forall>l \<in> set b. isBlank l" using pi none by blast
    then show ?thesis
    proof cases
      case 1
      then show ?thesis using p[OF s2]
      proof (elim disjE)
        assume "pi2 = Some (unlines ls)"
        then have "l # ls = [l] @ ls \<and> pi' = Some (unlines ls) \<and> (\<forall>l \<in> set ls. isBlank l)" using 1 by simp
        then show ?thesis by blast
      next
        assume "pi2 = pi \<and> isBlank l"
        then show ?thesis using 1 by simp
      qed
    next
      case (2 a b)
      then have "l # ls = (l # a) @ b \<and> pi' = Some (unlines b) \<and> (\<forall>l \<in> set b. isBlank l)" by simp
      then show ?thesis by blast
    qed
  qed
  show ?thesis unfolding absentAt_def using 1 2 3 e by blast
qed

lemma iniScan_lines:
  assumes "\<forall>l \<in> set ls. oneLine l" "okSection s" "okKey k"
  shows "\<exists>r. iniScan s k (cur = Some s) si pi (unlines ls) = Some r \<and> (foundAt s k cur ls r \<or> absentAt s k cur si pi ls r)"
  using assms(1)
proof (induction ls arbitrary: cur si pi)
  case Nil
  have "iniScan s k (cur = Some s) si pi [] = Some (Absent si pi [])" by (simp add: iniScan.simps)
  then show ?case by (simp add: absentAt_def)
next
  case (Cons l ls)
  have o: "oneLine l" and os: "\<forall>l \<in> set ls. oneLine l" using Cons.prems by auto
  note IH = Cons.IH[OF os]
  show ?case
  proof (cases "isBlank l")
    case True
    then have kd: "kindOf l = Blank" by (simp add: isBlank_def)
    then have ns: "nextSection cur l = cur" by (simp add: nextSection_def)
    obtain r where r: "iniScan s k (cur = Some s) si pi (unlines ls) = Some r"
      "foundAt s k cur ls r \<or> absentAt s k cur si pi ls r" using IH by blast
    have "foundAt s k cur (l # ls) r \<or> absentAt s k cur si pi (l # ls) r"
    proof -
      have nk: "(s, k) \<notin> keysOf cur [l]" using kd by simp
      show ?thesis
        using r(2) foundAt_Cons[of s k cur l ls r, OF _ nk] absentAt_Cons[of s k cur l si pi ls r si pi, OF _ nk] True
        unfolding ns by blast
    qed
    then show ?thesis using r(1) iniScan_blank[OF True o] by simp
  next
    case False
    let ?in = "nextSection cur l = Some s"
    let ?si = "if ?in then Some (unlines ls) else si" and ?pi = "if ?in then pi else Some (unlines ls)"
    have line: "iniScan s k (cur = Some s) si pi (unlines (l # ls)) = iniScan s k ?in ?si ?pi (unlines ls)"
      if "\<And>v. cur = Some s \<Longrightarrow> kindOf l \<noteq> Entry k v"
      using that iniScan_line[OF False o assms(2,3), of cur si pi "unlines ls"]
      by (cases "kindOf l") (auto simp: nextSection_def)
    show ?thesis
    proof (cases "\<exists>v. cur = Some s \<and> kindOf l = Entry k v")
      case True
      then obtain v where cs: "cur = Some s" and kd: "kindOf l = Entry k v" by blast
      obtain pre w where e: "l = pre @ w" "w = skipBlank (tl (dropWhile (\<lambda>c. c \<noteq> CHR ''='') (skipBlank l)))"
        "v = trimBack w" "\<And>v. kindOf (pre @ v) = Entry k (trimBack (skipBlank v))" using entry_prefix[OF kd] by blast
      have "iniScan s k (cur = Some s) si pi (unlines (l # ls)) = Some (Found (w @ NL # unlines ls) (unlines ls))"
        using iniScan_line[OF False o assms(2,3), of cur si pi "unlines ls"] kd cs e(2) by simp
      moreover have "foundAt s k cur (l # ls) (Found (w @ NL # unlines ls) (unlines ls))"
        unfolding foundAt_def using e kd cs
        by (intro exI[of _ "[]"] exI[of _ pre] exI[of _ w] exI[of _ ls]) simp
      ultimately show ?thesis by blast
    next
      case no: False
      have nk: "(s, k) \<notin> keysOf cur [l]" using no by (auto split: iniKind.splits option.splits)
      obtain r where r: "iniScan s k ?in ?si ?pi (unlines ls) = Some r"
        "foundAt s k (nextSection cur l) ls r \<or> absentAt s k (nextSection cur l) ?si ?pi ls r" using IH by blast
      have "foundAt s k cur (l # ls) r \<or> absentAt s k cur si pi (l # ls) r"
        using r(2)
      proof
        assume "foundAt s k (nextSection cur l) ls r"
        then show ?thesis using foundAt_Cons nk by blast
      next
        assume "absentAt s k (nextSection cur l) ?si ?pi ls r"
        then show ?thesis using absentAt_Cons[OF _ nk, of ?si ?pi ls r si pi] by (auto split: if_splits)
      qed
      then show ?thesis using r(1) line no by auto
    qed
  qed
qed


section \<open>Reading and writing entries\<close>

lemma upto_append: "upto_ptr (y @ x) x = y"
  by simp

lemma oneLine_lines: "\<forall>l \<in> set ls. oneLine l \<Longrightarrow> NUL \<notin> set (unlines ls)"
  by (induction ls) (auto simp: oneLine_def)

lemma iniLines_text:
  assumes "iniText d"
  shows "(case d of None \<Rightarrow> [] | Some d \<Rightarrow> d) = unlines (iniLines d)" "\<forall>l \<in> set (iniLines d). oneLine l"
proof -
  show "(case d of None \<Rightarrow> [] | Some d \<Rightarrow> d) = unlines (iniLines d)"
    using assms unlines_splitLines by (auto simp: iniText_def iniLines_def split: option.splits)
  show "\<forall>l \<in> set (iniLines d). oneLine l"
    using assms splitLines_line by (fastforce simp: iniText_def iniLines_def oneLine_def cstr_def split: option.splits)
qed

lemma iniLines_unlines: "\<forall>l \<in> set ls. oneLine l \<Longrightarrow> iniLines (Some (unlines ls)) = ls"
  by (simp add: iniLines_def splitLines_unlines oneLine_def)

lemma unlines_last: "unlines ls = [] \<or> last (unlines ls) = NL"
  by (induction ls) auto

lemma iniText_unlines: "\<forall>l \<in> set ls. oneLine l \<Longrightarrow> iniText (Some (unlines ls))"
  using oneLine_lines unlines_last by (auto simp: iniText_def cstr_def)

lemma cstrAt_id: "NUL \<notin> set x \<Longrightarrow> cstrAt x = x"
  by (simp add: takeWhile_eq_all_conv) metis

lemma iniEntry_get:
  assumes "iniText d" "okSection s" "okKey k"
  shows "iniEntry d s k None = Some (iniMap d (s, k))"
proof -
  let ?ls = "iniLines d"
  note t = iniLines_text[OF assms(1)]
  obtain r where r: "iniScan s k False None None (unlines ?ls) = Some r"
    "foundAt s k None ?ls r \<or> absentAt s k None None None ?ls r"
    using iniScan_lines[OF t(2) assms(2,3), of None None None] by auto
  show ?thesis using r(2)
  proof
    assume "foundAt s k None ?ls r"
    then obtain a pre w b where f: "?ls = a @ (pre @ w) # b" "r = Found (w @ NL # unlines b) (unlines b)"
      "sectionAfter None a = Some s" "(s, k) \<notin> keysOf None a" "kindOf (pre @ w) = Entry k (trimBack w)"
      by (auto simp: foundAt_def)
    have w: "NUL \<notin> set (trimBack w)" using t(2) f(1) set_trimBack[of w] by (auto simp: oneLine_def)
    have "map_of (iniEntries None a) (s, k) = None" using f(4) by (simp add: map_of_eq_None_iff)
    then have "iniMap d (s, k) = Some (trimBack w)"
      using f(3,5) by (simp add: iniMap_def f(1) iniEntries_append map_add_def)
    then show ?thesis using r(1) f(2) cstrAt_id[OF w] by (simp add: iniEntry_def t(1))
  next
    assume a: "absentAt s k None None None ?ls r"
    then have "iniMap d (s, k) = None" by (simp add: absentAt_def iniMap_def map_of_eq_None_iff)
    then show ?thesis using r(1) a by (auto simp: iniEntry_def t(1) absentAt_def)
  qed
qed

text \<open>The lines after an entry has been written.\<close>

definition putLines :: "string \<Rightarrow> string \<Rightarrow> string \<Rightarrow> string list \<Rightarrow> string list \<Rightarrow> bool" where
  "putLines s k v ls ls' \<longleftrightarrow>
     (\<exists>a l m b x. ls = a @ l # b \<and> ls' = a @ m # b \<and> kindOf l = Entry k x \<and> kindOf m = Entry k v
        \<and> sectionAfter None a = Some s \<and> (s, k) \<notin> keysOf None a) \<or>
     (s, k) \<notin> keysOf None ls \<and>
     (\<exists>a b. ls = a @ b \<and>
        (sectionAfter None a = Some s \<and> ls' = a @ (k @ ''='' @ v) # b \<or>
         (\<forall>l \<in> set b. isBlank l) \<and>
           (\<exists>x. (x = [] \<or> x = [[]]) \<and> ls' = a @ x @ (''['' @ s @ '']'') # (k @ ''='' @ v) # b)))"

lemma trimmed_hd: "trimmed k \<Longrightarrow> k = [] \<or> \<not> blank (hd k)"
  using hd_dropWhile[of blank k] by (auto simp: trimmed_def skipBlank_def)

lemma kindOf_entry: "okKey k \<Longrightarrow> okValue v \<Longrightarrow> kindOf (k @ ''='' @ v) = Entry k v"
  using kindOf_prefix[of "[]" k "[]" v] trimmed_hd[of k]
  by (cases k) (simp_all add: okKey_def okValue_def trimmed_def)

lemma kindOf_section: "okSection s \<Longrightarrow> kindOf (''['' @ s @ '']'') = Header (Some s)"
  using takeWhile_upto[of "CHR '']''" s "[]"] by (simp add: kindOf_def skipBlank_Cons okSection_def)

lemma oneLine_append [simp]: "oneLine (a @ b) \<longleftrightarrow> oneLine a \<and> oneLine b"
  by (auto simp: oneLine_def)

lemma oneLine_Cons [simp]: "oneLine (c # b) \<longleftrightarrow> c \<noteq> NL \<and> c \<noteq> NUL \<and> oneLine b"
  by (auto simp: oneLine_def)

lemma oneLine_Nil [simp]: "oneLine []"
  by (simp add: oneLine_def)

lemma iniEntry_put:
  assumes d: "iniText d" and s: "okSection s" and k: "okKey k" and v: "okValue v"
  shows "\<exists>ls'. iniEntry d s k (Some v) = Some (Some (unlines ls')) \<and> (\<forall>l \<in> set ls'. oneLine l)
    \<and> putLines s k v (iniLines d) ls'"
proof -
  let ?ls = "iniLines d"
  note t = iniLines_text[OF d]
  have ok: "oneLine s" "oneLine k" "oneLine v" "skipBlank v = v" "trimBack v = v"
    using s k v by (auto simp: okSection_def okKey_def okValue_def trimmed_def)
  obtain r where r: "iniScan s k False None None (unlines ?ls) = Some r"
    "foundAt s k None ?ls r \<or> absentAt s k None None None ?ls r"
    using iniScan_lines[OF t(2) s k, of None None None] by auto
  show ?thesis using r(2)
  proof
    assume "foundAt s k None ?ls r"
    then obtain a pre w b where f: "?ls = a @ (pre @ w) # b" "r = Found (w @ NL # unlines b) (unlines b)"
      "sectionAfter None a = Some s" "(s, k) \<notin> keysOf None a" "kindOf (pre @ w) = Entry k (trimBack w)"
      "\<forall>v. kindOf (pre @ v) = Entry k (trimBack (skipBlank v))" unfolding foundAt_def by (elim conjE exE)
    have kv: "kindOf (pre @ v) = Entry k v" using f(6) ok by simp
    have ul: "unlines ?ls = (unlines a @ pre) @ w @ NL # unlines b" by (simp add: f(1) unlines_append)
    have lines: "\<forall>l \<in> set (a @ (pre @ v) # b). oneLine l" using t(2) f(1) ok by auto
    have "\<forall>l \<in> set b. oneLine l" using lines by simp
    then have "iniEntry d s k (Some v) = Some (Some (unlines (a @ (pre @ v) # b)))"
      using r(1) f(2) cstrAt_id[OF oneLine_lines[of b]] unfolding iniEntry_def t(1)
      by (simp add: ul upto_append[of "unlines a @ pre", simplified] unlines_append)
    moreover have "putLines s k v ?ls (a @ (pre @ v) # b)" unfolding putLines_def
      by (intro disjI1 exI[of _ a] exI[of _ "pre @ w"] exI[of _ "pre @ v"] exI[of _ b] exI[of _ "trimBack w"] conjI
          f(1,3,4,5) kv refl)
    ultimately show ?thesis using lines by blast
  next
    assume a: "absentAt s k None None None ?ls r"
    then obtain si pi where e: "r = Absent si pi []" and nk: "(s, k) \<notin> keysOf None ?ls"
      and si: "si = None \<or> (\<exists>a b. ?ls = a @ b \<and> si = Some (unlines b) \<and> sectionAfter None a = Some s)"
      and pi: "si = None \<longrightarrow> pi = None \<and> (\<forall>l \<in> set ?ls. isBlank l) \<or>
             (\<exists>a b. ?ls = a @ b \<and> pi = Some (unlines b) \<and> (\<forall>l \<in> set b. isBlank l))"
      unfolding absentAt_def by (elim conjE exE)
    consider (inside) a b where "?ls = a @ b" "si = Some (unlines b)" "sectionAfter None a = Some s"
      | (after) a b where "si = None" "?ls = a @ b" "pi = Some (unlines b)" "\<forall>l \<in> set b. isBlank l"
      | (empty) "si = None" "pi = None" "\<forall>l \<in> set ?ls. isBlank l" using si pi by blast
    then show ?thesis
    proof cases
      case inside
      let ?n = "a @ (k @ ''='' @ v) # b"
      have "iniEntry d s k (Some v) = Some (Some (unlines ?n))"
        using r(1) e inside unfolding iniEntry_def t(1)
        by (simp add: unlines_append newEntry_def)
      moreover have "putLines s k v ?ls ?n" unfolding putLines_def
        by (intro disjI2 conjI nk exI[of _ a] exI[of _ b] inside(1) disjI1[OF conjI] inside(3) refl)
      moreover have "\<forall>l \<in> set ?n. oneLine l" using t(2) inside(1) ok by auto
      ultimately show ?thesis by blast
    next
      case after
      let ?n = "a @ [[]] @ (''['' @ s @ '']'') # (k @ ''='' @ v) # b"
      have "iniEntry d s k (Some v) = Some (Some (unlines ?n))"
        using r(1) e after unfolding iniEntry_def t(1)
        by (simp add: unlines_append newEntry_def newSection_def)
      moreover have "putLines s k v ?ls ?n" unfolding putLines_def
        by (intro disjI2[OF conjI] nk exI[of _ a] exI[of _ b] conjI after(2,4) disjI2 exI[of _ "[[]]"] refl)
      moreover have "\<forall>l \<in> set ?n. oneLine l" using t(2) after(2) ok by auto
      ultimately show ?thesis by blast
    next
      case empty
      let ?n = "[] @ [] @ (''['' @ s @ '']'') # (k @ ''='' @ v) # ?ls"
      have "iniEntry d s k (Some v) = Some (Some (unlines ?n))"
        using r(1) e empty unfolding iniEntry_def t(1)
        by (simp add: unlines_append newEntry_def newSection_def)
      moreover have "putLines s k v ?ls ?n" unfolding putLines_def
        by (intro disjI2[OF conjI] nk exI[of _ "[]"] exI[of _ ?ls] conjI empty(3) disjI2[OF conjI] disjI1 refl) simp_all
      moreover have "\<forall>l \<in> set ?n. oneLine l" using t(2) ok by auto
      ultimately show ?thesis by blast
    qed
  qed
qed

lemma map_of_insert: "c \<notin> fst ` set A \<Longrightarrow> map_of (A @ (c, v) # B) = (map_of (A @ B))(c \<mapsto> v)"
  by (induction A) (auto simp: fun_upd_twist)

lemma putLines_map:
  assumes p: "putLines s k v ls ls'" and s: "okSection s" and k: "okKey k" and v: "okValue v"
  shows "map_of (iniEntries None ls') = (map_of (iniEntries None ls))((s, k) \<mapsto> v)"
proof -
  have ke: "kindOf (k @ CHR ''='' # v) = Entry k v" using kindOf_entry[OF k v] by simp
  have ks: "kindOf (CHR ''['' # s @ '']'') = Header (Some s)" using kindOf_section[OF s] by simp
  have kn: "kindOf [] = Blank" by (simp add: kindOf_def)
  have new: "map_of (A @ ((s, k), v) # B) = (map_of (A @ B))((s, k) \<mapsto> v)" if "(s, k) \<notin> fst ` set A" for A B
    by (rule map_of_insert[OF that])
  from p show ?thesis unfolding putLines_def
  proof (elim disjE conjE exE)
    fix a l m b x
    assume "ls = a @ l # b" "ls' = a @ m # b" "kindOf l = Entry k x" "kindOf m = Entry k v"
      "sectionAfter None a = Some s" "(s, k) \<notin> keysOf None a"
    then show ?thesis
      using new[of "iniEntries None a" "iniEntries (Some s) b"]
        map_of_insert[of "(s, k)" "iniEntries None a" x "iniEntries (Some s) b"]
      by (simp add: iniEntries_append del: map_of_append)
  next
    fix a b
    assume h: "(s, k) \<notin> keysOf None ls" "ls = a @ b" "sectionAfter None a = Some s" "ls' = a @ (k @ ''='' @ v) # b"
    then have "(s, k) \<notin> keysOf None a" by (simp add: iniEntries_append image_Un)
    from new[OF this] show ?thesis using h(2-4) ke by (simp add: iniEntries_append del: map_of_append)
  next
    fix a b x
    assume h: "(s, k) \<notin> keysOf None ls" "ls = a @ b" "\<forall>l \<in> set b. isBlank l"
      "ls' = a @ x @ (''['' @ s @ '']'') # (k @ ''='' @ v) # b" and x: "x = []"
    then have "(s, k) \<notin> keysOf None a" by (simp add: iniEntries_append image_Un)
    from new[OF this, of "[]"] show ?thesis using h(2-4) x ke ks
      by (simp add: iniEntries_append iniEntries_blank del: map_of_append)
  next
    fix a b x
    assume h: "(s, k) \<notin> keysOf None ls" "ls = a @ b" "\<forall>l \<in> set b. isBlank l"
      "ls' = a @ x @ (''['' @ s @ '']'') # (k @ ''='' @ v) # b" and x: "x = [[]]"
    then have "(s, k) \<notin> keysOf None a" by (simp add: iniEntries_append image_Un)
    from new[OF this, of "[]"] show ?thesis using h(2-4) x ke ks kn
      by (simp add: iniEntries_append iniEntries_blank del: map_of_append)
  qed
qed


section \<open>Refinement\<close>

text \<open>
  The contract of a store of entries, and what follows from it for a series of assignments: every
  key reads as the last value assigned to it, or as before.
\<close>

locale entry_store =
  fixes stored :: "'s \<Rightarrow> bool" and valid :: "'k \<Rightarrow> 'v \<Rightarrow> bool" and content :: "'s \<Rightarrow> 'k \<Rightarrow> 'v option"
    and put :: "'s \<Rightarrow> 'k \<Rightarrow> 'v \<Rightarrow> 's option"
  assumes put_stored: "\<lbrakk>stored s; valid k v\<rbrakk> \<Longrightarrow> \<exists>s'. put s k v = Some s' \<and> stored s' \<and> content s' = (content s)(k \<mapsto> v)"
begin

fun puts :: "'s \<Rightarrow> ('k \<times> 'v) list \<Rightarrow> 's option" where
  "puts s [] = Some s"
| "puts s ((k, v) # xs) = (case put s k v of None \<Rightarrow> None | Some s' \<Rightarrow> puts s' xs)"

lemma puts_content:
  "\<lbrakk>stored s; \<forall>(k, v) \<in> set xs. valid k v\<rbrakk> \<Longrightarrow>
    \<exists>s'. puts s xs = Some s' \<and> stored s' \<and> content s' = content s ++ map_of (rev xs)"
proof (induction xs arbitrary: s)
  case (Cons x xs)
  obtain k v where x: "x = (k, v)" by (cases x)
  obtain s1 where s1: "put s k v = Some s1" "stored s1" "content s1 = (content s)(k \<mapsto> v)"
    using put_stored[OF Cons.prems(1), of k v] Cons.prems(2) x by auto
  obtain s' where "puts s1 xs = Some s'" "stored s'" "content s' = content s1 ++ map_of (rev xs)"
    using Cons.IH[OF s1(2)] Cons.prems(2) by auto
  then show ?case using s1 x by (simp add: map_add_def fun_eq_iff split: option.split)
qed simp

end

definition iniPut :: "string option \<Rightarrow> string \<times> string \<Rightarrow> string \<Rightarrow> string option option" where
  "iniPut d c v = iniEntry d (fst c) (snd c) (Some v)"

definition okAssign :: "string \<times> string \<Rightarrow> string \<Rightarrow> bool" where
  "okAssign c v \<longleftrightarrow> okSection (fst c) \<and> okKey (snd c) \<and> okValue v"

lemma iniPut_stored:
  assumes "iniText d" "okAssign c v"
  shows "\<exists>d'. iniPut d c v = Some d' \<and> iniText d' \<and> iniMap d' = (iniMap d)(c \<mapsto> v)"
proof -
  have ok: "okSection (fst c)" "okKey (snd c)" "okValue v" using assms(2) by (auto simp: okAssign_def)
  obtain ls' where l: "iniPut d c v = Some (Some (unlines ls'))" "\<forall>l \<in> set ls'. oneLine l"
    "putLines (fst c) (snd c) v (iniLines d) ls'" using iniEntry_put[OF assms(1) ok] unfolding iniPut_def by blast
  have "iniMap (Some (unlines ls')) = (iniMap d)(c \<mapsto> v)"
    using putLines_map[OF l(3) ok] by (simp add: iniMap_def iniLines_unlines[OF l(2)])
  then show ?thesis using l(1) iniText_unlines[OF l(2)] by blast
qed

interpretation ini: entry_store iniText okAssign iniMap iniPut
  by unfold_locales (rule iniPut_stored)

subsection \<open>Merging\<close>

text \<open>Files without comments and other lines, such as the ones made by writing entries only.\<close>

definition plainLine :: "string \<Rightarrow> bool" where
  "plainLine l \<longleftrightarrow> oneLine l \<and>
     (case kindOf l of Blank \<Rightarrow> True | Entry k v \<Rightarrow> peek k \<noteq> CHR ''#''
      | Header h \<Rightarrow> (case h of None \<Rightarrow> False | Some s \<Rightarrow> trimBack (skipBlank l) = ''['' @ s @ '']'')
      | Other \<Rightarrow> False)"

definition plainText :: "string option \<Rightarrow> bool" where
  "plainText d \<longleftrightarrow> iniText d \<and> (\<forall>l \<in> set (iniLines d). plainLine l)"

lemma seek_line: "c \<in> set p \<Longrightarrow> oneLine p \<Longrightarrow> seek c (p @ r) = Some (dropWhile (\<lambda>x. x \<noteq> c) p @ r)"
  by (induction p) (auto simp: oneLine_def)

lemma merge_blank: "\<forall>c \<in> set b. blank c \<Longrightarrow> iniMergeFrom d s (b @ p) = iniMergeFrom d s p"
  by (simp add: iniMergeFrom.simps[of d s "b @ p"] iniMergeFrom.simps[of d s p] skipBlank_append)

lemma merge_newline: "iniMergeFrom d s (NL # p) = iniMergeFrom d s p"
  by (simp add: iniMergeFrom.simps[of d s "NL # p"] skipBlank_Cons)

lemma merge_end: "\<forall>c \<in> set b. blank c \<Longrightarrow> iniMergeFrom d s (b @ NL # p) = iniMergeFrom d s p"
  by (simp add: merge_blank merge_newline)

lemma merge_Blank: "isBlank l \<Longrightarrow> iniMergeFrom d s (l @ NL # p) = iniMergeFrom d s p"
  using merge_end[of l] by (simp add: isBlank_skip skipBlank_def)

lemma merge_Header:
  assumes "plainLine l" "kindOf l = Header (Some t)"
  shows "iniMergeFrom d s (l @ NL # p) = iniMergeFrom d (Some t) p" "okSection t"
proof -
  let ?q = "skipBlank l"
  have t: "t = takeWhile (\<lambda>c. c \<noteq> CHR '']'') (tl ?q)" "CHR '']'' \<in> set (tl ?q)" "?q \<noteq> []" "hd ?q = CHR ''[''"
    using assms(2) by (auto simp: kindOf_def Let_def split: if_splits)
  have o: "oneLine l" and e: "trimBack ?q = ''['' @ t @ '']''" using assms by (auto simp: plainLine_def)
  have oq: "oneLine ?q" using o set_skipBlank[of l] by (auto simp: oneLine_def)
  obtain b where b: "?q = trimBack ?q @ b" "\<forall>c \<in> set b. blank c" using trimBack_split by blast
  have q: "?q = CHR ''['' # t @ CHR '']'' # b" using b(1) e by simp
  have nt: "CHR '']'' \<notin> set t" using t(1) by (auto dest: set_takeWhileD)
  have ot: "oneLine (t @ CHR '']'' # b)" using oq q by simp
  then show "okSection t" using nt by (simp add: okSection_def)
  have seek: "seek (CHR '']'') (t @ CHR '']'' # b @ NL # p) = Some (CHR '']'' # b @ NL # p)"
    using seek_line[of "CHR '']''" "t @ CHR '']'' # b" "NL # p"] ot takeWhile_upto[OF nt, of b] by simp
  have sk: "skipBlank (l @ NL # p) = CHR ''['' # t @ CHR '']'' # b @ NL # p"
    by (simp add: skipBlank_line q)
  have "iniMergeFrom d s (l @ NL # p) = iniMergeFrom d (Some t) (b @ NL # p)"
    by (simp add: iniMergeFrom.simps[of d s "l @ NL # p"] sk seek Let_def)
  then show "iniMergeFrom d s (l @ NL # p) = iniMergeFrom d (Some t) p" by (simp add: merge_end[OF b(2)])
qed

lemma merge_Entry:
  assumes "plainLine l" "kindOf l = Entry k v"
  shows "iniMergeFrom d s (l @ NL # p) =
      (case s of None \<Rightarrow> iniMergeFrom d s p
       | Some t \<Rightarrow> (case iniEntry d t k (Some v) of None \<Rightarrow> None | Some e \<Rightarrow> iniMergeFrom e s p))"
    "okKey k" "okValue v"
proof -
  let ?q = "skipBlank l" and ?E = "CHR ''=''"
  have q: "?q \<noteq> []" "hd ?q \<noteq> CHR ''[''" "?E \<in> set ?q" and k: "k = trimBack (takeWhile (\<lambda>c. c \<noteq> ?E) ?q)"
    and v: "v = trimBack (skipBlank (tl (dropWhile (\<lambda>c. c \<noteq> ?E) ?q)))"
    using assms(2) by (auto simp: kindOf_def Let_def split: if_splits)
  have o: "oneLine l" and kc: "peek k \<noteq> CHR ''#''" using assms by (auto simp: plainLine_def)
  have oq: "oneLine ?q" using o set_skipBlank[of l] by (auto simp: oneLine_def)
  let ?n = "takeWhile (\<lambda>c. c \<noteq> ?E) ?q"
  obtain z where z: "?q = ?n @ ?E # z" using upto_char[OF q(3)] by (elim exE)
  have nn: "?E \<notin> set ?n" by (auto dest: set_takeWhileD)
  have dz: "dropWhile (\<lambda>c. c \<noteq> ?E) ?q = ?E # z" using takeWhile_upto[OF nn, of z] z by metis
  have hb: "\<not> blank (hd ?q)" using q(1) by (simp add: skipBlank_def hd_dropWhile)
  have hn: "?n = [] \<or> hd ?n = hd ?q" by (cases ?q) auto
  have sn: "skipBlank ?n = ?n" using hn hb by (cases ?n) (auto simp: skipBlank_Cons)
  obtain b where b: "?n = k @ b" "\<forall>c \<in> set b. blank c" using trimBack_split k by blast
  have hash: "hd ?q \<noteq> CHR ''#''"
  proof
    assume h: "hd ?q = CHR ''#''"
    then have "?n \<noteq> [] \<and> hd ?n = CHR ''#''" using q(1) by (cases ?q) auto
    moreover have "k \<noteq> []"
    proof
      assume "k = []"
      then have "\<forall>c \<in> set ?n. blank c" using b by simp
      then show False using calculation h hb hd_in_set by metis
    qed
    ultimately show False using kc b(1) by (cases k) auto
  qed
  have ok: "oneLine k" using oq b(1) z by (metis oneLine_append)
  have oz: "oneLine z" using oq z by (metis oneLine_append oneLine_Cons)
  then have ov: "oneLine (skipBlank z)" using set_skipBlank[of z] by (auto simp: oneLine_def)
  show "okKey k" using ok trimmed_trim[of ?n] nn b(1) q(2) hn
    unfolding okKey_def sn k[symmetric] by (cases k) auto
  have vz: "v = trimBack (skipBlank z)" using v by (simp only: dz list.sel)
  show okv: "okValue v" using ov trimmed_trim[of z] set_trimBack[of "skipBlank z"]
    unfolding okValue_def vz by (auto simp: oneLine_def)
  have pk: "peek (?q @ NL # p) = hd ?q" using q(1) by (cases ?q) auto
  have nl: "hd ?q \<noteq> NUL" "hd ?q \<noteq> NL" using oq q(1) by (cases ?q; auto)+
  have seek: "seek ?E (?q @ NL # p) = Some (?E # z @ NL # p)"
    using seek_line[OF q(3) oq, of "NL # p"] by (simp add: dz)
  have key: "upto_ptr (?q @ NL # p) (?E # z @ NL # p) = ?n"
    using upto_append[of ?n "?E # z @ NL # p"] z by (metis append.assoc append_Cons)
  have "oneLine w \<Longrightarrow> dropWhile (\<lambda>c. c \<noteq> NUL \<and> c \<noteq> NL) (w @ NL # p) = NL # p" for w
    by (induction w) auto
  then have val: "dropWhile (\<lambda>c. c \<noteq> NUL \<and> c \<noteq> NL) (skipBlank z @ NL # p) = NL # p" using ov by blast
  show "iniMergeFrom d s (l @ NL # p) =
      (case s of None \<Rightarrow> iniMergeFrom d s p
       | Some t \<Rightarrow> (case iniEntry d t k (Some v) of None \<Rightarrow> None | Some e \<Rightarrow> iniMergeFrom e s p))"
    unfolding iniMergeFrom.simps[of d s "l @ NL # p"] Let_def skipBlank_line pk seek option.case
    using nl hash q(2)
    by (simp add: key[simplified] skipBlank_line val k[symmetric] vz[symmetric] merge_newline cong: option.case_cong)
qed


lemma merge_lines:
  assumes "\<forall>l \<in> set ls. plainLine l" "iniText d" "cur = None \<or> okSection (the cur)"
  shows "\<exists>d'. iniMergeFrom d cur (unlines ls) = Some d' \<and> iniText d'
    \<and> iniMap d' = iniMap d ++ map_of (rev (iniEntries cur ls))"
  using assms
proof (induction ls arbitrary: d cur)
  case Nil
  then show ?case by (simp add: iniMergeFrom.simps)
next
  case (Cons l ls)
  have p: "plainLine l" and ps: "\<forall>l \<in> set ls. plainLine l" using Cons.prems by auto
  note IH = Cons.IH[OF ps]
  show ?case
  proof (cases "kindOf l")
    case Blank
    then show ?thesis using IH[OF Cons.prems(2,3)] merge_Blank[of l] by (simp add: isBlank_def)
  next
    case (Header h)
    then obtain s where h: "h = Some s" using p by (auto simp: plainLine_def split: option.splits)
    note m = merge_Header[OF p Header[unfolded h]]
    show ?thesis using IH[OF Cons.prems(2), of "Some s"] m Header h by simp
  next
    case (Entry k v)
    note m = merge_Entry[OF p Entry]
    show ?thesis
    proof (cases cur)
      case None
      then show ?thesis using IH[OF Cons.prems(2,3)] m(1) Entry by simp
    next
      case (Some s)
      have "okAssign (s, k) v" using m(2,3) Cons.prems(3) Some by (simp add: okAssign_def)
      from iniPut_stored[OF Cons.prems(2) this] obtain e where e: "iniEntry d s k (Some v) = Some e" "iniText e"
        "iniMap e = (iniMap d)((s, k) \<mapsto> v)" by (auto simp: iniPut_def)
      obtain d' where "iniMergeFrom e cur (unlines ls) = Some d'" "iniText d'"
        "iniMap d' = iniMap e ++ map_of (rev (iniEntries cur ls))" using IH[OF e(2) Cons.prems(3)] by blast
      then show ?thesis using m(1) e Entry Some
        by (simp add: map_add_def fun_eq_iff split: option.split)
    qed
  next
    case Other
    then show ?thesis using p by (simp add: plainLine_def)
  qed
qed

lemma merge_plain:
  assumes "plainText new" "iniText d" "distinct (map fst (iniEntries None (iniLines new)))"
  shows "\<exists>d'. iniMerge d new = Some d' \<and> iniText d' \<and> iniMap d' = iniMap d ++ iniMap new"
proof (cases new)
  case None
  then show ?thesis using assms(2) by (simp add: iniMerge_def iniMap_def iniLines_def)
next
  case (Some n)
  have n: "n = unlines (iniLines new)" using iniLines_text(1)[of new] assms(1) Some by (simp add: plainText_def)
  have "map_of (rev (iniEntries None (iniLines new))) = iniMap new"
    using map_of_inject_set[of "rev (iniEntries None (iniLines new))" "iniEntries None (iniLines new)"] assms(3)
    by (simp add: iniMap_def rev_map[symmetric])
  moreover have "\<forall>l \<in> set (iniLines new). plainLine l" using assms(1) by (simp add: plainText_def)
  ultimately obtain d' where "iniMergeFrom d None n = Some d'" "iniText d'" "iniMap d' = iniMap d ++ iniMap new"
    using merge_lines[of "iniLines new" d None] assms(2) n[symmetric] by auto
  then show ?thesis unfolding iniMerge_def Some by simp
qed

text \<open>Files made by writing entries are plain and have no key twice.\<close>

definition written :: "string option \<Rightarrow> bool" where
  "written d \<longleftrightarrow> plainText d \<and> distinct (map fst (iniEntries None (iniLines d)))"

lemma plain_entry: "okKey k \<Longrightarrow> okValue v \<Longrightarrow> peek k \<noteq> CHR ''#'' \<Longrightarrow> plainLine (k @ ''='' @ v)"
  using kindOf_entry[of k v] by (simp add: plainLine_def okKey_def okValue_def)

lemma plain_header: "okSection s \<Longrightarrow> plainLine (''['' @ s @ '']'')"
  using kindOf_section[of s]
  by (simp add: plainLine_def skipBlank_Cons trimBack_def okSection_def blank_def)

lemma putLines_written:
  assumes p: "putLines s k v ls ls'" and ok: "okSection s" "okKey k" "okValue v" "peek k \<noteq> CHR ''#''"
    and o: "\<forall>l \<in> set ls'. oneLine l"
    and w: "\<forall>l \<in> set ls. plainLine l" "distinct (map fst (iniEntries None ls))"
  shows "(\<forall>l \<in> set ls'. plainLine l) \<and> distinct (map fst (iniEntries None ls'))"
proof -
  note pe = plain_entry[OF ok(2-4)] and ph = plain_header[OF ok(1)]
  have ke: "kindOf (k @ CHR ''='' # v) = Entry k v" using kindOf_entry[OF ok(2,3)] by simp
  have ks: "kindOf (CHR ''['' # s @ '']'') = Header (Some s)" using kindOf_section[OF ok(1)] by simp
  have kn: "kindOf [] = Blank" by (simp add: kindOf_def)
  have pn: "plainLine []" by (simp add: plainLine_def kn)
  from p show ?thesis unfolding putLines_def
  proof (elim disjE conjE exE)
    fix a l m b x
    assume h: "ls = a @ l # b" "ls' = a @ m # b" "kindOf l = Entry k x" "kindOf m = Entry k v"
      "sectionAfter None a = Some s" "(s, k) \<notin> keysOf None a"
    then have "plainLine m" using o ok(4) by (simp add: plainLine_def)
    then show ?thesis using h w by (simp add: iniEntries_append)
  next
    fix a b
    assume h: "(s, k) \<notin> keysOf None ls" "ls = a @ b" "sectionAfter None a = Some s" "ls' = a @ (k @ ''='' @ v) # b"
    then show ?thesis using w pe ke by (auto simp: iniEntries_append)
  next
    fix a b x
    assume h: "(s, k) \<notin> keysOf None ls" "ls = a @ b" "\<forall>l \<in> set b. isBlank l"
      "ls' = a @ x @ (''['' @ s @ '']'') # (k @ ''='' @ v) # b" and x: "x = []"
    then show ?thesis using w pe ph ke ks by (auto simp: iniEntries_append iniEntries_blank)
  next
    fix a b x
    assume h: "(s, k) \<notin> keysOf None ls" "ls = a @ b" "\<forall>l \<in> set b. isBlank l"
      "ls' = a @ x @ (''['' @ s @ '']'') # (k @ ''='' @ v) # b" and x: "x = [[]]"
    then show ?thesis using w pe ph ke ks kn pn by (auto simp: iniEntries_append iniEntries_blank)
  qed
qed

lemma iniPut_written:
  assumes "written d" "okAssign c v" "peek (snd c) \<noteq> CHR ''#''"
  shows "\<exists>d'. iniPut d c v = Some d' \<and> written d' \<and> iniMap d' = (iniMap d)(c \<mapsto> v)"
proof -
  have ok: "okSection (fst c)" "okKey (snd c)" "okValue v" using assms(2) by (auto simp: okAssign_def)
  have d: "iniText d" using assms(1) by (simp add: written_def plainText_def)
  obtain ls' where l: "iniPut d c v = Some (Some (unlines ls'))" "\<forall>l \<in> set ls'. oneLine l"
    "putLines (fst c) (snd c) v (iniLines d) ls'" using iniEntry_put[OF d ok] unfolding iniPut_def by blast
  have "iniMap (Some (unlines ls')) = (iniMap d)(c \<mapsto> v)"
    using putLines_map[OF l(3) ok] by (simp add: iniMap_def iniLines_unlines[OF l(2)])
  moreover have "written (Some (unlines ls'))"
    using putLines_written[OF l(3) ok assms(3) l(2)] assms(1) iniText_unlines[OF l(2)]
    by (simp add: written_def plainText_def iniLines_unlines[OF l(2)])
  ultimately show ?thesis using l(1) by blast
qed

interpretation puts: entry_store written "\<lambda>c v. okAssign c v \<and> peek (snd c) \<noteq> CHR ''#''" iniMap iniPut
  by unfold_locales (simp add: iniPut_written)

text \<open>C17. \<open>iniEntry\<close> refines a map from sections and keys to values: reading an entry looks it up, and
  writing one updates it, whatever else the file holds.\<close>

theorem iniEntry_refines:
  assumes "iniText d" "okSection s" "okKey k" "okValue v"
  shows "iniEntry d s k None = Some (iniMap d (s, k)) \<and>
    (\<exists>d'. iniEntry d s k (Some v) = Some d' \<and> iniText d' \<and> iniMap d' = (iniMap d)((s, k) \<mapsto> v))"
  using iniEntry_get[OF assms(1-3)] iniPut_stored[OF assms(1), of "(s, k)" v] assms(2-4)
  by (simp add: iniPut_def okAssign_def)

theorem iniEntry_refines_witness:
  "iniEntry (Some ''[A]
x = 1
[B]
'') ''A'' ''x'' None = Some (iniMap (Some ''[A]
x = 1
[B]
'') (''A'', ''x'')) \<and> iniText (Some ''[A]
x = 1
[B]
'')"
  using iniEntry_refines[of "Some ''[A]
x = 1
[B]
''" "''A''" "''x''" "''2''"] by (simp add: iniText_def cstr_def okSection_def okKey_def okValue_def oneLine_def trimmed_def
    skipBlank_def trimBack_def blank_def)

end
