(* ===== verification/Dmrc.thy ===== *)
theory Dmrc
  imports IniFile ArgVec
begin

text \<open>
  The session chosen by a user, in \<^verbatim>\<open>kdm/backend/client.c\<close> and \<^verbatim>\<open>session.c\<close>: reading the user's
  \<^verbatim>\<open>.dmrc\<close> for the greeter (\<open>readDmrc\<close>), the greeter's changes (\<open>G_GetDmrc\<close> and \<open>G_PutDmrc\<close>), merging
  them into the file when the session starts (\<open>mergeSessionArgs\<close>), and the command found for the chosen session
  (the branch of \<open>startClient\<close> that runs in the child). Files, processes and accounts are parameters; memory
  suffices, and \<open>None\<close> on the outside is a read outside a buffer.
\<close>

section \<open>Reading\<close>

definition GE_Ok :: int where "GE_Ok = 0"
definition GE_Error :: int where "GE_Error = 2"
definition GE_NoUser :: int where "GE_NoUser = 20"
definition GE_NoFile :: int where "GE_NoFile = 21"
definition GE_Denied :: int where "GE_Denied = 22"

text \<open>An account is its name and its home directory; \<open>reUser\<close> is \<open>dmrcuser\<close>.\<close>

record readEnv =
  reUser :: "string option"
  rePw :: "string \<Rightarrow> (string \<times> string) option"
  reDir :: string
  reLoad :: "string \<Rightarrow> iniSource"
  rePipe :: bool
  reFork :: bool
  reSetUser :: bool

text \<open>What the child sends: the length of the data and the data up to the first zero, or nothing.\<close>

definition dmrcChild :: "readEnv \<Rightarrow> string \<Rightarrow> (int \<times> string) option option" where
  "dmrcChild e fname =
     (if \<not> reSetUser e then Some None
      else case iniLoad (reLoad e fname) of None \<Rightarrow> None
      | Some None \<Rightarrow> Some (Some (-1, []))
      | Some (Some data) \<Rightarrow> let s = takeWhile (\<lambda>c. c \<noteq> NUL) data in Some (Some (int (length s), s)))"

definition readDmrc :: "readEnv \<Rightarrow> (int \<times> string option) option" where
  "readDmrc e =
     (case reUser e of None \<Rightarrow> Some (GE_NoUser, None)
      | Some u \<Rightarrow>
          if u = [] then Some (GE_NoUser, None)
          else case rePw e u of None \<Rightarrow> Some (GE_NoUser, None)
          | Some (name, home) \<Rightarrow>
              if reDir e \<noteq> [] then
                (case iniLoad (reLoad e (reDir e @ ''/'' @ name @ ''.dmrc'')) of None \<Rightarrow> None
                 | Some None \<Rightarrow> Some (GE_Ok, None)
                 | Some (Some data) \<Rightarrow> Some (GE_NoFile, Some data))
              else if \<not> rePipe e then Some (GE_Error, None)
              else if \<not> reFork e then Some (GE_Error, None)
              else case dmrcChild e (home @ ''/.dmrc'') of None \<Rightarrow> None
              | Some None \<Rightarrow> Some (GE_Error, None)
              | Some (Some (len, s)) \<Rightarrow> if len = -1 then Some (GE_Denied, None) else Some (GE_Ok, Some s))"

text \<open>The requests of the greeter; \<open>getDmrc\<close> answers a string or nothing.\<close>

record dmrcState =
  dmrcUser :: "string option"
  curDmrc :: "string option"
  newDmrc :: "string option"

definition askDmrc :: "readEnv \<Rightarrow> string option \<Rightarrow> dmrcState \<Rightarrow> (dmrcState \<times> int) option" where
  "askDmrc e name st =
     (if dmrcUser st \<noteq> name then
        map_option (\<lambda>(sts, cur). (st\<lparr>dmrcUser := name, curDmrc := cur\<rparr>, sts)) (readDmrc (e\<lparr>reUser := name\<rparr>))
      else Some (st, GE_Ok))"

definition getDmrc :: "string \<Rightarrow> dmrcState \<Rightarrow> string option option" where
  "getDmrc name st = iniEntry (curDmrc st) ''Desktop'' name None"

definition putDmrc :: "string \<Rightarrow> string \<Rightarrow> dmrcState \<Rightarrow> dmrcState option" where
  "putDmrc name v st =
     map_option (\<lambda>n. st\<lparr>newDmrc := n\<rparr>) (iniEntry (newDmrc st) ''Desktop'' name (Some v))"

section \<open>Merging and saving\<close>

datatype dmrcAct = SaveTo string string | MkDir string

record mergeEnv =
  mDir :: string
  mUser :: string
  mLoad :: "string \<Rightarrow> iniSource"
  mSave :: saveCalls

text \<open>The directories above a file, each slash of its name in turn.\<close>

definition above :: "string \<Rightarrow> string list" where
  "above f = map (\<lambda>i. take i f) (filter (\<lambda>i. f ! i = CHR ''/'') [0..<length f])"

definition firstDmrc :: string where
  "firstDmrc = ''[Desktop]'' @ [NL] @ ''Session=default'' @ [NL]"

definition mergeSessionArgs ::
    "mergeEnv \<Rightarrow> bool \<Rightarrow> dmrcState \<Rightarrow> (dmrcState \<times> dmrcAct list) option" where
  "mergeSessionArgs e cansave st =
     (let own = ((curDmrc st = None \<or> newDmrc st \<noteq> None) \<and> mDir e \<noteq> []);
          fname = (if own then mDir e @ ''/'' @ mUser e @ ''.dmrc'' else ''.dmrc'') in
      case (case curDmrc st of
          Some d \<Rightarrow> Some (Some d, False)
        | None \<Rightarrow>
            (case iniLoad (mLoad e fname) of None \<Rightarrow> None
             | Some None \<Rightarrow> Some (Some firstDmrc, True)
             | Some (Some d) \<Rightarrow> Some (Some d, False))) of None \<Rightarrow> None
      | Some (cur, fresh) \<Rightarrow>
          (case (case newDmrc st of None \<Rightarrow> Some cur | Some n \<Rightarrow> iniMerge cur (Some n)) of None \<Rightarrow> None
           | Some c \<Rightarrow>
               let needsave = (fresh \<or> newDmrc st \<noteq> None);
                   data = takeWhile (\<lambda>x. x \<noteq> NUL) (case c of None \<Rightarrow> [] | Some d \<Rightarrow> d);
                   (saved, err, _) = iniSave data (mSave e) in
               Some (st\<lparr>curDmrc := c\<rparr>,
                 if needsave \<and> cansave then
                   SaveTo fname data #
                   (if \<not> saved \<and> err = ENOENT \<and> own then map MkDir (above fname) @ [SaveTo fname data] else [])
                 else [])))"

section \<open>The command of the session\<close>

definition chosenSession :: "dmrcState \<Rightarrow> string option" where
  "chosenSession st =
     map_option (\<lambda>v. case v of None \<Rightarrow> ''failsafe'' | Some s \<Rightarrow> s) (iniEntry (curDmrc st) ''Desktop'' ''Session'' None)"

fun sessionArgs :: "(string \<Rightarrow> iniSource) \<Rightarrow> string list \<Rightarrow> string \<Rightarrow> string option" where
  "sessionArgs load [] desksess =
     Some (if desksess = ''failsafe'' \<or> desksess = ''default'' \<or> desksess = ''custom'' then desksess else [])"
| "sessionArgs load (d # ds) desksess =
     (case iniLoad (load (d @ ''/'' @ desksess @ ''.desktop'')) of None \<Rightarrow> None
      | Some None \<Rightarrow> sessionArgs load ds desksess
      | Some (Some str) \<Rightarrow>
          (case iniEntry (Some str) ''Desktop Entry'' ''Hidden'' None of None \<Rightarrow> None
           | Some h \<Rightarrow>
               if h = Some ''true'' then Some []
               else case iniEntry (Some str) ''Desktop Entry'' ''Exec'' None of None \<Rightarrow> None
               | Some None \<Rightarrow> Some []
               | Some (Some x) \<Rightarrow> Some x))"

text \<open>The commands tried, in order: the session's with the arguments as one word, and the failsafe client.\<close>

definition sessionCommands :: "string \<Rightarrow> string \<Rightarrow> string \<Rightarrow> string list list outcome" where
  "sessionCommands session failsafeClient sessargs =
     bind_out (parseArgs (\<lambda>_. True) None session) (\<lambda>argv.
       Ret (case addStrArr True True argv sessargs (-1) of None \<Rightarrow> []
         | Some a \<Rightarrow> (if a \<noteq> [] \<and> a ! 0 \<noteq> [] then [a] else []) @ [[failsafeClient]]))"

section \<open>What the user gets\<close>

fun putAll :: "(string \<times> string) list \<Rightarrow> dmrcState \<Rightarrow> dmrcState option" where
  "putAll [] st = Some st"
| "putAll ((k, v) # ps) st = (case putDmrc k v st of None \<Rightarrow> None | Some st' \<Rightarrow> putAll ps st')"

definition okPut :: "string \<times> string \<Rightarrow> bool" where
  "okPut p \<longleftrightarrow> okKey (fst p) \<and> peek (fst p) \<noteq> CHR ''#'' \<and> okValue (snd p)"

definition inDesktop :: "string \<times> string \<Rightarrow> (string \<times> string) \<times> string" where
  "inDesktop p = ((''Desktop'', fst p), snd p)"

lemma okSection_Desktop: "okSection ''Desktop''" "okSection ''Desktop Entry''"
  by (simp_all add: okSection_def)

lemma putAll_puts:
  "putAll ps st = map_option (\<lambda>n. st\<lparr>newDmrc := n\<rparr>) (puts.puts (newDmrc st) (map inDesktop ps))"
proof (induction ps arbitrary: st)
  case (Cons p ps)
  obtain k v where p: "p = (k, v)" by (cases p)
  have d: "putDmrc k v st = map_option (\<lambda>n. st\<lparr>newDmrc := n\<rparr>) (iniPut (newDmrc st) (''Desktop'', k) v)"
    by (simp add: putDmrc_def iniPut_def)
  show ?case
    by (cases "iniPut (newDmrc st) (''Desktop'', k) v")
      (simp_all add: p d Cons.IH inDesktop_def option.map_comp comp_def)
qed simp

lemma written_None: "written None"
  by (simp add: written_def plainText_def iniText_def iniLines_def)

lemma putAll_content:
  assumes "newDmrc st = None" "\<forall>p \<in> set ps. okPut p"
  obtains n where "putAll ps st = Some (st\<lparr>newDmrc := n\<rparr>)" "written n"
    "\<And>k. iniMap n (''Desktop'', k) = map_of (rev ps) k" "ps \<noteq> [] \<Longrightarrow> n \<noteq> None" "ps = [] \<Longrightarrow> n = None"
proof -
  have "\<forall>(c, v) \<in> set (map inDesktop ps). okAssign c v \<and> peek (snd c) \<noteq> CHR ''#''"
    using assms(2) okSection_Desktop by (auto simp: okPut_def inDesktop_def okAssign_def)
  from puts.puts_content[OF written_None this] obtain n where n: "puts.puts None (map inDesktop ps) = Some n" "written n"
    "iniMap n = iniMap None ++ map_of (rev (map inDesktop ps))" by blast
  have m: "map_of (map inDesktop xs) (''Desktop'', k) = map_of xs k" for xs k
    by (induction xs) (auto simp: inDesktop_def)
  have e: "iniMap None = Map.empty" by (simp add: iniMap_def iniLines_def)
  have c: "iniMap n (''Desktop'', k) = map_of (rev ps) k" for k
    using m[of "rev ps" k] by (simp add: n(3) e rev_map)
  have s: "n \<noteq> None" if "ps \<noteq> []"
  proof
    assume "n = None"
    then have "map_of (rev ps) = Map.empty" using c e by (simp add: fun_eq_iff)
    then show False using that by (simp add: map_of_eq_empty_iff)
  qed
  have z: "n = None" if "ps = []" using n(1) that by simp
  show thesis using that[of n] n c s z putAll_puts[of ps st] assms(1) by simp
qed


lemma okKey_names: "okKey ''Session''" "okKey ''Hidden''" "okKey ''Exec''"
  by (simp_all add: okKey_def trimmed_def skipBlank_def trimBack_def blank_def)

lemma iniLoad_saved: "t \<noteq> [] \<Longrightarrow> last t = NL \<Longrightarrow> length t < 0x10000 \<Longrightarrow> iniLoad (Regular t True) = Some (Some t)"
  by (simp add: iniLoad_def)

text \<open>C6. The choices made in the greeter are in the user's file when the session starts: what is saved is what
  the session reads, every key has the last value given to it in the greeter, all other keys the value from before, and
  the next login loads the same.\<close>

theorem dmrc_choices_saved:
  assumes "curDmrc st = Some d" "iniText (Some d)" "newDmrc st = None" "ps \<noteq> []" "\<forall>p \<in> set ps. okPut p"
  shows "\<exists>st1 st2 data acts. putAll ps st = Some st1 \<and> mergeSessionArgs e True st1 = Some (st2, acts)
    \<and> hd acts = SaveTo (if mDir e = [] then ''.dmrc'' else mDir e @ ''/'' @ mUser e @ ''.dmrc'') data
    \<and> curDmrc st2 = Some data
    \<and> (length data < 0x10000 \<longrightarrow> iniLoad (Regular data True) = Some (Some data))
    \<and> (\<forall>k. okKey k \<longrightarrow> getDmrc k st2 =
         Some (case map_of (rev ps) k of None \<Rightarrow> iniMap (Some d) (''Desktop'', k) | Some v \<Rightarrow> Some v))"
proof -
  obtain n where n: "putAll ps st = Some (st\<lparr>newDmrc := n\<rparr>)" "written n"
    "\<And>k. iniMap n (''Desktop'', k) = map_of (rev ps) k" "n \<noteq> None"
    using putAll_content[OF assms(3,5)] assms(4) by metis
  obtain m where m: "n = Some m" using n(4) by blast
  obtain c where c: "iniMerge (Some d) n = Some c" "iniText c" "iniMap c = iniMap (Some d) ++ iniMap n"
    using merge_plain[OF _ assms(2), of n] n(2) by (auto simp: written_def)
  obtain p where p: "p \<in> set ps" using assms(4) by (cases ps) auto
  then have "map_of (rev ps) (fst p) \<noteq> None" by (simp add: map_of_eq_None_iff del: not_None_eq)
  then have "iniMap c (''Desktop'', fst p) \<noteq> None" using n(3) c(3) by (auto simp: map_add_def split: option.splits)
  then have "c \<noteq> None \<and> c \<noteq> Some []" 
    by (cases c) (auto simp: iniMap_def iniLines_def splitLines.simps[of "[]"])
  then obtain data where data: "c = Some data" "data \<noteq> []" by blast
  have t: "NUL \<notin> set data" "last data = NL" using c(2) data by (auto simp: iniText_def cstr_def)
  let ?st2 = "st\<lparr>newDmrc := n, curDmrc := Some data\<rparr>"
  have "\<exists>acts. mergeSessionArgs e True (st\<lparr>newDmrc := n\<rparr>) =
      Some (?st2, SaveTo (if mDir e = [] then ''.dmrc'' else mDir e @ ''/'' @ mUser e @ ''.dmrc'') data # acts)"
    using c(1) m cstrAt_id[OF t(1)] assms(1) data
    by (simp add: mergeSessionArgs_def Let_def split: prod.split)
  then obtain acts where a: "mergeSessionArgs e True (st\<lparr>newDmrc := n\<rparr>) =
      Some (?st2, SaveTo (if mDir e = [] then ''.dmrc'' else mDir e @ ''/'' @ mUser e @ ''.dmrc'') data # acts)" by blast
  have g: "getDmrc k ?st2 = Some (case map_of (rev ps) k of None \<Rightarrow> iniMap (Some d) (''Desktop'', k) | Some v \<Rightarrow> Some v)"
    if "okKey k" for k
    using iniEntry_get[OF c(2) okSection_Desktop(1) that] c(3) n(3) data(1)
    by (simp add: getDmrc_def map_add_def)
  have l: "length data < 0x10000 \<longrightarrow> iniLoad (Regular data True) = Some (Some data)"
    using iniLoad_saved[OF data(2) t(2)] by blast
  show ?thesis
    using n(1) a l g by simp
qed

definition demoDmrc :: dmrcState where
  "demoDmrc = \<lparr>dmrcUser = Some ''u'', curDmrc = Some firstDmrc, newDmrc = None\<rparr>"

definition demoMerge :: mergeEnv where
  "demoMerge = \<lparr>mDir = ''/var/dmrc'', mUser = ''u'', mLoad = (\<lambda>_. Missing),
     mSave = \<lparr>svOpen = None, svWrite = Inr 0, svClose = None\<rparr>\<rparr>"

theorem dmrc_choices_saved_witness:
  "\<exists>st1 st2 acts. putAll [(''Session'', ''kde'')] demoDmrc = Some st1
    \<and> mergeSessionArgs demoMerge True st1 = Some (st2, acts) \<and> getDmrc ''Session'' st2 = Some (Some ''kde'')"
proof -
  have "curDmrc demoDmrc = Some firstDmrc" "newDmrc demoDmrc = None" "iniText (Some firstDmrc)"
    by (simp_all add: demoDmrc_def firstDmrc_def iniText_def cstr_def)
  moreover have "\<forall>p \<in> set [(''Session'', ''kde'')]. okPut p"
    by (simp add: okPut_def okValue_def okKey_names trimmed_def skipBlank_def trimBack_def blank_def)
  ultimately show ?thesis
    using dmrc_choices_saved[of demoDmrc firstDmrc "[(''Session'', ''kde'')]" demoMerge] okKey_names(1)
    by (auto dest!: spec[of _ "''Session''"])
qed

lemma sessionArgs_first:
  "\<lbrakk>\<forall>x \<in> set ds1. iniLoad (load (x @ ''/'' @ s @ ''.desktop'')) = Some None;
    iniLoad (load (d @ ''/'' @ s @ ''.desktop'')) = Some (Some t); iniText (Some t)\<rbrakk> \<Longrightarrow>
   sessionArgs load (ds1 @ d # ds2) s =
     Some (if iniMap (Some t) (''Desktop Entry'', ''Hidden'') = Some ''true'' then []
       else case iniMap (Some t) (''Desktop Entry'', ''Exec'') of None \<Rightarrow> [] | Some x \<Rightarrow> x)"
  by (induction ds1)
    (simp_all add: iniEntry_get[OF _ okSection_Desktop(2)] okKey_names split: option.split)

text \<open>The argument of the session script is the command of the session the user's file names, as the first directory
  that describes it has it; for a hidden entry, or one without a command, it is empty.\<close>

theorem chosen_session_found:
  assumes "getDmrc ''Session'' st = Some (Some s)"
    "\<forall>x \<in> set ds1. iniLoad (load (x @ ''/'' @ s @ ''.desktop'')) = Some None"
    "iniLoad (load (d @ ''/'' @ s @ ''.desktop'')) = Some (Some t)" "iniText (Some t)"
  shows "\<exists>n. chosenSession st = Some n \<and> sessionArgs load (ds1 @ d # ds2) n =
     Some (if iniMap (Some t) (''Desktop Entry'', ''Hidden'') = Some ''true'' then []
       else case iniMap (Some t) (''Desktop Entry'', ''Exec'') of None \<Rightarrow> [] | Some x \<Rightarrow> x)"
  using assms(1) sessionArgs_first[OF assms(2-4)] by (simp add: chosenSession_def getDmrc_def)

definition demoDesktop :: "string \<Rightarrow> iniSource" where
  "demoDesktop f = (if f = ''/x/kde.desktop'' then Regular (''[Desktop Entry]'' @ [NL] @ ''Exec=startkde'' @ [NL]) True else Missing)"

theorem chosen_session_found_witness:
  "sessionArgs demoDesktop [''/a'', ''/x''] ''kde'' = Some ''startkde''"
proof -
  let ?st = "\<lparr>dmrcUser = None, curDmrc = Some (''[Desktop]'' @ [NL] @ ''Session=kde'' @ [NL]), newDmrc = None\<rparr>"
  let ?t = "''[Desktop Entry]'' @ [NL] @ ''Exec=startkde'' @ [NL]"
  have 1: "getDmrc ''Session'' ?st = Some (Some ''kde'')" by code_simp
  have 2: "\<forall>x \<in> set [''/a'']. iniLoad (demoDesktop (x @ ''/'' @ ''kde'' @ ''.desktop'')) = Some None"
    by (simp add: demoDesktop_def iniLoad_def)
  have 3: "iniLoad (demoDesktop (''/x'' @ ''/'' @ ''kde'' @ ''.desktop'')) = Some (Some ?t)"
    by (simp add: demoDesktop_def iniLoad_def)
  have 4: "iniText (Some ?t)" by (simp add: iniText_def cstr_def)
  have 5: "(if iniMap (Some ?t) (''Desktop Entry'', ''Hidden'') = Some ''true'' then []
       else case iniMap (Some ?t) (''Desktop Entry'', ''Exec'') of None \<Rightarrow> [] | Some x \<Rightarrow> x) = ''startkde''" by code_simp
  have 6: "chosenSession ?st = Some ''kde''" using 1 by (simp add: chosenSession_def getDmrc_def)
  show ?thesis using chosen_session_found[OF 1 2 3 4, of "[]"] unfolding 5 6 by simp
qed

section \<open>Deviations\<close>

text \<open>With a directory for the files of all users, loading one reports that there is none, and a missing one
  is no error: the two codes are exchanged.\<close>

lemma readDmrc_exchanged:
  assumes "reUser e = Some u" "u \<noteq> []" "rePw e u = Some (n, h)" "reDir e \<noteq> []"
    "iniLoad (reLoad e (reDir e @ ''/'' @ n @ ''.dmrc'')) = Some x"
  shows "readDmrc e = Some (case x of None \<Rightarrow> (GE_Ok, None) | Some t \<Rightarrow> (GE_NoFile, Some t))"
  using assms by (simp add: readDmrc_def split: option.split)

text \<open>An empty file is read at the byte before its buffer.\<close>

lemma empty_dmrc_read: "iniLoad (Regular [] True) = None"
  by (simp add: iniLoad_def)

text \<open>A full disk is reported with the negated error number, which no caller compares with.\<close>

lemma short_write_errno:
  "\<lbrakk>NUL \<notin> set d; svOpen c = None; svWrite c = Inr n; n \<noteq> length d\<rbrakk> \<Longrightarrow> fst (snd (iniSave d c)) = - 28"
  by (simp add: iniSave_def Let_def ENOSPC_def cstrAt_id)

end
