(* ===== verification/KdmRc.thy ===== *)
theory KdmRc
  imports Policy IniFile
begin

text \<open>
  The configuration file \<^verbatim>\<open>kdmrc\<close> as the helper reads it, \<^verbatim>\<open>kdm/kfrontend/kdm_config.c\<close>: parsing
  (\<open>readConfig\<close>), the entry that applies to a display (\<open>findDEnt\<close>), and values by type (\<open>convertValue\<close>). The table
  of the known sections and keys is generated from \<^verbatim>\<open>config.def\<close> when the program is built, so it is a
  parameter; so is the group database. Memory suffices; complaints to the log are left out. A section is
  identified by its name, which is unique, an entry definition by its record.
\<close>

section \<open>The tables\<close>

definition C_TYPE_MASK :: "32 word" where "C_TYPE_MASK = 0x0f000000"
definition C_TYPE_INT :: "32 word" where "C_TYPE_INT = 0"
definition C_TYPE_STR :: "32 word" where "C_TYPE_STR = 0x01000000"
definition C_TYPE_ARGV :: "32 word" where "C_TYPE_ARGV = 0x02000000"
definition C_PRIVATE :: "32 word" where "C_PRIVATE = 0xf0000000"
definition C_MTYPE_MASK :: "32 word" where "C_MTYPE_MASK = 0x30000000"
definition C_PATH :: "32 word" where "C_PATH = 0x10000000"
definition C_BOOL :: "32 word" where "C_BOOL = 0x10000000"
definition C_ENUM :: "32 word" where "C_ENUM = 0x20000000"
definition C_GRP :: "32 word" where "C_GRP = 0x30000000"
definition C_INTERNAL :: "32 word" where "C_INTERNAL = 0x40000000"
definition C_CONFIG :: "32 word" where "C_CONFIG = 0x80000000"

text \<open>What \<^verbatim>\<open>ptr\<close> of an entry points to: the options of an enumeration, a variable of the reader, or a function.\<close>

datatype rcHook = PrequestPort | PnoPassUsers | PautoLoginX

datatype rcPtr = NoPtr | Options "string list" | Variable string | Hook rcHook

record rcEnt =
  enName :: string
  enId :: "32 word"
  enPtr :: rcPtr
  enDef :: string

record rcSect =
  seName :: string
  seEnts :: "rcEnt list"

text \<open>A display's name and class split up, and the parts of a section name.\<close>

record dSpec =
  dsHost :: string
  dsNum :: string
  dsClass :: string

record rcEntry =
  ryEnt :: rcEnt
  ryVal :: string

record rcSection =
  rsName :: string
  rsDpy :: "dSpec option"
  rsSect :: rcSect
  rsEntries :: "rcEntry list"

section \<open>Parsing\<close>

definition dropSpaceBack :: "string \<Rightarrow> string" where
  "dropSpaceBack s = rev (dropWhile isspace (rev s))"

text \<open>
  The display part of \<open>[X-host:num_class-Core]\<close>. \<open>dash\<close> is the byte behind it: the count that
  becomes the length of the class still includes the underscore, so one byte more is taken.
\<close>

definition dpyParts :: "string \<Rightarrow> char \<Rightarrow> dSpec" where
  "dpyParts d dash =
     (let h = takeWhile (\<lambda>c. c \<noteq> CHR '':'') d in
      case dropWhile (\<lambda>c. c \<noteq> CHR '':'') d of
        [] \<Rightarrow> \<lparr>dsHost = h, dsNum = ''*'', dsClass = ''*''\<rparr>
      | _ # r \<Rightarrow>
          let n = takeWhile (\<lambda>c. c \<noteq> CHR ''_'') r in
          (case dropWhile (\<lambda>c. c \<noteq> CHR ''_'') r of
             [] \<Rightarrow> \<lparr>dsHost = h, dsNum = n, dsClass = ''*''\<rparr>
           | u # c \<Rightarrow> \<lparr>dsHost = h, dsNum = n, dsClass = take (length (u # c)) (c @ [dash])\<rparr>))"

text \<open>The name of a section: the display it is for and the name of its definition; \<open>None\<close> is \<open>illsec\<close>.\<close>

definition sectName :: "string \<Rightarrow> (dSpec option \<times> string) option" where
  "sectName n =
     (if peek n = CHR ''X'' \<and> peek (tl n) = CHR ''-'' then
        let r = rev (takeWhile (\<lambda>c. c \<noteq> CHR ''-'') (rev n));
            pos = length n - length r - 1 in
        if pos = 1 then None
        else Some (Some (dpyParts (take (pos - 2) (drop 2 n)) (CHR ''-'')), CHR ''-'' # r)
      else if peek n = CHR ''-'' then None
      else Some (None, n))"

record rcState =
  rcSecs :: "rcSection list"
  rcCur :: "string option"

definition rcHeader :: "rcSect list \<Rightarrow> string \<Rightarrow> rcState \<Rightarrow> rcState" where
  "rcHeader sects l st =
     (let h = dropSpaceBack l in
      if last h \<noteq> CHR '']'' then st\<lparr>rcCur := None\<rparr>
      else
        let n = butlast (tl h) in
        if \<exists>s \<in> set (rcSecs st). rsName s = n then st\<lparr>rcCur := Some n\<rparr>
        else case sectName n of None \<Rightarrow> st\<lparr>rcCur := None\<rparr>
        | Some (dpy, cls) \<Rightarrow>
            (case find (\<lambda>t. seName t = cls) sects of None \<Rightarrow> st\<lparr>rcCur := None\<rparr>
             | Some t \<Rightarrow>
                 st\<lparr>rcSecs := \<lparr>rsName = n, rsDpy = dpy, rsSect = t, rsEntries = []\<rparr> # rcSecs st, rcCur := Some n\<rparr>))"

text \<open>
  The value: escapes are replaced, blanks at the end go unless they are escaped. The first argument
  is the text up to \<^verbatim>\<open>en\<close>, the second the blanks behind it up to \<^verbatim>\<open>pt\<close>.
\<close>

definition unescapeRc :: "char \<Rightarrow> string" where
  "unescapeRc c =
     (if c = CHR ''s'' then '' '' else if c = CHR ''t'' then [TAB] else if c = CHR ''n'' then [NL]
      else if c = CHR ''r'' then [CHR 0x0D] else if c = BSL then [BSL] else [BSL, c])"

fun rcValue :: "string \<Rightarrow> string \<Rightarrow> string \<Rightarrow> string" where
  "rcValue en blanks [] = en"
| "rcValue en blanks (c # s) =
     (if c = BSL then
        (case s of [] \<Rightarrow> en | d # s' \<Rightarrow> rcValue (en @ blanks @ unescapeRc d) [] s')
      else if c = CHR '' '' \<or> c = TAB then rcValue en (blanks @ [c]) s
      else rcValue (en @ blanks @ [c]) [] s)"

definition addEntry :: "rcEntry \<Rightarrow> rcSection \<Rightarrow> rcSection" where
  "addEntry e s =
     (if \<exists>x \<in> set (rsEntries s). ryEnt x = ryEnt e then s else s\<lparr>rsEntries := e # rsEntries s\<rparr>)"

definition rcEntryLine :: "string \<Rightarrow> rcState \<Rightarrow> rcState" where
  "rcEntryLine l st =
     (case rcCur st of None \<Rightarrow> st
      | Some n \<Rightarrow>
          (case dropWhile (\<lambda>c. c \<noteq> CHR ''='') l of [] \<Rightarrow> st
           | _ # v \<Rightarrow>
               let k = dropSpaceBack (takeWhile (\<lambda>c. c \<noteq> CHR ''='') l) in
               if k = [] then st
               else case find (\<lambda>s. rsName s = n) (rcSecs st) of None \<Rightarrow> st
               | Some s \<Rightarrow>
                   (case find (\<lambda>e. enName e = k) (seEnts (rsSect s)) of None \<Rightarrow> st
                    | Some e \<Rightarrow>
                        let y = \<lparr>ryEnt = e, ryVal = rcValue [] [] (dropWhile isspace v)\<rparr> in
                        st\<lparr>rcSecs := update_where (\<lambda>s. rsName s = n) (addEntry y) (rcSecs st)\<rparr>)))"

text \<open>A line without its end.\<close>

definition rcLine :: "rcSect list \<Rightarrow> string \<Rightarrow> rcState \<Rightarrow> rcState" where
  "rcLine sects line st =
     (let l = dropWhile isspace line in
      if l = [] \<or> hd l = CHR ''#'' then st
      else if hd l = CHR ''['' then rcHeader sects l st
      else rcEntryLine l st)"

text \<open>The sections, the last one of the file first; a file that cannot be read leaves none.\<close>

definition readConfig :: "rcSect list \<Rightarrow> string option \<Rightarrow> rcSection list" where
  "readConfig sects file =
     (case file of None \<Rightarrow> []
      | Some f \<Rightarrow> rcSecs (fold (rcLine sects) (splitLines f) \<lparr>rcSecs = [], rcCur = None\<rparr>))"

section \<open>Looking up\<close>

text \<open>\<open>mkDSpec\<close> looks for a colon without a bound.\<close>

definition mkDSpec :: "string \<Rightarrow> string \<Rightarrow> dSpec option" where
  "mkDSpec nm cls =
     (if CHR '':'' \<in> set nm then
        Some \<lparr>dsHost = takeWhile (\<lambda>c. c \<noteq> CHR '':'') nm, dsNum = tl (dropWhile (\<lambda>c. c \<noteq> CHR '':'') nm),
              dsClass = cls\<rparr>
      else None)"

definition findIn :: "32 word \<Rightarrow> rcSection \<Rightarrow> rcEntry option" where
  "findIn ei s = find (\<lambda>y. enId (ryEnt y) = ei) (rsEntries s)"

definition findGEnt :: "rcSection list \<Rightarrow> 32 word \<Rightarrow> rcEntry option" where
  "findGEnt secs ei = List.find (\<lambda>y. enId (ryEnt y) = ei) (concat (map rsEntries (filter (\<lambda>s. rsDpy s = None) secs)))"

text \<open>\<^verbatim>\<open>memcmp\<close> at the end of the display's host, for a section that begins with a dot\<close>

definition hostTail :: "string \<Rightarrow> string \<Rightarrow> bool" where
  "hostTail t h \<longleftrightarrow> length t < length h \<and> drop (length h - length t) h = t"

definition dpyScore :: "dSpec \<Rightarrow> dSpec \<Rightarrow> nat option" where
  "dpyScore s d =
     (case (if dsClass s = ''*'' then Some 0 else if dsClass s = dsClass d then Some 1 else None) of None \<Rightarrow> None
      | Some a \<Rightarrow>
          (case (if dsNum s = ''*'' then Some 0 else if dsNum s = dsNum d then Some 2 else None) of None \<Rightarrow> None
           | Some b \<Rightarrow>
               (case (if dsHost s = ''*'' then Some 0
                      else if dsHost s = ''+'' then (if dsHost d \<noteq> [] then Some 4 else None)
                      else if peek (dsHost s) = CHR ''.'' then (if hostTail (dsHost s) (dsHost d) then Some 8 else None)
                      else if dsHost s = dsHost d then Some 12 else None) of None \<Rightarrow> None
                | Some c \<Rightarrow> Some (a + b + c))))"

fun findDEntIn :: "32 word \<Rightarrow> dSpec \<Rightarrow> rcSection list \<Rightarrow> int \<Rightarrow> rcEntry option \<Rightarrow> rcEntry option" where
  "findDEntIn ei d [] bestscore bestent = bestent"
| "findDEntIn ei d (s # secs) bestscore bestent =
     (case rsDpy s of None \<Rightarrow> findDEntIn ei d secs bestscore bestent
      | Some sp \<Rightarrow>
          (case dpyScore sp d of None \<Rightarrow> findDEntIn ei d secs bestscore bestent
           | Some score \<Rightarrow>
               if bestscore < int score then
                 (case findIn ei s of None \<Rightarrow> findDEntIn ei d secs bestscore bestent
                  | Some y \<Rightarrow> findDEntIn ei d secs (int score) (Some y))
               else findDEntIn ei d secs bestscore bestent))"

definition findDEnt :: "rcSection list \<Rightarrow> 32 word \<Rightarrow> dSpec \<Rightarrow> rcEntry option" where
  "findDEnt secs ei d = findDEntIn ei d secs (-1) None"

section \<open>Values\<close>

datatype cval = VInt int | VStr string | VArgv "string list"

definition lower :: "char \<Rightarrow> char" where
  "lower c = (let n = of_char c :: nat in if 65 \<le> n \<and> n \<le> 90 then char_of (n + 32) else c)"

definition digitIn :: "nat \<Rightarrow> char \<Rightarrow> nat option" where
  "digitIn base c =
     (let n = of_char c :: nat;
          v = (if 48 \<le> n \<and> n \<le> 57 then n - 48 else if 97 \<le> n \<and> n \<le> 102 then n - 87
               else if 65 \<le> n \<and> n \<le> 70 then n - 55 else base)
      in if v < base then Some v else None)"

definition numIn :: "nat \<Rightarrow> string \<Rightarrow> nat" where
  "numIn base ds = foldl (\<lambda>a c. a * base + (case digitIn base c of Some v \<Rightarrow> v | None \<Rightarrow> 0)) 0 ds"

text \<open>\<^verbatim>\<open>sscanf\<close> with \<open>%i\<close>: as \<^verbatim>\<open>strtol\<close> with base 0, cut to an \<^verbatim>\<open>int\<close>; a lone \<open>0x\<close> counts as zero.\<close>

definition scanInt :: "string \<Rightarrow> int option" where
  "scanInt b =
     (let s = dropWhile isspace b;
          neg = (peek s = CHR ''-'');
          t = (if neg \<or> peek s = CHR ''+'' then tl s else s);
          base = (if peek t = CHR ''0'' then (if peek (tl t) \<in> {CHR ''x'', CHR ''X''} then 16 else 8) else 10);
          u = (if base = 16 then tl (tl t) else t);
          ds = takeWhile (\<lambda>c. digitIn base c \<noteq> None) u;
          v = int (numIn base ds);
          v = (if neg then max (- (2 ^ 63)) (- v) else min (2 ^ 63 - 1) v)
      in if base \<noteq> 16 \<and> ds = [] then None else Some (sint (word_of_int v :: 32 word)))"

function splitArgv :: "string \<Rightarrow> string list" where
  "splitArgv v =
     (let w = dropWhile isspace v; x = takeWhile (\<lambda>c. c \<noteq> CHR '','') w in
      if x = [] then []
      else dropSpaceBack x # splitArgv (tl (dropWhile (\<lambda>c. c \<noteq> CHR '','') w)))"
  by pat_completeness auto

termination
proof (relation "measure length", simp)
  fix v w x :: string
  assume w: "w = dropWhile isspace v" and x: "x = takeWhile (\<lambda>c. c \<noteq> CHR '','') w" "x \<noteq> []"
  have hx: "0 < length x" using x(2) by (rule length_greater_0_conv[THEN iffD2])
  have "length w = length x + length (dropWhile (\<lambda>c. c \<noteq> CHR '','') w)"
    unfolding x by (metis length_append takeWhile_dropWhile_id)
  moreover have "length w \<le> length v" unfolding w by (rule length_dropWhile_le)
  ultimately show "(tl (dropWhile (\<lambda>c. c \<noteq> CHR '','') w), v) \<in> measure length"
    unfolding in_measure using hx length_tl[of "dropWhile (\<lambda>c. c \<noteq> CHR '','') w"] by linarith
qed

declare splitArgv.simps [simp del]

text \<open>
  \<open>convertValue\<close>: an error as its word, or the value; \<open>None\<close> when nothing is stored or the null pointer
  for the options is used. \<open>grp\<close> is \<^verbatim>\<open>getgrnam\<close>.
\<close>

definition convertValue ::
    "(string \<Rightarrow> int option) \<Rightarrow> rcEnt \<Rightarrow> string \<Rightarrow> string list option \<Rightarrow> (string + cval) option" where
  "convertValue grp et vl eopts =
     (let ty = enId et AND C_TYPE_MASK; mt = enId et AND C_MTYPE_MASK;
          buf = takeWhile (\<lambda>c. c \<noteq> NUL) (map lower (take 79 vl));
          num = (case scanInt buf of None \<Rightarrow> Some (Inl ''integer'') | Some v \<Rightarrow> Some (Inr (VInt v))) in
      if ty = C_TYPE_INT then
        (if mt = C_BOOL then
           (if buf \<in> {''true'', ''on'', ''yes'', ''1''} then Some (Inr (VInt 1))
            else if buf \<in> {''false'', ''off'', ''no'', ''0''} then Some (Inr (VInt 0))
            else Some (Inl ''boolean''))
         else if mt = C_ENUM then
           (case eopts of None \<Rightarrow> None
            | Some os \<Rightarrow>
                if vl \<in> set os then Some (Inr (VInt (int (length (takeWhile (\<lambda>x. x \<noteq> vl) os)))))
                else Some (Inl ''option''))
         else if mt = C_GRP then
           (case grp buf of Some g \<Rightarrow> Some (Inr (VInt g)) | None \<Rightarrow> num)
         else num)
      else if ty = C_TYPE_STR then
        Some (Inr (VStr (if mt = C_PATH \<and> vl \<noteq> [] \<and> last vl = CHR ''/'' then butlast vl else vl)))
      else if ty = C_TYPE_ARGV then Some (Inr (VArgv (splitArgv vl)))
      else None)"

text \<open>\<open>getValue\<close>: the configured value, or the default if there is none or it is invalid; \<open>None\<close> if nothing is stored.\<close>

definition getValue ::
    "(string \<Rightarrow> int option) \<Rightarrow> rcSection list \<Rightarrow> rcEnt \<Rightarrow> dSpec option \<Rightarrow> string list option \<Rightarrow> cval option" where
  "getValue grp secs et dspec eopts =
     (let def = (case convertValue grp et (enDef et) eopts of Some (Inr v) \<Rightarrow> Some v | _ \<Rightarrow> None);
          ent = (case dspec of Some d \<Rightarrow> findDEnt secs (enId et) d | None \<Rightarrow> findGEnt secs (enId et)) in
      case ent of None \<Rightarrow> def
      | Some y \<Rightarrow>
          (case convertValue grp et (ryVal y) eopts of Some (Inr v) \<Rightarrow> Some v | Some (Inl _) \<Rightarrow> def | None \<Rightarrow> None))"


section \<open>The best section\<close>

text \<open>The entries for a display with the scores of their sections, in the order of the list.\<close>

definition candidates :: "rcSection list \<Rightarrow> 32 word \<Rightarrow> dSpec \<Rightarrow> (nat \<times> rcEntry) list" where
  "candidates secs ei d = List.map_filter (\<lambda>s. case rsDpy s of None \<Rightarrow> None
     | Some sp \<Rightarrow> (case dpyScore sp d of None \<Rightarrow> None | Some c \<Rightarrow> map_option (Pair c) (findIn ei s))) secs"

lemma candidates_simps:
  "candidates [] ei d = []"
  "candidates (s # secs) ei d =
     (case rsDpy s of None \<Rightarrow> [] | Some sp \<Rightarrow> (case dpyScore sp d of None \<Rightarrow> []
        | Some c \<Rightarrow> (case findIn ei s of None \<Rightarrow> [] | Some y \<Rightarrow> [(c, y)]))) @ candidates secs ei d"
  by (simp_all add: candidates_def List.map_filter_def split: option.split)

definition bestOf :: "(nat \<times> rcEntry) list \<Rightarrow> rcEntry option" where
  "bestOf cs = map_option snd (find (\<lambda>(c, y). c = Max (fst ` set cs)) cs)"

lemma bestOf_snoc:
  "bestOf (cs @ [(c, y)]) = (if cs = [] \<or> Max (fst ` set cs) < c then Some y else bestOf cs)"
proof (cases "cs = []")
  case False
  then have f: "finite (fst ` set cs)" "fst ` set cs \<noteq> {}" by auto
  show ?thesis
  proof (cases "Max (fst ` set cs) < c")
    case True
    have "Max (fst ` set (cs @ [(c, y)])) = max c (Max (fst ` set cs))" using f by (simp add: Max_insert)
    then have m: "Max (fst ` set (cs @ [(c, y)])) = c" by (simp only: max_absorb1[OF less_imp_le[OF True]])
    have "\<not> (\<exists>x. x \<in> set cs \<and> (case x of (c', y) \<Rightarrow> c' = c))"
    proof
      assume "\<exists>x. x \<in> set cs \<and> (case x of (c', y) \<Rightarrow> c' = c)"
      then have "c \<in> fst ` set cs" by force
      then show False using Max_ge[OF f(1)] True by fastforce
    qed
    then have "find (\<lambda>(c', y). c' = c) cs = None" by (simp only: find_None_iff) simp
    then show ?thesis unfolding bestOf_def m using True by (simp add: find_append)
  next
    case le: False
    have "Max (fst ` set (cs @ [(c, y)])) = max c (Max (fst ` set cs))" using f by (simp add: Max_insert)
    then have m: "Max (fst ` set (cs @ [(c, y)])) = Max (fst ` set cs)"
      by (simp only: max_absorb2[OF leI[OF le]])
    have nl: "(cs = [] \<or> Max (fst ` set cs) < c) = False" using le False by blast
    have "Max (fst ` set cs) \<in> fst ` set cs" using f by (rule Max_in)
    then have "find (\<lambda>(c', y). c' = Max (fst ` set cs)) cs \<noteq> None" by (auto simp: find_None_iff)
    then show ?thesis unfolding nl if_False bestOf_def m by (auto simp: find_append split: option.splits)
  qed
qed (simp add: bestOf_def)

lemma findDEntIn_best:
  "bestscore = (if cs = [] then -1 else int (Max (fst ` set cs))) \<Longrightarrow> bestent = bestOf cs \<Longrightarrow>
   findDEntIn ei d secs bestscore bestent = bestOf (cs @ candidates secs ei d)"
proof (induction secs arbitrary: bestscore bestent cs)
  case (Cons s secs)
  show ?case
  proof (cases "candidates [s] ei d")
    case Nil
    then have c: "candidates (s # secs) ei d = candidates secs ei d"
      by (auto simp: candidates_simps split: option.splits)
    have "findDEntIn ei d (s # secs) bestscore bestent = findDEntIn ei d secs bestscore bestent"
      using Nil by (auto simp: candidates_simps split: option.splits)
    then show ?thesis using Cons.IH[OF Cons.prems] c by simp
  next
    case (Cons cy rest)
    then obtain sp c y where s: "rsDpy s = Some sp" "dpyScore sp d = Some c" "findIn ei s = Some y"
      by (auto simp: candidates_simps split: option.splits)
    have cand: "cs @ candidates (s # secs) ei d = (cs @ [(c, y)]) @ candidates secs ei d"
      using s by (simp add: candidates_simps)
    have m: "Max (fst ` set (cs @ [(c, y)])) = (if cs = [] then c else max c (Max (fst ` set cs)))"
      by (cases "cs = []") (simp_all add: Max_insert)
    have "findDEntIn ei d (s # secs) bestscore bestent =
        (if bestscore < int c then findDEntIn ei d secs (int c) (Some y) else findDEntIn ei d secs bestscore bestent)"
      using s by simp
    also have "\<dots> = bestOf ((cs @ [(c, y)]) @ candidates secs ei d)"
    proof (cases "bestscore < int c")
      case True
      then have "cs = [] \<or> Max (fst ` set cs) < c" using Cons.prems(1) by (auto split: if_splits)
      then show ?thesis using True Cons.IH[of "int c" "cs @ [(c, y)]" "Some y"] m
        by (auto simp: bestOf_snoc max_def)
    next
      case False
      then have "cs \<noteq> [] \<and> \<not> Max (fst ` set cs) < c" using Cons.prems(1) by (auto split: if_splits)
      then show ?thesis using False Cons.IH[of bestscore "cs @ [(c, y)]" bestent] Cons.prems m
        by (auto simp: bestOf_snoc max_def)
    qed
    finally show ?thesis using cand by simp
  qed
qed (simp add: candidates_simps)

text \<open>C18. The entry found for a display is the one of the best matching section that has the key: exact host, number and
  class over patterns, the host deciding first, and among equals the section that stands last in the file.\<close>

theorem findDEnt_best:
  "findDEnt secs ei d = map_option snd
     (find (\<lambda>(c, y). c = Max (fst ` set (candidates secs ei d))) (candidates secs ei d))"
  using findDEntIn_best[of "-1" "[]" None ei d secs] by (simp add: findDEnt_def bestOf_def)

section \<open>Reading back\<close>

definition escRc :: "char \<Rightarrow> string" where
  "escRc c =
     (if c = CHR '' '' then [BSL, CHR ''s''] else if c = TAB then [BSL, CHR ''t''] else if c = NL then [BSL, CHR ''n'']
      else if c = CHR 0x0D then [BSL, CHR ''r''] else if c = BSL then [BSL, BSL] else [c])"

definition entryText :: "string \<times> string \<Rightarrow> string" where
  "entryText kv = fst kv @ ''='' @ concat (map escRc (snd kv))"

fun cfgLines :: "(string \<times> (string \<times> string) list) list \<Rightarrow> string list" where
  "cfgLines [] = []"
| "cfgLines ((n, kvs) # ss) = (''['' @ n @ '']'') # map entryText kvs @ cfgLines ss"

definition cfgText :: "(string \<times> (string \<times> string) list) list \<Rightarrow> string" where
  "cfgText ss = unlines (cfgLines ss)"

definition okRcKey :: "string \<Rightarrow> bool" where
  "okRcKey k \<longleftrightarrow> k \<noteq> [] \<and> NL \<notin> set k \<and> CHR ''='' \<notin> set k \<and> \<not> isspace (hd k) \<and> \<not> isspace (last k)
     \<and> hd k \<noteq> CHR ''#'' \<and> hd k \<noteq> CHR ''[''"

text \<open>The sections a configuration describes; \<open>None\<close> if a section or a key is not in the tables or is not fit for a line.\<close>

fun sectionEntries :: "rcEnt list \<Rightarrow> (string \<times> string) list \<Rightarrow> rcEntry list option" where
  "sectionEntries ents [] = Some []"
| "sectionEntries ents ((k, v) # kvs) =
     (case (find (\<lambda>e. enName e = k) ents, sectionEntries ents kvs) of
        (Some e, Some ys) \<Rightarrow>
          if okRcKey k \<and> \<not> isspace (peek (concat (map escRc v))) then Some (\<lparr>ryEnt = e, ryVal = v\<rparr> # ys) else None
      | _ \<Rightarrow> None)"

fun cfgSections :: "rcSect list \<Rightarrow> (string \<times> (string \<times> string) list) list \<Rightarrow> rcSection list option" where
  "cfgSections sects [] = Some []"
| "cfgSections sects ((n, kvs) # ss) =
     (case sectName n of None \<Rightarrow> None
      | Some (dpy, cls) \<Rightarrow>
          (case find (\<lambda>t. seName t = cls) sects of None \<Rightarrow> None
           | Some t \<Rightarrow>
               (case (sectionEntries (seEnts t) kvs, cfgSections sects ss) of
                  (Some ys, Some secs) \<Rightarrow>
                    if NL \<notin> set n then Some (\<lparr>rsName = n, rsDpy = dpy, rsSect = t, rsEntries = rev ys\<rparr> # secs) else None
                | _ \<Rightarrow> None)))"

lemma rcValue_esc: "rcValue en [] (concat (map escRc v)) = en @ v"
  by (induction v arbitrary: en) (simp_all add: escRc_def unescapeRc_def)

lemma esc_NL: "NL \<notin> set (concat (map escRc v))"
  by (induction v) (auto simp: escRc_def)

lemma dropSpaceBack_id: "s = [] \<or> \<not> isspace (last s) \<Longrightarrow> dropSpaceBack s = s"
  unfolding dropSpaceBack_def by (cases s rule: rev_cases) auto

lemma dropWhile_hd: "w = [] \<or> \<not> P (hd w) \<Longrightarrow> dropWhile P w = w"
  by (cases w) auto

lemma isspace_NUL [simp]: "\<not> isspace NUL"
  by (simp add: isspace_def)

lemma upto_eq:
  "CHR ''='' \<notin> set k \<Longrightarrow> takeWhile (\<lambda>c. c \<noteq> CHR ''='') (k @ CHR ''='' # v) = k
    \<and> dropWhile (\<lambda>c. c \<noteq> CHR ''='') (k @ CHR ''='' # v) = CHR ''='' # v"
  by (induction k) auto

lemma update_where_other: "n \<notin> g ` set xs \<Longrightarrow> update_where (\<lambda>x. g x = n) f xs = xs"
  by (induction xs) auto

lemma rcLine_entry:
  assumes k: "okRcKey k" and v: "\<not> isspace (peek (concat (map escRc v)))"
    and s: "rcSecs st = s # secs" "rcCur st = Some (rsName s)" "rsName s \<notin> rsName ` set secs"
    and e: "find (\<lambda>e. enName e = k) (seEnts (rsSect s)) = Some e"
  shows "rcLine sects (entryText (k, v)) st = st\<lparr>rcSecs := addEntry \<lparr>ryEnt = e, ryVal = v\<rparr> s # secs\<rparr>"
proof -
  let ?l = "entryText (k, v)"
  have l: "?l = k @ CHR ''='' # concat (map escRc v)" by (simp add: entryText_def)
  have hd: "?l \<noteq> []" "hd ?l = hd k" using k by (auto simp: l okRcKey_def)
  have d: "dropWhile isspace ?l = ?l" using hd k by (intro dropWhile_hd) (simp add: okRcKey_def)
  have up: "takeWhile (\<lambda>c. c \<noteq> CHR ''='') ?l = k" "dropWhile (\<lambda>c. c \<noteq> CHR ''='') ?l = CHR ''='' # concat (map escRc v)"
    using upto_eq[of k] k by (auto simp: l okRcKey_def)
  have dk: "dropSpaceBack k = k" using k by (intro dropSpaceBack_id) (simp add: okRcKey_def)
  have dv: "dropWhile isspace (concat (map escRc v)) = concat (map escRc v)"
    using v by (intro dropWhile_hd) (cases "concat (map escRc v)"; simp)
  have ne: "k \<noteq> []" using k by (simp add: okRcKey_def)
  have "rcLine sects ?l st = rcEntryLine ?l st"
    using hd k by (simp add: rcLine_def d okRcKey_def)
  also have "\<dots> = st\<lparr>rcSecs := addEntry \<lparr>ryEnt = e, ryVal = v\<rparr> s # secs\<rparr>"
    unfolding rcEntryLine_def s(2) up option.case list.case dk dv Let_def
    using s(1) e ne by (simp add: rcValue_esc update_where_other[OF s(3)])
  finally show ?thesis .
qed

lemma rcLine_header:
  assumes n: "sectName n = Some (dpy, cls)" "find (\<lambda>t. seName t = cls) sects = Some t" "n \<notin> rsName ` set (rcSecs st)"
  shows "rcLine sects (''['' @ n @ '']'') st =
    st\<lparr>rcSecs := \<lparr>rsName = n, rsDpy = dpy, rsSect = t, rsEntries = []\<rparr> # rcSecs st, rcCur := Some n\<rparr>"
proof -
  let ?l = "''['' @ n @ '']''"
  have d: "dropWhile isspace ?l = ?l" by (simp add: isspace_def)
  have b: "dropSpaceBack ?l = ?l" by (intro dropSpaceBack_id) (simp add: isspace_def)
  have "rcLine sects ?l st = rcHeader sects ?l st" unfolding rcLine_def Let_def d by simp
  also have "\<dots> = st\<lparr>rcSecs := \<lparr>rsName = n, rsDpy = dpy, rsSect = t, rsEntries = []\<rparr> # rcSecs st, rcCur := Some n\<rparr>"
    unfolding rcHeader_def Let_def b using n by (auto simp: butlast_append)
  finally show ?thesis .
qed

lemma entries_read:
  assumes "sectionEntries (seEnts (rsSect s)) kvs = Some ys" "distinct (map fst kvs)"
    "rcSecs st = s # secs" "rcCur st = Some (rsName s)" "rsName s \<notin> rsName ` set secs"
    "\<forall>x \<in> set (rsEntries s). enName (ryEnt x) \<notin> set (map fst kvs)"
  shows "fold (rcLine sects) (map entryText kvs) st = st\<lparr>rcSecs := s\<lparr>rsEntries := rev ys @ rsEntries s\<rparr> # secs\<rparr>"
  using assms
proof (induction kvs arbitrary: s st ys)
  case (Cons kv kvs)
  obtain k v where kv: "kv = (k, v)" by (cases kv)
  obtain e zs where e: "find (\<lambda>e. enName e = k) (seEnts (rsSect s)) = Some e" "sectionEntries (seEnts (rsSect s)) kvs = Some zs"
    "okRcKey k" "\<not> isspace (peek (concat (map escRc v)))" "ys = \<lparr>ryEnt = e, ryVal = v\<rparr> # zs"
    using Cons.prems(1) by (auto simp: kv split: option.splits if_splits)
  have ek: "enName e = k" using find_SomeD[OF e(1)] by simp
  have add: "addEntry \<lparr>ryEnt = e, ryVal = v\<rparr> s = s\<lparr>rsEntries := \<lparr>ryEnt = e, ryVal = v\<rparr> # rsEntries s\<rparr>" (is "_ = ?s")
    using Cons.prems(6) ek by (auto simp: addEntry_def kv)
  let ?st = "st\<lparr>rcSecs := ?s # secs\<rparr>"
  have l: "rcLine sects (entryText (k, v)) st = ?st"
    using rcLine_entry[OF e(3,4) Cons.prems(3-5) e(1)] add by simp
  have "fold (rcLine sects) (map entryText kvs) ?st = ?st\<lparr>rcSecs := ?s\<lparr>rsEntries := rev zs @ rsEntries ?s\<rparr> # secs\<rparr>"
    by (rule Cons.IH) (use e(2) Cons.prems ek in \<open>auto simp: kv\<close>)
  then show ?case using l e(5) by (simp add: kv)
qed simp

lemma lines_read:
  assumes "cfgSections sects ss = Some secs" "distinct (map fst ss)" "\<forall>(n, kvs) \<in> set ss. distinct (map fst kvs)"
    "\<forall>s \<in> set (rcSecs st). rsName s \<notin> set (map fst ss)"
  shows "rcSecs (fold (rcLine sects) (cfgLines ss) st) = rev secs @ rcSecs st"
  using assms
proof (induction ss arbitrary: st secs)
  case (Cons nk ss)
  obtain n kvs where nk: "nk = (n, kvs)" by (cases nk)
  obtain dpy cls t ys rest where s: "sectName n = Some (dpy, cls)" "find (\<lambda>t. seName t = cls) sects = Some t"
    "sectionEntries (seEnts t) kvs = Some ys" "cfgSections sects ss = Some rest"
    "secs = \<lparr>rsName = n, rsDpy = dpy, rsSect = t, rsEntries = rev ys\<rparr> # rest"
    using Cons.prems(1) by (auto simp: nk split: option.splits if_splits)
  let ?s = "\<lparr>rsName = n, rsDpy = dpy, rsSect = t, rsEntries = []\<rparr>"
  let ?st = "st\<lparr>rcSecs := ?s # rcSecs st, rcCur := Some n\<rparr>"
  have nn: "n \<notin> rsName ` set (rcSecs st)" using Cons.prems(4) by (auto simp: nk)
  have h: "rcLine sects (''['' @ n @ '']'') st = ?st" by (rule rcLine_header[OF s(1,2) nn])
  let ?st2 = "?st\<lparr>rcSecs := ?s\<lparr>rsEntries := rev ys @ rsEntries ?s\<rparr> # rcSecs st\<rparr>"
  have e: "fold (rcLine sects) (map entryText kvs) ?st = ?st2"
    by (rule entries_read) (use s(3) Cons.prems(3) nn in \<open>auto simp: nk\<close>)
  have "rcSecs (fold (rcLine sects) (cfgLines ss) ?st2) = rev rest @ rcSecs ?st2"
    by (rule Cons.IH) (use s(4) Cons.prems in \<open>auto simp: nk\<close>)
  then show ?case using h e s(5) by (simp add: nk)
qed simp

lemma cfgLines_NL: "cfgSections sects ss = Some secs \<Longrightarrow> \<forall>l \<in> set (cfgLines ss). NL \<notin> set l"
proof (induction ss arbitrary: secs)
  case (Cons nk ss)
  obtain n kvs where nk: "nk = (n, kvs)" by (cases nk)
  obtain t :: rcSect and ys rest where s: "sectionEntries (seEnts t) kvs = Some ys" "cfgSections sects ss = Some rest" "NL \<notin> set n"
    using Cons.prems by (auto simp: nk split: option.splits if_splits)
  have "\<forall>l \<in> set (map entryText kvs). NL \<notin> set l" using s(1)
  proof (induction kvs arbitrary: ys)
    case (Cons kv kvs)
    obtain k v where kv: "kv = (k, v)" by (cases kv)
    obtain zs where z: "sectionEntries (seEnts t) kvs = Some zs" "okRcKey k"
      using Cons.prems by (auto simp: kv split: option.splits if_splits)
    then have "NL \<notin> set (entryText kv)" using esc_NL[of v] unfolding kv entryText_def by (auto simp: okRcKey_def)
    then show ?case using Cons.IH[OF z(1)] by simp
  qed simp
  then show ?case using Cons.IH[OF s(2)] s(3) by (auto simp: nk)
qed simp

text \<open>C19. Whatever the values, a configuration written with its escapes is read back: each section with its definition
  and the parts of its name, each key with exactly its value.\<close>

theorem readConfig_cfgText:
  assumes "cfgSections sects ss = Some secs" "distinct (map fst ss)" "\<forall>(n, kvs) \<in> set ss. distinct (map fst kvs)"
  shows "readConfig sects (Some (cfgText ss)) = rev secs"
  using lines_read[OF assms, of "\<lparr>rcSecs = [], rcCur = None\<rparr>"] splitLines_unlines[OF cfgLines_NL[OF assms(1)]]
  by (simp add: readConfig_def cfgText_def)

definition demoSects :: "rcSect list" where
  "demoSects = [\<lparr>seName = ''General'', seEnts = [\<lparr>enName = ''PidFile'', enId = 0x01000001, enPtr = NoPtr, enDef = []\<rparr>]\<rparr>,
     \<lparr>seName = ''-Core'', seEnts = [\<lparr>enName = ''Setup'', enId = 0x01000002, enPtr = NoPtr, enDef = []\<rparr>]\<rparr>]"

theorem readConfig_cfgText_witness:
  "map rsName (readConfig demoSects (Some (cfgText [(''General'', [(''PidFile'', '' a b '')]), (''X-:0-Core'', [(''Setup'', [NL])])])))
     = [''X-:0-Core'', ''General'']"
proof -
  let ?ss = "[(''General'', [(''PidFile'', '' a b '')]), (''X-:0-Core'', [(''Setup'', [NL])])]"
  obtain secs where s: "cfgSections demoSects ?ss = Some secs" "map rsName secs = [''General'', ''X-:0-Core'']"
  proof -
    have "map_option (map rsName) (cfgSections demoSects ?ss) = Some [''General'', ''X-:0-Core'']" by code_simp
    then show thesis using that by auto
  qed
  have "readConfig demoSects (Some (cfgText ?ss)) = rev secs"
    by (rule readConfig_cfgText[OF s(1)]) simp_all
  then show ?thesis using s(2) by (simp add: rev_map[symmetric])
qed

section \<open>Deviations\<close>

text \<open>A section for the displays of a class: the byte behind the name is taken for part of the class, so the section
  applies to no display of that class.\<close>

lemma class_section_never_applies:
  "sectName ''X-:0_foo-Core'' = Some (Some \<lparr>dsHost = [], dsNum = ''0'', dsClass = ''foo-''\<rparr>, ''-Core'')"
  "map_option (dpyScore \<lparr>dsHost = [], dsNum = ''0'', dsClass = ''foo-''\<rparr>) (mkDSpec '':0'' ''foo'') = Some None"
  by code_simp+

end
