(* ===== verification/CfgWire.thy ===== *)
theory CfgWire
  imports KdmRc AccFits
begin

text \<open>
  Values on their way from the configuration reader (\<open>copyValues\<close>, \<open>sendValues\<close> of
  \<^verbatim>\<open>kdm/kfrontend/kdm_config.c\<close>) to the variables of the daemon (\<open>loadResources\<close>, \<open>findCfgEnt\<close> and the loops of
  \<open>loadDMResources\<close> and \<open>loadDisplayResources\<close>, \<^verbatim>\<open>kdm/backend/resource.c\<close>). The daemon allocates one block from
  three announced sums and fills it; a write outside it is \<open>None\<close>, as is a broken conversation.
\<close>

section \<open>Collecting\<close>

record valArr =
  vaEnts :: "(32 word \<times> cval) list"
  vaChars :: nat
  vaPtrs :: nat

definition emptyVals :: valArr where
  "emptyVals = \<lparr>vaEnts = [], vaChars = 0, vaPtrs = 0\<rparr>"

text \<open>The sums count what is sent: a string with its end, a list with its terminating null pointer.\<close>

fun charsOf :: "cval \<Rightarrow> nat" where
  "charsOf (VInt _) = 0"
| "charsOf (VStr t) = length t + 1"
| "charsOf (VArgv ts) = sum_list (map (\<lambda>t. length t + 1) ts)"

fun ptrsOf :: "cval \<Rightarrow> nat" where
  "ptrsOf (VArgv ts) = length ts + 1"
| "ptrsOf _ = 0"

definition addValue :: "32 word \<Rightarrow> cval \<Rightarrow> valArr \<Rightarrow> valArr" where
  "addValue ei v va =
     va\<lparr>vaEnts := vaEnts va @ [(ei, v)], vaChars := vaChars va + charsOf v, vaPtrs := vaPtrs va + ptrsOf v\<rparr>"

text \<open>The functions that override a value, and the reader's variables they look at.\<close>

type_synonym rcVars = "string \<Rightarrow> cval"

definition hookValue :: "rcHook \<Rightarrow> rcVars \<Rightarrow> cval option" where
  "hookValue h vars =
     (case h of
        PrequestPort \<Rightarrow> if vars ''VxdmcpEnable'' = VInt 0 then Some (VInt 0) else None
      | PnoPassUsers \<Rightarrow> if vars ''VnoPassEnable'' = VInt 0 then Some (VArgv []) else None
      | PautoLoginX \<Rightarrow> if vars ''VautoLoginEnable'' = VInt 0 then Some (VStr []) else None)"

text \<open>One entry; \<open>None\<close> when an undefined value would be sent or a pointer is used for what it is not.\<close>

definition copyValue ::
    "(string \<Rightarrow> int option) \<Rightarrow> rcSection list \<Rightarrow> dSpec option \<Rightarrow> 32 word \<Rightarrow> rcEnt \<Rightarrow> rcVars \<times> valArr \<Rightarrow> (rcVars \<times> valArr) option" where
  "copyValue grp secs dspec isconfig et st =
     (case st of (vars, va) \<Rightarrow>
        if enId et AND C_CONFIG \<noteq> isconfig then Some (vars, va)
        else if enId et AND C_INTERNAL \<noteq> 0 then
          (case enPtr et of
             Variable n \<Rightarrow>
               (case getValue grp secs et dspec None of None \<Rightarrow> Some (vars, va) | Some v \<Rightarrow> Some (vars(n := v), va))
           | _ \<Rightarrow> None)
        else
          let opts = (case enPtr et of Options os \<Rightarrow> Some os | _ \<Rightarrow> None);
              got = (if enId et AND C_MTYPE_MASK = C_ENUM \<or> enPtr et = NoPtr then getValue grp secs et dspec opts
                     else case enPtr et of
                       Hook h \<Rightarrow> (case hookValue h vars of Some v \<Rightarrow> Some v | None \<Rightarrow> getValue grp secs et dspec None)
                     | _ \<Rightarrow> None)
          in case got of None \<Rightarrow> None | Some v \<Rightarrow> Some (vars, addValue (enId et) v va))"

fun copyValues ::
    "(string \<Rightarrow> int option) \<Rightarrow> rcSection list \<Rightarrow> dSpec option \<Rightarrow> 32 word \<Rightarrow> rcEnt list \<Rightarrow> rcVars \<times> valArr \<Rightarrow> (rcVars \<times> valArr) option" where
  "copyValues grp secs dspec isconfig [] st = Some st"
| "copyValues grp secs dspec isconfig (e # es) st =
     (case copyValue grp secs dspec isconfig e st of None \<Rightarrow> None
      | Some st' \<Rightarrow> copyValues grp secs dspec isconfig es st')"

section \<open>Sending\<close>

definition pubId :: "32 word \<Rightarrow> 32 word" where
  "pubId i = i AND NOT C_PRIVATE"

fun sendValue :: "cval \<Rightarrow> bytes" where
  "sendValue (VInt n) = gSendInt n"
| "sendValue (VStr t) = gSendNStr (ascii t) (length t)"
| "sendValue (VArgv ts) = gSendInt (int (length ts)) @ concat (map (\<lambda>t. gSendNStr (ascii t) (length t)) ts)"

definition sendValues :: "valArr \<Rightarrow> bytes" where
  "sendValues va =
     gSendInt (int (length (vaEnts va))) @ gSendInt (int (vaPtrs va)) @ gSendInt 0 @ gSendInt (int (vaChars va))
     @ concat (map (\<lambda>(i, v). gSendInt (sint (pubId i)) @ sendValue v) (vaEnts va))"

section \<open>Receiving\<close>

fun recvArgs :: "nat \<Rightarrow> nat \<Rightarrow> (string list \<times> nat) rx" where
  "recvArgs 0 room s = Some (([], room), s)"
| "recvArgs (Suc n) room s = do {
     ((b, room), s) \<leftarrow> recvStrAt room s;
     ((ts, room), s) \<leftarrow> recvArgs n room s;
     Some ((chars b # ts, room), s) }"

text \<open>The entries of the block with \<open>ptrs\<close> pointers and \<open>room\<close> bytes left.\<close>

fun loadEntries :: "nat \<Rightarrow> nat \<Rightarrow> nat \<Rightarrow> (32 word \<times> cval) list rx" where
  "loadEntries 0 ptrs room s = Some ([], s)"
| "loadEntries (Suc n) ptrs room s = do {
     (i, s) \<leftarrow> gRecvInt s;
     let ei = (word_of_int i :: 32 word);
     let ty = ei AND C_TYPE_MASK;
     ((v, ptrs, room), s) \<leftarrow>
       (if ty = C_TYPE_INT then do { (x, s) \<leftarrow> gRecvInt s; Some ((VInt x, ptrs, room), s) }
        else if ty = C_TYPE_STR then do { ((b, room), s) \<leftarrow> recvStrAt room s; Some ((VStr (chars b), ptrs, room), s) }
        else if ty = C_TYPE_ARGV then do {
          (nu, s) \<leftarrow> gRecvInt s;
          ((ts, room), s) \<leftarrow> recvArgs (nat nu) room s;
          if nat nu < ptrs then Some ((VArgv ts, ptrs - nat nu - 1, room), s) else None }
        else None);
     (vs, s) \<leftarrow> loadEntries n ptrs room s;
     Some ((ei, v) # vs, s) }"

text \<open>The inner \<open>None\<close>: the block was not allocated. \<open>mok\<close> gets its size.\<close>

definition loadResources :: "(int \<Rightarrow> bool) \<Rightarrow> (32 word \<times> cval) list option rx" where
  "loadResources mok s = do {
     (n, s) \<leftarrow> gRecvInt s;
     (ptrs, s) \<leftarrow> gRecvInt s;
     (ints, s) \<leftarrow> gRecvInt s;
     (room, s) \<leftarrow> gRecvInt s;
     if \<not> mok (n * 12 + ptrs * 8 + ints * 4 + room) then Some (None, s)
     else do { (vs, s) \<leftarrow> loadEntries (nat n) (nat ptrs) (nat room) s; Some (Some vs, s) } }"

text \<open>
  \<open>findCfgEnt\<close>: the global values first, then those of the display. The outer \<open>None\<close> is the look into
  an array that could not be allocated.
\<close>

definition findIn_cfg :: "(32 word \<times> cval) list option \<Rightarrow> 32 word \<Rightarrow> cval option option" where
  "findIn_cfg arr i = (case arr of None \<Rightarrow> None | Some vs \<Rightarrow> Some (map_of vs i))"

definition findCfgEnt ::
    "(32 word \<times> cval) list option \<Rightarrow> (32 word \<times> cval) list option option \<Rightarrow> 32 word \<Rightarrow> cval option option" where
  "findCfgEnt cfg dcfg i =
     (case findIn_cfg cfg i of None \<Rightarrow> None
      | Some (Some v) \<Rightarrow> Some (Some v)
      | Some None \<Rightarrow> (case dcfg of None \<Rightarrow> Some None | Some arr \<Rightarrow> findIn_cfg arr i))"

text \<open>The variables set from the values, by id, and whether all were there.\<close>

fun applyResources ::
    "(32 word \<times> cval) list option \<Rightarrow> (32 word \<times> cval) list option option \<Rightarrow> 32 word list
       \<Rightarrow> (32 word \<rightharpoonup> cval) \<Rightarrow> ((32 word \<rightharpoonup> cval) \<times> bool) option" where
  "applyResources cfg dcfg [] vars = Some (vars, True)"
| "applyResources cfg dcfg (i # is) vars =
     (case findCfgEnt cfg dcfg i of None \<Rightarrow> None
      | Some r \<Rightarrow>
          map_option (\<lambda>(vars, ok). (vars, ok \<and> r \<noteq> None))
            (applyResources cfg dcfg is (case r of None \<Rightarrow> vars | Some v \<Rightarrow> vars(i \<mapsto> v))))"

section \<open>The conversation\<close>

text \<open>What the reader answers to a request for a display's values.\<close>

definition displayAnswer ::
    "(string \<Rightarrow> int option) \<Rightarrow> rcSect list \<Rightarrow> string option \<Rightarrow> rcEnt list \<Rightarrow> rcEnt list \<Rightarrow> rcVars \<Rightarrow> string \<Rightarrow> string option
       \<Rightarrow> bytes option" where
  "displayAnswer grp sects file core greeter vars disp dcls =
     (case mkDSpec disp (case dcls of None \<Rightarrow> [] | Some c \<Rightarrow> c) of None \<Rightarrow> None
      | Some d \<Rightarrow>
          let secs = readConfig sects file in
          (case copyValues grp secs (Some d) 0 core (vars, emptyVals) of None \<Rightarrow> None
           | Some st \<Rightarrow>
               (case copyValues grp secs (Some d) 0 greeter st of None \<Rightarrow> None
                | Some (vars, va) \<Rightarrow> Some (sendValues va))))"

section \<open>Everything sent arrives\<close>

definition typed :: "32 word \<Rightarrow> cval \<Rightarrow> bool" where
  "typed i v \<longleftrightarrow>
     (case v of VInt n \<Rightarrow> i AND C_TYPE_MASK = C_TYPE_INT \<and> int32 n
      | VStr t \<Rightarrow> i AND C_TYPE_MASK = C_TYPE_STR \<and> okName (ascii t)
      | VArgv ts \<Rightarrow> i AND C_TYPE_MASK = C_TYPE_ARGV \<and> list_all (\<lambda>t. okName (ascii t)) ts \<and> length ts < 2 ^ 31)"

definition summed :: "valArr \<Rightarrow> bool" where
  "summed va \<longleftrightarrow> vaChars va = sum_list (map (charsOf \<circ> snd) (vaEnts va)) \<and> vaPtrs va = sum_list (map (ptrsOf \<circ> snd) (vaEnts va))"

lemma summed_empty [simp]: "summed emptyVals"
  by (simp add: summed_def emptyVals_def)

lemma summed_addValue [simp]: "summed va \<Longrightarrow> summed (addValue i v va)"
  by (simp add: summed_def addValue_def)

lemma char_of_8 [simp]: "char_of (unat (of_char c :: 8 word)) = c"
proof -
  have "unat (of_char c :: 8 word) = of_char c"
    unfolding of_nat_of_char[symmetric, where 'a = "8 word"] unat_of_nat
    using nat_of_char_less_256[of c] by (simp add: take_bit_nat_eq_self)
  then show ?thesis by simp
qed

lemma chars_ascii [simp]: "chars (ascii s) = s"
  by (simp add: chars_def ascii_def comp_def)

lemma length_ascii [simp]: "length (ascii s) = length s"
  by (simp add: ascii_def)


lemma set_ascii [simp]: "0 \<in> set (ascii s) \<longleftrightarrow> NUL \<in> set s"
proof -
  have n: "(of_char NUL :: 8 word) = 0" by simp
  have "c = NUL" if "(of_char c :: 8 word) = 0" for c
    using char_of_8[of c] char_of_8[of NUL] unfolding that n by simp
  then have "(of_char c :: 8 word) = 0 \<longleftrightarrow> c = NUL" for c using n by blast
  then show ?thesis by (auto simp: ascii_def image_iff eq_commute[of "0 :: 8 word"])
qed


lemma gSendNStr_ascii: "gSendNStr (ascii t) (length t) = gSendStr (Some (ascii t))"
  by (simp add: gSendNStr_def)

lemma recvArgs_sent:
  assumes "list_all (\<lambda>t. okName (ascii t)) ts" "sum_list (map (\<lambda>t. length t + 1) ts) \<le> room"
  shows "recvArgs (length ts) room (concat (map (\<lambda>t. gSendNStr (ascii t) (length t)) ts) @ s)
    = Some ((ts, room - sum_list (map (\<lambda>t. length t + 1) ts)), s)"
  using assms
proof (induction ts arbitrary: room)
  case (Cons t ts)
  then have "length t + 1 \<le> room" "sum_list (map (\<lambda>t. length t + 1) ts) \<le> room - (length t + 1)" by auto
  then show ?case using Cons recvStrAt_gSendStr[of "ascii t" room]
    by (simp add: gSendNStr_ascii del: gSendStr.simps)
qed simp

lemma pubId_type [simp]: "pubId i AND C_TYPE_MASK = i AND C_TYPE_MASK"
  by (simp add: pubId_def C_PRIVATE_def C_TYPE_MASK_def and.assoc)

lemma int32_sint [simp]: "int32 (sint (w :: 32 word))"
  using sint_range_size[of w] by (simp add: int32_def word_size)

lemma types_differ [simp]:
  "C_TYPE_STR \<noteq> C_TYPE_INT" "C_TYPE_ARGV \<noteq> C_TYPE_INT" "C_TYPE_ARGV \<noteq> C_TYPE_STR"
  by (simp_all add: C_TYPE_INT_def C_TYPE_STR_def C_TYPE_ARGV_def)

lemma loadEntries_sent:
  assumes "\<forall>(i, v) \<in> set xs. typed i v" "sum_list (map (charsOf \<circ> snd) xs) \<le> room" "sum_list (map (ptrsOf \<circ> snd) xs) \<le> ptrs"
  shows "loadEntries (length xs) ptrs room (concat (map (\<lambda>(i, v). gSendInt (sint (pubId i)) @ sendValue v) xs) @ s)
    = Some (map (\<lambda>(i, v). (pubId i, v)) xs, s)"
  using assms
proof (induction xs arbitrary: ptrs room)
  case (Cons x xs)
  obtain i v where x: "x = (i, v)" by (cases x)
  have t: "typed i v" using Cons.prems(1) x by simp
  note IH = Cons.IH[of "room - charsOf v" "ptrs - ptrsOf v"]
  have rest: "\<forall>(i, v) \<in> set xs. typed i v" "sum_list (map (charsOf \<circ> snd) xs) \<le> room - charsOf v"
    "sum_list (map (ptrsOf \<circ> snd) xs) \<le> ptrs - ptrsOf v" using Cons.prems x by (auto simp: comp_def)
  note ih = IH[OF rest]
  show ?case
  proof (cases v)
    case (VInt n)
    then show ?thesis using t ih by (simp add: x typed_def Let_def)
  next
    case (VStr u)
    then have "okName (ascii u)" "length u + 1 \<le> room" using t Cons.prems(2) x by (auto simp: typed_def)
    then show ?thesis using t ih VStr recvStrAt_gSendStr[of "ascii u" room]
      by (simp add: x typed_def Let_def gSendNStr_ascii del: gSendStr.simps)
  next
    case (VArgv ts)
    then have "list_all (\<lambda>t. okName (ascii t)) ts" "sum_list (map (\<lambda>t. length t + 1) ts) \<le> room" "length ts < ptrs"
      "int32 (int (length ts))"
      using t Cons.prems(2,3) x by (auto simp: typed_def int32_def)
    then show ?thesis using t ih VArgv recvArgs_sent[of ts room]
      by (simp add: x typed_def Let_def)
  qed
qed simp

lemma loadResources_sent:
  assumes "summed va" "\<forall>(i, v) \<in> set (vaEnts va). typed i v"
    "int32 (int (length (vaEnts va)))" "int32 (int (vaPtrs va))" "int32 (int (vaChars va))"
    "mok (int (length (vaEnts va)) * 12 + int (vaPtrs va) * 8 + int (vaChars va))"
  shows "loadResources mok (sendValues va @ s) = Some (Some (map (\<lambda>(i, v). (pubId i, v)) (vaEnts va)), s)"
proof -
  have z: "int32 0" by (simp add: int32_def)
  have "loadEntries (length (vaEnts va)) (vaPtrs va) (vaChars va)
      (concat (map (\<lambda>(i, v). gSendInt (sint (pubId i)) @ sendValue v) (vaEnts va)) @ s)
    = Some (map (\<lambda>(i, v). (pubId i, v)) (vaEnts va), s)"
    by (rule loadEntries_sent) (use assms(1,2) in \<open>simp_all add: summed_def\<close>)
  then show ?thesis using assms(3-6) z by (simp add: loadResources_def sendValues_def)
qed

text \<open>C28. Whatever values the reader sends, the daemon gets: the same entries under their public ids, and the block
  allocated from the announced sums is large enough for them.\<close>

theorem loadResources_sendValues:
  assumes "summed va" "\<forall>(i, v) \<in> set (vaEnts va). typed i v"
    "int32 (int (length (vaEnts va)))" "int32 (int (vaPtrs va))" "int32 (int (vaChars va))"
    "mok (int (length (vaEnts va)) * 12 + int (vaPtrs va) * 8 + int (vaChars va))"
  shows "loadResources mok (sendValues va @ s) = Some (Some (map (\<lambda>(i, v). (pubId i, v)) (vaEnts va)), s)"
  using assms by (rule loadResources_sent)

definition demoVals :: valArr where
  "demoVals = addValue 0x02000001 (VArgv [''a'', ''bc'']) (addValue 0x01000002 (VStr ''/tmp'') emptyVals)"

theorem loadResources_sendValues_witness:
  "loadResources (\<lambda>_. True) (sendValues demoVals @ [7]) =
     Some (Some [(0x01000002, VStr ''/tmp''), (0x02000001, VArgv [''a'', ''bc''])], [7])"
proof -
  have s: "summed demoVals" by (simp add: demoVals_def)
  have t: "\<forall>(i, v) \<in> set (vaEnts demoVals). typed i v"
    by (simp add: demoVals_def addValue_def emptyVals_def typed_def okName_def C_TYPE_MASK_def C_TYPE_STR_def C_TYPE_ARGV_def)
  have e: "map (\<lambda>(i, v). (pubId i, v)) (vaEnts demoVals) = [(0x01000002, VStr ''/tmp''), (0x02000001, VArgv [''a'', ''bc''])]"
    by (simp add: demoVals_def addValue_def emptyVals_def pubId_def C_PRIVATE_def)
  have "int32 (int (length (vaEnts demoVals)))" "int32 (int (vaPtrs demoVals))" "int32 (int (vaChars demoVals))"
    by (simp_all add: demoVals_def addValue_def emptyVals_def int32_def)
  then show ?thesis using loadResources_sendValues[OF s t, of "\<lambda>_. True" "[7]"] unfolding e by simp
qed

end
