(* ===== verification/CfgFlow.thy ===== *)
theory CfgFlow
  imports CfgWire
begin

text \<open>
  From the configuration file to the variables of the daemon: for tables that fit together and a file below
  64 kB, every value of a display is the one configured in the best matching section, or its default.
\<close>

section \<open>Sizes\<close>

definition plainText64 :: "string \<Rightarrow> bool" where
  "plainText64 s \<longleftrightarrow> NUL \<notin> set s \<and> length s < 0xffff"

lemma okName_plain [simp]: "okName (ascii s) \<longleftrightarrow> plainText64 s"
  by (simp add: okName_def plainText64_def)

text \<open>The string is part of the other one, as far as its bytes and its size are concerned.\<close>

definition within :: "string \<Rightarrow> string \<Rightarrow> bool" where
  "within a b \<longleftrightarrow> set a \<subseteq> set b \<and> length a \<le> length b"

lemma within_plain: "within a b \<Longrightarrow> plainText64 b \<Longrightarrow> plainText64 a"
  by (auto simp: within_def plainText64_def)

lemma within_trans: "within a b \<Longrightarrow> within b c \<Longrightarrow> within a c"
  by (auto simp: within_def)

lemma within_dropWhile [simp]: "within (dropWhile P s) s"
  by (auto simp: within_def length_dropWhile_le dest: set_dropWhileD)

lemma within_takeWhile [simp]: "within (takeWhile P s) s"
  by (auto simp: within_def length_takeWhile_le dest: set_takeWhileD)

lemma within_dropSpaceBack [simp]: "within (dropSpaceBack s) s"
proof -
  have "set (dropWhile isspace (rev s)) \<subseteq> set s" by (metis set_dropWhileD set_rev subsetI)
  moreover have "length (dropWhile isspace (rev s)) \<le> length s"
    using length_dropWhile_le[of isspace "rev s"] by simp
  ultimately show ?thesis by (simp add: within_def dropSpaceBack_def)
qed

lemma within_butlast [simp]: "within (butlast s) s"
  by (auto simp: within_def dest: in_set_butlastD)

lemma within_tl [simp]: "within (tl s) s"
  by (cases s) (auto simp: within_def)

lemma splitArgv_sum: "sum_list (map (\<lambda>t. length t + 1) (splitArgv v)) \<le> length v + 1"
proof (induction v rule: splitArgv.induct)
  case (1 v)
  let ?w = "dropWhile isspace v"
  let ?x = "takeWhile (\<lambda>c. c \<noteq> CHR '','') ?w" and ?r = "dropWhile (\<lambda>c. c \<noteq> CHR '','') ?w"
  show ?case
  proof (cases "?x = []")
    case True
    then show ?thesis by (simp add: splitArgv.simps[of v] Let_def)
  next
    case False
    have w: "length ?w = length ?x + length ?r" by (metis length_append takeWhile_dropWhile_id)
    have v: "length ?w \<le> length v" by (rule length_dropWhile_le)
    have x: "length (dropSpaceBack ?x) \<le> length ?x" using within_dropSpaceBack[of ?x] by (simp add: within_def)
    have s: "splitArgv v = dropSpaceBack ?x # splitArgv (tl ?r)" using False by (simp add: splitArgv.simps[of v] Let_def)
    have ih: "sum_list (map (\<lambda>t. length t + 1) (splitArgv (tl ?r))) \<le> length (tl ?r) + 1"
      by (rule 1) (use False in simp_all)
    show ?thesis
    proof (cases ?r)
      case Nil
      have "splitArgv (tl ?r) = []" unfolding Nil by (simp add: splitArgv.simps[of "[]"])
      then show ?thesis using s w v x Nil by simp
    next
      case (Cons c r)
      then show ?thesis using s ih w v x by simp
    qed
  qed
qed

lemma splitArgv_within: "t \<in> set (splitArgv v) \<Longrightarrow> within t v"
proof (induction v rule: splitArgv.induct)
  case (1 v)
  let ?w = "dropWhile isspace v"
  let ?x = "takeWhile (\<lambda>c. c \<noteq> CHR '','') ?w" and ?r = "dropWhile (\<lambda>c. c \<noteq> CHR '','') ?w"
  show ?case
  proof (cases "?x = []")
    case True
    then show ?thesis using 1(2) by (simp add: splitArgv.simps[of v] Let_def)
  next
    case False
    then have "t = dropSpaceBack ?x \<or> t \<in> set (splitArgv (tl ?r))"
      using 1(2) by (simp add: splitArgv.simps[of v] Let_def)
    then show ?thesis
    proof
      assume "t = dropSpaceBack ?x"
      then show ?thesis
        using within_trans[OF within_dropSpaceBack within_trans[OF within_takeWhile within_dropWhile]] by blast
    next
      assume "t \<in> set (splitArgv (tl ?r))"
      then have "within t (tl ?r)" using 1(1) False by simp
      then show ?thesis
        using within_trans[OF _ within_trans[OF within_tl within_trans[OF within_dropWhile within_dropWhile]]] by blast
    qed
  qed
qed

lemma splitArgv_length: "length (splitArgv v) \<le> length v + 1"
proof -
  have "length xs \<le> sum_list (map (\<lambda>t. length t + 1) xs)" for xs :: "string list"
    by (induction xs) auto
  then show ?thesis using splitArgv_sum[of v] le_trans by blast
qed

section \<open>Types\<close>

definition small :: "cval \<Rightarrow> bool" where
  "small v \<longleftrightarrow> charsOf v \<le> 0x10000 \<and> ptrsOf v \<le> 0x10001"

definition okGroups :: "(string \<Rightarrow> int option) \<Rightarrow> bool" where
  "okGroups grp \<longleftrightarrow> (\<forall>g v. grp g = Some v \<longrightarrow> int32 v)"

lemma scanInt_int32: "scanInt b = Some v \<Longrightarrow> int32 v"
  by (auto simp: scanInt_def Let_def split: if_splits)

lemma convertValue_typed:
  assumes c: "convertValue grp e v opts = Some (Inr x)" and g: "okGroups grp" and v: "plainText64 v"
    and o: "case opts of None \<Rightarrow> True | Some os \<Rightarrow> length os < 2 ^ 31"
  shows "typed (enId e) x \<and> small x"
proof -
  consider "enId e AND C_TYPE_MASK = C_TYPE_INT" | "enId e AND C_TYPE_MASK = C_TYPE_STR"
    | "enId e AND C_TYPE_MASK = C_TYPE_ARGV"
    using c by (auto simp: convertValue_def Let_def split: if_splits)
  then show ?thesis
  proof cases
    case 1
    have os: "int32 (int (length (takeWhile P os)))" if "opts = Some os" for P os
      using o length_takeWhile_le[of P os] that by (simp add: int32_def)
    have "\<exists>n. x = VInt n \<and> int32 n"
      using c 1 os g scanInt_int32
      by (auto simp: convertValue_def Let_def okGroups_def int32_def split: if_splits option.splits)
    then show ?thesis using 1 by (auto simp: typed_def small_def)
  next
    case 2
    obtain t where x: "x = VStr t" "t = v \<or> t = butlast v" using c 2 by (auto simp: convertValue_def Let_def)
    then have "plainText64 t" using v within_plain[OF within_butlast v] by auto
    then show ?thesis using 2 unfolding x(1) by (simp add: typed_def small_def) (simp add: plainText64_def)
  next
    case 3
    have x: "x = VArgv (splitArgv v)" using c 3 by (simp add: convertValue_def Let_def)
    have "list_all plainText64 (splitArgv v)"
      using splitArgv_within within_plain[OF _ v] by (auto simp: list_all_iff)
    moreover have "length v < 0xffff" using v by (simp add: plainText64_def)
    ultimately show ?thesis using 3 splitArgv_sum[of v] splitArgv_length[of v] unfolding x
      by (simp add: typed_def small_def)
  qed
qed

section \<open>What the file can contain\<close>

lemma rcValue_size: "length (rcValue en b s) \<le> length en + length b + length s"
proof (induction en b s rule: rcValue.induct)
  case (2 en blanks c s)
  have u: "length (unescapeRc d) \<le> 2" for d by (simp add: unescapeRc_def)
  show ?case
  proof (cases "c = BSL")
    case True
    show ?thesis
    proof (cases s)
      case (Cons d r)
      then show ?thesis using True 2(1)[OF True Cons] u[of d] by simp
    qed (use True in simp)
  next
    case False
    then show ?thesis using 2(2,3) by auto
  qed
qed simp

lemma rcValue_NUL: "NUL \<notin> set en \<Longrightarrow> NUL \<notin> set b \<Longrightarrow> NUL \<notin> set s \<Longrightarrow> NUL \<notin> set (rcValue en b s)"
proof (induction en b s rule: rcValue.induct)
  case (2 en blanks c s)
  have u: "NUL \<noteq> d \<Longrightarrow> NUL \<notin> set (unescapeRc d)" for d by (simp add: unescapeRc_def)
  show ?case
  proof (cases "c = BSL")
    case True
    show ?thesis
    proof (cases s)
      case (Cons d r)
      then have "NUL \<notin> set (unescapeRc d)" using 2(6) u[of d] by simp
      then show ?thesis using True 2(1)[OF True Cons] 2(4-6) Cons by simp
    qed (use True 2 in simp)
  next
    case False
    then show ?thesis using 2(2-6) by auto
  qed
qed simp

lemma splitLines_length: "l \<in> set (splitLines t) \<Longrightarrow> length l \<le> length t"
proof (induction t rule: splitLines.induct)
  case (1 d)
  show ?case
  proof (cases "d = []")
    case False
    let ?r = "tl (dropWhile (\<lambda>c. c \<noteq> NL) d)"
    have r: "length ?r \<le> length d"
      using length_dropWhile_le[of "\<lambda>c. c \<noteq> NL" d] length_tl[of "dropWhile (\<lambda>c. c \<noteq> NL) d"] by linarith
    from 1(2) False consider "l = takeWhile (\<lambda>c. c \<noteq> NL) d" | "l \<in> set (splitLines ?r)"
      by (auto simp: splitLines.simps[of d])
    then show ?thesis
      by cases (use 1(1) False r in \<open>auto simp: length_takeWhile_le intro: order_trans\<close>)
  qed (use 1 in \<open>simp add: splitLines.simps\<close>)
qed

definition plainSecs :: "rcSection list \<Rightarrow> bool" where
  "plainSecs secs \<longleftrightarrow> (\<forall>s \<in> set secs. \<forall>y \<in> set (rsEntries s). plainText64 (ryVal y))"

lemma plainSecs_Cons [simp]:
  "plainSecs (s # secs) \<longleftrightarrow> (\<forall>y \<in> set (rsEntries s). plainText64 (ryVal y)) \<and> plainSecs secs"
  by (auto simp: plainSecs_def)

lemma plain_value: "plainText64 v \<Longrightarrow> plainText64 (rcValue [] [] v)"
  using rcValue_size[of "[]" "[]" v] rcValue_NUL[of "[]" "[]" v] by (simp add: plainText64_def)

lemma plain_addEntry:
  "plainText64 (ryVal e) \<Longrightarrow> plainSecs secs \<Longrightarrow> plainSecs (update_where P (addEntry e) secs)"
  by (induction secs) (auto simp: addEntry_def)

lemma rcLine_plain:
  assumes l: "plainText64 l" and s: "plainSecs (rcSecs st)"
  shows "plainSecs (rcSecs (rcLine sects l st))"
proof -
  let ?l = "dropWhile isspace l"
  have pl: "plainText64 ?l" by (rule within_plain[OF within_dropWhile l])
  have h: "plainSecs (rcSecs (rcHeader sects x st))" for x
    using s by (auto simp: rcHeader_def Let_def split: option.splits)
  have e: "plainSecs (rcSecs (rcEntryLine ?l st))"
  proof (cases "rcCur st")
    case None
    then show ?thesis using s by (simp add: rcEntryLine_def)
  next
    case (Some n)
    show ?thesis
    proof (cases "dropWhile (\<lambda>c. c \<noteq> CHR ''='') ?l")
      case Nil
      show ?thesis unfolding rcEntryLine_def Some option.case Nil list.case by (rule s)
    next
      case (Cons q v)
      have "plainText64 (q # v)" using within_plain[OF within_dropWhile pl] Cons by metis
      then have "plainText64 v" by (simp add: plainText64_def)
      then have "plainText64 (rcValue [] [] (dropWhile isspace v))"
        by (intro plain_value within_plain[OF within_dropWhile])
      then show ?thesis unfolding rcEntryLine_def Some option.case Cons list.case Let_def
        using s by (simp add: plain_addEntry split: option.split)
    qed
  qed
  show ?thesis using s h e by (simp add: rcLine_def Let_def)
qed

lemma readConfig_plain:
  assumes "\<forall>f. fl = Some f \<longrightarrow> plainText64 f"
  shows "plainSecs (readConfig sects fl)"
proof (cases fl)
  case None
  then show ?thesis by (simp add: readConfig_def plainSecs_def)
next
  case (Some f)
  have f: "plainText64 f" using assms Some by simp
  have lines: "\<forall>l \<in> set (splitLines f). plainText64 l"
    using splitLines_line splitLines_length f by (fastforce simp: plainText64_def)
  have all: "plainSecs (rcSecs (fold (rcLine sects) ls st))"
    if "\<forall>l \<in> set ls. plainText64 l" "plainSecs (rcSecs st)" for ls st
    using that by (induction ls arbitrary: st) (simp_all add: rcLine_plain)
  have start: "plainSecs (rcSecs \<lparr>rcSecs = [], rcCur = None\<rparr>)" by (simp add: plainSecs_def)
  show ?thesis unfolding readConfig_def Some option.case by (rule all[OF lines start])
qed

lemma findDEnt_plain:
  assumes "plainSecs secs" "findDEnt secs i d = Some y" shows "plainText64 (ryVal y)"
proof -
  have "findDEntIn i d xs b r = Some y \<Longrightarrow> r = Some y \<or> (\<exists>s \<in> set xs. y \<in> set (rsEntries s))" for xs b r
  proof (induction xs arbitrary: b r)
    case (Cons s xs)
    have m: "findIn i s = Some z \<Longrightarrow> z \<in> set (rsEntries s)" for z by (auto simp: findIn_def dest: find_SomeD)
    show ?case using Cons.prems Cons.IH m
      by (auto split: option.splits if_splits)
  qed simp
  then show ?thesis using assms unfolding findDEnt_def plainSecs_def by blast
qed

section \<open>The tables\<close>

definition optionsOf :: "rcEnt \<Rightarrow> string list option" where
  "optionsOf e = (case enPtr e of Options os \<Rightarrow> Some os | _ \<Rightarrow> None)"

definition public :: "rcEnt \<Rightarrow> bool" where
  "public e \<longleftrightarrow> enId e AND C_CONFIG = 0 \<and> enId e AND C_INTERNAL = 0"

fun okHook :: "rcHook \<Rightarrow> 32 word \<Rightarrow> bool" where
  "okHook PrequestPort i = (i AND C_TYPE_MASK = C_TYPE_INT)"
| "okHook PnoPassUsers i = (i AND C_TYPE_MASK = C_TYPE_ARGV)"
| "okHook PautoLoginX i = (i AND C_TYPE_MASK = C_TYPE_STR)"

text \<open>Internal entries have a variable, public ones what their type needs and a valid default.\<close>

definition okEnt :: "(string \<Rightarrow> int option) \<Rightarrow> rcEnt \<Rightarrow> bool" where
  "okEnt grp e \<longleftrightarrow>
     (if enId e AND C_CONFIG \<noteq> 0 then True
      else if enId e AND C_INTERNAL \<noteq> 0 then (case enPtr e of Variable _ \<Rightarrow> True | _ \<Rightarrow> False)
      else plainText64 (enDef e)
        \<and> (case convertValue grp e (enDef e) (optionsOf e) of Some (Inr _) \<Rightarrow> True | _ \<Rightarrow> False)
        \<and> (case enPtr e of NoPtr \<Rightarrow> True
           | Options os \<Rightarrow> enId e AND C_MTYPE_MASK = C_ENUM \<and> length os < 2 ^ 31
           | Hook h \<Rightarrow> enId e AND C_MTYPE_MASK \<noteq> C_ENUM \<and> okHook h (enId e)
           | Variable _ \<Rightarrow> False))"

text \<open>Whether the null pointer for the options is used does not depend on the value.\<close>

lemma convertValue_None:
  "convertValue grp e v os = None \<longleftrightarrow>
     (if enId e AND C_TYPE_MASK = C_TYPE_INT then
        enId e AND C_MTYPE_MASK \<noteq> C_BOOL \<and> enId e AND C_MTYPE_MASK = C_ENUM \<and> os = None
      else enId e AND C_TYPE_MASK \<noteq> C_TYPE_STR \<and> enId e AND C_TYPE_MASK \<noteq> C_TYPE_ARGV)"
proof (cases "enId e AND C_TYPE_MASK = C_TYPE_INT")
  case True
  then show ?thesis
    by (cases "enId e AND C_MTYPE_MASK = C_BOOL"; cases "enId e AND C_MTYPE_MASK = C_ENUM")
      (simp_all add: convertValue_def Let_def split: option.split)
qed (simp add: convertValue_def Let_def)

lemma convertValue_defined:
  "convertValue grp e v os \<noteq> None \<Longrightarrow> convertValue grp e w os \<noteq> None"
  by (simp only: convertValue_None) simp

lemma getValue_typed:
  assumes e: "plainText64 (enDef e)" "case convertValue grp e (enDef e) os of Some (Inr _) \<Rightarrow> True | _ \<Rightarrow> False"
    and g: "okGroups grp" and s: "plainSecs secs" and o: "case os of None \<Rightarrow> True | Some l \<Rightarrow> length l < 2 ^ 31"
  shows "\<exists>v. getValue grp secs e (Some d) os = Some v \<and> typed (enId e) v \<and> small v"
proof -
  obtain x where x: "convertValue grp e (enDef e) os = Some (Inr x)" using e(2) by (auto split: option.splits sum.splits)
  have tx: "typed (enId e) x \<and> small x" by (rule convertValue_typed[OF x g e(1) o])
  show ?thesis
  proof (cases "findDEnt secs (enId e) d")
    case None
    then show ?thesis using x tx by (simp add: getValue_def Let_def)
  next
    case (Some y)
    have py: "plainText64 (ryVal y)" by (rule findDEnt_plain[OF s Some])
    have "convertValue grp e (ryVal y) os \<noteq> None" by (rule convertValue_defined[of _ _ "enDef e"]) (simp add: x)
    then obtain r where r: "convertValue grp e (ryVal y) os = Some r" by blast
    show ?thesis
    proof (cases r)
      case (Inl m)
      then show ?thesis using x tx Some r by (simp add: getValue_def Let_def)
    next
      case (Inr z)
      then show ?thesis using convertValue_typed[OF _ g py o] Some r by (simp add: getValue_def Let_def)
    qed
  qed
qed

section \<open>All entries\<close>

definition hooked :: "rcEnt \<Rightarrow> bool" where
  "hooked e \<longleftrightarrow> (case enPtr e of Hook _ \<Rightarrow> True | _ \<Rightarrow> False)"

definition fine :: "(32 word \<times> cval) list \<Rightarrow> bool" where
  "fine xs \<longleftrightarrow> (\<forall>(i, v) \<in> set xs. typed i v \<and> small v)"

lemma fine_simps [simp]:
  "fine []" "fine (x # xs) \<longleftrightarrow> typed (fst x) (snd x) \<and> small (snd x) \<and> fine xs"
  "fine (xs @ ys) \<longleftrightarrow> fine xs \<and> fine ys"
  by (auto simp: fine_def split: prod.splits)

definition added :: "(32 word \<times> cval) list \<Rightarrow> valArr \<Rightarrow> valArr \<Rightarrow> bool" where
  "added xs va va' \<longleftrightarrow> vaEnts va' = vaEnts va @ xs \<and> (summed va \<longrightarrow> summed va')"

lemma added_simps [simp]: "added [] va va" "added [(i, v)] va (addValue i v va)"
  by (simp_all add: added_def addValue_def summed_def)

lemma added_trans: "added xs a b \<Longrightarrow> added ys b c \<Longrightarrow> added (xs @ ys) a c"
  by (simp add: added_def)

lemma hookValue_typed:
  assumes "hookValue h vars = Some v" "okHook h i" shows "typed i v \<and> small v"
proof -
  have "v = (case h of PrequestPort \<Rightarrow> VInt 0 | PnoPassUsers \<Rightarrow> VArgv [] | PautoLoginX \<Rightarrow> VStr [])"
    using assms(1) by (cases h) (auto simp: hookValue_def split: if_splits)
  then show ?thesis using assms(2) by (cases h) (simp_all add: typed_def small_def int32_def plainText64_def)
qed

lemma copyValue_public:
  assumes e: "okEnt grp e" "public e" and g: "okGroups grp" and s: "plainSecs secs"
  shows "\<exists>v. copyValue grp secs (Some d) 0 e (vars, va) = Some (vars, addValue (enId e) v va) \<and> typed (enId e) v \<and> small v
    \<and> (hooked e \<or> getValue grp secs e (Some d) (optionsOf e) = Some v)"
proof -
  have p: "enId e AND C_CONFIG = 0" "enId e AND C_INTERNAL = 0" using e(2) by (auto simp: public_def)
  have ok: "plainText64 (enDef e)" "case convertValue grp e (enDef e) (optionsOf e) of Some (Inr _) \<Rightarrow> True | _ \<Rightarrow> False"
    and ptr: "case enPtr e of NoPtr \<Rightarrow> True | Options os \<Rightarrow> enId e AND C_MTYPE_MASK = C_ENUM \<and> length os < 2 ^ 31
           | Hook h \<Rightarrow> enId e AND C_MTYPE_MASK \<noteq> C_ENUM \<and> okHook h (enId e) | Variable _ \<Rightarrow> False"
    using e(1) p by (simp_all add: okEnt_def)
  have o: "case optionsOf e of None \<Rightarrow> True | Some l \<Rightarrow> length l < 2 ^ 31"
    using ptr by (simp add: optionsOf_def split: rcPtr.splits)
  obtain v where v: "getValue grp secs e (Some d) (optionsOf e) = Some v" "typed (enId e) v" "small v"
    using getValue_typed[OF ok g s o] by blast
  show ?thesis
  proof (cases "enPtr e")
    case NoPtr
    then show ?thesis using v p by (intro exI[of _ v]) (simp add: copyValue_def Let_def optionsOf_def)
  next
    case (Options os)
    then show ?thesis using v p ptr by (intro exI[of _ v]) (simp add: copyValue_def Let_def optionsOf_def)
  next
    case (Variable n)
    then show ?thesis using ptr by simp
  next
    case (Hook h)
    then have hk: "hooked e" "enId e AND C_MTYPE_MASK \<noteq> C_ENUM" "okHook h (enId e)" using ptr by (simp_all add: hooked_def)
    have "optionsOf e = None" using Hook by (simp add: optionsOf_def)
    then show ?thesis using v p hk Hook hookValue_typed[of h vars]
      by (cases "hookValue h vars") (auto simp: copyValue_def Let_def)
  qed
qed

lemma copyValue_other:
  assumes "okEnt grp e" "\<not> public e"
  shows "\<exists>vars'. copyValue grp secs (Some d) 0 e (vars, va) = Some (vars', va)"
proof (cases "enId e AND C_CONFIG \<noteq> 0")
  case True
  then show ?thesis by (simp add: copyValue_def)
next
  case False
  then have i: "enId e AND C_INTERNAL \<noteq> 0" using assms(2) by (simp add: public_def)
  then obtain n where "enPtr e = Variable n" using assms(1) False by (auto simp: okEnt_def split: rcPtr.splits)
  then show ?thesis using False i by (simp add: copyValue_def split: option.split)
qed

definition delivered ::
    "(string \<Rightarrow> int option) \<Rightarrow> rcSection list \<Rightarrow> dSpec \<Rightarrow> rcEnt list \<Rightarrow> (32 word \<times> cval) list \<Rightarrow> bool" where
  "delivered grp secs d es xs \<longleftrightarrow>
     fine xs \<and> map fst xs = map enId (filter public es) \<and>
     (\<forall>e \<in> set es. public e \<and> \<not> hooked e \<longrightarrow>
        (\<exists>v. getValue grp secs e (Some d) (optionsOf e) = Some v \<and> (enId e, v) \<in> set xs))"

lemma delivered_append: "delivered grp secs d es xs \<Longrightarrow> delivered grp secs d fs ys \<Longrightarrow> delivered grp secs d (es @ fs) (xs @ ys)"
  unfolding delivered_def by (simp add: ball_Un) blast

lemma copyValues_delivers:
  assumes "\<forall>e \<in> set es. okEnt grp e" and g: "okGroups grp" and s: "plainSecs secs"
  shows "\<exists>vars' va' xs. copyValues grp secs (Some d) 0 es (vars, va) = Some (vars', va') \<and> added xs va va'
    \<and> delivered grp secs d es xs"
  using assms(1)
proof (induction es arbitrary: vars va)
  case Nil
  have "delivered grp secs d [] []" by (simp add: delivered_def)
  then show ?case using added_simps(1) by fastforce
next
  case (Cons e es)
  have oe: "okEnt grp e" and os: "\<forall>e \<in> set es. okEnt grp e" using Cons.prems by auto
  note IH = Cons.IH[OF os]
  show ?case
  proof (cases "public e")
    case True
    obtain v where v: "copyValue grp secs (Some d) 0 e (vars, va) = Some (vars, addValue (enId e) v va)"
      "typed (enId e) v" "small v" "hooked e \<or> getValue grp secs e (Some d) (optionsOf e) = Some v"
      using copyValue_public[OF oe True g s] by blast
    obtain vars' va' xs where r: "copyValues grp secs (Some d) 0 es (vars, addValue (enId e) v va) = Some (vars', va')"
      "added xs (addValue (enId e) v va) va'" "delivered grp secs d es xs" using IH by blast
    have one: "delivered grp secs d [e] [(enId e, v)]" using v True by (auto simp: delivered_def)
    have "added ((enId e, v) # xs) va va'" using added_trans[OF added_simps(2) r(2)] by simp
    moreover have "delivered grp secs d (e # es) ((enId e, v) # xs)" using delivered_append[OF one r(3)] by simp
    ultimately show ?thesis using r(1) v(1) by (metis copyValues.simps(2) option.simps(5))
  next
    case False
    obtain vars1 where v: "copyValue grp secs (Some d) 0 e (vars, va) = Some (vars1, va)"
      using copyValue_other[OF oe False] by blast
    obtain vars' va' xs where r: "copyValues grp secs (Some d) 0 es (vars1, va) = Some (vars', va')"
      "added xs va va'" "delivered grp secs d es xs" using IH by blast
    have one: "delivered grp secs d [e] []" using False by (simp add: delivered_def)
    have "delivered grp secs d (e # es) xs" using delivered_append[OF one r(3)] by simp
    then show ?thesis using r v by (metis copyValues.simps(2) option.simps(5))
  qed
qed

section \<open>The variables of the daemon\<close>

lemma applyResources_all:
  assumes "\<forall>i \<in> set is. map_of g i = None \<and> map_of arr i \<noteq> None"
  shows "\<exists>m. applyResources (Some g) (Some (Some arr)) is vars = Some (m, True)
    \<and> (\<forall>i. m i = (if i \<in> set is then map_of arr i else vars i))"
  using assms
proof (induction "is" arbitrary: vars)
  case (Cons i "is")
  obtain v where v: "map_of g i = None" "map_of arr i = Some v" using Cons.prems by auto
  have ball_subset: "\<forall>i \<in> set is. map_of g i = None \<and> map_of arr i \<noteq> None" using Cons.prems by simp
  obtain m where m: "applyResources (Some g) (Some (Some arr)) is (vars(i \<mapsto> v)) = Some (m, True)"
    "\<forall>j. m j = (if j \<in> set is then map_of arr j else (vars(i \<mapsto> v)) j)"
    using Cons.IH[of "vars(i \<mapsto> v)"] ball_subset by blast
  have "findCfgEnt (Some g) (Some (Some arr)) i = Some (Some v)" using v by (simp add: findCfgEnt_def findIn_cfg_def)
  then have "applyResources (Some g) (Some (Some arr)) (i # is) vars = Some (m, True)" using m(1) by simp
  moreover have "\<forall>j. m j = (if j \<in> set (i # is) then map_of arr j else vars j)" using m(2) v(2) by simp
  ultimately show ?case by blast
qed simp

lemma fine_sums: "fine xs \<Longrightarrow> sum_list (map (charsOf \<circ> snd) xs) \<le> length xs * 0x10000
    \<and> sum_list (map (ptrsOf \<circ> snd) xs) \<le> length xs * 0x10001"
  by (induction xs) (auto simp: small_def)

definition publicIds :: "rcEnt list \<Rightarrow> 32 word list" where
  "publicIds es = map (\<lambda>e. pubId (enId e)) (filter public es)"

lemma delivered_sent:
  assumes a: "added xs emptyVals va" and d: "delivered grp secs d es xs" and n: "length es \<le> 1000"
    and u: "distinct (publicIds es)"
  shows "\<exists>arr. loadResources (\<lambda>_. True) (sendValues va) = Some (Some arr, []) \<and> map fst arr = publicIds es
    \<and> (\<forall>e \<in> set es. public e \<and> \<not> hooked e \<longrightarrow>
         map_of arr (pubId (enId e)) = getValue grp secs e (Some d) (optionsOf e))"
proof -
  have xs: "vaEnts va = xs" "summed va" using a by (simp_all add: added_def) (simp_all add: emptyVals_def)
  have f: "fine xs" and ids: "map fst xs = map enId (filter public es)" using d by (simp_all add: delivered_def)
  have "length xs = length (filter public es)" using ids by (metis length_map)
  then have l: "length xs \<le> 1000" using n length_filter_le[of public es] by linarith
  have sums: "vaChars va \<le> 1000 * 0x10000" "vaPtrs va \<le> 1000 * 0x10001"
    using fine_sums[OF f] l xs by (auto simp: summed_def intro: order_trans)
  let ?arr = "map (\<lambda>(i, v). (pubId i, v)) xs"
  have t: "\<forall>(i, v) \<in> set (vaEnts va). typed i v" using f xs(1) by (auto simp: fine_def)
  have "loadResources (\<lambda>_. True) (sendValues va @ []) = Some (Some (map (\<lambda>(i, v). (pubId i, v)) (vaEnts va)), [])"
    by (rule loadResources_sent[OF xs(2) t]) (use l sums xs(1) in \<open>simp_all add: int32_def\<close>)
  then have load: "loadResources (\<lambda>_. True) (sendValues va) = Some (Some ?arr, [])" using xs(1) by simp
  have fst: "map fst ?arr = publicIds es"
  proof -
    have "map fst ?arr = map pubId (map fst xs)" by (simp add: comp_def split_beta)
    then show ?thesis unfolding ids publicIds_def by (simp add: comp_def)
  qed
  have "map_of ?arr (pubId (enId e)) = getValue grp secs e (Some d) (optionsOf e)"
    if "e \<in> set es" "public e" "\<not> hooked e" for e
  proof -
    obtain v where v: "getValue grp secs e (Some d) (optionsOf e) = Some v" "(enId e, v) \<in> set xs"
      using d \<open>e \<in> set es\<close> \<open>public e\<close> \<open>\<not> hooked e\<close> unfolding delivered_def by blast
    then have "(pubId (enId e), v) \<in> set ?arr" by force
    moreover have "distinct (map fst ?arr)" using u fst by simp
    ultimately show ?thesis using v(1) map_of_is_SomeI[of ?arr] by simp
  qed
  then show ?thesis using load fst by blast
qed

text \<open>C5. For tables that fit together and any file below 64 kB, the request for a display's configuration is
  answered, the answer fits into the daemon's block, and exactly the public variables of the display are set. Each one
  the reader computes from the file is set to what its search \<open>getValue\<close> finds for the display: the value in
  the section that matches best as the code reads section names, or the default. That is not always the section the
  manual promises: one whose name has a class is passed over (\<open>KdmRc.class_section_never_applies\<close>,
  \<^verbatim>\<open>kdm_config.c:472\<close>, against \<^verbatim>\<open>kdmrc-ref.docbook\<close>). The variables with a hook (\<open>hooked\<close>) get what the hook of the
  reader says; nothing more is claimed of their values.\<close>

theorem display_values_arrive:
  assumes "\<forall>e \<in> set (core @ greeter). okEnt grp e" "okGroups grp" "\<forall>f. fl = Some f \<longrightarrow> plainText64 f"
    "mkDSpec disp (case cls of None \<Rightarrow> [] | Some c \<Rightarrow> c) = Some d"
    "length (core @ greeter) \<le> 1000" "distinct (publicIds (core @ greeter))"
    "\<forall>i \<in> set (publicIds (core @ greeter)). map_of globals i = None"
  shows "\<exists>bytes arr m. displayAnswer grp sects fl core greeter vars disp cls = Some bytes
    \<and> loadResources (\<lambda>_. True) bytes = Some (Some arr, [])
    \<and> applyResources (Some globals) (Some (Some arr)) (publicIds (core @ greeter)) Map.empty = Some (m, True)
    \<and> dom m = set (publicIds (core @ greeter))
    \<and> (\<forall>e \<in> set (core @ greeter). public e \<and> \<not> hooked e \<longrightarrow>
         m (pubId (enId e)) = getValue grp (readConfig sects fl) e (Some d) (optionsOf e))"
proof -
  let ?secs = "readConfig sects fl"
  have s: "plainSecs ?secs" by (rule readConfig_plain[OF assms(3)])
  have oc: "\<forall>e \<in> set core. okEnt grp e" and og: "\<forall>e \<in> set greeter. okEnt grp e" using assms(1) by auto
  obtain v1 va1 xs where c: "copyValues grp ?secs (Some d) 0 core (vars, emptyVals) = Some (v1, va1)"
    "added xs emptyVals va1" "delivered grp ?secs d core xs"
    using copyValues_delivers[OF oc assms(2) s] by blast
  obtain v2 va2 ys where g: "copyValues grp ?secs (Some d) 0 greeter (v1, va1) = Some (v2, va2)"
    "added ys va1 va2" "delivered grp ?secs d greeter ys"
    using copyValues_delivers[OF og assms(2) s] by blast
  have ans: "displayAnswer grp sects fl core greeter vars disp cls = Some (sendValues va2)"
    using c(1) g(1) assms(4) by (simp add: displayAnswer_def Let_def)
  obtain arr where arr: "loadResources (\<lambda>_. True) (sendValues va2) = Some (Some arr, [])"
    "map fst arr = publicIds (core @ greeter)"
    "\<forall>e \<in> set (core @ greeter). public e \<and> \<not> hooked e \<longrightarrow>
       map_of arr (pubId (enId e)) = getValue grp ?secs e (Some d) (optionsOf e)"
    using delivered_sent[OF added_trans[OF c(2) g(2)] delivered_append[OF c(3) g(3)] assms(5,6)] by blast
  have all: "\<forall>i \<in> set (publicIds (core @ greeter)). map_of globals i = None \<and> map_of arr i \<noteq> None"
    using assms(7) unfolding arr(2)[symmetric] by (simp add: map_of_eq_None_iff del: not_None_eq)
  from applyResources_all[OF all, of Map.empty] obtain m where
    m: "applyResources (Some globals) (Some (Some arr)) (publicIds (core @ greeter)) Map.empty = Some (m, True)"
    "\<forall>i. m i = (if i \<in> set (publicIds (core @ greeter)) then map_of arr i else None)" by blast
  have "m (pubId (enId e)) = getValue grp ?secs e (Some d) (optionsOf e)"
    if "e \<in> set (core @ greeter)" "public e" "\<not> hooked e" for e
  proof -
    have "pubId (enId e) \<in> set (publicIds (core @ greeter))" using that(1,2) unfolding publicIds_def by auto
    then show ?thesis using m(2) arr(3) that by simp
  qed
  moreover have "dom m = set (publicIds (core @ greeter))"
    unfolding dom_def using m(2) all by (auto split: if_splits)
  ultimately show ?thesis using ans arr(1) m(1) by blast
qed

definition demoCore :: "rcEnt list" where
  "demoCore = [\<lparr>enName = ''Setup'', enId = 0x11000002, enPtr = NoPtr, enDef = ''/x''\<rparr>]"

definition demoTables :: "rcSect list" where
  "demoTables = [\<lparr>seName = ''-Core'', seEnts = demoCore\<rparr>]"

definition demoRc :: string where
  "demoRc = ''[X-:*-Core]'' @ [NL] @ ''Setup = /y'' @ [NL] @ ''[X-*-Core]'' @ [NL] @ ''Setup=/z'' @ [NL]"

theorem display_values_arrive_witness:
  "\<exists>bytes arr m. displayAnswer (\<lambda>_. None) demoTables (Some demoRc) demoCore [] (\<lambda>_. VInt 0) '':0'' None = Some bytes
    \<and> loadResources (\<lambda>_. True) bytes = Some (Some arr, [])
    \<and> applyResources (Some []) (Some (Some arr)) [0x01000002] Map.empty = Some (m, True)
    \<and> m 0x01000002 = Some (VStr ''/y'')"
proof -
  let ?d = "\<lparr>dsHost = [], dsNum = ''0'', dsClass = []\<rparr>"
  let ?e = "\<lparr>enName = ''Setup'', enId = 0x11000002, enPtr = NoPtr, enDef = ''/x''\<rparr> :: rcEnt"
  have ok: "\<forall>e \<in> set (demoCore @ []). okEnt (\<lambda>_. None) e"
    by (simp add: demoCore_def okEnt_def optionsOf_def convertValue_def Let_def plainText64_def
        C_CONFIG_def C_INTERNAL_def C_TYPE_MASK_def C_TYPE_INT_def C_TYPE_STR_def)
  have pub: "public ?e" "\<not> hooked ?e" "pubId (enId ?e) = 0x01000002"
    by (simp_all add: public_def hooked_def pubId_def C_CONFIG_def C_INTERNAL_def C_PRIVATE_def)
  have ids: "publicIds (demoCore @ []) = [0x01000002]"
    using pub by (simp add: publicIds_def demoCore_def)
  have f: "\<forall>f. Some demoRc = Some f \<longrightarrow> plainText64 f" by (simp add: plainText64_def demoRc_def)
  have d: "mkDSpec '':0'' (case None of None \<Rightarrow> [] | Some c \<Rightarrow> c) = Some ?d" by (simp add: mkDSpec_def)
  have g: "okGroups (\<lambda>_. None)" by (simp add: okGroups_def)
  have v: "getValue (\<lambda>_. None) (readConfig demoTables (Some demoRc)) ?e (Some ?d) (optionsOf ?e) = Some (VStr ''/y'')"
    by code_simp
  have u: "distinct (publicIds (demoCore @ []))" "\<forall>i \<in> set (publicIds (demoCore @ [])). map_of [] i = None"
    "length (demoCore @ []) \<le> 1000" unfolding ids by (simp_all add: demoCore_def)
  obtain bytes arr m where r: "displayAnswer (\<lambda>_. None) demoTables (Some demoRc) demoCore [] (\<lambda>_. VInt 0) '':0'' None = Some bytes"
    "loadResources (\<lambda>_. True) bytes = Some (Some arr, [])"
    "applyResources (Some []) (Some (Some arr)) (publicIds (demoCore @ [])) Map.empty = Some (m, True)"
    "dom m = set (publicIds (demoCore @ []))"
    "\<forall>e \<in> set (demoCore @ []). public e \<and> \<not> hooked e \<longrightarrow>
       m (pubId (enId e)) = getValue (\<lambda>_. None) (readConfig demoTables (Some demoRc)) e (Some ?d) (optionsOf e)"
    using display_values_arrive[OF ok g f d u(3,1,2), of demoTables "\<lambda>_. VInt 0"] by blast
  have "m (pubId (enId ?e)) = Some (VStr ''/y'')" using r(5) pub v by (simp add: demoCore_def)
  then show ?thesis using r(1-3) unfolding ids pub(3) by blast
qed

section \<open>Deviations\<close>

text \<open>A display without a colon in its name: the reader looks for one behind the end of the name.\<close>

lemma display_without_colon: "displayAnswer grp sects fl core greeter vars ''terminal'' cls = None"
  by (simp add: displayAnswer_def mkDSpec_def)

text \<open>The block could not be allocated: the values are looked for in the index of the block that has been freed.\<close>

lemma values_of_a_freed_block:
  "map_of g i = None \<Longrightarrow> findCfgEnt (Some g) (Some None) i = None"
  by (simp add: findCfgEnt_def findIn_cfg_def)

end
