(* ===== verification/CfgDeps.thy ===== *)
theory CfgDeps
  imports Prelude
begin

text \<open>
  When the configuration has to be read again, \<^verbatim>\<open>kdm/backend/resource.c\<close>: the names of the configuration files,
  kept once each with a count of their users (\<open>newStr\<close>, \<open>delStr\<close>), the list of files the helper reports with
  their dependencies (\<open>getDeps\<close>, \<open>checkDep\<close>), and the time stamps of what was read (\<open>needsReScan\<close>, \<open>startConfig\<close>).
  A counted string is identified by its text; \<open>None\<close> is the use of one that has been freed, an index outside
  an array, or a recursion that does not end. The helper's answers and the times of the files are parameters; memory suffices.
\<close>

section \<open>Counted strings\<close>

type_synonym pool = "(string \<times> nat) list"

definition newStr :: "string \<Rightarrow> pool \<Rightarrow> pool" where
  "newStr str strs =
     (if \<exists>c \<in> set strs. fst c = str then update_where (\<lambda>c. fst c = str) (\<lambda>(s, n). (s, n + 1)) strs
      else (str, 1) # strs)"

definition delStr :: "string option \<Rightarrow> pool \<Rightarrow> pool option" where
  "delStr str strs =
     (case str of None \<Rightarrow> Some strs
      | Some s \<Rightarrow>
          (case map_of strs s of None \<Rightarrow> None
           | Some n \<Rightarrow>
               if n - 1 \<noteq> 0 then Some (update_where (\<lambda>c. fst c = s) (\<lambda>(s, n). (s, n - 1)) strs)
               else Some (remove_first (\<lambda>c. fst c = s) strs)))"

section \<open>Files\<close>

record cfgFile =
  cfName :: string
  cfDep :: int
  cfTime :: int

record cfgDep =
  cdName :: "string option"
  cdTime :: int

text \<open>The variables of the file, and the stamps in other structures: the daemon's, the displays', the access list's.\<close>

record depState =
  strs :: pool
  cfgFiles :: "cfgFile list"
  cfgMap :: "int list"
  cfgDeps :: "cfgDep list"

text \<open>What the helper answers: the files, each with the index it depends on or -1, and the file of each category.\<close>

record depAnswer =
  daFiles :: "(string \<times> int) list"
  daMap :: "int list"

text \<open>The names of the files read so far are needed for the time of the one depended on.\<close>

fun readFiles :: "(string \<Rightarrow> int) \<Rightarrow> (string \<times> int) list \<Rightarrow> cfgFile list \<Rightarrow> pool \<Rightarrow> (cfgFile list \<times> pool) option" where
  "readFiles mt [] cf p = Some (cf, p)"
| "readFiles mt ((name, dep) # fs) cf p =
     (let p = newStr name p; ns = map cfName cf @ [name] in
      if dep = -1 then readFiles mt fs (cf @ [\<lparr>cfName = name, cfDep = dep, cfTime = 0\<rparr>]) p
      else if 0 \<le> dep \<and> nat dep < length ns then
        readFiles mt fs (cf @ [\<lparr>cfName = name, cfDep = dep, cfTime = mt (ns ! nat dep)\<rparr>]) p
      else None)"

fun delAll :: "string list \<Rightarrow> pool \<Rightarrow> pool option" where
  "delAll [] p = Some p"
| "delAll (s # ss) p = (case delStr (Some s) p of None \<Rightarrow> None | Some p \<Rightarrow> delAll ss p)"

definition getDeps :: "(string \<Rightarrow> int) \<Rightarrow> depAnswer \<Rightarrow> depState \<Rightarrow> (bool \<times> depState) option" where
  "getDeps mt a st =
     (case readFiles mt (daFiles a) [] (strs st) of None \<Rightarrow> None
      | Some (cf, p) \<Rightarrow>
          (case delAll (map cfName (cfgFiles st)) p of None \<Rightarrow> None
           | Some p \<Rightarrow>
               Some (\<forall>i \<in> set (daMap a). 0 \<le> i, st\<lparr>strs := p, cfgFiles := cf, cfgMap := daMap a\<rparr>)))"

definition entryAt :: "'a list \<Rightarrow> int \<Rightarrow> 'a option" where
  "entryAt xs i = (if 0 \<le> i \<and> nat i < length xs then Some (xs ! nat i) else None)"

text \<open>A file that depends on itself would be looked at forever; a later one is not received.\<close>

function checkDep :: "(string \<Rightarrow> int) \<Rightarrow> cfgFile list \<Rightarrow> int \<Rightarrow> bool option" where
  "checkDep mt cf idx =
     (case entryAt cf idx of None \<Rightarrow> None
      | Some f \<Rightarrow>
          if cfDep f = -1 then Some False
          else if 0 \<le> cfDep f \<and> cfDep f < idx then
            (case checkDep mt cf (cfDep f) of None \<Rightarrow> None
             | Some True \<Rightarrow> Some True
             | Some False \<Rightarrow> Some (mt (cfName (cf ! nat (cfDep f))) \<noteq> cfTime f))
          else None)"
  by pat_completeness auto

termination
  by (relation "measure (\<lambda>(mt, cf, i). nat i)") (auto simp: entryAt_def split: if_splits)

declare checkDep.simps [simp del]

text \<open>
  \<open>needsReScan\<close> for the category with index \<open>w\<close> and the stamp with index \<open>k\<close>: -1, 0 or 1. \<open>mt\<close> are the times at
  which files were changed, \<open>a\<close> is what the helper answers if it is asked.
\<close>

definition stampFile :: "(string \<Rightarrow> int) \<Rightarrow> int \<Rightarrow> nat \<Rightarrow> depState \<Rightarrow> (int \<times> depState) option" where
  "stampFile mt idx k st =
     (case (entryAt (cfgFiles st) idx, entryAt (cfgDeps st) (int k)) of
        (Some f, Some d) \<Rightarrow>
          (let t = mt (cfName f) in
           if cdName d \<noteq> Some (cfName f) then
             (case delStr (cdName d) (strs st) of None \<Rightarrow> None
              | Some p \<Rightarrow>
                  if \<exists>c \<in> set p. fst c = cfName f then
                    Some (1, st\<lparr>strs := newStr (cfName f) p,
                       cfgDeps := (cfgDeps st)[k := \<lparr>cdName = Some (cfName f), cdTime = t\<rparr>]\<rparr>)
                  else None)
           else if cdTime d \<noteq> t then Some (1, st\<lparr>cfgDeps := (cfgDeps st)[k := d\<lparr>cdTime := t\<rparr>]\<rparr>)
           else Some (0, st))
      | _ \<Rightarrow> None)"

definition needsReScan :: "(string \<Rightarrow> int) \<Rightarrow> depAnswer \<Rightarrow> nat \<Rightarrow> nat \<Rightarrow> depState \<Rightarrow> (int \<times> depState) option" where
  "needsReScan mt a w k st =
     (case entryAt (cfgMap st) (int w) of None \<Rightarrow> None
      | Some idx \<Rightarrow>
          (case checkDep mt (cfgFiles st) idx of None \<Rightarrow> None
           | Some False \<Rightarrow> stampFile mt idx k st
           | Some True \<Rightarrow>
               (case getDeps mt a st of None \<Rightarrow> None
                | Some (False, st) \<Rightarrow> Some (-1, st)
                | Some (True, st) \<Rightarrow>
                    (case entryAt (cfgMap st) (int w) of None \<Rightarrow> None | Some idx \<Rightarrow> stampFile mt idx k st))))"

text \<open>\<open>startConfig\<close>: the result and the name of the file that is asked for.\<close>

definition startConfig ::
    "(string \<Rightarrow> int) \<Rightarrow> depAnswer \<Rightarrow> nat \<Rightarrow> nat \<Rightarrow> bool \<Rightarrow> depState \<Rightarrow> (int \<times> string option \<times> depState) option" where
  "startConfig mt a w k frc st =
     (case needsReScan mt a w k st of None \<Rightarrow> None
      | Some (ret, st) \<Rightarrow>
          if ret < 0 \<or> ret = 0 \<and> \<not> frc then Some (ret, None, st)
          else (case entryAt (cfgDeps st) (int k) of None \<Rightarrow> None
                | Some d \<Rightarrow> (case cdName d of None \<Rightarrow> None | Some n \<Rightarrow> Some (1, Some n, st))))"

text \<open>A display comes with an empty stamp and gives its name back when it is removed (\<^verbatim>\<open>dpylist.c\<close>).\<close>

definition newStamp :: "depState \<Rightarrow> depState" where
  "newStamp st = st\<lparr>cfgDeps := cfgDeps st @ [\<lparr>cdName = None, cdTime = 0\<rparr>]\<rparr>"

definition dropStamp :: "nat \<Rightarrow> depState \<Rightarrow> depState option" where
  "dropStamp k st =
     (case entryAt (cfgDeps st) (int k) of None \<Rightarrow> None
      | Some d \<Rightarrow> map_option (\<lambda>p. st\<lparr>strs := p, cfgDeps := take k (cfgDeps st) @ drop (Suc k) (cfgDeps st)\<rparr>)
                    (delStr (cdName d) (strs st)))"

section \<open>The counts are right\<close>

definition users :: "depState \<Rightarrow> string list" where
  "users st = map cfName (cfgFiles st) @ List.map_filter cdName (cfgDeps st)"

definition cnt :: "pool \<Rightarrow> string \<Rightarrow> nat" where
  "cnt p s = (case map_of p s of None \<Rightarrow> 0 | Some n \<Rightarrow> n)"

definition wfPool :: "pool \<Rightarrow> bool" where
  "wfPool p \<longleftrightarrow> distinct (map fst p) \<and> 0 \<notin> snd ` set p"

definition counted :: "depState \<Rightarrow> bool" where
  "counted st \<longleftrightarrow> wfPool (strs st) \<and> cnt (strs st) = count_list (users st)"

lemma map_of_update:
  "map_of (update_where (\<lambda>c. fst c = s) (\<lambda>(s, n). (s, f n)) p) t = (if t = s then map_option f (map_of p t) else map_of p t)"
  by (induction p) auto

lemma fst_update: "map fst (update_where (\<lambda>c. fst c = s) (\<lambda>(s, n). (s, f n)) p) = map fst p"
  by (induction p) auto

lemma map_of_remove:
  assumes "distinct (map fst p)"
  shows "map_of (remove_first (\<lambda>c. fst c = s) p) t = (if t = s then None else map_of p t)"
  unfolding remove_first_distinct[OF assms] by (induction p) auto

lemma in_pool: "(\<exists>c \<in> set p. fst c = s) \<longleftrightarrow> map_of p s \<noteq> None"
  by (auto simp: map_of_eq_None_iff)

lemma wfPool_cnt: "wfPool p \<Longrightarrow> map_of p s = (if cnt p s = 0 then None else Some (cnt p s))"
  by (auto simp: cnt_def wfPool_def split: option.splits dest: map_of_SomeD intro: rev_image_eqI)

lemma newStr_cnt: "cnt (newStr s p) = (cnt p)(s := cnt p s + 1)"
proof (cases "map_of p s")
  case None
  then show ?thesis by (simp add: newStr_def in_pool cnt_def fun_eq_iff del: not_None_eq)
next
  case (Some n)
  then show ?thesis by (simp add: newStr_def in_pool cnt_def fun_eq_iff map_of_update split: option.split)
qed

lemma newStr_wf: "wfPool p \<Longrightarrow> wfPool (newStr s p)"
  by (auto simp: newStr_def wfPool_def fst_update set_update_where in_pool split: if_splits)

lemma delStr_Some:
  assumes "wfPool p" "0 < cnt p s"
  shows "\<exists>q. delStr (Some s) p = Some q \<and> wfPool q \<and> cnt q = (cnt p)(s := cnt p s - 1)"
proof -
  have m: "map_of p s = Some (cnt p s)" using wfPool_cnt[OF assms(1)] assms(2) by simp
  show ?thesis
  proof (cases "cnt p s - 1 = 0")
    case True
    have "wfPool (remove_first (\<lambda>c. fst c = s) p)"
      using assms(1) set_remove_first_subset[of "\<lambda>c. fst c = s" p]
      by (auto simp: wfPool_def map_remove_first_distinct intro: remove_first_distinct)
    moreover have "cnt (remove_first (\<lambda>c. fst c = s) p) = (cnt p)(s := cnt p s - 1)"
      using assms(1) True by (simp add: cnt_def fun_eq_iff map_of_remove wfPool_def split: option.split)
    ultimately show ?thesis using m True by (simp add: delStr_def)
  next
    case False
    let ?q = "update_where (\<lambda>c. fst c = s) (\<lambda>(s, n). (s, n - 1)) p"
    have "n = cnt p s" if "(s, n) \<in> set p" for n
      using map_of_is_SomeI[OF _ that] assms(1) m by (simp add: wfPool_def)
    then have "0 \<notin> snd ` set ?q" using assms(1) False
      by (auto 0 3 simp: wfPool_def set_update_where image_iff split: if_splits)
    then have "wfPool ?q" using assms(1) unfolding wfPool_def by (simp only: fst_update) simp
    moreover have "cnt ?q = (cnt p)(s := cnt p s - 1)"
      by (simp add: cnt_def fun_eq_iff map_of_update split: option.split)
    ultimately show ?thesis using m False by (simp add: delStr_def)
  qed
qed


lemma delAll_Some:
  "\<lbrakk>wfPool p; \<forall>s. count_list ss s \<le> cnt p s\<rbrakk> \<Longrightarrow>
   \<exists>q. delAll ss p = Some q \<and> wfPool q \<and> (\<forall>s. cnt q s = cnt p s - count_list ss s)"
proof (induction ss arbitrary: p)
  case Nil
  then show ?case by simp
next
  case (Cons t ss)
  have "0 < cnt p t" using Cons.prems(2)[rule_format, of t] by simp
  from delStr_Some[OF Cons.prems(1) this] obtain q where q: "delStr (Some t) p = Some q" "wfPool q"
    "cnt q = (cnt p)(t := cnt p t - 1)" by blast
  have "\<forall>s. count_list ss s \<le> cnt q s"
  proof
    fix s show "count_list ss s \<le> cnt q s" using Cons.prems(2)[rule_format, of s] q(3) by (auto split: if_splits)
  qed
  from Cons.IH[OF q(2) this] obtain r where r: "delAll ss q = Some r" "wfPool r"
    "\<forall>s. cnt r s = cnt q s - count_list ss s" by blast
  then show ?case using q by auto
qed

section \<open>The files and what they depend on\<close>

definition linked :: "cfgFile list \<Rightarrow> bool" where
  "linked cf \<longleftrightarrow> (\<forall>i < length cf. cfDep (cf ! i) = -1 \<or> 0 \<le> cfDep (cf ! i) \<and> cfDep (cf ! i) < int i)"

definition fresh :: "(string \<Rightarrow> int) \<Rightarrow> cfgFile list \<Rightarrow> bool" where
  "fresh mt cf \<longleftrightarrow> (\<forall>i < length cf. cfDep (cf ! i) \<noteq> -1 \<longrightarrow> cfTime (cf ! i) = mt (cfName (cf ! nat (cfDep (cf ! i)))))"

fun okFrom :: "nat \<Rightarrow> (string \<times> int) list \<Rightarrow> bool" where
  "okFrom n [] \<longleftrightarrow> True"
| "okFrom n ((name, dep) # fs) \<longleftrightarrow> (dep = -1 \<or> 0 \<le> dep \<and> dep < int n) \<and> okFrom (Suc n) fs"

definition CATS :: nat where "CATS = 3"

definition okAnswer :: "depAnswer \<Rightarrow> bool" where
  "okAnswer a \<longleftrightarrow> okFrom 0 (daFiles a) \<and> length (daMap a) = CATS
    \<and> (\<forall>i \<in> set (daMap a). 0 \<le> i \<and> i < int (length (daFiles a)))"

lemma linked_snoc:
  "\<lbrakk>linked cf; cfDep f = -1 \<or> 0 \<le> cfDep f \<and> cfDep f < int (length cf)\<rbrakk> \<Longrightarrow> linked (cf @ [f])"
  by (auto simp: linked_def nth_append less_Suc_eq)

lemma fresh_snoc:
  assumes "linked cf" "fresh mt cf" "cfDep f = -1 \<or> 0 \<le> cfDep f \<and> cfDep f < int (length cf) \<and> cfTime f = mt (cfName (cf ! nat (cfDep f)))"
  shows "fresh mt (cf @ [f])"
  unfolding fresh_def
proof (intro allI impI)
  fix i assume i: "i < length (cf @ [f])" and d: "cfDep ((cf @ [f]) ! i) \<noteq> -1"
  show "cfTime ((cf @ [f]) ! i) = mt (cfName ((cf @ [f]) ! nat (cfDep ((cf @ [f]) ! i))))"
  proof (cases "i < length cf")
    case True
    then have "nat (cfDep (cf ! i)) < length cf" using assms(1) d by (fastforce simp: linked_def nth_append)
    then show ?thesis using True d assms(2) by (simp add: nth_append fresh_def)
  next
    case False
    then have "i = length cf" using i by simp
    moreover have "nat (cfDep f) < length cf" using assms(3) d \<open>i = length cf\<close> by (simp add: nth_append) linarith
    ultimately show ?thesis using assms(3) d by (auto simp: nth_append)
  qed
qed

lemma readFiles_Some:
  "\<lbrakk>okFrom (length cf) fs; wfPool p; linked cf; fresh mt cf\<rbrakk> \<Longrightarrow>
   \<exists>cf2 q. readFiles mt fs cf p = Some (cf2, q) \<and> wfPool q \<and> linked cf2 \<and> fresh mt cf2
     \<and> map cfName cf2 = map cfName cf @ map fst fs \<and> (\<forall>s. cnt q s = cnt p s + count_list (map fst fs) s)"
proof (induction fs arbitrary: cf p)
  case Nil
  then show ?case by simp
next
  case (Cons x fs)
  obtain name dep where x: "x = (name, dep)" by fastforce
  let ?t = "if dep = -1 then 0 else mt (map cfName (cf @ [\<lparr>cfName = name, cfDep = dep, cfTime = 0\<rparr>]) ! nat dep)"
  let ?f = "\<lparr>cfName = name, cfDep = dep, cfTime = ?t\<rparr>"
  have d: "dep = -1 \<or> 0 \<le> dep \<and> dep < int (length cf)" "okFrom (length (cf @ [?f])) fs" using Cons.prems(1) x by auto
  have l: "linked (cf @ [?f])" using linked_snoc[OF Cons.prems(3), of ?f] d(1) by simp
  have "dep = -1 \<or> 0 \<le> dep \<and> dep < int (length cf) \<and> ?t = mt (cfName (cf ! nat dep))"
    using d(1) by (auto simp: nth_append nat_less_iff)
  then have f: "fresh mt (cf @ [?f])" using fresh_snoc[OF Cons.prems(3,4), of ?f] by simp
  have "readFiles mt (x # fs) cf p = readFiles mt fs (cf @ [?f]) (newStr name p)"
    using d(1) x by (auto simp: Let_def nat_less_iff)
  moreover obtain cf2 q where "readFiles mt fs (cf @ [?f]) (newStr name p) = Some (cf2, q)" "wfPool q" "linked cf2" "fresh mt cf2"
    "map cfName cf2 = map cfName (cf @ [?f]) @ map fst fs" "\<forall>s. cnt q s = cnt (newStr name p) s + count_list (map fst fs) s"
    using Cons.IH[OF d(2) newStr_wf[OF Cons.prems(2), of name] l f] by blast
  ultimately show ?case by (simp add: newStr_cnt x)
qed

lemma entryAt_Some: "\<lbrakk>0 \<le> i; i < int (length xs)\<rbrakk> \<Longrightarrow> entryAt xs i = Some (xs ! nat i)"
  by (simp add: entryAt_def nat_less_iff)

lemma checkDep_total:
  "\<lbrakk>linked cf; 0 \<le> i; i < int (length cf)\<rbrakk> \<Longrightarrow>
   \<exists>b. checkDep mt cf i = Some b \<and> (fresh mt cf \<longrightarrow> \<not> b)"
proof (induction mt cf i rule: checkDep.induct)
  case (1 mt cf i)
  let ?f = "cf ! nat i"
  have a: "entryAt cf i = Some ?f" using entryAt_Some 1 by blast
  have n: "nat i < length cf" using 1 by (simp add: nat_less_iff)
  have d: "cfDep ?f = -1 \<or> 0 \<le> cfDep ?f \<and> cfDep ?f < i" using 1(2,3) n by (auto simp: linked_def)
  show ?case
  proof (cases "cfDep ?f = -1")
    case True
    then have "checkDep mt cf i = Some False" using a by (simp add: checkDep.simps[of mt cf i])
    then show ?thesis by (intro exI[of _ False]) simp
  next
    case False
    then have b: "0 \<le> cfDep ?f \<and> cfDep ?f < i" using d by simp
    with 1(1)[OF a False b] 1(2-) obtain c where
      "checkDep mt cf (cfDep ?f) = Some c" "fresh mt cf \<longrightarrow> \<not> c" by auto
    then show ?thesis using a False b n by (auto simp: checkDep.simps[of mt cf i] fresh_def split: bool.splits)
  qed
qed

section \<open>Every sequence of calls\<close>

definition okDeps :: "depState \<Rightarrow> bool" where
  "okDeps st \<longleftrightarrow> counted st \<and> linked (cfgFiles st) \<and> length (cfgMap st) = CATS
    \<and> (\<forall>i \<in> set (cfgMap st). 0 \<le> i \<and> i < int (length (cfgFiles st)))"

lemma getDeps_ok:
  assumes "counted st" "okAnswer a"
  shows "\<exists>st1. getDeps mt a st = Some (True, st1) \<and> okDeps st1 \<and> fresh mt (cfgFiles st1) \<and> cfgDeps st1 = cfgDeps st"
proof -
  have w: "wfPool (strs st)" and c: "cnt (strs st) = count_list (users st)" using assms(1) by (auto simp: counted_def)
  have "okFrom (length ([] :: cfgFile list)) (daFiles a)" "linked []" "fresh mt []"
    using assms(2) by (auto simp: okAnswer_def linked_def fresh_def)
  from readFiles_Some[OF this(1) w this(2,3)] obtain cf p where p: "readFiles mt (daFiles a) [] (strs st) = Some (cf, p)"
    "wfPool p" "linked cf" "fresh mt cf" "map cfName cf = map fst (daFiles a)"
    "\<forall>s. cnt p s = cnt (strs st) s + count_list (map fst (daFiles a)) s" by auto
  have "\<forall>s. count_list (map cfName (cfgFiles st)) s \<le> cnt p s" using p(6) c by (simp add: users_def)
  from delAll_Some[OF p(2) this] obtain q where q: "delAll (map cfName (cfgFiles st)) p = Some q" "wfPool q"
    "\<forall>s. cnt q s = cnt p s - count_list (map cfName (cfgFiles st)) s" by blast
  have l: "length cf = length (daFiles a)" using p(5) by (metis length_map)
  let ?st = "st\<lparr>strs := q, cfgFiles := cf, cfgMap := daMap a\<rparr>"
  have "counted ?st" using q(2,3) p(5,6) c by (simp add: counted_def users_def fun_eq_iff)
  then have "okDeps ?st" using p(3) assms(2) l by (simp add: okDeps_def okAnswer_def)
  moreover have "getDeps mt a st = Some (True, ?st)" using p(1) q(1) assms(2) by (simp add: getDeps_def okAnswer_def)
  ultimately show ?thesis using p(4) by auto
qed


lemma map_filter_update:
  "k < length xs \<Longrightarrow> count_list (List.map_filter f (xs[k := y])) s + count_list (List.map_filter f [xs ! k]) s =
     count_list (List.map_filter f xs) s + count_list (List.map_filter f [y]) s"
  by (induction xs arbitrary: k) (auto simp: List.map_filter_simps split: nat.splits option.splits)

lemma map_filter_delete:
  "k < length xs \<Longrightarrow> count_list (List.map_filter f (take k xs @ drop (Suc k) xs)) s + count_list (List.map_filter f [xs ! k]) s =
     count_list (List.map_filter f xs) s"
proof (induction xs arbitrary: k)
  case (Cons x xs)
  then show ?case by (cases k) (auto simp: List.map_filter_simps split: option.splits)
qed simp

lemma delStr_user:
  assumes "counted st" "k < length (cfgDeps st)"
  shows "\<exists>q. delStr (cdName (cfgDeps st ! k)) (strs st) = Some q \<and> wfPool q
    \<and> (\<forall>s. cnt q s = count_list (map cfName (cfgFiles st)) s
         + count_list (List.map_filter cdName (take k (cfgDeps st) @ drop (Suc k) (cfgDeps st))) s)"
proof -
  have w: "wfPool (strs st)" and c: "\<And>s. cnt (strs st) s = count_list (users st) s" using assms(1) by (auto simp: counted_def)
  note m = map_filter_delete[OF assms(2), of cdName]
  show ?thesis
  proof (cases "cdName (cfgDeps st ! k)")
    case None
    then have "cnt (strs st) s = count_list (map cfName (cfgFiles st)) s
        + count_list (List.map_filter cdName (take k (cfgDeps st) @ drop (Suc k) (cfgDeps st))) s" for s
      using m[of s] c[of s] by (simp add: users_def List.map_filter_simps)
    then show ?thesis using None w by (simp add: delStr_def)
  next
    case (Some t)
    have n: "cnt (strs st) s = count_list (map cfName (cfgFiles st)) s
        + count_list (List.map_filter cdName (take k (cfgDeps st) @ drop (Suc k) (cfgDeps st))) s
        + (if s = t then 1 else 0)" for s
      using m[of s] c[of s] Some by (simp add: users_def List.map_filter_simps split: if_splits)
    have "0 < cnt (strs st) t" using n[of t] by simp
    from delStr_Some[OF w this] n show ?thesis using Some by fastforce
  qed
qed

definition stamped :: "(string \<Rightarrow> int) \<Rightarrow> int \<Rightarrow> nat \<Rightarrow> depState \<Rightarrow> bool" where
  "stamped mt idx k st \<longleftrightarrow>
     cfgDeps st ! k = \<lparr>cdName = Some (cfName (cfgFiles st ! nat idx)), cdTime = mt (cfName (cfgFiles st ! nat idx))\<rparr>"

text \<open>A call leaves a right stamp, and says whether it was right before.\<close>

lemma stampFile_ok:
  assumes "okDeps st" "0 \<le> idx" "idx < int (length (cfgFiles st))" "k < length (cfgDeps st)"
  shows "\<exists>r st1. stampFile mt idx k st = Some (r, st1) \<and> r = (if stamped mt idx k st then 0 else 1)
    \<and> okDeps st1 \<and> stamped mt idx k st1 \<and> cfgFiles st1 = cfgFiles st \<and> cfgMap st1 = cfgMap st
    \<and> length (cfgDeps st1) = length (cfgDeps st)"
proof -
  let ?f = "cfgFiles st ! nat idx" and ?d = "cfgDeps st ! k"
  let ?new = "\<lparr>cdName = Some (cfName ?f), cdTime = mt (cfName ?f)\<rparr>"
  have a: "entryAt (cfgFiles st) idx = Some ?f" "entryAt (cfgDeps st) (int k) = Some ?d" using assms by (simp_all add: entryAt_Some)
  have c: "counted st" using assms(1) by (simp add: okDeps_def)
  have u: "count_list (List.map_filter cdName ((cfgDeps st)[k := y])) s =
      count_list (List.map_filter cdName (take k (cfgDeps st) @ drop (Suc k) (cfgDeps st))) s
      + count_list (List.map_filter cdName [y]) s" for s y
    using map_filter_update[OF assms(4), of cdName y s] map_filter_delete[OF assms(4), of cdName s] by simp
  show ?thesis
  proof (cases "cdName ?d = Some (cfName ?f)")
    case True
    have "counted (st\<lparr>cfgDeps := (cfgDeps st)[k := ?d\<lparr>cdTime := t\<rparr>]\<rparr>)" for t
      using c u[of "?d\<lparr>cdTime := t\<rparr>"] map_filter_delete[OF assms(4), of cdName] True
      by (simp add: counted_def users_def fun_eq_iff List.map_filter_simps)
    moreover have "?d\<lparr>cdTime := mt (cfName ?f)\<rparr> = ?new" using True by (cases ?d) simp
    ultimately show ?thesis using True a assms
      by (cases ?d) (auto simp: stampFile_def stamped_def okDeps_def Let_def)
  next
    case False
    obtain q where q: "delStr (cdName ?d) (strs st) = Some q" "wfPool q"
      "\<forall>s. cnt q s = count_list (map cfName (cfgFiles st)) s
         + count_list (List.map_filter cdName (take k (cfgDeps st) @ drop (Suc k) (cfgDeps st))) s"
      using delStr_user[OF c assms(4)] by blast
    have "cfName ?f \<in> set (map cfName (cfgFiles st))" using assms(2,3) by (simp add: nat_less_iff)
    then have "count_list (map cfName (cfgFiles st)) (cfName ?f) \<noteq> 0" by (simp only: count_list_0_iff not_not)
    then have "cnt q (cfName ?f) \<noteq> 0" using q(3) by simp
    then have m: "\<exists>c \<in> set q. fst c = cfName ?f" using wfPool_cnt[OF q(2), of "cfName ?f"] by (simp add: in_pool)
    let ?st = "st\<lparr>strs := newStr (cfName ?f) q, cfgDeps := (cfgDeps st)[k := ?new]\<rparr>"
    have "counted ?st" using newStr_wf[OF q(2)] q(3) u[of ?new]
      by (simp add: counted_def users_def fun_eq_iff newStr_cnt List.map_filter_simps)
    moreover have "stampFile mt idx k st = Some (1, ?st)" using False a q(1) m by (simp add: stampFile_def Let_def)
    moreover have "\<not> stamped mt idx k st" using False by (auto simp: stamped_def)
    ultimately show ?thesis using assms by (simp add: okDeps_def stamped_def)
  qed
qed


lemma okDeps_map:
  "\<lbrakk>okDeps st; w < CATS\<rbrakk> \<Longrightarrow>
   entryAt (cfgMap st) (int w) = Some (cfgMap st ! w) \<and> 0 \<le> cfgMap st ! w \<and> cfgMap st ! w < int (length (cfgFiles st))"
  by (simp add: okDeps_def entryAt_Some)

lemma needsReScan_ok:
  assumes "okDeps st" "okAnswer a" "w < CATS" "k < length (cfgDeps st)"
  shows "\<exists>r st1. needsReScan mt a w k st = Some (r, st1) \<and> (r = 0 \<or> r = 1) \<and> okDeps st1
    \<and> length (cfgDeps st1) = length (cfgDeps st) \<and> stamped mt (cfgMap st1 ! w) k st1
    \<and> checkDep mt (cfgFiles st1) (cfgMap st1 ! w) = Some False"
proof -
  have l: "linked (cfgFiles s)" if "okDeps s" for s using that by (simp add: okDeps_def)
  note m = okDeps_map[OF assms(1,3)]
  obtain b where b: "checkDep mt (cfgFiles st) (cfgMap st ! w) = Some b"
    using checkDep_total[OF l[OF assms(1)]] m by blast
  show ?thesis
  proof (cases b)
    case False
    then show ?thesis using stampFile_ok[OF assms(1), of "cfgMap st ! w" k mt] m b assms(4)
      by (fastforce simp: needsReScan_def)
  next
    case True
    have "counted st" using assms(1) by (simp add: okDeps_def)
    from getDeps_ok[OF this assms(2), of mt] obtain s1 where g: "getDeps mt a st = Some (True, s1)" "okDeps s1"
      "fresh mt (cfgFiles s1)" "cfgDeps s1 = cfgDeps st" by blast
    note m1 = okDeps_map[OF g(2) assms(3)]
    have f: "checkDep mt (cfgFiles s1) (cfgMap s1 ! w) = Some False"
      using checkDep_total[OF l[OF g(2)], of "cfgMap s1 ! w" mt] m1 g(3) by auto
    show ?thesis using stampFile_ok[OF g(2), of "cfgMap s1 ! w" k mt] m m1 b True f g(1,4) assms(4)
      by (fastforce simp: needsReScan_def)
  qed
qed

lemma startConfig_ok:
  assumes "okDeps st" "okAnswer a" "w < CATS" "k < length (cfgDeps st)"
  shows "\<exists>r n st1. startConfig mt a w k frc st = Some (r, n, st1) \<and> okDeps st1 \<and> length (cfgDeps st1) = length (cfgDeps st)
    \<and> (frc \<longrightarrow> r = 1) \<and> (n \<noteq> None \<longleftrightarrow> r = 1)
    \<and> startConfig mt a w k False st1 = Some (0, None, st1)"
proof -
  obtain r st1 where n: "needsReScan mt a w k st = Some (r, st1)" "r = 0 \<or> r = 1" "okDeps st1"
    "length (cfgDeps st1) = length (cfgDeps st)" "stamped mt (cfgMap st1 ! w) k st1"
    "checkDep mt (cfgFiles st1) (cfgMap st1 ! w) = Some False"
    using needsReScan_ok[OF assms, of mt] by blast
  note m = okDeps_map[OF n(3) assms(3)]
  have k: "k < length (cfgDeps st1)" using n(4) assms(4) by simp
  have "stampFile mt (cfgMap st1 ! w) k st1 = Some (0, st1)"
    using m k n(5) by (simp add: stampFile_def entryAt_Some stamped_def Let_def)
  then have "startConfig mt a w k False st1 = Some (0, None, st1)"
    using m n(6) by (simp add: startConfig_def needsReScan_def)
  then show ?thesis using n m k by (auto simp: startConfig_def entryAt_Some stamped_def)
qed

lemma dropStamp_ok:
  "\<lbrakk>okDeps st; k < length (cfgDeps st)\<rbrakk> \<Longrightarrow>
   \<exists>st1. dropStamp k st = Some st1 \<and> okDeps st1 \<and> length (cfgDeps st1) = length (cfgDeps st) - 1"
  using delStr_user[of st k]
  by (fastforce simp: dropStamp_def entryAt_Some okDeps_def counted_def users_def fun_eq_iff)

lemma map_filter_snoc: "List.map_filter f (xs @ ys) = List.map_filter f xs @ List.map_filter f ys"
  by (simp add: List.map_filter_def)

lemma newStamp_ok: "okDeps st \<Longrightarrow> okDeps (newStamp st)"
  by (simp add: newStamp_def okDeps_def counted_def users_def fun_eq_iff List.map_filter_simps map_filter_snoc)

text \<open>What the daemon does: it asks for a category on behalf of a stamp, displays come and go.\<close>

datatype depOp = Ask "string \<Rightarrow> int" depAnswer nat nat bool | Come | Go nat

definition depStep :: "depOp \<Rightarrow> depState \<Rightarrow> depState option" where
  "depStep op st = (case op of
      Ask mt a w k frc \<Rightarrow> map_option (\<lambda>(r, n, st). st) (startConfig mt a w k frc st)
    | Come \<Rightarrow> Some (newStamp st)
    | Go k \<Rightarrow> dropStamp k st)"

fun runDeps :: "depOp list \<Rightarrow> depState \<Rightarrow> depState option" where
  "runDeps [] st = Some st"
| "runDeps (op # ops) st = (case depStep op st of None \<Rightarrow> None | Some st \<Rightarrow> runDeps ops st)"

text \<open>Operations with answers a right helper gives, for stamps that exist: there are \<open>n\<close>.\<close>

fun okOps :: "nat \<Rightarrow> depOp list \<Rightarrow> bool" where
  "okOps n [] \<longleftrightarrow> True"
| "okOps n (Ask mt a w k frc # ops) \<longleftrightarrow> okAnswer a \<and> w < CATS \<and> k < n \<and> okOps n ops"
| "okOps n (Come # ops) \<longleftrightarrow> okOps (Suc n) ops"
| "okOps n (Go k # ops) \<longleftrightarrow> k < n \<and> okOps (n - 1) ops"

text \<open>The daemon starts with the stamps of the global configuration and of the access list.\<close>

definition noDeps :: depState where
  "noDeps = \<lparr>strs = [], cfgFiles = [], cfgMap = [], cfgDeps = [\<lparr>cdName = None, cdTime = 0\<rparr>, \<lparr>cdName = None, cdTime = 0\<rparr>]\<rparr>"

lemma counted_noDeps: "counted noDeps"
  by (simp add: noDeps_def counted_def wfPool_def users_def cnt_def fun_eq_iff List.map_filter_simps)

lemma runDeps_ok:
  "\<lbrakk>okDeps st; okOps (length (cfgDeps st)) ops\<rbrakk> \<Longrightarrow> \<exists>st1. runDeps ops st = Some st1 \<and> okDeps st1"
proof (induction ops arbitrary: st)
  case (Cons op ops)
  have "\<exists>s1. depStep op st = Some s1 \<and> okDeps s1 \<and> okOps (length (cfgDeps s1)) ops"
  proof (cases op)
    case (Ask mt a w k frc)
    then have "okAnswer a" "w < CATS" "k < length (cfgDeps st)" "okOps (length (cfgDeps st)) ops" using Cons.prems(2) by auto
    with startConfig_ok[OF Cons.prems(1) this(1-3), of mt frc] show ?thesis using Ask by (fastforce simp: depStep_def)
  next
    case Come
    then show ?thesis using Cons.prems newStamp_ok[of st] by (simp add: depStep_def newStamp_def)
  next
    case (Go k)
    then show ?thesis using Cons.prems dropStamp_ok[of st k] by (fastforce simp: depStep_def)
  qed
  then show ?case using Cons.IH by fastforce
qed simp

text \<open>C26. Whatever the daemon asks for, and whichever displays come and go, the counts of the file names stay equal to the
  number of their users, so no name that was freed is used. A configuration that is asked for is read once: asked
  again while no file changes, nothing is read.\<close>

theorem config_names_counted:
  assumes "okAnswer a0" "okOps 2 ops"
  shows "\<exists>st0 st. getDeps mt0 a0 noDeps = Some (True, st0) \<and> runDeps ops st0 = Some st \<and> counted st
    \<and> (\<forall>mt a w k frc. okAnswer a \<and> w < CATS \<and> k < length (cfgDeps st) \<longrightarrow>
         (\<exists>r n st1. startConfig mt a w k frc st = Some (r, n, st1) \<and> (frc \<longrightarrow> r = 1) \<and> (n \<noteq> None \<longleftrightarrow> r = 1)
            \<and> counted st1 \<and> startConfig mt a w k False st1 = Some (0, None, st1)))"
proof -
  obtain st0 where g: "getDeps mt0 a0 noDeps = Some (True, st0)" "okDeps st0" "cfgDeps st0 = cfgDeps noDeps"
    using getDeps_ok[OF counted_noDeps assms(1)] by blast
  then obtain st where r: "runDeps ops st0 = Some st" "okDeps st" using runDeps_ok[of st0 ops] assms(2)
    by (auto simp: noDeps_def numeral_2_eq_2)
  then have "counted st" by (simp add: okDeps_def)
  moreover have "\<exists>r n st1. startConfig mt a w k frc st = Some (r, n, st1) \<and> (frc \<longrightarrow> r = 1) \<and> (n \<noteq> None \<longleftrightarrow> r = 1)
      \<and> counted st1 \<and> startConfig mt a w k False st1 = Some (0, None, st1)"
    if "okAnswer a" "w < CATS" "k < length (cfgDeps st)" for mt a w k frc
    using startConfig_ok[OF r(2) that, of mt frc] by (auto simp: okDeps_def)
  ultimately show ?thesis using g(1) r(1) by blast
qed

definition demoAnswer :: depAnswer where
  "demoAnswer = \<lparr>daFiles = [(''Xaccess'', -1), (''kdmrc'', -1), (''/var/kdmrc'', 1)], daMap = [2, 2, 0]\<rparr>"

theorem config_names_counted_witness:
  "\<exists>st0 st. getDeps (\<lambda>_. 5) demoAnswer noDeps = Some (True, st0)
    \<and> runDeps [Ask (\<lambda>_. 5) demoAnswer 0 0 False, Come, Ask (\<lambda>_. 6) demoAnswer 1 2 False, Go 2] st0 = Some st
    \<and> counted st \<and> map_of (strs st) ''/var/kdmrc'' = Some 2"
proof -
  let ?ops = "[Ask (\<lambda>_. 5) demoAnswer 0 0 False, Come, Ask (\<lambda>_. 6) demoAnswer 1 2 False, Go 2]"
  have "okAnswer demoAnswer" "okOps 2 ?ops" by code_simp+
  from config_names_counted[OF this, of "\<lambda>_. 5"] obtain st0 st where
    s: "getDeps (\<lambda>_. 5) demoAnswer noDeps = Some (True, st0)" "runDeps ?ops st0 = Some st" "counted st" by blast
  have "map_option (\<lambda>st. map_of (strs st) ''/var/kdmrc'') (Option.bind (map_option snd (getDeps (\<lambda>_. 5) demoAnswer noDeps)) (runDeps ?ops))
      = Some (Some 2)" by code_simp
  then show ?thesis using s by auto
qed

section \<open>Deviations\<close>

text \<open>A category the helper does not know is reported and its index kept, so the next question looks at the file
  before the first.\<close>

lemma unknown_category_overreads:
  "\<lbrakk>w < length (daMap a); daMap a ! w < 0; getDeps mt a st = Some (b, st1)\<rbrakk> \<Longrightarrow> \<not> b \<and> needsReScan mt1 a1 w k st1 = None"
proof -
  assume a: "w < length (daMap a)" "daMap a ! w < 0" "getDeps mt a st = Some (b, st1)"
  then have s: "cfgMap st1 = daMap a" "b = (\<forall>i \<in> set (daMap a). 0 \<le> i)"
    by (auto simp: getDeps_def split: option.splits prod.splits)
  have "checkDep mt1 (cfgFiles st1) (daMap a ! w) = None" using a(2) by (simp add: checkDep.simps entryAt_def)
  then have "needsReScan mt1 a1 w k st1 = None" using a(1) s(1) by (simp add: needsReScan_def entryAt_Some)
  moreover have "\<not> b" using a(1,2) s(2) by (metis linorder_not_less nth_mem)
  ultimately show ?thesis by simp
qed

end
