(* ===== verification/Chooser.thy ===== *)
theory Chooser
  imports DmLoop Xdmcp
begin

text \<open>
  The dialogue of the host chooser, \<^verbatim>\<open>kdm/backend/choose.c\<close>: the hosts that are asked, the table of the hosts that
  answered, what is told to the greeter that shows them, and the choice that goes to the daemon. A round of the loop
  gets the times, what the pipe and the sockets deliver, and the pointer the allocator gives if a host is new; the
  resolver and the network interfaces are parameters. \<open>None\<close> is a read through a null pointer or past a buffer.
\<close>

section \<open>Hosts to ask\<close>

record hostAddr =
  haAddr :: sockaddr
  haLen :: nat
  haType :: xdmOpCode

text \<open>What the kernel says of an interface: its family, whether it is up and can broadcast, its broadcast address.\<close>

record ifReq =
  ifFamily :: int
  ifUpBroadcast :: bool
  ifBroad :: "bytes option"

text \<open>
  \<open>ceResolve\<close>: the answer of \<^verbatim>\<open>getaddrinfo\<close>; \<open>ceHostOf\<close>: the name \<^verbatim>\<open>gethostbyaddr\<close> finds; \<open>ceIfs\<close>: the list of
  interfaces, if it can be had; \<open>ceRaw\<close>: the bytes of a socket address; \<open>ceNtop\<close>: the text of an address.
\<close>

record chEnv =
  ceResolve :: "bytes \<Rightarrow> (sockaddr \<times> nat) list option"
  ceHostOf :: "int \<Rightarrow> bytes \<Rightarrow> bytes option"
  ceIfs :: "ifReq list option"
  ceRaw :: "sockaddr \<Rightarrow> bytes"
  ceNtop :: "int \<Rightarrow> bytes \<Rightarrow> string"

definition XDM_UDP_PORT :: int where "XDM_UDP_PORT = 177"

definition sameHostAddr :: "sockaddr \<Rightarrow> xdmOpCode \<Rightarrow> hostAddr \<Rightarrow> bool" where
  "sameHostAddr sa type h \<longleftrightarrow> haType h = type \<and>
     (case (sa, haAddr h) of
        (SaInet p a, SaInet q b) \<Rightarrow> p = q \<and> a = b
      | (SaInet6 p a, SaInet6 q b) \<Rightarrow> p = q \<and> a = b
      | _ \<Rightarrow> False)"

definition addHostaddr :: "hostAddr list \<Rightarrow> sockaddr \<Rightarrow> nat \<Rightarrow> xdmOpCode \<Rightarrow> hostAddr list" where
  "addHostaddr hosts sa len type =
     (if \<exists>h \<in> set hosts. sameHostAddr sa type h then hosts
      else \<lparr>haAddr = sa, haLen = len, haType = type\<rparr> # hosts)"

text \<open>\<^verbatim>\<open>IN_MULTICAST\<close> is given the address as it is in the socket address; on a little-endian machine its last
  byte is tested.\<close>

definition inMulticast :: "bytes \<Rightarrow> bool" where
  "inMulticast a \<longleftrightarrow> length a = 4 \<and> and (a ! 3) 0xf0 = 0xe0"

definition in6Multicast :: "bytes \<Rightarrow> bool" where
  "in6Multicast a \<longleftrightarrow> a \<noteq> [] \<and> hd a = 0xff"

definition pingType :: "bool \<Rightarrow> xdmOpCode" where
  "pingType multi = (if multi then BROADCAST_QUERY else QUERY)"

definition registerBroadcastForPing :: "chEnv \<Rightarrow> hostAddr list \<Rightarrow> hostAddr list" where
  "registerBroadcastForPing E hosts =
     (case ceIfs E of None \<Rightarrow> hosts
      | Some ifs \<Rightarrow>
          fold (\<lambda>i hs.
            if ifFamily i \<noteq> AF_INET then hs
            else if \<not> ifUpBroadcast i then hs
            else (case ifBroad i of None \<Rightarrow> hs
                  | Some b \<Rightarrow> addHostaddr hs (SaInet (portBytes XDM_UDP_PORT) b) 16 BROADCAST_QUERY)) ifs hosts)"

definition addResolved :: "(sockaddr \<times> nat) list \<Rightarrow> hostAddr list \<Rightarrow> hostAddr list" where
  "addResolved = fold (\<lambda>(sa, len) hs.
     case sa of SaInet p a \<Rightarrow> addHostaddr hs sa len (pingType (inMulticast a))
     | SaInet6 p a \<Rightarrow> addHostaddr hs sa len (pingType (in6Multicast a))
     | _ \<Rightarrow> hs)"

definition makeSockAddrs :: "chEnv \<Rightarrow> bytes \<Rightarrow> hostAddr list \<Rightarrow> hostAddr list option" where
  "makeSockAddrs E name hosts = map_option (\<lambda>ai. addResolved ai hosts) (ceResolve E name)"

definition registerForPing :: "chEnv \<Rightarrow> bytes \<Rightarrow> hostAddr list \<Rightarrow> bool \<times> hostAddr list" where
  "registerForPing E name hosts =
     (if name = ascii ''BROADCAST'' \<or> name = ascii ''*'' then (True, registerBroadcastForPing E hosts)
      else case makeSockAddrs E name hosts of None \<Rightarrow> (False, hosts) | Some hs \<Rightarrow> (True, hs))"

definition addChooserHost :: "chEnv \<Rightarrow> hostCall \<Rightarrow> hostAddr list \<Rightarrow> hostAddr list option" where
  "addChooserHost E c hosts =
     (case c of
        CallBroadcast \<Rightarrow> Some (registerBroadcastForPing E hosts)
      | CallHost ct a \<Rightarrow>
          if ct = FamilyBroadcast then Some (registerBroadcastForPing E hosts)
          else if ct = FamilyInternet then
            (if length a < 4 then None
             else Some (addHostaddr hosts (SaInet (portBytes XDM_UDP_PORT) (take 4 a)) 16 (pingType (inMulticast (take 4 a)))))
          else if ct = FamilyInternet6 then
            (if length a < 16 then None
             else Some (addHostaddr hosts (SaInet6 (portBytes XDM_UDP_PORT) (take 16 a)) 28 (pingType (in6Multicast (take 16 a)))))
          else Some hosts)"

fun addChooserHosts :: "chEnv \<Rightarrow> hostCall list \<Rightarrow> hostAddr list \<Rightarrow> hostAddr list option" where
  "addChooserHosts E [] hosts = Some hosts"
| "addChooserHosts E (c # cs) hosts = Option.bind (addChooserHost E c hosts) (addChooserHosts E cs)"

section \<open>Hosts that answered\<close>

text \<open>\<open>hnId\<close> is the address of the record; the greeter knows it by the low half, \<open>hostId\<close>.\<close>

record hostName =
  hnPtr :: int
  hnWilling :: bool
  hnAlive :: bool
  hnName :: bytes
  hnStatus :: bytes
  hnConn :: int
  hnAddr :: bytes

definition hostId :: "int \<Rightarrow> int" where
  "hostId p = sint (word_of_int p :: 32 word)"

text \<open>The messages to the greeter and to the daemon, and the queries that are sent, by the IPv6 socket or not.\<close>

datatype chMsg =
    G_Ch_AddHost int bytes bytes bool
  | G_Ch_ChangeHost int bytes bytes bool
  | G_Ch_RemoveHost int
  | G_Ch_BadHost bytes
  | G_Ch_Exit

datatype chAct = ToGreeter chMsg | ToMaster dmsg | SendPing bool packet sockaddr nat

definition connOfAddr :: "sockaddr \<Rightarrow> int \<times> bytes" where
  "connOfAddr sa = (case sa of SaInet p a \<Rightarrow> (FamilyInternet, a) | SaInet6 p a \<Rightarrow> (FamilyInternet6, a)
     | _ \<Rightarrow> (FamilyLocal, []))"

definition isHost :: "int \<times> bytes \<Rightarrow> hostName \<Rightarrow> bool" where
  "isHost k h \<longleftrightarrow> hnConn h = fst k \<and> hnAddr h = snd k"

text \<open>\<open>ptr\<close> is the new record, if one is needed. The result says whether the texts were kept.\<close>

definition addHostname ::
    "chEnv \<Rightarrow> int \<Rightarrow> bytes \<Rightarrow> bytes \<Rightarrow> sockaddr \<Rightarrow> bool \<Rightarrow> hostName list \<Rightarrow> bool \<times> chMsg list \<times> hostName list" where
  "addHostname E ptr hostname stat sa will hns =
     (let k = connOfAddr sa in
      case find (isHost k) hns of
        Some h \<Rightarrow>
          if stat = hnStatus h then (False, [], hns)
          else (True, [G_Ch_ChangeHost (hostId (hnPtr h)) (hnName h) stat will],
                update_where (\<lambda>g. hnPtr g = hnPtr h) (\<lambda>g. g\<lparr>hnAlive := True, hnWilling := will, hnStatus := stat\<rparr>) hns)
      | None \<Rightarrow>
          let host = (if hostname \<noteq> [] \<and> fst k \<noteq> FamilyLocal then
                        (case ceHostOf E (fst k) (snd k) of None \<Rightarrow> hostname | Some n \<Rightarrow> n) else hostname);
              h = \<lparr>hnPtr = ptr, hnWilling = will, hnAlive = True, hnName = host, hnStatus = stat,
                   hnConn = fst k, hnAddr = snd k\<rparr>
          in (True, [G_Ch_AddHost (hostId ptr) host stat will], hns @ [h]))"


definition receivePacket ::
    "chEnv \<Rightarrow> xread \<Rightarrow> int \<Rightarrow> sockaddr \<Rightarrow> bytes \<Rightarrow> hostName list \<Rightarrow> chMsg list \<times> hostName list" where
  "receivePacket E R ptr sa buf hns =
     (case rHeader R buf of None \<Rightarrow> ([], hns)
      | Some ((ver, op, n), buf) \<Rightarrow>
          if ver \<noteq> XDM_PROTOCOL_VERSION then ([], hns)
          else if op = opcode WILLING then
            (case do { (an, buf) \<leftarrow> rARRAY8 R buf; (hn, buf) \<leftarrow> rARRAY8 R buf; (st, buf) \<leftarrow> rARRAY8 R buf; Some (an, hn, st) } of
               None \<Rightarrow> ([], hns)
             | Some (an, hn, st) \<Rightarrow>
                 if n = int (6 + length an + length hn + length st) then snd (addHostname E ptr hn st sa True hns)
                 else ([], hns))
          else if op = opcode UNWILLING then
            (case do { (hn, buf) \<leftarrow> rARRAY8 R buf; (st, buf) \<leftarrow> rARRAY8 R buf; Some (hn, st) } of
               None \<Rightarrow> ([], hns)
             | Some (hn, st) \<Rightarrow>
                 if n = int (4 + length hn + length st) then snd (addHostname E ptr hn st sa False hns)
                 else ([], hns))
          else ([], hns))"

section \<open>The loop\<close>

record chooser =
  chAddrs :: "hostAddr list"
  chNames :: "hostName list"
  chTry :: nat
  chNext :: "int \<times> int"

definition PING_TRIES :: nat where "PING_TRIES = 3"

definition queryPacket :: "xdmOpCode \<Rightarrow> packet" where
  "queryPacket op = \<lparr>pkOpcode = op, pkLength = 1, pkFields = [FArrayOf []]\<rparr>"

definition doPingHosts :: "hostAddr list \<Rightarrow> chAct list" where
  "doPingHosts = map (\<lambda>h. SendPing (case haAddr h of SaInet6 _ _ \<Rightarrow> True | _ \<Rightarrow> False)
     (queryPacket (if haType h = QUERY then QUERY else BROADCAST_QUERY)) (haAddr h) (haLen h))"

text \<open>From the label \<^verbatim>\<open>pingen\<close>; \<open>t\<close> is the time after the queries are sent.\<close>

definition pingRound :: "int \<times> int \<Rightarrow> chooser \<Rightarrow> chAct list \<times> chooser" where
  "pingRound t c = (doPingHosts (chAddrs c), c\<lparr>chTry := chTry c + 1, chNext := (fst t + 1, snd t)\<rparr>)"

definition reping :: "int \<times> int \<Rightarrow> chooser \<Rightarrow> chAct list \<times> chooser" where
  "reping t c = pingRound t (c\<lparr>chNames := map (\<lambda>h. h\<lparr>hnAlive := False\<rparr>) (chNames c), chTry := 0\<rparr>)"

definition earlier :: "int \<times> int \<Rightarrow> int \<times> int \<Rightarrow> bool" where
  "earlier a b \<longleftrightarrow> fst a < fst b \<or> fst a = fst b \<and> snd a < snd b"

definition removeDead :: "hostName list \<Rightarrow> chMsg list \<times> hostName list" where
  "removeDead hns = (map (\<lambda>h. G_Ch_RemoveHost (hostId (hnPtr h))) (filter (\<lambda>h. \<not> hnAlive h) hns), filter hnAlive hns)"

text \<open>The head of the loop at time \<open>t\<close>: the time to wait comes last, \<open>None\<close> for ever.\<close>

definition timeLeft :: "int \<times> int \<Rightarrow> int \<times> int \<Rightarrow> int \<times> int" where
  "timeLeft n t = (let s = fst n - fst t; u = snd n - snd t in if u < 0 then (s - 1, u + 1000000) else (s, u))"

definition loopHead :: "int \<times> int \<Rightarrow> int \<times> int \<Rightarrow> chooser \<Rightarrow> chAct list \<times> chooser \<times> (int \<times> int) option" where
  "loopHead t t2 c =
     (if chTry c \<le> PING_TRIES then
        if earlier (chNext c) t then
          if chTry c < PING_TRIES then
            (case pingRound t2 c of (acts, c) \<Rightarrow> (acts, c, Some (timeLeft (chNext c) t2)))
          else (case removeDead (chNames c) of (ms, hns) \<Rightarrow> (map ToGreeter ms, c\<lparr>chNames := hns\<rparr>, None))
        else ([], c, Some (timeLeft (chNext c) t))
      else ([], c, None))"

definition chooseHost :: "chEnv \<Rightarrow> display \<Rightarrow> int \<Rightarrow> hostName list \<Rightarrow> (chAct list \<times> int) option" where
  "chooseHost E td hid hns =
     (case find (\<lambda>h. hostId (hnPtr h) = hid) hns of
        None \<Rightarrow> Some ([], EX_NORMAL)
      | Some h \<Rightarrow>
          if isLocal td then
            if hnConn h = FamilyInternet6 then
              Some ([ToMaster (D_RemoteHost (Some (ceNtop E AF_INET6 (hnAddr h))))], EX_REMOTE)
            else if length (hnAddr h) < 4 then None
            else Some ([ToMaster (D_RemoteHost (Some (ceNtop E AF_INET (hnAddr h))))], EX_REMOTE)
          else Some ([ToMaster (D_ChooseHost (clientAddr td) (clientPort td) (connectionType td) (hnAddr h))], EX_NORMAL))"

text \<open>The inner \<open>None\<close>: the name is not known.\<close>

definition directChooseHost :: "chEnv \<Rightarrow> display \<Rightarrow> bytes \<Rightarrow> (chAct list \<times> int) option option" where
  "directChooseHost E td name =
     (case makeSockAddrs E name [] of
        None \<Rightarrow> Some None
      | Some hosts \<Rightarrow>
          if isLocal td then
            Some (Some ([ToGreeter G_Ch_Exit, ToMaster (D_RemoteHost (Some (chars name)))], EX_REMOTE))
          else (case hosts of [] \<Rightarrow> None
                | h # _ \<Rightarrow> Some (Some ([ToGreeter G_Ch_Exit, ToMaster (D_ChooseHost (clientAddr td) (clientPort td)
                    (connectionType td) (take (haLen h) (ceRaw E (haAddr h))))], EX_NORMAL))))"

text \<open>What \<open>ctrlGreeterWait\<close> returns, with the data that follow.\<close>

datatype chCmd = ChNone | ChRefresh | ChRegister bytes | ChDirect bytes | ChReady int | ChOther int

record chIter =
  itCmd :: chCmd
  itPk4 :: "(sockaddr \<times> bytes \<times> int) option"
  itPk6 :: "(sockaddr \<times> bytes \<times> int) option"
  itTime :: "int \<times> int"
  itTime2 :: "int \<times> int"

datatype chNext = Loop chooser | Return int | Exit int

definition readSocket ::
    "chEnv \<Rightarrow> xread \<Rightarrow> (sockaddr \<times> bytes \<times> int) option \<Rightarrow> hostName list \<Rightarrow> chMsg list \<times> hostName list" where
  "readSocket E R pk hns = (case pk of None \<Rightarrow> ([], hns) | Some (sa, buf, ptr) \<Rightarrow> receivePacket E R ptr sa buf hns)"

text \<open>The sockets are read after the greeter's command, unless that starts a new series of queries.\<close>

definition endRound :: "chEnv \<Rightarrow> xread \<Rightarrow> chIter \<Rightarrow> chAct list \<Rightarrow> chooser \<Rightarrow> chAct list \<times> chNext" where
  "endRound E R it acts c =
     (case readSocket E R (itPk4 it) (chNames c) of (m4, h4) \<Rightarrow>
      case readSocket E R (itPk6 it) h4 of (m6, h6) \<Rightarrow>
      case loopHead (itTime it) (itTime2 it) (c\<lparr>chNames := h6\<rparr>) of (acts2, c, w) \<Rightarrow>
        (acts @ map ToGreeter (m4 @ m6) @ acts2, Loop c))"

definition chooseRound :: "chEnv \<Rightarrow> xread \<Rightarrow> display \<Rightarrow> chIter \<Rightarrow> chooser \<Rightarrow> (chAct list \<times> chNext) option" where
  "chooseRound E R td it c =
     (case itCmd it of
        ChNone \<Rightarrow> Some (endRound E R it [] c)
      | ChRefresh \<Rightarrow> Some (apsnd Loop (reping (itTime2 it) c))
      | ChRegister name \<Rightarrow>
          (case registerForPing E name (chAddrs c) of (known, hs) \<Rightarrow>
             case reping (itTime2 it) (c\<lparr>chAddrs := hs\<rparr>) of (acts, c) \<Rightarrow>
               Some ((if known then [] else [ToGreeter (G_Ch_BadHost name)]) @ acts, Loop c))
      | ChDirect name \<Rightarrow>
          (case directChooseHost E td name of
             None \<Rightarrow> None
           | Some (Some (acts, code)) \<Rightarrow> Some (acts, Exit code)
           | Some None \<Rightarrow> Some (endRound E R it [ToGreeter (G_Ch_BadHost name)] c))
      | ChReady hid \<Rightarrow> map_option (apsnd Exit) (chooseHost E td hid (chNames c))
      | ChOther cmd \<Rightarrow> Some ([], Return cmd))"

fun chooseRun :: "chEnv \<Rightarrow> xread \<Rightarrow> display \<Rightarrow> chIter list \<Rightarrow> chooser \<Rightarrow> (chAct list \<times> chNext) option" where
  "chooseRun E R td [] c = Some ([], Loop c)"
| "chooseRun E R td (it # its) c =
     (case chooseRound E R td it c of
        Some (acts, Loop c) \<Rightarrow> map_option (apfst (append acts)) (chooseRun E R td its c)
      | r \<Rightarrow> r)"

text \<open>The beginning: \<open>hosts\<close> are the preset hosts of a local display, \<open>calls\<close> the hosts the access list has for
  the terminal.\<close>

definition startChooser ::
    "chEnv \<Rightarrow> display \<Rightarrow> bytes list \<Rightarrow> hostCall list \<Rightarrow> int \<times> int \<Rightarrow> (chAct list \<times> chooser) option" where
  "startChooser E td hosts calls t =
     (case (if isLocal td then Some (fold (\<lambda>h hs. snd (registerForPing E h hs)) hosts []) else addChooserHosts E calls []) of
        None \<Rightarrow> None
      | Some hs \<Rightarrow> Some (reping t \<lparr>chAddrs = hs, chNames = [], chTry = 0, chNext = (0, 0)\<rparr>))"


section \<open>What the greeter shows\<close>

text \<open>The greeter keeps a line for each host, with its id (\<open>ChooserDlg\<close> in \<^verbatim>\<open>kchooser.cpp\<close>). A change of a host it
  does not know goes through a null pointer.\<close>

type_synonym shown = "(int \<times> bytes \<times> bytes) list"

fun changeShown :: "int \<Rightarrow> bytes \<times> bytes \<Rightarrow> shown \<Rightarrow> shown option" where
  "changeShown i t [] = None"
| "changeShown i t (x # v) = (if fst x = i then Some ((i, t) # v) else map_option ((#) x) (changeShown i t v))"

fun showMsg :: "chMsg \<Rightarrow> shown \<Rightarrow> shown option" where
  "showMsg (G_Ch_AddHost i n s w) v = Some (v @ [(i, cstrOf n, cstrOf s)])"
| "showMsg (G_Ch_ChangeHost i n s w) v = changeShown i (cstrOf n, cstrOf s) v"
| "showMsg (G_Ch_RemoveHost i) v = Some (remove_first (\<lambda>x. fst x = i) v)"
| "showMsg (G_Ch_BadHost n) v = Some v"
| "showMsg G_Ch_Exit v = Some v"

fun showAll :: "chMsg list \<Rightarrow> shown \<Rightarrow> shown option" where
  "showAll [] v = Some v"
| "showAll (m # ms) v = Option.bind (showMsg m v) (showAll ms)"

fun greeterMsg :: "chAct \<Rightarrow> chMsg option" where
  "greeterMsg (ToGreeter m) = Some m" | "greeterMsg (ToMaster m) = None" | "greeterMsg (SendPing v p a l) = None"

definition greeterMsgs :: "chAct list \<Rightarrow> chMsg list" where
  "greeterMsgs = List.map_filter greeterMsg"

definition idOf :: "hostName \<Rightarrow> int" where
  "idOf h = hostId (hnPtr h)"

definition lineOf :: "hostName \<Rightarrow> int \<times> bytes \<times> bytes" where
  "lineOf h = (idOf h, cstrOf (hnName h), cstrOf (hnStatus h))"

definition hostKey :: "hostName \<Rightarrow> int \<times> bytes" where
  "hostKey h = (hnConn h, hnAddr h)"

definition isInet :: "sockaddr \<Rightarrow> bool" where
  "isInet sa \<longleftrightarrow> (case sa of SaInet p a \<Rightarrow> length a = 4 | SaInet6 p a \<Rightarrow> length a = 16 | _ \<Rightarrow> False)"

definition okNames :: "hostName list \<Rightarrow> bool" where
  "okNames hns \<longleftrightarrow> distinct (map idOf hns) \<and> distinct (map hostKey hns)
    \<and> (\<forall>h \<in> set hns. 4 \<le> length (hnAddr h))"

lemma greeterMsgs_simps [simp]:
  "greeterMsgs [] = []"
  "greeterMsgs (a @ b) = greeterMsgs a @ greeterMsgs b"
  "greeterMsgs (map ToGreeter ms) = ms"
  "greeterMsgs [ToGreeter m] = [m]"
  "greeterMsgs (doPingHosts hs) = []"
  by (auto simp: greeterMsgs_def List.map_filter_def doPingHosts_def filter_empty_conv comp_def intro: map_idI)

lemma showAll_append [simp]: "showAll (a @ b) v = Option.bind (showAll a v) (showAll b)"
  by (induction a arbitrary: v) (auto split: option.split bind_splits)

lemma changeShown_update:
  "\<lbrakk>distinct (map fst v); i \<in> set (map fst v)\<rbrakk> \<Longrightarrow>
   changeShown i t v = Some (update_where (\<lambda>x. fst x = i) (\<lambda>x. (i, t)) v)"
proof (induction v)
  case (Cons x v)
  then have "update_where (\<lambda>x. fst x = i) (\<lambda>x. (i, t)) v = v" if "fst x = i"
  proof -
    have "fst y \<noteq> i" if "y \<in> set v" for y using Cons.prems(1) \<open>fst x = i\<close> that by (metis distinct.simps(2) imageI list.map(2) list.set_map)
    then show ?thesis by (auto simp: update_where_def intro!: map_idI)
  qed
  then show ?case using Cons by auto
qed simp

lemma remove_lines:
  "distinct (map fst v) \<Longrightarrow> showAll (map G_Ch_RemoveHost is) v = Some (filter (\<lambda>x. fst x \<notin> set is) v)"
proof (induction "is" arbitrary: v)
  case (Cons i js)
  have "distinct (map fst (remove_first (\<lambda>x. fst x = i) v))" by (rule map_remove_first_distinct[OF Cons.prems])
  from Cons.IH[OF this] show ?case by (simp add: remove_first_distinct[OF Cons.prems] conj_commute)
qed simp

lemma idOf_inj: "\<lbrakk>okNames hns; g \<in> set hns; h \<in> set hns; idOf g = idOf h\<rbrakk> \<Longrightarrow> g = h"
  by (auto simp: okNames_def distinct_map dest: inj_onD)

lemma fst_lines [simp]: "map fst (map lineOf hns) = map idOf hns"
  by (simp add: lineOf_def)

lemma removeDead_ok:
  assumes "okNames hns" "removeDead hns = (ms, hns')"
  shows "okNames hns' \<and> showAll ms (map lineOf hns) = Some (map lineOf hns') \<and> set (map idOf hns') \<subseteq> set (map idOf hns)"
proof -
  have e: "ms = map G_Ch_RemoveHost (map idOf (filter (\<lambda>h. \<not> hnAlive h) hns))" "hns' = filter hnAlive hns"
    using assms(2) by (auto simp: removeDead_def idOf_def)
  have "filter (\<lambda>x. fst x \<notin> idOf ` set (filter (\<lambda>h. \<not> hnAlive h) hns)) (map lineOf hns) = map lineOf (filter hnAlive hns)"
    unfolding filter_map comp_def
  proof (rule arg_cong[of _ _ "map lineOf"], rule filter_cong[OF refl])
    fix h assume "h \<in> set hns"
    then show "(fst (lineOf h) \<notin> idOf ` set (filter (\<lambda>h. \<not> hnAlive h) hns)) = hnAlive h"
      using idOf_inj[OF assms(1)] by (auto simp: lineOf_def)
  qed
  moreover have "distinct (map fst (map lineOf hns))" using assms(1) unfolding fst_lines by (simp add: okNames_def)
  from remove_lines[OF this] have "showAll ms (map lineOf hns) =
      Some (filter (\<lambda>x. fst x \<notin> set (map idOf (filter (\<lambda>h. \<not> hnAlive h) hns))) (map lineOf hns))"
    unfolding e(1) .
  ultimately have "showAll ms (map lineOf hns) = Some (map lineOf hns')" by (simp only: e(2) set_map)
  moreover have "okNames hns'" using assms(1) unfolding e by (auto simp: okNames_def distinct_map_filter)
  ultimately show ?thesis unfolding e by auto
qed

lemma connOfAddr_len: "isInet sa \<Longrightarrow> 4 \<le> length (snd (connOfAddr sa))"
  by (auto simp: isInet_def connOfAddr_def split: sockaddr.splits)

lemma addHostname_ok:
  assumes "okNames hns" "isInet sa" "hostId ptr \<notin> set (map idOf hns)" "addHostname E ptr hn st sa w hns = (b, ms, hns')"
  shows "okNames hns' \<and> showAll ms (map lineOf hns) = Some (map lineOf hns')
    \<and> set (map idOf hns') \<subseteq> insert (hostId ptr) (set (map idOf hns))"
proof (cases "find (isHost (connOfAddr sa)) hns")
  case None
  then have "connOfAddr sa \<notin> set (map hostKey hns)" by (auto simp: find_None_iff isHost_def hostKey_def)
  then show ?thesis using None assms connOfAddr_len[OF assms(2)]
    by (auto simp: addHostname_def Let_def okNames_def lineOf_def idOf_def hostKey_def)
next
  case (Some h)
  then have h: "h \<in> set hns" by (auto simp: find_Some_iff in_set_conv_nth)
  show ?thesis
  proof (cases "st = hnStatus h")
    case True
    then show ?thesis using Some assms by (auto simp: addHostname_def Let_def)
  next
    case False
    let ?g = "\<lambda>g. g\<lparr>hnAlive := True, hnWilling := w, hnStatus := st\<rparr>"
    have e: "ms = [G_Ch_ChangeHost (idOf h) (hnName h) st w]" "hns' = update_where (\<lambda>g. hnPtr g = hnPtr h) ?g hns"
      using Some assms(4) False by (auto simp: addHostname_def Let_def idOf_def)
    have p: "hnPtr g = hnPtr h \<longleftrightarrow> g = h" "idOf g = idOf h \<longleftrightarrow> g = h" if "g \<in> set hns" for g
      using idOf_inj[OF assms(1) that h] by (auto simp: idOf_def)
    have "changeShown (idOf h) (cstrOf (hnName h), cstrOf st) (map lineOf hns) =
        Some (update_where (\<lambda>x. fst x = idOf h) (\<lambda>x. (idOf h, cstrOf (hnName h), cstrOf st)) (map lineOf hns))"
      using assms(1) h by (intro changeShown_update) (simp_all only: fst_lines okNames_def set_map imageI)
    also have "update_where (\<lambda>x. fst x = idOf h) (\<lambda>x. (idOf h, cstrOf (hnName h), cstrOf st)) (map lineOf hns) = map lineOf hns'"
      unfolding e update_where_def using p by (auto simp: lineOf_def idOf_def)
    finally have v: "showAll ms (map lineOf hns) = Some (map lineOf hns')" by (simp add: e)
    have "map idOf hns' = map idOf hns" "map hostKey hns' = map hostKey hns"
      unfolding e by (simp_all add: map_update_where idOf_def hostKey_def)
    moreover have "4 \<le> length (hnAddr g)" if "g \<in> set hns'" for g
      using that assms(1) unfolding e by (auto simp: set_update_where okNames_def)
    ultimately show ?thesis using v assms(1) by (auto simp: okNames_def)
  qed
qed

lemma receivePacket_ok:
  assumes "okNames hns" "isInet sa" "hostId ptr \<notin> set (map idOf hns)" "receivePacket E R ptr sa buf hns = (ms, hns')"
  shows "okNames hns' \<and> showAll ms (map lineOf hns) = Some (map lineOf hns')
    \<and> set (map idOf hns') \<subseteq> insert (hostId ptr) (set (map idOf hns))"
proof -
  have "receivePacket E R ptr sa buf hns = ([], hns)
      \<or> (\<exists>hn st w. receivePacket E R ptr sa buf hns = snd (addHostname E ptr hn st sa w hns))"
    unfolding receivePacket_def by (auto split: option.split prod.split)
  then consider "(ms, hns') = ([], hns)" | hn st w where "(ms, hns') = snd (addHostname E ptr hn st sa w hns)"
    unfolding assms(4) by blast
  then show ?thesis
  proof cases
    case 1
    then show ?thesis using assms(1) by auto
  next
    case 2
    then show ?thesis using addHostname_ok[OF assms(1-3)] by (metis prod.collapse)
  qed
qed


section \<open>Every series of rounds\<close>

text \<open>Packets come from IPv4 or IPv6 addresses, and a new record does not have the id of one in the table.\<close>

definition okIter :: "chIter \<Rightarrow> hostName list \<Rightarrow> bool" where
  "okIter it hns \<longleftrightarrow>
     (let new = \<lambda>(sa, buf, ptr). isInet sa \<and> hostId ptr \<notin> set (map idOf hns) in
      (case itPk4 it of None \<Rightarrow> True | Some p \<Rightarrow> new p) \<and> (case itPk6 it of None \<Rightarrow> True | Some p \<Rightarrow> new p)
      \<and> (case (itPk4 it, itPk6 it) of (Some (_, _, p), Some (_, _, q)) \<Rightarrow> hostId p \<noteq> hostId q | _ \<Rightarrow> True))"

fun okRounds :: "chEnv \<Rightarrow> xread \<Rightarrow> display \<Rightarrow> chIter list \<Rightarrow> chooser \<Rightarrow> bool" where
  "okRounds E R td [] c \<longleftrightarrow> True"
| "okRounds E R td (it # its) c \<longleftrightarrow> okIter it (chNames c) \<and>
     (case chooseRound E R td it c of Some (acts, Loop c) \<Rightarrow> okRounds E R td its c | _ \<Rightarrow> True)"

definition mirrors :: "shown \<Rightarrow> chAct list \<Rightarrow> chooser \<Rightarrow> bool" where
  "mirrors v acts c \<longleftrightarrow> okNames (chNames c) \<and> showAll (greeterMsgs acts) v = Some (map lineOf (chNames c))"

lemma reping_mirrors:
  assumes "okNames (chNames c)" "reping t c = (acts, c')"
  shows "mirrors (map lineOf (chNames c)) acts c' \<and> map idOf (chNames c') = map idOf (chNames c)"
proof -
  have m: "map idOf (map (\<lambda>h. h\<lparr>hnAlive := False\<rparr>) hns) = map idOf hns"
    "map hostKey (map (\<lambda>h. h\<lparr>hnAlive := False\<rparr>) hns) = map hostKey hns"
    "map lineOf (map (\<lambda>h. h\<lparr>hnAlive := False\<rparr>) hns) = map lineOf hns" for hns
    by (simp_all add: idOf_def hostKey_def lineOf_def)
  have c: "acts = doPingHosts (chAddrs c)" "chNames c' = map (\<lambda>h. h\<lparr>hnAlive := False\<rparr>) (chNames c)"
    using assms(2) by (auto simp: reping_def pingRound_def)
  have "okNames (chNames c')" using assms(1) unfolding c okNames_def m by auto
  then show ?thesis unfolding mirrors_def c using m by (simp only: greeterMsgs_simps showAll.simps)
qed

lemma readSocket_ok:
  assumes "okNames hns" "case pk of None \<Rightarrow> True | Some (sa, buf, ptr) \<Rightarrow> isInet sa \<and> hostId ptr \<notin> set (map idOf hns)"
    "readSocket E R pk hns = (ms, hns')"
  shows "okNames hns' \<and> showAll ms (map lineOf hns) = Some (map lineOf hns')
    \<and> set (map idOf hns') \<subseteq> set (map idOf hns) \<union> (case pk of None \<Rightarrow> {} | Some (_, _, p) \<Rightarrow> {hostId p})"
  using assms receivePacket_ok[OF assms(1)] by (cases pk) (fastforce simp: readSocket_def)+

lemma loopHead_ok:
  assumes "okNames (chNames c)" "loopHead t t2 c = (acts, c', w)"
  shows "mirrors (map lineOf (chNames c)) acts c'"
proof (cases "chTry c = PING_TRIES \<and> earlier (chNext c) t")
  case True
  obtain ms hns where r: "removeDead (chNames c) = (ms, hns)" by fastforce
  then have "acts = map ToGreeter ms" "chNames c' = hns" using True assms(2) by (auto simp: loopHead_def)
  then show ?thesis using removeDead_ok[OF assms(1) r] by (simp add: mirrors_def)
next
  case False
  then have "greeterMsgs acts = []" "chNames c' = chNames c"
    using assms(2) by (auto simp: loopHead_def pingRound_def split: if_splits)
  then show ?thesis using assms(1) by (simp add: mirrors_def)
qed

lemma endRound_ok:
  assumes "okNames (chNames c)" "okIter it (chNames c)" "greeterMsgs acts0 = [] \<or> (\<exists>n. greeterMsgs acts0 = [G_Ch_BadHost n])"
    "endRound E R it acts0 c = (acts, r)"
  shows "\<exists>c'. r = Loop c' \<and> mirrors (map lineOf (chNames c)) acts c'"
proof -
  obtain m4 h4 where 4: "readSocket E R (itPk4 it) (chNames c) = (m4, h4)" by fastforce
  obtain m6 h6 where 6: "readSocket E R (itPk6 it) h4 = (m6, h6)" by fastforce
  obtain acts2 c' w where l: "loopHead (itTime it) (itTime2 it) (c\<lparr>chNames := h6\<rparr>) = (acts2, c', w)"
    using prod_cases3 by blast
  have r: "acts = acts0 @ map ToGreeter (m4 @ m6) @ acts2" "r = Loop c'"
    using assms(4) unfolding endRound_def 4 6 l prod.case by simp_all
  have p4: "case itPk4 it of None \<Rightarrow> True | Some (sa, buf, ptr) \<Rightarrow> isInet sa \<and> hostId ptr \<notin> set (map idOf (chNames c))"
    using assms(2) unfolding okIter_def Let_def by simp
  note h4 = readSocket_ok[OF assms(1) p4 4]
  have "case itPk6 it of None \<Rightarrow> True | Some (sa, buf, ptr) \<Rightarrow> isInet sa \<and> hostId ptr \<notin> set (map idOf h4)"
    using assms(2) h4 unfolding okIter_def Let_def by (auto split: option.splits prod.splits)
  from readSocket_ok[OF conjunct1[OF h4] this 6] have h6: "okNames h6" "showAll m6 (map lineOf h4) = Some (map lineOf h6)" by auto
  have "mirrors (map lineOf h6) acts2 c'" using loopHead_ok[OF _ l] h6(1) by simp
  then show ?thesis using r h4 h6(2) assms(3) by (auto simp: mirrors_def)
qed

lemma addHostaddr_some: "addHostaddr g sa l ty \<noteq> []"
  by (auto simp: addHostaddr_def)

lemma addResolved_some: "g \<noteq> [] \<Longrightarrow> addResolved js g \<noteq> []"
  unfolding addResolved_def
proof (induction js arbitrary: g)
  case (Cons x js)
  have "(case x of (sa, len) \<Rightarrow> \<lambda>hs. case sa of SaInet p a \<Rightarrow> addHostaddr hs sa len (pingType (inMulticast a))
      | SaInet6 p a \<Rightarrow> addHostaddr hs sa len (pingType (in6Multicast a)) | _ \<Rightarrow> hs) g \<noteq> []"
    using Cons.prems by (simp add: addHostaddr_some split: prod.split sockaddr.split)
  from Cons.IH[OF this] show ?case by simp
qed simp

lemma addResolved_Cons: "addResolved (x # ai) hs = addResolved ai (addResolved [x] hs)"
  by (simp add: addResolved_def)

lemma inet_resolved: "\<exists>x \<in> set ai. isInet (fst x) \<Longrightarrow> addResolved ai hs \<noteq> []"
proof (induction ai arbitrary: hs)
  case (Cons x ai)
  show ?case
  proof (cases "isInet (fst x)")
    case True
    then have "addResolved [x] hs \<noteq> []"
      by (auto simp: addResolved_def isInet_def addHostaddr_some split: prod.split sockaddr.splits)
    then show ?thesis unfolding addResolved_Cons[of x ai] by (rule addResolved_some)
  next
    case False
    then show ?thesis using Cons unfolding addResolved_Cons[of x ai] by auto
  qed
qed simp

definition okResolve :: "chEnv \<Rightarrow> bool" where
  "okResolve E \<longleftrightarrow> (\<forall>name ai. ceResolve E name = Some ai \<longrightarrow> (\<exists>x \<in> set ai. isInet (fst x)))"

lemma chooseHost_found:
  assumes "okNames hns" "h \<in> set hns"
  shows "chooseHost E td (idOf h) hns = Some (if isLocal td
    then ([ToMaster (D_RemoteHost (Some (ceNtop E (if hnConn h = FamilyInternet6 then AF_INET6 else AF_INET) (hnAddr h))))], EX_REMOTE)
    else ([ToMaster (D_ChooseHost (clientAddr td) (clientPort td) (connectionType td) (hnAddr h))], EX_NORMAL))"
proof -
  have "find (\<lambda>g. hostId (hnPtr g) = idOf h) hns \<noteq> None" using assms(2) by (auto simp: find_None_iff idOf_def)
  then obtain g where f: "find (\<lambda>g. hostId (hnPtr g) = idOf h) hns = Some g" by blast
  then have "g = h" using idOf_inj[OF assms(1) _ assms(2), of g] by (auto simp: find_Some_iff in_set_conv_nth idOf_def)
  moreover have "4 \<le> length (hnAddr h)" using assms by (simp add: okNames_def)
  ultimately show ?thesis using f by (simp add: chooseHost_def)
qed

lemma chooseHost_defined: "okNames hns \<Longrightarrow> chooseHost E td hid hns \<noteq> None"
proof (cases "find (\<lambda>h. hostId (hnPtr h) = hid) hns")
  case None
  then show ?thesis by (simp add: chooseHost_def)
next
  case (Some h)
  assume o: "okNames hns"
  have "h \<in> set hns" "idOf h = hid" using Some by (auto simp: find_Some_iff in_set_conv_nth idOf_def)
  then show ?thesis using chooseHost_found[OF o, of h E td] by simp
qed

lemma chooseRound_ok:
  assumes "okNames (chNames c)" "okIter it (chNames c)" "okResolve E"
  shows "\<exists>acts r. chooseRound E R td it c = Some (acts, r) \<and> (\<forall>c'. r = Loop c' \<longrightarrow> mirrors (map lineOf (chNames c)) acts c')"
proof (cases "itCmd it")
  case ChNone
  obtain acts r where "endRound E R it [] c = (acts, r)" by fastforce
  with endRound_ok[OF assms(1,2) _ this] show ?thesis using ChNone by (fastforce simp: chooseRound_def)
next
  case ChRefresh
  then show ?thesis using reping_mirrors[OF assms(1)] by (auto simp: chooseRound_def apsnd_def map_prod_def split: prod.split)
next
  case (ChRegister n)
  obtain b hs where b: "registerForPing E n (chAddrs c) = (b, hs)" by fastforce
  obtain acts c' where p: "reping (itTime2 it) (c\<lparr>chAddrs := hs\<rparr>) = (acts, c')" by fastforce
  have "okNames (chNames (c\<lparr>chAddrs := hs\<rparr>))" using assms(1) by simp
  from reping_mirrors[OF this p] have m: "mirrors (map lineOf (chNames c)) acts c'" by simp
  show ?thesis using ChRegister b p m by (cases b) (auto simp: chooseRound_def mirrors_def greeterMsgs_def List.map_filter_simps)
next
  case (ChDirect n)
  have "makeSockAddrs E n [] \<noteq> Some []" using inet_resolved assms(3)
    by (fastforce simp: makeSockAddrs_def okResolve_def)
  then have "directChooseHost E td n = Some None \<or> (\<exists>acts code. directChooseHost E td n = Some (Some (acts, code)))"
    by (auto simp: directChooseHost_def split: option.split list.split)
  moreover obtain acts r where r: "endRound E R it [ToGreeter (G_Ch_BadHost n)] c = (acts, r)" by fastforce
  have "\<exists>c'. r = Loop c' \<and> mirrors (map lineOf (chNames c)) acts c'"
    by (rule endRound_ok[OF assms(1,2) _ r]) (simp add: greeterMsgs_def List.map_filter_simps)
  ultimately show ?thesis using ChDirect r by (fastforce simp: chooseRound_def)
next
  case (ChReady hid)
  then show ?thesis using chooseHost_defined[OF assms(1), of E td hid] by (auto simp: chooseRound_def apsnd_def map_prod_def)
qed (auto simp: chooseRound_def)

lemma chooseRun_ok:
  "\<lbrakk>okNames (chNames c); okRounds E R td its c; okResolve E\<rbrakk> \<Longrightarrow>
   \<exists>acts r. chooseRun E R td its c = Some (acts, r) \<and> (\<forall>c'. r = Loop c' \<longrightarrow> mirrors (map lineOf (chNames c)) acts c')"
proof (induction its arbitrary: c)
  case Nil
  then show ?case by (simp add: mirrors_def)
next
  case (Cons it its)
  have o: "okIter it (chNames c)" using Cons.prems(2) by simp
  obtain acts r where r: "chooseRound E R td it c = Some (acts, r)"
    "\<forall>c'. r = Loop c' \<longrightarrow> mirrors (map lineOf (chNames c)) acts c'" using chooseRound_ok[OF Cons.prems(1) o Cons.prems(3)] by blast
  show ?case
  proof (cases r)
    case (Loop c1)
    then have m: "mirrors (map lineOf (chNames c)) acts c1" and k: "okRounds E R td its c1" using r Cons.prems(2) by auto
    then have n: "okNames (chNames c1)" by (simp add: mirrors_def)
    from Cons.IH[OF n k Cons.prems(3)] obtain acts2 r2 where "chooseRun E R td its c1 = Some (acts2, r2)"
      "\<forall>c'. r2 = Loop c' \<longrightarrow> mirrors (map lineOf (chNames c1)) acts2 c'" by blast
    then show ?thesis using r(1) Loop m by (auto simp: mirrors_def)
  qed (use r in auto)
qed

text \<open>C20. Whatever the terminals' hosts answer and the user types, the lines the greeter shows are the table of the
  hosts, each address once, and picking a line sends the address of that host to the daemon.\<close>

theorem chooser_shows_hosts:
  assumes "okResolve E" "startChooser E td hosts calls t = Some (acts0, c0)" "okRounds E R td its c0"
  shows "\<exists>acts r. chooseRun E R td its c0 = Some (acts, r) \<and> (\<forall>c. r = Loop c \<longrightarrow>
     showAll (greeterMsgs (acts0 @ acts)) [] = Some (map lineOf (chNames c)) \<and> distinct (map hostKey (chNames c))
     \<and> (\<forall>h \<in> set (chNames c). chooseHost E td (fst (lineOf h)) (chNames c) = Some (if isLocal td
          then ([ToMaster (D_RemoteHost (Some (ceNtop E (if hnConn h = FamilyInternet6 then AF_INET6 else AF_INET) (hnAddr h))))], EX_REMOTE)
          else ([ToMaster (D_ChooseHost (clientAddr td) (clientPort td) (connectionType td) (hnAddr h))], EX_NORMAL))))"
proof -
  obtain hs where "reping t \<lparr>chAddrs = hs, chNames = [], chTry = 0, chNext = (0, 0)\<rparr> = (acts0, c0)"
    using assms(2) by (auto simp: startChooser_def split: option.splits)
  from reping_mirrors[OF _ this] have "mirrors [] acts0 c0" "map idOf (chNames c0) = []" by (simp_all add: okNames_def)
  then have "chNames c0 = []" "okNames (chNames c0)" "showAll (greeterMsgs acts0) [] = Some []" by (auto simp: mirrors_def)
  with chooseRun_ok[OF _ assms(3,1)] show ?thesis
    using chooseHost_found by (fastforce simp: mirrors_def okNames_def lineOf_def)
qed


text \<open>A host answers, then answers again with another status.\<close>

definition demoChEnv :: chEnv where
  "demoChEnv = \<lparr>ceResolve = (\<lambda>_. Some [(SaInet [0, 177] [10, 0, 0, 1], 16)]), ceHostOf = (\<lambda>_ _. None), ceIfs = None,
     ceRaw = (\<lambda>sa. case sa of SaInet p a \<Rightarrow> [2, 0] @ p @ a @ replicate 8 0 | _ \<Rightarrow> []), ceNtop = (\<lambda>_ _. ''10.0.0.1'')\<rparr>"

definition demoXread :: xread where
  "demoXread = \<lparr>rHeader = (\<lambda>b. case b of x # y # r \<Rightarrow> Some ((1, uint x, uint y), r) | _ \<Rightarrow> None), rCARD16 = (\<lambda>_. None),
     rCARD32 = (\<lambda>_. None), rARRAY8 = (\<lambda>b. case b of n # r \<Rightarrow> Some (take (unat n) r, drop (unat n) r) | _ \<Rightarrow> None),
     rARRAY16 = (\<lambda>_. None), rARRAYofARRAY8 = (\<lambda>_. None)\<rparr>"

definition demoTerminal :: display where
  "demoTerminal = (emptyDisplay 0 ''x:0'')\<lparr>displayType := 2, clientAddr := [10, 0, 0, 9], clientPort := [0, 1], connectionType := 0\<rparr>"

definition answerFrom :: "bytes \<Rightarrow> bytes \<Rightarrow> int \<Rightarrow> int \<Rightarrow> chIter" where
  "answerFrom a st p t = \<lparr>itCmd = ChNone, itPk4 = Some (SaInet [0, 177] a, [5, 7 + word_of_nat (length st), 0, 1, 65, word_of_nat (length st)] @ st, p),
     itPk6 = None, itTime = (t, 0), itTime2 = (t, 0)\<rparr>"

definition quietAt :: "chCmd \<Rightarrow> int \<Rightarrow> chIter" where
  "quietAt cmd t = \<lparr>itCmd = cmd, itPk4 = None, itPk6 = None, itTime = (t, 0), itTime2 = (t, 0)\<rparr>"

theorem chooser_shows_hosts_witness:
  "\<exists>acts0 c0 acts c. startChooser demoChEnv demoTerminal [] [CallHost 0 [10, 0, 0, 1]] (0, 0) = Some (acts0, c0)
    \<and> chooseRun demoChEnv demoXread demoTerminal [answerFrom [10, 0, 0, 1] [66] 8 1, answerFrom [10, 0, 0, 1] [67] 16 1] c0 = Some (acts, Loop c)
    \<and> showAll (greeterMsgs (acts0 @ acts)) [] = Some [(8, [65], [67])]
    \<and> chooseHost demoChEnv demoTerminal 8 (chNames c) =
        Some ([ToMaster (D_ChooseHost [10, 0, 0, 9] [0, 1] 0 [10, 0, 0, 1])], EX_NORMAL)"
proof -
  let ?its = "[answerFrom [10, 0, 0, 1] [66] 8 1, answerFrom [10, 0, 0, 1] [67] 16 1]"
  let ?s = "startChooser demoChEnv demoTerminal [] [CallHost 0 [10, 0, 0, 1]] (0, 0)"
  have e: "okResolve demoChEnv" by (simp add: okResolve_def demoChEnv_def isInet_def)
  have "map_option (\<lambda>(a, c). (chNames c, okRounds demoChEnv demoXread demoTerminal ?its c)) ?s = Some ([], True)" by code_simp
  then obtain acts0 c0 where s: "?s = Some (acts0, c0)" "okRounds demoChEnv demoXread demoTerminal ?its c0" by auto
  have "Option.bind ?s (\<lambda>(a, c). map_option (\<lambda>(b, r). case r of Loop c \<Rightarrow> map (\<lambda>h. (lineOf h, hnAddr h)) (chNames c) | _ \<Rightarrow> [])
      (chooseRun demoChEnv demoXread demoTerminal ?its c)) = Some [((8, [65], [67]), [10, 0, 0, 1])]" by code_simp
  then obtain acts n where n: "chooseRun demoChEnv demoXread demoTerminal ?its c0 = Some (acts, n)"
    "(case n of Loop c \<Rightarrow> map (\<lambda>h. (lineOf h, hnAddr h)) (chNames c) | _ \<Rightarrow> []) = [((8, [65], [67]), [10, 0, 0, 1])]"
    using s(1) by (auto simp del: chooseRun.simps)
  then obtain c where r: "chooseRun demoChEnv demoXread demoTerminal ?its c0 = Some (acts, Loop c)"
    "map (\<lambda>h. (lineOf h, hnAddr h)) (chNames c) = [((8, [65], [67]), [10, 0, 0, 1])]"
    by (cases n) (simp_all del: chooseRun.simps)
  then obtain h where h: "chNames c = [h]" "lineOf h = (8, [65], [67])" "hnAddr h = [10, 0, 0, 1]" by auto
  have "\<not> isLocal demoTerminal \<and> clientAddr demoTerminal = [10, 0, 0, 9] \<and> clientPort demoTerminal = [0, 1]
    \<and> connectionType demoTerminal = 0" by (simp add: demoTerminal_def isLocal_def)
  then show ?thesis using chooser_shows_hosts[OF e s] s(1) r(1) h by auto
qed

section \<open>Deviations\<close>

text \<open>A host that answers with the status it had is not marked as alive: after a refresh it is taken off the list.\<close>

lemma answering_host_removed:
  "map_option (\<lambda>(acts, r). (greeterMsgs acts, case r of Loop c \<Rightarrow> chNames c | _ \<Rightarrow> []))
     (chooseRun demoChEnv demoXread demoTerminal
       [answerFrom [10, 0, 0, 1] [66] 8 0, quietAt ChRefresh 10, answerFrom [10, 0, 0, 1] [66] 16 10,
        quietAt ChNone 12, answerFrom [10, 0, 0, 1] [66] 16 12, quietAt ChNone 14, quietAt ChNone 16]
       \<lparr>chAddrs = [], chNames = [], chTry = 1, chNext = (1, 0)\<rparr>)
   = Some ([G_Ch_AddHost 8 [65] [66] True, G_Ch_RemoveHost 8], [])"
  by code_simp

text \<open>A host typed in at a terminal is sent as a whole socket address, which no forwarder takes for an address of IPv4.\<close>

lemma typed_host_not_forwarded:
  assumes "\<not> isLocal td" "ceResolve E name = Some [(SaInet p a, 16)]" "length p = 2" "length a = 4"
    "ceRaw E (SaInet p a) = [2, 0] @ p @ a @ replicate 8 0"
  shows "\<exists>ha. directChooseHost E td name = Some (Some ([ToGreeter G_Ch_Exit,
      ToMaster (D_ChooseHost (clientAddr td) (clientPort td) (connectionType td) ha)], EX_NORMAL))
    \<and> sendForward pk port (CallHost FamilyInternet ha) = []"
  using assms by (simp add: directChooseHost_def makeSockAddrs_def addResolved_def addHostaddr_def sendForward_def)

text \<open>A name without an address of the two families is looked up in an empty list.\<close>

lemma typed_host_without_address:
  "\<lbrakk>\<not> isLocal td; ceResolve E name = Some []\<rbrakk> \<Longrightarrow> directChooseHost E td name = None"
  by (simp add: directChooseHost_def makeSockAddrs_def addResolved_def)

lemma multicast_by_last_byte: "inMulticast [192, 168, 0, 224] \<and> \<not> inMulticast [224, 0, 0, 1]"
  by (simp add: inMulticast_def)

lemma ids_collide: "hostId (p + 2 ^ 32) = hostId p"
proof -
  have "(word_of_int (p + 2 ^ 32) :: 32 word) = word_of_int p"
    by (simp only: word_of_int_eq_iff) (simp add: take_bit_eq_mod)
  then show ?thesis unfolding hostId_def by (rule arg_cong)
qed

end
