(* ===== verification/Listen.thy ===== *)
theory Listen
  imports Xdmcp
begin

text \<open>
  The sockets the daemon listens on for XDMCP, \<^verbatim>\<open>kdm/backend/socket.c\<close>: opened and closed to match the LISTEN
  lines of the access list. The kernel's answer to \<^verbatim>\<open>socket\<close> and \<^verbatim>\<open>bind\<close> depends on what was done before; the
  trace records it. A socket a variable points to is named by its descriptor. \<open>None\<close> is a read behind an allocated
  address; memory suffices.
\<close>

section \<open>State\<close>

record mcGroup =
  gpAddr :: sockaddr
  gpRef :: bool

record socklist =
  skGroups :: "mcGroup list"
  skAddr :: sockaddr
  skFd :: int
  skRef :: bool

record listenState =
  listensocks :: "socklist list"
  currentRequestPort :: int

datatype lact = LOpen sockaddr int | LRefused sockaddr | LClose int | LJoin int bytes | LLeave int bytes

type_synonym lsys = "lact list \<Rightarrow> sockaddr \<Rightarrow> int option"

text \<open>The descriptors that are open, each with the address it is bound to.\<close>

definition lstep :: "lact \<Rightarrow> (int \<times> sockaddr) list \<Rightarrow> (int \<times> sockaddr) list" where
  "lstep a os = (case a of LOpen sa fd \<Rightarrow> (fd, sa) # os | LClose fd \<Rightarrow> filter (\<lambda>x. fst x \<noteq> fd) os | _ \<Rightarrow> os)"

definition openSocks :: "lact list \<Rightarrow> (int \<times> sockaddr) list" where
  "openSocks tr = fold lstep tr []"

section \<open>Operations\<close>

definition createListeningSocket :: "lsys \<Rightarrow> int \<Rightarrow> sockaddr \<Rightarrow> lact list \<Rightarrow> int \<times> lact list" where
  "createListeningSocket sys rp sa tr =
     (if rp = 0 then (-1, tr)
      else case sys tr sa of None \<Rightarrow> (-1, tr @ [LRefused sa]) | Some fd \<Rightarrow> (fd, tr @ [LOpen sa fd]))"

definition destroyListeningSocket :: "socklist \<Rightarrow> lact list \<Rightarrow> lact list" where
  "destroyListeningSocket s tr = (if 0 \<le> skFd s then tr @ [LClose (skFd s)] else tr)"

definition hasAddr :: "bytes \<Rightarrow> sockaddr \<Rightarrow> bool" where
  "hasAddr a sa = (case sa of SaInet p b \<Rightarrow> length a = 4 \<and> a = b | SaInet6 p b \<Rightarrow> length a = 16 \<and> a = b | _ \<Rightarrow> False)"

definition createSocklistEntry :: "int \<Rightarrow> bytes \<Rightarrow> sockaddr option" where
  "createSocklistEntry rp a =
     (if length a = 4 then Some (SaInet (portBytes rp) a)
      else if length a = 16 then Some (SaInet6 (portBytes rp) a) else None)"

definition listenOn :: "lsys \<Rightarrow> int \<Rightarrow> bytes \<Rightarrow> listenState \<times> lact list \<Rightarrow> int option \<times> listenState \<times> lact list" where
  "listenOn sys rp a = (\<lambda>(ls, tr).
     case (if currentRequestPort ls = rp then find (\<lambda>s. hasAddr a (skAddr s)) (listensocks ls) else None) of
       Some s \<Rightarrow> (Some (skFd s), ls\<lparr>listensocks := update_where (\<lambda>t. skFd t = skFd s) (\<lambda>t. t\<lparr>skRef := True\<rparr>) (listensocks ls)\<rparr>, tr)
     | None \<Rightarrow>
         (case createSocklistEntry rp a of None \<Rightarrow> (None, ls, tr)
          | Some sa \<Rightarrow>
              (case createListeningSocket sys rp sa tr of (fd, tr) \<Rightarrow>
                 if fd < 0 then (None, ls, tr)
                 else (Some fd, ls\<lparr>listensocks := \<lparr>skGroups = [], skAddr = sa, skFd = fd, skRef = True\<rparr> # listensocks ls\<rparr>, tr))))"

definition anyV4 :: bytes where "anyV4 = replicate 4 0"
definition anyV6 :: bytes where "anyV6 = replicate 16 0"

definition updateListener ::
    "lsys \<Rightarrow> int \<Rightarrow> bytes option \<Rightarrow> listenState \<times> lact list \<Rightarrow> int option \<times> listenState \<times> lact list" where
  "updateListener sys rp a st =
     (case a of Some a \<Rightarrow> listenOn sys rp a st
      | None \<Rightarrow>
          (case listenOn sys rp anyV6 st of
             (Some fd, st) \<Rightarrow> (Some fd, st)
           | (None, st) \<Rightarrow> listenOn sys rp anyV4 st))"

text \<open>The group's address is read as one of the socket's family: of an IPv6 group on an IPv4 socket that is the flow
  label, of an IPv4 group on an IPv6 socket the bytes behind it.\<close>

definition mcastOf :: "sockaddr \<Rightarrow> sockaddr \<Rightarrow> bytes option" where
  "mcastOf s g =
     (case (s, g) of
        (SaInet _ _, SaInet _ a) \<Rightarrow> Some a
      | (SaInet _ _, SaInet6 _ _) \<Rightarrow> Some (replicate 4 0)
      | (SaInet6 _ _, SaInet6 _ a) \<Rightarrow> Some a
      | (SaInet6 _ _, SaInet _ _) \<Rightarrow> None
      | _ \<Rightarrow> Some [])"

definition changeMcastMembership :: "socklist \<Rightarrow> sockaddr \<Rightarrow> bool \<Rightarrow> lact list \<Rightarrow> lact list option" where
  "changeMcastMembership s g join tr =
     map_option (\<lambda>m. tr @ [if join then LJoin (skFd s) m else LLeave (skFd s) m]) (mcastOf (skAddr s) g)"

definition updateMcastGroup ::
    "int \<Rightarrow> bytes \<Rightarrow> int option \<Rightarrow> listenState \<times> lact list \<Rightarrow> (listenState \<times> lact list) option" where
  "updateMcastGroup rp a closure = (\<lambda>(ls, tr).
     case Option.bind closure (\<lambda>fd. find (\<lambda>s. skFd s = fd) (listensocks ls)) of
       None \<Rightarrow> Some (ls, tr)
     | Some s \<Rightarrow>
         if \<exists>g \<in> set (skGroups s). hasAddr a (gpAddr g) then
           Some (ls\<lparr>listensocks := update_where (\<lambda>t. skFd t = skFd s)
             (\<lambda>t. t\<lparr>skGroups := update_where (\<lambda>g. hasAddr a (gpAddr g)) (\<lambda>g. g\<lparr>gpRef := True\<rparr>) (skGroups t)\<rparr>) (listensocks ls)\<rparr>, tr)
         else (case createSocklistEntry rp a of None \<Rightarrow> Some (ls, tr)
               | Some g \<Rightarrow> map_option (\<lambda>tr. (ls, tr)) (changeMcastMembership s g True tr)))"

text \<open>The calls that \<open>forEachListenAddr\<close> makes.\<close>

fun listenAll ::
    "lsys \<Rightarrow> int \<Rightarrow> listenCall list \<Rightarrow> int option \<Rightarrow> listenState \<times> lact list \<Rightarrow> (listenState \<times> lact list) option" where
  "listenAll sys rp [] closure st = Some st"
| "listenAll sys rp (CallListen a # cs) closure st =
     (case updateListener sys rp a st of (closure, st) \<Rightarrow> listenAll sys rp cs closure st)"
| "listenAll sys rp (CallMcast a # cs) closure st =
     Option.bind (updateMcastGroup rp a closure st) (listenAll sys rp cs closure)"

fun leaveGroups :: "socklist \<Rightarrow> mcGroup list \<Rightarrow> lact list \<Rightarrow> (mcGroup list \<times> lact list) option" where
  "leaveGroups s [] tr = Some ([], tr)"
| "leaveGroups s (g # gs) tr =
     (if gpRef g then map_option (apfst ((#) g)) (leaveGroups s gs tr)
      else Option.bind (changeMcastMembership s (gpAddr g) False tr) (leaveGroups s gs))"

fun closeUnused :: "socklist list \<Rightarrow> lact list \<Rightarrow> (socklist list \<times> lact list) option" where
  "closeUnused [] tr = Some ([], tr)"
| "closeUnused (s # ss) tr =
     (if \<not> skRef s then closeUnused ss (destroyListeningSocket s tr)
      else do {
        (gs, tr) \<leftarrow> leaveGroups s (skGroups s) tr;
        (ss, tr) \<leftarrow> closeUnused ss tr;
        Some (s\<lparr>skGroups := gs\<rparr> # ss, tr) })"

definition unmark :: "socklist \<Rightarrow> socklist" where
  "unmark s = s\<lparr>skRef := False, skGroups := map (\<lambda>g. g\<lparr>gpRef := False\<rparr>) (skGroups s)\<rparr>"

definition updateListenSockets ::
    "lsys \<Rightarrow> int \<Rightarrow> listenCall list \<Rightarrow> listenState \<times> lact list \<Rightarrow> (listenState \<times> lact list) option" where
  "updateListenSockets sys rp calls = (\<lambda>(ls, tr). do {
     (ls, tr) \<leftarrow> listenAll sys rp calls None (ls\<lparr>listensocks := map unmark (listensocks ls)\<rparr>, tr);
     (ss, tr) \<leftarrow> closeUnused (listensocks ls) tr;
     Some (\<lparr>listensocks = ss, currentRequestPort = rp\<rparr>, tr) })"

definition anyListenSockets :: "listenState \<Rightarrow> bool" where
  "anyListenSockets ls \<longleftrightarrow> listensocks ls \<noteq> []"

text \<open>The sockets a datagram is read from, of those that are ready.\<close>

definition processListenSockets :: "int set \<Rightarrow> listenState \<Rightarrow> int list \<times> bool" where
  "processListenSockets reads ls =
     (let fds = filter (\<lambda>fd. fd \<in> reads) (map skFd (listensocks ls)) in (fds, fds \<noteq> []))"

section \<open>Invariant\<close>

text \<open>The kernel gives descriptors that are not in use, and refuses an address that is bound.\<close>

definition okSys :: "lsys \<Rightarrow> bool" where
  "okSys sys \<longleftrightarrow> (\<forall>tr sa fd. sys tr sa = Some fd \<longrightarrow>
     0 \<le> fd \<and> fd \<notin> set (map fst (openSocks tr)) \<and> sa \<notin> set (map snd (openSocks tr)))"

definition sockOf :: "socklist \<Rightarrow> int \<times> sockaddr" where
  "sockOf s = (skFd s, skAddr s)"

text \<open>The list has exactly the open sockets.\<close>

definition okListen :: "listenState \<times> lact list \<Rightarrow> bool" where
  "okListen = (\<lambda>(ls, tr). set (map sockOf (listensocks ls)) = set (openSocks tr)
     \<and> distinct (map skFd (listensocks ls)) \<and> distinct (map skAddr (listensocks ls))
     \<and> (\<forall>s \<in> set (listensocks ls). 0 \<le> skFd s \<and> skGroups s = []))"

text \<open>The addresses the calls ask for.\<close>

definition asked :: "int \<Rightarrow> listenCall list \<Rightarrow> sockaddr set" where
  "asked rp cs = {sa. \<exists>a. createSocklistEntry rp a = Some sa
     \<and> (CallListen (Some a) \<in> set cs \<or> CallListen None \<in> set cs \<and> (a = anyV6 \<or> a = anyV4))}"

text \<open>An IPv4 group comes only with IPv4 sockets.\<close>

definition okMcast :: "listenCall list \<Rightarrow> bool" where
  "okMcast cs \<longleftrightarrow> (\<forall>m. CallMcast m \<in> set cs \<longrightarrow> length m \<noteq> 4)
     \<or> (\<forall>a. CallListen a \<in> set cs \<longrightarrow> (\<exists>b. a = Some b \<and> length b \<noteq> 16))"


section \<open>An update\<close>

definition socksOf :: "listenState \<Rightarrow> (int \<times> sockaddr) set" where
  "socksOf ls = set (map sockOf (listensocks ls))"

definition marked :: "listenState \<Rightarrow> (int \<times> sockaddr) set" where
  "marked ls = set (map sockOf (filter skRef (listensocks ls)))"

definition portsOf :: "int \<Rightarrow> listenState \<Rightarrow> bool" where
  "portsOf rp ls \<longleftrightarrow> (\<forall>s \<in> set (listensocks ls). \<exists>a. createSocklistEntry rp a = Some (skAddr s))"

definition onlyOpens :: "lact list \<Rightarrow> bool" where
  "onlyOpens new \<longleftrightarrow> (\<forall>fd. LClose fd \<notin> set new)"

definition entriesOf :: "int \<Rightarrow> bytes set \<Rightarrow> (int \<times> sockaddr) set" where
  "entriesOf rp as = {x. \<exists>a \<in> as. createSocklistEntry rp a = Some (snd x)}"

lemma entriesOf_Un: "entriesOf rp (as \<union> bs) = entriesOf rp as \<union> entriesOf rp bs"
  by (auto simp: entriesOf_def)

text \<open>What holds between two states while the lines are gone through, with the steps in between.\<close>

definition grows :: "int \<Rightarrow> bytes set \<Rightarrow> listenState \<times> lact list \<Rightarrow> listenState \<times> lact list \<Rightarrow> lact list \<Rightarrow> bool" where
  "grows rp as = (\<lambda>(ls, tr) (ls', tr') new. tr' = tr @ new \<and> onlyOpens new \<and> okListen (ls', tr')
     \<and> currentRequestPort ls' = currentRequestPort ls \<and> (currentRequestPort ls = rp \<longrightarrow> portsOf rp ls')
     \<and> socksOf ls \<subseteq> socksOf ls' \<and> marked ls \<subseteq> marked ls'
     \<and> marked ls' \<subseteq> marked ls \<union> entriesOf rp as
     \<and> (currentRequestPort ls = rp \<longrightarrow> (\<forall>sa. LRefused sa \<in> set new \<longrightarrow> sa \<notin> snd ` socksOf ls)))"

lemma openSocks_snoc: "openSocks (tr @ [a]) = lstep a (openSocks tr)"
  by (simp add: openSocks_def)

lemma entry_hasAddr: "\<lbrakk>createSocklistEntry rp b = Some sa; hasAddr a sa\<rbrakk> \<Longrightarrow> createSocklistEntry rp a = Some sa"
  by (auto simp: createSocklistEntry_def hasAddr_def split: if_splits sockaddr.splits)

lemma hasAddr_entry: "createSocklistEntry rp a = Some sa \<Longrightarrow> hasAddr a sa"
  by (auto simp: createSocklistEntry_def hasAddr_def split: if_splits)

lemma grows_refl: "\<lbrakk>okListen (ls, tr); currentRequestPort ls = rp \<longrightarrow> portsOf rp ls\<rbrakk> \<Longrightarrow> grows rp as (ls, tr) (ls, tr) []"
  by (simp add: grows_def onlyOpens_def)

lemma growsD:
  assumes "grows rp as (ls, tr) (ls', tr') n"
  shows "okListen (ls', tr')" "currentRequestPort ls' = currentRequestPort ls" "currentRequestPort ls = rp \<longrightarrow> portsOf rp ls'"
    "marked ls \<subseteq> marked ls'" "socksOf ls \<subseteq> socksOf ls'" "tr' = tr @ n"
    "currentRequestPort ls = rp \<longrightarrow> (\<forall>sa. LRefused sa \<in> set n \<longrightarrow> sa \<notin> snd ` socksOf ls)"
    "marked ls' \<subseteq> marked ls \<union> entriesOf rp as" "onlyOpens n"
  using assms unfolding grows_def prod.case by auto

lemma grows_trans:
  assumes "grows rp as x y n" "grows rp bs y z m" shows "grows rp (as \<union> bs) x z (n @ m)"
proof -
  obtain l0 t0 l1 t1 l2 t2 where x: "x = (l0, t0)" "y = (l1, t1)" "z = (l2, t2)" by (cases x; cases y; cases z)
  note g = growsD[OF assms(1)[unfolded x]] and h = growsD[OF assms(2)[unfolded x]]
  have 1: "marked l2 \<subseteq> marked l0 \<union> entriesOf rp (as \<union> bs)" using g(8) h(8) unfolding entriesOf_Un by blast
  have 2: "currentRequestPort l0 = rp \<longrightarrow> (\<forall>sa. LRefused sa \<in> set (n @ m) \<longrightarrow> sa \<notin> snd ` socksOf l0)"
  proof (intro impI allI)
    fix sa assume c: "currentRequestPort l0 = rp" "LRefused sa \<in> set (n @ m)"
    then have "sa \<notin> snd ` socksOf l0 \<or> sa \<notin> snd ` socksOf l1" using g(2,7) h(7) by auto
    then show "sa \<notin> snd ` socksOf l0" using g(5) by blast
  qed
  have 3: "onlyOpens (n @ m)" using g(9) h(9) by (simp add: onlyOpens_def)
  have 4: "marked l0 \<subseteq> marked l2" "socksOf l0 \<subseteq> socksOf l2" using g(4,5) h(4,5) by blast+
  show ?thesis unfolding x grows_def prod.case using 1 2 3 4 g(2,6) h(1,2,3,6) by simp
qed

lemma grows_mono: "\<lbrakk>grows rp as x y n; as \<subseteq> bs\<rbrakk> \<Longrightarrow> grows rp bs x y n"
proof -
  assume a: "grows rp as x y n" "as \<subseteq> bs"
  then have "entriesOf rp as \<subseteq> entriesOf rp bs" by (auto simp: entriesOf_def)
  then show ?thesis using a(1) by (cases x; cases y) (auto simp: grows_def)
qed

lemma listenOn_ok:
  assumes "okSys sys" "okListen (ls, tr)" "currentRequestPort ls = rp \<longrightarrow> portsOf rp ls"
    "listenOn sys rp a (ls, tr) = (cl, ls', tr')"
  shows "\<exists>new. grows rp {a} (ls, tr) (ls', tr') new
    \<and> (\<forall>fd. cl = Some fd \<longrightarrow> (\<exists>sa. createSocklistEntry rp a = Some sa \<and> (fd, sa) \<in> marked ls'))
    \<and> (cl = None \<longrightarrow> rp = 0 \<or> (\<forall>sa. createSocklistEntry rp a = Some sa \<longrightarrow> LRefused sa \<in> set new))"
proof (cases "if currentRequestPort ls = rp then find (\<lambda>s. hasAddr a (skAddr s)) (listensocks ls) else None")
  case (Some s)
  then have p: "currentRequestPort ls = rp" and f: "find (\<lambda>s. hasAddr a (skAddr s)) (listensocks ls) = Some s"
    by (auto split: if_splits)
  from f have s: "s \<in> set (listensocks ls)" "hasAddr a (skAddr s)" by (auto simp: find_Some_iff in_set_conv_nth)
  have e: "createSocklistEntry rp a = Some (skAddr s)" 
  proof -
    obtain b where "createSocklistEntry rp b = Some (skAddr s)" using assms(3) p s(1) unfolding portsOf_def by blast
    then show ?thesis using s(2) by (rule entry_hasAddr)
  qed
  let ?ss = "update_where (\<lambda>t. skFd t = skFd s) (\<lambda>t. t\<lparr>skRef := True\<rparr>) (listensocks ls)"
  have r: "cl = Some (skFd s)" "ls' = ls\<lparr>listensocks := ?ss\<rparr>" "tr' = tr" using assms(4) p f by (auto simp: listenOn_def)
  have m: "map sockOf ?ss = map sockOf (listensocks ls)" "map skFd ?ss = map skFd (listensocks ls)"
    "map skAddr ?ss = map skAddr (listensocks ls)" by (simp_all add: map_update_where sockOf_def)
  have d: "sockOf t = sockOf s" if "t \<in> set (listensocks ls)" "skFd t = skFd s" for t
    using assms(2) that s(1) by (auto simp: okListen_def distinct_map dest: inj_onD)
  have ss: "\<And>t. t \<in> set ?ss \<longleftrightarrow> (\<exists>u \<in> set (listensocks ls). t = (if skFd u = skFd s then u\<lparr>skRef := True\<rparr> else u))"
    by (auto simp: update_where_def)
  have mk: "marked ls' = insert (sockOf s) (marked ls)"
  proof
    show "marked ls' \<subseteq> insert (sockOf s) (marked ls)"
    proof
      fix x assume "x \<in> marked ls'"
      then obtain t where t: "t \<in> set ?ss" "skRef t" "x = sockOf t" by (auto simp: marked_def r)
      then obtain u where u: "u \<in> set (listensocks ls)" "t = (if skFd u = skFd s then u\<lparr>skRef := True\<rparr> else u)" using ss by blast
      show "x \<in> insert (sockOf s) (marked ls)"
      proof (cases "skFd u = skFd s")
        case True
        then have "x = sockOf s" using d[OF u(1)] t(3) u(2) by (simp add: sockOf_def)
        then show ?thesis by simp
      next
        case False
        then show ?thesis using t u by (simp add: marked_def)
      qed
    qed
    have up: "sockOf u \<in> marked ls'" if "u \<in> set (listensocks ls)" "skRef u \<or> u = s" for u
    proof -
      let ?t = "if skFd u = skFd s then u\<lparr>skRef := True\<rparr> else u"
      have "?t \<in> set ?ss" using ss that(1) by blast
      moreover have "skRef ?t" "sockOf ?t = sockOf u" using that(2) by (auto simp: sockOf_def)
      ultimately show ?thesis unfolding marked_def r by (force simp: image_iff)
    qed
    then show "insert (sockOf s) (marked ls) \<subseteq> marked ls'" using s(1) by (auto simp: marked_def)
  qed
  have "\<forall>t \<in> set ?ss. 0 \<le> skFd t \<and> skGroups t = []" using assms(2) s(1) unfolding okListen_def by (auto simp: ss)
  then have ok: "okListen (ls', tr')" using assms(2) unfolding r okListen_def by (simp add: m del: set_map)
  have po: "portsOf rp ls'" using assms(3) p unfolding r portsOf_def by (auto simp: ss)
  have "socksOf ls' = socksOf ls" unfolding socksOf_def r using m by simp
  then have "grows rp {a} (ls, tr) (ls', tr') []" using ok po mk e r by (auto simp: grows_def onlyOpens_def sockOf_def entriesOf_def)
  then show ?thesis using r e mk by (auto simp: sockOf_def)
next
  case None
  show ?thesis
  proof (cases "createSocklistEntry rp a")
    case None': None
    then have "cl = None" "ls' = ls" "tr' = tr" using assms(4) None by (auto simp: listenOn_def)
    then show ?thesis using None' grows_refl[OF assms(2,3)] by auto
  next
    case (Some sa)
    show ?thesis
    proof (cases "rp = 0 \<or> sys tr sa = None")
      case True
      let ?n = "if rp = 0 then [] else [LRefused sa]"
      have "cl = None" "ls' = ls" "tr' = tr @ ?n" using True assms(4) None Some
        by (auto simp: listenOn_def createListeningSocket_def split: if_splits)
      moreover have "sa \<notin> snd ` socksOf ls" if "currentRequestPort ls = rp"
        using None that hasAddr_entry[OF Some] by (auto simp: find_None_iff socksOf_def sockOf_def)
      moreover have "okListen (ls, tr @ ?n)" using assms(2) by (auto simp: okListen_def openSocks_snoc lstep_def)
      ultimately show ?thesis using Some assms(3) by (intro exI[of _ ?n]) (auto simp: grows_def onlyOpens_def)
    next
      case False
      then obtain fd where fd: "sys tr sa = Some fd" "rp \<noteq> 0" by blast
      then have n: "0 \<le> fd" "fd \<notin> set (map fst (openSocks tr))" "sa \<notin> set (map snd (openSocks tr))"
        using assms(1) unfolding okSys_def by blast+
      let ?s = "\<lparr>skGroups = [], skAddr = sa, skFd = fd, skRef = True\<rparr>"
      have r: "cl = Some fd" "ls' = ls\<lparr>listensocks := ?s # listensocks ls\<rparr>" "tr' = tr @ [LOpen sa fd]"
        using fd n(1) assms(4) None Some by (auto simp: listenOn_def createListeningSocket_def)
      have i: "set (map sockOf (listensocks ls)) = set (openSocks tr)" using assms(2) by (simp add: okListen_def)
      have "fst ` set (openSocks tr) = skFd ` set (listensocks ls)" "snd ` set (openSocks tr) = skAddr ` set (listensocks ls)"
        unfolding i[symmetric] by (force simp: sockOf_def)+
      then have "okListen (ls', tr')" using assms(2) n unfolding r by (auto simp: okListen_def openSocks_snoc lstep_def sockOf_def)
      then have "grows rp {a} (ls, tr) (ls', tr') [LOpen sa fd]" using assms(3) Some unfolding r
        by (auto simp: grows_def onlyOpens_def socksOf_def marked_def sockOf_def portsOf_def entriesOf_def)
      then show ?thesis using r Some by (auto simp: marked_def sockOf_def)
    qed
  qed
qed


text \<open>The addresses a line asks for, and what it gets: its address is open or was refused; of the two wildcards one is
  open or both were refused.\<close>

fun wanted :: "bytes option \<Rightarrow> bytes set" where
  "wanted (Some a) = {a}" | "wanted None = {anyV6, anyV4}"

definition got :: "int \<Rightarrow> bytes \<Rightarrow> (int \<times> sockaddr) set \<Rightarrow> bool" where
  "got rp a S \<longleftrightarrow> (\<forall>sa. createSocklistEntry rp a = Some sa \<longrightarrow> sa \<in> snd ` S)"

definition refused :: "int \<Rightarrow> bytes \<Rightarrow> lact list \<Rightarrow> bool" where
  "refused rp a new \<longleftrightarrow> (\<forall>sa. createSocklistEntry rp a = Some sa \<longrightarrow> LRefused sa \<in> set new)"

fun served :: "int \<Rightarrow> bytes option \<Rightarrow> (int \<times> sockaddr) set \<Rightarrow> lact list \<Rightarrow> bool" where
  "served rp (Some a) S new \<longleftrightarrow> rp = 0 \<or> got rp a S \<or> refused rp a new"
| "served rp None S new \<longleftrightarrow> rp = 0 \<or> got rp anyV6 S \<or> refused rp anyV6 new \<and> (got rp anyV4 S \<or> refused rp anyV4 new)"

lemma served_mono: "\<lbrakk>served rp a S n; S \<subseteq> T; set n \<subseteq> set m\<rbrakk> \<Longrightarrow> served rp a T m"
proof (cases a)
  case None
  assume "served rp a S n" "S \<subseteq> T" "set n \<subseteq> set m"
  then show ?thesis unfolding None served.simps got_def refused_def by blast
next
  case (Some b)
  assume "served rp a S n" "S \<subseteq> T" "set n \<subseteq> set m"
  then show ?thesis unfolding Some served.simps got_def refused_def by blast
qed

lemma got_fd: "\<lbrakk>createSocklistEntry rp a = Some sa; (fd, sa) \<in> S\<rbrakk> \<Longrightarrow> got rp a S"
  by (force simp: got_def)

lemma updateListener_ok:
  assumes "okSys sys" "okListen (ls, tr)" "currentRequestPort ls = rp \<longrightarrow> portsOf rp ls"
    "updateListener sys rp a (ls, tr) = (cl, ls', tr')"
  shows "\<exists>new. grows rp (wanted a) (ls, tr) (ls', tr') new \<and> served rp a (marked ls') new
    \<and> (\<forall>fd. cl = Some fd \<longrightarrow> (\<exists>b sa. b \<in> wanted a \<and> createSocklistEntry rp b = Some sa \<and> (fd, sa) \<in> marked ls'))"
proof (cases a)
  case (Some b)
  then have "listenOn sys rp b (ls, tr) = (cl, ls', tr')" using assms(4) by (simp add: updateListener_def)
  from listenOn_ok[OF assms(1-3) this] obtain n where n: "grows rp {b} (ls, tr) (ls', tr') n"
    "\<forall>fd. cl = Some fd \<longrightarrow> (\<exists>sa. createSocklistEntry rp b = Some sa \<and> (fd, sa) \<in> marked ls')"
    "cl = None \<longrightarrow> rp = 0 \<or> (\<forall>sa. createSocklistEntry rp b = Some sa \<longrightarrow> LRefused sa \<in> set n)" by blast
  have "served rp a (marked ls') n" using n(2,3) Some by (cases cl) (auto simp: refused_def intro: got_fd)
  then show ?thesis using n(1,2) Some by auto
next
  case None
  obtain c1 l1 t1 where 1: "listenOn sys rp anyV6 (ls, tr) = (c1, l1, t1)" using prod_cases3 by blast
  from listenOn_ok[OF assms(1-3) 1] obtain n where n: "grows rp {anyV6} (ls, tr) (l1, t1) n"
    "\<forall>fd. c1 = Some fd \<longrightarrow> (\<exists>sa. createSocklistEntry rp anyV6 = Some sa \<and> (fd, sa) \<in> marked l1)"
    "c1 = None \<longrightarrow> rp = 0 \<or> (\<forall>sa. createSocklistEntry rp anyV6 = Some sa \<longrightarrow> LRefused sa \<in> set n)" by blast
  show ?thesis
  proof (cases c1)
    case (Some fd)
    then have "cl = c1" "l1 = ls'" "t1 = tr'" using assms(4) None 1 by (auto simp: updateListener_def)
    moreover have "served rp a (marked l1) n" using n(2) Some None by (auto intro: got_fd)
    moreover have "grows rp (wanted a) (ls, tr) (l1, t1) n" using grows_mono[OF n(1)] None by simp
    moreover have "anyV6 \<in> wanted a" using None by simp
    ultimately show ?thesis using n(2) by blast
  next
    case c1: None
    then have 2: "listenOn sys rp anyV4 (l1, t1) = (cl, ls', tr')" using assms(4) None 1 by (simp add: updateListener_def)
    note g = growsD[OF n(1)]
    have "currentRequestPort l1 = rp \<longrightarrow> portsOf rp l1" using g(2,3) by simp
    from listenOn_ok[OF assms(1) g(1) this 2] obtain m where m: "grows rp {anyV4} (l1, t1) (ls', tr') m"
      "\<forall>fd. cl = Some fd \<longrightarrow> (\<exists>sa. createSocklistEntry rp anyV4 = Some sa \<and> (fd, sa) \<in> marked ls')"
      "cl = None \<longrightarrow> rp = 0 \<or> (\<forall>sa. createSocklistEntry rp anyV4 = Some sa \<longrightarrow> LRefused sa \<in> set m)" by blast
    have "served rp a (marked ls') (n @ m)"
      using n(3) c1 m(2,3) None by (cases cl) (auto simp: refused_def intro: got_fd)
    moreover have "grows rp (wanted a) (ls, tr) (ls', tr') (n @ m)" using grows_trans[OF n(1) m(1)] None by (simp add: insert_commute)
    moreover have "anyV4 \<in> wanted a" using None by simp
    ultimately show ?thesis using m(2) by blast
  qed
qed

definition mcastSafe :: "listenCall list \<Rightarrow> int option \<Rightarrow> listenState \<Rightarrow> bool" where
  "mcastSafe cs closure ls \<longleftrightarrow> (\<forall>m. CallMcast m \<in> set cs \<longrightarrow> length m \<noteq> 4)
     \<or> (\<forall>a. CallListen a \<in> set cs \<longrightarrow> (\<exists>b. a = Some b \<and> length b \<noteq> 16))
       \<and> (\<forall>s \<in> set (listensocks ls). closure = Some (skFd s) \<longrightarrow> (\<exists>p a. skAddr s = SaInet p a))"

lemma updateMcastGroup_ok:
  assumes "okListen (ls, tr)" "mcastSafe (CallMcast m # cs) closure ls"
  shows "\<exists>new. updateMcastGroup rp m closure (ls, tr) = Some (ls, tr @ new) \<and> onlyOpens new
    \<and> (\<forall>sa. LRefused sa \<notin> set new) \<and> openSocks (tr @ new) = openSocks tr"
proof (cases "Option.bind closure (\<lambda>fd. find (\<lambda>s. skFd s = fd) (listensocks ls))")
  case None
  then show ?thesis by (intro exI[of _ "[]"]) (simp add: updateMcastGroup_def onlyOpens_def)
next
  case (Some s)
  then obtain fd where c: "closure = Some fd" "find (\<lambda>s. skFd s = fd) (listensocks ls) = Some s" by (cases closure) auto
  then have s: "s \<in> set (listensocks ls)" "skFd s = fd" by (auto simp: find_Some_iff in_set_conv_nth)
  have g: "skGroups s = []" using assms(1) s(1) by (simp add: okListen_def)
  show ?thesis
  proof (cases "createSocklistEntry rp m")
    case None
    then show ?thesis using c g by (intro exI[of _ "[]"]) (simp add: updateMcastGroup_def onlyOpens_def)
  next
    case e: (Some ga)
    have "length m \<noteq> 4 \<or> (\<exists>p a. skAddr s = SaInet p a)" using assms(2) s c(1) by (auto simp: mcastSafe_def)
    then have "\<exists>x. mcastOf (skAddr s) ga = Some x" using e
      by (auto simp: mcastOf_def createSocklistEntry_def split: if_splits sockaddr.splits)
    then obtain x where x: "mcastOf (skAddr s) ga = Some x" by blast
    have "updateMcastGroup rp m closure (ls, tr) = Some (ls, tr @ [LJoin (skFd s) x])"
      using c g e x by (simp add: updateMcastGroup_def changeMcastMembership_def)
    then show ?thesis by (auto simp: onlyOpens_def openSocks_snoc lstep_def)
  qed
qed


definition wants :: "listenCall list \<Rightarrow> bytes set" where
  "wants cs = \<Union> (wanted ` {a. CallListen a \<in> set cs})"

lemma wants_simps [simp]:
  "wants [] = {}" "wants (CallListen a # cs) = wanted a \<union> wants cs" "wants (CallMcast m # cs) = wants cs"
  by (auto simp: wants_def)

lemma marked_in: "x \<in> marked ls \<Longrightarrow> \<exists>s \<in> set (listensocks ls). skRef s \<and> sockOf s = x"
  by (auto simp: marked_def)

lemma mcastSafe_step:
  assumes "mcastSafe (CallListen a # cs) closure ls" "okListen (ls', tr')"
    "\<forall>fd. cl = Some fd \<longrightarrow> (\<exists>b sa. b \<in> wanted a \<and> createSocklistEntry rp b = Some sa \<and> (fd, sa) \<in> marked ls')"
  shows "mcastSafe cs cl ls'"
proof (cases "\<forall>m. CallMcast m \<in> set cs \<longrightarrow> length m \<noteq> 4")
  case False
  then have l: "\<forall>a' \<in> {a'. CallListen a' \<in> set (CallListen a # cs)}. \<exists>b. a' = Some b \<and> length b \<noteq> 16"
    using assms(1) by (auto simp: mcastSafe_def)
  have "\<exists>p x. skAddr s = SaInet p x" if s: "s \<in> set (listensocks ls')" "cl = Some (skFd s)" for s
  proof -
    obtain b sa where b: "b \<in> wanted a" "createSocklistEntry rp b = Some sa" "(skFd s, sa) \<in> marked ls'"
      using assms(3) s(2) by blast
    obtain t where t: "t \<in> set (listensocks ls')" "sockOf t = (skFd s, sa)" using marked_in[OF b(3)] by blast
    have "inj_on skFd (set (listensocks ls'))" using assms(2) by (simp add: okListen_def distinct_map)
    from inj_onD[OF this _ t(1) s(1)] t(2) have "skAddr s = sa" by (auto simp: sockOf_def)
    moreover have "length b \<noteq> 16" using l b(1) by auto
    moreover from this have "\<exists>p x. sa = SaInet p x" using b(2) by (auto simp: createSocklistEntry_def split: if_splits)
    ultimately show ?thesis by simp
  qed
  then show ?thesis using l by (auto simp: mcastSafe_def)
qed (simp add: mcastSafe_def)

lemma listenAll_ok:
  "\<lbrakk>okSys sys; okListen (ls, tr); currentRequestPort ls = rp \<longrightarrow> portsOf rp ls; mcastSafe cs closure ls\<rbrakk> \<Longrightarrow>
   \<exists>ls' tr' new. listenAll sys rp cs closure (ls, tr) = Some (ls', tr') \<and> grows rp (wants cs) (ls, tr) (ls', tr') new
     \<and> (\<forall>a. CallListen a \<in> set cs \<longrightarrow> served rp a (marked ls') new)"
proof (induction cs arbitrary: closure ls tr)
  case Nil
  from grows_refl[OF Nil(2,3)] show ?case by auto
next
  case (Cons c cs)
  show ?case
  proof (cases c)
    case (CallListen a)
    obtain cl l1 t1 where u: "updateListener sys rp a (ls, tr) = (cl, l1, t1)" using prod_cases3 by blast
    from updateListener_ok[OF Cons.prems(1-3) u] obtain n where n: "grows rp (wanted a) (ls, tr) (l1, t1) n"
      "served rp a (marked l1) n"
      "\<forall>fd. cl = Some fd \<longrightarrow> (\<exists>b sa. b \<in> wanted a \<and> createSocklistEntry rp b = Some sa \<and> (fd, sa) \<in> marked l1)" by blast
    note g = growsD[OF n(1)]
    have "currentRequestPort l1 = rp \<longrightarrow> portsOf rp l1" using g(2,3) by simp
    moreover have "mcastSafe cs cl l1" using mcastSafe_step[OF _ g(1) n(3)] Cons.prems(4) CallListen by blast
    ultimately obtain l2 t2 m where m: "listenAll sys rp cs cl (l1, t1) = Some (l2, t2)" "grows rp (wants cs) (l1, t1) (l2, t2) m"
      "\<forall>a. CallListen a \<in> set cs \<longrightarrow> served rp a (marked l2) m" using Cons.IH[OF Cons.prems(1) g(1)] by blast
    have "served rp x (marked l2) (n @ m)" if "CallListen x \<in> set (c # cs)" for x
    proof (cases "x = a")
      case True
      then show ?thesis using served_mono[OF n(2) growsD(4)[OF m(2)], of "n @ m"] by simp
    next
      case False
      then have "served rp x (marked l2) m" using that m(3) CallListen by auto
      then show ?thesis by (rule served_mono) auto
    qed
    moreover have "grows rp (wants (c # cs)) (ls, tr) (l2, t2) (n @ m)" using grows_trans[OF n(1) m(2)] CallListen by simp
    ultimately show ?thesis using m(1) u CallListen by auto
  next
    case (CallMcast a)
    obtain n where n: "updateMcastGroup rp a closure (ls, tr) = Some (ls, tr @ n)" "onlyOpens n" "openSocks (tr @ n) = openSocks tr" "\<forall>sa. LRefused sa \<notin> set n"
      using updateMcastGroup_ok[OF Cons.prems(2)] Cons.prems(4) CallMcast by blast
    have o: "okListen (ls, tr @ n)" using Cons.prems(2) n(3) by (simp add: okListen_def)
    have g: "grows rp {} (ls, tr) (ls, tr @ n) n" using o n(2,4) Cons.prems(3) by (simp add: grows_def)
    have "mcastSafe cs closure ls" using Cons.prems(4) CallMcast by (auto simp: mcastSafe_def)
    from Cons.IH[OF Cons.prems(1) o Cons.prems(3) this] obtain l2 t2 m where m:
      "listenAll sys rp cs closure (ls, tr @ n) = Some (l2, t2)" "grows rp (wants cs) (ls, tr @ n) (l2, t2) m"
      "\<forall>a. CallListen a \<in> set cs \<longrightarrow> served rp a (marked l2) m" by blast
    have "served rp x (marked l2) (n @ m)" if "CallListen x \<in> set (c # cs)" for x
    proof -
      have "served rp x (marked l2) m" using that m(3) CallMcast by auto
      then show ?thesis by (rule served_mono) auto
    qed
    moreover have "grows rp (wants (c # cs)) (ls, tr) (l2, t2) (n @ m)" using grows_trans[OF g m(2)] CallMcast by simp
    ultimately show ?thesis using m(1) n(1) CallMcast by auto
  qed
qed

lemma closeUnused_eq:
  "\<forall>s \<in> set ss. 0 \<le> skFd s \<and> skGroups s = [] \<Longrightarrow>
   closeUnused ss tr = Some (filter skRef ss, tr @ map (LClose \<circ> skFd) (filter (\<lambda>s. \<not> skRef s) ss))"
  by (induction ss arbitrary: tr) (auto simp: destroyListeningSocket_def)

lemma openSocks_close:
  "openSocks (tr @ map (LClose \<circ> skFd) ss) = filter (\<lambda>x. fst x \<notin> skFd ` set ss) (openSocks tr)"
proof (induction ss rule: rev_induct)
  case (snoc s ss)
  have "tr @ map (LClose \<circ> skFd) (ss @ [s]) = (tr @ map (LClose \<circ> skFd) ss) @ [LClose (skFd s)]" by simp
  then show ?case unfolding openSocks_snoc snoc.IH by (auto simp only: openSocks_snoc snoc.IH) (auto simp: lstep_def intro!: filter_cong)
qed simp


definition wfListen :: "listenState \<times> lact list \<Rightarrow> bool" where
  "wfListen = (\<lambda>(ls, tr). okListen (ls, tr) \<and> portsOf (currentRequestPort ls) ls)"

lemma kept_set:
  assumes "\<forall>s \<in> S. skFd s \<in> F \<longleftrightarrow> \<not> skRef s"
  shows "{x \<in> sockOf ` S. fst x \<notin> F} = sockOf ` {s \<in> S. skRef s}"
proof -
  have "fst (sockOf s) \<notin> F \<longleftrightarrow> skRef s" if "s \<in> S" for s using assms that by (simp add: sockOf_def)
  then show ?thesis by blast
qed



definition demoSys :: lsys where
  "demoSys tr sa = (let os = openSocks tr in
     if sa \<in> set (map snd os) then None else Some (1 + sum_list (map (\<lambda>x. \<bar>fst x\<bar>) os)))"

lemma demoSys_ok: "okSys demoSys"
proof -
  have s: "0 \<le> sum_list (map (\<lambda>x. \<bar>fst x\<bar>) os)" for os :: "(int \<times> sockaddr) list" by (induction os) auto
  have "fst x < 1 + sum_list (map (\<lambda>x. \<bar>fst x\<bar>) os)" if "x \<in> set os" for x and os :: "(int \<times> sockaddr) list"
    using that
  proof (induction os)
    case (Cons y os)
    then show ?case using s[of os] by fastforce
  qed simp
  then show ?thesis using s by (fastforce simp: okSys_def demoSys_def Let_def split: if_splits)
qed

abbreviation noSockets :: listenState where
  "noSockets \<equiv> \<lparr>listensocks = [], currentRequestPort = 0\<rparr>"

definition groupV6 :: bytes where "groupV6 = 255 # replicate 14 0 @ [1]"


section \<open>Deviations\<close>

text \<open>A group that is joined is not noted: the next update joins it again, and a group that is no longer listed is not left.\<close>

lemma groups_forgotten:
  "map_option snd (do {
     st \<leftarrow> updateListenSockets demoSys 177 [CallListen None, CallMcast groupV6] (noSockets, []);
     st \<leftarrow> updateListenSockets demoSys 177 [CallListen None, CallMcast groupV6] st;
     updateListenSockets demoSys 177 [CallListen None] st })
   = Some [LOpen (SaInet6 [0, 177] anyV6) 1, LJoin 1 groupV6, LJoin 1 groupV6]"
  by code_simp

text \<open>With an IPv4 group the wildcard line makes the daemon read behind the group's address.\<close>

lemma ipv4_group_on_wildcard:
  "updateListenSockets demoSys 177 [CallListen None, CallMcast [224, 0, 1, 1]] (noSockets, []) = None"
  by code_simp

end
