(* ===== verification/UserAuth.thy ===== *)
theory UserAuth
  imports Xdmcp
begin

text \<open>
  The authorization files of the X server, the greeter and the user, \<^verbatim>\<open>kdm/backend/auth.c\<close> (built with
  \<^verbatim>\<open>getifaddrs\<close>). A file is the list of the entries that libXau reads from it or writes to it; the outcomes of
  locking, openRes, writing and renaming files, the network interfaces and the host name are parameters, and memory
  suffices. The fields of an authorization that an entry needs are set before each use, so they are not kept.
  A peer's address is one of a family the code knows; for another one \<^verbatim>\<open>convertAddr\<close> sets no address and the code
  would save whatever the variable held.
\<close>

section \<open>Entries\<close>

record xentry =
  xeFamily :: int
  xeAddr :: bytes
  xeNumber :: bytes
  xeName :: bytes
  xeData :: bytes

type_synonym xkey = "int \<times> bytes \<times> bytes"

definition keyOf :: "xentry \<Rightarrow> xkey" where
  "keyOf a = (xeFamily a, xeAddr a, xeNumber a)"

text \<open>The file being written, the addresses saved, and whether all is well so far.\<close>

record wstate =
  wsOut :: "xentry list"
  wsAddrs :: "xkey list"
  wsOk :: bool

text \<open>
  \<open>aeIfs\<close>: the addresses of the interfaces, if they can be had; \<open>aePut\<close>: whether an entry can be written after those
  before it; \<open>aeTemp\<close>: the name of a temporary file, if one can be made, with the same questions asked of it.
\<close>

record authEnv =
  aeIfs :: "sockaddr option list option"
  aeHost :: bytes
  aeHome :: "string option"
  aeLock :: bool
  aeCreat :: bool
  aePut :: "xentry list \<Rightarrow> xentry \<Rightarrow> bool"
  aeClose :: bool
  aeRename :: bool
  aeTemp :: "string \<Rightarrow> string option"
  aeTempPut :: "xentry list \<Rightarrow> xentry \<Rightarrow> bool"
  aeTempClose :: bool

record authConf =
  acAuths :: "xentry list option"
  acForce :: bool
  acDir :: string

section \<open>Writing\<close>

definition saveEntry :: "xentry \<Rightarrow> wstate \<Rightarrow> wstate" where
  "saveEntry a st = st\<lparr>wsAddrs := keyOf a # wsAddrs st\<rparr>"

definition checkEntry :: "xentry \<Rightarrow> wstate \<Rightarrow> bool" where
  "checkEntry a st \<longleftrightarrow> keyOf a \<in> set (wsAddrs st)"

text \<open>\<open>w\<close>: the caller wants the entry written; it passes no variable for the outcome otherwise.\<close>

definition writeAuth :: "(xentry list \<Rightarrow> xentry \<Rightarrow> bool) \<Rightarrow> bool \<Rightarrow> xentry \<Rightarrow> wstate \<Rightarrow> wstate" where
  "writeAuth put w a st =
     (if \<not> w then st else if put (wsOut st) a then st\<lparr>wsOut := wsOut st @ [a]\<rparr> else st\<lparr>wsOk := False\<rparr>)"

definition writeAddr :: "(xentry list \<Rightarrow> xentry \<Rightarrow> bool) \<Rightarrow> bool \<Rightarrow> int \<Rightarrow> bytes \<Rightarrow> xentry \<Rightarrow> wstate \<Rightarrow> wstate" where
  "writeAddr put w family ad a st =
     (let a = a\<lparr>xeFamily := card16Of family, xeAddr := ad\<rparr>; st = writeAuth put w a st in
      if checkEntry a st then st else saveEntry a st)"

definition defineLocal :: "authEnv \<Rightarrow> (xentry list \<Rightarrow> xentry \<Rightarrow> bool) \<Rightarrow> bool \<Rightarrow> xentry \<Rightarrow> wstate \<Rightarrow> wstate" where
  "defineLocal E put w a st = writeAddr put w FamilyLocal (aeHost E) a st"

text \<open>The address of an interface that gets an entry: no local host, and for XDM-AUTHORIZATION-1 no IPv6.\<close>

definition selfAddr :: "xentry \<Rightarrow> sockaddr option \<Rightarrow> (int \<times> bytes) option" where
  "selfAddr a i =
     (case i of None \<Rightarrow> None
      | Some sa \<Rightarrow>
          (let (family, ad) = convertAddr sa in
           if family = -1 \<or> family = FamilyLocal then None
           else if family = FamilyInternet \<and> take 4 ad = [127, 0, 0, 1] then None
           else if family = FamilyInternet6 \<and> (ad = replicate 15 0 @ [1] \<or> xeName a = XDM_AUTHORIZATION) then None
           else Some (family, ad)))"

definition defineSelf :: "authEnv \<Rightarrow> (xentry list \<Rightarrow> xentry \<Rightarrow> bool) \<Rightarrow> bool \<Rightarrow> xentry \<Rightarrow> wstate \<Rightarrow> wstate" where
  "defineSelf E put w a st =
     (case aeIfs E of None \<Rightarrow> st
      | Some ifs \<Rightarrow> fold (\<lambda>i st. case selfAddr a i of None \<Rightarrow> st | Some (f, ad) \<Rightarrow> writeAddr put w f ad a st) ifs st)"

definition setAuthNumber :: "xentry \<Rightarrow> string \<Rightarrow> xentry" where
  "setAuthNumber a name =
     (if CHR '':'' \<in> set name
      then a\<lparr>xeNumber := ascii (takeWhile (\<lambda>c. c \<noteq> CHR ''.'') (rev (takeWhile (\<lambda>c. c \<noteq> CHR '':'') (rev name))))\<rparr>
      else a)"

definition writeLocalAuth ::
    "authEnv \<Rightarrow> (xentry list \<Rightarrow> xentry \<Rightarrow> bool) \<Rightarrow> bool \<Rightarrow> xentry \<Rightarrow> string \<Rightarrow> wstate \<Rightarrow> wstate" where
  "writeLocalAuth E put w a name st =
     (let a = setAuthNumber a name in defineLocal E put w a (defineSelf E put w a st))"

definition convertAuthAddr :: "sockaddr \<Rightarrow> int \<times> bytes" where
  "convertAuthAddr sa = (case convertAddr sa of (f, ad) \<Rightarrow>
     (if f = FamilyInternet \<and> take 4 ad = [127, 0, 0, 1] then FamilyLocal else f, ad))"

definition writeRemoteAuth ::
    "authEnv \<Rightarrow> (xentry list \<Rightarrow> xentry \<Rightarrow> bool) \<Rightarrow> bool \<Rightarrow> xentry \<Rightarrow> (sockaddr \<times> nat) option \<Rightarrow> string \<Rightarrow> wstate \<Rightarrow> wstate" where
  "writeRemoteAuth E put w a peer name st =
     (case peer of None \<Rightarrow> st
      | Some (sa, len) \<Rightarrow>
          if len < 2 then st
          else
            (let a = setAuthNumber a name; (f, ad) = convertAuthAddr sa in
             if f \<noteq> FamilyLocal then writeAddr put w f ad a st else writeLocalAuth E put w a name st))"

definition writeDisplayAuth ::
    "authEnv \<Rightarrow> (xentry list \<Rightarrow> xentry \<Rightarrow> bool) \<Rightarrow> bool \<Rightarrow> display \<Rightarrow> xentry \<Rightarrow> wstate \<Rightarrow> wstate" where
  "writeDisplayAuth E put w d a st =
     (if isLocal d then writeLocalAuth E put w a (dname d) st
      else writeRemoteAuth E put w a (peerAddr d) (dname d) st)"

text \<open>The cookie comes first; of a Kerberos authorization the data stays out.\<close>

definition KERBEROS_5 :: bytes where "KERBEROS_5 = ascii ''MIT-KERBEROS-5''"

definition withoutCache :: "xentry \<Rightarrow> xentry" where
  "withoutCache a = (if xeName a = KERBEROS_5 then a\<lparr>xeData := []\<rparr> else a)"

definition writeOrder :: "xentry list \<Rightarrow> xentry list" where
  "writeOrder auths =
     (case List.extract (\<lambda>a. xeName a = MIT_COOKIE) auths of None \<Rightarrow> map withoutCache auths
      | Some (xs, a, ys) \<Rightarrow> a # map withoutCache (xs @ ys))"

definition NBSIZE :: nat where "NBSIZE = 1024"

definition noEntries :: wstate where
  "noEntries = \<lparr>wsOut = [], wsAddrs = [], wsOk = True\<rparr>"

text \<open>Whether the new file beside the user's file could be opened.\<close>

definition startUserAuth :: "authEnv \<Rightarrow> string option" where
  "startUserAuth E =
     (case aeHome E of None \<Rightarrow> None
      | Some home \<Rightarrow>
          if length home < NBSIZE - 12 \<and> aeLock E \<and> aeCreat E then Some (home @ ''/.Xauthority'') else None)"

definition copyEntry :: "(xentry list \<Rightarrow> xentry \<Rightarrow> bool) \<Rightarrow> xentry \<Rightarrow> wstate \<Rightarrow> wstate" where
  "copyEntry put e st = (if checkEntry e st then st else writeAuth put True e st)"

definition endUserAuth ::
    "(xentry list \<Rightarrow> xentry \<Rightarrow> bool) \<Rightarrow> bool \<Rightarrow> xentry list option \<Rightarrow> wstate \<Rightarrow> bool \<times> xentry list" where
  "endUserAuth put cls old st =
     (let st = (case old of None \<Rightarrow> st
                | Some es \<Rightarrow> fold (copyEntry put) es st)
      in (wsOk st \<and> cls, wsOut st))"

text \<open>What the user has afterwards: the file in the home directory, another file, and the variable XAUTHORITY.\<close>

record userAuth =
  uaHome :: "xentry list option"
  uaFile :: "(string \<times> xentry list) option"
  uaEnv :: "string option"

definition authFallback :: "authEnv \<Rightarrow> display \<Rightarrow> authConf \<Rightarrow> xentry list \<Rightarrow> xentry list option \<Rightarrow> userAuth" where
  "authFallback E d c auths home =
     (if length (acDir c) \<ge> NBSIZE - 13 then \<lparr>uaHome = home, uaFile = None, uaEnv = None\<rparr>
      else case aeTemp E (acDir c @ ''/.Xauth'') of None \<Rightarrow> \<lparr>uaHome = home, uaFile = None, uaEnv = None\<rparr>
      | Some f \<Rightarrow>
          (case endUserAuth (aeTempPut E) (aeTempClose E) None
                  (fold (writeDisplayAuth E (aeTempPut E) True d) (writeOrder auths) noEntries) of
             (res, out) \<Rightarrow> \<lparr>uaHome = home, uaFile = Some (f, out), uaEnv = if res then Some f else None\<rparr>))"

definition setUserAuthorization :: "authEnv \<Rightarrow> display \<Rightarrow> authConf \<Rightarrow> xentry list option \<Rightarrow> userAuth" where
  "setUserAuthorization E d c home =
     (case acAuths c of None \<Rightarrow> \<lparr>uaHome = home, uaFile = None, uaEnv = None\<rparr>
      | Some auths \<Rightarrow>
          (case (if acForce c then None else startUserAuth E) of
             None \<Rightarrow> authFallback E d c auths home
           | Some f \<Rightarrow>
               (case endUserAuth (aePut E) (aeClose E) home
                       (fold (writeDisplayAuth E (aePut E) True d) (writeOrder auths) noEntries) of
                  (res, out) \<Rightarrow>
                    if \<not> res then authFallback E d c auths home
                    else if aeRename E then \<lparr>uaHome = Some out, uaFile = None, uaEnv = None\<rparr>
                    else \<lparr>uaHome = home, uaFile = Some (f @ ''-n'', out), uaEnv = Some (f @ ''-n'')\<rparr>)))"

definition removeUserAuthorization :: "authEnv \<Rightarrow> display \<Rightarrow> authConf \<Rightarrow> xentry list option \<Rightarrow> xentry list option" where
  "removeUserAuthorization E d c home =
     (case acAuths c of None \<Rightarrow> home
      | Some auths \<Rightarrow>
          (case startUserAuth E of None \<Rightarrow> home
           | Some f \<Rightarrow>
               (case endUserAuth (aePut E) (aeClose E) home
                       (fold (writeDisplayAuth E (aePut E) False d) auths noEntries) of
                  (res, out) \<Rightarrow> if res \<and> aeRename E then Some out else home)))"

section \<open>Files of the server and the greeter\<close>

definition cleanChar :: "8 word \<Rightarrow> 8 word" where
  "cleanChar c = (let b = and c 0x7f in if b = 0x2f then 0x5f else if b = 0x2d then 0x2e else b)"

definition cleanUpFileName :: "bytes \<Rightarrow> nat \<Rightarrow> bytes" where
  "cleanUpFileName src len = map cleanChar (take (len - 1) (cstrOf src))"

text \<open>A hundred tries; each comes with its random number and what openRes the file said.\<close>

datatype openRes = Opened | FileExists | OpenFailed

fun tryOpen :: "nat \<Rightarrow> string \<Rightarrow> (32 word \<times> openRes) list \<Rightarrow> string option" where
  "tryOpen (Suc r) pre ((n, x) # xs) =
     (case x of Opened \<Rightarrow> Some (pre @ randomStr n) | FileExists \<Rightarrow> tryOpen r pre xs | OpenFailed \<Rightarrow> None)"
| "tryOpen r pre xs = None"

definition mkTempFile :: "string \<Rightarrow> (32 word \<times> openRes) list \<Rightarrow> string option" where
  "mkTempFile pre xs = tryOpen 100 pre xs"

definition NAMELEN :: nat where "NAMELEN = 255"

text \<open>The outer \<open>None\<close>: the name does not fit its buffer.\<close>

definition makeServerAuthFile :: "string \<Rightarrow> bool \<Rightarrow> string \<Rightarrow> (32 word \<times> openRes) list \<Rightarrow> string option option" where
  "makeServerAuthFile authDir dirOk name xs =
     (if \<not> dirOk then Some None
      else
        let pre = authDir @ ''/A'' @ chars (cleanUpFileName (ascii name) (NAMELEN - 8)) @ ''-'' in
        if length pre + 6 < NAMELEN + 128 then Some (mkTempFile pre xs) else None)"

text \<open>
  \<open>creatOk\<close>: the file there is could be opened. The result, the name kept and the file written. Authorizations
  without data are left out.
\<close>

fun putAuths :: "(xentry list \<Rightarrow> xentry \<Rightarrow> bool) \<Rightarrow> xentry list \<Rightarrow> xentry list \<Rightarrow> xentry list option" where
  "putAuths put [] out = Some out"
| "putAuths put (a # auths) out =
     (if xeData a = [] then putAuths put auths out
      else if put out a then putAuths put auths (out @ [a]) else None)"

record saveEnv =
  seDir :: string
  seDirOk :: bool
  seTries :: "(32 word \<times> openRes) list"
  seCreat :: bool
  sePut :: "xentry list \<Rightarrow> xentry \<Rightarrow> bool"
  seClose :: bool

definition saveAuthorizations ::
    "saveEnv \<Rightarrow> string \<Rightarrow> string option \<Rightarrow> xentry list \<Rightarrow> (bool \<times> string option \<times> xentry list option) option" where
  "saveAuthorizations S name af auths =
     (case (case af of Some f \<Rightarrow> Some (if seCreat S then Some f else None)
            | None \<Rightarrow> makeServerAuthFile (seDir S) (seDirOk S) name (seTries S)) of
        None \<Rightarrow> None
      | Some None \<Rightarrow> Some (False, None, None)
      | Some (Some f) \<Rightarrow>
          (case putAuths (sePut S) auths [] of None \<Rightarrow> Some (False, None, None)
           | Some out \<Rightarrow> Some (if seClose S then (True, Some f, Some out) else (False, None, None))))"

definition saveServerAuthorizations ::
    "saveEnv \<Rightarrow> display \<Rightarrow> string option \<Rightarrow> xentry list \<Rightarrow> (bool \<times> string option \<times> xentry list option) option" where
  "saveServerAuthorizations S d clientAuthFile auths =
     (let f = (if authFile d = None \<and> clientAuthFile \<noteq> None \<and> clientAuthFile \<noteq> Some [] then clientAuthFile else authFile d)
      in saveAuthorizations S (dname d) f auths)"

definition generateAuthorization :: "xenv \<Rightarrow> bytes \<Rightarrow> xauth option" where
  "generateAuthorization E name =
     (case findProtocol name of None \<Rightarrow> None | Some MitCookie \<Rightarrow> mitGetAuth E name | Some XdmAuthorization \<Rightarrow> xdmGetAuth E name)"

definition wildEntry :: "xauth \<Rightarrow> xentry" where
  "wildEntry a = \<lparr>xeFamily = 65535, xeAddr = [], xeNumber = [], xeName = xaName a, xeData = xaData a\<rparr>"

text \<open>The authorizations of the display afterwards, the name of the file and its contents.\<close>

definition setLocalAuthorization ::
    "saveEnv \<Rightarrow> xenv \<Rightarrow> display \<Rightarrow> string option \<Rightarrow> bytes list
      \<Rightarrow> (xentry list option \<times> string option \<times> xentry list option) option" where
  "setLocalAuthorization S E d clientAuthFile authNames =
     (let auths = map wildEntry (List.map_filter (generateAuthorization E) authNames) in
      map_option (\<lambda>(res, f, out). (if res then Some auths else None, f, out))
        (saveServerAuthorizations S d clientAuthFile auths))"

section \<open>Names of files\<close>

lemma cleanChar_plain: "cleanChar c \<noteq> 0x2f \<and> cleanChar c \<noteq> 0x2d"
  by (simp add: cleanChar_def Let_def)

text \<open>The name of a display can not lead out of the directory, and fits its buffer.\<close>

lemma cleanUpFileName_safe:
  "0 < len \<Longrightarrow> 0x2f \<notin> set (cleanUpFileName src len) \<and> length (cleanUpFileName src len) < len"
  using cleanChar_plain by (auto simp: cleanUpFileName_def)

lemma putAuths_filter: "putAuths put auths out = Some res \<Longrightarrow> out @ filter (\<lambda>a. xeData a \<noteq> []) auths = res"
  by (induction auths arbitrary: out) (fastforce split: if_splits)+

lemma saveAuthorizations_file:
  assumes "saveAuthorizations S name af auths = Some (res, f, out)"
  shows "(res \<longleftrightarrow> f \<noteq> None) \<and> (res \<longrightarrow> out = Some (filter (\<lambda>a. xeData a \<noteq> []) auths))"
proof -
  have "putAuths (sePut S) auths [] = None \<or> putAuths (sePut S) auths [] = Some (filter (\<lambda>a. xeData a \<noteq> []) auths)"
    using putAuths_filter[of "sePut S" auths "[]"] by (cases "putAuths (sePut S) auths []") auto
  then show ?thesis using assms by (elim disjE) (auto simp: saveAuthorizations_def split: option.splits if_splits)
qed

section \<open>The entries of a display\<close>

text \<open>The addresses under which an authorization is filed, and the entries.\<close>

definition ifAddrs :: "authEnv \<Rightarrow> xentry \<Rightarrow> (int \<times> bytes) list" where
  "ifAddrs E a = (case aeIfs E of None \<Rightarrow> [] | Some ifs \<Rightarrow> List.map_filter (selfAddr a) ifs)"

definition addrsOf :: "authEnv \<Rightarrow> display \<Rightarrow> xentry \<Rightarrow> (int \<times> bytes) list" where
  "addrsOf E d a =
     (let self = ifAddrs E a @ [(FamilyLocal, aeHost E)] in
      if isLocal d then self
      else case peerAddr d of None \<Rightarrow> []
           | Some (sa, len) \<Rightarrow> if len < 2 then []
               else if fst (convertAuthAddr sa) \<noteq> FamilyLocal then [convertAuthAddr sa] else self)"

definition entriesFor :: "authEnv \<Rightarrow> display \<Rightarrow> xentry \<Rightarrow> xentry list" where
  "entriesFor E d a = map (\<lambda>(f, ad). (setAuthNumber a (dname d))\<lparr>xeFamily := card16Of f, xeAddr := ad\<rparr>) (addrsOf E d a)"

definition mine :: "authEnv \<Rightarrow> display \<Rightarrow> xentry list \<Rightarrow> xentry list" where
  "mine E d auths = concat (map (entriesFor E d) (writeOrder auths))"

definition foreign :: "authEnv \<Rightarrow> display \<Rightarrow> xentry list \<Rightarrow> xentry list option \<Rightarrow> xentry list" where
  "foreign E d auths home = filter (\<lambda>e. keyOf e \<notin> keyOf ` set (mine E d auths)) (case home of None \<Rightarrow> [] | Some es \<Rightarrow> es)"

definition alwaysPut :: "(xentry list \<Rightarrow> xentry \<Rightarrow> bool) \<Rightarrow> bool" where
  "alwaysPut put \<longleftrightarrow> (\<forall>before e. put before e)"

text \<open>Writing a list of entries one after the other.\<close>

definition wrote :: "(xentry list \<Rightarrow> xentry \<Rightarrow> bool) \<Rightarrow> bool \<Rightarrow> xentry list \<Rightarrow> wstate \<Rightarrow> wstate \<Rightarrow> bool" where
  "wrote put w es st st' \<longleftrightarrow> (alwaysPut put \<longrightarrow> wsOk st \<longrightarrow> wsOk st')
     \<and> set (wsAddrs st') = set (wsAddrs st) \<union> keyOf ` set es
     \<and> (if w then wsOk st' \<longrightarrow> wsOk st \<and> wsOut st' = wsOut st @ es else wsOk st' = wsOk st \<and> wsOut st' = wsOut st)"

lemma wrote_refl: "wrote put w [] st st"
  by (simp add: wrote_def)

lemma wrote_trans: "\<lbrakk>wrote put w es st st1; wrote put w fs st1 st2\<rbrakk> \<Longrightarrow> wrote put w (es @ fs) st st2"
  by (auto simp: wrote_def split: if_splits)

lemma wrote_writeAddr: "wrote put w [a\<lparr>xeFamily := card16Of f, xeAddr := ad\<rparr>] st (writeAddr put w f ad a st)"
  by (auto simp: wrote_def writeAddr_def writeAuth_def checkEntry_def saveEntry_def Let_def alwaysPut_def)

lemma wrote_fold:
  "(\<And>x st. wrote put w (g x) st (h x st)) \<Longrightarrow> wrote put w (concat (map g xs)) st (fold h xs st)"
  by (induction xs arbitrary: st) (auto simp: wrote_refl intro: wrote_trans)

lemma wrote_defineSelf:
  "wrote put w (map (\<lambda>(f, ad). a\<lparr>xeFamily := card16Of f, xeAddr := ad\<rparr>)
     (ifAddrs E a)) st (defineSelf E put w a st)"
proof (cases "aeIfs E")
  case (Some ifs)
  have "concat (map (\<lambda>i. case selfAddr a i of None \<Rightarrow> [] | Some (f, ad) \<Rightarrow> [a\<lparr>xeFamily := card16Of f, xeAddr := ad\<rparr>]) ifs) =
      map (\<lambda>(f, ad). a\<lparr>xeFamily := card16Of f, xeAddr := ad\<rparr>) (List.map_filter (selfAddr a) ifs)"
    by (induction ifs) (auto simp: List.map_filter_simps split: option.split)
  moreover have "wrote put w (case selfAddr a i of None \<Rightarrow> [] | Some (f, ad) \<Rightarrow> [a\<lparr>xeFamily := card16Of f, xeAddr := ad\<rparr>]) st
      (case selfAddr a i of None \<Rightarrow> st | Some (f, ad) \<Rightarrow> writeAddr put w f ad a st)" for i st
    by (auto simp: wrote_refl wrote_writeAddr split: option.split)
  ultimately show ?thesis using wrote_fold Some unfolding defineSelf_def ifAddrs_def by (metis (no_types, lifting) option.simps(5))
qed (simp add: defineSelf_def ifAddrs_def wrote_refl)

lemma number_again: "setAuthNumber (setAuthNumber a n) n = setAuthNumber a n"
  by (simp add: setAuthNumber_def)

lemma setAuthNumber_name: "xeName (setAuthNumber a n) = xeName a"
  by (simp add: setAuthNumber_def)

lemma selfAddr_number: "selfAddr (setAuthNumber a n) = selfAddr a"
  unfolding selfAddr_def setAuthNumber_name ..

lemma ifAddrs_number: "ifAddrs E (setAuthNumber a n) = ifAddrs E a"
  unfolding ifAddrs_def selfAddr_number ..

lemma wrote_writeLocal:
  "wrote put w (map (\<lambda>(f, ad). (setAuthNumber a n)\<lparr>xeFamily := card16Of f, xeAddr := ad\<rparr>)
     (ifAddrs E a @ [(FamilyLocal, aeHost E)])) st
   (writeLocalAuth E put w a n st)"
  using wrote_trans[OF wrote_defineSelf[where put = put and w = w and a = "setAuthNumber a n" and E = E and st = st]
      wrote_writeAddr[where w = w and a = "setAuthNumber a n" and f = FamilyLocal and ad = "aeHost E" and put = put]]
  by (simp add: writeLocalAuth_def defineLocal_def ifAddrs_number Let_def)

lemma wrote_display: "wrote put w (entriesFor E d a) st (writeDisplayAuth E put w d a st)"
proof (cases "isLocal d")
  case True
  then show ?thesis using wrote_writeLocal by (simp add: writeDisplayAuth_def entriesFor_def addrsOf_def)
next
  case False
  obtain f ad where c: "\<And>sa len. peerAddr d = Some (sa, len) \<Longrightarrow> convertAuthAddr sa = (f, ad)"
    by (cases "peerAddr d") (auto, metis surj_pair)
  show ?thesis
  proof (cases "peerAddr d")
    case None
    then show ?thesis using False by (simp add: writeDisplayAuth_def writeRemoteAuth_def entriesFor_def addrsOf_def wrote_refl)
  next
    case (Some p)
    then obtain sa len where p: "peerAddr d = Some (sa, len)" by (cases p) auto
    show ?thesis
      using False p c[OF p] wrote_writeLocal[where put = put and w = w and a = "setAuthNumber a (dname d)" and n = "dname d" and E = E and st = st]
        wrote_writeAddr[where w = w and a = "setAuthNumber a (dname d)" and f = f and ad = ad and st = st and put = put]
      by (auto simp: writeDisplayAuth_def writeRemoteAuth_def entriesFor_def addrsOf_def wrote_refl Let_def number_again ifAddrs_number)
  qed
qed


lemma wrote_all: "wrote put w (concat (map (entriesFor E d) as)) st (fold (writeDisplayAuth E put w d) as st)"
  by (rule wrote_fold) (rule wrote_display)

lemma copied:
  "(alwaysPut put \<longrightarrow> wsOk st \<longrightarrow> wsOk (fold (copyEntry put) es st))
   \<and> wsAddrs (fold (copyEntry put) es st) = wsAddrs st
   \<and> (wsOk (fold (copyEntry put) es st) \<longrightarrow> wsOk st \<and>
        wsOut (fold (copyEntry put) es st) = wsOut st @ filter (\<lambda>e. keyOf e \<notin> set (wsAddrs st)) es)"
proof (induction es arbitrary: st)
  case (Cons e es)
  have "copyEntry put e st = (if keyOf e \<in> set (wsAddrs st) then st
      else if put (wsOut st) e then st\<lparr>wsOut := wsOut st @ [e]\<rparr> else st\<lparr>wsOk := False\<rparr>)"
    by (simp add: copyEntry_def checkEntry_def writeAuth_def)
  then consider "keyOf e \<in> set (wsAddrs st)" "copyEntry put e st = st"
    | "keyOf e \<notin> set (wsAddrs st)" "copyEntry put e st = st\<lparr>wsOut := wsOut st @ [e]\<rparr>"
    | "\<not> put (wsOut st) e" "copyEntry put e st = st\<lparr>wsOk := False\<rparr>" by (auto split: if_splits)
  then show ?case
  proof cases
    case 3
    then have "\<not> alwaysPut put" by (auto simp: alwaysPut_def)
    then show ?thesis using 3 Cons.IH[of "st\<lparr>wsOk := False\<rparr>"] by simp
  next
    case 1
    then show ?thesis using Cons.IH[of st] by simp
  next
    case 2
    then show ?thesis using Cons.IH[of "st\<lparr>wsOut := wsOut st @ [e]\<rparr>"] by simp
  qed
qed simp

text \<open>The old entries that are not filed under a saved address follow.\<close>

lemma endUserAuth_res:
  assumes "endUserAuth put cls old st = (res, out)" "res"
  shows "wsOk st \<and> out = wsOut st @ filter (\<lambda>e. keyOf e \<notin> set (wsAddrs st)) (case old of None \<Rightarrow> [] | Some es \<Rightarrow> es)"
proof (cases old)
  case None
  then show ?thesis using assms by (auto simp: endUserAuth_def)
next
  case (Some es)
  then show ?thesis using assms copied[where put = put and es = es and st = st] by (auto simp: endUserAuth_def Let_def)
qed

lemma endUserAuth_well:
  assumes "alwaysPut put" "cls" "wsOk st" shows "fst (endUserAuth put cls old st)"
  using assms copied[where put = put and st = st] by (auto simp: endUserAuth_def Let_def split: option.split)

lemma set_writeOrder: "concat (map (entriesFor E d) (writeOrder auths)) = mine E d auths"
  by (simp add: mine_def)

lemma addrsOf_name:
  assumes "xeName a = xeName b" shows "addrsOf E d a = addrsOf E d b"
proof -
  have "selfAddr a = selfAddr b" unfolding selfAddr_def assms ..
  then have i: "ifAddrs E a = ifAddrs E b" unfolding ifAddrs_def by (rule ssubst) (rule refl)
  show ?thesis unfolding addrsOf_def i ..
qed

lemma keys_withoutCache: "keyOf ` set (entriesFor E d (withoutCache a)) = keyOf ` set (entriesFor E d a)"
proof -
  have k: "map keyOf (entriesFor E d x) =
      map (\<lambda>(f, ad). (card16Of f, ad, xeNumber (setAuthNumber x (dname d)))) (addrsOf E d x)" for x
    by (simp add: entriesFor_def keyOf_def case_prod_beta)
  have "xeName (withoutCache a) = xeName a" "xeNumber (setAuthNumber (withoutCache a) n) = xeNumber (setAuthNumber a n)" for n
    by (simp_all add: withoutCache_def setAuthNumber_def)
  then have "map keyOf (entriesFor E d (withoutCache a)) = map keyOf (entriesFor E d a)"
    unfolding k using addrsOf_name[of "withoutCache a" a] by simp
  then show ?thesis by (metis set_map)
qed

lemma extract_set: "List.extract P xs = Some (ys, x, zs) \<Longrightarrow> set xs = insert x (set (ys @ zs))"
  by (auto simp: List.extract_Some_iff)

text \<open>Removing knows the same addresses as writing.\<close>

lemma keys_mine: "keyOf ` set (concat (map (entriesFor E d) auths)) = keyOf ` set (mine E d auths)"
proof -
  have u: "keyOf ` set (concat (map (entriesFor E d) as)) = (\<Union>a \<in> set as. keyOf ` set (entriesFor E d a))" for as
    by auto
  have "(\<Union>a \<in> set (writeOrder auths). keyOf ` set (entriesFor E d a)) = (\<Union>a \<in> set auths. keyOf ` set (entriesFor E d a))"
  proof (cases "List.extract (\<lambda>a. xeName a = MIT_COOKIE) auths")
    case None
    then show ?thesis by (simp add: writeOrder_def keys_withoutCache)
  next
    case (Some r)
    then obtain xs a ys where r: "List.extract (\<lambda>a. xeName a = MIT_COOKIE) auths = Some (xs, a, ys)" by (cases r) auto
    then show ?thesis using extract_set[OF r] by (simp add: writeOrder_def keys_withoutCache)
  qed
  then show ?thesis unfolding mine_def u by simp
qed

text \<open>C24. When a session starts, the file in the user's home directory either stays as it is or gets the entries of the
  display in front of exactly those old ones that are filed under other addresses; in the first case XAUTHORITY
  names another file with the display's entries, or nothing was saved. When the session ends, the file stays as it is
  or keeps exactly the entries filed under other addresses than the display's. What goes is every entry filed under
  the display's addresses, also one this session never added: with \<^verbatim>\<open>ForceUserAuthDir\<close>, or after the other file had
  to be used, the user's own entries for the display are removed (\<open>forced_directory_removes\<close>).\<close>

theorem user_authorizations:
  assumes "acAuths c = Some auths"
  shows "(case setUserAuthorization E d c home of r \<Rightarrow>
      uaHome r = Some (mine E d auths @ foreign E d auths home) \<and> uaEnv r = None
      \<or> uaHome r = home \<and> (uaEnv r = None \<or> (\<exists>f. uaEnv r = Some f
          \<and> uaFile r \<in> {Some (f, mine E d auths), Some (f, mine E d auths @ foreign E d auths home)})))
    \<and> removeUserAuthorization E d c home \<in> {home, Some (foreign E d auths home)}
    \<and> (startUserAuth E \<noteq> None \<and> \<not> acForce c \<and> alwaysPut (aePut E) \<and> aeClose E \<and> aeRename E \<longrightarrow>
        uaHome (setUserAuthorization E d c home) = Some (mine E d auths @ foreign E d auths home)
        \<and> removeUserAuthorization E d c (uaHome (setUserAuthorization E d c home)) = Some (foreign E d auths home))"
proof -
  let ?k = "keyOf ` set (mine E d auths)"
  let ?old = "case home of None \<Rightarrow> [] | Some es \<Rightarrow> es"
  have wr: "wsOk (fold (writeDisplayAuth E put True d) (writeOrder auths) noEntries) \<Longrightarrow>
      wsOut (fold (writeDisplayAuth E put True d) (writeOrder auths) noEntries) = mine E d auths"
    "set (wsAddrs (fold (writeDisplayAuth E put True d) (writeOrder auths) noEntries)) = ?k" for put
    using wrote_all[where w = True and E = E and d = d and as = "writeOrder auths" and st = noEntries and put = put]
    by (simp_all add: wrote_def set_writeOrder noEntries_def)
  have rm: "wsOut (fold (writeDisplayAuth E put False d) auths noEntries) = []"
    "set (wsAddrs (fold (writeDisplayAuth E put False d) auths noEntries)) = ?k" for put
    using wrote_all[where w = False and E = E and d = d and as = auths and st = noEntries and put = put]
    unfolding keys_mine[symmetric] by (simp_all add: wrote_def noEntries_def)
  have st: "out = mine E d auths @ foreign E d auths home"
    if "endUserAuth put cls home (fold (writeDisplayAuth E put True d) (writeOrder auths) noEntries) = (True, out)" for put cls home out
    using endUserAuth_res[OF that] wr[of put] by (simp add: foreign_def)
  have re: "out = foreign E d auths home"
    if "endUserAuth put cls home (fold (writeDisplayAuth E put False d) auths noEntries) = (True, out)" for put cls home out
    using endUserAuth_res[OF that] rm[of put] by (simp add: foreign_def)
  have f: "uaHome (authFallback E d c auths home) = home" "uaEnv (authFallback E d c auths home) = None \<or>
      (\<exists>f. uaEnv (authFallback E d c auths home) = Some f \<and> uaFile (authFallback E d c auths home) = Some (f, mine E d auths))"
  proof -
    have "snd (endUserAuth put cls None (fold (writeDisplayAuth E put True d) (writeOrder auths) noEntries)) = mine E d auths"
      if "fst (endUserAuth put cls None (fold (writeDisplayAuth E put True d) (writeOrder auths) noEntries))" for put cls
      using that wr(1)[of put] by (auto simp: endUserAuth_def Let_def)
    then show "uaHome (authFallback E d c auths home) = home" "uaEnv (authFallback E d c auths home) = None \<or>
      (\<exists>f. uaEnv (authFallback E d c auths home) = Some f \<and> uaFile (authFallback E d c auths home) = Some (f, mine E d auths))"
      by (simp_all add: authFallback_def split: option.split prod.split) (metis fst_conv snd_conv)
  qed
  let ?set = "\<lambda>r. uaHome r = Some (mine E d auths @ foreign E d auths home) \<and> uaEnv r = None
      \<or> uaHome r = home \<and> (uaEnv r = None \<or> (\<exists>f. uaEnv r = Some f
          \<and> uaFile r \<in> {Some (f, mine E d auths), Some (f, mine E d auths @ foreign E d auths home)}))"
  have 1: "?set (setUserAuthorization E d c home)"
  proof (cases "if acForce c then None else startUserAuth E")
    case None
    then show ?thesis using assms f by (auto simp: setUserAuthorization_def)
  next
    case (Some n)
    obtain res out where e: "endUserAuth (aePut E) (aeClose E) home
        (fold (writeDisplayAuth E (aePut E) True d) (writeOrder auths) noEntries) = (res, out)" by fastforce
    show ?thesis
    proof (cases res)
      case True
      then have "out = mine E d auths @ foreign E d auths home" using st e by simp
      then show ?thesis using assms Some e True by (simp add: setUserAuthorization_def)
    next
      case False
      then show ?thesis using assms Some e f by (auto simp: setUserAuthorization_def)
    qed
  qed
  have 2: "removeUserAuthorization E d c h \<in> {h, Some (foreign E d auths h)}" for h
    using assms re[of "aePut E" "aeClose E" h] by (auto simp: removeUserAuthorization_def split: option.split prod.split)
  have 3: "uaHome (setUserAuthorization E d c home) = Some (mine E d auths @ foreign E d auths home)
      \<and> removeUserAuthorization E d c (uaHome (setUserAuthorization E d c home)) = Some (foreign E d auths home)"
    if a: "startUserAuth E \<noteq> None" "\<not> acForce c" "alwaysPut (aePut E)" "aeClose E" "aeRename E"
  proof -
    have w: "wsOk (fold (writeDisplayAuth E (aePut E) True d) (writeOrder auths) noEntries)"
      "wsOk (fold (writeDisplayAuth E (aePut E) False d) auths noEntries)"
      using wrote_all[where w = True and E = E and d = d and as = "writeOrder auths" and st = noEntries and put = "aePut E"]
        wrote_all[where w = False and E = E and d = d and as = auths and st = noEntries and put = "aePut E"] a(3)
      by (auto simp: wrote_def noEntries_def)
    obtain n where n: "startUserAuth E = Some n" using a(1) by blast
    have "uaHome (setUserAuthorization E d c h) = Some (mine E d auths @ foreign E d auths h)" for h
    proof -
      obtain out where e: "endUserAuth (aePut E) (aeClose E) h
          (fold (writeDisplayAuth E (aePut E) True d) (writeOrder auths) noEntries) = (True, out)"
        using endUserAuth_well[OF a(3,4) w(1), of h] by (metis (full_types) prod.collapse)
      then show ?thesis using st[OF e] assms n a(2,5) by (simp add: setUserAuthorization_def)
    qed
    moreover have "removeUserAuthorization E d c h = Some (foreign E d auths h)" for h
    proof -
      obtain out where e: "endUserAuth (aePut E) (aeClose E) h
          (fold (writeDisplayAuth E (aePut E) False d) auths noEntries) = (True, out)"
        using endUserAuth_well[OF a(3,4) w(2), of h] by (metis (full_types) prod.collapse)
      then show ?thesis using re[OF e] assms n a(5) by (simp add: removeUserAuthorization_def)
    qed
    moreover have "foreign E d auths (Some (mine E d auths @ foreign E d auths home)) = foreign E d auths home"
      by (auto simp: foreign_def)
    ultimately show ?thesis by simp
  qed
  show ?thesis using 1 2 3 by auto
qed


definition demoAuthEnv :: authEnv where
  "demoAuthEnv = \<lparr>aeIfs = Some [Some (SaInet [0, 0] [127, 0, 0, 1]), None, Some (SaInet [0, 0] [10, 0, 0, 1])], aeHost = [104],
     aeHome = Some ''/home/u'', aeLock = True, aeCreat = True, aePut = (\<lambda>_ _. True), aeClose = True, aeRename = True,
     aeTemp = (\<lambda>_. None), aeTempPut = (\<lambda>_ _. True), aeTempClose = True\<rparr>"

definition demoCookie :: xentry where
  "demoCookie = \<lparr>xeFamily = 65535, xeAddr = [], xeNumber = [], xeName = MIT_COOKIE, xeData = [1, 2]\<rparr>"

definition demoOld :: "xentry list" where
  "demoOld = [\<lparr>xeFamily = 256, xeAddr = [104], xeNumber = [48], xeName = MIT_COOKIE, xeData = [9]\<rparr>,
     \<lparr>xeFamily = 0, xeAddr = [10, 0, 0, 2], xeNumber = [48], xeName = MIT_COOKIE, xeData = [7]\<rparr>]"

text \<open>The old cookie of the display is replaced, the one for another host stays.\<close>

theorem user_authorizations_witness:
  "let d = (emptyDisplay 0 '':0.0'')\<lparr>displayType := dLocal\<rparr>; c = \<lparr>acAuths = Some [demoCookie], acForce = False, acDir = ''/tmp''\<rparr>;
       r = setUserAuthorization demoAuthEnv d c (Some demoOld) in
   map_option (map (\<lambda>e. (xeFamily e, xeAddr e, xeNumber e, xeData e))) (uaHome r) =
     Some [(0, [10, 0, 0, 1], [48], [1, 2]), (256, [104], [48], [1, 2]), (0, [10, 0, 0, 2], [48], [7])]
   \<and> removeUserAuthorization demoAuthEnv d c (uaHome r) = Some [demoOld ! 1]"
proof -
  let ?d = "(emptyDisplay 0 '':0.0'')\<lparr>displayType := dLocal\<rparr>" and ?c = "\<lparr>acAuths = Some [demoCookie], acForce = False, acDir = ''/tmp''\<rparr>"
  have a: "acAuths ?c = Some [demoCookie]" by simp
  have g: "startUserAuth demoAuthEnv \<noteq> None \<and> \<not> acForce ?c \<and> alwaysPut (aePut demoAuthEnv) \<and> aeClose demoAuthEnv \<and> aeRename demoAuthEnv"
    by (simp add: startUserAuth_def demoAuthEnv_def alwaysPut_def NBSIZE_def)
  have m: "map (\<lambda>e. (xeFamily e, xeAddr e, xeNumber e, xeData e)) (mine demoAuthEnv ?d [demoCookie] @ foreign demoAuthEnv ?d [demoCookie] (Some demoOld))
      = [(0, [10, 0, 0, 1], [48], [1, 2]), (256, [104], [48], [1, 2]), (0, [10, 0, 0, 2], [48], [7])]" by code_simp
  have f: "foreign demoAuthEnv ?d [demoCookie] (Some demoOld) = [demoOld ! 1]" by code_simp
  have h: "uaHome (setUserAuthorization demoAuthEnv ?d ?c (Some demoOld)) =
        Some (mine demoAuthEnv ?d [demoCookie] @ foreign demoAuthEnv ?d [demoCookie] (Some demoOld))
      \<and> removeUserAuthorization demoAuthEnv ?d ?c (uaHome (setUserAuthorization demoAuthEnv ?d ?c (Some demoOld))) =
        Some (foreign demoAuthEnv ?d [demoCookie] (Some demoOld))"
    using user_authorizations[OF a, of demoAuthEnv ?d "Some demoOld"] g by blast
  show ?thesis unfolding Let_def conjunct2[OF h] f unfolding conjunct1[OF h] option.map m by simp
qed

section \<open>Deviations\<close>

text \<open>With \<^verbatim>\<open>ForceUserAuthDir\<close> nothing is written to the home directory, but entries there are removed all the same.\<close>

lemma forced_directory_removes:
  "\<lbrakk>acAuths c = Some auths; acForce c\<rbrakk> \<Longrightarrow>
   uaHome (setUserAuthorization E d c home) = home
   \<and> removeUserAuthorization E d c home = removeUserAuthorization E d (c\<lparr>acForce := False\<rparr>) home"
  by (auto simp: setUserAuthorization_def authFallback_def removeUserAuthorization_def split: option.split prod.split)

text \<open>A long \<^verbatim>\<open>AuthDir\<close> overflows the buffer of the name.\<close>

lemma long_directory_overflows: "375 \<le> length dir \<Longrightarrow> makeServerAuthFile dir True name xs = None"
  by (simp add: makeServerAuthFile_def NAMELEN_def)

end
