(* ===== verification/Login.thy ===== *)
theory Login
  imports DpyList
begin

text \<open>
  Who may log in, the PAM part of \<^verbatim>\<open>verify\<close> in \<^verbatim>\<open>kdm/backend/client.c\<close> and the conversations of
  \<^verbatim>\<open>session.c\<close> that feed it. A PAM stack is what it does: it ends with a result, or asks something and goes on with
  the answer. The greeter's answers are a stream; what is sent to it and the calls of PAM are recorded.
  \<open>None\<close>: the conversation with the greeter broke off, it was addressed while it did not run, a null pointer was
  used, or more than the given number of tries were made to get a password changed. A greeter that has to be started
  starts; memory suffices.
\<close>

section \<open>Accounts\<close>

record passwd =
  pwName :: string
  pwPasswd :: string
  pwUid :: int
  pwGid :: int
  pwDir :: string
  pwShell :: string

record groupEntry =
  grName :: string
  grGid :: int
  grMem :: "string list"

datatype pwSource = PWSRC_MANUAL | PWSRC_AUTOLOGIN | PWSRC_RELOGIN

text \<open>PAM asks a list of messages at once; the answer is missing when the conversation failed.\<close>

datatype pamStyle = PAM_PROMPT_ECHO_OFF | PAM_PROMPT_ECHO_ON | PAM_ERROR_MSG | PAM_TEXT_INFO | PAM_BINARY_PROMPT | PAM_OTHER

datatype pam = PamDone int "string option" | PamAsk "(pamStyle \<times> string) list" "string option list option \<Rightarrow> pam"

record loginEnv =
  leGetpw :: "string \<Rightarrow> passwd option"
  leShadow :: "string \<Rightarrow> string option"
  leGroups :: "groupEntry list"
  leStart :: "string \<Rightarrow> string option \<Rightarrow> int"
  leAuth :: "string \<Rightarrow> string option \<Rightarrow> pam"
  leAcct :: "string \<Rightarrow> string option \<Rightarrow> int"
  leChange :: "string \<Rightarrow> string option \<Rightarrow> nat \<Rightarrow> pam"

record loginCfg =
  lcService :: string
  lcNoPass :: "string list"
  lcAllowRoot :: bool
  lcName :: string
  lcForeign :: bool
  lcAutoUser :: string
  lcAutoPass :: string
  lcAutoDelay :: bool
  lcAutoAgain :: bool
  lcTransient :: bool

abbreviation PAM_SUCCESS :: int where "PAM_SUCCESS \<equiv> 0"
abbreviation PAM_NEW_AUTHTOK_REQD :: int where "PAM_NEW_AUTHTOK_REQD \<equiv> 12"

definition authFailures :: "int set" where
  "authFailures = {7, 9, 10, 11}"

section \<open>The process\<close>

datatype vmsg =
    V_Get nat "string option"
  | V_Msg string "string option"
  | V_AUTH | V_FAIL | V_PUT_USER "string option" | V_CHTOK | V_CHTOK_AUTH | V_PRE_OK | V_OK
  | G_ErrorGreet "string option"

datatype pamCall = PamAuth string "string option" int | PamAcct int | PamChange int

text \<open>The answer to a question: a text, if any, and what the greeter says it is.\<close>

record greply =
  grText :: "string option"
  grTag :: nat

abbreviation V_IS_USER :: nat where "V_IS_USER \<equiv> 2"
abbreviation V_IS_PASSWORD :: nat where "V_IS_PASSWORD \<equiv> 4"
abbreviation V_IS_OLDPASSWORD :: nat where "V_IS_OLDPASSWORD \<equiv> 8"
abbreviation V_IS_NEWPASSWORD :: nat where "V_IS_NEWPASSWORD \<equiv> 16"

record login =
  lgUser :: "string option"
  lgPass :: "string option"
  lgNew :: "string option"
  lgType :: string
  lgSource :: pwSource
  lgNewDmrc :: "string option"
  lgInAuth :: bool
  lgGreeter :: bool
  lgIn :: "greply list"
  lgOut :: "vmsg list"
  lgPam :: "pamCall list"

definition tell :: "vmsg \<Rightarrow> login \<Rightarrow> login" where
  "tell m st = st\<lparr>lgOut := lgOut st @ [m]\<rparr>"

text \<open>A message for a greeter that has to be there.\<close>

definition tellG :: "vmsg \<Rightarrow> login \<Rightarrow> login option" where
  "tellG m st = (if lgGreeter st then Some (tell m st) else None)"

definition prepareErrorGreet :: "login \<Rightarrow> login" where
  "prepareErrorGreet st = (if lgGreeter st then st else tell (G_ErrorGreet (lgUser st)) (st\<lparr>lgGreeter := True\<rparr>))"

definition displayStr :: "string \<Rightarrow> string option \<Rightarrow> login \<Rightarrow> login" where
  "displayStr lv m st = tell (V_Msg lv m) (prepareErrorGreet st)"

definition V_RET :: "login \<Rightarrow> login" where
  "V_RET st = st\<lparr>lgPass := None\<rparr>"

definition V_RET_AUTH :: "login \<Rightarrow> login" where
  "V_RET_AUTH st = V_RET (tell V_AUTH (prepareErrorGreet st))"

definition V_RET_FAIL :: "string option \<Rightarrow> login \<Rightarrow> login" where
  "V_RET_FAIL m st = V_RET (tell V_FAIL (displayStr ''err'' m st))"

section \<open>Conversations\<close>

datatype gconvWhat = GCONV_NORMAL | GCONV_HIDDEN | GCONV_USER | GCONV_PASS | GCONV_PASS_ND | GCONV_BINARY

datatype gconvFunc = Conv_auto | Conv_interact

definition conv_auto :: "gconvWhat \<Rightarrow> login \<Rightarrow> string option" where
  "conv_auto what st = (case what of GCONV_USER \<Rightarrow> lgUser st | GCONV_PASS \<Rightarrow> lgPass st | GCONV_PASS_ND \<Rightarrow> lgPass st | _ \<Rightarrow> None)"

text \<open>The number of a question, as the table \<open>grqs\<close> has it.\<close>

definition grqs :: "gconvWhat \<Rightarrow> nat" where
  "grqs what = (case what of GCONV_NORMAL \<Rightarrow> 0 | GCONV_HIDDEN \<Rightarrow> 1 | GCONV_USER \<Rightarrow> 2 | GCONV_PASS \<Rightarrow> 3 | GCONV_PASS_ND \<Rightarrow> 4 | GCONV_BINARY \<Rightarrow> 5)"

definition hasTag :: "nat \<Rightarrow> nat \<Rightarrow> bool" where
  "hasTag t v \<longleftrightarrow> odd (t div v)"

definition conv_interact :: "gconvWhat \<Rightarrow> string option \<Rightarrow> login \<Rightarrow> (string option \<times> login) option" where
  "conv_interact what prompt st =
     (case tellG (V_Get (grqs what) prompt) st of None \<Rightarrow> None
      | Some st \<Rightarrow>
      case lgIn st of [] \<Rightarrow> None
      | r # rs \<Rightarrow>
          let st = st\<lparr>lgIn := rs\<rparr> in
          case grText r of None \<Rightarrow> Some (None, st)
          | Some t \<Rightarrow>
              Some (case what of
                GCONV_USER \<Rightarrow> (Some t, st\<lparr>lgUser := Some t\<rparr>)
              | GCONV_PASS \<Rightarrow> (Some t, st\<lparr>lgPass := Some t\<rparr>)
              | GCONV_PASS_ND \<Rightarrow> (Some t, st\<lparr>lgPass := Some t\<rparr>)
              | GCONV_BINARY \<Rightarrow> (Some t, st)
              | _ \<Rightarrow>
                  if hasTag (grTag r) V_IS_USER then (Some t, st\<lparr>lgUser := Some t\<rparr>)
                  else if hasTag (grTag r) V_IS_PASSWORD then (Some t, st\<lparr>lgPass := Some t\<rparr>)
                  else if hasTag (grTag r) V_IS_NEWPASSWORD then (Some t, st\<lparr>lgNew := Some t\<rparr>)
                  else if hasTag (grTag r) V_IS_OLDPASSWORD then (lgPass st, st)
                  else (Some t, st)))"

definition gconv :: "gconvFunc \<Rightarrow> gconvWhat \<Rightarrow> string option \<Rightarrow> login \<Rightarrow> (string option \<times> login) option" where
  "gconv f what prompt st =
     (case f of Conv_auto \<Rightarrow> Some (conv_auto what st, st) | Conv_interact \<Rightarrow> conv_interact what prompt st)"

text \<open>
  The answer to one question (\<open>Some None\<close>: none could be made, which is an error of the module), and what is said of
  a message.
\<close>

definition PAM_answer ::
    "gconvFunc \<Rightarrow> bool \<Rightarrow> pamStyle \<Rightarrow> string \<Rightarrow> login \<Rightarrow> (string option \<times> login) option option" where
  "PAM_answer f usecur style msg st =
     (if usecur then
        (if style = PAM_PROMPT_ECHO_OFF then
           (if lgPass st = None then
              (case gconv f GCONV_PASS None st of None \<Rightarrow> None | Some (r, st) \<Rightarrow> Some (Some (lgPass st, st)))
            else Some (Some (lgPass st, st)))
         else Some None)
      else if style = PAM_PROMPT_ECHO_ON then map_option Some (gconv f GCONV_NORMAL (Some msg) st)
      else if style = PAM_PROMPT_ECHO_OFF then map_option Some (gconv f GCONV_HIDDEN (Some msg) st)
      else if style = PAM_BINARY_PROMPT then map_option Some (gconv f GCONV_BINARY (Some msg) st)
      else Some None)"

definition PAM_says :: "pamStyle \<Rightarrow> string \<Rightarrow> login \<Rightarrow> login" where
  "PAM_says style msg st =
     displayStr (if style = PAM_ERROR_MSG then ''err'' else if lgInAuth st then ''info_auth'' else ''info'') (Some msg) st"

text \<open>The texts answered, or none when the conversation failed; the flag says that it was aborted.\<close>

fun PAM_conv ::
    "gconvFunc \<Rightarrow> bool \<Rightarrow> (pamStyle \<times> string) list \<Rightarrow> login \<Rightarrow> (string option list option \<times> bool \<times> login) option" where
  "PAM_conv f usecur [] st = Some (Some [], False, st)"
| "PAM_conv f usecur ((style, msg) # ms) st =
     (if style = PAM_TEXT_INFO \<or> style = PAM_ERROR_MSG then
        map_option (apfst (map_option ((#) None))) (PAM_conv f usecur ms (PAM_says style msg st))
      else
        case PAM_answer f usecur style msg st of
          None \<Rightarrow> None
        | Some None \<Rightarrow> Some (None, False, st)
        | Some (Some (None, st)) \<Rightarrow> Some (None, True, st)
        | Some (Some (Some t, st)) \<Rightarrow> map_option (apfst (map_option ((#) (Some t)))) (PAM_conv f usecur ms st))"

text \<open>A PAM stack at work: its result, the user it knows and whether a conversation was aborted.\<close>

primrec runPam :: "gconvFunc \<Rightarrow> bool \<Rightarrow> pam \<Rightarrow> bool \<Rightarrow> login \<Rightarrow> (int \<times> string option \<times> bool \<times> login) option" where
  "runPam f usecur (PamDone r u) ab st = Some (r, u, ab, st)"
| "runPam f usecur (PamAsk ms k) ab st =
     (case PAM_conv f usecur ms st of None \<Rightarrow> None
      | Some (rep, b, st) \<Rightarrow> runPam f usecur (k rep) (ab \<or> b) st)"

section \<open>Verification\<close>

definition isNoPassAllowed :: "loginEnv \<Rightarrow> loginCfg \<Rightarrow> pwSource \<Rightarrow> string \<Rightarrow> bool" where
  "isNoPassAllowed E c src un =
     (if un = [] then False
      else if src \<noteq> PWSRC_MANUAL then True
      else case leGetpw E un of None \<Rightarrow> False
      | Some pw \<Rightarrow>
          if take 1 (pwPasswd pw) \<in> {''!'', ''*''} then False
          else if (case leShadow E un of None \<Rightarrow> False | Some s \<Rightarrow> take 1 s \<in> {''!'', ''*''}) then False
          else if \<exists>fp \<in> set (lcNoPass c). take 1 fp \<noteq> ''@'' \<and> (fp = pwName pw \<or> fp = ''*'' \<and> pwUid pw \<noteq> 0) then True
          else \<exists>gr \<in> set (leGroups E). CHR ''@'' # grName gr \<in> set (lcNoPass c) \<and>
                 (pwGid pw = grGid gr \<or> pwName pw \<in> set (grMem gr)))"

text \<open>
  The result, whether the conversation was aborted, and the process. The host of a remote display is its name up to
  the colon.
\<close>

definition askPamForUser :: "string option \<Rightarrow> login \<Rightarrow> login option" where
  "askPamForUser item st =
     (if lgUser st = None then tellG (V_PUT_USER item) (st\<lparr>lgUser := item\<rparr>) else Some st)"

definition pamVerdict :: "int \<Rightarrow> login \<Rightarrow> bool \<times> bool \<times> login" where
  "pamVerdict r st =
     (if r = PAM_SUCCESS then (True, False, st)
      else if r \<in> authFailures then (False, False, V_RET_AUTH st)
      else (False, False, V_RET_FAIL None st))"

definition doPAMAuth ::
    "loginEnv \<Rightarrow> loginCfg \<Rightarrow> string \<Rightarrow> gconvFunc \<Rightarrow> bool \<Rightarrow> login \<Rightarrow> (bool \<times> bool \<times> login) option" where
  "doPAMAuth E c psrv f usecur st =
     (if leStart E psrv (lgUser st) \<noteq> PAM_SUCCESS then Some (False, False, V_RET_FAIL None st)
      else if lcForeign c \<and> CHR '':'' \<notin> set (lcName c) then None
      else
        case runPam f usecur (leAuth E psrv (lgUser st)) False (st\<lparr>lgInAuth := True\<rparr>) of None \<Rightarrow> None
        | Some (r, item, ab, st1) \<Rightarrow>
            let st1 = st1\<lparr>lgInAuth := False, lgPam := lgPam st1 @ [PamAuth psrv (lgUser st) r]\<rparr> in
            if ab then Some (False, True, V_RET st1)
            else map_option (pamVerdict r) (askPamForUser item st1))"

text \<open>
  \<open>while (!doPAMAuth(..)) if (pdata.abort) return False;\<close>; the user is the one the last PAM handle was made for.
\<close>

fun authAgain ::
    "nat \<Rightarrow> loginEnv \<Rightarrow> loginCfg \<Rightarrow> string \<Rightarrow> login \<Rightarrow> (bool \<times> string option \<times> login) option" where
  "authAgain 0 E c psrv st = None"
| "authAgain (Suc n) E c psrv st =
     (case doPAMAuth E c psrv Conv_interact False st of None \<Rightarrow> None
      | Some (True, ab, st1) \<Rightarrow> Some (True, lgUser st, st1)
      | Some (False, True, st1) \<Rightarrow> Some (False, lgUser st, st1)
      | Some (False, False, st1) \<Rightarrow> authAgain n E c psrv st1)"

text \<open>The password is changed; \<open>i\<close> counts the calls of PAM.\<close>

fun changeToken ::
    "nat \<Rightarrow> loginEnv \<Rightarrow> string \<Rightarrow> string option \<Rightarrow> nat \<Rightarrow> login \<Rightarrow> (bool \<times> login) option" where
  "changeToken 0 E psrv usr i st = None"
| "changeToken (Suc n) E psrv usr i st =
     (case runPam Conv_interact False (leChange E psrv usr i) False (st\<lparr>lgInAuth := True\<rparr>) of None \<Rightarrow> None
      | Some (r, item, ab, st) \<Rightarrow>
          let st = st\<lparr>lgInAuth := False, lgPam := lgPam st @ [PamChange r]\<rparr> in
          if ab then Some (False, V_RET st)
          else if r = PAM_SUCCESS then Some (True, st\<lparr>lgPass := lgNew st, lgNew := None\<rparr>)
          else case tellG V_FAIL st of None \<Rightarrow> None | Some st \<Rightarrow> changeToken n E psrv usr (Suc i) st)"

text \<open>A password that is due is changed, after the user has proved who he is if he has not been asked yet.\<close>

definition renewToken ::
    "nat \<Rightarrow> loginEnv \<Rightarrow> loginCfg \<Rightarrow> gconvFunc \<Rightarrow> bool \<Rightarrow> string \<Rightarrow> string option \<Rightarrow> login \<Rightarrow> (bool \<times> login) option" where
  "renewToken n E c f pnopass psrv usr st =
     (if f \<noteq> Conv_interact \<or> pnopass then
        (case tellG V_CHTOK_AUTH st of None \<Rightarrow> None
         | Some st \<Rightarrow>
         case authAgain n E c (lcService c) st of None \<Rightarrow> None
         | Some (False, usr, st) \<Rightarrow> Some (False, st)
         | Some (True, usr, st) \<Rightarrow>
             (case tellG V_PRE_OK st of None \<Rightarrow> None
              | Some st \<Rightarrow> changeToken n E (lcService c) usr 0 st))
      else case tellG V_CHTOK st of None \<Rightarrow> None | Some st \<Rightarrow> changeToken n E psrv usr 0 st)"

text \<open>The account is checked; \<open>usr\<close> is the user the PAM handle was made for, with the service \<open>psrv\<close>.\<close>

definition checkAccount ::
    "nat \<Rightarrow> loginEnv \<Rightarrow> loginCfg \<Rightarrow> gconvFunc \<Rightarrow> bool \<Rightarrow> bool \<Rightarrow> string \<Rightarrow> string option \<Rightarrow> login \<Rightarrow> (bool \<times> login) option" where
  "checkAccount n E c f rootok pnopass psrv usr st =
     (case lgUser st of None \<Rightarrow> None
      | Some u \<Rightarrow>
          (case leGetpw E u of None \<Rightarrow> Some (False, V_RET_FAIL None st)
           | Some pw \<Rightarrow>
               if pwUid pw = 0 then
                 (if \<not> rootok \<and> \<not> lcAllowRoot c then Some (False, V_RET_FAIL (Some ''Root logins are not allowed'') st)
                  else Some (True, st\<lparr>lgPass := None\<rparr>))
               else
                 let r = leAcct E psrv usr; st = st\<lparr>lgPam := lgPam st @ [PamAcct r]\<rparr> in
                 if r = PAM_NEW_AUTHTOK_REQD then renewToken n E c f pnopass psrv usr st
                 else if r \<noteq> PAM_SUCCESS then Some (False, V_RET_AUTH st)
                 else Some (True, st)))"

definition npService :: "loginCfg \<Rightarrow> string" where
  "npService c = take 31 (lcService c) @ ''-np''"

definition typeService :: "loginCfg \<Rightarrow> string \<Rightarrow> string" where
  "typeService c t = take 31 (lcService c) @ ''-'' @ take 31 t"

definition authenticate ::
    "nat \<Rightarrow> loginEnv \<Rightarrow> loginCfg \<Rightarrow> gconvFunc \<Rightarrow> bool \<Rightarrow> string \<Rightarrow> bool \<Rightarrow> bool \<Rightarrow> login \<Rightarrow> (bool \<times> login) option" where
  "authenticate n E c f rootok psrv usecur pnopass st =
     (case doPAMAuth E c psrv f usecur st of None \<Rightarrow> None
      | Some (False, ab, st1) \<Rightarrow> Some (False, st1)
      | Some (True, ab, st1) \<Rightarrow> checkAccount n E c f rootok pnopass psrv (lgUser st) st1)"

definition verify :: "nat \<Rightarrow> loginEnv \<Rightarrow> loginCfg \<Rightarrow> gconvFunc \<Rightarrow> bool \<Rightarrow> login \<Rightarrow> (bool \<times> login) option" where
  "verify n E c f rootok st =
     (if lgType st \<noteq> ''classic'' then authenticate n E c f rootok (typeService c (lgType st)) False False st
      else
        case gconv f GCONV_USER None st of None \<Rightarrow> None
        | Some (None, st) \<Rightarrow> Some (False, st)
        | Some (Some _, st) \<Rightarrow>
            if isNoPassAllowed E c (lgSource st) (case lgUser st of None \<Rightarrow> [] | Some u \<Rightarrow> u) then
              (case gconv f GCONV_PASS_ND None st of None \<Rightarrow> None
               | Some (_, st) \<Rightarrow>
                   if lgPass st \<in> {None, Some []} then authenticate n E c f rootok (npService c) True True st
                   else authenticate n E c f rootok (lcService c) True False st)
            else authenticate n E c f rootok (lcService c) True False st)"

section \<open>The requests that lead to it\<close>

text \<open>The greeter's \<open>G_Verify\<close>, \<open>G_VerifyRootOK\<close> and \<open>G_AutoLogin\<close>.\<close>

definition doAutoLogon :: "loginCfg \<Rightarrow> login \<Rightarrow> login" where
  "doAutoLogon c st =
     st\<lparr>lgUser := Some (lcAutoUser c), lgPass := Some (lcAutoPass c), lgType := ''classic'', lgSource := PWSRC_AUTOLOGIN\<rparr>"

datatype verifyCmd = G_Verify string | G_VerifyRootOK string | G_AutoLogin

definition verifyFor :: "nat \<Rightarrow> loginEnv \<Rightarrow> loginCfg \<Rightarrow> verifyCmd \<Rightarrow> login \<Rightarrow> (bool \<times> login) option" where
  "verifyFor n E c cmd st =
     (case cmd of
       G_Verify ty \<Rightarrow>
         verify n E c Conv_interact False (st\<lparr>lgUser := None, lgPass := None, lgType := ty, lgSource := PWSRC_MANUAL\<rparr>)
     | G_VerifyRootOK ty \<Rightarrow>
         verify n E c Conv_interact True (st\<lparr>lgUser := None, lgPass := None, lgType := ty, lgSource := PWSRC_MANUAL\<rparr>)
     | G_AutoLogin \<Rightarrow> verify n E c Conv_auto False (doAutoLogon c st))"

definition ctrlVerify :: "nat \<Rightarrow> loginEnv \<Rightarrow> loginCfg \<Rightarrow> verifyCmd \<Rightarrow> login \<Rightarrow> login option" where
  "ctrlVerify n E c cmd st =
     (case verifyFor n E c cmd st of None \<Rightarrow> None
      | Some (True, st) \<Rightarrow> tellG V_OK st
      | Some (False, st) \<Rightarrow> Some st)"

text \<open>
  The login without a greeter; \<open>shift\<close> says that the key is held down, \<open>tdiff\<close> is the time since the last session.
\<close>

definition autoLogon :: "loginCfg \<Rightarrow> bool \<Rightarrow> int \<Rightarrow> disphist \<Rightarrow> login \<Rightarrow> bool \<times> disphist \<times> login" where
  "autoLogon c shift tdiff h st =
     (if rLogin h = 2 \<or> rLogin h = 1 \<and> tdiff \<le> 0 \<and> \<not> goodExit h \<and> \<not> lock h then
        (True, h\<lparr>nuser := None, npass := None, nargs := None\<rparr>,
         st\<lparr>lgUser := nuser h, lgPass := npass h, lgNewDmrc := nargs h, lgType := ''classic'',
            lgSource := (if rLogin h = 1 then PWSRC_RELOGIN else PWSRC_MANUAL)\<rparr>)
      else if lcAutoUser c \<noteq> [] \<and> \<not> lcAutoDelay c \<and>
          (tdiff > 0 \<and> (lcTransient c \<or> lastExit h = 0) \<or> lcAutoAgain c) then
        if shift then (False, h, st) else (True, h, doAutoLogon c st)
      else (False, h, st))"

text \<open>What \<^verbatim>\<open>manageSession\<close> begins with: the result of the login, if there was one.\<close>

definition firstLogin ::
    "nat \<Rightarrow> loginEnv \<Rightarrow> loginCfg \<Rightarrow> bool \<Rightarrow> int \<Rightarrow> disphist \<Rightarrow> login \<Rightarrow> (bool option \<times> disphist \<times> login) option" where
  "firstLogin n E c shift tdiff h st =
     (case autoLogon c shift tdiff h st of
       (False, h, st) \<Rightarrow> Some (None, h, st)
     | (True, h, st) \<Rightarrow> map_option (\<lambda>(r, st). (Some r, h, st)) (verify n E c Conv_auto False st))"

section \<open>What the conversations leave alone\<close>

definition sameLogin :: "login \<Rightarrow> login \<Rightarrow> bool" where
  "sameLogin st st' \<longleftrightarrow> lgPam st' = lgPam st \<and> lgType st' = lgType st \<and> lgSource st' = lgSource st"

lemma sameLogin_refl [simp]: "sameLogin st st"
  by (simp add: sameLogin_def)

lemma sameLogin_trans: "sameLogin a b \<Longrightarrow> sameLogin b c \<Longrightarrow> sameLogin a c"
  by (simp add: sameLogin_def)

lemma sameLogin_talk [simp]:
  "sameLogin st (tell m st)" "sameLogin st (prepareErrorGreet st)" "sameLogin st (displayStr lv m' st)" "sameLogin st (V_RET st)"
  "sameLogin st (V_RET_AUTH st)" "sameLogin st (V_RET_FAIL m' st)"
  by (simp_all add: sameLogin_def tell_def prepareErrorGreet_def displayStr_def V_RET_def V_RET_AUTH_def V_RET_FAIL_def)

lemma sameLoginD: "sameLogin st st' \<Longrightarrow> lgPam st' = lgPam st"
  by (simp add: sameLogin_def)

lemmas lgPam_talk [simp] = sameLogin_talk [THEN sameLoginD]

lemma lgUser_talk [simp]:
  "lgUser (tell m st) = lgUser st" "lgUser (prepareErrorGreet st) = lgUser st"
  "lgUser (displayStr lv m' st) = lgUser st" "lgUser (V_RET st) = lgUser st"
  by (simp_all add: tell_def prepareErrorGreet_def displayStr_def V_RET_def)

lemma tellG_Some: "tellG m st = Some st' \<Longrightarrow> sameLogin st st' \<and> lgUser st' = lgUser st"
  by (auto simp: tellG_def split: if_splits)

lemma conv_interact_same: "conv_interact what p st = Some (r, st') \<Longrightarrow> sameLogin st st'"
  by (auto simp: conv_interact_def Let_def sameLogin_def dest!: tellG_Some split: option.splits list.splits gconvWhat.splits if_splits)

lemma gconv_same: "gconv f what p st = Some (r, st') \<Longrightarrow> sameLogin st st'"
  by (auto simp: gconv_def dest: conv_interact_same split: gconvFunc.splits)

lemma gconv_user: "gconv f GCONV_USER p st = Some (Some u, st') \<Longrightarrow> lgUser st' = Some u"
  by (auto simp: gconv_def conv_auto_def conv_interact_def Let_def split: gconvFunc.splits option.splits list.splits)

lemma gconv_pass:
  "gconv f what p st = Some (r, st') \<Longrightarrow> what \<in> {GCONV_PASS, GCONV_PASS_ND} \<Longrightarrow> lgUser st' = lgUser st"
  by (auto simp: gconv_def conv_interact_def Let_def dest!: tellG_Some
      split: gconvFunc.splits option.splits list.splits)

lemma PAM_answer_same:
  "PAM_answer f usecur style msg st = Some (Some (r, st')) \<Longrightarrow> sameLogin st st' \<and> (usecur \<longrightarrow> lgUser st' = lgUser st)"
  by (auto simp: PAM_answer_def dest: gconv_same gconv_pass split: if_splits option.splits)

lemma PAM_says_same [simp]: "sameLogin st (PAM_says style msg st)" "lgUser (PAM_says style msg st) = lgUser st"
  by (simp_all add: PAM_says_def)

lemma PAM_conv_same:
  "PAM_conv f usecur ms st = Some (r, ab, st') \<Longrightarrow> sameLogin st st' \<and> (usecur \<longrightarrow> lgUser st' = lgUser st)"
proof (induction f usecur ms st arbitrary: r ab st' rule: PAM_conv.induct)
  case (2 f usecur style msg ms st)
  show ?case
  proof (cases "style = PAM_TEXT_INFO \<or> style = PAM_ERROR_MSG")
    case True
    then obtain r' where "PAM_conv f usecur ms (PAM_says style msg st) = Some (r', ab, st')"
      using "2.prems" by auto
    from "2.IH"(1)[OF True this] show ?thesis by (metis PAM_says_same sameLogin_trans)
  next
    case False
    show ?thesis
    proof (cases "PAM_answer f usecur style msg st")
      case None
      with False "2.prems" show ?thesis by simp
    next
      case (Some q)
      show ?thesis
      proof (cases q)
        case None
        with Some False "2.prems" show ?thesis by auto
      next
        case q: (Some a)
        obtain t st1 where a: "a = (t, st1)" by (cases a)
        have k: "sameLogin st st1 \<and> (usecur \<longrightarrow> lgUser st1 = lgUser st)" using PAM_answer_same Some q a by blast
        show ?thesis
        proof (cases t)
          case None
          with Some q a False "2.prems" k show ?thesis by auto
        next
          case t: (Some x)
          then obtain r' where "PAM_conv f usecur ms st1 = Some (r', ab, st')"
            using "2.prems" False Some q a by auto
          from "2.IH"(2)[OF False Some q a[symmetric] t this] k show ?thesis by (metis sameLogin_trans)
        qed
      qed
    qed
  qed
qed simp

lemma runPam_same:
  "runPam f usecur p ab st = Some (r, it, ab', st') \<Longrightarrow> sameLogin st st' \<and> (usecur \<longrightarrow> lgUser st' = lgUser st)"
proof (induction p arbitrary: ab st)
  case (PamAsk ms k)
  then obtain rep b st1 where c: "PAM_conv f usecur ms st = Some (rep, b, st1)"
    and "runPam f usecur (k rep) (ab \<or> b) st1 = Some (r, it, ab', st')"
    by (auto split: option.splits)
  from PamAsk.IH[OF rangeI this(2)] PAM_conv_same[OF c] show ?case by (metis sameLogin_trans)
qed simp

section \<open>What the authentications record\<close>

lemma doPAMAuth_D:
  assumes "doPAMAuth E c psrv f usecur st = Some (r, ab, st')"
  shows "\<exists>more. lgPam st' = lgPam st @ more \<and> (r \<longrightarrow> more = [PamAuth psrv (lgUser st) 0]) \<and>
    (r \<longrightarrow> usecur \<longrightarrow> lgUser st \<noteq> None \<longrightarrow> lgUser st' = lgUser st)"
proof (cases "leStart E psrv (lgUser st) \<noteq> PAM_SUCCESS")
  case True
  with assms show ?thesis by (auto simp: doPAMAuth_def sameLoginD)
next
  case False
  from assms False obtain res it b st1 where
    run: "runPam f usecur (leAuth E psrv (lgUser st)) False (st\<lparr>lgInAuth := True\<rparr>) = Some (res, it, b, st1)"
    by (auto simp: doPAMAuth_def Let_def split: if_splits option.splits)
  let ?st1 = "st1\<lparr>lgInAuth := False, lgPam := lgPam st1 @ [PamAuth psrv (lgUser st) res]\<rparr>"
  have k: "lgPam st1 = lgPam st" "usecur \<Longrightarrow> lgUser st1 = lgUser st"
    using runPam_same[OF run] by (auto simp: sameLogin_def)
  show ?thesis
  proof (cases b)
    case True
    with assms False run k show ?thesis by (auto simp: doPAMAuth_def V_RET_def split: if_splits)
  next
    case b: False
    with assms False run obtain st2 where
      "askPamForUser it ?st1 = Some st2" and v: "pamVerdict res st2 = (r, ab, st')"
      by (auto simp: doPAMAuth_def Let_def split: if_splits)
    then have u: "sameLogin ?st1 st2 \<and> (lgUser st1 \<noteq> None \<longrightarrow> lgUser st2 = lgUser st1)"
      by (auto simp: askPamForUser_def tellG_def tell_def sameLogin_def split: if_splits)
    have w: "lgPam st' = lgPam st2" "r \<longleftrightarrow> res = 0" "res = 0 \<Longrightarrow> st' = st2"
      using v by (auto simp: pamVerdict_def split: if_splits)
    have "lgPam st' = lgPam st @ [PamAuth psrv (lgUser st) res]"
      using u w(1) k(1) by (simp add: sameLogin_def)
    then show ?thesis using u w k by auto
  qed
qed

lemma authAgain_D:
  "authAgain n E c psrv st = Some (r, usr, st') \<Longrightarrow>
   \<exists>more. lgPam st' = lgPam st @ more \<and> (r \<longrightarrow> more \<noteq> [] \<and> last more = PamAuth psrv usr 0)"
proof (induction n arbitrary: st)
  case (Suc n)
  from Suc.prems obtain q ab st1 where d: "doPAMAuth E c psrv Conv_interact False st = Some (q, ab, st1)"
    by (auto split: option.splits)
  from doPAMAuth_D[OF d] obtain m where
    m: "lgPam st1 = lgPam st @ m" "q \<longrightarrow> m = [PamAuth psrv (lgUser st) 0]" by blast
  show ?case
  proof (cases "q \<or> ab")
    case True
    with Suc.prems d m show ?thesis by (cases q) auto
  next
    case False
    then have "authAgain n E c psrv st1 = Some (r, usr, st')" using Suc.prems d by simp
    from Suc.IH[OF this] obtain m' where "lgPam st' = lgPam st1 @ m'" "r \<longrightarrow> m' \<noteq> [] \<and> last m' = PamAuth psrv usr 0"
      by blast
    then show ?thesis using m by (intro exI[of _ "m @ m'"]) simp
  qed
qed simp

lemma changeToken_D:
  "changeToken n E psrv usr i st = Some (r, st') \<Longrightarrow>
   \<exists>more. lgPam st' = lgPam st @ more \<and> (r \<longrightarrow> more \<noteq> [] \<and> last more = PamChange 0)"
proof (induction n arbitrary: i st)
  case (Suc n)
  from Suc.prems obtain q it ab st1 where
    run: "runPam Conv_interact False (leChange E psrv usr i) False (st\<lparr>lgInAuth := True\<rparr>) = Some (q, it, ab, st1)"
    by (auto split: option.splits)
  have k: "lgPam st1 = lgPam st" using runPam_same[OF run] by (simp add: sameLogin_def)
  show ?case
  proof (cases "ab \<or> q = 0")
    case True
    with Suc.prems run k show ?thesis by (cases ab) (auto simp: V_RET_def)
  next
    case False
    then obtain st2 where t: "tellG V_FAIL (st1\<lparr>lgInAuth := False, lgPam := lgPam st1 @ [PamChange q]\<rparr>) = Some st2"
      and g: "changeToken n E psrv usr (Suc i) st2 = Some (r, st')"
      using Suc.prems run by (auto split: option.splits)
    have "lgPam st2 = lgPam st @ [PamChange q]" using tellG_Some[OF t] k by (simp add: sameLogin_def)
    with Suc.IH[OF g] show ?thesis by auto
  qed
qed simp

lemma renewToken_D:
  assumes "renewToken n E c f np psrv usr st = Some (True, st')"
  shows "\<exists>more. lgPam st' = lgPam st @ more \<and> more \<noteq> [] \<and> last more = PamChange 0 \<and>
    (f \<noteq> Conv_interact \<or> np \<longrightarrow> (\<exists>who. PamAuth (lcService c) who 0 \<in> set more))"
proof (cases "f \<noteq> Conv_interact \<or> np")
  case True
  with assms obtain st1 who st2 st3 where t: "tellG V_CHTOK_AUTH st = Some st1"
    and a: "authAgain n E c (lcService c) st1 = Some (True, who, st2)"
    and t2: "tellG V_PRE_OK st2 = Some st3" and ch: "changeToken n E (lcService c) who 0 st3 = Some (True, st')"
    by (auto simp: renewToken_def split: option.splits bool.splits)
  from authAgain_D[OF a] obtain m where m: "lgPam st2 = lgPam st1 @ m" "m \<noteq> []" "last m = PamAuth (lcService c) who 0"
    by blast
  from changeToken_D[OF ch] obtain m' where m': "lgPam st' = lgPam st3 @ m'" "m' \<noteq> []" "last m' = PamChange 0" by blast
  have "lgPam st1 = lgPam st" "lgPam st3 = lgPam st2" using tellG_Some t t2 sameLoginD by blast+
  moreover have "PamAuth (lcService c) who 0 \<in> set (m @ m')" using m(2,3) by (metis UnCI last_in_set set_append)
  ultimately show ?thesis using m m' by (intro exI[of _ "m @ m'"]) auto
next
  case False
  with assms obtain st1 where t: "tellG V_CHTOK st = Some st1" and ch: "changeToken n E psrv usr 0 st1 = Some (True, st')"
    by (auto simp: renewToken_def split: option.splits)
  have "lgPam st1 = lgPam st" using tellG_Some t sameLoginD by blast
  with changeToken_D[OF ch] False show ?thesis by auto
qed

section \<open>A refusal leaves no password\<close>

lemma V_RET_wipes [simp]: "lgPass (V_RET st) = None" "lgPass (V_RET_AUTH st) = None" "lgPass (V_RET_FAIL m st) = None"
  by (simp_all add: V_RET_def V_RET_AUTH_def V_RET_FAIL_def)

lemma doPAMAuth_wipes: "doPAMAuth E c psrv f usecur st = Some (False, ab, st') \<Longrightarrow> lgPass st' = None"
  by (auto simp: doPAMAuth_def pamVerdict_def Let_def split: if_splits option.splits prod.splits)

lemma authAgain_wipes: "authAgain n E c psrv st = Some (False, usr, st') \<Longrightarrow> lgPass st' = None"
  by (induction n arbitrary: st) (auto dest: doPAMAuth_wipes split: option.splits bool.splits)

lemma changeToken_wipes: "changeToken n E psrv usr i st = Some (False, st') \<Longrightarrow> lgPass st' = None"
  by (induction n arbitrary: i st) (auto simp: Let_def split: option.splits if_splits prod.splits)

lemma renewToken_wipes: "renewToken n E c f np psrv usr st = Some (False, st') \<Longrightarrow> lgPass st' = None"
  by (auto simp: renewToken_def dest: authAgain_wipes changeToken_wipes split: option.splits if_splits bool.splits)

lemma authenticate_wipes:
  assumes "authenticate n E c f rootok psrv usecur np st = Some (False, st')"
  shows "lgPass st' = None"
proof (cases "\<exists>ab. doPAMAuth E c psrv f usecur st = Some (False, ab, st')")
  case True
  then show ?thesis using doPAMAuth_wipes by blast
next
  case False
  with assms obtain st1 where "checkAccount n E c f rootok np psrv (lgUser st) st1 = Some (False, st')"
    by (auto simp: authenticate_def split: option.splits bool.splits)
  then show ?thesis
    by (auto simp: checkAccount_def Let_def dest: renewToken_wipes split: option.splits if_splits)
qed

text \<open>Only a greeter that gives no user name gets by without the password being forgotten; there was none then.\<close>

theorem verify_wipes:
  assumes "verify n E c f rootok st = Some (False, st')"
  shows "lgPass st' = None \<or> lgType st = ''classic'' \<and> gconv f GCONV_USER None st = Some (None, st')"
  using assms
  by (auto simp: verify_def dest!: authenticate_wipes split: if_splits option.splits)

section \<open>Who is let in\<close>

text \<open>
  What follows the authentication of a user who is let in: nothing for root, who has to be allowed; else an account
  that is in order, or a password that is due and changed, by somebody who has given a password if none was asked for.
\<close>

definition accountPassed ::
    "loginCfg \<Rightarrow> gconvFunc \<Rightarrow> bool \<Rightarrow> bool \<Rightarrow> string \<Rightarrow> passwd \<Rightarrow> pamCall list \<Rightarrow> login \<Rightarrow> bool" where
  "accountPassed c f rootok np u pw rest st' \<longleftrightarrow>
     (if pwUid pw = 0 then (rootok \<or> lcAllowRoot c) \<and> rest = [] \<and> lgUser st' = Some u \<and> lgPass st' = None
      else rest = [PamAcct 0] \<and> lgUser st' = Some u \<or>
        (\<exists>more. rest = PamAcct 12 # more \<and> more \<noteq> [] \<and> last more = PamChange 0 \<and>
          (f \<noteq> Conv_interact \<or> np \<longrightarrow> (\<exists>who. PamAuth (lcService c) who 0 \<in> set more))))"

lemma checkAccount_D:
  assumes "checkAccount n E c f rootok np psrv usr st = Some (True, st')"
  shows "\<exists>u pw rest. lgUser st = Some u \<and> leGetpw E u = Some pw \<and> lgPam st' = lgPam st @ rest \<and>
    accountPassed c f rootok np u pw rest st'"
proof -
  from assms obtain u pw where u: "lgUser st = Some u" and pw: "leGetpw E u = Some pw"
    by (auto simp: checkAccount_def split: option.splits)
  let ?st = "st\<lparr>lgPam := lgPam st @ [PamAcct (leAcct E psrv usr)]\<rparr>"
  consider "pwUid pw = 0" | "pwUid pw \<noteq> 0" "leAcct E psrv usr = 12" | "pwUid pw \<noteq> 0" "leAcct E psrv usr \<noteq> 12" by blast
  then show ?thesis
  proof cases
    case 2
    with assms u pw have "renewToken n E c f np psrv usr ?st = Some (True, st')" by (simp add: checkAccount_def Let_def)
    from renewToken_D[OF this] 2 u pw show ?thesis by (auto simp: accountPassed_def)
  qed (use assms u pw in \<open>auto simp: checkAccount_def Let_def accountPassed_def split: if_splits\<close>)
qed

lemma authenticate_D:
  assumes "authenticate n E c f rootok psrv usecur np st = Some (True, st')"
  shows "\<exists>u pw rest. leGetpw E u = Some pw \<and> lgPam st' = lgPam st @ PamAuth psrv (lgUser st) 0 # rest \<and>
    (usecur \<longrightarrow> lgUser st \<noteq> None \<longrightarrow> lgUser st = Some u) \<and>
    accountPassed c f rootok np u pw rest st'"
proof -
  from assms obtain ab st1 where d: "doPAMAuth E c psrv f usecur st = Some (True, ab, st1)"
    and ca: "checkAccount n E c f rootok np psrv (lgUser st) st1 = Some (True, st')"
    by (auto simp: authenticate_def split: option.splits bool.splits)
  from doPAMAuth_D[OF d] have m: "lgPam st1 = lgPam st @ [PamAuth psrv (lgUser st) 0]"
    "usecur \<Longrightarrow> lgUser st \<noteq> None \<Longrightarrow> lgUser st1 = lgUser st" by auto
  from checkAccount_D[OF ca] m show ?thesis by fastforce
qed

lemma gconv_auto_user: "gconv Conv_auto GCONV_USER p st = Some (Some u, st') \<Longrightarrow> lgUser st = Some u"
  by (auto simp: gconv_def conv_auto_def)

text \<open>Without a greeter the user is the one the process has been given.\<close>

lemma verify_passed:
  assumes "verify n E c f rootok st = Some (True, st')"
  shows "\<exists>np psrv usr u pw rest.
    lgPam st' = lgPam st @ PamAuth psrv usr 0 # rest \<and>
    psrv = (if lgType st \<noteq> ''classic'' then typeService c (lgType st) else if np then npService c else lcService c) \<and>
    (lgType st = ''classic'' \<longrightarrow> usr = Some u \<and> (f = Conv_auto \<longrightarrow> lgUser st = Some u)) \<and>
    (np \<longrightarrow> lgType st = ''classic'' \<and> isNoPassAllowed E c (lgSource st) u) \<and>
    leGetpw E u = Some pw \<and> accountPassed c f rootok np u pw rest st'"
proof (cases "lgType st = ''classic''")
  case False
  with assms have "authenticate n E c f rootok (typeService c (lgType st)) False False st = Some (True, st')"
    by (simp add: verify_def)
  from authenticate_D[OF this] False show ?thesis by (intro exI[of _ False]) fastforce
next
  case True
  with assms obtain u st1 where g: "gconv f GCONV_USER None st = Some (Some u, st1)"
    by (auto simp: verify_def split: option.splits)
  have u: "lgUser st1 = Some u" and k1: "sameLogin st st1" using gconv_user gconv_same g by blast+
  have ku: "lgUser st = Some u" if "f = Conv_auto" using gconv_auto_user g that by blast
  show ?thesis
  proof (cases "isNoPassAllowed E c (lgSource st) u")
    case np: False
    with assms True g u k1 have "authenticate n E c f rootok (lcService c) True False st1 = Some (True, st')"
      by (simp add: verify_def sameLogin_def)
    from authenticate_D[OF this] True u k1 ku show ?thesis
      by (intro exI[of _ False]) (auto simp: sameLogin_def)
  next
    case np: True
    with assms True g u k1 obtain r st2 where g2: "gconv f GCONV_PASS_ND None st1 = Some (r, st2)"
      by (auto simp: verify_def sameLogin_def split: option.splits)
    let ?e = "lgPass st2 \<in> {None, Some []}"
    have auth: "authenticate n E c f rootok (if ?e then npService c else lcService c) True ?e st2 = Some (True, st')"
      using assms True g u k1 np g2
      by (cases "lgPass st2"; cases "lgPass st2 = Some []") (simp_all add: verify_def sameLogin_def)
    have k2: "lgUser st2 = Some u" "lgPam st2 = lgPam st"
      using gconv_pass[OF g2] gconv_same[OF g2] u k1 by (auto simp: sameLogin_def)
    show ?thesis
      using authenticate_D[OF auth] True np k2 ku by (intro exI[of _ ?e]) fastforce
  qed
qed

lemma typeService_npService: "typeService c t = npService c \<longleftrightarrow> t = ''np''"
  by (cases t; cases "tl t"; cases "tl (tl t)") (auto simp: typeService_def npService_def)

text \<open>C21. Whoever \<^verbatim>\<open>verify\<close> lets in has an account; root has one of the two permissions and no password is kept for him. PAM
  has authenticated a user first. In the classic conversation that is exactly the user named, and the password-less
  service is used only if the configuration lets him in without a password. In any other conversation it is the service
  the greeter's name for the conversation gives, and no such check is made: a greeter that names its conversation
  \<open>np\<close> gets the password-less service for anybody (\<open>np_conversation\<close>), and nobody else gets it, unless the
  configured service has the same name. For anybody but root the account was in order then, or a password that was due
  has been changed, after PAM authenticated with the full service if no password had been asked for; that may be
  another user (\<open>renewal_of_another\<close>).
\<close>

theorem verify_consent:
  assumes "verify n E c f rootok st = Some (True, st')"
  shows "\<exists>np psrv usr u pw rest.
    lgPam st' = lgPam st @ PamAuth psrv usr 0 # rest \<and>
    psrv = (if lgType st \<noteq> ''classic'' then typeService c (lgType st) else if np then npService c else lcService c) \<and>
    (lgType st = ''classic'' \<longrightarrow> usr = Some u) \<and>
    (np \<longrightarrow> lgType st = ''classic'' \<and> isNoPassAllowed E c (lgSource st) u) \<and>
    (psrv = npService c \<longrightarrow> lgType st = ''np'' \<or>
       lgType st = ''classic'' \<and> (isNoPassAllowed E c (lgSource st) u \<or> lcService c = npService c)) \<and>
    leGetpw E u = Some pw \<and> accountPassed c f rootok np u pw rest st'"
proof -
  obtain np psrv usr u pw rest where v: "lgPam st' = lgPam st @ PamAuth psrv usr 0 # rest"
    "psrv = (if lgType st \<noteq> ''classic'' then typeService c (lgType st) else if np then npService c else lcService c)"
    "lgType st = ''classic'' \<longrightarrow> usr = Some u" "np \<longrightarrow> lgType st = ''classic'' \<and> isNoPassAllowed E c (lgSource st) u"
    "leGetpw E u = Some pw" "accountPassed c f rootok np u pw rest st'"
    using verify_passed [OF assms] by blast
  moreover from v(2,4) have "psrv = npService c \<longrightarrow> lgType st = ''np'' \<or>
      lgType st = ''classic'' \<and> (isNoPassAllowed E c (lgSource st) u \<or> lcService c = npService c)"
    by (auto simp: typeService_npService split: if_splits)
  ultimately show ?thesis by blast
qed

section \<open>A computer with one user\<close>

definition kim :: passwd where
  "kim = \<lparr>pwName = ''kim'', pwPasswd = ''x'', pwUid = 1000, pwGid = 100, pwDir = ''/home/kim'',
     pwShell = ''/bin/sh''\<rparr>"

definition oneUser :: loginEnv where
  "oneUser = \<lparr>leGetpw = (\<lambda>u. if u = ''kim'' then Some kim else None), leShadow = (\<lambda>u. None), leGroups = [],
     leStart = (\<lambda>psrv u. 0),
     leAuth = (\<lambda>psrv u. if psrv = ''kde-np'' then
         (if u = None then PamAsk [(PAM_PROMPT_ECHO_ON, ''Username:'')]
            (\<lambda>rep. case rep of Some [n] \<Rightarrow> PamDone 0 n | _ \<Rightarrow> PamDone 7 None)
          else PamDone 0 u)
       else PamAsk [(PAM_PROMPT_ECHO_OFF, ''Password: '')]
              (\<lambda>rep. if rep = Some [Some ''s3''] then PamDone 0 u else PamDone 7 u)),
     leAcct = (\<lambda>psrv u. 0), leChange = (\<lambda>psrv u i. PamDone 0 u)\<rparr>"

definition kdeCfg :: loginCfg where
  "kdeCfg = \<lparr>lcService = ''kde'', lcNoPass = [], lcAllowRoot = False, lcName = '':0'', lcForeign = False,
     lcAutoUser = ''kim'', lcAutoPass = ''s3'', lcAutoDelay = False, lcAutoAgain = False, lcTransient = False\<rparr>"

definition atGreeter :: "greply list \<Rightarrow> login" where
  "atGreeter rs = \<lparr>lgUser = None, lgPass = None, lgNew = None, lgType = ''classic'', lgSource = PWSRC_MANUAL,
     lgNewDmrc = None, lgInAuth = False, lgGreeter = True, lgIn = rs, lgOut = [], lgPam = []\<rparr>"

lemma kim_types_password:
  "map_option (\<lambda>(r, st). (r, lgPam st)) (verify 1 oneUser kdeCfg Conv_interact False
     (atGreeter [\<lparr>grText = Some ''kim'', grTag = 2\<rparr>, \<lparr>grText = Some ''s3'', grTag = 4\<rparr>])) =
   Some (True, [PamAuth ''kde'' (Some ''kim'') 0, PamAcct 0])"
  by code_simp

lemma verify_consent_witness:
  "\<exists>st' psrv u pw rest. verify 1 oneUser kdeCfg Conv_interact False
       (atGreeter [\<lparr>grText = Some ''kim'', grTag = 2\<rparr>, \<lparr>grText = Some ''s3'', grTag = 4\<rparr>]) = Some (True, st') \<and>
     lgPam st' = PamAuth psrv (Some u) 0 # rest \<and> leGetpw oneUser u = Some pw \<and> pwUid pw \<noteq> 0 \<and> psrv \<noteq> npService kdeCfg"
proof -
  obtain st' where v: "verify 1 oneUser kdeCfg Conv_interact False
     (atGreeter [\<lparr>grText = Some ''kim'', grTag = 2\<rparr>, \<lparr>grText = Some ''s3'', grTag = 4\<rparr>]) = Some (True, st')"
    using kim_types_password by auto
  have c: "lgPam (atGreeter rs) = []" "lgType (atGreeter rs) = ''classic''" "\<not> lcAllowRoot kdeCfg" for rs
    by (simp_all add: atGreeter_def kdeCfg_def)
  have m: "lgSource (atGreeter rs) = PWSRC_MANUAL" "lcService kdeCfg \<noteq> npService kdeCfg"
      "(''classic'' = ''np'') = False" for rs by (simp_all add: atGreeter_def kdeCfg_def npService_def)
  from verify_consent [OF v] obtain np psrv usr u pw rest where w: "lgPam st' = PamAuth psrv usr 0 # rest" "usr = Some u"
    "leGetpw oneUser u = Some pw" "accountPassed kdeCfg Conv_interact False np u pw rest st'"
    "psrv = npService kdeCfg \<longrightarrow> isNoPassAllowed oneUser kdeCfg PWSRC_MANUAL u"
    unfolding c m append_Nil using m(2) by blast
  from w(4) c(3) have "pwUid pw \<noteq> 0" by (simp add: accountPassed_def split: if_splits)
  moreover from w(3) have "\<not> isNoPassAllowed oneUser kdeCfg PWSRC_MANUAL u"
    by (auto simp: isNoPassAllowed_def oneUser_def kdeCfg_def split: if_splits)
  ultimately show ?thesis using v w by blast
qed

text \<open>
  The check of the users who need no password is one of the classic conversation only: a greeter that asks for a
  conversation \<open>np\<close> gets the password-less service for anybody.
\<close>

lemma typeService_np: "typeService c ''np'' = npService c"
  by (simp add: typeService_def npService_def)

lemma np_conversation:
  "map_option (\<lambda>(r, st). (r, lgUser st)) (verifyFor 1 oneUser kdeCfg (G_Verify ''np'')
     (atGreeter [\<lparr>grText = Some ''kim'', grTag = 2\<rparr>])) = Some (True, Some ''kim'') \<and>
   \<not> isNoPassAllowed oneUser kdeCfg PWSRC_MANUAL ''kim''"
  by code_simp

text \<open>
  A user let in without a password has to give one before it is changed. The answer that names another user, as the
  greeter may, makes PAM authenticate that one: kim's account is checked, lee's password is asked for and changed.
\<close>

definition dueHost :: loginEnv where
  "dueHost = oneUser\<lparr>leAcct := (\<lambda>psrv u. 12)\<rparr>"

lemma renewal_of_another:
  "map_option (\<lambda>(r, st). (r, lgUser st, lgPam st)) (verify 2 dueHost (kdeCfg\<lparr>lcNoPass := [''kim'']\<rparr>) Conv_interact False
     (atGreeter [\<lparr>grText = Some ''kim'', grTag = 2\<rparr>, \<lparr>grText = Some [], grTag = 4\<rparr>,
        \<lparr>grText = Some ''lee'', grTag = 2\<rparr>, \<lparr>grText = Some ''s3'', grTag = 4\<rparr>])) =
   Some (True, Some ''lee'', [PamAuth ''kde-np'' (Some ''kim'') 0, PamAcct 12, PamAuth ''kde'' (Some ''kim'') 7,
     PamAuth ''kde'' (Some ''lee'') 0, PamChange 0])"
  by code_simp

text \<open>C27. A login without a greeter that lets somebody in has given PAM the user that was announced for the display, or the
  configured one unless the shift key is held, who has an account PAM accepts; root only where root may log in. If the
  login was announced with the command \<open>login\<close> as one by hand, the password may be missing only for a user who is let in
  without one. It is this user who is let in unless PAM finds his password due: then the greeter is asked, and its
  answers may name another user, whom PAM then has to authenticate with the full service (\<open>renewal_of_another\<close>).
\<close>

theorem autologin_user:
  assumes "firstLogin n E c shift tdiff h st = Some (Some True, h', st')"
  shows "\<exists>np u pw rest.
    ((rLogin h = 2 \<or> rLogin h = 1 \<and> \<not> goodExit h \<and> \<not> lock h) \<and> nuser h = Some u \<and> nuser h' = None \<or>
     \<not> shift \<and> lcAutoUser c = u \<and> u \<noteq> [] \<and> \<not> lcAutoDelay c \<and> rLogin h \<noteq> 2 \<and> h' = h) \<and>
    lgPam st' = lgPam st @ PamAuth (if np then npService c else lcService c) (Some u) 0 # rest \<and>
    (np \<longrightarrow> rLogin h = 2 \<longrightarrow> isNoPassAllowed E c PWSRC_MANUAL u) \<and>
    leGetpw E u = Some pw \<and> accountPassed c Conv_auto False np u pw rest st' \<and>
    (PamAcct 12 \<notin> set rest \<longrightarrow> lgUser st' = Some u)"
proof -
  obtain b h1 st1 where a: "autoLogon c shift tdiff h st = (b, h1, st1)" by (cases "autoLogon c shift tdiff h st")
  with assms have v: "verify n E c Conv_auto False st1 = Some (True, st')" and b: b and h: "h1 = h'"
    by (auto simp: firstLogin_def split: bool.splits)
  have st1: "lgType st1 = ''classic''" "lgPam st1 = lgPam st" "rLogin h = 2 \<Longrightarrow> lgSource st1 = PWSRC_MANUAL"
    using a b by (auto simp: autoLogon_def doAutoLogon_def split: if_splits)
  have who: "(rLogin h = 2 \<or> rLogin h = 1 \<and> \<not> goodExit h \<and> \<not> lock h) \<and> lgUser st1 = nuser h \<and> nuser h' = None \<or>
     \<not> shift \<and> lgUser st1 = Some (lcAutoUser c) \<and> lcAutoUser c \<noteq> [] \<and> \<not> lcAutoDelay c \<and> rLogin h \<noteq> 2 \<and> h' = h"
    using a b h by (simp add: autoLogon_def doAutoLogon_def split: if_splits) clarsimp+
  obtain np u pw rest where p: "lgPam st' = lgPam st @ PamAuth (if np then npService c else lcService c) (Some u) 0 # rest"
    "lgUser st1 = Some u" "np \<longrightarrow> isNoPassAllowed E c (lgSource st1) u" "leGetpw E u = Some pw"
    and acc: "accountPassed c Conv_auto False np u pw rest st'"
    using verify_passed [OF v] st1 by auto
  have let_in: "PamAcct 12 \<notin> set rest \<longrightarrow> lgUser st' = Some u"
    using acc by (auto simp: accountPassed_def split: if_splits)
  have np: "np \<longrightarrow> rLogin h = 2 \<longrightarrow> isNoPassAllowed E c PWSRC_MANUAL u"
    using p(3) st1(3) by auto
  show ?thesis
    by (rule exI [of _ np], rule exI [of _ u], rule exI [of _ pw], rule exI [of _ rest], intro conjI)
      (use who p(2) in fastforce, rule p(1), rule np, rule p(4), rule acc, rule let_in)
qed

lemma kim_by_herself:
  "map_option (\<lambda>(r, h, st). (r, nuser h, lgUser st)) (firstLogin 1 oneUser kdeCfg False 5 (emptyHist '':0'') (atGreeter [])) =
   Some (Some True, None, Some ''kim'')"
  by code_simp

lemma autologin_user_witness:
  "\<exists>h' st' np pw rest. firstLogin 1 oneUser kdeCfg False 5 (emptyHist '':0'') (atGreeter []) = Some (Some True, h', st') \<and>
     lgPam st' = PamAuth (if np then ''kde-np'' else ''kde'') (Some ''kim'') 0 # rest \<and>
     accountPassed kdeCfg Conv_auto False np ''kim'' pw rest st' \<and> lgUser st' = Some ''kim''"
proof -
  obtain h' st' where v: "firstLogin 1 oneUser kdeCfg False 5 (emptyHist '':0'') (atGreeter []) = Some (Some True, h', st')"
    "lgUser st' = Some ''kim''"
    using kim_by_herself by auto
  have "lgPam (atGreeter []) = []" "rLogin (emptyHist '':0'') = 0" "lcAutoUser kdeCfg = ''kim''"
    "npService kdeCfg = ''kde-np''" "lcService kdeCfg = ''kde''"
    by (simp_all add: atGreeter_def emptyHist_def kdeCfg_def npService_def)
  note k = this
  have "(0::2 word) \<noteq> 2" "(0::2 word) \<noteq> 1" by simp_all
  with autologin_user [OF v(1)] v show ?thesis unfolding k append_Nil by blast
qed

end
