(* ===== verification/Client.thy ===== *)
theory Client
  imports Login Dmrc UserAuth
begin

text \<open>
  The start and the end of a user's session, \<^verbatim>\<open>startClient\<close> and \<^verbatim>\<open>clientExited\<close> in \<^verbatim>\<open>kdm/backend/client.c\<close> with PAM,
  and the environments made for it in \<^verbatim>\<open>session.c\<close>. The kernel and the libraries are parameters: which of the calls
  that change credentials succeed, the groups of a user, the results of PAM, of scripts and of programs. What the
  processes do is recorded with the credentials it is done with. Memory suffices but for the list of groups;
  \<open>None\<close>: undefined behaviour, or more questions than answers.
\<close>

section \<open>The process and what it depends on\<close>

type_synonym creds = "int \<times> int \<times> int list"

datatype logRes = LogOpen | LogExists | LogError

record clEnv =
  ceGetpw :: "string \<Rightarrow> passwd option"
  ceCall :: "nat \<Rightarrow> bool"
  ceInit :: "string \<Rightarrow> int \<Rightarrow> int list"
  cePamGroups :: "int list \<Rightarrow> int list"
  ceMem :: bool
  ceSetcred :: int
  ceOpen :: int
  cePamEnv :: "string list"
  ceFork :: bool
  ceStatus :: "string list \<Rightarrow> int"
  ceExec :: "string list \<Rightarrow> bool"
  ceChdir :: bool
  ceGetenv :: "string \<Rightarrow> string option"
  ceLoad :: "string \<Rightarrow> iniSource"
  ceSave :: saveCalls
  ceAuth :: authEnv
  ceXauth :: "xentry list option"

record sessCfg =
  scExport :: "string list"
  scFifoDir :: string
  scSystemPath :: string
  scUserPath :: string
  scSystemShell :: string
  scStartup :: string
  scReset :: string
  scSession :: string
  scFailsafe :: string
  scLog :: string
  scLogFallback :: string
  scSessDirs :: "string list"
  scReLogin :: bool
  scAutoLock :: bool
  scSetup :: "string option"
  scDmrcDir :: string
  scAuth :: authConf

datatype clAct =
    CaSetcred | CaOpenSession | CaCloseSession | CaDelCred | CaPamEnd
  | CaSessReg bool
  | CaScript "string list" env
  | CaDmrc dmrcAct
  | CaAuth userAuth | CaUnauth "xentry list option"
  | CaChownCtrl int
  | CaLog string
  | CaReLogin "string option" "string option" "string option"
  | CaUser int "string option" string
  | CaMsg "string option"
  | CaExec "string list" env

record sess =
  seLogin :: login
  seDmrc :: dmrcState
  crUid :: int
  crGid :: int
  crGroups :: "int list"
  seCalls :: nat
  seLogs :: "logRes list"
  seRandom :: "int list"
  seActs :: "(creds \<times> clAct) list"
  seSaved :: "int list option"
  seUid :: int
  seGid :: int
  sePamh :: bool
  removeAuth :: bool
  removeCreds :: bool
  removeSession :: bool
  userEnviron :: env
  systemEnviron :: env

definition creds :: "sess \<Rightarrow> creds" where
  "creds s = (crUid s, crGid s, crGroups s)"

definition did :: "clAct \<Rightarrow> sess \<Rightarrow> sess" where
  "did a s = s\<lparr>seActs := seActs s @ [(creds s, a)]\<rparr>"

definition onLogin :: "(login \<Rightarrow> login) \<Rightarrow> sess \<Rightarrow> sess" where
  "onLogin f s = s\<lparr>seLogin := f (seLogin s)\<rparr>"

section \<open>Credentials\<close>

text \<open>The system calls: each may fail, and then changes nothing.\<close>

definition sysCred :: "clEnv \<Rightarrow> (sess \<Rightarrow> sess) \<Rightarrow> sess \<Rightarrow> bool \<times> sess" where
  "sysCred E f s = (let t = s\<lparr>seCalls := Suc (seCalls s)\<rparr> in if ceCall E (seCalls s) then (True, f t) else (False, t))"

definition saveGids :: "clEnv \<Rightarrow> sess \<Rightarrow> bool \<times> sess" where
  "saveGids E s = (if ceMem E then (True, s\<lparr>seSaved := Some (crGroups s)\<rparr>) else (False, s\<lparr>seSaved := None\<rparr>))"

definition restoreGids :: "clEnv \<Rightarrow> sess \<Rightarrow> bool \<times> sess" where
  "restoreGids E s =
     (case seSaved s of None \<Rightarrow> (False, s)
      | Some gs \<Rightarrow>
          (case sysCred E (\<lambda>s. s\<lparr>crGroups := gs\<rparr>) s of
             (False, s) \<Rightarrow> (False, s)
           | (True, s) \<Rightarrow> sysCred E (\<lambda>s. s\<lparr>crGid := seGid s\<rparr>) s))"

definition resetGids :: "clEnv \<Rightarrow> sess \<Rightarrow> bool \<times> sess" where
  "resetGids E s =
     (case sysCred E (\<lambda>s. s\<lparr>crGroups := []\<rparr>) s of
        (False, s) \<Rightarrow> (False, s)
      | (True, s) \<Rightarrow> sysCred E (\<lambda>s. s\<lparr>crGid := 0\<rparr>) s)"

definition setGid :: "clEnv \<Rightarrow> string \<Rightarrow> int \<Rightarrow> sess \<Rightarrow> bool \<times> sess" where
  "setGid E name g s =
     (case sysCred E (\<lambda>s. s\<lparr>crGid := g\<rparr>) s of
        (False, s) \<Rightarrow> (False, s)
      | (True, s) \<Rightarrow>
          (case sysCred E (\<lambda>s. s\<lparr>crGroups := ceInit E name g\<rparr>) s of
             (True, s) \<Rightarrow> (True, s)
           | (False, s) \<Rightarrow> (False, snd (sysCred E (\<lambda>s. s\<lparr>crGid := 0\<rparr>) s))))"

definition setUid :: "clEnv \<Rightarrow> int \<Rightarrow> sess \<Rightarrow> bool \<times> sess" where
  "setUid E u s = sysCred E (\<lambda>s. s\<lparr>crUid := u\<rparr>) s"

definition setUser :: "clEnv \<Rightarrow> string \<Rightarrow> int \<Rightarrow> int \<Rightarrow> sess \<Rightarrow> bool \<times> sess" where
  "setUser E name u g s =
     (case setGid E name g s of
        (False, s) \<Rightarrow> (False, s)
      | (True, s) \<Rightarrow>
          (case setUid E u s of
             (True, s) \<Rightarrow> (True, s)
           | (False, s) \<Rightarrow> (False, snd (resetGids E s))))"

section \<open>Environments\<close>

definition inheritEnv :: "(string \<Rightarrow> string option) \<Rightarrow> string list \<Rightarrow> env \<Rightarrow> env" where
  "inheritEnv get what e =
     foldl (\<lambda>e n. case get n of None \<Rightarrow> e | Some v \<Rightarrow> setEnv True True e n v) e what"

text \<open>The number of the terminal is printed into four bytes.\<close>

definition baseEnv :: "clEnv \<Rightarrow> sessCfg \<Rightarrow> display \<Rightarrow> env \<Rightarrow> string option \<Rightarrow> env option" where
  "baseEnv E c d e user =
     (if serverVT d > 999 then None
      else
        let e = (case e of None \<Rightarrow> inheritEnv (ceGetenv E) (scExport c) None | Some x \<Rightarrow> Some x);
            e = (case user of None \<Rightarrow> e
                 | Some u \<Rightarrow> setEnv True True (setEnv True True e ''USER'' u) ''LOGNAME'' u);
            e = setEnv True True e ''DISPLAY'' (displayName d);
            e = (if serverVT d > 0 then setEnv True True e ''WINDOWPATH'' (showInt (serverVT d)) else e)
        in Some (if ctrlOpen d then setEnv True True e ''DM_CONTROL'' (scFifoDir c) else e))"

definition systemEnv :: "clEnv \<Rightarrow> sessCfg \<Rightarrow> display \<Rightarrow> env \<Rightarrow> string option \<Rightarrow> env option" where
  "systemEnv E c d e user =
     map_option (\<lambda>e.
       let e = (case greeterAuthFile d of Some f \<Rightarrow> setEnv True True e ''XAUTHORITY'' f
                | None \<Rightarrow> (case authFile d of Some f \<Rightarrow> setEnv True True e ''XAUTHORITY'' f | None \<Rightarrow> e))
       in setEnv True True (setEnv True True e ''PATH'' (scSystemPath c)) ''SHELL'' (scSystemShell c))
     (baseEnv E c d e user)"

definition clientEnvs :: "clEnv \<Rightarrow> sessCfg \<Rightarrow> display \<Rightarrow> passwd \<Rightarrow> sess \<Rightarrow> sess option" where
  "clientEnvs E c d pw s =
     (case (baseEnv E c d None (Some (pwName pw)), systemEnv E c d None (Some (pwName pw))) of
        (Some e, Some y) \<Rightarrow>
          let e = setEnv True True e ''XDM_MANAGED''
                    (''method='' @ lgType (seLogin s) @ (if scSetup c \<noteq> None then '',auto'' else []));
              e = (if scAutoLock c \<and> lgSource (seLogin s) = PWSRC_AUTOLOGIN
                   then setEnv True True e ''DESKTOP_LOCKED'' ''true'' else e);
              e = setEnv True True e ''PATH'' (if pwUid pw \<noteq> 0 then scUserPath c else scSystemPath c);
              e = setEnv True True (setEnv True True e ''SHELL'' (pwShell pw)) ''HOME'' (pwDir pw)
          in Some (s\<lparr>userEnviron := inheritEnv (ceGetenv E) [''TZ''] e,
                     systemEnviron := setEnv True True y ''HOME'' (pwDir pw)\<rparr>)
      | _ \<Rightarrow> None)"

section \<open>Scripts, files and programs\<close>

text \<open>\<open>source\<close>: the status of the script, 127 if it cannot be run.\<close>

definition sourceScript :: "clEnv \<Rightarrow> env \<Rightarrow> string \<Rightarrow> string option \<Rightarrow> sess \<Rightarrow> (int \<times> sess) option" where
  "sourceScript E e f arg s =
     (if f = [] then Some (0, s)
      else case parseArgs (\<lambda>_. True) None f of UB \<Rightarrow> None
      | Ret None \<Rightarrow> Some (127, s)
      | Ret (Some args) \<Rightarrow>
          (case (case arg of None \<Rightarrow> Some args | Some x \<Rightarrow> addStrArr True True (Some args) x (-1)) of
             None \<Rightarrow> Some (127, s)
           | Some args \<Rightarrow> Some (ceStatus E args, did (CaScript args e) s)))"

text \<open>The log file made, if any; the questions of the system and the random numbers left.\<close>

fun createClientLog ::
    "string \<Rightarrow> string \<Rightarrow> string option \<Rightarrow> string option \<Rightarrow> logRes list \<Rightarrow> int list \<Rightarrow>
     (string option \<times> logRes list \<times> int list) option" where
  "createClientLog log name user rand [] rs = None"
| "createClientLog log name user rand (x # xs) rs =
     (case expandMacros True log
          [\<lparr>key = CHR ''d'', uses = 0, val = Some name\<rparr>, \<lparr>key = CHR ''u'', uses = 0, val = user\<rparr>,
           \<lparr>key = CHR ''r'', uses = 0, val = rand\<rparr>] of
        (None, _) \<Rightarrow> None
      | (Some lname, ex) \<Rightarrow>
          (if x = LogOpen then Some (Some lname, xs, rs)
           else if x = LogError \<or> uses (ex ! 2) = 0 then Some (None, xs, rs)
           else case rs of [] \<Rightarrow> None
           | r # rs \<Rightarrow> createClientLog log name user (Some (showInt r)) xs rs))"

definition openLog :: "string \<Rightarrow> display \<Rightarrow> sess \<Rightarrow> (bool \<times> sess) option" where
  "openLog log d s =
     (case createClientLog log (dname d) (lgUser (seLogin s)) None (seLogs s) (seRandom s) of None \<Rightarrow> None
      | Some (f, xs, rs) \<Rightarrow>
          let s = s\<lparr>seLogs := xs, seRandom := rs\<rparr> in
          Some (case f of None \<Rightarrow> (False, s) | Some n \<Rightarrow> (True, did (CaLog n) s)))"

definition openLogs :: "sessCfg \<Rightarrow> display \<Rightarrow> bool \<Rightarrow> sess \<Rightarrow> sess option" where
  "openLogs c d home s =
     (if home \<or> take 1 (scLog c) = ''/'' then
        (case openLog (scLog c) d s of None \<Rightarrow> None
         | Some (True, s) \<Rightarrow> Some s
         | Some (False, s) \<Rightarrow> map_option snd (openLog (scLogFallback c) d s))
      else map_option snd (openLog (scLogFallback c) d s))"

definition mergeArgs :: "clEnv \<Rightarrow> sessCfg \<Rightarrow> bool \<Rightarrow> sess \<Rightarrow> sess option" where
  "mergeArgs E c cansave s =
     (case mergeSessionArgs \<lparr>mDir = scDmrcDir c, mUser = (case lgUser (seLogin s) of None \<Rightarrow> [] | Some u \<Rightarrow> u),
          mLoad = ceLoad E, mSave = ceSave E\<rparr> cansave (seDmrc s) of None \<Rightarrow> None
      | Some (dm, acts) \<Rightarrow> Some (foldl (\<lambda>s a. did (CaDmrc a) s) (s\<lparr>seDmrc := dm\<rparr>) acts))"

text \<open>Programs are tried until one can be executed.\<close>

fun tryExec :: "clEnv \<Rightarrow> string list list \<Rightarrow> sess \<Rightarrow> bool \<times> sess" where
  "tryExec E [] s = (False, s)"
| "tryExec E (cmd # cmds) s =
     (let s = did (CaExec cmd (userEnviron s)) s in if ceExec E cmd then (True, s) else tryExec E cmds s)"

section \<open>The process of the session\<close>

definition cError :: "sess \<Rightarrow> sess" where
  "cError s = did (CaMsg None) s"

definition setBoth :: "string \<Rightarrow> string \<Rightarrow> sess \<Rightarrow> sess" where
  "setBoth n v s = s\<lparr>userEnviron := setEnv True True (userEnviron s) n v,
     systemEnviron := setEnv True True (systemEnviron s) n v\<rparr>"

definition setUser1 :: "string \<Rightarrow> string \<Rightarrow> sess \<Rightarrow> sess" where
  "setUser1 n v s = s\<lparr>userEnviron := setEnv True True (userEnviron s) n v\<rparr>"

definition enterHome :: "clEnv \<Rightarrow> sess \<Rightarrow> bool \<times> sess" where
  "enterHome E s =
     (case getEnv (userEnviron s) ''HOME'' of None \<Rightarrow> (False, s)
      | Some h \<Rightarrow>
          if ceChdir E then (True, s)
          else (False, setUser1 ''HOME'' ''/'' (did (CaMsg (Some ''Cannot enter home directory. Using /.'')) s)))"

definition giveAuth :: "clEnv \<Rightarrow> sessCfg \<Rightarrow> display \<Rightarrow> sess \<Rightarrow> sess" where
  "giveAuth E c d s =
     (let ua = setUserAuthorization (ceAuth E) d (scAuth c) (ceXauth E); s = did (CaAuth ua) s in
      case uaEnv ua of None \<Rightarrow> s | Some f \<Rightarrow> setBoth ''XAUTHORITY'' f s)"

definition runSession :: "clEnv \<Rightarrow> sessCfg \<Rightarrow> sess \<Rightarrow> sess option" where
  "runSession E c s =
     (case chosenSession (seDmrc s) of None \<Rightarrow> None
      | Some desksess \<Rightarrow>
          let s = setUser1 ''DESKTOP_SESSION'' desksess (did (CaUser (seUid s) (lgUser (seLogin s)) desksess) s) in
          case sessionArgs (ceLoad E) (scSessDirs c) desksess of None \<Rightarrow> None
          | Some args \<Rightarrow>
              (case sessionCommands (scSession c) (scFailsafe c) args of UB \<Rightarrow> None
               | Ret cmds \<Rightarrow> (case tryExec E cmds s of (True, s) \<Rightarrow> Some s | (False, s) \<Rightarrow> Some (cError s))))"

definition asUser :: "clEnv \<Rightarrow> sessCfg \<Rightarrow> display \<Rightarrow> sess \<Rightarrow> sess option" where
  "asUser E c d s =
     (let s = (if scReLogin c
               then did (CaReLogin (lgUser (seLogin s)) (lgPass (seLogin s)) (newDmrc (seDmrc s))) s else s);
          s = onLogin (\<lambda>l. l\<lparr>lgPass := map_option (\<lambda>_. []) (lgPass l)\<rparr>) s in
      case enterHome E (giveAuth E c d s) of (home, s) \<Rightarrow>
      (case openLogs c d home s of None \<Rightarrow> None
       | Some s \<Rightarrow>
         (case (if scDmrcDir c = [] then mergeArgs E c home s else Some s) of None \<Rightarrow> None
          | Some s \<Rightarrow> runSession E c s)))"

definition clientChild :: "clEnv \<Rightarrow> sessCfg \<Rightarrow> display \<Rightarrow> sess \<Rightarrow> sess option" where
  "clientChild E c d s =
     (case sourceScript E (systemEnviron s) (scStartup c) (scSetup c) (did (CaSessReg True) s) of None \<Rightarrow> None
      | Some (r, s) \<Rightarrow>
          if r = 127 then Some (cError s)
          else if r \<noteq> 0 then Some s
          else
            let s = s\<lparr>userEnviron := foldl (\<lambda>e x. putEnv True True True x e) (userEnviron s) (cePamEnv E)\<rparr> in
            case restoreGids E s of (False, s) \<Rightarrow> Some (cError s)
            | (True, s) \<Rightarrow>
                (case setUid E (seUid s) s of (False, s) \<Rightarrow> Some (cError s) | (True, s) \<Rightarrow> asUser E c d s))"

section \<open>Start and end\<close>

definition pError :: "sess \<Rightarrow> sess" where
  "pError s = onLogin (\<lambda>l. V_RET (displayStr ''err'' None l)) s"

text \<open>PAM prepares the session with the groups of the user.\<close>

definition pamSession :: "clEnv \<Rightarrow> string \<Rightarrow> sess \<Rightarrow> bool \<times> sess" where
  "pamSession E name s =
     (case setGid E name (seGid s) s of
        (False, s) \<Rightarrow> (False, pError s)
      | (True, s) \<Rightarrow>
          let s = did CaSetcred (s\<lparr>removeCreds := True\<rparr>); s = s\<lparr>crGroups := cePamGroups E (crGroups s)\<rparr> in
          case saveGids E s of
            (False, s) \<Rightarrow> (False, pError s)
          | (True, s) \<Rightarrow>
              if ceSetcred E \<noteq> PAM_SUCCESS then (False, onLogin V_RET (snd (resetGids E s)))
              else
                let s = did CaOpenSession (s\<lparr>removeSession := True\<rparr>) in
                if ceOpen E \<noteq> PAM_SUCCESS then (False, onLogin V_RET (snd (resetGids E s)))
                else (True, snd (resetGids E s)))"

text \<open>The messages of the new process are shown while it starts, and then the greeter ends.\<close>

definition finishGreet :: "login \<Rightarrow> login" where
  "finishGreet l = (if lgGreeter l then (tell V_OK l)\<lparr>lgGreeter := False\<rparr> else l)"

definition relay :: "sess \<Rightarrow> login \<Rightarrow> login" where
  "relay ch l = foldl (\<lambda>l (cr, a). case a of CaMsg m \<Rightarrow> displayStr ''err'' m l | _ \<Rightarrow> l) l (seActs ch)"

text \<open>The result, the process that stays and the one forked for the session.\<close>

definition startClient :: "clEnv \<Rightarrow> sessCfg \<Rightarrow> display \<Rightarrow> sess \<Rightarrow> (bool \<times> sess \<times> sess option) option" where
  "startClient E c d s =
     (case lgUser (seLogin s) of None \<Rightarrow> None
      | Some u \<Rightarrow>
          let s = (if dmrcUser (seDmrc s) \<noteq> Some u
                   then s\<lparr>seDmrc := (seDmrc s)\<lparr>dmrcUser := None, curDmrc := None\<rparr>\<rparr> else s) in
          case ceGetpw E u of None \<Rightarrow> Some (False, pError s, None)
          | Some pw \<Rightarrow>
              if length (pwName pw) > length u then None
              else
                let s = onLogin (\<lambda>l. l\<lparr>lgUser := Some (pwName pw)\<rparr>) (s\<lparr>seUid := pwUid pw, seGid := pwGid pw\<rparr>) in
                case clientEnvs E c d pw s of None \<Rightarrow> None
                | Some s \<Rightarrow>
                    (case (if scDmrcDir c \<noteq> [] then mergeArgs E c True s else Some s) of None \<Rightarrow> None
                     | Some s \<Rightarrow>
                         (case pamSession E (pwName pw) s of
                            (False, s) \<Rightarrow> Some (False, s, None)
                          | (True, s) \<Rightarrow>
                              let s = did (CaChownCtrl (seUid s)) (s\<lparr>removeAuth := True\<rparr>) in
                              if \<not> ceFork E then Some (False, onLogin V_RET s, None)
                              else case clientChild E c d (s\<lparr>seActs := []\<rparr>) of None \<Rightarrow> None
                              | Some ch \<Rightarrow>
                                  Some (True, onLogin (\<lambda>l. finishGreet (relay ch (l\<lparr>lgPass := None\<rparr>))) s, Some ch))))"

text \<open>
  The end of the session; what the process that removes the authorization does is the second component. \<open>forked\<close>
  says whether it could be made.
\<close>

definition unauthChild :: "clEnv \<Rightarrow> sessCfg \<Rightarrow> display \<Rightarrow> xentry list option \<Rightarrow> sess \<Rightarrow> sess" where
  "unauthChild E c d home s =
     (case restoreGids E s of (False, s) \<Rightarrow> s
      | (True, s) \<Rightarrow>
          (case setUid E (seUid s) s of (False, s) \<Rightarrow> s
           | (True, s) \<Rightarrow> did (CaUnauth (removeUserAuthorization (ceAuth E) d (scAuth c) home)) s))"

definition closePam :: "clEnv \<Rightarrow> sess \<Rightarrow> sess" where
  "closePam E s =
     (let s = (if removeCreds s then
                 let s = snd (restoreGids E s); s = (if removeSession s then did CaCloseSession s else s)
                 in (snd (resetGids E (did CaDelCred s)))\<lparr>removeCreds := False\<rparr>
               else s) in
      if sePamh s then (did CaPamEnd s)\<lparr>sePamh := False\<rparr> else s)"

definition clientExited ::
    "clEnv \<Rightarrow> sessCfg \<Rightarrow> display \<Rightarrow> bool \<Rightarrow> xentry list option \<Rightarrow> sess \<Rightarrow> (sess \<times> sess option) option" where
  "clientExited E c d forked home s =
     (if removeAuth s then
        (case sourceScript E (systemEnviron s) (scReset c) (scSetup c) s of None \<Rightarrow> None
         | Some (r, s) \<Rightarrow>
             let s = did (CaSessReg False) s;
                 ch = (if forked then Some (unauthChild E c d home (s\<lparr>seActs := []\<rparr>)) else None)
             in Some (closePam E (s\<lparr>removeAuth := False\<rparr>), ch))
      else Some (closePam E s, None))"

section \<open>Who does what\<close>

text \<open>From the first state to the second only things of the given kind were done, with the same credentials.\<close>

definition steady :: "(clAct \<Rightarrow> bool) \<Rightarrow> sess \<Rightarrow> sess \<Rightarrow> bool" where
  "steady K s t \<longleftrightarrow> creds t = creds s \<and> seUid t = seUid s \<and> seGid t = seGid s \<and> seSaved t = seSaved s \<and>
     (\<exists>new. seActs t = seActs s @ map (Pair (creds s)) new \<and> list_all K new)"

lemma steady_refl [simp]: "steady K s s"
  by (auto simp: steady_def intro: exI[of _ "[]"])

lemma steady_trans:
  assumes "steady K s t" and "steady K t u"
  shows "steady K s u"
proof -
  from assms obtain m n where "seActs t = seActs s @ map (Pair (creds s)) m" "list_all K m"
    "seActs u = seActs t @ map (Pair (creds t)) n" "list_all K n" by (auto simp: steady_def)
  then show ?thesis using assms by (auto simp: steady_def intro!: exI[of _ "m @ n"])
qed

lemma steady_same:
  assumes "creds t = creds s" "seUid t = seUid s" "seGid t = seGid s" "seSaved t = seSaved s" "seActs t = seActs s"
  shows "steady K s t"
  using assms by (auto simp: steady_def intro: exI[of _ "[]"])

lemma steady_did [simp]: "K a \<Longrightarrow> steady K s (did a s)"
  by (auto simp: steady_def did_def creds_def intro: exI[of _ "[a]"])

lemma steady_parts [simp]:
  "steady K s (onLogin f s)" "steady K s (setUser1 n v s)" "steady K s (setBoth n v s)"
  "steady K s (s\<lparr>seLogs := xs, seRandom := rs\<rparr>)" "steady K s (s\<lparr>seDmrc := dm\<rparr>)" "steady K s (s\<lparr>userEnviron := e\<rparr>)"
  "steady K s (s\<lparr>userEnviron := e, systemEnviron := y\<rparr>)"
  by (auto intro!: steady_same simp: onLogin_def setUser1_def setBoth_def creds_def)

lemma steady_to_parts [simp]:
  "steady K s (onLogin f t) = steady K s t" "steady K s (setUser1 n v t) = steady K s t"
  "steady K s (setBoth n v t) = steady K s t"
  by (simp_all add: steady_def creds_def onLogin_def setUser1_def setBoth_def)

lemma steady_step: "steady K s t \<Longrightarrow> K a \<Longrightarrow> steady K s (did a t)"
  by (metis steady_did steady_trans)

abbreviation whatever :: "clAct \<Rightarrow> bool" where "whatever \<equiv> \<lambda>_. True"

lemma steadyE: "steady whatever s t \<Longrightarrow> steady whatever t u \<Longrightarrow> steady whatever s u"
  by (rule steady_trans)

lemma steady_did1: "steady whatever s t \<Longrightarrow> steady whatever s (did a t)"
  by (rule steady_step) simp_all

lemma steady_foldl: "steady whatever s t \<Longrightarrow> steady whatever s (foldl (\<lambda>s a. did (f a) s) t as)"
  by (induction "as" arbitrary: t) (simp_all add: steady_did1)

lemma openLog_steady: "openLog log d s = Some (r, t) \<Longrightarrow> steady whatever s t"
  by (auto simp: openLog_def Let_def split: option.splits intro!: steady_did1)

lemma openLogs_steady:
  assumes "openLogs c d h s = Some t"
  shows "steady whatever s t"
proof (cases "h \<or> take 1 (scLog c) = ''/''")
  case True
  with assms obtain b u where u: "openLog (scLog c) d s = Some (b, u)"
    by (auto simp: openLogs_def split: option.splits)
  with assms True have "b \<and> t = u \<or> (\<exists>b'. openLog (scLogFallback c) d u = Some (b', t))"
    by (auto simp: openLogs_def split: bool.splits)
  then show ?thesis using openLog_steady[OF u] openLog_steady steadyE by blast
next
  case False
  with assms obtain b where "openLog (scLogFallback c) d s = Some (b, t)" by (auto simp: openLogs_def)
  then show ?thesis by (rule openLog_steady)
qed

lemma mergeArgs_steady:
  assumes "mergeArgs E c h s = Some t"
  shows "steady whatever s t"
proof -
  from assms obtain dm acts where "t = foldl (\<lambda>s a. did (CaDmrc a) s) (s\<lparr>seDmrc := dm\<rparr>) acts"
    by (auto simp: mergeArgs_def split: option.splits prod.splits)
  then show ?thesis by (simp add: steady_foldl)
qed

lemma tryExec_steady: "tryExec E cmds s = (r, t) \<Longrightarrow> steady whatever u s \<Longrightarrow> steady whatever u t"
  by (induction cmds arbitrary: s) (auto simp: Let_def split: if_splits intro: steady_did1)

lemma sourceScript_steady: "sourceScript E e f a s = Some (r, t) \<Longrightarrow> (\<And>x e. K (CaScript x e)) \<Longrightarrow> steady K s t"
  by (auto simp: sourceScript_def split: if_splits outcome.splits option.splits)

lemma giveAuth_steady: "steady whatever s (giveAuth E c d s)"
  by (auto simp: giveAuth_def Let_def split: option.splits intro: steadyE[OF steady_did])

lemma enterHome_steady: "enterHome E s = (h, t) \<Longrightarrow> steady whatever s t"
  by (auto simp: enterHome_def split: option.splits if_splits intro: steadyE[OF steady_did])

lemma runSession_steady:
  assumes "runSession E c s = Some t"
  shows "steady whatever s t"
proof -
  from assms obtain desksess cmds b u where
    x: "tryExec E cmds (setUser1 ''DESKTOP_SESSION'' desksess (did (CaUser (seUid s) (lgUser (seLogin s)) desksess) s)) = (b, u)"
    and t: "t = (if b then u else cError u)"
    by (auto simp: runSession_def Let_def split: option.splits outcome.splits prod.splits bool.splits)
  have "steady whatever s (setUser1 ''DESKTOP_SESSION'' desksess (did (CaUser (seUid s) (lgUser (seLogin s)) desksess) s))"
    by (rule steady_trans[OF steady_did steady_parts(2)]) simp
  then have "steady whatever s u" by (rule tryExec_steady[OF x])
  then show ?thesis using t by (simp add: cError_def steady_step)
qed

lemma asUser_steady:
  assumes "asUser E c d s = Some t"
  shows "steady whatever s t"
proof -
  define s1 where "s1 = onLogin (\<lambda>l. l\<lparr>lgPass := map_option (\<lambda>_. []) (lgPass l)\<rparr>)
    (if scReLogin c then did (CaReLogin (lgUser (seLogin s)) (lgPass (seLogin s)) (newDmrc (seDmrc s))) s else s)"
  obtain h s2 where h: "enterHome E (giveAuth E c d s1) = (h, s2)" by fastforce
  from assms h obtain s3 s4 where l: "openLogs c d h s2 = Some s3"
    and m: "(if scDmrcDir c = [] then mergeArgs E c h s3 else Some s3) = Some s4" and r: "runSession E c s4 = Some t"
    by (auto simp: asUser_def Let_def s1_def split: option.splits)
  have "steady whatever s s1" by (auto simp: s1_def intro: steadyE[OF steady_did])
  also have "steady whatever s1 s2" using giveAuth_steady enterHome_steady[OF h] by (rule steady_trans)
  finally (steady_trans) have "steady whatever s s2" .
  moreover have "steady whatever s2 s3" using openLogs_steady[OF l] .
  moreover have "steady whatever s3 s4" using m mergeArgs_steady[of E c h s3 s4] by (auto split: if_splits)
  ultimately show ?thesis using runSession_steady[OF r] by (blast intro: steadyE)
qed

section \<open>Changing credentials\<close>

text \<open>What such calls leave alone.\<close>

definition sameButCreds :: "sess \<Rightarrow> sess \<Rightarrow> bool" where
  "sameButCreds s t \<longleftrightarrow> seActs t = seActs s \<and> seUid t = seUid s \<and> seGid t = seGid s \<and> seSaved t = seSaved s \<and>
     removeAuth t = removeAuth s \<and> removeCreds t = removeCreds s \<and> removeSession t = removeSession s \<and>
     sePamh t = sePamh s"

lemmas cred_ops = sysCred_def setGid_def setUid_def resetGids_def restoreGids_def Let_def

lemma resetGids_same: "resetGids E s = (b, t) \<Longrightarrow>
    sameButCreds s t \<and> crUid t = crUid s \<and> ((\<forall>n. ceCall E n) \<longrightarrow> crGid t = 0 \<and> crGroups t = [])"
  by (auto simp: cred_ops sameButCreds_def split: if_splits)

lemma setGid_same: "setGid E name g s = (b, t) \<Longrightarrow>
    sameButCreds s t \<and> crUid t = crUid s \<and> (b \<longrightarrow> crGid t = g \<and> crGroups t = ceInit E name g)"
  by (auto simp: cred_ops sameButCreds_def split: if_splits)

lemma restoreGids_same: "restoreGids E s = (b, t) \<Longrightarrow>
    sameButCreds s t \<and> crUid t = crUid s \<and> (b \<longrightarrow> seSaved s = Some (crGroups t) \<and> crGid t = seGid s)"
  by (auto simp: cred_ops sameButCreds_def split: if_splits option.splits)

lemma setUid_same: "setUid E u s = (b, t) \<Longrightarrow>
    sameButCreds s t \<and> crGid t = crGid s \<and> crGroups t = crGroups s \<and> (b \<longrightarrow> crUid t = u)"
  by (auto simp: cred_ops sameButCreds_def split: if_splits)

lemma onLogin_same [simp]: "sameButCreds s (onLogin f t) = sameButCreds s t" "crUid (onLogin f t) = crUid t"
  "crGid (onLogin f t) = crGid t" "crGroups (onLogin f t) = crGroups t" "seSaved (onLogin f t) = seSaved t"
  "seUid (onLogin f t) = seUid t" "seGid (onLogin f t) = seGid t" "seActs (onLogin f t) = seActs t"
  "removeAuth (onLogin f t) = removeAuth t" "removeCreds (onLogin f t) = removeCreds t"
  "removeSession (onLogin f t) = removeSession t" "sePamh (onLogin f t) = sePamh t" "creds (onLogin f t) = creds t"
  by (simp_all add: onLogin_def sameButCreds_def creds_def)

lemma did_parts [simp]: "crUid (did a s) = crUid s" "crGid (did a s) = crGid s" "crGroups (did a s) = crGroups s"
  "seSaved (did a s) = seSaved s" "seUid (did a s) = seUid s" "seGid (did a s) = seGid s"
  "removeAuth (did a s) = removeAuth s" "removeCreds (did a s) = removeCreds s"
  "removeSession (did a s) = removeSession s" "sePamh (did a s) = sePamh s" "creds (did a s) = creds s"
  "seActs (did a s) = seActs s @ [(creds s, a)]"
  by (simp_all add: did_def creds_def)

text \<open>PAM has what it does recorded in this order.\<close>

definition pamDeed :: "clAct \<Rightarrow> bool" where
  "pamDeed a \<longleftrightarrow> a \<in> {CaSetcred, CaOpenSession, CaCloseSession, CaDelCred, CaPamEnd}"

definition pamDeeds :: "sess \<Rightarrow> clAct list" where
  "pamDeeds s = filter pamDeed (map snd (seActs s))"

lemma pamSession_D:
  assumes "pamSession E name s = (b, t)" and "removeSession s = False"
  shows "crUid t = crUid s \<and> seUid t = seUid s \<and> seGid t = seGid s \<and> sePamh t = sePamh s \<and> removeAuth t = removeAuth s \<and>
    (b \<longrightarrow> seSaved t = Some (cePamGroups E (ceInit E name (seGid s))) \<and> removeCreds t \<and> removeSession t \<and>
           ((\<forall>n. ceCall E n) \<longrightarrow> crGid t = 0 \<and> crGroups t = [])) \<and>
    (removeCreds t = removeCreds s \<and> \<not> removeSession t \<and> pamDeeds t = pamDeeds s \<or>
     removeCreds t \<and> pamDeeds t = pamDeeds s @ CaSetcred # (if removeSession t then [CaOpenSession] else []))"
proof -
  obtain b1 s1 where g: "setGid E name (seGid s) s = (b1, s1)" by fastforce
  note g1 = setGid_same[OF g]
  show ?thesis
  proof (cases b1)
    case False
    with assms g g1 show ?thesis by (auto simp: pamSession_def pError_def sameButCreds_def pamDeeds_def)
  next
    case True
    define s2 where "s2 = (did CaSetcred (s1\<lparr>removeCreds := True\<rparr>))\<lparr>crGroups := cePamGroups E (crGroups s1)\<rparr>"
    have s2: "crUid s2 = crUid s" "seUid s2 = seUid s" "seGid s2 = seGid s" "sePamh s2 = sePamh s"
      "removeAuth s2 = removeAuth s" "removeCreds s2" "\<not> removeSession s2" "pamDeeds s2 = pamDeeds s @ [CaSetcred]"
      "crGroups s2 = cePamGroups E (ceInit E name (seGid s))"
      using g1 True assms(2) by (auto simp: s2_def sameButCreds_def pamDeeds_def pamDeed_def)
    show ?thesis
    proof (cases "ceMem E")
      case False
      then have "b = False" "t = pError (s2\<lparr>seSaved := None\<rparr>)"
        using assms(1) g True by (simp_all add: pamSession_def Let_def saveGids_def s2_def)
      with s2 show ?thesis by (simp add: pError_def pamDeeds_def)
    next
      case mem: True
      define s3 where "s3 = s2\<lparr>seSaved := Some (crGroups s2)\<rparr>"
      define s4 where "s4 = (if ceSetcred E \<noteq> 0 then s3 else did CaOpenSession (s3\<lparr>removeSession := True\<rparr>))"
      obtain b5 s5 where r: "resetGids E s4 = (b5, s5)" by fastforce
      have s4: "crUid s4 = crUid s" "seUid s4 = seUid s" "seGid s4 = seGid s" "sePamh s4 = sePamh s"
        "removeAuth s4 = removeAuth s" "removeCreds s4" "removeSession s4 = (ceSetcred E = 0)"
        "pamDeeds s4 = pamDeeds s @ CaSetcred # (if removeSession s4 then [CaOpenSession] else [])"
        "seSaved s4 = Some (cePamGroups E (ceInit E name (seGid s)))"
        using s2 by (auto simp: s4_def s3_def pamDeeds_def pamDeed_def)
      have "b = (ceSetcred E = 0 \<and> ceOpen E = 0)" "t = (if b then s5 else onLogin V_RET s5)"
        using assms(1) g True mem r
        by (auto simp: pamSession_def Let_def saveGids_def s4_def s3_def s2_def split: if_splits)
      with resetGids_same[OF r] s4 show ?thesis by (auto simp: sameButCreds_def pamDeeds_def)
    qed
  qed
qed

section \<open>The session belongs to the user\<close>

text \<open>What is left to the privileged process before it becomes the user.\<close>

definition rootDeed :: "clAct \<Rightarrow> bool" where
  "rootDeed a \<longleftrightarrow> (case a of CaSessReg _ \<Rightarrow> True | CaScript _ _ \<Rightarrow> True | CaMsg _ \<Rightarrow> True | _ \<Rightarrow> False)"

text \<open>A deed of the user, or one of the privileged process; that one has no groups, if no call fails.\<close>

definition rightful :: "bool \<Rightarrow> creds \<Rightarrow> creds \<times> clAct \<Rightarrow> bool" where
  "rightful clean user x \<longleftrightarrow> fst x = user \<or>
     fst (fst x) = 0 \<and> rootDeed (snd x) \<and> (clean \<longrightarrow> (\<exists>m. snd x = CaMsg m) \<or> snd (fst x) = (0, []))"

lemma rightful_steady:
  assumes "steady K s t" and "list_all (rightful clean user) (seActs s)"
    and "\<And>a. K a \<Longrightarrow> rightful clean user (creds s, a)"
  shows "list_all (rightful clean user) (seActs t)"
proof -
  from assms(1) obtain new where n: "seActs t = seActs s @ map (Pair (creds s)) new" "list_all K new"
    by (auto simp: steady_def)
  have "list_all (rightful clean user) (map (Pair (creds s)) new)"
    using n(2) assms(3) by (simp add: list_all_iff)
  then show ?thesis using n(1) assms(2) by simp
qed

lemma sourceScript_root: "sourceScript E e f a s = Some (r, t) \<Longrightarrow> steady rootDeed s t"
  by (rule sourceScript_steady [where K = rootDeed]) (simp_all add: rootDeed_def)

lemma cError_rightful:
  assumes "crUid s = 0" and "list_all (rightful clean user) (seActs s)"
  shows "list_all (rightful clean user) (seActs (cError s))"
  using assms by (simp add: cError_def rightful_def rootDeed_def creds_def)

lemma clientChild_rightful:
  assumes "clientChild E c d s = Some t" and "crUid s = 0" and "seSaved s = Some gs" and "seActs s = []"
    and clean: "clean \<longrightarrow> crGid s = 0 \<and> crGroups s = []"
  shows "list_all (rightful clean (seUid s, seGid s, gs)) (seActs t)"
proof -
  let ?ok = "rightful clean (seUid s, seGid s, gs)"
  let ?s1 = "did (CaSessReg True) s"
  from assms(1) obtain r s2 where sc: "sourceScript E (systemEnviron s) (scStartup c) (scSetup c) ?s1 = Some (r, s2)"
    by (auto simp: clientChild_def split: option.splits)
  have s2: "steady rootDeed s s2"
    by (rule steady_trans[OF steady_did sourceScript_root[OF sc]]) (simp add: rootDeed_def)
  have u2: "crUid s2 = 0" "seUid s2 = seUid s" "seGid s2 = seGid s" "seSaved s2 = Some gs"
    using s2 assms(2,3) by (auto simp: steady_def creds_def)
  have "list_all ?ok (seActs s2)"
  proof (rule rightful_steady[OF s2])
    show "rightful clean (seUid s, seGid s, gs) (creds s, a)" if "rootDeed a" for a
      using that assms(2) clean by (simp add: rightful_def creds_def)
  qed (simp add: assms(4))
  note ok2 = this
  define s3 where "s3 = s2\<lparr>userEnviron := foldl (\<lambda>e x. putEnv True True True x e) (userEnviron s2) (cePamEnv E)\<rparr>"
  have s3: "crUid s3 = 0" "seUid s3 = seUid s" "seGid s3 = seGid s" "seSaved s3 = Some gs" "list_all ?ok (seActs s3)"
    using u2 ok2 by (simp_all add: s3_def)
  obtain b4 s4 where g: "restoreGids E s3 = (b4, s4)" by fastforce
  obtain b5 s5 where u: "setUid E (seUid s4) s4 = (b5, s5)" by fastforce
  note g4 = restoreGids_same[OF g] and u5 = setUid_same[OF u]
  have t1: "r = 127 \<Longrightarrow> t = cError s2" and t2: "r \<noteq> 127 \<Longrightarrow> r \<noteq> 0 \<Longrightarrow> t = s2"
    using assms(1) sc by (auto simp: clientChild_def)
  have t3: "r = 0 \<Longrightarrow> \<not> b4 \<Longrightarrow> t = cError s4" and t4: "r = 0 \<Longrightarrow> b4 \<Longrightarrow> \<not> b5 \<Longrightarrow> t = cError s5"
    and t5: "r = 0 \<Longrightarrow> b4 \<Longrightarrow> b5 \<Longrightarrow> asUser E c d s5 = Some t"
    using assms(1) sc g u by (auto simp: clientChild_def Let_def s3_def)
  have ok4: "list_all ?ok (seActs s4)" "crUid s4 = 0" using g4 s3 by (auto simp: sameButCreds_def)
  have ok5: "list_all ?ok (seActs s5)" using u5 ok4 by (auto simp: sameButCreds_def)
  consider "r = 127" | "r \<noteq> 127" "r \<noteq> 0" | "r = 0" "\<not> b4" | "r = 0" "b4" "\<not> b5" | "r = 0" "b4" "b5" by blast
  then show ?thesis
  proof cases
    case 1
    then show ?thesis using t1 cError_rightful[OF u2(1) ok2] by simp
  next
    case 2
    then show ?thesis using t2 ok2 by simp
  next
    case 3
    then show ?thesis using t3 cError_rightful[OF ok4(2,1)] by simp
  next
    case 4
    then have "crUid s5 = 0" using ok4 u by (auto simp: setUid_def sysCred_def Let_def split: if_splits)
    then show ?thesis using t4 4 cError_rightful[OF _ ok5] by simp
  next
    case 5
    then have c5: "creds s5 = (seUid s, seGid s, gs)" using g4 u5 s3 by (auto simp: sameButCreds_def creds_def)
    have "steady whatever s5 t" using asUser_steady t5 5 by blast
    then show ?thesis by (rule rightful_steady) (simp_all add: ok5 rightful_def c5)
  qed
qed

lemma did_foldl [simp]:
  "crUid (foldl (\<lambda>s a. did (f a) s) s as) = crUid s" "seUid (foldl (\<lambda>s a. did (f a) s) s as) = seUid s"
  "seGid (foldl (\<lambda>s a. did (f a) s) s as) = seGid s" "sePamh (foldl (\<lambda>s a. did (f a) s) s as) = sePamh s"
  "removeAuth (foldl (\<lambda>s a. did (f a) s) s as) = removeAuth s"
  "removeCreds (foldl (\<lambda>s a. did (f a) s) s as) = removeCreds s"
  "removeSession (foldl (\<lambda>s a. did (f a) s) s as) = removeSession s"
  by (induction "as" arbitrary: s; simp)+

text \<open>What the preparations before PAM's leave alone.\<close>

definition unready :: "sess \<Rightarrow> sess \<Rightarrow> bool" where
  "unready s t \<longleftrightarrow> crUid t = crUid s \<and> seUid t = seUid s \<and> seGid t = seGid s \<and> sePamh t = sePamh s \<and>
     removeAuth t = removeAuth s \<and> removeCreds t = removeCreds s \<and> removeSession t = removeSession s \<and>
     pamDeeds t = pamDeeds s"

lemma pamDeeds_dmrc: "pamDeeds (foldl (\<lambda>s a. did (CaDmrc a) s) s as) = pamDeeds s"
  by (induction "as" arbitrary: s) (simp_all add: pamDeeds_def pamDeed_def)

lemma mergeArgs_unready: "mergeArgs E c h s = Some t \<Longrightarrow> unready s t"
  by (auto simp: mergeArgs_def unready_def pamDeeds_dmrc pamDeeds_def[of "s\<lparr>seDmrc := dm\<rparr>" for dm] pamDeeds_def[of s]
      split: option.splits prod.splits)

lemma clientEnvs_unready: "clientEnvs E c d pw s = Some t \<Longrightarrow> unready s t"
  by (auto simp: clientEnvs_def unready_def pamDeeds_def Let_def split: option.splits)

text \<open>The way to a started session: the account, the preparations and PAM's; then the process that is forked.\<close>

definition asBefore :: "sess \<Rightarrow> sess \<Rightarrow> bool" where
  "asBefore s t \<longleftrightarrow> crUid t = crUid s \<and> sePamh t = sePamh s \<and> removeAuth t = removeAuth s \<and>
     removeCreds t = removeCreds s \<and> removeSession t = removeSession s \<and> pamDeeds t = pamDeeds s"

text \<open>What follows the preparations of PAM, which went well or not.\<close>

definition startedFrom ::
    "clEnv \<Rightarrow> sessCfg \<Rightarrow> display \<Rightarrow> bool \<Rightarrow> sess \<Rightarrow> bool \<Rightarrow> sess \<Rightarrow> sess option \<Rightarrow> bool" where
  "startedFrom E c d b s4 r s' child \<longleftrightarrow>
     (if b then (\<exists>f. s' = onLogin f (did (CaChownCtrl (seUid s4)) (s4\<lparr>removeAuth := True\<rparr>))) \<and>
           (child = None \<and> \<not> r \<or> (\<exists>ch. r \<and> child = Some ch \<and>
              clientChild E c d ((did (CaChownCtrl (seUid s4)) (s4\<lparr>removeAuth := True\<rparr>))\<lparr>seActs := []\<rparr>) = Some ch))
         else s' = s4 \<and> \<not> r \<and> child = None)"

lemma startClient_D:
  assumes "startClient E c d s = Some (r, s', child)"
  shows "\<exists>u. lgUser (seLogin s) = Some u \<and>
    (asBefore s s' \<and> \<not> r \<and> child = None \<or>
     (\<exists>pw s3 b s4. ceGetpw E u = Some pw \<and> asBefore s s3 \<and> seUid s3 = pwUid pw \<and> seGid s3 = pwGid pw \<and>
        pamSession E (pwName pw) s3 = (b, s4) \<and>
        startedFrom E c d b s4 r s' child))"
proof -
  from assms obtain u where u: "lgUser (seLogin s) = Some u" by (auto simp: startClient_def split: option.splits)
  define s0 where "s0 = (if dmrcUser (seDmrc s) \<noteq> Some u
    then s\<lparr>seDmrc := (seDmrc s)\<lparr>dmrcUser := None, curDmrc := None\<rparr>\<rparr> else s)"
  have s0: "asBefore s s0" by (simp add: s0_def asBefore_def pamDeeds_def)
  note def = startClient_def[of E c d s, unfolded u option.case Let_def, folded s0_def]
  show ?thesis
  proof (cases "ceGetpw E u")
    case None
    from assms have "s' = pError s0" "child = None" "\<not> r" unfolding def None option.case by auto
    with s0 u show ?thesis by (auto simp: pError_def asBefore_def pamDeeds_def)
  next
    case (Some pw)
    define s1 where "s1 = onLogin (\<lambda>l. l\<lparr>lgUser := Some (pwName pw)\<rparr>) (s0\<lparr>seUid := pwUid pw, seGid := pwGid pw\<rparr>)"
    note def1 = def[unfolded Some option.case, folded s1_def]
    from assms obtain s2 where e: "clientEnvs E c d pw s1 = Some s2" by (auto simp: def1 split: if_splits option.splits)
    from assms e obtain s3 where m: "(if scDmrcDir c \<noteq> [] then mergeArgs E c True s2 else Some s2) = Some s3"
      by (auto simp: def1 split: if_splits option.splits)
    obtain b s4 where p: "pamSession E (pwName pw) s3 = (b, s4)" by fastforce
    have "unready s2 s3" using m mergeArgs_unready by (auto simp: unready_def split: if_splits)
    then have "unready s1 s3" using clientEnvs_unready[OF e] by (simp add: unready_def)
    then have "asBefore s s3" "seUid s3 = pwUid pw" "seGid s3 = pwGid pw"
      using s0 by (auto simp: asBefore_def unready_def s1_def pamDeeds_def)
    moreover have "startedFrom E c d b s4 r s' child"
      using assms by (auto simp: startedFrom_def def1 e m p split: if_splits option.splits)
    ultimately show ?thesis using u Some p by blast
  qed
qed

section \<open>A session of one user\<close>

definition demoCl :: clEnv where
  "demoCl = \<lparr>ceGetpw = leGetpw oneUser, ceCall = (\<lambda>_. True), ceInit = (\<lambda>n g. [g, 27]), cePamGroups = (\<lambda>gs. gs @ [44]),
     ceMem = True, ceSetcred = 0, ceOpen = 0, cePamEnv = [''LANG=C''], ceFork = True, ceStatus = (\<lambda>_. 0),
     ceExec = (\<lambda>_. True), ceChdir = True, ceGetenv = (\<lambda>_. None), ceLoad = (\<lambda>_. Missing),
     ceSave = \<lparr>svOpen = None, svWrite = Inr 26, svClose = None\<rparr>, ceAuth = demoAuthEnv, ceXauth = None\<rparr>"

definition demoSc :: sessCfg where
  "demoSc = \<lparr>scExport = [], scFifoDir = ''/run'', scSystemPath = ''/bin'', scUserPath = ''/usr/bin'', scSystemShell = ''/bin/sh'',
     scStartup = ''/Xstartup'', scReset = [], scSession = ''/Xsession'', scFailsafe = ''/xterm'', scLog = ''log'',
     scLogFallback = ''/tmp/log'', scSessDirs = [], scReLogin = False, scAutoLock = False, scSetup = None, scDmrcDir = [],
     scAuth = \<lparr>acAuths = None, acForce = False, acDir = ''/tmp''\<rparr>\<rparr>"

definition demoSess :: sess where
  "demoSess = \<lparr>seLogin = (atGreeter [])\<lparr>lgUser := Some ''kim''\<rparr>, seDmrc = \<lparr>dmrcUser = None, curDmrc = None, newDmrc = None\<rparr>,
     crUid = 0, crGid = 0, crGroups = [], seCalls = 0, seLogs = [LogOpen], seRandom = [], seActs = [], seSaved = None,
     seUid = 0, seGid = 0, sePamh = True, removeAuth = False, removeCreds = False, removeSession = False,
     userEnviron = None, systemEnviron = None\<rparr>"

lemma demo_child:
  "map_option (\<lambda>(r, s, ch). map_option (\<lambda>t. map fst (seActs t)) ch) (startClient demoCl demoSc (emptyDisplay 0 '':0'') demoSess) =
   Some (Some ([(0, 0, []), (0, 0, [])] @ replicate 5 (1000, 100, [100, 27, 44])))"
  by code_simp

lemma demo_ends:
  "(case startClient demoCl demoSc (emptyDisplay 0 '':0'') demoSess of None \<Rightarrow> None
    | Some (r, s1, ch) \<Rightarrow> map_option (\<lambda>(s2, ch2). (r, map snd (filter (pamDeed \<circ> snd) (seActs s2))))
        (clientExited demoCl demoSc (emptyDisplay 0 '':0'') True None s1)) =
   Some (True, [CaSetcred, CaOpenSession, CaCloseSession, CaDelCred, CaPamEnd])"
  by code_simp

text \<open>A name that the system spells with more characters than the user did does not fit where it is put.\<close>

lemma longer_name_overflows:
  assumes "lgUser (seLogin s) = Some u" and "ceGetpw E u = Some pw" and "length u < length (pwName pw)"
  shows "startClient E c d s = None"
  using assms by (simp add: startClient_def Let_def)

text \<open>C22. When a session has been started, whatever its process did before it became the user is the registration, the
  startup script and messages, done by root and, unless a call failed, without the user's groups; everything else, the
  files, the messages to the master and the programs of the session, is done with the user and group of the account and
  the groups PAM left. The process that stays is root's and has given up the groups again.
\<close>

theorem session_privileges:
  assumes "startClient E c d s = Some (r, s', Some ch)" and "crUid s = 0" and "\<not> removeSession s"
  shows "\<exists>u pw. lgUser (seLogin s) = Some u \<and> ceGetpw E u = Some pw \<and> crUid s' = 0 \<and>
    ((\<forall>n. ceCall E n) \<longrightarrow> crGid s' = 0 \<and> crGroups s' = []) \<and>
    list_all (rightful (\<forall>n. ceCall E n) (pwUid pw, pwGid pw, cePamGroups E (ceInit E (pwName pw) (pwGid pw)))) (seActs ch)"
proof -
  from startClient_D[OF assms(1)] obtain u pw s3 s4 f where u: "lgUser (seLogin s) = Some u" "ceGetpw E u = Some pw"
    and s3: "asBefore s s3" "seUid s3 = pwUid pw" "seGid s3 = pwGid pw"
    and p: "pamSession E (pwName pw) s3 = (True, s4)"
    and s': "s' = onLogin f (did (CaChownCtrl (seUid s4)) (s4\<lparr>removeAuth := True\<rparr>))"
    and ch: "clientChild E c d ((did (CaChownCtrl (seUid s4)) (s4\<lparr>removeAuth := True\<rparr>))\<lparr>seActs := []\<rparr>) = Some ch"
    by (auto simp: startedFrom_def split: if_splits)
  let ?s5 = "(did (CaChownCtrl (seUid s4)) (s4\<lparr>removeAuth := True\<rparr>))\<lparr>seActs := []\<rparr>"
  have "removeSession s3 = False" using s3(1) assms(3) by (simp add: asBefore_def)
  note q = pamSession_D[OF p this]
  have s4: "crUid s4 = 0" "seUid s4 = pwUid pw" "seGid s4 = pwGid pw"
    "seSaved s4 = Some (cePamGroups E (ceInit E (pwName pw) (pwGid pw)))"
    "(\<forall>n. ceCall E n) \<Longrightarrow> crGid s4 = 0 \<and> crGroups s4 = []"
    using q s3 assms(2) by (auto simp: asBefore_def)
  have "list_all (rightful (\<forall>n. ceCall E n) (seUid ?s5, seGid ?s5, cePamGroups E (ceInit E (pwName pw) (pwGid pw)))) (seActs ch)"
    using s4 by (intro clientChild_rightful[OF ch]) auto
  then show ?thesis using u s4 by (simp add: s')
qed

theorem session_privileges_witness:
  "\<exists>r s' ch. startClient demoCl demoSc (emptyDisplay 0 '':0'') demoSess = Some (r, s', Some ch) \<and> crUid s' = 0 \<and>
     list_all (rightful True (1000, 100, [100, 27, 44])) (seActs ch)"
proof -
  obtain r s' ch where v: "startClient demoCl demoSc (emptyDisplay 0 '':0'') demoSess = Some (r, s', Some ch)"
    using demo_child by auto
  have c: "crUid demoSess = 0" "\<not> removeSession demoSess" "lgUser (seLogin demoSess) = Some ''kim''"
    "ceGetpw demoCl ''kim'' = Some kim" "\<forall>n. ceCall demoCl n"
    "(pwUid kim, pwGid kim, cePamGroups demoCl (ceInit demoCl (pwName kim) (pwGid kim))) = (1000, 100, [100, 27, 44])"
    by (simp_all add: demoSess_def demoCl_def oneUser_def kim_def atGreeter_def)
  from session_privileges [OF v c(1,2)] c show ?thesis using v by auto
qed

text \<open>The process that takes the authorization back is the user, too.\<close>

lemma unauthChild_user:
  assumes "seActs s = []"
  shows "list_all (\<lambda>x. fst x = (seUid s, seGid s, gs)) (seActs (unauthChild E c d home s)) \<or> seSaved s \<noteq> Some gs"
proof -
  obtain b t where r: "restoreGids E s = (b, t)" by fastforce
  obtain b' t' where u: "setUid E (seUid t) t = (b', t')" by fastforce
  have e: "unauthChild E c d home s = (if b \<and> b' then
      did (CaUnauth (removeUserAuthorization (ceAuth E) d (scAuth c) home)) t' else if b then t' else t)"
    using r u by (cases b; cases b') (simp_all add: unauthChild_def)
  have a: "seActs t = []" "seActs t' = []" using restoreGids_same[OF r] setUid_same[OF u] assms by (simp_all add: sameButCreds_def)
  have "creds t' = (seUid s, seGid s, gs)" if "b" "b'" "seSaved s = Some gs"
    using that restoreGids_same[OF r] setUid_same[OF u] by (simp add: sameButCreds_def creds_def)
  then show ?thesis unfolding e using a by (cases b; cases b') auto
qed

section \<open>What PAM opened is closed\<close>

lemma sourceScript_asBefore: "sourceScript E e f a s = Some (r, t) \<Longrightarrow> asBefore s t"
  by (auto simp: sourceScript_def asBefore_def pamDeeds_def pamDeed_def
      split: if_splits outcome.splits option.splits)

lemma closePam_pamDeeds:
  "pamDeeds (closePam E s) = pamDeeds s @
     (if removeCreds s then (if removeSession s then [CaCloseSession] else []) @ [CaDelCred] else []) @
     (if sePamh s then [CaPamEnd] else []) \<and>
   \<not> removeCreds (closePam E s) \<and> \<not> sePamh (closePam E s)"
proof -
  obtain b t where r: "restoreGids E s = (b, t)" by fastforce
  define t1 where "t1 = did CaDelCred (if removeSession t then did CaCloseSession t else t)"
  obtain b2 t2 where g: "resetGids E t1 = (b2, t2)" by fastforce
  have t1: "pamDeeds t1 = pamDeeds s @ (if removeSession s then [CaCloseSession] else []) @ [CaDelCred]" "sePamh t1 = sePamh s"
    using restoreGids_same[OF r] by (auto simp: t1_def sameButCreds_def pamDeeds_def pamDeed_def)
  have t2: "pamDeeds (t2\<lparr>removeCreds := False\<rparr>) = pamDeeds t1" "sePamh t2 = sePamh s"
    using resetGids_same[OF g] t1 by (auto simp: sameButCreds_def pamDeeds_def)
  have e: "removeCreds s \<Longrightarrow> closePam E s = (if sePamh s then (did CaPamEnd (t2\<lparr>removeCreds := False\<rparr>))\<lparr>sePamh := False\<rparr>
      else t2\<lparr>removeCreds := False\<rparr>)"
    using r g t2 by (simp add: closePam_def t1_def)
  show ?thesis
  proof (cases "removeCreds s")
    case True
    show ?thesis unfolding e[OF True] using True t1 t2 by (simp add: pamDeeds_def pamDeed_def)
  next
    case False
    then show ?thesis by (simp add: closePam_def pamDeeds_def pamDeed_def)
  qed
qed

text \<open>C23. However the start of a session ends, the clean-up after it closes with PAM exactly what was opened, in the reverse
  order, and ends the conversation with PAM; for a session that was started both the credentials and the session.
\<close>

theorem pam_session_closed:
  assumes "startClient E c d s = Some (r, s1, child)" and "clientExited E c d forked home s1 = Some (s2, child2)"
    and "\<not> removeCreds s" and "\<not> removeSession s"
  shows "\<exists>k. pamDeeds s2 = pamDeeds s @ k @ (if sePamh s then [CaPamEnd] else []) \<and>
      (k = [CaSetcred, CaOpenSession, CaCloseSession, CaDelCred] \<or> \<not> r \<and> (k = [] \<or> k = [CaSetcred, CaDelCred])) \<and>
      \<not> removeCreds s2 \<and> \<not> sePamh s2"
proof -
  obtain t where t: "asBefore s1 t \<or> sePamh t = sePamh s1 \<and> removeCreds t = removeCreds s1 \<and>
      removeSession t = removeSession s1 \<and> pamDeeds t = pamDeeds s1" and s2: "s2 = closePam E t"
  proof (cases "removeAuth s1")
    case True
    with assms(2) obtain q t where q: "sourceScript E (systemEnviron s1) (scReset c) (scSetup c) s1 = Some (q, t)"
      and e: "s2 = closePam E ((did (CaSessReg False) t)\<lparr>removeAuth := False\<rparr>)"
      by (auto simp: clientExited_def Let_def split: option.splits)
    show ?thesis
      using sourceScript_asBefore[OF q] by (intro that[OF _ e]) (simp add: asBefore_def pamDeeds_def pamDeed_def)
  next
    case False
    with assms(2) have "s2 = closePam E s1" by (simp add: clientExited_def)
    then show ?thesis by (intro that[of s1]) simp_all
  qed
  have t': "sePamh t = sePamh s1" "removeCreds t = removeCreds s1" "removeSession t = removeSession s1" "pamDeeds t = pamDeeds s1"
    using t by (auto simp: asBefore_def)
  have "sePamh s1 = sePamh s \<and> (\<exists>k0. pamDeeds s1 = pamDeeds s @ k0 \<and>
      (k0 = [] \<and> \<not> r \<and> \<not> removeCreds s1 \<or> k0 = [CaSetcred] \<and> \<not> r \<and> removeCreds s1 \<and> \<not> removeSession s1 \<or>
       k0 = [CaSetcred, CaOpenSession] \<and> removeCreds s1 \<and> removeSession s1))"
  proof -
    have "\<exists>(pw::passwd) s3 b s4. asBefore s s3 \<and> pamSession E (pwName pw) s3 = (b, s4) \<and>
         (if b then (\<exists>f. s1 = onLogin f (did (CaChownCtrl (seUid s4)) (s4\<lparr>removeAuth := True\<rparr>))) else s1 = s4 \<and> \<not> r)"
      if n: "\<not> (asBefore s s1 \<and> \<not> r)"
    proof -
      from startClient_D[OF assms(1)] n obtain pw :: passwd and s3 b s4 where a: "asBefore s s3" "pamSession E (pwName pw) s3 = (b, s4)"
        and c: "startedFrom E c d b s4 r s1 child" by blast
      from c have "if b then (\<exists>f. s1 = onLogin f (did (CaChownCtrl (seUid s4)) (s4\<lparr>removeAuth := True\<rparr>)))
          else s1 = s4 \<and> \<not> r" by (cases b) (simp_all add: startedFrom_def)
      with a show ?thesis by blast
    qed
    then consider "asBefore s s1" "\<not> r"
      | pw :: passwd and s3 b s4 where "asBefore s s3" "pamSession E (pwName pw) s3 = (b, s4)"
        "if b then (\<exists>f. s1 = onLogin f (did (CaChownCtrl (seUid s4)) (s4\<lparr>removeAuth := True\<rparr>))) else s1 = s4 \<and> \<not> r"
      by blast
    then show ?thesis
    proof cases
      case 1
      then show ?thesis using assms(3) by (simp add: asBefore_def)
    next
      case 2
      have "removeSession s3 = False" "removeCreds s3 = False" using 2(1) assms(3,4) by (simp_all add: asBefore_def)
      note q = pamSession_D[OF 2(2) this(1)]
      have "sePamh s1 = sePamh s4" "removeCreds s1 = removeCreds s4" "removeSession s1 = removeSession s4"
        "pamDeeds s1 = pamDeeds s4" "r \<Longrightarrow> b"
        using 2(3) by (auto simp: pamDeeds_def pamDeed_def split: if_splits)
      with q 2(1) \<open>removeCreds s3 = False\<close> show ?thesis
        by (cases "removeSession s4") (auto simp: asBefore_def)
    qed
  qed
  then obtain k0 where p: "sePamh s1 = sePamh s" and k0: "pamDeeds s1 = pamDeeds s @ k0"
    and k: "k0 = [] \<and> \<not> r \<and> \<not> removeCreds s1 \<or> k0 = [CaSetcred] \<and> \<not> r \<and> removeCreds s1 \<and> \<not> removeSession s1 \<or>
       k0 = [CaSetcred, CaOpenSession] \<and> removeCreds s1 \<and> removeSession s1" by blast
  note cl = closePam_pamDeeds[of E t, unfolded t' p k0, folded s2]
  from k show ?thesis
    by (elim disjE) (use cl in auto)
qed

theorem pam_session_closed_witness:
  "\<exists>s2. pamDeeds s2 = [CaSetcred, CaOpenSession, CaCloseSession, CaDelCred, CaPamEnd] \<and> \<not> sePamh s2"
proof -
  obtain s1 ch s2 ch2 where v: "startClient demoCl demoSc (emptyDisplay 0 '':0'') demoSess = Some (True, s1, ch)"
    and w: "clientExited demoCl demoSc (emptyDisplay 0 '':0'') True None s1 = Some (s2, ch2)"
    using demo_ends by (auto split: option.splits)
  have c: "\<not> removeCreds demoSess" "\<not> removeSession demoSess" "sePamh demoSess" "pamDeeds demoSess = []"
    by (simp_all add: demoSess_def pamDeeds_def)
  from pam_session_closed [OF v w c(1,2)] c(3,4) show ?thesis by auto
qed

end
