(* ===== verification/SessReg.thy ===== *)
theory SessReg
  imports Prelude
begin

text \<open>
  The registration of sessions in utmp, wtmp and lastlog, \<^verbatim>\<open>kdm/backend/sessreg.c\<close> with \<^verbatim>\<open>utmpx\<close> on Linux: the record
  made for a display. A field is its bytes, filled up with zeros; \<open>None\<close> is a copy from outside a string or to
  outside a field. What the C library does with the record, and whether it can write the files, is not modelled.
\<close>

section \<open>Records and copies\<close>

datatype utType = USER_PROCESS | DEAD_PROCESS

record utmpx =
  utType :: utType
  utPid :: int
  utLine :: string
  utId :: string
  utUser :: string
  utHost :: string
  utTime :: int

abbreviation UT_LINESIZE :: nat where "UT_LINESIZE \<equiv> 32"
abbreviation UT_HOSTSIZE :: nat where "UT_HOSTSIZE \<equiv> 256"
abbreviation UT_IDSIZE :: nat where "UT_IDSIZE \<equiv> 4"
abbreviation UT_NAMESIZE :: nat where "UT_NAMESIZE \<equiv> 32"

definition zeros :: "nat \<Rightarrow> string" where
  "zeros n = replicate n NUL"

text \<open>\<open>memcpy\<close> to an offset in a field, from a place in a string that ends with a zero.\<close>

definition copyTo :: "nat \<Rightarrow> string \<Rightarrow> nat \<Rightarrow> nat \<Rightarrow> string \<Rightarrow> string option" where
  "copyTo off src i n buf =
     (if off + n \<le> length buf \<and> i + n \<le> length src + 1
      then Some (take off buf @ take n (drop i (src @ [NUL])) @ drop (off + n) buf) else None)"

definition putChar :: "nat \<Rightarrow> char \<Rightarrow> string \<Rightarrow> string option" where
  "putChar i c buf = (if i < length buf then Some (buf[i := c]) else None)"

definition strncpyTo :: "nat \<Rightarrow> string \<Rightarrow> string" where
  "strncpyTo n src = take n (src @ zeros n)"

section \<open>The id of a display\<close>

fun crcBits :: "nat \<Rightarrow> 32 word \<Rightarrow> 32 word" where
  "crcBits 0 b = b"
| "crcBits (Suc n) b = crcBits n (xor (drop_bit 1 b) (and (- (and b 1)) 0xedb88320))"

definition crc32s :: "string \<Rightarrow> 32 word" where
  "crc32s str =
     foldl (\<lambda>crc c. xor (drop_bit 8 crc) (crcBits 8 (xor (and crc 255) (of_nat (of_char c))))) 0xffffffff str"

definition idChar :: "nat \<Rightarrow> char" where
  "idChar c = char_of (if c < 26 then c + 65 else if c < 52 then c - 26 + 97 else c - 52 + 48)"

fun idRest :: "nat \<Rightarrow> nat \<Rightarrow> string" where
  "idRest 0 crc = []"
| "idRest (Suc n) crc = idChar (crc mod 62) # idRest n (crc div 62)"

definition remoteId :: "string \<Rightarrow> string" where
  "remoteId name = (let crc = unat (crc32s name) in char_of (crc mod 26 + 65) # idRest (UT_IDSIZE - 1) (crc div 26))"

section \<open>The record\<close>

definition hostField :: "string \<Rightarrow> nat \<Rightarrow> string option" where
  "hostField name colon =
     (if colon > UT_HOSTSIZE then
        Option.bind (putChar 0 CHR ''~'' (zeros UT_HOSTSIZE)) (copyTo 1 name (colon - (UT_HOSTSIZE - 1)) (UT_HOSTSIZE - 1))
      else copyTo 0 name 0 colon (zeros UT_HOSTSIZE))"

text \<open>What is put in front of the number of a display whose name is too long, in \<open>left\<close> bytes.\<close>

definition shortHost :: "string \<Rightarrow> nat \<Rightarrow> nat \<Rightarrow> string \<Rightarrow> string option" where
  "shortHost name colon left line =
     (let dot = length (takeWhile (\<lambda>c. c \<noteq> CHR ''.'') name); hasDot = (CHR ''.'' \<in> set name) in
      if hasDot \<and> dot < left then
        Option.bind (copyTo 0 name 0 (left - 1) line) (putChar (left - 1) CHR ''~'')
      else
        Option.bind (Option.bind (copyTo 0 name 0 (left div 2 - 1) line) (putChar (left div 2 - 1) CHR ''~''))
          (\<lambda>line.
            if hasDot then
              Option.bind (copyTo (left div 2) name (dot - (left - left div 2 - 1)) (left - left div 2 - 1) line)
                (putChar (left - 1) CHR ''~'')
            else copyTo (left div 2) name (colon - (left - left div 2)) (left - left div 2) line))"

definition lineField :: "string \<Rightarrow> nat \<Rightarrow> string option" where
  "lineField name colon =
     (let clen = length name - colon; left = UT_LINESIZE - clen in
      if colon \<le> left then copyTo 0 name 0 (length name) (zeros UT_LINESIZE)
      else Option.bind (shortHost name colon left (zeros UT_LINESIZE)) (copyTo left name colon clen))"

text \<open>\<open>Some None\<close>: nothing is registered.\<close>

definition sessreg :: "bool \<Rightarrow> string \<Rightarrow> int \<Rightarrow> string \<Rightarrow> int \<Rightarrow> utmpx option option" where
  "sessreg useSessReg name pid user tm =
     (if \<not> useSessReg then Some None
      else if CHR '':'' \<notin> set name then None
      else
        let colon = length (takeWhile (\<lambda>c. c \<noteq> CHR '':'') name) in
        if length name - colon > UT_LINESIZE - 2 then Some None
        else
          Option.bind (if colon = 0 \<or> pid = 0 then Some (zeros UT_HOSTSIZE) else hostField name colon) (\<lambda>host.
          Option.bind (lineField name colon) (\<lambda>line.
          Some (Some \<lparr>utType = (if pid \<noteq> 0 then USER_PROCESS else DEAD_PROCESS), utPid = pid, utLine = line,
            utId = (if colon = 0 then strncpyTo UT_IDSIZE name else remoteId name),
            utUser = (if pid \<noteq> 0 then strncpyTo UT_NAMESIZE user else zeros UT_NAMESIZE),
            utHost = host, utTime = tm\<rparr>))))"

lemma crc_check: "crc32s ''a'' = 0x174841bc"
  by code_simp

section \<open>No copy leaves its field\<close>

lemma copyTo_fits:
  assumes "off + n \<le> length buf" "i + n \<le> length src"
  shows "copyTo off src i n buf = Some (take off buf @ take n (drop i src) @ drop (off + n) buf)"
  using assms by (simp add: copyTo_def)

lemma take_drop_length [simp]: "i + n \<le> length xs \<Longrightarrow> length (take n (drop i xs)) = n"
  by simp

lemma zeros_length [simp]: "length (zeros n) = n"
  by (simp add: zeros_def)

lemma hostField_fits:
  assumes "colon \<le> length name"
  shows "\<exists>h. hostField name colon = Some h \<and> length h = UT_HOSTSIZE"
  using assms by (auto simp: hostField_def putChar_def copyTo_fits)

text \<open>A name that is cut keeps its beginning, and a tilde stands where characters are missing.\<close>

lemma copy_mark:
  assumes "off + n < length buf" "i + n \<le> length src"
  shows "Option.bind (copyTo off src i n buf) (putChar (off + n) c) =
    Some (take off buf @ take n (drop i src) @ c # drop (Suc (off + n)) buf)"
  using assms by (simp add: copyTo_fits putChar_def list_update_append upd_conv_take_nth_drop Cons_nth_drop_Suc [symmetric])

lemma set_take_front: "x \<in> set a \<Longrightarrow> length a \<le> n \<Longrightarrow> x \<in> set (take n (a @ b))"
  by simp

lemma take_front: "m \<le> k \<Longrightarrow> k \<le> length xs \<Longrightarrow> take m (take k xs @ ys) = take m xs"
  by simp

lemma shortHost_fits:
  assumes "colon \<le> length name" "left < colon" "2 \<le> left" "left \<le> length line"
  shows "\<exists>l. shortHost name colon left line = Some l \<and> length l = length line
     \<and> take (left div 2 - 1) l = take (left div 2 - 1) name \<and> CHR ''~'' \<in> set (take left l)"
proof -
  let ?h = "left div 2" and ?dot = "length (takeWhile (\<lambda>c. c \<noteq> CHR ''.'') name)"
  have h: "1 \<le> ?h" "?h < left" using assms(3) by simp_all
  have len: "left \<le> length name" using assms(1,2) by simp
  let ?l1 = "take (?h - 1) name @ CHR ''~'' # drop ?h line"
  have l1: "length ?l1 = length line" "take ?h ?l1 = take (?h - 1) name @ [CHR ''~'']" using h len assms(4) by simp_all
  have m: "CHR ''~'' \<in> set (take ?h ?l1)" unfolding l1(2) by simp
  have m2: "length (take ?h ?l1) \<le> left"
    by (rule le_trans [OF _ less_imp_le [OF h(2)]]) (simp only: length_take min.cobounded2)
  have c1: "Option.bind (copyTo 0 name 0 (?h - 1) line) (putChar (?h - 1) CHR ''~'') = Some ?l1"
    using copy_mark [of 0 "?h - 1" line 0 name "CHR ''~''"] h len assms(4) by simp
  consider "CHR ''.'' \<in> set name" "?dot < left" | "CHR ''.'' \<in> set name" "left \<le> ?dot" | "CHR ''.'' \<notin> set name" by force
  then show ?thesis
  proof cases
    case 1
    let ?l = "take (left - 1) name @ CHR ''~'' # drop left line"
    have "shortHost name colon left line = Some ?l"
      using 1 copy_mark [of 0 "left - 1" line 0 name "CHR ''~''"] len assms(3,4) by (simp add: shortHost_def Let_def)
    moreover have "take (?h - 1) ?l = take (?h - 1) name" using h len by (simp add: min_def)
    ultimately show ?thesis using len assms(3,4) by (intro exI [of _ ?l]) simp
  next
    case 2
    let ?n = "left - ?h - 1"
    let ?l = "take ?h ?l1 @ take ?n (drop (?dot - ?n) name) @ CHR ''~'' # drop left ?l1"
    have dot: "?dot \<le> length name" by (rule length_takeWhile_le)
    have "Option.bind (copyTo ?h name (?dot - ?n) ?n ?l1) (putChar (left - 1) CHR ''~'') = Some ?l"
      using copy_mark [of ?h ?n ?l1 "?dot - ?n" name "CHR ''~''"] 2(2) dot h l1(1) assms(4) by simp
    then have "shortHost name colon left line = Some ?l" using 2 c1 by (simp add: shortHost_def Let_def)
    moreover have "length ?l = length line" using l1(1) 2(2) dot h assms(4) by simp
    moreover have "take (?h - 1) ?l = take (?h - 1) name" using l1(2) h len by (simp add: min_def)
    moreover have "CHR ''~'' \<in> set (take left ?l)" by (rule set_take_front [OF m m2])
    ultimately show ?thesis by (intro exI [of _ ?l] conjI)
  next
    case 3
    let ?n = "left - ?h"
    let ?l = "take ?h ?l1 @ take ?n (drop (colon - ?n) name) @ drop left ?l1"
    have "copyTo ?h name (colon - ?n) ?n ?l1 = Some ?l"
      using copyTo_fits [of ?h ?n ?l1 "colon - ?n" name] h l1(1) assms by simp
    then have "shortHost name colon left line = Some ?l" using 3 c1 by (simp add: shortHost_def Let_def)
    moreover have "length ?l = length line" using l1(1) h assms by simp
    moreover have "take (?h - 1) ?l = take (?h - 1) name" using l1(2) h len by (simp add: min_def)
    moreover have "CHR ''~'' \<in> set (take left ?l)" by (rule set_take_front [OF m m2])
    ultimately show ?thesis by (intro exI [of _ ?l] conjI)
  qed
qed

lemma lineField_fits:
  assumes "colon \<le> length name" "length name - colon \<le> UT_LINESIZE - 2"
  shows "\<exists>l. lineField name colon = Some l \<and> length l = UT_LINESIZE \<and>
    (if length name \<le> UT_LINESIZE then l = name @ zeros (UT_LINESIZE - length name)
     else let left = UT_LINESIZE - (length name - colon) in
       drop left l = drop colon name \<and> take (left div 2 - 1) l = take (left div 2 - 1) name \<and> CHR ''~'' \<in> set (take left l))"
proof (cases "length name \<le> UT_LINESIZE")
  case True
  then have "colon \<le> UT_LINESIZE - (length name - colon)" using assms(1) by arith
  then show ?thesis using True by (simp add: lineField_def Let_def copyTo_fits zeros_def)
next
  case False
  let ?left = "UT_LINESIZE - (length name - colon)"
  have b: "?left < colon" "2 \<le> ?left" "?left \<le> length (zeros UT_LINESIZE)"
    using assms False unfolding zeros_length by arith+
  obtain l where l: "shortHost name colon ?left (zeros UT_LINESIZE) = Some l" "length l = UT_LINESIZE"
    "take (?left div 2 - 1) l = take (?left div 2 - 1) name" "CHR ''~'' \<in> set (take ?left l)"
    using shortHost_fits [where line = "zeros UT_LINESIZE", OF assms(1) b] unfolding zeros_length by blast
  let ?l = "take ?left l @ drop colon name"
  have "lineField name colon = Some ?l"
    using l(1,2) assms False by (simp add: lineField_def Let_def copyTo_fits)
  moreover have "length ?l = UT_LINESIZE" "drop ?left ?l = drop colon name" "take ?left ?l = take ?left l"
    using l(2) assms by simp_all
  moreover have "take (?left div 2 - 1) ?l = take (?left div 2 - 1) name"
    unfolding l(3) [symmetric] by (rule take_front, arith) (simp add: l(2))
  ultimately show ?thesis using l(4) False by (intro exI [of _ ?l]) (simp add: Let_def)
qed

section \<open>The record of a session\<close>

lemma strncpyTo_length [simp]: "length (strncpyTo n s) = n"
  by (simp add: strncpyTo_def)

lemma idRest_length [simp]: "length (idRest n c) = n"
  by (induction n arbitrary: c) simp_all

lemma of_char_letter: "n < 26 \<Longrightarrow> of_char (char_of (n + 65 :: nat)) = n + 65"
  by (simp add: of_char_of)

text \<open>The id of a display somewhere else begins with a capital, and so is not that of a local one.\<close>

lemma remoteId_first: "length (remoteId name) = UT_IDSIZE"
  "65 \<le> (of_char (hd (remoteId name)) :: nat) \<and> (of_char (hd (remoteId name)) :: nat) \<le> 90"
  using of_char_letter [of "unat (crc32s name) mod 26"] by (simp_all add: remoteId_def Let_def)

definition hostPart :: "string \<Rightarrow> string" where
  "hostPart name = takeWhile (\<lambda>c. c \<noteq> CHR '':'') name"

text \<open>The record that names a display: its line and its id.\<close>

definition registeredAs :: "string \<Rightarrow> utmpx \<Rightarrow> bool" where
  "registeredAs name r \<longleftrightarrow>
     (let num = drop (length (hostPart name)) name; left = UT_LINESIZE - length num in
      length (utLine r) = UT_LINESIZE \<and> length (utHost r) = UT_HOSTSIZE \<and> length (utId r) = UT_IDSIZE
        \<and> length (utUser r) = UT_NAMESIZE
      \<and> (if length name \<le> UT_LINESIZE then utLine r = name @ zeros (UT_LINESIZE - length name)
         else drop left (utLine r) = num \<and> take (left div 2 - 1) (utLine r) = take (left div 2 - 1) name
            \<and> CHR ''~'' \<in> set (take left (utLine r)))
      \<and> (if hostPart name = [] then utId r = strncpyTo UT_IDSIZE name
         else 65 \<le> (of_char (hd (utId r)) :: nat) \<and> (of_char (hd (utId r)) :: nat) \<le> 90))"

lemma sessreg_registers:
  assumes "CHR '':'' \<in> set name" "length name - length (hostPart name) \<le> UT_LINESIZE - 2"
  shows "\<exists>r. sessreg True name pid user tm = Some (Some r) \<and> registeredAs name r
     \<and> lineField name (length (hostPart name)) = Some (utLine r)
     \<and> utId r = (if hostPart name = [] then strncpyTo UT_IDSIZE name else remoteId name)
     \<and> utType r = (if pid \<noteq> 0 then USER_PROCESS else DEAD_PROCESS)"
proof -
  let ?c = "length (hostPart name)"
  have c: "?c \<le> length name" by (simp add: hostPart_def length_takeWhile_le)
  obtain l where l: "lineField name ?c = Some l" "length l = UT_LINESIZE"
    "if length name \<le> UT_LINESIZE then l = name @ zeros (UT_LINESIZE - length name)
     else let left = UT_LINESIZE - (length name - ?c) in
       drop left l = drop ?c name \<and> take (left div 2 - 1) l = take (left div 2 - 1) name \<and> CHR ''~'' \<in> set (take left l)"
    using lineField_fits [OF c assms(2)] by blast
  obtain h where h: "(if ?c = 0 \<or> pid = 0 then Some (zeros UT_HOSTSIZE) else hostField name ?c) = Some h"
    "length h = UT_HOSTSIZE"
    using hostField_fits [OF c] by (cases "?c = 0 \<or> pid = 0") auto
  let ?r = "\<lparr>utType = (if pid \<noteq> 0 then USER_PROCESS else DEAD_PROCESS), utPid = pid, utLine = l,
     utId = (if ?c = 0 then strncpyTo UT_IDSIZE name else remoteId name),
     utUser = (if pid \<noteq> 0 then strncpyTo UT_NAMESIZE user else zeros UT_NAMESIZE), utHost = h, utTime = tm\<rparr>"
  have "sessreg True name pid user tm = Some (Some ?r)"
    using assms l(1) h(1) by (simp add: sessreg_def Let_def hostPart_def [symmetric])
  moreover have "registeredAs name ?r"
    using l(2,3) h(2) remoteId_first [of name] by (auto simp: registeredAs_def Let_def split: if_splits)
  ultimately show ?thesis using l(1) by (intro exI [of _ ?r]) simp
qed

text \<open>C40. A display with a colon in its name is registered unless the part from the colon on is longer
  than 30 characters. No copy leaves its field: the fields have their sizes, the line is the name if it fits, else
  it begins as the name does, has a tilde and ends with the part from the colon on; the id is the first four
  characters of the name of a local display, and begins with a capital for another. The end of a session is written under the same line and id as its beginning,
  whoever the user and whenever, so that it closes that entry.\<close>

theorem session_registered:
  assumes "CHR '':'' \<in> set name"
  shows "if length (dropWhile (\<lambda>c. c \<noteq> CHR '':'') name) > 30 then sessreg True name pid user tm = Some None
     else \<exists>r r'. sessreg True name pid user tm = Some (Some r) \<and> registeredAs name r
       \<and> (pid \<noteq> 0 \<longrightarrow> utType r = USER_PROCESS)
       \<and> sessreg True name 0 user' tm' = Some (Some r') \<and> utType r' = DEAD_PROCESS \<and> utLine r' = utLine r \<and> utId r' = utId r"
proof -
  have e: "length (dropWhile (\<lambda>c. c \<noteq> CHR '':'') name) = length name - length (hostPart name)"
    by (simp add: dropWhile_eq_drop hostPart_def)
  show ?thesis
  proof (cases "length name - length (hostPart name) \<le> UT_LINESIZE - 2")
    case False
    then show ?thesis using assms e by (simp add: sessreg_def Let_def hostPart_def)
  next
    case True
    from sessreg_registers [OF assms True, of pid user tm] sessreg_registers [OF assms True, of 0 user' tm'] True e
    show ?thesis by auto
  qed
qed

text \<open>A terminal whose name is cut; what follows the dot in its host is dropped.\<close>

definition farName :: string where
  "farName = ''terminal.in.the.basement.example.org:12''"

theorem session_registered_witness:
  "\<exists>r r'. sessreg True farName 7 ''kim'' 5 = Some (Some r) \<and> registeredAs farName r
     \<and> utLine r = ''terminal.in.the.basement.exa~:12'' \<and> sessreg True farName 0 [] 9 = Some (Some r') \<and> utLine r' = utLine r \<and> utId r' = utId r"
proof -
  have c: "CHR '':'' \<in> set farName" by (simp add: farName_def)
  have n: "\<not> 30 < length (dropWhile (\<lambda>c. c \<noteq> CHR '':'') farName)" by (simp add: farName_def)
  have l: "lineField farName 36 = Some ''terminal.in.the.basement.exa~:12''" by code_simp
  have h: "length (takeWhile (\<lambda>c. c \<noteq> CHR '':'') farName) = 36" by (simp add: farName_def)
  have u: "utLine r = ''terminal.in.the.basement.exa~:12''" if "sessreg True farName 7 ''kim'' 5 = Some (Some r)" for r
    using that l h by (auto simp: sessreg_def Let_def split: if_splits bind_splits)
  from session_registered [OF c, of 7 "''kim''" 5 "[]" 9] n obtain r r' where
    "sessreg True farName 7 ''kim'' 5 = Some (Some r)" "registeredAs farName r"
    "sessreg True farName 0 [] 9 = Some (Some r')" "utLine r' = utLine r" "utId r' = utId r" by auto
  with u show ?thesis by blast
qed

text \<open>Without a colon the null pointer \<^verbatim>\<open>strchr\<close> returns is read.\<close>

lemma name_without_colon: "CHR '':'' \<notin> set name \<Longrightarrow> sessreg True name pid user tm = None"
  by (simp add: sessreg_def)

lemma demo_local: "map_option (map_option (\<lambda>u. (takeWhile ((\<noteq>) NUL) (utLine u), takeWhile ((\<noteq>) NUL) (utId u))))
    (sessreg True '':0'' 7 ''kim'' 5) = Some (Some ('':0'', '':0''))"
  by code_simp

end
